(* ===== verification/Prelude.thy ===== *)
theory Prelude
  imports Main "HOL-Library.Word" "HOL-Library.AList"
begin

text \<open>
  What every component of the development shares: machine integers (\<open>u64\<close> is a 64 bit word
  whose \<open>+\<close> wraps, \<open>usize\<close> counts are \<open>nat\<close> with the saturation of the source written out),
  byte strings (a Rust \<open>str\<close> is its UTF-8 byte sequence, one HOL \<open>char\<close> per byte, so
  \<open>length\<close> is the \<open>len()\<close> of Rust), hash maps as association lists with distinct keys,
  ASCII character classes, splitting, decimal numerals, and the proof hint collections.
\<close>

section \<open>Hint collections\<close>

named_theorems model_defs \<open>unfoldings of the small definitions of the model\<close>
named_theorems inv_intros \<open>preservation of the invariants, one fact per operation\<close>
named_theorems frame \<open>fields an operation leaves unchanged\<close>

section \<open>Machine integers\<close>

type_synonym u64 = "64 word"
type_synonym u32 = "32 word"

definition u64_max :: u64 where
  "u64_max = - 1"

definition usize_max :: nat where
  "usize_max = 2 ^ 64 - 1"

text \<open>\<open>usize::saturating_add\<close>, \<open>usize::saturating_sub\<close> and \<open>usize::checked_add\<close>.\<close>

definition sat_add :: "nat \<Rightarrow> nat \<Rightarrow> nat" where
  "sat_add a b = min (a + b) usize_max"

definition sat_sub :: "nat \<Rightarrow> nat \<Rightarrow> nat" where
  "sat_sub a b = a - b"

definition checked_add :: "nat \<Rightarrow> nat \<Rightarrow> nat option" where
  "checked_add a b = (if a + b \<le> usize_max then Some (a + b) else None)"

lemma sat_add_exact: "a + b \<le> usize_max \<Longrightarrow> sat_add a b = a + b"
  by (simp add: sat_add_def)

lemma sat_add_le: "sat_add a b \<le> a + b"
  by (simp add: sat_add_def)

lemma checked_add_Some [simp]: "checked_add a b = Some c \<longleftrightarrow> c = a + b \<and> a + b \<le> usize_max"
  by (auto simp: checked_add_def)

lemma u64_succ_gt: "(x :: u64) \<noteq> u64_max \<Longrightarrow> x < x + 1"
  using inc_less_eq_self_iff_eq [of x] by (auto simp: u64_max_def not_le)

lemma u64_max_greatest [simp]: "(x :: u64) \<le> u64_max"
  by (simp add: u64_max_def)

lemma u64_le_succ_mono: "(x :: u64) \<le> y \<Longrightarrow> y \<noteq> u64_max \<Longrightarrow> x \<le> y + 1"
  using u64_succ_gt [of y] by simp

lemma u64_succ_neq [simp]: "(x :: u64) + 1 \<noteq> x" "x \<noteq> x + 1"
  by simp_all

lemma unat_u64_max: "unat u64_max = 2 ^ 64 - 1"
  by (simp add: u64_max_def unsigned_minus_1_eq_mask mask_eq_exp_minus_1)

lemma u64_max_unat: "x = u64_max \<longleftrightarrow> unat x = 2 ^ 64 - 1"
  by (metis unat_u64_max word_unat_eq_iff)

section \<open>Results\<close>

text \<open>
  A fallible operation returns \<open>'e + 'a\<close>, with \<open>Inl\<close> for the error. \<open>bind_r\<close> is the
  \<open>?\<close> operator of the source.
\<close>

fun bind_r :: "'e + 'a \<Rightarrow> ('a \<Rightarrow> 'e + 'b) \<Rightarrow> 'e + 'b" where
  "bind_r (Inl e) f = Inl e"
| "bind_r (Inr a) f = f a"

fun map_err :: "('e \<Rightarrow> 'f) \<Rightarrow> 'e + 'a \<Rightarrow> 'f + 'a" where
  "map_err f (Inl e) = Inl (f e)"
| "map_err f (Inr a) = Inr a"

fun ok_or :: "'e \<Rightarrow> 'a option \<Rightarrow> 'e + 'a" where
  "ok_or e None = Inl e"
| "ok_or e (Some a) = Inr a"

lemma bind_r_Inr [simp]: "bind_r r f = Inr b \<longleftrightarrow> (\<exists>a. r = Inr a \<and> f a = Inr b)"
  by (cases r) auto

lemma bind_r_Inl: "bind_r r f = Inl e \<longleftrightarrow> r = Inl e \<or> (\<exists>a. r = Inr a \<and> f a = Inl e)"
  by (cases r) auto

lemma map_err_Inr [simp]: "map_err f r = Inr a \<longleftrightarrow> r = Inr a"
  by (cases r) auto

lemma ok_or_Inr [simp]: "ok_or e x = Inr a \<longleftrightarrow> x = Some a"
  by (cases x) auto

lemma ok_or_Inl [simp]: "ok_or e x = Inl e' \<longleftrightarrow> x = None \<and> e' = e"
  by (cases x) auto

section \<open>Hash maps\<close>

text \<open>
  A hash map is an association list in the order its iteration visits the entries. The code
  never relies on that order; keys are distinct (\<open>hm_ok\<close>), which every operation keeps.
\<close>

type_synonym ('k, 'v) hash_map = "('k \<times> 'v) list"

abbreviation hm_get :: "('k, 'v) hash_map \<Rightarrow> 'k \<Rightarrow> 'v option" where
  "hm_get \<equiv> map_of"

abbreviation hm_insert :: "'k \<Rightarrow> 'v \<Rightarrow> ('k, 'v) hash_map \<Rightarrow> ('k, 'v) hash_map" where
  "hm_insert \<equiv> AList.update"

abbreviation hm_remove :: "'k \<Rightarrow> ('k, 'v) hash_map \<Rightarrow> ('k, 'v) hash_map" where
  "hm_remove \<equiv> AList.delete"

definition hm_ok :: "('k, 'v) hash_map \<Rightarrow> bool" where
  "hm_ok m \<longleftrightarrow> distinct (map fst m)"

lemma hm_ok_Nil [simp, inv_intros]: "hm_ok []"
  by (simp add: hm_ok_def)

lemma hm_ok_insert [simp, inv_intros]: "hm_ok m \<Longrightarrow> hm_ok (hm_insert k v m)"
  by (simp add: hm_ok_def distinct_update)

lemma hm_ok_remove [simp, inv_intros]: "hm_ok m \<Longrightarrow> hm_ok (hm_remove k m)"
  by (simp add: hm_ok_def distinct_delete)

lemma hm_ok_filter [simp, inv_intros]: "hm_ok m \<Longrightarrow> hm_ok (filter P m)"
  by (simp add: hm_ok_def distinct_map_filter)

lemma hm_get_insert: "hm_get (hm_insert k v m) = (hm_get m)(k \<mapsto> v)"
  by (simp add: update_conv')

lemma hm_get_remove: "hm_get (hm_remove k m) = (hm_get m)(k := None)"
  by (simp add: delete_conv')

lemma hm_get_in_set: "hm_ok m \<Longrightarrow> (k, v) \<in> set m \<longleftrightarrow> hm_get m k = Some v"
  by (simp add: hm_ok_def)

lemma hm_remove_filter: "hm_remove k m = filter (\<lambda>(k', _). k' \<noteq> k) m"
  by (auto simp: AList.delete_eq intro: filter_cong)

lemma hm_remove_notin: "hm_get m k = None \<Longrightarrow> hm_remove k m = m"
  by (induction m) (auto split: if_splits)

lemma hm_insert_fresh: "hm_get m k = None \<Longrightarrow> hm_insert k v m = m @ [(k, v)]"
  by (induction m) (auto split: if_splits)

lemma hm_sum_remove:
  "hm_ok m \<Longrightarrow> hm_get m k = Some v \<Longrightarrow>
    sum_list (map f m) = (f (k, v) :: nat) + sum_list (map f (hm_remove k m))"
proof (induction m)
  case Nil
  then show ?case by simp
next
  case (Cons p m)
  obtain k' v' where p: "p = (k', v')" by (cases p)
  show ?case
  proof (cases "k' = k")
    case True
    with Cons.prems p have "v' = v" "hm_get m k = None"
      by (auto simp: hm_ok_def map_of_eq_None_iff)
    with True p show ?thesis by (simp add: hm_remove_notin)
  next
    case False
    with Cons p show ?thesis by (simp add: hm_ok_def)
  qed
qed

lemma length_hm_remove:
  assumes "hm_ok m" "hm_get m k = Some v"
  shows "length m = Suc (length (hm_remove k m))"
  using hm_sum_remove [OF assms, of "\<lambda>_. 1"] by (simp add: sum_list_triv)

lemma hm_length_remove_le: "length (hm_remove k m) \<le> length m"
  by (rule length_delete_le)

section \<open>Bytes, characters and strings\<close>

definition code :: "char \<Rightarrow> nat" where
  "code c = of_char c"

definition is_ascii_lowercase :: "char \<Rightarrow> bool" where
  "is_ascii_lowercase c \<longleftrightarrow> 97 \<le> code c \<and> code c \<le> 122"

definition is_ascii_uppercase :: "char \<Rightarrow> bool" where
  "is_ascii_uppercase c \<longleftrightarrow> 65 \<le> code c \<and> code c \<le> 90"

definition is_ascii_digit :: "char \<Rightarrow> bool" where
  "is_ascii_digit c \<longleftrightarrow> 48 \<le> code c \<and> code c \<le> 57"

definition is_ascii_alphanumeric :: "char \<Rightarrow> bool" where
  "is_ascii_alphanumeric c \<longleftrightarrow> is_ascii_lowercase c \<or> is_ascii_uppercase c \<or> is_ascii_digit c"

lemmas ascii_defs = is_ascii_lowercase_def is_ascii_uppercase_def is_ascii_digit_def
  is_ascii_alphanumeric_def code_def

text \<open>\<open>str::split_once\<close> at the first occurrence of one of the given bytes.\<close>

fun split_once :: "(char \<Rightarrow> bool) \<Rightarrow> string \<Rightarrow> (string \<times> string) option" where
  "split_once p [] = None"
| "split_once p (c # cs) =
     (if p c then Some ([], cs)
      else map_option (\<lambda>(h, t). (c # h, t)) (split_once p cs))"

lemma split_once_Some:
  "split_once p s = Some (h, t) \<longleftrightarrow> (\<exists>c. s = h @ c # t \<and> p c \<and> (\<forall>x\<in>set h. \<not> p x))"
proof (induction s arbitrary: h)
  case Nil
  then show ?case by simp
next
  case (Cons a s)
  show ?case
  proof (cases "p a")
    case True
    then show ?thesis by (cases h) auto
  next
    case False
    then show ?thesis using Cons.IH by (cases h) auto
  qed
qed

lemma split_once_None: "split_once p s = None \<longleftrightarrow> (\<forall>x\<in>set s. \<not> p x)"
  by (induction s) auto

text \<open>Decimal numerals: \<open>to_string\<close> of an unsigned integer, and its parser.\<close>

definition digit_char :: "nat \<Rightarrow> char" where
  "digit_char d = char_of (48 + d)"

definition digit_val :: "char \<Rightarrow> nat" where
  "digit_val c = code c - 48"

fun nat_dec :: "nat \<Rightarrow> string" where
  "nat_dec n = (if n < 10 then [digit_char n] else nat_dec (n div 10) @ [digit_char (n mod 10)])"

declare nat_dec.simps [simp del]

definition dec_val :: "string \<Rightarrow> nat" where
  "dec_val s = foldl (\<lambda>a c. 10 * a + digit_val c) 0 s"

lemma code_digit_char: "d < 10 \<Longrightarrow> code (digit_char d) = 48 + d"
  by (simp add: code_def digit_char_def of_char_of)

lemma digit_val_char [simp]: "d < 10 \<Longrightarrow> digit_val (digit_char d) = d"
  by (simp add: digit_val_def code_digit_char)

lemma digit_char_is_digit [simp]: "d < 10 \<Longrightarrow> is_ascii_digit (digit_char d)"
  by (simp add: is_ascii_digit_def code_digit_char)

lemma dec_val_snoc [simp]: "dec_val (s @ [c]) = 10 * dec_val s + digit_val c"
  by (simp add: dec_val_def)

lemma dec_val_nat_dec [simp]: "dec_val (nat_dec n) = n"
proof (induction n rule: nat_dec.induct)
  case (1 n)
  show ?case
  proof (cases "n < 10")
    case True
    then show ?thesis by (subst nat_dec.simps) (simp add: dec_val_def)
  next
    case False
    with "1.IH" show ?thesis by (subst nat_dec.simps) simp
  qed
qed

lemma nat_dec_digits: "\<forall>c\<in>set (nat_dec n). is_ascii_digit c"
proof (induction n rule: nat_dec.induct)
  case (1 n)
  then show ?case by (cases "n < 10") (subst nat_dec.simps, simp)+
qed

lemma nat_dec_nonempty [simp]: "nat_dec n \<noteq> []"
  by (subst nat_dec.simps) simp

lemma nat_dec_inj: "nat_dec m = nat_dec n \<Longrightarrow> m = n"
  by (metis dec_val_nat_dec)

end
