(* ===== verification/Json.thy ===== *)
theory Json
  imports Prelude
begin

text \<open>
  The JSON values the program exchanges. \<open>json\<close> has the constructors of \<open>serde_json::Value\<close>;
  an object is the list of its fields in insertion order (the editor backend builds the
  library with the option that preserves it). The accessors are those of the value type that
  the code calls. Parsing and printing of JSON text belong to that library and are parameters
  of the definitions that need them.
\<close>

datatype jnum = PosInt u64 | NegInt "64 word" | Float "64 word"

datatype json =
    JNull
  | JBool bool
  | JNumber jnum
  | JString string
  | JArray "json list"
  | JObject "(string \<times> json) list"

type_synonym json_map = "(string \<times> json) list"

fun as_object :: "json \<Rightarrow> json_map option" where
  "as_object (JObject m) = Some m"
| "as_object _ = None"

fun as_str :: "json \<Rightarrow> string option" where
  "as_str (JString s) = Some s"
| "as_str _ = None"

fun as_bool :: "json \<Rightarrow> bool option" where
  "as_bool (JBool b) = Some b"
| "as_bool _ = None"

fun as_array :: "json \<Rightarrow> json list option" where
  "as_array (JArray xs) = Some xs"
| "as_array _ = None"

text \<open>\<open>Value::get\<close> with a key: the field of an object, nothing on any other value.\<close>

fun jget :: "string \<Rightarrow> json \<Rightarrow> json option" where
  "jget k (JObject m) = map_of m k"
| "jget k _ = None"

fun opt_json :: "string option \<Rightarrow> json" where
  "opt_json None = JNull"
| "opt_json (Some s) = JString s"

text \<open>The test of an engine's answer that recurs in the edit layer.\<close>

definition accepted :: "json \<Rightarrow> bool" where
  "accepted v \<longleftrightarrow> Option.bind (jget ''accepted'' v) as_bool = Some True"

lemma as_object_Some [simp]: "as_object v = Some m \<longleftrightarrow> v = JObject m"
  by (cases v) auto

lemma as_str_Some [simp]: "as_str v = Some s \<longleftrightarrow> v = JString s"
  by (cases v) auto

lemma as_bool_Some [simp]: "as_bool v = Some b \<longleftrightarrow> v = JBool b"
  by (cases v) auto

lemma jget_Some: "jget k v = Some w \<longleftrightarrow> (\<exists>m. v = JObject m \<and> map_of m k = Some w)"
  by (cases v) auto

lemma size_json_field:
  "(k, v) \<in> set m \<Longrightarrow> size v < Suc (size_list (size_prod (\<lambda>_. 0) size) m)"
  by (induction m) auto

end
