(* ===== verification/Bridge_Common.thy ===== *)
theory Bridge_Common
  imports Json
begin

text \<open>
  \<open>norves-bridge-core/src/common.rs\<close>, \<open>error.rs\<close> and \<open>value.rs\<close>: the enumerations, the validated
  string types and the error types of the protocol. A validated type has one constructor, a
  fallible construction from a string (\<open>TryFrom\<close>) and the conversion back (\<open>From\<close>); the locale
  \<open>validated_newtype\<close> is that contract and is interpreted once per type. The token predicates
  are proved equal to the regular expressions the source documents.
\<close>

section \<open>Enumerations\<close>

datatype log_level = LTrace | LDebug | LInfo | LWarn | LError

datatype engine_state = EInitializing | EReady | ERunning | EError

datatype runtime_state = REdit | RPlaying | RPaused | RStopped | RUnknown

datatype viewport_state = VFocused | VVisible | VHidden | VMinimized | VUnknown

datatype origin = OEngine | OEditorBackend

section \<open>Errors of decoding\<close>

text \<open>\<open>Json_failed\<close> carries the text of the JSON library's error.\<close>

datatype codec_error =
    Json_failed string
  | InvalidBridgeMarker string string
  | InvalidVersion string
  | InvalidErrorCode string
  | InvalidField string string
  | StructuralViolation string

section \<open>Token predicates\<close>

definition is_namespaced_token :: "string \<Rightarrow> bool" where
  "is_namespaced_token value =
     (case split_once (\<lambda>c. c = CHR ''.'') value of
        None \<Rightarrow> False
      | Some (head, tail) \<Rightarrow>
          if CHR ''.'' \<in> set tail then False
          else (case head of
              [] \<Rightarrow> False
            | first # head_chars \<Rightarrow>
                if \<not> is_ascii_lowercase first then False
                else if \<not> list_all is_ascii_alphanumeric head_chars then False
                else tail \<noteq> [] \<and> list_all is_ascii_alphanumeric tail))"

definition is_version_string :: "string \<Rightarrow> bool" where
  "is_version_string value =
     (case split_once (\<lambda>c. c = CHR ''.'') value of
        None \<Rightarrow> False
      | Some (major, minor) \<Rightarrow>
          major \<noteq> [] \<and> minor \<noteq> [] \<and> list_all is_ascii_digit major \<and> list_all is_ascii_digit minor)"

definition error_code_is_valid :: "string \<Rightarrow> bool" where
  "error_code_is_valid value =
     (case value of
        [] \<Rightarrow> False
      | first # chars \<Rightarrow>
          if is_ascii_uppercase first
          then list_all (\<lambda>c. is_ascii_uppercase c \<or> is_ascii_digit c \<or> c = CHR ''_'') chars
          else False)"

section \<open>Validated string types\<close>

datatype error_code = ErrorCode (error_code_str: string)

definition error_code_try_from :: "string \<Rightarrow> codec_error + error_code" where
  "error_code_try_from value =
     (if error_code_is_valid value then Inr (ErrorCode value) else Inl (InvalidErrorCode value))"

definition protocol_version_unsupported :: error_code where
  "protocol_version_unsupported = ErrorCode ''PROTOCOL_VERSION_UNSUPPORTED''"

definition method_not_supported :: error_code where
  "method_not_supported = ErrorCode ''METHOD_NOT_SUPPORTED''"

definition bridge_transport_error :: error_code where
  "bridge_transport_error = ErrorCode ''BRIDGE_TRANSPORT_ERROR''"

datatype object_id = ObjectId (object_id_str: string)

definition object_id_try_from :: "string \<Rightarrow> codec_error + object_id" where
  "object_id_try_from value =
     (if value = [] then Inl (InvalidField ''objectId'' value) else Inr (ObjectId value))"

datatype capability_token = CapabilityToken (capability_token_str: string)

definition capability_token_try_from :: "string \<Rightarrow> codec_error + capability_token" where
  "capability_token_try_from value =
     (if is_namespaced_token value then Inr (CapabilityToken value)
      else Inl (InvalidField ''capabilityToken'' value))"

datatype version_string = VersionString (version_str: string)

definition version_try_from :: "string \<Rightarrow> codec_error + version_string" where
  "version_try_from value =
     (if is_version_string value then Inr (VersionString value) else Inl (InvalidVersion value))"

record capability_descriptor =
  cd_name :: capability_token
  cd_version :: "version_string option"
  cd_description :: "string option"

record bridge_error =
  be_code :: error_code
  be_message :: string
  be_data :: "json option"

section \<open>Property and scene values\<close>

datatype property_value = PropertyValue json

record property_entry =
  pe_name :: string
  pe_value :: property_value
  pe_value_type :: "string option"

type_synonym property_bag = "property_entry list"

record property_definition =
  pd_name :: string
  pd_value_type :: string

record type_descriptor =
  td_type_name :: string
  td_kind :: "string option"
  td_properties :: "property_definition list option"

datatype scene_node = SceneNode
  (sn_id: object_id)
  (sn_name: "string option")
  (sn_kind: "string option")
  (sn_children: "scene_node list option")

section \<open>The predicates are the documented patterns\<close>

lemma split_dot_Some:
  "split_once (\<lambda>c. c = CHR ''.'') s = Some (h, t) \<longleftrightarrow> s = h @ CHR ''.'' # t \<and> CHR ''.'' \<notin> set h"
  by (auto simp: split_once_Some)

lemma alnum_not_dot: "\<not> is_ascii_alphanumeric (CHR ''.'')"
  by (simp add: ascii_defs)

lemma digit_not_dot: "\<not> is_ascii_digit (CHR ''.'')"
  by (simp add: ascii_defs)

lemma lowercase_alnum: "is_ascii_lowercase c \<Longrightarrow> is_ascii_alphanumeric c"
  by (simp add: is_ascii_alphanumeric_def)

lemma namespaced_token_pattern:
  "is_namespaced_token s \<longleftrightarrow>
     (\<exists>h hs t. s = (h # hs) @ CHR ''.'' # t \<and> is_ascii_lowercase h
        \<and> list_all is_ascii_alphanumeric hs \<and> t \<noteq> [] \<and> list_all is_ascii_alphanumeric t)"
  (is "?L \<longleftrightarrow> ?R")
proof
  assume L: ?L
  then obtain h t where ht: "split_once (\<lambda>c. c = CHR ''.'') s = Some (h, t)"
    by (auto simp: is_namespaced_token_def split: option.splits)
  with L obtain c hs where "h = c # hs" "is_ascii_lowercase c" "list_all is_ascii_alphanumeric hs"
    "t \<noteq> []" "list_all is_ascii_alphanumeric t"
    by (auto simp: is_namespaced_token_def split: list.splits if_splits)
  moreover from ht have "s = h @ CHR ''.'' # t" by (simp add: split_dot_Some)
  ultimately show ?R by blast
next
  assume ?R
  then obtain h hs t where s: "s = (h # hs) @ CHR ''.'' # t" "is_ascii_lowercase h"
    "list_all is_ascii_alphanumeric hs" "t \<noteq> []" "list_all is_ascii_alphanumeric t"
    by blast
  then have "CHR ''.'' \<notin> set (h # hs)" "CHR ''.'' \<notin> set t"
    using alnum_not_dot lowercase_alnum by (auto simp: list_all_iff)
  with s(1) have "split_once (\<lambda>c. c = CHR ''.'') s = Some (h # hs, t)"
    by (auto simp: split_dot_Some)
  with s \<open>CHR ''.'' \<notin> set t\<close> show ?L by (simp add: is_namespaced_token_def)
qed

lemma version_string_pattern:
  "is_version_string s \<longleftrightarrow>
     (\<exists>a b. s = a @ CHR ''.'' # b \<and> a \<noteq> [] \<and> b \<noteq> []
        \<and> list_all is_ascii_digit a \<and> list_all is_ascii_digit b)" (is "?L \<longleftrightarrow> ?R")
proof
  assume L: ?L
  then obtain a b where ab: "split_once (\<lambda>c. c = CHR ''.'') s = Some (a, b)"
    by (auto simp: is_version_string_def split: option.splits)
  with L have "a \<noteq> []" "b \<noteq> []" "list_all is_ascii_digit a" "list_all is_ascii_digit b"
    by (auto simp: is_version_string_def)
  moreover from ab have "s = a @ CHR ''.'' # b" by (simp add: split_dot_Some)
  ultimately show ?R by blast
next
  assume ?R
  then obtain a b where s: "s = a @ CHR ''.'' # b" "a \<noteq> []" "b \<noteq> []"
    "list_all is_ascii_digit a" "list_all is_ascii_digit b" by blast
  then have "CHR ''.'' \<notin> set a" using digit_not_dot by (auto simp: list_all_iff)
  with s(1) have "split_once (\<lambda>c. c = CHR ''.'') s = Some (a, b)" by (simp add: split_dot_Some)
  with s show ?L by (simp add: is_version_string_def)
qed

section \<open>The contract of a validated type\<close>

locale validated_newtype =
  fixes valid :: "string \<Rightarrow> bool"
    and try_from :: "string \<Rightarrow> 'e + 'a"
    and into :: "'a \<Rightarrow> string"
    and reject :: "string \<Rightarrow> 'e"
  assumes try_from_valid: "valid s \<Longrightarrow> \<exists>a. try_from s = Inr a \<and> into a = s"
    and try_from_invalid: "\<not> valid s \<Longrightarrow> try_from s = Inl (reject s)"
    and into_inj: "into a = into b \<Longrightarrow> a = b"
begin

lemma try_from_Inr: "try_from s = Inr a \<longleftrightarrow> valid s \<and> into a = s"
  using try_from_valid [of s] try_from_invalid [of s] into_inj by (cases "valid s") auto

lemma accepts_exactly: "(\<exists>a. try_from s = Inr a) \<longleftrightarrow> valid s"
  using try_from_valid try_from_invalid by force

lemma round_trip: "valid (into a) \<Longrightarrow> try_from (into a) = Inr a"
  by (simp add: try_from_Inr)

lemma error_names_input: "try_from s = Inl e \<Longrightarrow> e = reject s"
  using try_from_valid [of s] try_from_invalid [of s] by (cases "valid s") auto

end

interpretation nt_error_code: validated_newtype error_code_is_valid error_code_try_from
  error_code_str InvalidErrorCode
  by unfold_locales (auto simp: error_code_try_from_def intro: error_code.expand)

interpretation nt_object_id: validated_newtype "\<lambda>s. s \<noteq> []" object_id_try_from
  object_id_str "InvalidField ''objectId''"
  by unfold_locales (auto simp: object_id_try_from_def intro: object_id.expand)

interpretation nt_capability: validated_newtype is_namespaced_token capability_token_try_from
  capability_token_str "InvalidField ''capabilityToken''"
  by unfold_locales (auto simp: capability_token_try_from_def intro: capability_token.expand)

interpretation nt_version: validated_newtype is_version_string version_try_from
  version_str InvalidVersion
  by unfold_locales (auto simp: version_try_from_def intro: version_string.expand)

lemma known_codes_valid:
  "error_code_is_valid (error_code_str protocol_version_unsupported)"
  "error_code_is_valid (error_code_str method_not_supported)"
  "error_code_is_valid (error_code_str bridge_transport_error)"
  by (code_simp, code_simp, code_simp)

end
