(* ===== verification/Bridge_Envelope.thy ===== *)
theory Bridge_Envelope
  imports Bridge_Common
begin

text \<open>
  \<open>norves-bridge-core/src/envelope.rs\<close> and \<open>codec.rs\<close>: the flat wire envelope, its structural
  validation, the typed envelope and the two conversions between them. The JSON text layer
  (deserialising and serialising an \<open>Envelope\<close>) is generated by the serialisation library and is
  a parameter of the codec functions. Main results: a flat envelope converts to a typed one
  exactly when it is the flattening of that typed one, and the checks repeated inside the
  conversion never fire after \<open>validate\<close>.
\<close>

section \<open>Names and ids\<close>

definition BRIDGE_MARKER :: string where
  "BRIDGE_MARKER = ''norves.editor.bridge''"

datatype bridge_marker = BridgeMarker

definition bridge_marker_try_from :: "string \<Rightarrow> codec_error + bridge_marker" where
  "bridge_marker_try_from value =
     (if value = BRIDGE_MARKER then Inr BridgeMarker
      else Inl (InvalidBridgeMarker BRIDGE_MARKER value))"

definition bridge_marker_str :: "bridge_marker \<Rightarrow> string" where
  "bridge_marker_str m = BRIDGE_MARKER"

datatype kind = Request_kind | Response_kind | Event_kind

datatype correlation_id = CorrelationId (correlation_id_str: string)

definition correlation_id_try_from :: "string \<Rightarrow> codec_error + correlation_id" where
  "correlation_id_try_from value =
     (if value = [] then Inl (InvalidField ''correlationId'' value) else Inr (CorrelationId value))"

datatype method_name = MethodName (method_name_str: string)

definition method_name_try_from :: "string \<Rightarrow> codec_error + method_name" where
  "method_name_try_from value =
     (if is_namespaced_token value then Inr (MethodName value)
      else Inl (InvalidField ''methodName'' value))"

datatype event_name = EventName (event_name_str: string)

definition event_name_try_from :: "string \<Rightarrow> codec_error + event_name" where
  "event_name_try_from value =
     (if is_namespaced_token value then Inr (EventName value)
      else Inl (InvalidField ''eventName'' value))"

lemma bridge_marker_eq: "(a :: bridge_marker) = b"
  by (cases a; cases b) simp

interpretation nt_marker: validated_newtype "\<lambda>s. s = BRIDGE_MARKER" bridge_marker_try_from
  bridge_marker_str "InvalidBridgeMarker BRIDGE_MARKER"
  by unfold_locales
    (simp_all add: bridge_marker_try_from_def bridge_marker_str_def bridge_marker_eq)

interpretation nt_correlation: validated_newtype "\<lambda>s. s \<noteq> []" correlation_id_try_from
  correlation_id_str "InvalidField ''correlationId''"
  by unfold_locales (auto simp: correlation_id_try_from_def intro: correlation_id.expand)

interpretation nt_method: validated_newtype is_namespaced_token method_name_try_from
  method_name_str "InvalidField ''methodName''"
  by unfold_locales (auto simp: method_name_try_from_def intro: method_name.expand)

interpretation nt_event: validated_newtype is_namespaced_token event_name_try_from
  event_name_str "InvalidField ''eventName''"
  by unfold_locales (auto simp: event_name_try_from_def intro: event_name.expand)

section \<open>The two envelope types\<close>

record envelope =
  env_bridge :: bridge_marker
  env_version :: version_string
  env_kind :: kind
  env_id :: "correlation_id option"
  env_method :: "method_name option"
  env_event :: "event_name option"
  env_params :: "json_map option"
  env_result :: "json option"
  env_error :: "bridge_error option"
  env_session_id :: "string option"
  env_seq :: "u64 option"

datatype response_payload = Result json | Error bridge_error

datatype validated_envelope =
    Request version_string correlation_id method_name "json_map option" "string option" "u64 option"
  | Response version_string correlation_id response_payload "string option" "u64 option"
  | Event version_string event_name "json_map option" "string option" "u64 option"

definition violation :: "string \<Rightarrow> codec_error" where
  "violation message = StructuralViolation message"

section \<open>Validation\<close>

definition validate :: "envelope \<Rightarrow> codec_error + unit" where
  "validate self = (case env_kind self of
     Request_kind \<Rightarrow>
       if env_id self = None then Inl (violation ''request envelope requires `id`'')
       else if env_method self = None then Inl (violation ''request envelope requires `method`'')
       else if env_result self \<noteq> None then Inl (violation ''request envelope must not carry `result`'')
       else if env_error self \<noteq> None then Inl (violation ''request envelope must not carry `error`'')
       else if env_event self \<noteq> None then Inl (violation ''request envelope must not carry `event`'')
       else Inr ()
   | Response_kind \<Rightarrow>
       if env_id self = None then Inl (violation ''response envelope requires `id`'')
       else (case (env_result self \<noteq> None, env_error self \<noteq> None) of
           (True, True) \<Rightarrow>
             Inl (violation ''response envelope must not carry both `result` and `error`'')
         | (False, False) \<Rightarrow>
             Inl (violation ''response envelope requires exactly one of `result` or `error`'')
         | _ \<Rightarrow>
             if env_method self \<noteq> None then Inl (violation ''response envelope must not carry `method`'')
             else if env_event self \<noteq> None then Inl (violation ''response envelope must not carry `event`'')
             else if env_params self \<noteq> None then Inl (violation ''response envelope must not carry `params`'')
             else Inr ())
   | Event_kind \<Rightarrow>
       if env_event self = None then Inl (violation ''event envelope requires `event`'')
       else if env_id self \<noteq> None then Inl (violation ''event envelope must not carry `id`'')
       else if env_method self \<noteq> None then Inl (violation ''event envelope must not carry `method`'')
       else if env_result self \<noteq> None then Inl (violation ''event envelope must not carry `result`'')
       else if env_error self \<noteq> None then Inl (violation ''event envelope must not carry `error`'')
       else Inr ())"

section \<open>Conversions\<close>

definition validated_try_from :: "envelope \<Rightarrow> codec_error + validated_envelope" where
  "validated_try_from env = bind_r (validate env) (\<lambda>_.
     (case env_kind env of
        Request_kind \<Rightarrow>
          (case (env_id env, env_method env) of
             (Some i, Some m) \<Rightarrow>
               Inr (Request (env_version env) i m (env_params env) (env_session_id env) (env_seq env))
           | _ \<Rightarrow> Inl (violation ''request envelope requires `id` and `method`''))
      | Response_kind \<Rightarrow>
          (case env_id env of
             None \<Rightarrow> Inl (violation ''response envelope requires `id`'')
           | Some i \<Rightarrow>
               (case (env_result env, env_error env) of
                  (Some r, None) \<Rightarrow>
                    Inr (Response (env_version env) i (Result r) (env_session_id env) (env_seq env))
                | (None, Some e) \<Rightarrow>
                    Inr (Response (env_version env) i (Error e) (env_session_id env) (env_seq env))
                | _ \<Rightarrow> Inl (violation
                    ''response envelope requires exactly one of `result` or `error`'')))
      | Event_kind \<Rightarrow>
          (case env_event env of
             Some ev \<Rightarrow>
               Inr (Event (env_version env) ev (env_params env) (env_session_id env) (env_seq env))
           | None \<Rightarrow> Inl (violation ''event envelope requires `event`''))))"

fun envelope_from :: "validated_envelope \<Rightarrow> envelope" where
  "envelope_from (Request version i m params session_id seq) =
     \<lparr>env_bridge = BridgeMarker, env_version = version, env_kind = Request_kind, env_id = Some i,
      env_method = Some m, env_event = None, env_params = params, env_result = None,
      env_error = None, env_session_id = session_id, env_seq = seq\<rparr>"
| "envelope_from (Response version i payload session_id seq) =
     (let (result, error) =
        (case payload of Result r \<Rightarrow> (Some r, None) | Error e \<Rightarrow> (None, Some e))
      in \<lparr>env_bridge = BridgeMarker, env_version = version, env_kind = Response_kind,
          env_id = Some i, env_method = None, env_event = None, env_params = None,
          env_result = result, env_error = error, env_session_id = session_id, env_seq = seq\<rparr>)"
| "envelope_from (Event version ev params session_id seq) =
     \<lparr>env_bridge = BridgeMarker, env_version = version, env_kind = Event_kind, env_id = None,
      env_method = None, env_event = Some ev, env_params = params, env_result = None,
      env_error = None, env_session_id = session_id, env_seq = seq\<rparr>"

section \<open>Codec entry points\<close>

text \<open>
  \<open>from_str\<close> is the library's deserialisation of an envelope from JSON text (with the derived
  field rules), \<open>to_string\<close> its serialisation.
\<close>

definition decode_envelope :: "(string \<Rightarrow> string + envelope) \<Rightarrow> string \<Rightarrow> codec_error + envelope" where
  "decode_envelope from_str text = map_err Json_failed (from_str text)"

definition encode_envelope :: "(envelope \<Rightarrow> string + string) \<Rightarrow> envelope \<Rightarrow> codec_error + string" where
  "encode_envelope to_string env = map_err Json_failed (to_string env)"

definition decode_validated :: "(string \<Rightarrow> string + envelope) \<Rightarrow> string \<Rightarrow> codec_error + envelope" where
  "decode_validated from_str text =
     bind_r (decode_envelope from_str text) (\<lambda>env. bind_r (validate env) (\<lambda>_. Inr env))"

definition decode_typed ::
  "(string \<Rightarrow> string + envelope) \<Rightarrow> string \<Rightarrow> codec_error + validated_envelope" where
  "decode_typed from_str text = bind_r (decode_envelope from_str text) validated_try_from"

section \<open>Properties\<close>

lemma envelope_from_inj: "envelope_from v = envelope_from w \<Longrightarrow> v = w"
  by (cases v; cases w) (auto split: response_payload.splits)

lemma validate_envelope_from [simp]: "validate (envelope_from v) = Inr ()"
proof (cases v)
  case (Response version i payload s q)
  then show ?thesis by (cases payload) (simp_all add: validate_def)
qed (simp_all add: validate_def)

lemma try_from_envelope_from [simp]: "validated_try_from (envelope_from v) = Inr v"
proof (cases v)
  case (Response version i payload s q)
  then show ?thesis
    by (cases payload) (simp_all add: validated_try_from_def validate_def)
qed (simp_all add: validated_try_from_def validate_def)

lemma envelope_from_try_from:
  assumes "validated_try_from e = Inr v"
  shows "envelope_from v = e"
proof -
  have "env_bridge e = BridgeMarker" by (rule bridge_marker.exhaust)
  then show ?thesis using assms
    by (cases e) (auto simp: validated_try_from_def validate_def split: kind.splits option.splits
        if_splits)
qed

lemma try_from_iff: "validated_try_from e = Inr v \<longleftrightarrow> e = envelope_from v"
  using envelope_from_try_from try_from_envelope_from by blast

lemma try_from_defined: "validate e = Inr () \<Longrightarrow> \<exists>v. validated_try_from e = Inr v"
  by (cases "env_kind e")
    (auto simp: validated_try_from_def validate_def split: option.splits if_splits)

lemma try_from_error: "validated_try_from e = Inl err \<longleftrightarrow> validate e = Inl err"
  using try_from_defined [of e]
  by (cases "validate e") (auto simp: validated_try_from_def)

text \<open>Flattening and lifting of envelopes are mutually inverse: an envelope lifts to a typed
  value exactly when it is that value's flattening (so no field is lost or invented in either
  direction).\<close>

lemma envelope_round_trip: "validated_try_from e = Inr v \<longleftrightarrow> e = envelope_from v"
  by (rule try_from_iff)

text \<open>\<open>validate\<close> accepts exactly the envelopes that are the flattening of some typed envelope,
  and when it refuses, the typed conversion refuses with the very same first violation; the
  defensive error branches of the conversion are unreachable.\<close>

lemma validate_characterised:
  "(validate e = Inr () \<longleftrightarrow> e \<in> range envelope_from)
     \<and> (\<forall>err. validated_try_from e = Inl err \<longleftrightarrow> validate e = Inl err)"
proof -
  have "validate e = Inr () \<Longrightarrow> e \<in> range envelope_from"
    using try_from_defined try_from_iff by blast
  then show ?thesis using try_from_error by auto
qed

text \<open>The strict and the typed decoder accept the same texts and agree on the content.\<close>

lemma decoders_agree:
  "decode_typed from_str text = Inr v \<longleftrightarrow> decode_validated from_str text = Inr (envelope_from v)"
proof
  assume "decode_typed from_str text = Inr v"
  then show "decode_validated from_str text = Inr (envelope_from v)"
    by (auto simp: decode_typed_def decode_validated_def try_from_iff)
next
  assume "decode_validated from_str text = Inr (envelope_from v)"
  then show "decode_typed from_str text = Inr v"
    by (auto simp: decode_typed_def decode_validated_def)
qed

lemma decoders_same_error:
  "decode_typed from_str text = Inl err \<longleftrightarrow> decode_validated from_str text = Inl err"
  by (auto simp: decode_typed_def decode_validated_def bind_r_Inl try_from_error)

end
