(* ===== verification/Correlation.thy ===== *)
theory Correlation
  imports Bridge_Envelope "HOL-Library.Multiset"
begin

text \<open>
  \<open>norves-bridge-core/src/correlation.rs\<close>: the table of requests in flight and the monitor of event
  sequence numbers. The table is stated as an interface (\<open>pending_table\<close>: what a lookup returns
  after each operation; \<open>counted_pending_table\<close>: which waiters the table holds, as a multiset),
  which the dispatcher's lemmas use and which is interpreted on the hash map of the code.
\<close>

section \<open>The pending table\<close>

type_synonym 'w pending = "(correlation_id, 'w) hash_map"

definition pt_new :: "'w pending" where
  "pt_new = []"

definition pt_insert :: "correlation_id \<Rightarrow> 'w \<Rightarrow> 'w pending \<Rightarrow> 'w option \<times> 'w pending" where
  "pt_insert i waiter t = (hm_get t i, hm_insert i waiter t)"

definition pt_take :: "correlation_id \<Rightarrow> 'w pending \<Rightarrow> 'w option \<times> 'w pending" where
  "pt_take i t = (hm_get t i, hm_remove i t)"

definition pt_drain_all :: "'w pending \<Rightarrow> (correlation_id \<times> 'w) list \<times> 'w pending" where
  "pt_drain_all t = (t, [])"

definition pt_len :: "'w pending \<Rightarrow> nat" where
  "pt_len t = length t"

definition pt_is_empty :: "'w pending \<Rightarrow> bool" where
  "pt_is_empty t \<longleftrightarrow> t = []"

fun opt_mset :: "'a option \<Rightarrow> 'a multiset" where
  "opt_mset None = {#}"
| "opt_mset (Some a) = {#a#}"

locale pending_table =
  fixes new :: 't
    and ins :: "'k \<Rightarrow> 'w \<Rightarrow> 't \<Rightarrow> 'w option \<times> 't"
    and tak :: "'k \<Rightarrow> 't \<Rightarrow> 'w option \<times> 't"
    and drn :: "'t \<Rightarrow> ('k \<times> 'w) list \<times> 't"
    and look :: "'t \<Rightarrow> 'k \<Rightarrow> 'w option"
    and wf :: "'t \<Rightarrow> bool"
  assumes wf_new: "wf new"
    and wf_ins: "wf t \<Longrightarrow> wf (snd (ins k w t))"
    and wf_tak: "wf t \<Longrightarrow> wf (snd (tak k t))"
    and look_new: "look new k = None"
    and ins_old: "wf t \<Longrightarrow> fst (ins k w t) = look t k"
    and look_ins: "wf t \<Longrightarrow> look (snd (ins k w t)) = (look t)(k \<mapsto> w)"
    and tak_old: "wf t \<Longrightarrow> fst (tak k t) = look t k"
    and look_tak: "wf t \<Longrightarrow> look (snd (tak k t)) = (look t)(k := None)"
    and drn_all: "wf t \<Longrightarrow> (k, w) \<in> set (fst (drn t)) \<longleftrightarrow> look t k = Some w"
    and drn_distinct: "wf t \<Longrightarrow> distinct (map fst (fst (drn t)))"
    and drn_rest: "snd (drn t) = new"
begin

lemma take_after_insert: "wf t \<Longrightarrow> fst (tak k (snd (ins k w t))) = Some w"
  by (simp add: tak_old wf_ins look_ins)

lemma take_only_once: "wf t \<Longrightarrow> fst (tak k (snd (tak k t))) = None"
  by (simp add: tak_old wf_tak look_tak)

lemma take_other: "wf t \<Longrightarrow> k \<noteq> k' \<Longrightarrow> look (snd (tak k t)) k' = look t k'"
  by (simp add: look_tak)

lemma reinsert_restores:
  "wf t \<Longrightarrow> look t k = Some w \<Longrightarrow> look (snd (ins k w (snd (tak k t)))) = look t"
  by (auto simp: look_ins wf_tak look_tak fun_eq_iff)

lemma drain_empties: "look (snd (drn t)) k = None"
  by (simp add: drn_rest look_new)

end

locale counted_pending_table = pending_table +
  fixes held :: "'t \<Rightarrow> 'w multiset"
  assumes held_new: "held new = {#}"
    and held_ins: "wf t \<Longrightarrow> held (snd (ins k w t)) + opt_mset (look t k)
      = held t + {#w#}"
    and held_tak: "wf t \<Longrightarrow> held (snd (tak k t)) + opt_mset (look t k)
      = held t"
    and held_drn: "wf t \<Longrightarrow> mset (map snd (fst (drn t))) = held t"
begin

lemma held_ins_new: "wf t \<Longrightarrow> look t k = None \<Longrightarrow> held (snd (ins k w t)) = held t + {#w#}"
  using held_ins [of t k w] by simp

lemma held_ins_old:
  "wf t \<Longrightarrow> look t k = Some v \<Longrightarrow> held (snd (ins k w t)) + {#v#} = held t + {#w#}"
  using held_ins [of t k w] by simp

lemma held_tak_Some: "wf t \<Longrightarrow> look t k = Some v \<Longrightarrow> held (snd (tak k t)) + {#v#} = held t"
  using held_tak [of t k] by simp

lemma held_tak_None: "wf t \<Longrightarrow> look t k = None \<Longrightarrow> held (snd (tak k t)) = held t"
  using held_tak [of t k] by simp

lemma held_reinsert:
  "wf t \<Longrightarrow> look t k = Some w \<Longrightarrow> held (snd (ins k w (snd (tak k t)))) = held t"
  using held_ins_new [of "snd (tak k t)" k w] held_tak_Some [of t k w]
  by (simp add: wf_tak look_tak)

end

definition pt_held :: "'w pending \<Rightarrow> 'w multiset" where
  "pt_held t = mset (map snd t)"

lemma mset_hm_insert:
  "hm_ok m \<Longrightarrow> mset (map snd (hm_insert k v m)) + opt_mset (hm_get m k)
     = mset (map snd m) + {#v#}"
proof (induction m)
  case Nil
  then show ?case by simp
next
  case (Cons p m)
  then show ?case
    by (cases "fst p = k") (auto simp: hm_ok_def add_mset_commute split: if_splits)
qed

lemma mset_hm_remove:
  "hm_ok m \<Longrightarrow> mset (map snd (hm_remove k m)) + opt_mset (hm_get m k)
     = mset (map snd m)"
proof (induction m)
  case Nil
  then show ?case by simp
next
  case (Cons p m)
  then show ?case
    by (cases "fst p = k") (auto simp: hm_ok_def split: if_splits)
qed

interpretation pt: counted_pending_table pt_new pt_insert pt_take pt_drain_all hm_get hm_ok pt_held
proof unfold_locales
  fix t :: "'w pending" and k w
  show "hm_ok t \<Longrightarrow> ((k, w) \<in> set (fst (pt_drain_all t))) = (hm_get t k = Some w)"
    by (simp add: pt_drain_all_def hm_get_in_set)
  show "hm_ok t \<Longrightarrow> pt_held (snd (pt_insert k w t))
      + opt_mset (hm_get t k) = pt_held t + {#w#}"
    unfolding pt_held_def pt_insert_def snd_conv by (rule mset_hm_insert)
  show "hm_ok t \<Longrightarrow> pt_held (snd (pt_take k t))
      + opt_mset (hm_get t k) = pt_held t"
    unfolding pt_held_def pt_take_def snd_conv by (rule mset_hm_remove)
qed (simp_all add: pt_new_def pt_insert_def pt_take_def pt_drain_all_def pt_held_def hm_get_insert
    hm_get_remove hm_ok_def distinct_update distinct_delete)

section \<open>The sequence monitor\<close>

datatype seq_observation = Seq_Ok | Skipped | Regressed u64 u64

record seq_monitor =
  sm_last :: "u64 option"

definition sm_new :: seq_monitor where
  "sm_new = \<lparr>sm_last = None\<rparr>"

text \<open>
  \<open>last + 1\<close> on \<open>u64\<close>: a build with overflow checks panics at the largest value (\<open>None\<close>), a build
  without them wraps. \<open>checks\<close> says which build it is.
\<close>

definition succ_u64 :: "bool \<Rightarrow> u64 \<Rightarrow> u64 option" where
  "succ_u64 checks x = (if checks \<and> x = u64_max then None else Some (x + 1))"

definition observe :: "bool \<Rightarrow> u64 option \<Rightarrow> seq_monitor \<Rightarrow> (seq_observation \<times> seq_monitor) option" where
  "observe checks seq_opt self =
     (case seq_opt of
        None \<Rightarrow> Some (Skipped, self)
      | Some seq \<Rightarrow>
          map_option (\<lambda>observation.
              (observation,
               self\<lparr>sm_last := Some (case sm_last self of Some prev \<Rightarrow> max prev seq | None \<Rightarrow> seq)\<rparr>))
            (case sm_last self of
               None \<Rightarrow> Some Seq_Ok
             | Some prev \<Rightarrow>
                 map_option (\<lambda>succ.
                     if seq = succ then Seq_Ok
                     else if prev < seq then Skipped
                     else Regressed prev seq)
                   (succ_u64 checks prev)))"

definition observe_event_seq ::
  "bool \<Rightarrow> validated_envelope \<Rightarrow> seq_monitor \<Rightarrow> (seq_observation \<times> seq_monitor) option" where
  "observe_event_seq checks event monitor =
     observe checks (case event of Event _ _ _ _ seq \<Rightarrow> seq | _ \<Rightarrow> None) monitor"

fun observe_all ::
  "bool \<Rightarrow> u64 option list \<Rightarrow> seq_monitor \<Rightarrow> (seq_observation list \<times> seq_monitor) option" where
  "observe_all checks [] m = Some ([], m)"
| "observe_all checks (s # ss) m =
     Option.bind (observe checks s m) (\<lambda>(ob, m').
       map_option (\<lambda>(obs, m''). (ob # obs, m'')) (observe_all checks ss m'))"

definition is_regressed :: "seq_observation \<Rightarrow> bool" where
  "is_regressed ob = (case ob of Regressed _ _ \<Rightarrow> True | _ \<Rightarrow> False)"

text \<open>The largest number among the observations that carried one.\<close>

definition seen :: "u64 option \<Rightarrow> u64 option list \<Rightarrow> u64 set" where
  "seen start ss = {x. Some x \<in> insert start (set ss)}"

lemma observe_step:
  assumes "sm_last m \<noteq> Some u64_max"
  shows "\<exists>ob. observe checks (Some s) m
       = Some (ob, m\<lparr>sm_last := Some (case sm_last m of Some l \<Rightarrow> max l s | None \<Rightarrow> s)\<rparr>)
     \<and> (is_regressed ob \<longleftrightarrow> (\<exists>l. sm_last m = Some l \<and> s \<le> l))"
proof (cases "sm_last m")
  case None
  then show ?thesis by (simp add: observe_def is_regressed_def)
next
  case (Some l)
  with assms have l: "l < l + 1" by (auto intro: u64_succ_gt)
  with Some assms show ?thesis
    by (auto simp: observe_def succ_u64_def is_regressed_def)
qed

lemma observe_all_spec:
  assumes "\<forall>s\<in>set ss. s \<noteq> Some u64_max" and "sm_last m \<noteq> Some u64_max"
  shows "\<exists>obs m'. observe_all checks ss m = Some (obs, m') \<and> length obs = length ss
     \<and> (\<forall>i<length ss. is_regressed (obs ! i) \<longleftrightarrow>
          (\<exists>s. ss ! i = Some s \<and> (\<exists>t\<in>seen (sm_last m) (take i ss). s \<le> t)))
     \<and> (\<forall>x. sm_last m' = Some x \<longleftrightarrow> x \<in> seen (sm_last m) ss \<and> (\<forall>y\<in>seen (sm_last m) ss. y \<le> x))"
  using assms
proof (induction ss arbitrary: m)
  case Nil
  then show ?case by (auto simp: seen_def)
next
  case (Cons s ss)
  from Cons.prems(1) have pre: "\<forall>s\<in>set ss. s \<noteq> Some u64_max" by simp
  show ?case
  proof (cases s)
    case None
    from Cons.IH [OF pre Cons.prems(2)] obtain obs m' where IH: "observe_all checks ss m = Some (obs, m')"
      "length obs = length ss"
      "\<forall>i<length ss. is_regressed (obs ! i) \<longleftrightarrow>
          (\<exists>s. ss ! i = Some s \<and> (\<exists>t\<in>seen (sm_last m) (take i ss). s \<le> t))"
      "\<forall>x. sm_last m' = Some x \<longleftrightarrow> x \<in> seen (sm_last m) ss \<and> (\<forall>y\<in>seen (sm_last m) ss. y \<le> x)"
      by (elim exE conjE)
    have [simp]: "seen a (None # xs) = seen a xs" for a xs
      by (auto simp: seen_def)
    have "\<forall>i<Suc (length ss). is_regressed ((Skipped # obs) ! i) \<longleftrightarrow>
        (\<exists>s'. (None # ss) ! i = Some s' \<and> (\<exists>t\<in>seen (sm_last m) (take i (None # ss)). s' \<le> t))"
      using IH(3) by (auto simp: less_Suc_eq_0_disj is_regressed_def)
    with IH None show ?thesis by (simp add: observe_def)
  next
    case (Some q)
    let ?m = "m\<lparr>sm_last := Some (case sm_last m of Some l \<Rightarrow> max l q | None \<Rightarrow> q)\<rparr>"
    from observe_step [OF Cons.prems(2), of checks q] obtain ob where
      ob: "observe checks (Some q) m = Some (ob, ?m)"
        "is_regressed ob \<longleftrightarrow> (\<exists>l. sm_last m = Some l \<and> q \<le> l)" by blast
    have "sm_last ?m \<noteq> Some u64_max"
      using Cons.prems Some by (auto simp: max_def split: option.splits)
    from Cons.IH [OF pre this] obtain obs m' where IH: "observe_all checks ss ?m = Some (obs, m')"
      "length obs = length ss"
      "\<forall>i<length ss. is_regressed (obs ! i) \<longleftrightarrow>
          (\<exists>s. ss ! i = Some s \<and> (\<exists>t\<in>seen (sm_last ?m) (take i ss). s \<le> t))"
      "\<forall>x. sm_last m' = Some x \<longleftrightarrow> x \<in> seen (sm_last ?m) ss \<and> (\<forall>y\<in>seen (sm_last ?m) ss. y \<le> x)"
      by (elim exE conjE)
    have bound: "(\<exists>t\<in>seen (sm_last ?m) xs. z \<le> t) \<longleftrightarrow> (\<exists>t\<in>seen (sm_last m) (Some q # xs). z \<le> t)" for z xs
      by (auto simp: seen_def max_def split: option.splits)
    have top: "(x \<in> seen (sm_last ?m) ss \<and> (\<forall>y\<in>seen (sm_last ?m) ss. y \<le> x)) \<longleftrightarrow>
        (x \<in> seen (sm_last m) (Some q # ss) \<and> (\<forall>y\<in>seen (sm_last m) (Some q # ss). y \<le> x))" for x
      by (auto simp: seen_def max_def split: option.splits)
    have "\<forall>i<Suc (length ss). is_regressed ((ob # obs) ! i) \<longleftrightarrow>
        (\<exists>s'. (Some q # ss) ! i = Some s' \<and> (\<exists>t\<in>seen (sm_last m) (take i (Some q # ss)). s' \<le> t))"
      using IH(3) ob(2) bound by (auto simp: less_Suc_eq_0_disj seen_def)
    moreover have "\<forall>x. sm_last m' = Some x \<longleftrightarrow>
        x \<in> seen (sm_last m) (Some q # ss) \<and> (\<forall>y\<in>seen (sm_last m) (Some q # ss). y \<le> x)"
      using IH(4) top by simp
    ultimately show ?thesis using IH(1,2) ob(1) Some by simp
  qed
qed

text \<open>Over any stream of event sequence numbers below the largest \<open>u64\<close>, the monitor never
  fails, reports a regression at exactly the events whose number does not exceed an earlier one,
  and ends with the largest number seen (a late event never lowers the recorded mark).\<close>

lemma seq_monitor_high_water:
  assumes "\<forall>s\<in>set ss. s \<noteq> Some u64_max"
  shows "\<exists>obs m. observe_all checks ss sm_new = Some (obs, m) \<and> length obs = length ss
     \<and> (\<forall>i<length ss. is_regressed (obs ! i) \<longleftrightarrow>
          (\<exists>s t. ss ! i = Some s \<and> Some t \<in> set (take i ss) \<and> s \<le> t))
     \<and> (\<forall>x. sm_last m = Some x \<longleftrightarrow> Some x \<in> set ss \<and> (\<forall>y. Some y \<in> set ss \<longrightarrow> y \<le> x))"
  using observe_all_spec [OF assms, of sm_new checks]
  by (simp add: sm_new_def seen_def Bex_def conj_commute)

theorem seq_monitor_high_water_witness:
  "\<exists>obs m. observe_all True [Some 5, None, Some 3] sm_new = Some (obs, m) \<and> length obs = 3
     \<and> is_regressed (obs ! 2) \<and> \<not> is_regressed (obs ! 0) \<and> sm_last m = Some 5"
proof -
  let ?ss = "[Some 5, None, Some 3] :: u64 option list"
  have "\<forall>s\<in>set ?ss. s \<noteq> Some u64_max" by (simp add: u64_max_def)
  from seq_monitor_high_water [OF this, of True] obtain obs m where
    ob: "observe_all True ?ss sm_new = Some (obs, m)" "length obs = 3" and
    reg: "\<forall>i<length ?ss. is_regressed (obs ! i) \<longleftrightarrow>
          (\<exists>s t. ?ss ! i = Some s \<and> Some t \<in> set (take i ?ss) \<and> s \<le> t)" and
    top: "\<forall>x. sm_last m = Some x \<longleftrightarrow> Some x \<in> set ?ss \<and> (\<forall>y. Some y \<in> set ?ss \<longrightarrow> y \<le> x)"
    by auto
  from reg have "is_regressed (obs ! 2)" by (auto dest: spec [of _ 2])
  moreover from reg have "\<not> is_regressed (obs ! 0)" by (auto dest: spec [of _ 0])
  moreover from top have "sm_last m = Some 5" by (auto dest: spec [of _ 5])
  ultimately show ?thesis using ob by blast
qed

text \<open>At the largest \<open>u64\<close> the documented classification breaks: once an event carried it, a
  build with overflow checks panics on every later numbered event, and a build without them
  reports number 0 as the regular successor instead of a regression.\<close>

lemma seq_monitor_overflow:
  "observe True (Some s) \<lparr>sm_last = Some u64_max\<rparr> = None
     \<and> observe False (Some 0) \<lparr>sm_last = Some u64_max\<rparr> = Some (Seq_Ok, \<lparr>sm_last = Some u64_max\<rparr>)"
  by (simp add: observe_def succ_u64_def u64_max_def)

end
