(* ===== verification/Dispatcher.thy ===== *)
theory Dispatcher
  imports Correlation
begin

text \<open>
  \<open>norves-bridge-editor-client/src/dispatcher.rs\<close>: the actor task that owns the pending table, and
  the handles that feed it. A one-shot reply channel is identified by a number (its \<open>waiter\<close>);
  \<open>ts_replies\<close> records every \<open>send\<close> on such a channel and \<open>ts_dropped\<close> every sender dropped
  without one. \<open>task_step\<close> is one turn of the select loop; \<open>sys_step\<close> adds the bounded command queue
  and the handles that issue requests, time out and shut down. Main results: every issued
  request is accounted for exactly once (queued, pending, answered or dropped), nothing stays
  pending after the task stops, and a late cancellation never touches a newer request.
\<close>

section \<open>Commands and state\<close>

datatype transport_error = Transport_Closed | Transport_Io string

text \<open>\<open>Timeout\<close> carries the duration in nanoseconds.\<close>

datatype request_error = ConnectionClosed | Timeout nat | Encode codec_error

type_synonym outcome = "request_error + response_payload"

datatype command =
    SendRequest correlation_id u64 envelope nat
  | Cancel correlation_id u64
  | Shutdown nat

datatype phase = Running | Stopped | Panicked

record task_state =
  ts_pending :: "(u64 \<times> nat) pending"
  ts_seq :: seq_monitor
  ts_events :: "validated_envelope list"
  ts_sent :: "string list"
  ts_replies :: "(nat \<times> outcome) list"
  ts_dropped :: "nat list"
  ts_acks :: "nat list"
  ts_phase :: phase

text \<open>
  What the task takes from outside the repository: the JSON text layer, and whether the build
  checks integer overflow.
\<close>

record wire =
  w_to_string :: "envelope \<Rightarrow> string + string"
  w_from_str :: "string \<Rightarrow> string + envelope"
  w_checks :: bool

definition COMMAND_CHANNEL_CAPACITY :: nat where
  "COMMAND_CHANNEL_CAPACITY = 64"

definition spawn_task :: task_state where
  "spawn_task = \<lparr>ts_pending = pt_new, ts_seq = sm_new, ts_events = [], ts_sent = [],
     ts_replies = [], ts_dropped = [], ts_acks = [], ts_phase = Running\<rparr>"

section \<open>The task\<close>

definition reply :: "nat \<Rightarrow> outcome \<Rightarrow> task_state \<Rightarrow> task_state" where
  "reply waiter r s = s\<lparr>ts_replies := ts_replies s @ [(waiter, r)]\<rparr>"

definition on_send_request ::
  "wire \<Rightarrow> correlation_id \<Rightarrow> u64 \<Rightarrow> envelope \<Rightarrow> nat \<Rightarrow> transport_error option \<Rightarrow> task_state \<Rightarrow> task_state"
where
  "on_send_request w i token envelope responder send_result s =
     (case encode_envelope (w_to_string w) envelope of
        Inl err \<Rightarrow> reply responder (Inl (Encode err)) s
      | Inr frame \<Rightarrow>
          (let (replaced, table) = pt_insert i (token, responder) (ts_pending s);
               s1 = s\<lparr>ts_pending := table\<rparr>;
               s2 = (case replaced of
                       Some (prev_token, previous) \<Rightarrow> reply previous (Inl ConnectionClosed) s1
                     | None \<Rightarrow> s1)
           in (case send_result of
                 None \<Rightarrow> s2\<lparr>ts_sent := ts_sent s2 @ [frame]\<rparr>
               | Some err \<Rightarrow>
                   (case pt_take i (ts_pending s2) of
                      (Some (entry_token, waiter), rest) \<Rightarrow>
                        if entry_token = token
                        then reply waiter (Inl ConnectionClosed) (s2\<lparr>ts_pending := rest\<rparr>)
                        else s2\<lparr>ts_pending := snd (pt_insert i (entry_token, waiter) rest)\<rparr>
                    | (None, rest) \<Rightarrow> s2\<lparr>ts_pending := rest\<rparr>))))"

definition on_cancel :: "correlation_id \<Rightarrow> u64 \<Rightarrow> task_state \<Rightarrow> task_state" where
  "on_cancel i token s =
     (case pt_take i (ts_pending s) of
        (Some (entry_token, waiter), rest) \<Rightarrow>
          if entry_token = token
          then s\<lparr>ts_pending := rest, ts_dropped := ts_dropped s @ [waiter]\<rparr>
          else s\<lparr>ts_pending := snd (pt_insert i (entry_token, waiter) rest)\<rparr>
      | (None, rest) \<Rightarrow> s\<lparr>ts_pending := rest\<rparr>)"

text \<open>The panic of the sequence monitor ends the task; its table is dropped with it.\<close>

definition panic :: "task_state \<Rightarrow> task_state" where
  "panic s = s\<lparr>ts_pending := pt_new,
     ts_dropped := ts_dropped s @ map (snd \<circ> snd) (fst (pt_drain_all (ts_pending s))),
     ts_phase := Panicked\<rparr>"

definition on_event :: "wire \<Rightarrow> validated_envelope \<Rightarrow> task_state \<Rightarrow> task_state" where
  "on_event w event s =
     (case observe (w_checks w) (case event of Event _ _ _ _ seq \<Rightarrow> seq | _ \<Rightarrow> None) (ts_seq s) of
        None \<Rightarrow> panic s
      | Some (observation, monitor) \<Rightarrow>
          s\<lparr>ts_seq := monitor, ts_events := ts_events s @ [event]\<rparr>)"

definition on_frame :: "wire \<Rightarrow> string \<Rightarrow> task_state \<Rightarrow> task_state" where
  "on_frame w text s =
     (case decode_typed (w_from_str w) text of
        Inl err \<Rightarrow> s
      | Inr (Response _ i payload _ _) \<Rightarrow>
          (case pt_take i (ts_pending s) of
             (Some (token, waiter), rest) \<Rightarrow> reply waiter (Inr payload) (s\<lparr>ts_pending := rest\<rparr>)
           | (None, rest) \<Rightarrow> s\<lparr>ts_pending := rest\<rparr>)
      | Inr (Event v e p sid q) \<Rightarrow> on_event w (Event v e p sid q) s
      | Inr (Request _ _ _ _ _ _) \<Rightarrow> s)"

definition fail_all_pending :: "task_state \<Rightarrow> task_state" where
  "fail_all_pending s =
     (let (drained, rest) = pt_drain_all (ts_pending s)
      in s\<lparr>ts_pending := rest,
           ts_replies := ts_replies s @ map (\<lambda>(i, token, waiter). (waiter, Inl ConnectionClosed)) drained\<rparr>)"

definition stop :: "task_state \<Rightarrow> task_state" where
  "stop s = (fail_all_pending s)\<lparr>ts_phase := Stopped\<rparr>"

text \<open>
  One turn of the select loop. A command comes with what the transport answers should it send;
  the other inputs are the ends of the command channel and the results of \<open>recv\<close>.
\<close>

datatype task_input =
    Command_in command "transport_error option"
  | Handles_dropped
  | Frame_in string
  | Peer_closed
  | Recv_failed transport_error

fun run_turn :: "wire \<Rightarrow> task_input \<Rightarrow> task_state \<Rightarrow> task_state" where
  "run_turn w (Command_in (SendRequest i token envelope responder) send_result) s =
     on_send_request w i token envelope responder send_result s"
| "run_turn w (Command_in (Cancel i token) _) s = on_cancel i token s"
| "run_turn w (Command_in (Shutdown ack) _) s = (stop s)\<lparr>ts_acks := ts_acks s @ [ack]\<rparr>"
| "run_turn w Handles_dropped s = stop s"
| "run_turn w (Frame_in text) s = on_frame w text s"
| "run_turn w Peer_closed s = stop s"
| "run_turn w (Recv_failed err) s = stop s"

definition task_step :: "wire \<Rightarrow> task_input \<Rightarrow> task_state \<Rightarrow> task_state" where
  "task_step w inp s = (if ts_phase s = Running then run_turn w inp s else s)"

section \<open>The handle\<close>

text \<open>
  \<open>request\<close> up to the command it sends, and from what the reply channel yields to the caller's
  result with the clean-up command that follows a timeout.
\<close>

definition request_begin ::
  "wire \<Rightarrow> validated_envelope \<Rightarrow> u64 \<Rightarrow> nat \<Rightarrow> request_error + (command \<times> u64)" where
  "request_begin w request next_token responder =
     (case request of
        Request _ i _ _ _ _ \<Rightarrow>
          (let envelope = envelope_from request
           in (case encode_envelope (w_to_string w) envelope of
                 Inl err \<Rightarrow> Inl (Encode err)
               | Inr _ \<Rightarrow> Inr (SendRequest i next_token envelope responder, next_token + 1)))
      | _ \<Rightarrow> Inl (Encode (StructuralViolation ''request() requires a request-kind envelope'')))"

datatype wait_result = Delivered outcome | Responder_dropped | Elapsed

fun request_end :: "correlation_id \<Rightarrow> u64 \<Rightarrow> nat \<Rightarrow> wait_result \<Rightarrow> outcome \<times> command option" where
  "request_end i token timeout (Delivered r) = (r, None)"
| "request_end i token timeout Responder_dropped = (Inl ConnectionClosed, None)"
| "request_end i token timeout Elapsed = (Inl (Timeout timeout), Some (Cancel i token))"

section \<open>Handles, queue and task together\<close>

text \<open>
  \<open>sy_sending\<close> holds the requests whose token is allocated but whose command still waits for room in
  the channel; such sends may complete in any order.
\<close>

record sys =
  sy_task :: task_state
  sy_queue :: "command list"
  sy_sending :: "command list"
  sy_next_token :: u64
  sy_issued :: nat

definition sys_init :: sys where
  "sys_init = \<lparr>sy_task = spawn_task, sy_queue = [], sy_sending = [], sy_next_token = 0, sy_issued = 0\<rparr>"

fun command_waiters :: "command \<Rightarrow> nat list" where
  "command_waiters (SendRequest _ _ _ responder) = [responder]"
| "command_waiters _ = []"

text \<open>When the task is gone its receiver is, and with it every command still queued.\<close>

definition settle :: "task_state \<Rightarrow> command list \<Rightarrow> sys \<Rightarrow> sys" where
  "settle t q s =
     (if ts_phase t = Running then s\<lparr>sy_task := t, sy_queue := q\<rparr>
      else s\<lparr>sy_task := t\<lparr>ts_dropped := ts_dropped t @ concat (map command_waiters q)\<rparr>, sy_queue := []\<rparr>)"

inductive sys_step :: "wire \<Rightarrow> sys \<Rightarrow> sys \<Rightarrow> bool" for w where
  issue: "request_begin w request (sy_next_token s) (sy_issued s) = Inr (c, next) \<Longrightarrow>
     sys_step w s (s\<lparr>sy_sending := sy_sending s @ [c], sy_next_token := next, sy_issued := Suc (sy_issued s)\<rparr>)"
| enqueue: "ts_phase (sy_task s) = Running \<Longrightarrow> length (sy_queue s) < COMMAND_CHANNEL_CAPACITY \<Longrightarrow>
     sy_sending s = before @ c # after \<Longrightarrow>
     sys_step w s (s\<lparr>sy_sending := before @ after, sy_queue := sy_queue s @ [c]\<rparr>)"
| enqueue_closed: "ts_phase (sy_task s) \<noteq> Running \<Longrightarrow> sy_sending s = before @ c # after \<Longrightarrow>
     sys_step w s (s\<lparr>sy_sending := before @ after,
       sy_task := (sy_task s)\<lparr>ts_dropped := ts_dropped (sy_task s) @ command_waiters c\<rparr>\<rparr>)"
| post: "ts_phase (sy_task s) = Running \<Longrightarrow> length (sy_queue s) < COMMAND_CHANNEL_CAPACITY \<Longrightarrow>
     c = Cancel i token \<or> c = Shutdown ack \<Longrightarrow>
     sys_step w s (s\<lparr>sy_queue := sy_queue s @ [c]\<rparr>)"
| dequeue: "ts_phase (sy_task s) = Running \<Longrightarrow> sy_queue s = c # q \<Longrightarrow>
     sys_step w s (settle (task_step w (Command_in c send_result) (sy_task s)) q s)"
| inbound: "ts_phase (sy_task s) = Running \<Longrightarrow>
     inp = Frame_in text \<or> inp = Peer_closed \<or> inp = Recv_failed err \<Longrightarrow>
     sys_step w s (settle (task_step w inp (sy_task s)) (sy_queue s) s)"

inductive sys_reach :: "wire \<Rightarrow> sys \<Rightarrow> bool" for w where
  sys_start: "sys_reach w sys_init"
| sys_next: "sys_reach w s \<Longrightarrow> sys_step w s t \<Longrightarrow> sys_reach w t"

inductive_cases sys_stepE: "sys_step w s t"

section \<open>Conservation of waiters\<close>

text \<open>Every waiter the task has met: pending, answered, or dropped.\<close>

definition waiters :: "task_state \<Rightarrow> nat multiset" where
  "waiters t = image_mset snd (pt_held (ts_pending t)) + mset (map fst (ts_replies t)) + mset (ts_dropped t)"

lemma reply_fields [simp]:
  "ts_pending (reply x r s) = ts_pending s" "ts_dropped (reply x r s) = ts_dropped s"
  "ts_phase (reply x r s) = ts_phase s" "ts_replies (reply x r s) = ts_replies s @ [(x, r)]"
  "ts_events (reply x r s) = ts_events s" "ts_seq (reply x r s) = ts_seq s"
  "ts_sent (reply x r s) = ts_sent s" "ts_acks (reply x r s) = ts_acks s"
  by (simp_all add: reply_def)

lemma waiters_reply [simp]: "waiters (reply x r s) = add_mset x (waiters s)"
  by (simp add: waiters_def)

lemma on_send_request_Inr:
  assumes "hm_ok (ts_pending s)" "encode_envelope (w_to_string w) envelope = Inr frame"
  shows "on_send_request w i token envelope responder send_result s =
    (let s1 = s\<lparr>ts_pending := snd (pt_insert i (token, responder) (ts_pending s))\<rparr>;
         s2 = (case hm_get (ts_pending s) i of
                 Some (prev_token, previous) \<Rightarrow> reply previous (Inl ConnectionClosed) s1
               | None \<Rightarrow> s1)
     in (case send_result of None \<Rightarrow> s2\<lparr>ts_sent := ts_sent s2 @ [frame]\<rparr>
         | Some err \<Rightarrow> reply responder (Inl ConnectionClosed)
             (s2\<lparr>ts_pending := snd (pt_take i (ts_pending s2))\<rparr>)))"
proof -
  let ?p = "snd (pt_insert i (token, responder) (ts_pending s))"
  obtain rest where t: "pt_take i ?p = (Some (token, responder), rest)"
    using pt.take_after_insert [OF assms(1), of i "(token, responder)"] by (metis prod.collapse)
  have o: "pt_insert i (token, responder) (ts_pending s) = (hm_get (ts_pending s) i, ?p)"
    by (simp add: pt_insert_def)
  show ?thesis
    unfolding on_send_request_def assms(2)
    by (subst o) (auto simp: Let_def t split: option.splits)
qed

lemma on_send_request_ok [inv_intros]:
  "hm_ok (ts_pending s) \<Longrightarrow> hm_ok (ts_pending (on_send_request w i token e r send_result s))"
proof (cases "encode_envelope (w_to_string w) e")
  case (Inl err)
  then show "hm_ok (ts_pending s) \<Longrightarrow> ?thesis" by (simp add: on_send_request_def)
next
  case (Inr frame)
  then show "hm_ok (ts_pending s) \<Longrightarrow> ?thesis"
    by (auto simp: on_send_request_Inr Let_def pt.wf_ins pt.wf_tak split: option.splits)
qed

lemma on_send_request_accounts:
  assumes ok: "hm_ok (ts_pending s)"
  shows "waiters (on_send_request w i token e r send_result s) = add_mset r (waiters s)"
proof (cases "encode_envelope (w_to_string w) e")
  case (Inl err)
  then show ?thesis by (simp add: on_send_request_def)
next
  case (Inr frame)
  let ?p = "snd (pt_insert i (token, r) (ts_pending s))"
  have ins: "image_mset snd (pt_held ?p) + image_mset snd (opt_mset (hm_get (ts_pending s) i))
      = add_mset r (image_mset snd (pt_held (ts_pending s)))"
    using arg_cong [OF pt.held_ins [OF ok, of i "(token, r)"], of "image_mset snd"] by simp
  have tak: "image_mset snd (pt_held ?p) = add_mset r (image_mset snd (pt_held (snd (pt_take i ?p))))"
    using arg_cong [OF pt.held_tak_Some [of ?p i "(token, r)"], of "image_mset snd"] ok
    by (simp add: pt.wf_ins pt.look_ins)
  show ?thesis
    using ins tak by (auto simp: on_send_request_Inr [OF ok Inr] Let_def waiters_def split: option.splits)
qed

lemma on_cancel_ok [inv_intros]:
  "hm_ok (ts_pending s) \<Longrightarrow> hm_ok (ts_pending (on_cancel i token s))"
  by (auto simp: on_cancel_def pt_take_def pt_insert_def split: option.splits)

lemma on_cancel_accounts:
  assumes ok: "hm_ok (ts_pending s)"
  shows "waiters (on_cancel i token s) = waiters s"
proof (cases "hm_get (ts_pending s) i")
  case None
  with ok show ?thesis by (simp add: on_cancel_def pt_take_def hm_remove_notin)
next
  case (Some p)
  obtain tok x where p: "p = (tok, x)" by (cases p)
  have "image_mset snd (pt_held (ts_pending s))
      = add_mset x (image_mset snd (pt_held (snd (pt_take i (ts_pending s)))))"
    using arg_cong [OF pt.held_tak_Some [OF ok Some], of "image_mset snd"] p by simp
  moreover have "pt_held (snd (pt_insert i p (snd (pt_take i (ts_pending s))))) = pt_held (ts_pending s)"
    using pt.held_reinsert [OF ok Some] .
  ultimately show ?thesis using Some p
    by (simp add: on_cancel_def waiters_def pt_take_def pt_insert_def)
qed

lemma fail_all_accounts:
  assumes "hm_ok (ts_pending s)"
  shows "waiters (fail_all_pending s) = waiters s" "ts_pending (fail_all_pending s) = pt_new"
  by (simp_all add: fail_all_pending_def waiters_def pt_drain_all_def pt_held_def pt_new_def
      case_prod_unfold comp_def multiset.map_comp)

lemma stop_accounts:
  assumes "hm_ok (ts_pending s)"
  shows "waiters (stop s) = waiters s" "ts_pending (stop s) = pt_new" "ts_phase (stop s) = Stopped"
  using fail_all_accounts [OF assms] by (simp_all add: stop_def waiters_def)

lemma panic_accounts: "waiters (panic s) = waiters s" "ts_pending (panic s) = pt_new" "ts_phase (panic s) = Panicked"
  by (simp_all add: panic_def waiters_def pt_drain_all_def pt_held_def pt_new_def comp_def multiset.map_comp)

lemma on_event_accounts:
  "ts_phase s = Running \<Longrightarrow> hm_ok (ts_pending s) \<Longrightarrow> waiters (on_event w ev s) = waiters s
     \<and> hm_ok (ts_pending (on_event w ev s))
     \<and> (ts_phase (on_event w ev s) = Running \<or> ts_pending (on_event w ev s) = pt_new)"
  using panic_accounts [of s]
  by (auto simp: on_event_def waiters_def pt_new_def split: option.splits)

lemma on_frame_accounts:
  assumes "ts_phase s = Running" and ok: "hm_ok (ts_pending s)"
  shows "waiters (on_frame w text s) = waiters s \<and> hm_ok (ts_pending (on_frame w text s))
     \<and> (ts_phase (on_frame w text s) = Running \<or> ts_pending (on_frame w text s) = pt_new)"
proof (cases "decode_typed (w_from_str w) text")
  case (Inl err)
  with assms show ?thesis by (simp add: on_frame_def)
next
  case (Inr env)
  show ?thesis
  proof (cases env)
    case (Response v i payload sid q)
    show ?thesis
    proof (cases "hm_get (ts_pending s) i")
      case None
      with assms Inr Response show ?thesis
        by (simp add: on_frame_def pt_take_def waiters_def hm_remove_notin)
    next
      case (Some p)
      obtain tok x where p: "p = (tok, x)" by (cases p)
      have "image_mset snd (pt_held (ts_pending s))
          = add_mset x (image_mset snd (pt_held (snd (pt_take i (ts_pending s)))))"
        using arg_cong [OF pt.held_tak_Some [OF ok Some], of "image_mset snd"] p by simp
      with assms Inr Response Some p show ?thesis
        by (simp add: on_frame_def pt_take_def waiters_def)
    qed
  qed (simp_all add: on_frame_def Inr assms on_event_accounts)
qed

text \<open>The waiter a command brings with it.\<close>

fun input_waiters :: "task_input \<Rightarrow> nat list" where
  "input_waiters (Command_in c _) = command_waiters c"
| "input_waiters _ = []"

definition task_ok :: "task_state \<Rightarrow> bool" where
  "task_ok t \<longleftrightarrow> hm_ok (ts_pending t) \<and> (ts_phase t \<noteq> Running \<longrightarrow> ts_pending t = pt_new)"

lemma on_send_request_phase [frame]: "ts_phase (on_send_request w i token e r sr s) = ts_phase s"
  by (auto simp: on_send_request_def Let_def split: option.splits sum.splits prod.splits)

lemma on_cancel_phase [frame]: "ts_phase (on_cancel i token s) = ts_phase s"
  by (auto simp: on_cancel_def split: option.splits prod.splits)

lemma task_step_accounts:
  assumes "task_ok t" "ts_phase t = Running"
  shows "waiters (task_step w inp t) = waiters t + mset (input_waiters inp) \<and> task_ok (task_step w inp t)"
proof -
  from assms have ok: "hm_ok (ts_pending t)" by (simp add: task_ok_def)
  note stops = stop_accounts [OF ok]
  show ?thesis
  proof (cases inp)
    case (Command_in c sr)
    then show ?thesis
    proof (cases c)
      case (SendRequest i token e r)
      with Command_in assms ok show ?thesis
        by (simp add: task_step_def task_ok_def on_send_request_accounts on_send_request_ok frame)
    next
      case (Cancel i token)
      with Command_in assms ok show ?thesis
        by (simp add: task_step_def task_ok_def on_cancel_accounts on_cancel_ok frame)
    next
      case (Shutdown ack)
      with Command_in assms stops show ?thesis
        by (simp add: task_step_def task_ok_def waiters_def pt_new_def)
    qed
  next
    case (Frame_in raw)
    with assms ok on_frame_accounts [OF assms(2) ok, of w raw] show ?thesis
      by (auto simp: task_step_def task_ok_def)
  qed (simp_all add: task_step_def task_ok_def assms stops pt.wf_new)
qed

text \<open>The whole system: every issued request is in exactly one place.\<close>

definition accounted :: "sys \<Rightarrow> nat multiset" where
  "accounted s = mset (concat (map command_waiters (sy_sending s)))
     + mset (concat (map command_waiters (sy_queue s))) + waiters (sy_task s)"

definition sys_inv :: "sys \<Rightarrow> bool" where
  "sys_inv s \<longleftrightarrow> task_ok (sy_task s) \<and> accounted s = mset [0..<sy_issued s]
     \<and> length (sy_queue s) \<le> COMMAND_CHANNEL_CAPACITY
     \<and> (ts_phase (sy_task s) \<noteq> Running \<longrightarrow> sy_queue s = [])"

lemma sys_inv_init: "sys_inv sys_init"
  by (simp add: sys_inv_def sys_init_def accounted_def waiters_def spawn_task_def task_ok_def
      pt_new_def pt_held_def)

lemma settle_inv:
  assumes "task_ok t" "mset (concat (map command_waiters (sy_sending s)))
      + mset (concat (map command_waiters q)) + waiters t = mset [0..<sy_issued s]"
    and "length q \<le> COMMAND_CHANNEL_CAPACITY"
  shows "sys_inv (settle t q s)"
  using assms by (auto simp: settle_def sys_inv_def accounted_def waiters_def task_ok_def ac_simps)

lemma request_begin_waiters:
  "request_begin w request tok r = Inr (c, next) \<Longrightarrow> command_waiters c = [r]"
  by (auto simp: request_begin_def Let_def split: validated_envelope.splits sum.splits)

lemma sys_step_inv: "sys_step w s t \<Longrightarrow> sys_inv s \<Longrightarrow> sys_inv t"
proof (induction rule: sys_step.induct)
  case (issue request s c "next")
  then show ?case
    by (auto simp: sys_inv_def accounted_def request_begin_waiters)
next
  case (enqueue s before c "after")
  then show ?case by (auto simp: sys_inv_def accounted_def ac_simps)
next
  case (enqueue_closed s before c "after")
  then show ?case by (auto simp: sys_inv_def accounted_def waiters_def task_ok_def ac_simps)
next
  case (post s c i token ack)
  then show ?case by (auto simp: sys_inv_def accounted_def)
next
  case (dequeue s c q send_result)
  then show ?case using task_step_accounts [of "sy_task s" w "Command_in c send_result"]
    by (intro settle_inv) (auto simp: sys_inv_def accounted_def ac_simps)
next
  case (inbound s inp raw err)
  then have "input_waiters inp = []" by auto
  with inbound show ?case using task_step_accounts [of "sy_task s" w inp]
    by (intro settle_inv) (auto simp: sys_inv_def accounted_def ac_simps)
qed

lemma sys_reach_inv: "sys_reach w s \<Longrightarrow> sys_inv s"
  by (induction rule: sys_reach.induct) (auto intro: sys_inv_init sys_step_inv)

section \<open>Tokens identify requests\<close>

definition tokens_ok :: "(u64 \<times> nat) pending \<Rightarrow> bool" where
  "tokens_ok p \<longleftrightarrow> (\<forall>i tok x. hm_get p i = Some (tok, x) \<longrightarrow> tok = word_of_nat x)"

fun command_token_ok :: "command \<Rightarrow> bool" where
  "command_token_ok (SendRequest _ tok _ x) \<longleftrightarrow> tok = word_of_nat x"
| "command_token_ok _ \<longleftrightarrow> True"

lemma tokens_ok_new [simp, inv_intros]: "tokens_ok pt_new"
  by (simp add: tokens_ok_def pt_new_def)

lemma tokens_ok_insert [simp, inv_intros]:
  "tokens_ok p \<Longrightarrow> tok = word_of_nat x \<Longrightarrow> tokens_ok (snd (pt_insert i (tok, x) p))"
  by (auto simp: tokens_ok_def pt_insert_def hm_get_insert)

lemma tokens_ok_take [simp, inv_intros]: "tokens_ok p \<Longrightarrow> tokens_ok (snd (pt_take i p))"
  by (auto simp: tokens_ok_def pt_take_def hm_get_remove)

lemma tokens_ok_take_found: "tokens_ok p \<Longrightarrow> pt_take i p = (Some (tok, x), rest) \<Longrightarrow> tok = word_of_nat x"
  by (auto simp: tokens_ok_def pt_take_def)

lemma tokens_ok_taken: "tokens_ok p \<Longrightarrow> pt_take i p = (r, rest) \<Longrightarrow> tokens_ok rest"
  using tokens_ok_take [of p i] by simp

lemma tokens_ok_inserted: "tokens_ok p \<Longrightarrow> tok = word_of_nat x \<Longrightarrow> pt_insert i (tok, x) p = (r, q) \<Longrightarrow> tokens_ok q"
  using tokens_ok_insert [of p tok x i] by simp

lemmas tokens_ok_rules = tokens_ok_taken tokens_ok_inserted tokens_ok_take_found

lemma on_send_request_tokens:
  "hm_ok (ts_pending s) \<Longrightarrow> tokens_ok (ts_pending s) \<Longrightarrow> tok = word_of_nat r \<Longrightarrow>
    tokens_ok (ts_pending (on_send_request w i tok e r sr s))"
proof (cases "encode_envelope (w_to_string w) e")
  case (Inr frame)
  then show "hm_ok (ts_pending s) \<Longrightarrow> tokens_ok (ts_pending s) \<Longrightarrow> tok = word_of_nat r \<Longrightarrow> ?thesis"
    by (auto simp: on_send_request_Inr Let_def split: option.splits)
qed (simp add: on_send_request_def)

lemma on_cancel_tokens:
  "tokens_ok (ts_pending s) \<Longrightarrow> tokens_ok (ts_pending (on_cancel i tok s))"
  by (auto simp: on_cancel_def intro: tokens_ok_insert tokens_ok_rules split: option.splits prod.splits)

lemma on_event_tokens:
  "tokens_ok (ts_pending s) \<Longrightarrow> tokens_ok (ts_pending (on_event w ev s))"
  by (auto simp: on_event_def panic_def split: option.splits)

lemma on_frame_tokens:
  "tokens_ok (ts_pending s) \<Longrightarrow> tokens_ok (ts_pending (on_frame w raw s))"
  by (auto simp: on_frame_def on_event_tokens intro: tokens_ok_rules
      split: option.splits prod.splits sum.splits validated_envelope.splits)

lemma task_step_tokens:
  assumes "task_ok t" "tokens_ok (ts_pending t)" "\<And>c sr. inp = Command_in c sr \<Longrightarrow> command_token_ok c"
  shows "tokens_ok (ts_pending (task_step w inp t))"
proof (cases "ts_phase t = Running")
  case True
  from assms(1) have ok: "hm_ok (ts_pending t)" by (simp add: task_ok_def)
  have "tokens_ok (ts_pending (run_turn w inp t))"
  proof (cases inp)
    case (Command_in c sr)
    with assms ok show ?thesis
      by (cases c) (auto simp: on_send_request_tokens on_cancel_tokens stop_accounts)
  qed (simp_all add: assms ok on_frame_tokens stop_accounts)
  with True show ?thesis by (simp add: task_step_def)
qed (simp add: task_step_def assms)

definition sys_tokens :: "sys \<Rightarrow> bool" where
  "sys_tokens s \<longleftrightarrow> tokens_ok (ts_pending (sy_task s))
     \<and> (\<forall>c\<in>set (sy_sending s) \<union> set (sy_queue s). command_token_ok c)
     \<and> sy_next_token s = word_of_nat (sy_issued s)"

lemma settle_tokens:
  "tokens_ok (ts_pending t) \<Longrightarrow> sys_tokens s \<Longrightarrow> set q \<subseteq> set (sy_queue s) \<Longrightarrow> sys_tokens (settle t q s)"
  by (auto simp: settle_def sys_tokens_def)

lemma sys_step_tokens: "sys_step w s t \<Longrightarrow> sys_inv s \<Longrightarrow> sys_tokens s \<Longrightarrow> sys_tokens t"
proof (induction rule: sys_step.induct)
  case (issue request s c "next")
  then have "command_token_ok c \<and> next = sy_next_token s + 1"
    by (auto simp: request_begin_def sys_tokens_def Let_def split: validated_envelope.splits sum.splits)
  with issue show ?case by (auto simp: sys_tokens_def add.commute)
next
  case (dequeue s c q send_result)
  then show ?case
    by (intro settle_tokens task_step_tokens) (auto simp: sys_tokens_def sys_inv_def)
next
  case (inbound s inp raw err)
  then show ?case
    by (intro settle_tokens task_step_tokens) (auto simp: sys_tokens_def sys_inv_def)
qed (auto simp: sys_tokens_def)

lemma sys_reach_tokens: "sys_reach w s \<Longrightarrow> sys_tokens s"
proof (induction rule: sys_reach.induct)
  case sys_start
  show ?case by (simp add: sys_tokens_def sys_init_def spawn_task_def)
next
  case (sys_next s t)
  then show ?case using sys_reach_inv sys_step_tokens by blast
qed

lemma pending_waiter_issued:
  assumes "sys_inv s" "hm_get (ts_pending (sy_task s)) i = Some (tok, x)"
  shows "x < sy_issued s"
proof -
  have "x \<in># image_mset snd (pt_held (ts_pending (sy_task s)))"
    using map_of_SomeD [OF assms(2)] by (force simp: pt_held_def)
  then have "x \<in># accounted s" by (simp add: accounted_def waiters_def)
  with assms(1) show ?thesis by (simp add: sys_inv_def)
qed

section \<open>Properties\<close>

lemma distinct_submset: "mset xs \<subseteq># mset ys \<Longrightarrow> distinct ys \<Longrightarrow> distinct xs"
proof -
  assume sub: "mset xs \<subseteq># mset ys" and "distinct ys"
  obtain zs where "mset zs = mset ys - mset xs" using ex_mset by blast
  with sub have "mset (xs @ zs) = mset ys" by simp
  with \<open>distinct ys\<close> have "distinct (xs @ zs)" using mset_eq_imp_distinct_iff by blast
  then show "distinct xs" by simp
qed

text \<open>C3: However requests, time-outs, shutdowns and frames interleave, every issued request is
  in exactly one place: waiting for room, queued, pending, answered once, or dropped. In
  particular no caller is answered twice, the command queue stays within its capacity, and once
  the task has stopped nothing stays pending or queued, so every request whose command was sent
  has its outcome or sees its channel closed.\<close>

theorem dispatcher_conserves_waiters:
  assumes "sys_reach w s"
  shows "accounted s = mset [0..<sy_issued s]
     \<and> distinct (map fst (ts_replies (sy_task s)) @ ts_dropped (sy_task s))
     \<and> length (sy_queue s) \<le> COMMAND_CHANNEL_CAPACITY
     \<and> (ts_phase (sy_task s) \<noteq> Running \<and> sy_sending s = [] \<longrightarrow>
          mset (map fst (ts_replies (sy_task s)) @ ts_dropped (sy_task s)) = mset [0..<sy_issued s])"
proof -
  from assms have inv: "sys_inv s" by (rule sys_reach_inv)
  then have acc: "accounted s = mset [0..<sy_issued s]"
    and cap: "length (sy_queue s) \<le> COMMAND_CHANNEL_CAPACITY" by (simp_all add: sys_inv_def)
  let ?done = "map fst (ts_replies (sy_task s)) @ ts_dropped (sy_task s)"
  have "mset ?done \<subseteq># mset [0..<sy_issued s]"
    unfolding acc [symmetric] by (simp add: accounted_def waiters_def)
  then have "distinct ?done" by (rule distinct_submset) simp
  moreover have "mset ?done = mset [0..<sy_issued s]"
    if "ts_phase (sy_task s) \<noteq> Running" "sy_sending s = []"
    using inv acc that by (simp add: sys_inv_def accounted_def waiters_def task_ok_def pt_new_def pt_held_def)
  ultimately show ?thesis using acc cap by blast
qed

text \<open>C6: As long as fewer than \<open>2 ^ 64\<close> requests were issued, a cancellation removes the pending
  entry under its id exactly when that entry is the request that timed out: the cancellation of
  an older request that used the same id changes neither the lookups nor any outcome.\<close>

theorem cancel_hits_only_its_request:
  assumes "sys_reach w s" and "sy_issued s \<le> 2 ^ 64" and "y < sy_issued s"
    and "hm_get (ts_pending (sy_task s)) i = Some (tok, x)"
  shows "hm_get (ts_pending (on_cancel i (word_of_nat y) (sy_task s)))
       = (if x = y then (hm_get (ts_pending (sy_task s)))(i := None) else hm_get (ts_pending (sy_task s)))
     \<and> ts_dropped (on_cancel i (word_of_nat y) (sy_task s))
       = ts_dropped (sy_task s) @ (if x = y then [x] else [])
     \<and> ts_replies (on_cancel i (word_of_nat y) (sy_task s)) = ts_replies (sy_task s)"
proof -
  from assms(1) have inv: "sys_inv s" and tok: "tok = word_of_nat x"
    using sys_reach_inv sys_reach_tokens assms(4) by (auto simp: sys_tokens_def tokens_ok_def)
  from inv have ok: "hm_ok (ts_pending (sy_task s))" by (simp add: sys_inv_def task_ok_def)
  have "x < 2 ^ 64" "y < 2 ^ 64"
    using assms(2,3) pending_waiter_issued [OF inv assms(4)] by simp_all
  then have eq: "(word_of_nat x :: u64) = word_of_nat y \<longleftrightarrow> x = y"
    by (simp add: word_of_nat_eq_iff take_bit_nat_eq_self)
  have rest: "hm_get (snd (pt_insert i (tok, x) (snd (pt_take i (ts_pending (sy_task s))))))
      = hm_get (ts_pending (sy_task s))"
    by (rule pt.reinsert_restores [OF ok assms(4)])
  show ?thesis
    using assms(4) eq rest tok by (auto simp: on_cancel_def pt_take_def hm_get_remove)
qed

text \<open>An inbound frame never stops the task while the sequence monitor has not reached the
  largest \<open>u64\<close>: the frame answers at most one waiter, and only with the payload of a decoded
  response that carries that waiter's id, or is broadcast as one event, and drops nobody.\<close>

lemma frame_never_fatal:
  assumes "ts_phase s = Running" and "sm_last (ts_seq s) \<noteq> Some u64_max"
  shows "ts_phase (on_frame w raw s) = Running \<and> ts_dropped (on_frame w raw s) = ts_dropped s
     \<and> (\<exists>rs es. ts_replies (on_frame w raw s) = ts_replies s @ rs
          \<and> ts_events (on_frame w raw s) = ts_events s @ es \<and> length rs + length es \<le> 1
          \<and> (\<forall>(x, r)\<in>set rs. \<exists>v i p sid q tok. decode_typed (w_from_str w) raw = Inr (Response v i p sid q)
                \<and> hm_get (ts_pending s) i = Some (tok, x) \<and> r = Inr p))"
proof (cases "decode_typed (w_from_str w) raw")
  case (Inl err)
  with assms show ?thesis by (simp add: on_frame_def)
next
  case (Inr env)
  show ?thesis
  proof (cases env)
    case (Response v i p sid q)
    with Inr assms show ?thesis
      by (cases "hm_get (ts_pending s) i") (auto simp: on_frame_def pt_take_def)
  next
    case (Event v e p sid q)
    obtain ob m where "observe (w_checks w) q (ts_seq s) = Some (ob, m)"
      using observe_step [OF assms(2), of "w_checks w"] by (cases q) (auto simp: observe_def)
    with Inr Event assms show ?thesis by (simp add: on_frame_def on_event_def)
  next
    case (Request v i m p sid q)
    with Inr assms show ?thesis by (simp add: on_frame_def)
  qed
qed

section \<open>A concrete run\<close>

text \<open>
  One request is issued, sent, and cancelled; a wire that encodes every envelope to the same text
  and decodes every text to the same event is enough to run it.
\<close>

definition demo_event :: "u64 \<Rightarrow> validated_envelope" where
  "demo_event q = Event (VersionString ''0.1'') (EventName ''log.message'') None None (Some q)"

definition demo_wire :: "u64 \<Rightarrow> wire" where
  "demo_wire q = \<lparr>w_to_string = (\<lambda>_. Inr ''frame''),
     w_from_str = (\<lambda>_. Inr (envelope_from (demo_event q))), w_checks = True\<rparr>"

definition demo_request :: validated_envelope where
  "demo_request = Request (VersionString ''0.1'') (CorrelationId ''a'') (MethodName ''runtime.play'') None None None"

definition demo_issued :: sys where
  "demo_issued = sys_init\<lparr>sy_sending := [SendRequest (CorrelationId ''a'') 0 (envelope_from demo_request) 0],
     sy_next_token := 1, sy_issued := 1\<rparr>"

definition demo_queued :: sys where
  "demo_queued = demo_issued\<lparr>sy_sending := [], sy_queue := sy_sending demo_issued\<rparr>"

definition demo_pending :: sys where
  "demo_pending = demo_queued\<lparr>sy_queue := [],
     sy_task := spawn_task\<lparr>ts_pending := [(CorrelationId ''a'', 0, 0)], ts_sent := [''frame'']\<rparr>\<rparr>"

lemma demo_reach_issued: "sys_reach (demo_wire q) demo_issued"
proof (rule sys_next [OF sys_start])
  have "request_begin (demo_wire q) demo_request (sy_next_token sys_init) (sy_issued sys_init)
      = Inr (SendRequest (CorrelationId ''a'') 0 (envelope_from demo_request) 0, 1)"
    by (simp add: request_begin_def demo_request_def demo_wire_def encode_envelope_def sys_init_def)
  from sys_step.issue [OF this] show "sys_step (demo_wire q) sys_init demo_issued"
    by (simp add: demo_issued_def sys_init_def)
qed

lemma demo_reach_queued: "sys_reach (demo_wire q) demo_queued"
proof (rule sys_next [OF demo_reach_issued])
  have "sy_sending demo_issued = [] @ hd (sy_sending demo_issued) # []"
    by (simp add: demo_issued_def)
  from sys_step.enqueue [OF _ _ this] show "sys_step (demo_wire q) demo_issued demo_queued"
    by (simp add: demo_queued_def demo_issued_def sys_init_def spawn_task_def COMMAND_CHANNEL_CAPACITY_def)
qed

lemma demo_reach_pending: "sys_reach (demo_wire q) demo_pending"
proof (rule sys_next [OF demo_reach_queued])
  have "sy_queue demo_queued = SendRequest (CorrelationId ''a'') 0 (envelope_from demo_request) 0 # []"
    by (simp add: demo_queued_def demo_issued_def)
  from sys_step.dequeue [OF _ this, where w = "demo_wire q" and send_result = None]
  show "sys_step (demo_wire q) demo_queued demo_pending"
    by (simp add: demo_pending_def demo_queued_def demo_issued_def sys_init_def spawn_task_def
        task_step_def on_send_request_def encode_envelope_def demo_wire_def pt_insert_def pt_new_def
        settle_def)
qed

theorem dispatcher_conserves_waiters_witness:
  "sys_reach (demo_wire 0) demo_pending \<and> accounted demo_pending = mset [0..<1]"
  using dispatcher_conserves_waiters [OF demo_reach_pending [of 0]] demo_reach_pending [of 0]
  by (simp add: demo_pending_def demo_queued_def demo_issued_def sys_init_def)

theorem cancel_hits_only_its_request_witness:
  "sys_reach (demo_wire 0) demo_pending
     \<and> ts_dropped (on_cancel (CorrelationId ''a'') (word_of_nat 0) (sy_task demo_pending)) = [0]"
proof -
  have "hm_get (ts_pending (sy_task demo_pending)) (CorrelationId ''a'') = Some (0, 0)"
    "sy_issued demo_pending = 1" "ts_dropped (sy_task demo_pending) = []"
    by (simp_all add: demo_pending_def demo_queued_def demo_issued_def spawn_task_def)
  with cancel_hits_only_its_request [OF demo_reach_pending [of 0], where y = 0 and i = "CorrelationId ''a''" and tok = 0 and x = 0]
  show ?thesis using demo_reach_pending [of 0] by simp
qed

theorem frame_never_fatal_witness:
  "ts_phase (on_frame (demo_wire 7) ''x'' spawn_task) = Running"
  using frame_never_fatal [of spawn_task "demo_wire 7" "''x''"]
  by (simp add: spawn_task_def sm_new_def)

text \<open>A peer can stop a dispatcher built with overflow checks: after an event numbered with
  the largest \<open>u64\<close>, the next numbered event panics the task and drops every pending request.\<close>

lemma seq_overflow_kills_task:
  assumes "w_checks w" and "ts_phase s = Running" and "hm_ok (ts_pending s)"
    and "decode_typed (w_from_str w) raw1 = Inr (Event v1 e1 p1 sid1 (Some u64_max))"
    and "sm_last (ts_seq s) \<noteq> Some u64_max"
    and "decode_typed (w_from_str w) raw2 = Inr (Event v2 e2 p2 sid2 (Some q))"
  shows "ts_phase (on_frame w raw2 (on_frame w raw1 s)) = Panicked
     \<and> ts_pending (on_frame w raw2 (on_frame w raw1 s)) = pt_new"
proof -
  obtain ob where "observe (w_checks w) (Some u64_max) (ts_seq s)
      = Some (ob, (ts_seq s)\<lparr>sm_last := Some u64_max\<rparr>)"
    using observe_step [OF assms(5), of "w_checks w" u64_max]
    by (auto simp: max_def split: option.splits if_splits dest: antisym)
  then have "sm_last (ts_seq (on_frame w raw1 s)) = Some u64_max"
    using assms(4) by (simp add: on_frame_def on_event_def)
  then have "observe (w_checks w) (Some q) (ts_seq (on_frame w raw1 s)) = None"
    using assms(1) by (simp add: observe_def succ_u64_def)
  then show ?thesis using assms(6) by (simp add: on_frame_def on_event_def panic_def)
qed

end
