(* ===== verification/Js_Stringify.thy ===== *)
theory Js_Stringify
  imports Complex_Main Json "HOL-Library.Multiset"
begin

text \<open>
  The text by which the history compares two property values (\<open>js_stringify\<close> and its helpers in
  \<open>edit_service/history.rs\<close>): JSON text as JavaScript would print it, with array-index keys first
  and in ascending order and numbers in JavaScript's shortest form. The serializer of strings and
  the reading of a number as \<open>f64\<close> with its decimal text are the fields of \<open>json_lib\<close>.
\<close>

record json_lib =
  jl_to_vec :: "json \<Rightarrow> string option"
  jl_quote :: "string \<Rightarrow> string"
  jl_is_zero :: "jnum \<Rightarrow> bool"
  jl_f64_text :: "jnum \<Rightarrow> string"

section \<open>Array indices\<close>

text \<open>\<open>str::parse::<u32>\<close>: an optional plus sign, then digits only, within 32 bits.\<close>

fun strip_plus :: "string \<Rightarrow> string" where
  "strip_plus (c # s) = (if c = CHR ''+'' then s else c # s)"
| "strip_plus [] = []"

definition parse_u32 :: "string \<Rightarrow> u32 option" where
  "parse_u32 s =
     (let ds = strip_plus s
      in if ds = [] \<or> \<not> list_all is_ascii_digit ds \<or> dec_val ds \<ge> 2 ^ 32 then None
         else Some (word_of_nat (dec_val ds)))"

definition javascript_array_index :: "string \<Rightarrow> u32 option" where
  "javascript_array_index key =
     (case parse_u32 key of
       None \<Rightarrow> None
     | Some index \<Rightarrow>
         if index \<noteq> - 1 \<and> nat_dec (unat index) = key then Some index else None)"

section \<open>Numbers\<close>

text \<open>\<open>str::parse::<i32>\<close>, with the default 0 of the caller for a text that does not parse.\<close>

definition parse_i32_or_0 :: "string \<Rightarrow> int" where
  "parse_i32_or_0 s =
     (let neg = (case s of c # _ \<Rightarrow> c = CHR ''-'' | [] \<Rightarrow> False);
          ds = (if neg then tl s else strip_plus s);
          v = (if neg then - int (dec_val ds) else int (dec_val ds))
      in if ds = [] \<or> \<not> list_all is_ascii_digit ds \<or> v < - (2 ^ 31) \<or> v \<ge> 2 ^ 31 then 0 else v)"

fun find_char :: "char \<Rightarrow> string \<Rightarrow> nat option" where
  "find_char c [] = None"
| "find_char c (x # xs) = (if x = c then Some 0 else map_option Suc (find_char c xs))"

fun strip_leading_zeros :: "string \<Rightarrow> int \<Rightarrow> string \<times> int" where
  "strip_leading_zeros (c # d # ds) n =
     (if c = CHR ''0'' then strip_leading_zeros (d # ds) (n - 1) else (c # d # ds, n))"
| "strip_leading_zeros [c] n = ([c], n)"
| "strip_leading_zeros [] n = ([], n)"

function strip_trailing_zeros :: "string \<Rightarrow> string" where
  "strip_trailing_zeros ds =
     (if ds \<noteq> [] \<and> last ds = CHR ''0'' \<and> length ds > 1 then strip_trailing_zeros (butlast ds) else ds)"
  by pat_completeness auto
termination by (relation "measure length") auto

declare strip_trailing_zeros.simps [simp del]

definition int_dec :: "int \<Rightarrow> string" where
  "int_dec n = (if n < 0 then CHR ''-'' # nat_dec (nat (- n)) else nat_dec (nat n))"

text \<open>
  The conversion in two halves: the digits and the place of the point read off the text, then the
  text JavaScript prints for them.
\<close>

definition js_digits :: "string \<Rightarrow> bool \<times> string \<times> int" where
  "js_digits raw =
     (let (negative, unsigned) =
            (case raw of c # rest \<Rightarrow> if c = CHR ''-'' then (True, rest) else (False, raw)
             | [] \<Rightarrow> (False, raw));
          (coefficient, exponent) =
            (case split_once (\<lambda>c. c = CHR ''e'' \<or> c = CHR ''E'') unsigned of
              None \<Rightarrow> (unsigned, 0)
            | Some (coefficient, exponent) \<Rightarrow> (coefficient, parse_i32_or_0 exponent));
          point = (case find_char CHR ''.'' coefficient of None \<Rightarrow> length coefficient | Some i \<Rightarrow> i);
          (stripped, decimal_index) =
            strip_leading_zeros (filter (\<lambda>c. c \<noteq> CHR ''.'') coefficient) (int point + exponent)
      in (negative, strip_trailing_zeros stripped, decimal_index))"

definition js_render_unsigned :: "string \<Rightarrow> int \<Rightarrow> string" where
  "js_render_unsigned digits decimal_index =
     (if decimal_index > - 6 \<and> decimal_index \<le> 21 then
        (if decimal_index \<le> 0 then ''0.'' @ replicate (nat (- decimal_index)) CHR ''0'' @ digits
         else if nat decimal_index \<ge> length digits then
           digits @ replicate (nat decimal_index - length digits) CHR ''0''
         else take (nat decimal_index) digits @ ''.'' @ drop (nat decimal_index) digits)
      else
        (if length digits = 1 then digits else take 1 digits @ ''.'' @ drop 1 digits)
          @ ''e'' @ (if decimal_index - 1 \<ge> 0 then ''+'' else []) @ int_dec (decimal_index - 1))"

definition js_number_text :: "string \<Rightarrow> string" where
  "js_number_text raw =
     (let (negative, digits, decimal_index) = js_digits raw
      in (if negative then ''-'' else []) @ js_render_unsigned digits decimal_index)"

definition js_number_string :: "json_lib \<Rightarrow> jnum \<Rightarrow> string" where
  "js_number_string L n = (if jl_is_zero L n then ''0'' else js_number_text (jl_f64_text L n))"

section \<open>Values\<close>

text \<open>The order of an object's fields: array indices ascending, then the others as inserted.\<close>

definition integer_fields :: "(string \<times> 'a) list \<Rightarrow> (u32 \<times> string \<times> 'a) list" where
  "integer_fields m = List.map_filter
     (\<lambda>(k, v). map_option (\<lambda>i. (i, k, v)) (javascript_array_index k)) m"

definition string_fields :: "(string \<times> 'a) list \<Rightarrow> (string \<times> 'a) list" where
  "string_fields m = filter (\<lambda>(k, _). javascript_array_index k = None) m"

definition js_field_order :: "(string \<times> 'a) list \<Rightarrow> (string \<times> 'a) list" where
  "js_field_order m = map snd (sort_key fst (integer_fields m)) @ string_fields m"

fun join :: "string \<Rightarrow> string list \<Rightarrow> string" where
  "join s [] = []"
| "join s [x] = x"
| "join s (x # y # ys) = x @ s @ join s (y # ys)"

lemma integer_fields_simps [simp]:
  "integer_fields [] = []"
  "integer_fields ((k, v) # m) =
     (case javascript_array_index k of None \<Rightarrow> integer_fields m | Some i \<Rightarrow> (i, k, v) # integer_fields m)"
  by (simp_all add: integer_fields_def List.map_filter_def split: option.splits)

lemma in_integer_fields:
  "(i, k, v) \<in> set (integer_fields m) \<longleftrightarrow> (k, v) \<in> set m \<and> javascript_array_index k = Some i"
  by (induction m) (auto split: option.splits)

lemma map_snd_integer_fields:
  "map snd (integer_fields m) = filter (\<lambda>(k, _). javascript_array_index k \<noteq> None) m"
  by (induction m) (auto split: option.splits)

lemma set_js_field_order: "set (js_field_order m) = set m"
  unfolding js_field_order_def string_fields_def set_append set_map set_sort
  unfolding set_map [symmetric] map_snd_integer_fields by auto

function js_stringify :: "json_lib \<Rightarrow> json \<Rightarrow> string" where
  "js_stringify L JNull = ''null''"
| "js_stringify L (JBool b) = (if b then ''true'' else ''false'')"
| "js_stringify L (JNumber n) = js_number_string L n"
| "js_stringify L (JString s) = jl_quote L s"
| "js_stringify L (JArray xs) = ''['' @ join '','' (map (js_stringify L) xs) @ '']''"
| "js_stringify L (JObject m) =
     CHR 0x7B # join '','' (map (\<lambda>(k, v). jl_quote L k @ '':'' @ js_stringify L v) (js_field_order m))
       @ [CHR 0x7D]"
  by pat_completeness auto
termination
  by (relation "measure (\<lambda>(L, v). size v)")
    (auto simp: set_js_field_order less_Suc_eq_le size_list_estimation' dest: size_json_field)

definition property_values_equal :: "json_lib \<Rightarrow> json \<Rightarrow> json \<Rightarrow> bool" where
  "property_values_equal L left right \<longleftrightarrow> js_stringify L left = js_stringify L right"


section \<open>Array indices are exactly the canonical numerals\<close>

lemma strip_plus_digits: "list_all is_ascii_digit s \<Longrightarrow> strip_plus s = s"
  by (cases s) (auto simp: is_ascii_digit_def code_def)

lemma parse_u32_nat_dec: "n < 2 ^ 32 \<Longrightarrow> parse_u32 (nat_dec n) = Some (word_of_nat n)"
proof -
  have digits: "list_all is_ascii_digit (nat_dec n)"
    using nat_dec_digits by (simp add: list_all_iff)
  assume "n < 2 ^ 32"
  with digits show ?thesis
    by (simp add: parse_u32_def Let_def strip_plus_digits [OF digits])
qed

text \<open>A key is ordered as an array index exactly when it is the canonical decimal numeral of a
  number below the largest 32 bit value: signs, leading zeros and the largest value are plain
  keys, as in JavaScript.\<close>

lemma array_index_canonical:
  "javascript_array_index key = Some i \<longleftrightarrow> key = nat_dec (unat i) \<and> i \<noteq> - 1"
proof
  assume "javascript_array_index key = Some i"
  then show "key = nat_dec (unat i) \<and> i \<noteq> - 1"
    by (auto simp: javascript_array_index_def split: option.splits if_splits)
next
  assume key: "key = nat_dec (unat i) \<and> i \<noteq> - 1"
  have "unat i < 2 ^ 32" using unsigned_less [of i, where 'a = nat] by simp
  with key show "javascript_array_index key = Some i"
    by (simp add: javascript_array_index_def parse_u32_nat_dec)
qed

section \<open>Field order\<close>

lemma mset_js_field_order: "mset (js_field_order m) = mset m"
proof -
  have "mset (map snd (integer_fields m)) + mset (string_fields m) = mset m"
    by (induction m) (auto simp: string_fields_def split: option.splits)
  then show ?thesis
    by (simp add: js_field_order_def flip: mset_map)
      (metis mset_map mset_sort)
qed

text \<open>The printed order of an object's fields is a rearrangement of its fields: array indices
  first, in ascending numeric order, then the other keys in the order they were inserted.\<close>

lemma js_field_order_sorted:
  "mset (js_field_order m) = mset m
     \<and> js_field_order m = takeWhile (\<lambda>(k, _). javascript_array_index k \<noteq> None) (js_field_order m)
         @ filter (\<lambda>(k, _). javascript_array_index k = None) m
     \<and> sorted (map (\<lambda>(k, _). the (javascript_array_index k))
         (takeWhile (\<lambda>(k, _). javascript_array_index k \<noteq> None) (js_field_order m)))"
proof -
  let ?s = "sort_key fst (integer_fields m)"
  have idx: "javascript_array_index (fst (snd p)) = Some (fst p)" if "p \<in> set ?s" for p
    using that in_integer_fields [of "fst p" "fst (snd p)" "snd (snd p)" m] by simp
  have tw: "takeWhile (\<lambda>(k, _). javascript_array_index k \<noteq> None) (js_field_order m) = map snd ?s"
  proof -
    have "takeWhile (\<lambda>(k, _). javascript_array_index k \<noteq> None) (string_fields m) = []"
      by (cases "string_fields m") (auto simp: string_fields_def filter_eq_Cons_iff)
    moreover have "\<forall>q\<in>set (map snd ?s). (\<lambda>(k, _). javascript_array_index k \<noteq> None) q"
      using idx by (auto simp: case_prod_beta)
    ultimately show ?thesis
      unfolding js_field_order_def by (simp only: takeWhile_append2) simp
  qed
  have "map (\<lambda>(k, _). the (javascript_array_index k)) (map snd ?s) = map fst ?s"
    using idx by (auto simp: case_prod_beta)
  with tw show ?thesis
    by (simp only: mset_js_field_order sorted_sort_key)
      (simp add: js_field_order_def string_fields_def)
qed

section \<open>Numbers keep their value and have one text each\<close>

text \<open>The value a decimal text denotes, as a reader of JavaScript numerals takes it.\<close>

definition coefficient_value :: "string \<Rightarrow> rat" where
  "coefficient_value s =
     (case split_once (\<lambda>c. c = CHR ''.'') s of
       None \<Rightarrow> of_nat (dec_val s)
     | Some (ip, fp) \<Rightarrow> of_nat (dec_val (ip @ fp)) / 10 ^ length fp)"

definition unsigned_value :: "string \<Rightarrow> rat" where
  "unsigned_value s =
     (case split_once (\<lambda>c. c = CHR ''e'' \<or> c = CHR ''E'') s of
       None \<Rightarrow> coefficient_value s
     | Some (m, e) \<Rightarrow> coefficient_value m * 10 powi parse_i32_or_0 e)"

fun decimal_value :: "string \<Rightarrow> rat" where
  "decimal_value [] = 0"
| "decimal_value (c # s) = (if c = CHR ''-'' then - unsigned_value s else unsigned_value (c # s))"

text \<open>What \<open>Display\<close> of \<open>f64\<close> prints for a finite number: a sign, digits, at most one point.\<close>

definition all_digits :: "string \<Rightarrow> bool" where
  "all_digits s \<longleftrightarrow> list_all is_ascii_digit s"

definition plain_decimal :: "string \<Rightarrow> bool" where
  "plain_decimal s \<longleftrightarrow> s \<noteq> [] \<and> length s < 2 ^ 30 \<and>
     (all_digits s \<or> (\<exists>ip fp. s = ip @ CHR ''.'' # fp \<and> ip \<noteq> [] \<and> all_digits ip \<and> all_digits fp))"

definition display_text :: "string \<Rightarrow> bool" where
  "display_text s \<longleftrightarrow> plain_decimal s \<or> (\<exists>t. s = CHR ''-'' # t \<and> plain_decimal t)"

definition scaled :: "string \<Rightarrow> int \<Rightarrow> rat" where
  "scaled ds n = of_nat (dec_val ds) * 10 powi (n - int (length ds))"

lemma digit_chars [simp]:
  "is_ascii_digit c \<Longrightarrow> c \<noteq> CHR ''.''" "is_ascii_digit c \<Longrightarrow> c \<noteq> CHR ''-''"
  "is_ascii_digit c \<Longrightarrow> c \<noteq> CHR ''+''" "is_ascii_digit c \<Longrightarrow> c \<noteq> CHR ''e''"
  "is_ascii_digit c \<Longrightarrow> c \<noteq> CHR ''E''" "is_ascii_digit (CHR ''0'')"
  by (auto simp: is_ascii_digit_def code_def)

lemma non_digits [simp]: "\<not> is_ascii_digit (CHR ''-'')" "\<not> is_ascii_digit (CHR ''.'')"
  by (auto simp: is_ascii_digit_def code_def)

lemma all_digits_simps [simp]:
  "all_digits []" "all_digits (c # s) \<longleftrightarrow> is_ascii_digit c \<and> all_digits s"
  "all_digits (s @ t) \<longleftrightarrow> all_digits s \<and> all_digits t" "all_digits (replicate k (CHR ''0''))"
  by (auto simp: all_digits_def list_all_iff)

lemma all_digits_nat_dec [simp]: "all_digits (nat_dec n)"
  using nat_dec_digits by (simp add: all_digits_def list_all_iff)

lemma all_digits_sub: "all_digits s \<Longrightarrow> set t \<subseteq> set s \<Longrightarrow> all_digits t"
  by (auto simp: all_digits_def list_all_iff)

lemma all_digits_notin:
  assumes "all_digits s"
  shows "CHR ''.'' \<notin> set s" "CHR ''-'' \<notin> set s" "CHR ''e'' \<notin> set s" "CHR ''E'' \<notin> set s"
  using assms by (auto simp: all_digits_def list_all_iff is_ascii_digit_def code_def)

lemma digit_val_zero [simp]: "digit_val (CHR ''0'') = 0"
  by (simp add: digit_val_def code_def)

lemma dec_val_Nil [simp]: "dec_val [] = 0"
  by (simp add: dec_val_def)

lemma dec_val_append: "dec_val (s @ t) = dec_val s * 10 ^ length t + dec_val t"
  by (induction t rule: rev_induct) (simp_all flip: append_assoc add: algebra_simps)

lemma dec_val_single [simp]: "dec_val [c] = digit_val c"
  by (simp add: dec_val_def)

lemma dec_val_zeros [simp]: "dec_val (replicate k (CHR ''0'')) = 0"
  by (induction k) (simp_all add: dec_val_def)

lemma dec_val_zero_Cons [simp]: "dec_val (CHR ''0'' # s) = dec_val s"
  using dec_val_append [of "[CHR ''0'']" s] by simp

lemma digit_val_less: "is_ascii_digit c \<Longrightarrow> digit_val c < 10"
  by (auto simp: is_ascii_digit_def digit_val_def)

lemma dec_val_less: "all_digits s \<Longrightarrow> dec_val s < 10 ^ length s"
proof (induction s rule: rev_induct)
  case (snoc c s)
  then have "dec_val s < 10 ^ length s" "digit_val c < 10" by (simp_all add: digit_val_less)
  then show ?case by simp
qed simp

lemma split_once_absent: "\<forall>c\<in>set s. \<not> p c \<Longrightarrow> split_once p s = None"
  by (simp add: split_once_None)

lemma split_once_at: "\<forall>x\<in>set h. \<not> p x \<Longrightarrow> p c \<Longrightarrow> split_once p (h @ c # t) = Some (h, t)"
  by (simp add: split_once_Some)

lemma find_char_absent: "c \<notin> set s \<Longrightarrow> find_char c s = None"
  by (induction s) auto

lemma find_char_at: "c \<notin> set h \<Longrightarrow> find_char c (h @ c # t) = Some (length h)"
  by (induction h) auto

lemma filter_absent: "c \<notin> set s \<Longrightarrow> filter (\<lambda>x. x \<noteq> c) s = s"
  by (induction s) auto

lemma coefficient_value_plain: "all_digits s \<Longrightarrow> coefficient_value s = of_nat (dec_val s)"
  using all_digits_notin(1) [of s] by (subst coefficient_value_def, subst split_once_absent) auto

lemma coefficient_value_point:
  "all_digits ip \<Longrightarrow> coefficient_value (ip @ CHR ''.'' # fp) = of_nat (dec_val (ip @ fp)) / 10 ^ length fp"
  by (subst coefficient_value_def, subst split_once_at) (auto dest: all_digits_notin)

lemma scaled_unfold: "scaled ds n * 10 ^ length ds = of_nat (dec_val ds) * 10 powi n"
  by (simp add: scaled_def power_int_diff)

subsection \<open>Stripping zeros\<close>

lemma strip_leading_zeros_scaled:
  assumes "strip_leading_zeros ds n = (es, k)"
  shows "scaled es k = scaled ds n \<and> set es \<subseteq> set ds \<and> (ds \<noteq> [] \<longrightarrow> es \<noteq> [])
     \<and> (length es > 1 \<longrightarrow> hd es \<noteq> CHR ''0'') \<and> k \<le> n \<and> n - k \<le> int (length ds)"
  using assms
proof (induction ds n arbitrary: es k rule: strip_leading_zeros.induct)
  case (1 c d ds n)
  show ?case
  proof (cases "c = CHR ''0''")
    case True
    then have "scaled (c # d # ds) n = scaled (d # ds) (n - 1)"
      by (simp add: scaled_def algebra_simps)
    with 1 True show ?thesis by auto
  next
    case False
    with 1 show ?thesis by auto
  qed
qed auto

lemma strip_trailing_zeros_scaled:
  "ds \<noteq> [] \<Longrightarrow> scaled (strip_trailing_zeros ds) n = scaled ds n
     \<and> (\<exists>t. ds = strip_trailing_zeros ds @ t) \<and> strip_trailing_zeros ds \<noteq> []
     \<and> (length (strip_trailing_zeros ds) > 1 \<longrightarrow> last (strip_trailing_zeros ds) \<noteq> CHR ''0'')"
proof (induction ds rule: strip_trailing_zeros.induct)
  case (1 ds)
  show ?case
  proof (cases "last ds = CHR ''0'' \<and> length ds > 1")
    case True
    then obtain es where ds: "ds = es @ [CHR ''0'']" "es \<noteq> []"
      by (metis append_butlast_last_id "1.prems" length_butlast list.size(3) zero_less_diff less_irrefl)
    have step: "strip_trailing_zeros ds = strip_trailing_zeros es"
      using True ds by (subst strip_trailing_zeros.simps) simp
    have "scaled ds n = scaled es n"
      using ds by (simp add: scaled_def power_int_diff power_int_add algebra_simps)
    moreover have "butlast ds = es" using ds by simp
    ultimately show ?thesis using "1.IH" True ds step by auto (metis append_assoc)+
  next
    case False
    then have "strip_trailing_zeros ds = ds" by (subst strip_trailing_zeros.simps) auto
    with False "1.prems" show ?thesis by auto
  qed
qed


subsection \<open>The two halves keep the value\<close>

definition normal_digits :: "string \<Rightarrow> bool" where
  "normal_digits ds \<longleftrightarrow> ds \<noteq> [] \<and> all_digits ds
     \<and> (length ds > 1 \<longrightarrow> hd ds \<noteq> CHR ''0'' \<and> last ds \<noteq> CHR ''0'')"

definition with_sign :: "bool \<Rightarrow> rat \<Rightarrow> rat" where
  "with_sign negative v = (if negative then - v else v)"

lemma strip_both:
  assumes "strip_leading_zeros ds n = (es, k)" "ds \<noteq> []" "all_digits ds"
  shows "scaled (strip_trailing_zeros es) k = scaled ds n \<and> normal_digits (strip_trailing_zeros es)
     \<and> k \<le> n \<and> n - k \<le> int (length ds) \<and> length (strip_trailing_zeros es) \<le> length ds"
proof -
  note lead = strip_leading_zeros_scaled [OF assms(1)]
  with assms have es: "es \<noteq> []" "all_digits es" by (auto intro: all_digits_sub)
  note trail = strip_trailing_zeros_scaled [OF es(1), of k]
  then obtain t where t: "es = strip_trailing_zeros es @ t" by blast
  then have "all_digits (strip_trailing_zeros es)"
    using es(2) by (metis all_digits_simps(3))
  moreover have "hd (strip_trailing_zeros es) = hd es" "length (strip_trailing_zeros es) \<le> length es"
    using t trail by (metis hd_append2, metis le_add1 length_append)
  moreover have "length es \<le> length ds"
    using assms(1) by (induction ds n arbitrary: es k rule: strip_leading_zeros.induct) (auto split: if_splits)
  ultimately show ?thesis using lead trail by (auto simp: normal_digits_def)
qed

lemma plain_decimal_no_e:
  "plain_decimal t \<Longrightarrow> split_once (\<lambda>c. c = CHR ''e'' \<or> c = CHR ''E'') t = None"
  by (rule split_once_absent) (auto simp: plain_decimal_def dest: all_digits_notin)

lemma plain_decimal_digits:
  assumes "plain_decimal t"
  shows "\<exists>point. (case find_char CHR ''.'' t of None \<Rightarrow> length t | Some i \<Rightarrow> i) = point
     \<and> unsigned_value t = scaled (filter (\<lambda>c. c \<noteq> CHR ''.'') t) (int point)
     \<and> filter (\<lambda>c. c \<noteq> CHR ''.'') t \<noteq> [] \<and> all_digits (filter (\<lambda>c. c \<noteq> CHR ''.'') t)
     \<and> point \<le> length t"
proof -
  consider (plain) "all_digits t" "t \<noteq> []"
    | (point) ip fp where "t = ip @ CHR ''.'' # fp" "ip \<noteq> []" "all_digits ip" "all_digits fp"
    using assms by (auto simp: plain_decimal_def)
  then show ?thesis
  proof cases
    case plain
    note [simp] = find_char_absent [OF all_digits_notin(1) [OF plain(1)]]
      filter_absent [OF all_digits_notin(1) [OF plain(1)]]
    show ?thesis
      using plain plain_decimal_no_e [OF assms]
      by (simp add: unsigned_value_def coefficient_value_plain scaled_def)
  next
    case point
    note no = all_digits_notin(1) [OF point(3)] all_digits_notin(1) [OF point(4)]
    have "find_char CHR ''.'' t = Some (length ip)" "filter (\<lambda>c. c \<noteq> CHR ''.'') t = ip @ fp"
      using no by (simp_all add: point(1) find_char_at filter_absent)
    moreover have "unsigned_value t = scaled (ip @ fp) (int (length ip))"
      using plain_decimal_no_e [OF assms] point
      by (simp add: unsigned_value_def coefficient_value_point scaled_def power_int_minus divide_inverse)
    ultimately show ?thesis using point by simp
  qed
qed

lemma js_digits_value:
  assumes "display_text raw" "js_digits raw = (negative, ds, n)"
  shows "decimal_value raw = with_sign negative (scaled ds n) \<and> normal_digits ds
     \<and> \<bar>n\<bar> < 2 ^ 30"
proof -
  obtain t where t: "plain_decimal t" "raw = (if negative then CHR ''-'' # t else t)"
    and dv: "decimal_value raw = with_sign negative (unsigned_value t)"
    and dig: "js_digits t = (False, ds, n)"
  proof (cases "plain_decimal raw")
    case True
    then obtain c s where raw: "raw = c # s" by (cases raw) (auto simp: plain_decimal_def)
    have "c \<noteq> CHR ''-''"
      using True raw by (auto simp: plain_decimal_def Cons_eq_append_conv)
    with assms(2) raw True show ?thesis
      by (intro that [of raw]) (auto simp: js_digits_def Let_def with_sign_def split: prod.splits)
  next
    case False
    then obtain t where t: "raw = CHR ''-'' # t" "plain_decimal t"
      using assms(1) by (auto simp: display_text_def)
    then obtain c s where "t = c # s" "c \<noteq> CHR ''-''"
      by (cases t) (auto simp: plain_decimal_def Cons_eq_append_conv)
    with assms(2) t show ?thesis
      by (intro that [of t]) (auto simp: js_digits_def Let_def with_sign_def split: prod.splits)
  qed
  obtain point where p: "(case find_char CHR ''.'' t of None \<Rightarrow> length t | Some i \<Rightarrow> i) = point"
    "unsigned_value t = scaled (filter (\<lambda>c. c \<noteq> CHR ''.'') t) (int point)"
    "filter (\<lambda>c. c \<noteq> CHR ''.'') t \<noteq> []" "all_digits (filter (\<lambda>c. c \<noteq> CHR ''.'') t)" "point \<le> length t"
    using plain_decimal_digits [OF t(1)] by blast
  obtain es where es: "strip_leading_zeros (filter (\<lambda>c. c \<noteq> CHR ''.'') t) (int point) = (es, n)"
    "ds = strip_trailing_zeros es"
    using dig p(1) plain_decimal_no_e [OF t(1)]
    by (auto simp: js_digits_def Let_def split: prod.splits list.splits if_splits)
  have len: "length (filter (\<lambda>c. c \<noteq> CHR ''.'') t) < 2 ^ 30" "point < 2 ^ 30"
    using t(1) p(5) length_filter_le [of "\<lambda>c. c \<noteq> CHR ''.''" t]
    by (simp_all add: plain_decimal_def del: length_filter_le)
  note b = strip_both [OF es(1) p(3,4)]
  have "int (length (filter (\<lambda>c. c \<noteq> CHR ''.'') t)) < 1073741824" "int point < 1073741824"
    using len by simp_all
  with b have "n < 1073741824" "- n < 1073741824" by linarith+
  then have "\<bar>n\<bar> < 2 ^ 30" by simp
  with b es(2) p(2) dv show ?thesis by simp
qed


lemma int_dec_value: "\<bar>k\<bar> < 2 ^ 31 \<Longrightarrow>
  parse_i32_or_0 ((if k \<ge> 0 then ''+'' else []) @ int_dec k) = k"
proof -
  assume k: "\<bar>k\<bar> < 2 ^ 31"
  show ?thesis
  proof (cases "k \<ge> 0")
    case True
    then have "nat k < 2 ^ 31" using k by (simp add: nat_less_iff)
    with True show ?thesis
      using all_digits_nat_dec [of "nat k"]
      by (simp add: parse_i32_or_0_def int_dec_def all_digits_def)
  next
    case False
    then have "\<not> k < - (2 ^ 31)" using k by simp
    with False show ?thesis
      using all_digits_nat_dec [of "nat (- k)"]
      by (simp add: parse_i32_or_0_def int_dec_def all_digits_def)
  qed
qed

lemma no_exponent:
  "CHR ''e'' \<notin> set s \<Longrightarrow> CHR ''E'' \<notin> set s \<Longrightarrow> unsigned_value s = coefficient_value s"
  by (subst unsigned_value_def, subst split_once_absent) auto

lemma unsigned_value_exponent:
  assumes "all_digits s \<or> (\<exists>a b. s = a @ CHR ''.'' # b \<and> all_digits a \<and> all_digits b)"
  shows "unsigned_value (s @ CHR ''e'' # e) = coefficient_value s * 10 powi parse_i32_or_0 e"
proof -
  have "\<forall>c\<in>set s. \<not> (c = CHR ''e'' \<or> c = CHR ''E'')"
    using assms by (auto dest: all_digits_notin)
  then have "split_once (\<lambda>c. c = CHR ''e'' \<or> c = CHR ''E'') (s @ CHR ''e'' # e) = Some (s, e)"
    by (intro split_once_at) auto
  then show ?thesis by (simp add: unsigned_value_def)
qed

lemma render_small:
  assumes "normal_digits ds" "n > - 6" "n \<le> 21"
  shows "unsigned_value (js_render_unsigned ds n) = scaled ds n"
proof -
  have ds: "all_digits ds" "ds \<noteq> []" using assms(1) by (simp_all add: normal_digits_def)
  consider (zero) "n \<le> 0" | (pad) "n > 0" "nat n \<ge> length ds" | (mid) "n > 0" "nat n < length ds"
    by linarith
  then show ?thesis
  proof cases
    case zero
    let ?t = "replicate (nat (- n)) CHR ''0'' @ ds"
    have r: "js_render_unsigned ds n = ''0'' @ CHR ''.'' # ?t"
      using assms zero by (simp add: js_render_unsigned_def)
    have "unsigned_value (''0'' @ CHR ''.'' # ?t) = coefficient_value (''0'' @ CHR ''.'' # ?t)"
      using ds by (intro no_exponent) (auto dest: all_digits_notin)
    also have "\<dots> = of_nat (dec_val ds) / 10 ^ (nat (- n) + length ds)"
      by (subst coefficient_value_point) (simp_all add: dec_val_append)
    also have "\<dots> = scaled ds n"
    proof -
      have "n - int (length ds) = - int (nat (- n) + length ds)" using zero by simp
      then show ?thesis unfolding scaled_def
        by (simp only: power_int_minus power_int_of_nat divide_inverse)
    qed
    finally show ?thesis using r by simp
  next
    case pad
    let ?s = "ds @ replicate (nat n - length ds) CHR ''0''"
    have "js_render_unsigned ds n = ?s" using assms pad by (simp add: js_render_unsigned_def)
    moreover have "unsigned_value ?s = of_nat (dec_val ?s)"
      using ds all_digits_notin [of ?s] by (simp add: no_exponent coefficient_value_plain)
    moreover have "of_nat (dec_val ?s) = scaled ds n"
    proof -
      have "n - int (length ds) = int (nat n - length ds)" using pad by simp
      then show ?thesis unfolding scaled_def
        by (simp only: dec_val_append dec_val_zeros power_int_of_nat length_replicate) simp
    qed
    ultimately show ?thesis by simp
  next
    case mid
    let ?a = "take (nat n) ds" and ?b = "drop (nat n) ds"
    have d: "all_digits ?a" "all_digits ?b"
      using ds(1) by (auto intro: all_digits_sub dest: in_set_takeD in_set_dropD)
    have "js_render_unsigned ds n = ?a @ CHR ''.'' # ?b"
      using assms mid by (simp add: js_render_unsigned_def)
    moreover have "unsigned_value (?a @ CHR ''.'' # ?b) = coefficient_value (?a @ CHR ''.'' # ?b)"
      using d by (intro no_exponent) (auto dest: all_digits_notin)
    moreover have "coefficient_value (?a @ CHR ''.'' # ?b) = of_nat (dec_val ds) / 10 ^ (length ds - nat n)"
      by (subst coefficient_value_point [OF d(1)]) simp
    moreover have "of_nat (dec_val ds) / 10 ^ (length ds - nat n) = scaled ds n"
    proof -
      have "n - int (length ds) = - int (length ds - nat n)" using mid by simp
      then show ?thesis unfolding scaled_def
        by (simp only: power_int_minus power_int_of_nat divide_inverse)
    qed
    ultimately show ?thesis by simp
  qed
qed

lemma render_large:
  assumes "normal_digits ds" "\<not> (n > - 6 \<and> n \<le> 21)" "\<bar>n\<bar> < 2 ^ 30"
  shows "unsigned_value (js_render_unsigned ds n) = scaled ds n"
proof -
  have ds: "all_digits ds" "ds \<noteq> []" using assms(1) by (simp_all add: normal_digits_def)
  let ?e = "(if n - 1 \<ge> 0 then ''+'' else []) @ int_dec (n - 1)"
  have e: "parse_i32_or_0 ?e = n - 1" using assms(3) by (intro int_dec_value) (simp add: abs_less_iff)
  show ?thesis
  proof (cases "length ds = 1")
    case True
    then have "js_render_unsigned ds n = ds @ CHR ''e'' # ?e"
      unfolding js_render_unsigned_def if_not_P [OF assms(2)] by simp
    then have "unsigned_value (js_render_unsigned ds n) = coefficient_value ds * 10 powi (n - 1)"
      using ds e unsigned_value_exponent [of ds ?e] by simp
    then show ?thesis using ds True by (simp add: coefficient_value_plain scaled_def)
  next
    case False
    then obtain c es where c: "ds = c # es" "es \<noteq> []" using ds by (cases ds) auto
    with False have "js_render_unsigned ds n = ([c] @ CHR ''.'' # es) @ CHR ''e'' # ?e"
      unfolding js_render_unsigned_def if_not_P [OF assms(2)] by simp
    moreover have "unsigned_value (([c] @ CHR ''.'' # es) @ CHR ''e'' # ?e)
        = coefficient_value ([c] @ CHR ''.'' # es) * 10 powi parse_i32_or_0 ?e"
      using ds c by (intro unsigned_value_exponent disjI2 exI [of _ "[c]"] exI [of _ es]) auto
    moreover have "coefficient_value ([c] @ CHR ''.'' # es) = of_nat (dec_val ds) / 10 ^ length es"
      using ds c by (subst coefficient_value_point) auto
    moreover have "of_nat (dec_val ds) / 10 ^ length es * 10 powi (n - 1) = scaled ds n"
      using c by (simp add: scaled_def power_int_diff power_int_add field_simps)
    ultimately show ?thesis by (simp only: e)
  qed
qed

lemma render_value:
  "normal_digits ds \<Longrightarrow> \<bar>n\<bar> < 2 ^ 30 \<Longrightarrow> unsigned_value (js_render_unsigned ds n) = scaled ds n"
  using render_small render_large by blast

lemma render_no_minus:
  assumes "normal_digits ds"
  shows "js_render_unsigned ds n \<noteq> [] \<and> hd (js_render_unsigned ds n) \<noteq> CHR ''-''"
proof -
  obtain c es where "ds = c # es" "c \<noteq> CHR ''-''"
    using assms by (cases ds) (auto simp: normal_digits_def)
  then show ?thesis by (auto simp: js_render_unsigned_def take_Cons' hd_append)
qed


lemma plain_decimal_pointI:
  "ip \<noteq> [] \<Longrightarrow> all_digits ip \<Longrightarrow> all_digits fp \<Longrightarrow> length ip + length fp < 2 ^ 30 - 1
    \<Longrightarrow> plain_decimal (ip @ CHR ''.'' # fp)"
  by (auto simp: plain_decimal_def)

text \<open>The text compared for a number denotes the number: converting the decimal text of an
  \<open>f64\<close> to JavaScript's form, exponents included, never changes its value.\<close>

lemma number_text_value:
  assumes "display_text raw"
  shows "decimal_value (js_number_text raw) = decimal_value raw"
proof -
  obtain negative ds n where d: "js_digits raw = (negative, ds, n)" by (metis prod_cases3)
  note v = js_digits_value [OF assms d]
  then obtain c s where r: "js_render_unsigned ds n = c # s" "c \<noteq> CHR ''-''"
    using render_no_minus [of ds n] by (cases "js_render_unsigned ds n") auto
  then have "decimal_value (js_number_text raw) = with_sign negative (unsigned_value (c # s))"
    using d by (simp add: js_number_text_def with_sign_def)
  with v r(1) render_value [of ds n] show ?thesis by simp
qed

subsection \<open>Equal values have equal texts\<close>

lemma digit_val_inj:
  assumes "is_ascii_digit c" "is_ascii_digit d" "digit_val c = digit_val d"
  shows "c = d"
proof -
  have "code c = code d" using assms unfolding digit_val_def is_ascii_digit_def by linarith
  then show ?thesis by (simp add: code_def)
qed

lemma dec_val_inj:
  "length s = length t \<Longrightarrow> all_digits s \<Longrightarrow> all_digits t \<Longrightarrow> dec_val s = dec_val t \<Longrightarrow> s = t"
proof (induction s t rule: rev_induct2)
  case (4 x xs y ys)
  then have d: "digit_val x < 10" "digit_val y < 10" by (simp_all add: digit_val_less)
  from 4 have "10 * dec_val xs + digit_val x = 10 * dec_val ys + digit_val y" by simp
  with d have "dec_val xs = dec_val ys" "digit_val x = digit_val y" by presburger+
  with 4 digit_val_inj [of x y] show ?case by simp
qed auto

lemma dec_val_ge:
  assumes "all_digits ds" "ds \<noteq> []" "hd ds \<noteq> CHR ''0''"
  shows "10 ^ (length ds - 1) \<le> dec_val ds"
proof -
  obtain c es where ds: "ds = [c] @ es" using assms(2) by (cases ds) auto
  have "digit_val c \<noteq> 0"
    using assms ds digit_val_inj [of c "CHR ''0''"] by auto
  then have "1 * 10 ^ length es \<le> digit_val c * 10 ^ length es" by (intro mult_le_mono1) simp
  moreover have "dec_val ds = digit_val c * 10 ^ length es + dec_val es"
    unfolding ds dec_val_append by simp
  ultimately have "10 ^ length es \<le> dec_val ds" by (simp only: mult_1 trans_le_add1)
  then show ?thesis using ds by simp
qed

lemma normal_nonzero:
  assumes "normal_digits ds" "scaled ds n \<noteq> 0"
  shows "hd ds \<noteq> CHR ''0''" "last ds \<noteq> CHR ''0''"
proof -
  have "hd ds \<noteq> CHR ''0'' \<and> last ds \<noteq> CHR ''0''"
  proof (cases "length ds > 1")
    case True
    with assms show ?thesis by (simp add: normal_digits_def)
  next
    case False
    with assms obtain c where "ds = [c]" by (cases ds) (auto simp: normal_digits_def)
    with assms show ?thesis by (auto simp: scaled_def)
  qed
  then show "hd ds \<noteq> CHR ''0''" "last ds \<noteq> CHR ''0''" by simp_all
qed

lemma scaled_bounds:
  assumes "normal_digits ds" "scaled ds n \<noteq> 0"
  shows "10 powi (n - 1) \<le> scaled ds n" "scaled ds n < 10 powi n"
proof -
  have ds: "all_digits ds" "ds \<noteq> []" using assms(1) by (simp_all add: normal_digits_def)
  have "(10 ^ (length ds - 1) :: rat) \<le> of_nat (dec_val ds)"
    using dec_val_ge [OF ds normal_nonzero(1) [OF assms]] by (metis of_nat_le_iff of_nat_numeral of_nat_power)
  moreover have "(of_nat (dec_val ds) :: rat) < 10 ^ length ds"
    using dec_val_less [OF ds(1)] by (metis of_nat_less_iff of_nat_numeral of_nat_power)
  moreover have "(10 powi (n - 1) :: rat) = 10 ^ (length ds - 1) * 10 powi (n - int (length ds))"
    using ds(2) by (cases ds) (simp_all add: power_int_diff power_int_add field_simps)
  moreover have "(10 powi n :: rat) = 10 ^ length ds * 10 powi (n - int (length ds))"
    by (simp add: power_int_diff)
  ultimately show "10 powi (n - 1) \<le> scaled ds n" "scaled ds n < 10 powi n"
    unfolding scaled_def by (simp_all add: mult_right_mono mult_strict_right_mono zero_less_power_int)
qed


lemma normal_index_le:
  assumes "normal_digits d" "normal_digits e" "scaled d n = scaled e k" "scaled e k \<noteq> 0"
  shows "n \<le> k"
proof (rule ccontr)
  assume "\<not> n \<le> k"
  then have "(10 powi k :: rat) \<le> 10 powi (n - 1)" by (intro power_int_increasing) auto
  with scaled_bounds [of d n] scaled_bounds [of e k] assms show False by auto
qed

lemma normal_length_le:
  assumes "normal_digits d" "normal_digits e" "scaled d n = scaled e n" "scaled e n \<noteq> 0"
  shows "length d \<le> length e"
proof (rule ccontr)
  assume less: "\<not> length d \<le> length e"
  have "of_nat (dec_val d) * 10 powi (n - int (length d)) * (10 :: rat) ^ length d
      = of_nat (dec_val e) * 10 powi (n - int (length e)) * 10 ^ length d"
    using assms(3) by (simp add: scaled_def)
  also have "\<dots> = of_nat (dec_val e) * 10 powi n * 10 ^ (length d - length e)"
    using less by (simp add: power_int_diff power_diff field_simps)
  also have "of_nat (dec_val d) * 10 powi (n - int (length d)) * (10 :: rat) ^ length d
      = of_nat (dec_val d) * 10 powi n"
    by (simp add: power_int_diff)
  finally have "(of_nat (dec_val d) :: rat) = of_nat (dec_val e * 10 ^ (length d - length e))"
    by simp
  then have "dec_val d = dec_val e * 10 ^ (length d - length e)" by (simp only: of_nat_eq_iff)
  moreover obtain m where "length d - length e = Suc m" using less by (metis not_le Suc_diff_Suc)
  ultimately have ten: "dec_val d mod 10 = 0" by simp
  obtain f c where d: "d = f @ [c]" "is_ascii_digit c"
    using assms(1) by (cases d rule: rev_cases) (auto simp: normal_digits_def)
  with ten have "digit_val c = 0" using digit_val_less [OF d(2)] by simp
  with d(2) have "c = CHR ''0''" using digit_val_inj [of c "CHR ''0''"] by simp
  with normal_nonzero(2) [of d n] assms d show False by simp
qed

lemma normal_unique:
  assumes "normal_digits d" "normal_digits e" "scaled d n = scaled e k" "scaled e k \<noteq> 0"
  shows "d = e \<and> n = k"
proof -
  have n: "n = k" using normal_index_le [of d e n k] normal_index_le [of e d k n] assms by simp
  with normal_length_le [of d e n] normal_length_le [of e d n] assms
  have len: "length d = length e" by simp
  with assms(3) n have "dec_val d = dec_val e" by (simp add: scaled_def)
  with len assms n show ?thesis using dec_val_inj by (simp add: normal_digits_def)
qed

lemma with_sign_eq: "with_sign a x = with_sign b y \<Longrightarrow> x > 0 \<Longrightarrow> y > 0 \<Longrightarrow> a = b \<and> x = y"
  by (auto simp: with_sign_def split: if_splits)

lemma scaled_nonneg: "scaled ds n \<ge> 0"
  by (simp add: scaled_def)

lemma number_text_canonical:
  assumes "display_text a" "display_text b" "decimal_value a = decimal_value b" "decimal_value b \<noteq> 0"
  shows "js_number_text a = js_number_text b"
proof -
  obtain na da ka where a: "js_digits a = (na, da, ka)" by (metis prod_cases3)
  obtain nb db kb where b: "js_digits b = (nb, db, kb)" by (metis prod_cases3)
  note va = js_digits_value [OF assms(1) a] and vb = js_digits_value [OF assms(2) b]
  have "scaled da ka > 0" "scaled db kb > 0"
    using va vb assms(3,4) scaled_nonneg [of da ka] scaled_nonneg [of db kb]
    by (auto simp: with_sign_def less_le split: if_splits)
  with va vb assms(3) have "na = nb" "scaled da ka = scaled db kb"
    using with_sign_eq [of na "scaled da ka" nb "scaled db kb"] by auto
  moreover from this have "da = db \<and> ka = kb"
    using va vb \<open>scaled db kb > 0\<close> by (intro normal_unique) auto
  ultimately show ?thesis using a b by (simp add: js_number_text_def)
qed

text \<open>The library's reading of numbers: a finite \<open>f64\<close>, whose text is a plain decimal.\<close>

definition json_lib_ok :: "json_lib \<Rightarrow> bool" where
  "json_lib_ok L \<longleftrightarrow> (\<forall>n. display_text (jl_f64_text L n)
     \<and> jl_is_zero L n = (decimal_value (jl_f64_text L n) = 0))"

text \<open>For the history two numbers are the same value exactly when they denote the same number: a
  property edit that changes a number is recorded, and one that only rewrites its notation is
  not.\<close>

lemma number_values_equal_iff:
  assumes "json_lib_ok L"
  shows "property_values_equal L (JNumber m) (JNumber n)
     \<longleftrightarrow> decimal_value (jl_f64_text L m) = decimal_value (jl_f64_text L n)"
proof -
  have d: "display_text (jl_f64_text L k)" "jl_is_zero L k \<longleftrightarrow> decimal_value (jl_f64_text L k) = 0" for k
    using assms by (simp_all add: json_lib_ok_def)
  have zero: "decimal_value ''0'' = 0"
    by (simp add: unsigned_value_def coefficient_value_def)
  have val_eq: "decimal_value (js_number_string L k) = decimal_value (jl_f64_text L k)" for k
    using d(2) [of k] number_text_value [OF d(1) [of k]] zero by (auto simp: js_number_string_def)
  show ?thesis
  proof
    assume "property_values_equal L (JNumber m) (JNumber n)"
    then show "decimal_value (jl_f64_text L m) = decimal_value (jl_f64_text L n)"
      using val_eq [of m] val_eq [of n] by (simp add: property_values_equal_def)
  next
    assume eq: "decimal_value (jl_f64_text L m) = decimal_value (jl_f64_text L n)"
    then have "js_number_string L m = js_number_string L n"
      using number_text_canonical [OF d(1) d(1) eq] d(2) [of m] d(2) [of n]
      by (auto simp: js_number_string_def)
    then show "property_values_equal L (JNumber m) (JNumber n)"
      by (simp add: property_values_equal_def)
  qed
qed

definition demo_json_lib :: json_lib where
  "demo_json_lib = \<lparr>jl_to_vec = (\<lambda>v. case v of JNull \<Rightarrow> Some ''null'' | _ \<Rightarrow> Some ''x''),
     jl_quote = (\<lambda>s. CHR 0x22 # s @ [CHR 0x22]),
     jl_is_zero = (\<lambda>n. False),
     jl_f64_text = (\<lambda>n. case n of PosInt _ \<Rightarrow> ''1.50'' | NegInt _ \<Rightarrow> ''1.5'' | Float _ \<Rightarrow> ''-7'')\<rparr>"

lemma demo_values:
  "decimal_value ''1.50'' = 3 / 2" "decimal_value ''1.5'' = 3 / 2" "decimal_value ''-7'' = - 7"
  by (simp_all add: unsigned_value_def coefficient_value_def dec_val_def digit_val_def code_def)

theorem number_values_equal_iff_witness:
  "property_values_equal demo_json_lib (JNumber (PosInt 0)) (JNumber (NegInt 0))
     \<and> \<not> property_values_equal demo_json_lib (JNumber (PosInt 0)) (JNumber (Float 0))"
proof -
  have "display_text (''1'' @ CHR ''.'' # ''50'')" "display_text (''1'' @ CHR ''.'' # ''5'')"
    by (auto intro!: plain_decimal_pointI simp: display_text_def is_ascii_digit_def code_def
        simp del: append.simps)
  moreover have "display_text ''-7''"
    by (simp add: display_text_def plain_decimal_def is_ascii_digit_def code_def)
  ultimately have "json_lib_ok demo_json_lib"
    by (auto simp: json_lib_ok_def demo_json_lib_def demo_values split: jnum.splits simp del: decimal_value.simps)
  from number_values_equal_iff [OF this] show ?thesis
    by (simp add: demo_json_lib_def demo_values del: decimal_value.simps)
qed

end
