(* ===== verification/Edit_Data.thy ===== *)
theory Edit_Data
  imports Json
begin

text \<open>
  The data of the edit layer of the editor backend (\<open>apps/editor/src-tauri/src\<close>): the error
  every command returns (\<open>error.rs\<close>), the history's records, entries, groups, requests and
  actions (\<open>edit_service/history.rs\<close>), the group secret (\<open>edit_service/groups.rs\<close>) and the
  summaries shown to the screen (\<open>dto.rs\<close>). Monotonic instants are nanoseconds since an
  arbitrary origin; the texts of \<open>BackendError::Request\<close> are constructors of \<open>notice\<close>, one per
  message of the source.
\<close>

section \<open>Errors\<close>

datatype notice =
    Text string
  | Prior_unavailable
  | Refresh_required
  | Malformed_history_result string
  | History_not_accepted
  | Group_name_length
  | Group_id_mismatch
  | Group_id_invalid_start_new
  | Group_id_invalid
  | Nothing_to_discard
  | No_randomness
  | Reconfirm_needed
  | Deadline_started
  | Deadline_not_started
  | Operation_pending
  | Group_not_open
  | Group_step_rejected
  | Nothing_to_retry
  | Malformed_answer string
  | Request_cancelled nat
  | Group_result_unapplied
  | Partial_failure_left
  | Malformed_control
  | Group_not_current

datatype backend_error =
    NotConnected
  | AlreadyConnected
  | ConnectFailed notice
  | RequestFailed notice
  | EngineFailed string string
  | HandshakeFailed notice
  | ProcessFailed notice
  | SettingsFailed notice
  | EditQueueFull
  | EditServiceStopping
  | EditCancelled
  | McpSettingsStorage
  | McpTokenStorage
  | McpAuthorizationRevoked

section \<open>Sources, kinds, records\<close>

datatype edit_kind = KEdit | KUndo | KRedo | KRuntimeControl

datatype edit_source = Ui | Mcp

datatype history_direction = Undo | Redo

record history_marker =
  mk_sequence :: u64
  mk_source :: edit_source
  mk_kind :: edit_kind
  mk_generation :: u64

datatype history_record =
    Create (created_id: string) (rec_parent: "string option") (rec_kind: "string option")
  | Duplicate (source_object_id: string) (created_id: string) (rec_parent: "string option")
  | Reparent (rec_object: string) (old_parent: "string option") (new_parent: "string option")
  | SetProperty (rec_object: string) (rec_property: string) (old_value: json) (new_value: json)

record group_key =
  gk_generation :: u64
  gk_sequence :: u64

record group_metadata =
  gm_key :: group_key
  gm_name :: string
  gm_source :: edit_source
  gm_created_at :: u64
  gm_count :: nat
  gm_named :: bool

record history_entry =
  he_marker :: history_marker
  he_record :: history_record
  he_group :: group_metadata

abbreviation entry_id :: "history_entry \<Rightarrow> u64" where
  "entry_id e \<equiv> mk_sequence (he_marker e)"

abbreviation entry_key :: "history_entry \<Rightarrow> group_key" where
  "entry_key e \<equiv> gm_key (he_group e)"

record pending_group_action =
  pg_direction :: history_direction
  pg_metadata :: group_metadata
  pg_completed :: nat
  pg_outcome_unknown :: bool
  pg_retry_allowed :: bool

text \<open>The value a caller captured: \<open>None\<close> is "not captured", \<open>Some JNull\<close> a captured null.\<close>

record 'a history_capture =
  hc_generation :: u64
  hc_revision :: u64
  hc_value :: "'a option"

datatype 'a prior_capture = FromUi "'a history_capture" | InAction

datatype history_request =
    CreateObject "string option" "string option"
  | DuplicateObject string "string option"
  | ReparentObject string "string option" "string option prior_capture"
  | SetPropertyTo string string json "json prior_capture"
  | DeleteObject string

fun is_scene_structure_edit :: "history_request \<Rightarrow> bool" where
  "is_scene_structure_edit (CreateObject p k) = True"
| "is_scene_structure_edit (DuplicateObject s p) = True"
| "is_scene_structure_edit (ReparentObject i p c) = True"
| "is_scene_structure_edit (DeleteObject i) = True"
| "is_scene_structure_edit (SetPropertyTo i p v c) = False"

datatype prepared_request =
    PCreateObject "string option" "string option"
  | PDuplicateObject string "string option"
  | PReparentObject string "string option" "string option option"
  | PSetProperty string string json "json option"
  | PDeleteObject string

record history_operation_context =
  oc_source :: edit_source
  oc_kind :: edit_kind
  oc_sequence :: u64
  oc_generation :: u64
  oc_group_token :: "u64 option"

record history_action_request =
  ar_direction :: history_direction
  ar_expected_head_id :: "u64 option"
  ar_expected_revision :: u64

record history_action_step =
  st_entry_id :: u64
  st_record :: history_record

record history_action =
  ha_direction :: history_direction
  ha_entry_id :: u64
  ha_record :: history_record
  ha_group :: group_metadata
  ha_steps :: "history_action_step list"
  ha_grouped :: bool

datatype history_prior = PropertyPrior json | ParentPrior "string option"

record queued_edit_result =
  qr_value :: json
  qr_prior :: "history_prior option"

definition plain_result :: "json \<Rightarrow> queued_edit_result" where
  "plain_result v = \<lparr>qr_value = v, qr_prior = None\<rparr>"

text \<open>
  \<open>apply_mcp_edit_with_prior\<close>: the read of the old value and the write are two actions of the
  bridge, so they thread its state \<open>'s\<close>; the write is not called unless the read gave a value.
\<close>

definition apply_mcp_edit_with_prior ::
  "('s \<Rightarrow> (backend_error + history_prior option) \<times> 's)
    \<Rightarrow> (history_prior \<Rightarrow> 's \<Rightarrow> (backend_error + json) \<times> 's)
    \<Rightarrow> 's \<Rightarrow> (backend_error + queued_edit_result) \<times> 's" where
  "apply_mcp_edit_with_prior read_prior write s =
     (case read_prior s of
       (Inl e, s1) \<Rightarrow> (Inl e, s1)
     | (Inr None, s1) \<Rightarrow> (Inl (RequestFailed Prior_unavailable), s1)
     | (Inr (Some prior), s1) \<Rightarrow>
         (case write prior s1 of
           (Inl e, s2) \<Rightarrow> (Inl e, s2)
         | (Inr v, s2) \<Rightarrow> (Inr \<lparr>qr_value = v, qr_prior = Some prior\<rparr>, s2)))"

fun summary_name :: "history_record \<Rightarrow> string" where
  "summary_name (Create i p k) =
     map char_of [227, 130, 170, 227, 131, 150, 227, 130, 184, 227, 130, 167, 227, 130, 175, 227,
     131, 136, 227, 130, 146, 228, 189, 156, 230, 136, 144 :: nat]"
| "summary_name (Duplicate s i p) =
     map char_of [227, 130, 170, 227, 131, 150, 227, 130, 184, 227, 130, 167, 227, 130, 175, 227,
     131, 136, 227, 130, 146, 232, 164, 135, 232, 163, 189 :: nat]"
| "summary_name (Reparent i p q) =
     map char_of [232, 166, 170, 227, 130, 146, 229, 164, 137, 230, 155, 180 :: nat]"
| "summary_name (SetProperty i p v w) =
     map char_of [227, 131, 151, 227, 131, 173, 227, 131, 145, 227, 131, 134, 227, 130, 163, 227,
     130, 146, 229, 164, 137, 230, 155, 180 :: nat]"

definition outcome_unknown_name :: string where
  "outcome_unknown_name =
     map char_of [77, 67, 80, 231, 183, 168, 233, 155, 134, 227, 129, 174, 231, 181, 144, 230, 158,
     156, 231, 162, 186, 232, 170, 141 :: nat]"

text \<open>\<open>format!("edit-{generation}-{sequence}")\<close>.\<close>

definition group_id :: "u64 \<Rightarrow> u64 \<Rightarrow> string" where
  "group_id generation sequence =
     ''edit-'' @ nat_dec (unat generation) @ ''-'' @ nat_dec (unat sequence)"

section \<open>Clocks\<close>

text \<open>
  The readings an operation takes, in order: two of the monotonic clock and one of the system
  clock (\<open>None\<close> when it stands before the epoch), in milliseconds.
\<close>

record clock =
  ck_first :: nat
  ck_second :: nat
  ck_wall :: "nat option"

fun unix_millis :: "nat option \<Rightarrow> u64" where
  "unix_millis None = 0"
| "unix_millis (Some ms) = word_of_nat (min ms (2 ^ 64 - 1))"

definition nanos_per_sec :: nat where
  "nanos_per_sec = 1000000000"

section \<open>Group secrets\<close>

definition MAX_EDITS :: nat where "MAX_EDITS = 128"
definition IDLE_TIMEOUT :: nat where "IDLE_TIMEOUT = 5 * 60 * nanos_per_sec"
definition TOTAL_TIMEOUT :: nat where "TOTAL_TIMEOUT = 15 * 60 * nanos_per_sec"

datatype group_secret = GroupSecret string

fun secret_expose :: "group_secret \<Rightarrow> string" where
  "secret_expose (GroupSecret s) = s"

definition hex_digit :: "nat \<Rightarrow> char" where
  "hex_digit d = (if d < 10 then char_of (48 + d) else char_of (87 + d))"

text \<open>\<open>format!("{byte:02x}")\<close>.\<close>

definition byte_hex :: "8 word \<Rightarrow> string" where
  "byte_hex b = [hex_digit (unat b div 16), hex_digit (unat b mod 16)]"

text \<open>
  \<open>getrandom::fill\<close> of 32 bytes is the argument: the bytes it wrote, or its failure.
\<close>

definition generate_secret :: "8 word list option \<Rightarrow> backend_error + group_secret" where
  "generate_secret filled =
     (case filled of
       None \<Rightarrow> Inl (RequestFailed No_randomness)
     | Some bytes \<Rightarrow> Inr (GroupSecret (concat (map byte_hex bytes))))"

definition byte :: "char \<Rightarrow> 8 word" where
  "byte c = word_of_nat (code c)"

text \<open>The comparison folds every byte pair, so that its time does not depend on the texts.\<close>

definition secret_matches :: "group_secret \<Rightarrow> string \<Rightarrow> bool" where
  "secret_matches secret candidate \<longleftrightarrow>
     length candidate = length (secret_expose secret) \<and>
     foldl (\<lambda>diff (a, b). or diff (xor a b)) (0 :: 8 word)
       (zip (map byte (secret_expose secret)) (map byte candidate)) = 0"

section \<open>Summaries\<close>

datatype edit_source_dto = UiDto | McpDto

fun source_dto :: "edit_source \<Rightarrow> edit_source_dto" where
  "source_dto Ui = UiDto"
| "source_dto Mcp = McpDto"

record edit_group_summary =
  gs_id :: string
  gs_name :: string
  gs_source :: edit_source_dto
  gs_count :: nat
  gs_created_at :: u64

record edit_pending_group =
  ps_id :: string
  ps_name :: string
  ps_direction :: string
  ps_source :: edit_source_dto
  ps_created_at :: u64
  ps_total_count :: nat
  ps_completed_count :: nat
  ps_outcome_unknown :: bool
  ps_retry_allowed :: bool

record edit_discard_result =
  dr_group_id :: string
  dr_completed_count :: nat
  dr_total_count :: nat
  dr_outcome_unknown :: bool
  dr_changes_remain :: bool

record edit_history_summary =
  hs_generation :: "u64 option"
  hs_history_revision :: u64
  hs_applied_revision :: u64
  hs_can_undo :: bool
  hs_can_redo :: bool
  hs_undo_head_id :: "u64 option"
  hs_undo_revision :: u64
  hs_undo_group :: "edit_group_summary option"
  hs_redo_head_id :: "u64 option"
  hs_redo_revision :: u64
  hs_redo_group :: "edit_group_summary option"
  hs_pending :: bool
  hs_pending_group :: "edit_pending_group option"

section \<open>Properties of secrets and identifiers\<close>

lemma or_zero_iff: "or a b = (0 :: 'a :: len word) \<longleftrightarrow> a = 0 \<and> b = 0"
  by (metis or.left_neutral or_eq_0_iff)

lemma xor_zero_iff: "xor a b = (0 :: 'a :: len word) \<longleftrightarrow> a = b"
  by (metis xor_self_eq bit.xor_left_self xor.right_neutral)

lemma fold_diff_zero:
  "length xs = length ys \<Longrightarrow>
    foldl (\<lambda>diff (a, b). or diff (xor a b)) d (zip xs ys) = (0 :: 8 word) \<longleftrightarrow> d = 0 \<and> xs = ys"
  by (induction xs ys arbitrary: d rule: list_induct2) (auto simp: or_zero_iff xor_zero_iff)

lemma byte_inj: "inj byte"
proof (rule injI)
  fix c d :: char
  assume "byte c = byte d"
  then have "unat (byte c) = unat (byte d)" by simp
  moreover have "code x < 256" for x :: char
    using range_nat_of_char by (auto simp: code_def)
  ultimately have "code c = code d" by (simp add: byte_def unat_of_nat)
  then show "c = d" by (simp add: code_def)
qed

lemma secret_matches_text: "secret_matches secret candidate \<longleftrightarrow> candidate = secret_expose secret"
  unfolding secret_matches_def
  using byte_inj by (auto simp: fold_diff_zero inj_map_eq_map)

text \<open>The constant time comparison of a group secret accepts exactly the secret's own text: no
  other candidate, whatever its length, opens or keeps a group.\<close>

lemma secret_matches_iff: "secret_matches secret candidate \<longleftrightarrow> candidate = secret_expose secret"
  by (rule secret_matches_text)

lemma hex_digit_inj: "a < 16 \<Longrightarrow> b < 16 \<Longrightarrow> hex_digit a = hex_digit b \<Longrightarrow> a = b"
proof -
  assume ab: "a < 16" "b < 16" "hex_digit a = hex_digit b"
  then have "(of_char (hex_digit a) :: nat) = of_char (hex_digit b)" by simp
  with ab show ?thesis by (auto simp: hex_digit_def of_char_of split: if_splits)
qed

lemma byte_hex_inj: "byte_hex a = byte_hex b \<Longrightarrow> a = b"
proof -
  assume "byte_hex a = byte_hex b"
  moreover have "unat a < 256" "unat b < 256"
    using unsigned_less [of a, where 'a = nat] unsigned_less [of b, where 'a = nat] by simp_all
  ultimately have "unat a div 16 = unat b div 16" "unat a mod 16 = unat b mod 16"
    by (auto simp: byte_hex_def intro!: hex_digit_inj)
  then have "unat a = unat b" by (metis div_mult_mod_eq)
  then show ?thesis by (rule unsigned_word_eqI)
qed

lemma concat_byte_hex_inj:
  "concat (map byte_hex xs) = concat (map byte_hex ys) \<Longrightarrow> xs = ys"
proof (induction xs arbitrary: ys)
  case Nil
  then show ?case by (cases ys) (auto simp: byte_hex_def)
next
  case (Cons x xs)
  then obtain y zs where ys: "ys = y # zs" by (cases ys) (auto simp: byte_hex_def)
  with Cons.prems have "byte_hex x @ concat (map byte_hex xs) = byte_hex y @ concat (map byte_hex zs)"
    by simp
  then have "byte_hex x = byte_hex y" "concat (map byte_hex xs) = concat (map byte_hex zs)"
    by (simp_all add: byte_hex_def)
  with Cons.IH ys show ?case by (auto dest: byte_hex_inj)
qed

text \<open>Secrets made from different random bytes differ, so a secret of one group never opens
  another one made from other bytes.\<close>

lemma generated_secrets_differ:
  assumes "generate_secret (Some bytes) = Inr s" and "generate_secret (Some bytes') = Inr s'"
    and "bytes \<noteq> bytes'"
  shows "\<not> secret_matches s (secret_expose s')"
  using assms by (auto simp: generate_secret_def secret_matches_text dest!: concat_byte_hex_inj)

theorem generated_secrets_differ_witness:
  "\<not> secret_matches (GroupSecret (byte_hex 0)) (secret_expose (GroupSecret (byte_hex 255)))"
proof -
  have "generate_secret (Some [0]) = Inr (GroupSecret (byte_hex 0))"
    "generate_secret (Some [255]) = Inr (GroupSecret (byte_hex 255))"
    by (simp_all add: generate_secret_def)
  from generated_secrets_differ [OF this] show ?thesis by simp
qed

lemma dash_not_digit: "CHR ''-'' \<notin> set (nat_dec n)"
  using nat_dec_digits [of n] by (auto simp: is_ascii_digit_def code_def)

lemma append_sep_eq:
  "a @ c # b = a' @ c # b' \<Longrightarrow> c \<notin> set a \<Longrightarrow> c \<notin> set a' \<Longrightarrow> a = a' \<and> b = b'"
  by (induction a arbitrary: a') (auto simp: Cons_eq_append_conv)

lemma group_id_inj: "group_id g s = group_id g' s' \<longleftrightarrow> g = g' \<and> s = s'"
proof
  assume "group_id g s = group_id g' s'"
  then have "nat_dec (unat g) @ CHR ''-'' # nat_dec (unat s)
      = nat_dec (unat g') @ CHR ''-'' # nat_dec (unat s')"
    by (simp add: group_id_def)
  from append_sep_eq [OF this dash_not_digit dash_not_digit] show "g = g' \<and> s = s'"
    by (auto dest!: nat_dec_inj intro: unsigned_word_eqI)
qed simp

end
