(* ===== verification/Corrections.thy ===== *)
theory Corrections
  imports Js_Stringify Edit_Data
begin

text \<open>
  The correction cache of the edit history (\<open>CorrectionCache\<close> in \<open>edit_service/history.rs\<close>): the
  last value the service knows for a property or a parent, with the revision that wrote it. It
  holds at most 512 entries and 4 MiB; what it cannot keep is covered by \<open>cc_lost_through\<close>, the
  highest revision whose value may be missing. Its client, \<open>resolve_capture\<close>, trusts a value
  captured at an older revision only where the cache shows that nothing newer exists.
\<close>

definition MAX_CORRECTION_ENTRIES :: nat where "MAX_CORRECTION_ENTRIES = 512"
definition MAX_CORRECTION_BYTES :: nat where "MAX_CORRECTION_BYTES = 4 * 1024 * 1024"

datatype correction_key = PropertyKey string string | ParentKey string

fun key_object :: "correction_key \<Rightarrow> string" where
  "key_object (PropertyKey i p) = i"
| "key_object (ParentKey i) = i"

fun key_byte_len :: "correction_key \<Rightarrow> nat" where
  "key_byte_len (PropertyKey i p) = sat_add (length i) (length p)"
| "key_byte_len (ParentKey i) = length i"

datatype correction_value = PropertyValue json | ParentValue "string option"

fun value_byte_len :: "json_lib \<Rightarrow> correction_value \<Rightarrow> nat option" where
  "value_byte_len L (PropertyValue v) = map_option length (jl_to_vec L v)"
| "value_byte_len L (ParentValue p) = map_option length (jl_to_vec L (opt_json p))"

record correction_entry =
  ce_revision :: u64
  ce_value :: correction_value
  ce_byte_len :: nat

record correction_cache =
  cc_entries :: "(correction_key, correction_entry) hash_map"
  cc_bytes :: nat
  cc_lost_through :: u64

definition cc_new :: correction_cache where
  "cc_new = \<lparr>cc_entries = [], cc_bytes = 0, cc_lost_through = 0\<rparr>"

definition cc_get :: "correction_cache \<Rightarrow> correction_key \<Rightarrow> correction_entry option" where
  "cc_get c k = hm_get (cc_entries c) k"

definition cc_mark_lost_through :: "u64 \<Rightarrow> correction_cache \<Rightarrow> correction_cache" where
  "cc_mark_lost_through revision c = c\<lparr>cc_lost_through := max (cc_lost_through c) revision\<rparr>"

text \<open>\<open>iter().min_by_key(revision)\<close>: the first entry with the least revision.\<close>

fun oldest_key :: "(correction_key, correction_entry) hash_map \<Rightarrow> correction_key option" where
  "oldest_key [] = None"
| "oldest_key ((k, e) # m) =
     (case oldest_key m of
       None \<Rightarrow> Some k
     | Some k' \<Rightarrow>
         if ce_revision (the (hm_get m k')) < ce_revision e then Some k' else Some k)"

lemma oldest_key_in: "oldest_key m = Some k \<Longrightarrow> hm_get m k \<noteq> None"
  by (induction m arbitrary: k rule: oldest_key.induct) (auto split: option.splits if_splits)

lemma oldest_key_None [simp]: "oldest_key m = None \<longleftrightarrow> m = []"
  by (cases m rule: oldest_key.cases) (auto split: option.splits)

lemma length_hm_remove_less: "hm_get m k \<noteq> None \<Longrightarrow> length (hm_remove k m) < length m"
proof (induction m)
  case (Cons p m)
  then show ?case
    using hm_length_remove_le [of k m] by (cases p) (auto simp: less_Suc_eq_le split: if_splits)
qed simp

text \<open>The eviction loop: while the new entry does not fit, the oldest one goes.\<close>

function evict :: "nat \<Rightarrow> correction_cache \<Rightarrow> correction_cache" where
  "evict byte_len c =
     (if length (cc_entries c) \<ge> MAX_CORRECTION_ENTRIES
         \<or> sat_add (cc_bytes c) byte_len > MAX_CORRECTION_BYTES then
        (case oldest_key (cc_entries c) of
          None \<Rightarrow> c
        | Some k \<Rightarrow>
            (case hm_get (cc_entries c) k of
              None \<Rightarrow> evict byte_len c
            | Some oldest \<Rightarrow>
                evict byte_len (cc_mark_lost_through (ce_revision oldest)
                  (c\<lparr>cc_entries := hm_remove k (cc_entries c),
                     cc_bytes := sat_sub (cc_bytes c) (ce_byte_len oldest)\<rparr>))))
      else c)"
  by pat_completeness auto

termination
  by (relation "measure (\<lambda>(b, c). length (cc_entries c))")
    (auto simp: cc_mark_lost_through_def dest: oldest_key_in intro!: length_hm_remove_less)

declare evict.simps [simp del]

definition cc_insert ::
  "json_lib \<Rightarrow> correction_key \<Rightarrow> u64 \<Rightarrow> correction_value \<Rightarrow> correction_cache \<Rightarrow> correction_cache" where
  "cc_insert L key revision v c =
     (let c1 = (case hm_get (cc_entries c) key of
                 None \<Rightarrow> c
               | Some previous \<Rightarrow> c\<lparr>cc_entries := hm_remove key (cc_entries c),
                   cc_bytes := sat_sub (cc_bytes c) (ce_byte_len previous)\<rparr>)
      in case checked_add (key_byte_len key)
                (case value_byte_len L v of None \<Rightarrow> usize_max | Some n \<Rightarrow> n) of
           None \<Rightarrow> cc_mark_lost_through revision c1
         | Some byte_len \<Rightarrow>
             if byte_len > MAX_CORRECTION_BYTES then cc_mark_lost_through revision c1
             else
               (let c2 = evict byte_len c1
                in c2\<lparr>cc_bytes := sat_add (cc_bytes c2) byte_len,
                     cc_entries := hm_insert key
                       \<lparr>ce_revision = revision, ce_value = v, ce_byte_len = byte_len\<rparr>
                       (cc_entries c2)\<rparr>))"

definition cc_clear :: "correction_cache \<Rightarrow> correction_cache" where
  "cc_clear c = c\<lparr>cc_entries := [], cc_bytes := 0, cc_lost_through := 0\<rparr>"

definition cc_clear_and_mark_lost_through :: "u64 \<Rightarrow> correction_cache \<Rightarrow> correction_cache" where
  "cc_clear_and_mark_lost_through revision c =
     c\<lparr>cc_entries := [], cc_bytes := 0, cc_lost_through := revision\<rparr>"

fun cc_remove_keys :: "correction_key list \<Rightarrow> correction_cache \<Rightarrow> correction_cache" where
  "cc_remove_keys [] c = c"
| "cc_remove_keys (k # ks) c =
     cc_remove_keys ks
       (case hm_get (cc_entries c) k of
         None \<Rightarrow> c
       | Some e \<Rightarrow> c\<lparr>cc_entries := hm_remove k (cc_entries c),
           cc_bytes := sat_sub (cc_bytes c) (ce_byte_len e)\<rparr>)"

definition cc_remove_object :: "string \<Rightarrow> u64 \<Rightarrow> correction_cache \<Rightarrow> correction_cache" where
  "cc_remove_object object_id revision c =
     (let keys = filter (\<lambda>k. key_object k = object_id) (map fst (cc_entries c))
      in if keys = [] then c
         else cc_mark_lost_through revision (cc_remove_keys keys c))"

section \<open>Size invariant\<close>

definition total_bytes :: "(correction_key, correction_entry) hash_map \<Rightarrow> nat" where
  "total_bytes m = sum_list (map (\<lambda>(_, e). ce_byte_len e) m)"

definition cc_ok :: "correction_cache \<Rightarrow> bool" where
  "cc_ok c \<longleftrightarrow> hm_ok (cc_entries c) \<and> cc_bytes c = total_bytes (cc_entries c)
     \<and> length (cc_entries c) \<le> MAX_CORRECTION_ENTRIES \<and> cc_bytes c \<le> MAX_CORRECTION_BYTES"

lemmas max_defs = MAX_CORRECTION_ENTRIES_def MAX_CORRECTION_BYTES_def usize_max_def

lemma total_bytes_Nil [simp]: "total_bytes [] = 0"
  by (simp add: total_bytes_def)

lemma total_bytes_remove:
  "hm_ok m \<Longrightarrow> hm_get m k = Some e \<Longrightarrow> total_bytes (hm_remove k m) = total_bytes m - ce_byte_len e"
  using hm_sum_remove [of m k e "\<lambda>(_, e). ce_byte_len e"] by (simp add: total_bytes_def)

lemma total_bytes_insert_fresh:
  "hm_get m k = None \<Longrightarrow> total_bytes (hm_insert k e m) = total_bytes m + ce_byte_len e"
  by (simp add: hm_insert_fresh total_bytes_def)

lemma length_insert_fresh: "hm_get m k = None \<Longrightarrow> length (hm_insert k e m) = Suc (length m)"
  by (simp add: hm_insert_fresh)

lemma cc_ok_new [simp, inv_intros]: "cc_ok cc_new"
  by (simp add: cc_ok_def cc_new_def)

lemma cc_ok_mark [simp]: "cc_ok (cc_mark_lost_through r c) = cc_ok c"
  by (simp add: cc_ok_def cc_mark_lost_through_def)

lemma cc_ok_drop [simp]:
  "cc_ok c \<Longrightarrow> hm_get (cc_entries c) k = Some e \<Longrightarrow>
    cc_ok (c\<lparr>cc_entries := hm_remove k (cc_entries c), cc_bytes := sat_sub (cc_bytes c) (ce_byte_len e)\<rparr>)"
  using hm_length_remove_le [of k "cc_entries c"]
  by (auto simp: cc_ok_def sat_sub_def total_bytes_remove)

lemma evict_ok:
  assumes "cc_ok c"
  shows "cc_ok (evict b c)"
  using assms
proof (induction b c rule: evict.induct)
  case (1 b c)
  then show ?case
    by (subst evict.simps) (auto dest: oldest_key_in split: option.splits)
qed

lemma evict_fits:
  assumes "cc_ok c" "b \<le> MAX_CORRECTION_BYTES"
  shows "length (cc_entries (evict b c)) < MAX_CORRECTION_ENTRIES
     \<and> cc_bytes (evict b c) + b \<le> MAX_CORRECTION_BYTES"
  using assms
proof (induction b c rule: evict.induct)
  case (1 b c)
  show ?case
  proof (cases "length (cc_entries c) \<ge> MAX_CORRECTION_ENTRIES
      \<or> sat_add (cc_bytes c) b > MAX_CORRECTION_BYTES")
    case False
    then have "sat_add (cc_bytes c) b \<le> MAX_CORRECTION_BYTES" by simp
    then have "cc_bytes c + b \<le> MAX_CORRECTION_BYTES"
      by (simp add: sat_add_def max_defs split: if_splits)
    with False show ?thesis by (subst evict.simps, subst (2) evict.simps) simp
  next
    case True
    have "cc_entries c \<noteq> []"
    proof
      assume "cc_entries c = []"
      with True "1.prems" show False
        by (auto simp: cc_ok_def sat_add_def max_defs split: if_splits)
    qed
    then obtain k e where k: "oldest_key (cc_entries c) = Some k" "hm_get (cc_entries c) k = Some e"
      using oldest_key_in by (metis not_None_eq oldest_key_None)
    let ?d = "cc_mark_lost_through (ce_revision e)
      (c\<lparr>cc_entries := hm_remove k (cc_entries c), cc_bytes := sat_sub (cc_bytes c) (ce_byte_len e)\<rparr>)"
    have "evict b c = evict b ?d" using True k by (subst evict.simps) simp
    moreover have "cc_ok ?d" using k "1.prems"(1) by simp
    ultimately show ?thesis using "1.IH"(2) [OF True k] "1.prems"(2) by simp
  qed
qed


lemma evict_drops: "hm_get (cc_entries c) k = None \<Longrightarrow> hm_get (cc_entries (evict b c)) k = None"
proof (induction b c rule: evict.induct)
  case (1 b c)
  then show ?case
    by (subst evict.simps)
      (auto simp: cc_mark_lost_through_def hm_get_remove dest: oldest_key_in split: option.splits)
qed

definition drop_key :: "correction_key \<Rightarrow> correction_cache \<Rightarrow> correction_cache" where
  "drop_key k c =
     (case hm_get (cc_entries c) k of
       None \<Rightarrow> c
     | Some e \<Rightarrow> c\<lparr>cc_entries := hm_remove k (cc_entries c),
         cc_bytes := sat_sub (cc_bytes c) (ce_byte_len e)\<rparr>)"

lemma drop_key_facts [simp]:
  "hm_get (cc_entries (drop_key k c)) = (hm_get (cc_entries c))(k := None)"
  "cc_lost_through (drop_key k c) = cc_lost_through c"
  "cc_ok c \<Longrightarrow> cc_ok (drop_key k c)"
  by (auto simp: drop_key_def hm_get_remove split: option.splits)

lemma insert_cases:
  obtains (lost) "cc_insert L k r v c = cc_mark_lost_through r (drop_key k c)"
  | (kept) b where "b \<le> MAX_CORRECTION_BYTES" "b \<ge> key_byte_len k"
      "cc_insert L k r v c =
        (let c2 = evict b (drop_key k c)
         in c2\<lparr>cc_bytes := sat_add (cc_bytes c2) b,
              cc_entries := hm_insert k \<lparr>ce_revision = r, ce_value = v, ce_byte_len = b\<rparr> (cc_entries c2)\<rparr>)"
proof -
  let ?n = "case value_byte_len L v of None \<Rightarrow> usize_max | Some n \<Rightarrow> n"
  have eq: "cc_insert L k r v c =
     (case checked_add (key_byte_len k) ?n of
        None \<Rightarrow> cc_mark_lost_through r (drop_key k c)
      | Some b \<Rightarrow>
          if b > MAX_CORRECTION_BYTES then cc_mark_lost_through r (drop_key k c)
          else let c2 = evict b (drop_key k c)
               in c2\<lparr>cc_bytes := sat_add (cc_bytes c2) b,
                    cc_entries := hm_insert k \<lparr>ce_revision = r, ce_value = v, ce_byte_len = b\<rparr> (cc_entries c2)\<rparr>)"
    by (simp only: cc_insert_def drop_key_def Let_def)
  show ?thesis
  proof (cases "checked_add (key_byte_len k) ?n")
    case None
    with eq lost show ?thesis by simp
  next
    case (Some b)
    with eq lost kept [of b] show ?thesis by (cases "b > MAX_CORRECTION_BYTES") auto
  qed
qed

lemma insert_ok:
  assumes "cc_ok c"
  shows "cc_ok (cc_insert L k r v c)"
proof (cases rule: insert_cases [of L k r v c])
  case lost
  with assms show ?thesis by simp
next
  case (kept b)
  let ?d = "evict b (drop_key k c)"
  have ok: "cc_ok ?d" using assms by (simp add: evict_ok)
  have fits: "length (cc_entries ?d) < MAX_CORRECTION_ENTRIES" "cc_bytes ?d + b \<le> MAX_CORRECTION_BYTES"
    using evict_fits [of "drop_key k c" b] kept(1) assms by simp_all
  have fresh: "hm_get (cc_entries ?d) k = None" by (rule evict_drops) simp
  have "sat_add (cc_bytes ?d) b = cc_bytes ?d + b"
    using fits(2) by (intro sat_add_exact) (simp add: max_defs)
  then show ?thesis
    using ok fits unfolding kept(3)
    by (simp add: Let_def cc_ok_def total_bytes_insert_fresh [OF fresh] length_insert_fresh [OF fresh])
qed

lemma remove_keys_ok: "cc_ok c \<Longrightarrow> cc_ok (cc_remove_keys ks c)"
  by (induction ks c rule: cc_remove_keys.induct) (auto split: option.splits)

lemma remove_keys_get:
  "hm_get (cc_entries (cc_remove_keys ks c)) k
     = (if k \<in> set ks then None else hm_get (cc_entries c) k)"
  by (induction ks c rule: cc_remove_keys.induct) (auto simp: hm_get_remove split: option.splits)

lemma remove_keys_lost: "cc_lost_through (cc_remove_keys ks c) = cc_lost_through c"
  by (induction ks c rule: cc_remove_keys.induct) (auto split: option.splits)

lemma remove_object_ok [inv_intros]: "cc_ok c \<Longrightarrow> cc_ok (cc_remove_object i r c)"
  by (simp add: cc_remove_object_def remove_keys_ok Let_def)

lemma clear_ok [inv_intros]: "cc_ok (cc_clear c)"
  by (simp add: cc_ok_def cc_clear_def)

lemma clear_and_mark_ok [inv_intros]: "cc_ok (cc_clear_and_mark_lost_through r c)"
  by (simp add: cc_ok_def cc_clear_and_mark_lost_through_def)

lemmas [inv_intros] = insert_ok

text \<open>The correction cache stays within its bounds: whatever is inserted, it never holds more than
  512 entries or 4 MiB, its byte count is the sum of its entries and its keys are distinct; the
  other operations keep this too.\<close>

lemma correction_cache_bounded:
  assumes "cc_ok c"
  shows "cc_ok (cc_insert L k r v c) \<and> cc_ok (cc_remove_object i r c) \<and> cc_ok (cc_clear c)
     \<and> cc_ok (cc_clear_and_mark_lost_through r c) \<and> cc_ok (cc_mark_lost_through r c)"
  using assms by (simp add: inv_intros)

theorem correction_cache_bounded_witness:
  "cc_ok (cc_insert demo_json_lib (ParentKey ''a'') 1 (ParentValue None) cc_new)"
  using correction_cache_bounded [OF cc_ok_new, of demo_json_lib "ParentKey ''a''" 1 "ParentValue None"]
  by simp

section \<open>What the cache knows\<close>

definition known :: "correction_cache \<Rightarrow> correction_key \<Rightarrow> (u64 \<times> correction_value) option" where
  "known c k = map_option (\<lambda>e. (ce_revision e, ce_value e)) (cc_get c k)"

text \<open>
  A cache may forget a value, but then its revision is covered by the lost mark. \<open>forgets\<close> is the
  step from one to the other for one key.
\<close>

definition forgets :: "(u64 \<times> 'v) option \<Rightarrow> (u64 \<times> 'v) option \<Rightarrow> u64 \<Rightarrow> bool" where
  "forgets old new lost \<longleftrightarrow> new = old \<or> (new = None \<and> (\<forall>r v. old = Some (r, v) \<longrightarrow> r \<le> lost))"

lemma forgets_refl [simp]: "forgets x x l"
  by (simp add: forgets_def)

lemma forgets_trans: "forgets x y l \<Longrightarrow> forgets y z m \<Longrightarrow> l \<le> m \<Longrightarrow> forgets x z m"
  by (auto simp: forgets_def)

lemma known_mark [simp]: "known (cc_mark_lost_through r c) = known c"
  by (simp add: known_def cc_get_def cc_mark_lost_through_def fun_eq_iff)

lemma lost_mark [simp]: "cc_lost_through (cc_mark_lost_through r c) = max (cc_lost_through c) r"
  by (simp add: cc_mark_lost_through_def)

lemma known_drop [simp]: "known (drop_key k c) = (known c)(k := None)"
  by (auto simp: known_def cc_get_def fun_eq_iff)

lemma evict_forgets:
  "forgets (known c k) (known (evict b c) k) (cc_lost_through (evict b c))
     \<and> cc_lost_through c \<le> cc_lost_through (evict b c)"
proof (induction b c rule: evict.induct)
  case (1 b c)
  show ?case
  proof (cases "length (cc_entries c) \<ge> MAX_CORRECTION_ENTRIES
      \<or> sat_add (cc_bytes c) b > MAX_CORRECTION_BYTES")
    case False
    then show ?thesis by (simp add: evict.simps [of b c])
  next
    case True
    show ?thesis
    proof (cases "oldest_key (cc_entries c)")
      case None
      then show ?thesis by (simp add: evict.simps [of b c])
    next
      case (Some i)
      then obtain e where e: "hm_get (cc_entries c) i = Some e" using oldest_key_in by blast
      let ?d = "cc_mark_lost_through (ce_revision e) (drop_key i c)"
      have step: "evict b c = evict b ?d"
        using True Some e by (simp add: evict.simps [of b c] drop_key_def)
      have "forgets (known c k) (known ?d k) (cc_lost_through ?d)"
        using e by (auto simp: forgets_def known_def cc_get_def)
      moreover have "forgets (known ?d k) (known (evict b ?d) k) (cc_lost_through (evict b ?d))
          \<and> cc_lost_through ?d \<le> cc_lost_through (evict b ?d)"
        using "1.IH"(2) [OF True Some e] e by (simp add: drop_key_def)
      ultimately show ?thesis unfolding step by (auto intro: forgets_trans)
    qed
  qed
qed

lemma insert_known_same:
  "known (cc_insert L k r v c) k = Some (r, v)
     \<or> (known (cc_insert L k r v c) k = None \<and> r \<le> cc_lost_through (cc_insert L k r v c))"
proof (cases rule: insert_cases [of L k r v c])
  case lost
  then show ?thesis by simp
next
  case (kept b)
  then show ?thesis by (simp add: Let_def known_def cc_get_def hm_get_insert)
qed

lemma insert_forgets_other:
  assumes "i \<noteq> k"
  shows "forgets (known c i) (known (cc_insert L k r v c) i) (cc_lost_through (cc_insert L k r v c))"
proof (cases rule: insert_cases [of L k r v c])
  case lost
  with assms show ?thesis by simp
next
  case (kept b)
  have "known (cc_insert L k r v c) i = known (evict b (drop_key k c)) i"
    unfolding kept(3) using assms by (simp add: Let_def known_def cc_get_def hm_get_insert)
  moreover have "cc_lost_through (cc_insert L k r v c) = cc_lost_through (evict b (drop_key k c))"
    unfolding kept(3) by (simp add: Let_def)
  ultimately show ?thesis using evict_forgets [of "drop_key k c" i b] assms by simp
qed

lemma insert_lost_mono: "cc_lost_through c \<le> cc_lost_through (cc_insert L k r v c)"
proof (cases rule: insert_cases [of L k r v c])
  case lost
  then show ?thesis by simp
next
  case (kept b)
  then show ?thesis using evict_forgets [of "drop_key k c" k b] by (simp add: Let_def)
qed

lemma remove_object_forgets:
  assumes "\<forall>k e. hm_get (cc_entries c) k = Some e \<longrightarrow> ce_revision e \<le> r"
  shows "forgets (known c k) (known (cc_remove_object i r c) k) (cc_lost_through (cc_remove_object i r c))
     \<and> cc_lost_through c \<le> cc_lost_through (cc_remove_object i r c)"
proof (cases "filter (\<lambda>k. key_object k = i) (map fst (cc_entries c)) = []")
  case True
  then show ?thesis by (simp add: cc_remove_object_def)
next
  case False
  let ?ks = "filter (\<lambda>k. key_object k = i) (map fst (cc_entries c))"
  have eq: "cc_remove_object i r c = cc_mark_lost_through r (cc_remove_keys ?ks c)"
    using False by (simp only: cc_remove_object_def Let_def if_False)
  have "known (cc_remove_keys ?ks c) k = (if k \<in> set ?ks then None else known c k)"
    by (simp add: known_def cc_get_def remove_keys_get)
  moreover have "a \<le> r" if "known c k = Some (a, v)" for a v
    using that assms by (auto simp: known_def cc_get_def)
  ultimately show ?thesis unfolding eq by (auto simp: forgets_def remove_keys_lost le_max_iff_disj)
qed

section \<open>The interface: a store that may forget, and says how far\<close>

text \<open>
  What the history relies on. \<open>tracks\<close> relates a store to the unbounded record of the latest write
  of every key: what the store still finds is the latest write, and what it does not find any
  more lies at or below the lost mark.
\<close>

definition tracks ::
  "('k \<Rightarrow> (u64 \<times> 'v) option) \<Rightarrow> u64 \<Rightarrow> ('k \<Rightarrow> (u64 \<times> 'v) option) \<Rightarrow> bool" where
  "tracks found lost latest \<longleftrightarrow> (\<forall>k. forgets (latest k) (found k) lost)"

locale forgetting_store =
  fixes lookup :: "'c \<Rightarrow> 'k \<Rightarrow> (u64 \<times> 'v) option"
    and lost :: "'c \<Rightarrow> u64"
    and put :: "'k \<Rightarrow> u64 \<Rightarrow> 'v \<Rightarrow> 'c \<Rightarrow> 'c"
    and discard :: "'o \<Rightarrow> u64 \<Rightarrow> 'c \<Rightarrow> 'c"
  assumes put_same: "lookup (put k r v c) k = Some (r, v)
      \<or> (lookup (put k r v c) k = None \<and> r \<le> lost (put k r v c))"
    and put_other: "i \<noteq> k \<Longrightarrow> forgets (lookup c i) (lookup (put k r v c) i) (lost (put k r v c))"
    and put_lost: "lost c \<le> lost (put k r v c)"
    and discard_forgets: "(\<And>j a v. lookup c j = Some (a, v) \<Longrightarrow> a \<le> r) \<Longrightarrow>
      forgets (lookup c k) (lookup (discard object r c) k) (lost (discard object r c))
        \<and> lost c \<le> lost (discard object r c)"
begin

lemma put_tracks:
  assumes "tracks (lookup c) (lost c) latest"
  shows "tracks (lookup (put k r v c)) (lost (put k r v c)) (latest(k \<mapsto> (r, v)))"
  unfolding tracks_def
proof
  fix i
  show "forgets ((latest(k \<mapsto> (r, v))) i) (lookup (put k r v c) i) (lost (put k r v c))"
  proof (cases "i = k")
    case True
    with put_same [of k r v c] show ?thesis by (auto simp: forgets_def)
  next
    case False
    with assms put_other [OF False] put_lost show ?thesis
      by (auto simp: tracks_def intro: forgets_trans)
  qed
qed

lemma discard_tracks:
  assumes "tracks (lookup c) (lost c) latest"
    and "\<And>k a v. latest k = Some (a, v) \<Longrightarrow> a \<le> r"
  shows "tracks (lookup (discard object r c)) (lost (discard object r c)) latest"
proof -
  have "a \<le> r" if "lookup c j = Some (a, v)" for j a v
    using that assms(2) [of j a v] assms(1) by (metis forgets_def option.distinct(1) tracks_def)
  then have "forgets (lookup c k) (lookup (discard object r c) k) (lost (discard object r c))
      \<and> lost c \<le> lost (discard object r c)" for k
    by (rule discard_forgets)
  with assms(1) show ?thesis by (auto simp: tracks_def intro: forgets_trans)
qed

lemma found_is_latest:
  "tracks (lookup c) (lost c) latest \<Longrightarrow> lookup c k = Some (r, v) \<Longrightarrow> latest k = Some (r, v)"
  by (metis forgets_def option.distinct(1) tracks_def)

lemma unfound_is_old:
  "tracks (lookup c) (lost c) latest \<Longrightarrow> lookup c k = None \<Longrightarrow> latest k = Some (r, v) \<Longrightarrow> r \<le> lost c"
  by (metis forgets_def option.distinct(1) tracks_def)

end

interpretation cs: forgetting_store known cc_lost_through "cc_insert L" cc_remove_object for L
proof unfold_locales
  fix c :: correction_cache and r k i
  assume "\<And>j a v. known c j = Some (a, v) \<Longrightarrow> a \<le> r"
  then have "\<forall>k e. hm_get (cc_entries c) k = Some e \<longrightarrow> ce_revision e \<le> r"
    by (auto simp: known_def cc_get_def)
  then show "forgets (known c k) (known (cc_remove_object i r c) k) (cc_lost_through (cc_remove_object i r c))
      \<and> cc_lost_through c \<le> cc_lost_through (cc_remove_object i r c)"
    by (rule remove_object_forgets)
qed (rule insert_known_same insert_lost_mono insert_forgets_other; assumption?)+

lemma clear_tracks: "tracks (known (cc_clear c)) (cc_lost_through (cc_clear c)) Map.empty"
  by (simp add: tracks_def forgets_def known_def cc_get_def cc_clear_def)

lemma clear_and_mark_tracks:
  "(\<And>k a v. latest k = Some (a, v) \<Longrightarrow> a \<le> r) \<Longrightarrow>
    tracks (known (cc_clear_and_mark_lost_through r c))
      (cc_lost_through (cc_clear_and_mark_lost_through r c)) latest"
  by (auto simp: tracks_def forgets_def known_def cc_get_def cc_clear_and_mark_lost_through_def)

end
