(* ===== verification/History.thy ===== *)
theory History
  imports Corrections
begin

text \<open>
  The undo history of the edit service (\<open>HistoryState\<close> in \<open>edit_service/history.rs\<close>): two stacks of
  entries (the last element is the top, as with \<open>Vec::push\<close>), the open group whose entries are
  not on the undo stack yet, the partially applied group that waits for a retry or a discard, the
  markers of applied operations, and the correction cache. One definition per method; a method
  that mutates returns the new state, after its result where it has one. Revisions wrap at 64
  bits. Methods that read the clock take a \<open>clock\<close>.
\<close>

section \<open>State\<close>

record active_group =
  ag_token :: u64
  ag_secret :: "group_secret option"
  ag_started_at :: nat
  ag_last_edit_at :: nat
  ag_metadata :: group_metadata
  ag_entries :: "history_entry list"

record history_state =
  h_generation :: "u64 option"
  h_revision :: u64
  h_applied_revision :: u64
  h_markers :: "history_marker list"
  h_undo :: "history_entry list"
  h_redo :: "history_entry list"
  h_corrections :: correction_cache
  h_edit_unsupported :: bool
  h_pending :: bool
  h_pending_group :: "pending_group_action option"
  h_active_group :: "active_group option"

definition history_new :: history_state where
  "history_new = \<lparr>h_generation = None, h_revision = 0, h_applied_revision = 0, h_markers = [],
     h_undo = [], h_redo = [], h_corrections = cc_new, h_edit_unsupported = False,
     h_pending = False, h_pending_group = None, h_active_group = None\<rparr>"

definition bump :: "history_state \<Rightarrow> history_state" where
  "bump s = s\<lparr>h_revision := h_revision s + 1\<rparr>"

definition bump_applied :: "history_state \<Rightarrow> history_state" where
  "bump_applied s = s\<lparr>h_applied_revision := h_applied_revision s + 1\<rparr>"

definition synchronize :: "u64 option \<Rightarrow> history_state \<Rightarrow> history_state" where
  "synchronize generation s =
     (if h_generation s \<noteq> generation then
        bump (s\<lparr>h_generation := generation, h_undo := [], h_redo := [],
          h_corrections := cc_clear (h_corrections s), h_edit_unsupported := False,
          h_applied_revision := 0, h_markers := [], h_pending := False,
          h_pending_group := None, h_active_group := None\<rparr>)
      else s)"

definition clear_for_shutdown :: "history_state \<Rightarrow> history_state" where
  "clear_for_shutdown s =
     bump (s\<lparr>h_generation := None, h_applied_revision := 0, h_markers := [], h_undo := [],
       h_redo := [], h_corrections := cc_clear (h_corrections s), h_edit_unsupported := False,
       h_pending := False, h_pending_group := None, h_active_group := None\<rparr>)"

section \<open>Views\<close>

fun stack :: "history_direction \<Rightarrow> history_state \<Rightarrow> history_entry list" where
  "stack Undo s = h_undo s"
| "stack Redo s = h_redo s"

fun set_stack :: "history_direction \<Rightarrow> history_entry list \<Rightarrow> history_state \<Rightarrow> history_state" where
  "set_stack Undo es s = s\<lparr>h_undo := es\<rparr>"
| "set_stack Redo es s = s\<lparr>h_redo := es\<rparr>"

text \<open>\<open>[T]::last\<close>.\<close>

definition last_opt :: "'a list \<Rightarrow> 'a option" where
  "last_opt xs = (if xs = [] then None else Some (last xs))"

fun visible_stack :: "history_direction \<Rightarrow> history_state \<Rightarrow> history_entry list" where
  "visible_stack Undo s =
     (case h_active_group s of
       None \<Rightarrow> h_undo s
     | Some g \<Rightarrow> if ag_entries g = [] then h_undo s else ag_entries g)"
| "visible_stack Redo s = h_redo s"

definition history_cursor :: "history_direction \<Rightarrow> history_state \<Rightarrow> u64 option \<times> u64" where
  "history_cursor d s = (map_option entry_id (last_opt (visible_stack d s)), h_revision s)"

definition group_summary :: "history_direction \<Rightarrow> history_state \<Rightarrow> edit_group_summary option" where
  "group_summary d s =
     (case last_opt (visible_stack d s) of
       None \<Rightarrow> None
     | Some e \<Rightarrow> Some \<lparr>gs_id = group_id (gk_generation (entry_key e)) (gk_sequence (entry_key e)),
         gs_name = gm_name (he_group e), gs_source = source_dto (gm_source (he_group e)),
         gs_count = gm_count (he_group e), gs_created_at = gm_created_at (he_group e)\<rparr>)"

fun direction_text :: "history_direction \<Rightarrow> string" where
  "direction_text Undo = ''undo''"
| "direction_text Redo = ''redo''"

definition pending_summary :: "history_state \<Rightarrow> edit_pending_group option" where
  "pending_summary s =
     (case h_pending_group s of
       None \<Rightarrow> None
     | Some p \<Rightarrow>
         let m = pg_metadata p
         in Some \<lparr>ps_id = group_id (gk_generation (gm_key m)) (gk_sequence (gm_key m)),
              ps_name = gm_name m, ps_direction = direction_text (pg_direction p),
              ps_source = source_dto (gm_source m), ps_created_at = gm_created_at m,
              ps_total_count = gm_count m, ps_completed_count = pg_completed p,
              ps_outcome_unknown = pg_outcome_unknown p, ps_retry_allowed = pg_retry_allowed p\<rparr>)"

definition summary :: "history_state \<Rightarrow> edit_history_summary" where
  "summary s =
     (let (undo_head, undo_rev) = history_cursor Undo s;
          (redo_head, redo_rev) = history_cursor Redo s
      in \<lparr>hs_generation = h_generation s, hs_history_revision = h_revision s,
          hs_applied_revision = h_applied_revision s,
          hs_can_undo = (undo_head \<noteq> None \<and> \<not> h_edit_unsupported s \<and> \<not> h_pending s),
          hs_can_redo = (redo_head \<noteq> None \<and> \<not> h_edit_unsupported s \<and> \<not> h_pending s),
          hs_undo_head_id = undo_head, hs_undo_revision = undo_rev,
          hs_undo_group = group_summary Undo s,
          hs_redo_head_id = redo_head, hs_redo_revision = redo_rev,
          hs_redo_group = group_summary Redo s,
          hs_pending = h_pending s, hs_pending_group = pending_summary s\<rparr>)"

definition snapshot :: "history_state \<Rightarrow> u64 option \<times> u64 \<times> history_marker list" where
  "snapshot s = (h_generation s, h_revision s, h_markers s)"

definition entry_step :: "history_entry \<Rightarrow> history_action_step" where
  "entry_step e = \<lparr>st_entry_id = entry_id e, st_record = he_record e\<rparr>"

text \<open>The run of a group at the top of a stack, top first.\<close>

definition top_run :: "group_key \<Rightarrow> history_entry list \<Rightarrow> history_action_step list" where
  "top_run key es = map entry_step (takeWhile (\<lambda>e. entry_key e = key) (rev es))"

definition prepare_action :: "history_action_request \<Rightarrow> history_state \<Rightarrow> history_action option" where
  "prepare_action request s =
     (case ar_expected_head_id request of
       None \<Rightarrow> None
     | Some expected_head_id \<Rightarrow>
         if h_edit_unsupported s \<or> h_pending s \<or> ar_expected_revision request \<noteq> h_revision s then None
         else
           (case last_opt (visible_stack (ar_direction request) s) of
             None \<Rightarrow> None
           | Some e \<Rightarrow>
               if entry_id e \<noteq> expected_head_id then None
               else
                 (let steps = top_run (entry_key e) (visible_stack (ar_direction request) s)
                  in case steps of
                       [] \<Rightarrow> None
                     | first # _ \<Rightarrow> Some \<lparr>ha_direction = ar_direction request,
                         ha_entry_id = st_entry_id first, ha_record = st_record first,
                         ha_group = he_group e, ha_steps = steps,
                         ha_grouped = gm_named (he_group e)\<rparr>)))"

definition prepare_retry :: "history_state \<Rightarrow> history_action option" where
  "prepare_retry s =
     (case h_pending_group s of
       None \<Rightarrow> None
     | Some p \<Rightarrow>
         if \<not> pg_retry_allowed p \<or> pg_outcome_unknown p then None
         else
           (let steps = top_run (gm_key (pg_metadata p)) (stack (pg_direction p) s)
            in case steps of
                 [] \<Rightarrow> None
               | first # _ \<Rightarrow> Some \<lparr>ha_direction = pg_direction p, ha_entry_id = st_entry_id first,
                   ha_record = st_record first, ha_group = pg_metadata p, ha_steps = steps,
                   ha_grouped = True\<rparr>))"

definition refresh_action_step ::
  "history_direction \<Rightarrow> group_key \<Rightarrow> u64 \<Rightarrow> history_state \<Rightarrow> history_action_step option" where
  "refresh_action_step d key i s =
     map_option (\<lambda>e. \<lparr>st_entry_id = i, st_record = he_record e\<rparr>)
       (List.find (\<lambda>e. entry_id e = i \<and> entry_key e = key) (stack d s))"

definition has_group_on_stack :: "history_direction \<Rightarrow> group_key \<Rightarrow> history_state \<Rightarrow> bool" where
  "has_group_on_stack d key s \<longleftrightarrow> list_ex (\<lambda>e. entry_key e = key) (stack d s)"

definition has_group :: "u64 \<Rightarrow> u64 \<Rightarrow> history_state \<Rightarrow> bool" where
  "has_group token generation s =
     (case h_active_group s of
       None \<Rightarrow> False
     | Some g \<Rightarrow> ag_token g = token \<and> gk_generation (gm_key (ag_metadata g)) = generation)"

definition has_active_group :: "history_state \<Rightarrow> bool" where
  "has_active_group s \<longleftrightarrow> h_active_group s \<noteq> None"

definition active_display_group_id :: "history_state \<Rightarrow> string option" where
  "active_display_group_id s =
     map_option (\<lambda>g. group_id (gk_generation (gm_key (ag_metadata g))) (ag_token g)) (h_active_group s)"

definition group_deadline :: "history_state \<Rightarrow> nat option" where
  "group_deadline s =
     map_option (\<lambda>g. min (ag_started_at g + TOTAL_TIMEOUT) (ag_last_edit_at g + IDLE_TIMEOUT))
       (h_active_group s)"

section \<open>Groups\<close>

definition close_active_group :: "history_state \<Rightarrow> bool \<times> history_state" where
  "close_active_group s =
     (case h_active_group s of
       None \<Rightarrow> (False, s)
     | Some g \<Rightarrow>
         let s1 = s\<lparr>h_active_group := None\<rparr>
         in if ag_entries g = [] then (True, bump s1)
            else
              (let m = (ag_metadata g)\<lparr>gm_count := length (ag_entries g)\<rparr>
               in (True, bump (s1\<lparr>h_undo := h_undo s1 @ map (he_group_update (\<lambda>_. m)) (ag_entries g)\<rparr>))))"

definition expire_group :: "nat \<Rightarrow> history_state \<Rightarrow> bool \<times> history_state" where
  "expire_group now s =
     (case group_deadline s of
       Some deadline \<Rightarrow> if now \<ge> deadline then close_active_group s else (False, s)
     | None \<Rightarrow> (False, s))"

text \<open>\<open>str::trim\<close> over the UTF-8 encodings of the characters with the property White\_Space.\<close>

definition white_space :: "string list" where
  "white_space = map (map char_of)
     [[9], [10], [11], [12], [13], [32], [0xC2, 0x85], [0xC2, 0xA0], [0xE1, 0x9A, 0x80],
      [0xE2, 0x80, 0x80], [0xE2, 0x80, 0x81], [0xE2, 0x80, 0x82], [0xE2, 0x80, 0x83],
      [0xE2, 0x80, 0x84], [0xE2, 0x80, 0x85], [0xE2, 0x80, 0x86], [0xE2, 0x80, 0x87],
      [0xE2, 0x80, 0x88], [0xE2, 0x80, 0x89], [0xE2, 0x80, 0x8A], [0xE2, 0x80, 0xA8],
      [0xE2, 0x80, 0xA9], [0xE2, 0x80, 0xAF], [0xE2, 0x81, 0x9F], [0xE3, 0x80, 0x80 :: nat]]"

definition find_prefix :: "string list \<Rightarrow> string \<Rightarrow> string option" where
  "find_prefix ws s = List.find (\<lambda>w. w \<noteq> [] \<and> take (length w) s = w) ws"

lemma find_prefix_shorter: "find_prefix ws s = Some w \<Longrightarrow> length s - length w < length s"
proof -
  assume "find_prefix ws s = Some w"
  then have "w \<noteq> []" "take (length w) s = w" by (auto simp: find_prefix_def find_Some_iff)
  then show ?thesis by (cases s) auto
qed

function trim_with :: "string list \<Rightarrow> string \<Rightarrow> string" where
  "trim_with ws s =
     (case find_prefix ws s of
       None \<Rightarrow> s
     | Some w \<Rightarrow> trim_with ws (drop (length w) s))"
  by pat_completeness auto
termination
  by (relation "measure (\<lambda>(_, s). length s)") (auto dest: find_prefix_shorter)

declare trim_with.simps [simp del]

definition trim :: "string \<Rightarrow> string" where
  "trim s = rev (trim_with (map rev white_space) (rev (trim_with white_space s)))"

definition begin_group ::
  "clock \<Rightarrow> u64 \<Rightarrow> string \<Rightarrow> edit_source \<Rightarrow> u64 \<Rightarrow> history_state
    \<Rightarrow> (backend_error + unit) \<times> history_state" where
  "begin_group ck token raw_name source generation s =
     (let name = trim raw_name
      in if name = [] \<or> length name > 256 then (Inl (RequestFailed Group_name_length), s)
         else
           (let s1 = snd (close_active_group s)
            in (Inr (), bump (s1\<lparr>h_active_group := Some
                 \<lparr>ag_token = token, ag_secret = None, ag_started_at = ck_first ck,
                  ag_last_edit_at = ck_second ck,
                  ag_metadata = \<lparr>gm_key = \<lparr>gk_generation = generation, gk_sequence = token\<rparr>,
                    gm_name = name, gm_source = source, gm_created_at = unix_millis (ck_wall ck),
                    gm_count = 0, gm_named = True\<rparr>,
                  ag_entries = []\<rparr>\<rparr>))))"

definition end_group :: "nat \<Rightarrow> u64 \<Rightarrow> history_state \<Rightarrow> (backend_error + bool) \<times> history_state" where
  "end_group now token s =
     (let s1 = snd (expire_group now s)
      in if map_option ag_token (h_active_group s1) \<noteq> Some token
         then (Inl (RequestFailed Group_id_mismatch), s1)
         else (let (closed, s2) = close_active_group s1 in (Inr closed, s2)))"

definition close_group_unless :: "u64 option \<Rightarrow> history_state \<Rightarrow> bool \<times> history_state" where
  "close_group_unless token s =
     (if map_option ag_token (h_active_group s) \<noteq> token then close_active_group s else (False, s))"

definition jnat :: "nat \<Rightarrow> json" where
  "jnat n = JNumber (PosInt (word_of_nat n))"

definition begin_named_group ::
  "8 word list option \<Rightarrow> clock \<Rightarrow> u64 \<Rightarrow> string \<Rightarrow> u64 \<Rightarrow> history_state
    \<Rightarrow> (backend_error + json) \<times> history_state" where
  "begin_named_group filled ck token name generation s =
     (case generate_secret filled of
       Inl e \<Rightarrow> (Inl e, s)
     | Inr secret \<Rightarrow>
         (case begin_group ck token name Mcp generation s of
           (Inl e, s1) \<Rightarrow> (Inl e, s1)
         | (Inr _, s1) \<Rightarrow>
             (Inr (JObject
               [(''groupId'', JString (secret_expose secret)),
                (''displayGroupId'', JString (group_id generation token)),
                (''maxEdits'', jnat MAX_EDITS),
                (''idleTimeoutSeconds'', jnat (IDLE_TIMEOUT div nanos_per_sec)),
                (''totalTimeoutSeconds'', jnat (TOTAL_TIMEOUT div nanos_per_sec))]),
              s1\<lparr>h_active_group := map_option (ag_secret_update (\<lambda>_. Some secret)) (h_active_group s1)\<rparr>)))"

definition group_secret_matches :: "string \<Rightarrow> active_group \<Rightarrow> bool" where
  "group_secret_matches candidate g =
     (case ag_secret g of None \<Rightarrow> False | Some secret \<Rightarrow> secret_matches secret candidate)"

definition group_boundary ::
  "nat \<Rightarrow> string option \<Rightarrow> bool \<Rightarrow> history_state \<Rightarrow> (backend_error + u64 option) \<times> history_state" where
  "group_boundary now secret keep s =
     (let s1 = snd (expire_group now s);
          token = Option.bind secret (\<lambda>candidate.
            case h_active_group s1 of
              None \<Rightarrow> None
            | Some g \<Rightarrow> if group_secret_matches candidate g then Some (ag_token g) else None);
          kept = (if keep then token else None);
          s2 = snd (close_group_unless kept s1)
      in if secret \<noteq> None \<and> token = None
         then (Inl (RequestFailed Group_id_invalid_start_new), s2)
         else (Inr kept, s2))"

definition end_named_group :: "nat \<Rightarrow> string \<Rightarrow> history_state \<Rightarrow> (backend_error + unit) \<times> history_state" where
  "end_named_group now secret s =
     (let s1 = snd (expire_group now s)
      in if \<not> (case h_active_group s1 of None \<Rightarrow> False | Some g \<Rightarrow> group_secret_matches secret g)
         then (Inl (RequestFailed Group_id_invalid), s1)
         else (Inr (), snd (close_active_group s1)))"

definition revoke_mcp_group :: "history_state \<Rightarrow> bool \<times> history_state" where
  "revoke_mcp_group s =
     (case h_active_group s of
       Some g \<Rightarrow> if gm_source (ag_metadata g) = Mcp then close_active_group s else (False, s)
     | None \<Rightarrow> (False, s))"

section \<open>Records\<close>

fun changed_created_id :: "history_record \<Rightarrow> history_record \<Rightarrow> (string \<times> string) option" where
  "changed_created_id (Create old_id p k) (Create new_id p' k') =
     (if old_id \<noteq> new_id then Some (old_id, new_id) else None)"
| "changed_created_id (Duplicate s old_id p) (Duplicate s' new_id p') =
     (if old_id \<noteq> new_id then Some (old_id, new_id) else None)"
| "changed_created_id _ _ = None"

definition replace_id :: "string \<Rightarrow> string \<Rightarrow> string \<Rightarrow> string" where
  "replace_id old_id new_id v = (if v = old_id then new_id else v)"

fun replace_record_ids :: "string \<Rightarrow> string \<Rightarrow> history_record \<Rightarrow> history_record" where
  "replace_record_ids a b (Create i p k) = Create (replace_id a b i) (map_option (replace_id a b) p) k"
| "replace_record_ids a b (Duplicate s i p) =
     Duplicate (replace_id a b s) (replace_id a b i) (map_option (replace_id a b) p)"
| "replace_record_ids a b (Reparent i p q) =
     Reparent (replace_id a b i) (map_option (replace_id a b) p) (map_option (replace_id a b) q)"
| "replace_record_ids a b (SetProperty i n v w) = SetProperty (replace_id a b i) n v w"

definition non_empty_new_id :: "json \<Rightarrow> string option" where
  "non_empty_new_id v =
     (case Option.bind (jget ''newId'' v) as_str of
       None \<Rightarrow> None
     | Some i \<Rightarrow> if i = [] then None else Some i)"

fun updated_history_record ::
  "history_record \<Rightarrow> history_direction \<Rightarrow> json \<Rightarrow> backend_error + history_record" where
  "updated_history_record (Create i p k) Redo result =
     (case non_empty_new_id result of
       None \<Rightarrow> Inl (RequestFailed (Malformed_history_result ''newId''))
     | Some new_id \<Rightarrow> Inr (Create new_id p k))"
| "updated_history_record (Duplicate s i p) Redo result =
     (case non_empty_new_id result of
       None \<Rightarrow> Inl (RequestFailed (Malformed_history_result ''newId''))
     | Some new_id \<Rightarrow> Inr (Duplicate s new_id p))"
| "updated_history_record r _ result = Inr r"

definition on_group :: "group_key \<Rightarrow> string \<Rightarrow> string \<Rightarrow> history_entry \<Rightarrow> history_entry" where
  "on_group key a b e = (if entry_key e = key then he_record_update (replace_record_ids a b) e else e)"

definition remap_group_ids :: "group_key \<Rightarrow> string \<Rightarrow> string \<Rightarrow> history_state \<Rightarrow> history_state" where
  "remap_group_ids key a b s =
     s\<lparr>h_undo := map (on_group key a b) (h_undo s),
       h_redo := map (on_group key a b) (h_redo s),
       h_active_group := map_option (\<lambda>g.
         if gm_key (ag_metadata g) = key
         then ag_entries_update (map (he_record_update (replace_record_ids a b))) g else g)
         (h_active_group s)\<rparr>"

section \<open>Corrections of actions\<close>

definition correct :: "json_lib \<Rightarrow> correction_key \<Rightarrow> correction_value \<Rightarrow> history_state \<Rightarrow> history_state" where
  "correct L k v s = s\<lparr>h_corrections := cc_insert L k (h_applied_revision s) v (h_corrections s)\<rparr>"

definition uncorrect :: "string \<Rightarrow> history_state \<Rightarrow> history_state" where
  "uncorrect i s = s\<lparr>h_corrections := cc_remove_object i (h_applied_revision s) (h_corrections s)\<rparr>"

fun update_action_corrections ::
  "json_lib \<Rightarrow> history_record \<Rightarrow> history_record \<Rightarrow> history_direction \<Rightarrow> json
    \<Rightarrow> history_state \<Rightarrow> history_state" where
  "update_action_corrections L (Create i p k) (Create new_id p' k') Undo result s = uncorrect i s"
| "update_action_corrections L (Create i p k) (Create new_id p' k') Redo result s =
     correct L (ParentKey new_id) (ParentValue p') (uncorrect i s)"
| "update_action_corrections L (Duplicate c i p) (Duplicate c' new_id p') Undo result s = uncorrect i s"
| "update_action_corrections L (Duplicate c i p) (Duplicate c' new_id p') Redo result s =
     (case p' of
       None \<Rightarrow> uncorrect i s
     | Some parent \<Rightarrow> correct L (ParentKey new_id) (ParentValue (Some parent)) (uncorrect i s))"
| "update_action_corrections L (Reparent i p q) (Reparent i' p' q') d result s =
     correct L (ParentKey i) (ParentValue (case d of Undo \<Rightarrow> p | Redo \<Rightarrow> q)) s"
| "update_action_corrections L (SetProperty i n v w) (SetProperty i' n' v' w') d result s =
     correct L (PropertyKey i n)
       (PropertyValue (case jget ''appliedValue'' result of
          Some applied \<Rightarrow> applied
        | None \<Rightarrow> (case d of Undo \<Rightarrow> v | Redo \<Rightarrow> w))) s"
| "update_action_corrections L _ _ _ _ s = s"

section \<open>Undo and redo\<close>

definition push_marker :: "edit_source \<Rightarrow> edit_kind \<Rightarrow> u64 \<Rightarrow> u64 \<Rightarrow> history_state \<Rightarrow> history_state" where
  "push_marker source k sequence generation s =
     bump (s\<lparr>h_markers := h_markers s @
       [\<lparr>mk_sequence = sequence, mk_source = source, mk_kind = k, mk_generation = generation\<rparr>]\<rparr>)"

definition record_untracked_success ::
  "edit_source \<Rightarrow> edit_kind \<Rightarrow> u64 \<Rightarrow> u64 \<Rightarrow> history_state \<Rightarrow> history_state" where
  "record_untracked_success source k sequence generation s =
     push_marker source k sequence generation (bump_applied s)"

definition pop_action_entry_id ::
  "history_direction \<Rightarrow> u64 \<Rightarrow> group_key \<Rightarrow> history_state \<Rightarrow> history_entry option \<times> history_state" where
  "pop_action_entry_id d i key s =
     (case last_opt (stack d s) of
       None \<Rightarrow> (None, s)
     | Some e \<Rightarrow>
         if entry_id e \<noteq> i \<or> entry_key e \<noteq> key then (None, s)
         else (Some e, set_stack d (butlast (stack d s)) s))"

definition pop_action_entry :: "history_action \<Rightarrow> history_state \<Rightarrow> history_entry option \<times> history_state" where
  "pop_action_entry a s = pop_action_entry_id (ha_direction a) (ha_entry_id a) (gm_key (ha_group a)) s"

definition discard_action :: "history_action \<Rightarrow> history_state \<Rightarrow> history_state" where
  "discard_action a s =
     (case pop_action_entry a s of (None, s1) \<Rightarrow> s1 | (Some _, s1) \<Rightarrow> bump s1)"

definition finish_action_failure :: "history_action \<Rightarrow> history_state \<Rightarrow> history_state" where
  "finish_action_failure a s =
     (case pop_action_entry a s of (None, s1) \<Rightarrow> s1 | (Some _, s1) \<Rightarrow> bump s1)"

definition push_back :: "history_direction \<Rightarrow> history_entry \<Rightarrow> history_state \<Rightarrow> history_state" where
  "push_back d e s =
     (case d of Undo \<Rightarrow> s\<lparr>h_redo := h_redo s @ [e]\<rparr> | Redo \<Rightarrow> s\<lparr>h_undo := h_undo s @ [e]\<rparr>)"

definition finish_action_success ::
  "json_lib \<Rightarrow> history_action \<Rightarrow> edit_source \<Rightarrow> edit_kind \<Rightarrow> u64 \<Rightarrow> u64 \<Rightarrow> json \<Rightarrow> history_state
    \<Rightarrow> (backend_error + bool) \<times> history_state" where
  "finish_action_success L a source k sequence generation result s =
     (if \<not> accepted result then (Inl (RequestFailed History_not_accepted), discard_action a s)
      else
        (case updated_history_record (ha_record a) (ha_direction a) result of
          Inl e \<Rightarrow> (Inl e, discard_action a s)
        | Inr updated \<Rightarrow>
            (case pop_action_entry a s of
              (None, s1) \<Rightarrow> (Inr False, s1)
            | (Some e, s1) \<Rightarrow>
                (Inr True,
                 push_back (ha_direction a) (e\<lparr>he_record := updated\<rparr>)
                   (push_marker source k sequence generation
                     (update_action_corrections L (ha_record a) updated (ha_direction a) result
                       (bump_applied s1)))))))"

section \<open>Grouped undo and redo\<close>

definition start_pending_group :: "history_action \<Rightarrow> nat \<Rightarrow> bool \<Rightarrow> bool \<Rightarrow> history_state \<Rightarrow> history_state" where
  "start_pending_group a completed outcome_unknown retry_allowed s =
     bump (s\<lparr>h_pending := True, h_pending_group := Some
       \<lparr>pg_direction = ha_direction a, pg_metadata = ha_group a, pg_completed = completed,
        pg_outcome_unknown = outcome_unknown, pg_retry_allowed = retry_allowed\<rparr>\<rparr>)"

definition finish_group_failure :: "history_action \<Rightarrow> nat \<Rightarrow> backend_error \<Rightarrow> history_state \<Rightarrow> history_state" where
  "finish_group_failure a completed err s =
     (let retry_allowed = (case err of EngineFailed _ _ \<Rightarrow> True | _ \<Rightarrow> False)
      in start_pending_group a completed (\<not> retry_allowed) retry_allowed s)"

text \<open>The count of a pending group after one more of its steps, and its end.\<close>

definition count_pending_step :: "group_key \<Rightarrow> history_state \<Rightarrow> history_state" where
  "count_pending_step key s =
     (case h_pending_group s of
       None \<Rightarrow> s
     | Some p \<Rightarrow>
         if gm_key (pg_metadata p) = key then
           (let s1 = s\<lparr>h_pending_group := Some (p\<lparr>pg_completed := sat_add (pg_completed p) 1\<rparr>)\<rparr>
            in if \<not> has_group_on_stack (pg_direction p) (gm_key (pg_metadata p)) s1
               then s1\<lparr>h_pending := False, h_pending_group := None\<rparr> else s1)
         else s)"

definition remap_changed :: "group_key \<Rightarrow> history_record \<Rightarrow> history_record \<Rightarrow> history_state \<Rightarrow> history_state" where
  "remap_changed key old updated s =
     (case changed_created_id old updated of
       None \<Rightarrow> s
     | Some (old_id, new_id) \<Rightarrow> remap_group_ids key old_id new_id s)"

definition finish_group_step ::
  "json_lib \<Rightarrow> history_action \<Rightarrow> history_action_step \<Rightarrow> history_operation_context \<Rightarrow> json \<Rightarrow> history_state
    \<Rightarrow> (backend_error + bool) \<times> history_state" where
  "finish_group_step L a step context result s =
     (if \<not> accepted result then (Inr False, s)
      else
        (case updated_history_record (st_record step) (ha_direction a) result of
          Inl e \<Rightarrow> (Inl e, s)
        | Inr updated \<Rightarrow>
            (case pop_action_entry_id (ha_direction a) (st_entry_id step) (gm_key (ha_group a)) s of
              (None, s1) \<Rightarrow> (Inr False, s1)
            | (Some e, s1) \<Rightarrow>
                let s2 = update_action_corrections L (st_record step) updated (ha_direction a) result
                           (bump_applied s1);
                    s3 = remap_changed (gm_key (ha_group a)) (st_record step) updated s2;
                    s4 = push_back (ha_direction a) (e\<lparr>he_record := updated\<rparr>)
                           (push_marker (oc_source context) (oc_kind context) (oc_sequence context)
                             (oc_generation context) s3)
                in (Inr True, count_pending_step (gm_key (ha_group a)) s4))))"

definition mark_mcp_outcome_unknown :: "nat option \<Rightarrow> u64 \<Rightarrow> u64 \<Rightarrow> history_state \<Rightarrow> history_state" where
  "mark_mcp_outcome_unknown wall sequence generation s =
     bump (s\<lparr>h_pending := True, h_pending_group := Some
       \<lparr>pg_direction = Undo,
        pg_metadata = \<lparr>gm_key = \<lparr>gk_generation = generation, gk_sequence = sequence\<rparr>,
          gm_name = outcome_unknown_name, gm_source = Mcp, gm_created_at = unix_millis wall,
          gm_count = 1, gm_named = False\<rparr>,
        pg_completed = 0, pg_outcome_unknown = True, pg_retry_allowed = False\<rparr>\<rparr>)"

definition clear_completed_pending_group :: "group_key \<Rightarrow> history_state \<Rightarrow> history_state" where
  "clear_completed_pending_group key s =
     (case h_pending_group s of
       None \<Rightarrow> s
     | Some p \<Rightarrow>
         if gm_key (pg_metadata p) = key \<and> \<not> has_group_on_stack (pg_direction p) key s
         then bump (s\<lparr>h_pending := False, h_pending_group := None\<rparr>) else s)"

definition discard_pending_group ::
  "history_state \<Rightarrow> (backend_error + edit_discard_result) \<times> history_state" where
  "discard_pending_group s =
     (case h_pending_group s of
       None \<Rightarrow> (Inl (RequestFailed Nothing_to_discard), s)
     | Some p \<Rightarrow>
         let m = pg_metadata p; keep = filter (\<lambda>e. entry_key e \<noteq> gm_key m)
         in (Inr \<lparr>dr_group_id = group_id (gk_generation (gm_key m)) (gk_sequence (gm_key m)),
               dr_completed_count = pg_completed p, dr_total_count = gm_count m,
               dr_outcome_unknown = pg_outcome_unknown p,
               dr_changes_remain = (pg_completed p > 0 \<or> pg_outcome_unknown p)\<rparr>,
             bump (s\<lparr>h_pending_group := None, h_undo := keep (h_undo s), h_redo := keep (h_redo s),
               h_pending := False\<rparr>)))"

definition mark_edit_unsupported :: "history_state \<Rightarrow> history_state" where
  "mark_edit_unsupported s =
     (if \<not> h_edit_unsupported s then bump (s\<lparr>h_edit_unsupported := True\<rparr>) else s)"

section \<open>Preparing and recording edits\<close>

text \<open>\<open>resolve_capture\<close>: the old value of an edit, from the caller's capture or a newer correction.\<close>

definition resolve_capture ::
  "correction_key \<Rightarrow> 'a history_capture \<Rightarrow> edit_source \<Rightarrow> u64 \<Rightarrow> (correction_value \<Rightarrow> 'a option)
    \<Rightarrow> history_state \<Rightarrow> backend_error + 'a option" where
  "resolve_capture key capture source generation correction s =
     (if source \<noteq> Ui \<or> hc_generation capture \<noteq> generation \<or> h_generation s \<noteq> Some generation
         \<or> hc_revision capture > h_applied_revision s
      then Inl (RequestFailed Refresh_required)
      else
        (case cc_get (h_corrections s) key of
          None \<Rightarrow>
            if hc_value capture \<noteq> None \<and> hc_revision capture < cc_lost_through (h_corrections s)
            then Inl (RequestFailed Refresh_required) else Inr (hc_value capture)
        | Some e \<Rightarrow>
            if ce_revision e > hc_revision capture then
              (case correction (ce_value e) of
                None \<Rightarrow> Inl (RequestFailed Refresh_required)
              | Some v \<Rightarrow> Inr (Some v))
            else Inr (hc_value capture)))"

fun as_parent :: "correction_value \<Rightarrow> string option option" where
  "as_parent (ParentValue p) = Some p"
| "as_parent (PropertyValue v) = None"

fun as_property :: "correction_value \<Rightarrow> json option" where
  "as_property (PropertyValue v) = Some v"
| "as_property (ParentValue p) = None"

fun resolve_prior ::
  "correction_key \<Rightarrow> 'a prior_capture \<Rightarrow> edit_source \<Rightarrow> u64 \<Rightarrow> (correction_value \<Rightarrow> 'a option)
    \<Rightarrow> history_state \<Rightarrow> backend_error + 'a option" where
  "resolve_prior key (FromUi capture) source generation f s =
     resolve_capture key capture source generation f s"
| "resolve_prior key InAction source generation f s =
     (if source = Mcp then Inr None else Inl (RequestFailed Refresh_required))"

fun prepare ::
  "history_request \<Rightarrow> edit_source \<Rightarrow> u64 \<Rightarrow> history_state \<Rightarrow> backend_error + prepared_request" where
  "prepare (CreateObject p k) source generation s = Inr (PCreateObject p k)"
| "prepare (DuplicateObject c p) source generation s = Inr (PDuplicateObject c p)"
| "prepare (ReparentObject i to_parent old) source generation s =
     bind_r (resolve_prior (ParentKey i) old source generation as_parent s)
       (\<lambda>old_parent_id. Inr (PReparentObject i to_parent old_parent_id))"
| "prepare (SetPropertyTo i n requested old) source generation s =
     bind_r (resolve_prior (PropertyKey i n) old source generation as_property s)
       (\<lambda>v. Inr (PSetProperty i n requested v))"
| "prepare (DeleteObject i) source generation s = Inr (PDeleteObject i)"

fun prior_parent :: "history_prior option \<Rightarrow> string option option" where
  "prior_parent (Some (ParentPrior p)) = Some p"
| "prior_parent _ = None"

fun prior_property :: "history_prior option \<Rightarrow> json option" where
  "prior_property (Some (PropertyPrior v)) = Some v"
| "prior_property _ = None"

definition opt_or :: "'a option \<Rightarrow> 'a option \<Rightarrow> 'a option" where
  "opt_or a b = (case a of None \<Rightarrow> b | Some x \<Rightarrow> Some x)"

text \<open>The record an accepted edit leaves, and the corrections it writes on the way.\<close>

fun record_of ::
  "json_lib \<Rightarrow> prepared_request \<Rightarrow> queued_edit_result \<Rightarrow> history_state \<Rightarrow> history_record option \<times> history_state" where
  "record_of L (PCreateObject p k) result s =
     (case non_empty_new_id (qr_value result) of
       None \<Rightarrow> (None, s)
     | Some i \<Rightarrow> (Some (Create i p k), correct L (ParentKey i) (ParentValue p) s))"
| "record_of L (PDuplicateObject c p) result s =
     (case non_empty_new_id (qr_value result) of
       None \<Rightarrow> (None, s)
     | Some i \<Rightarrow> (Some (Duplicate c i p),
         case p of None \<Rightarrow> s | Some parent \<Rightarrow> correct L (ParentKey i) (ParentValue (Some parent)) s))"
| "record_of L (PReparentObject i to_parent old) result s =
     (case opt_or old (prior_parent (qr_prior result)) of
       None \<Rightarrow> None
     | Some from_parent \<Rightarrow>
         if from_parent = to_parent then None else Some (Reparent i from_parent to_parent),
      correct L (ParentKey i) (ParentValue to_parent) s)"
| "record_of L (PSetProperty i n requested old) result s =
     (let applied_value = (case jget ''appliedValue'' (qr_value result) of None \<Rightarrow> requested | Some v \<Rightarrow> v)
      in (case opt_or old (prior_property (qr_prior result)) of
            None \<Rightarrow> None
          | Some v \<Rightarrow>
              if property_values_equal L v applied_value then None else Some (SetProperty i n v applied_value),
          correct L (PropertyKey i n) (PropertyValue applied_value) s))"
| "record_of L (PDeleteObject i) result s = (None, s)"

definition push_single ::
  "clock \<Rightarrow> history_record \<Rightarrow> history_operation_context \<Rightarrow> history_marker \<Rightarrow> history_state \<Rightarrow> history_state" where
  "push_single ck r context marker s =
     s\<lparr>h_undo := h_undo s @
         [\<lparr>he_marker = marker, he_record = r,
           he_group = \<lparr>gm_key = \<lparr>gk_generation = oc_generation context, gk_sequence = oc_sequence context\<rparr>,
             gm_name = summary_name r, gm_source = oc_source context,
             gm_created_at = unix_millis (ck_wall ck), gm_count = 1, gm_named = False\<rparr>\<rparr>],
       h_redo := []\<rparr>"

definition takes_edit :: "history_operation_context \<Rightarrow> active_group \<Rightarrow> bool" where
  "takes_edit context g \<longleftrightarrow> Some (ag_token g) = oc_group_token context
     \<and> gk_generation (gm_key (ag_metadata g)) = oc_generation context
     \<and> gm_source (ag_metadata g) = oc_source context"

definition add_entry :: "clock \<Rightarrow> history_record \<Rightarrow> history_marker \<Rightarrow> active_group \<Rightarrow> active_group" where
  "add_entry ck r marker g =
     (let m = (ag_metadata g)\<lparr>gm_count := sat_add (length (ag_entries g)) 1\<rparr>
      in g\<lparr>ag_entries := ag_entries g @ [\<lparr>he_marker = marker, he_record = r, he_group = m\<rparr>],
           ag_last_edit_at := ck_first ck\<rparr>)"

definition push_grouped ::
  "clock \<Rightarrow> history_record \<Rightarrow> history_marker \<Rightarrow> active_group \<Rightarrow> history_state \<Rightarrow> history_state" where
  "push_grouped ck r marker g s =
     (let g1 = add_entry ck r marker g;
          s1 = s\<lparr>h_active_group := Some g1\<rparr>;
          s2 = (if length (ag_entries g1) = 1 then s1\<lparr>h_redo := []\<rparr> else s1);
          s3 = (if length (ag_entries g1) \<ge> MAX_EDITS then snd (close_active_group s2) else s2)
      in snd (expire_group (ck_second ck) s3))"

definition push_record ::
  "clock \<Rightarrow> history_record \<Rightarrow> history_operation_context \<Rightarrow> history_state \<Rightarrow> history_state" where
  "push_record ck r context s =
     (let marker = last (h_markers s)
      in case h_active_group s of
           None \<Rightarrow> push_single ck r context marker s
         | Some g \<Rightarrow>
             if takes_edit context g then push_grouped ck r marker g s
             else push_single ck r context marker s)"

definition record_success_in_group ::
  "json_lib \<Rightarrow> clock \<Rightarrow> prepared_request \<Rightarrow> history_operation_context \<Rightarrow> queued_edit_result
    \<Rightarrow> history_state \<Rightarrow> history_state" where
  "record_success_in_group L ck prepared context result s =
     (if \<not> accepted (qr_value result) then s
      else
        (case prepared of
          PDeleteObject _ \<Rightarrow>
            (let s1 = bump_applied s
             in push_marker (oc_source context) (oc_kind context) (oc_sequence context) (oc_generation context)
                  (s1\<lparr>h_corrections := cc_clear_and_mark_lost_through (h_applied_revision s1) (h_corrections s1),
                      h_undo := [], h_redo := []\<rparr>))
        | _ \<Rightarrow>
            (let s1 = push_marker (oc_source context) (oc_kind context) (oc_sequence context)
                        (oc_generation context) (bump_applied s)
             in case record_of L prepared result s1 of
                  (None, s2) \<Rightarrow> s2
                | (Some r, s2) \<Rightarrow> push_record ck r context s2)))"

end
