(* ===== verification/History_Ops.thy ===== *)
theory History_Ops
  imports History
begin

text \<open>
  The operations of the history as one type, so that whole runs can be stated: \<open>history_exec\<close>
  calls the method with its arguments and keeps the new state. The invariant of every run, and
  the revision as a version stamp of the state.
\<close>

datatype history_op =
    O_synchronize "u64 option"
  | O_shutdown
  | O_begin_group clock u64 string edit_source u64
  | O_begin_named_group "8 word list option" clock u64 string u64
  | O_end_group nat u64
  | O_close_group_unless "u64 option"
  | O_group_boundary nat "string option" bool
  | O_end_named_group nat string
  | O_expire_group nat
  | O_revoke_mcp_group
  | O_start_pending_group history_action nat bool bool
  | O_finish_group_step history_action history_action_step history_operation_context json
  | O_finish_group_failure history_action nat backend_error
  | O_mark_mcp_outcome_unknown "nat option" u64 u64
  | O_clear_completed_pending_group group_key
  | O_discard_pending_group
  | O_finish_action_success history_action edit_source edit_kind u64 u64 json
  | O_finish_action_failure history_action
  | O_mark_edit_unsupported
  | O_record_untracked_success edit_source edit_kind u64 u64
  | O_record_success clock prepared_request history_operation_context queued_edit_result

fun history_exec :: "json_lib \<Rightarrow> history_op \<Rightarrow> history_state \<Rightarrow> history_state" where
  "history_exec L (O_synchronize g) s = synchronize g s"
| "history_exec L O_shutdown s = clear_for_shutdown s"
| "history_exec L (O_begin_group ck t n src g) s = snd (begin_group ck t n src g s)"
| "history_exec L (O_begin_named_group b ck t n g) s = snd (begin_named_group b ck t n g s)"
| "history_exec L (O_end_group now t) s = snd (end_group now t s)"
| "history_exec L (O_close_group_unless t) s = snd (close_group_unless t s)"
| "history_exec L (O_group_boundary now sec keep) s = snd (group_boundary now sec keep s)"
| "history_exec L (O_end_named_group now sec) s = snd (end_named_group now sec s)"
| "history_exec L (O_expire_group now) s = snd (expire_group now s)"
| "history_exec L O_revoke_mcp_group s = snd (revoke_mcp_group s)"
| "history_exec L (O_start_pending_group a n u r) s = start_pending_group a n u r s"
| "history_exec L (O_finish_group_step a st ctx v) s = snd (finish_group_step L a st ctx v s)"
| "history_exec L (O_finish_group_failure a n e) s = finish_group_failure a n e s"
| "history_exec L (O_mark_mcp_outcome_unknown w i g) s = mark_mcp_outcome_unknown w i g s"
| "history_exec L (O_clear_completed_pending_group key) s = clear_completed_pending_group key s"
| "history_exec L O_discard_pending_group s = snd (discard_pending_group s)"
| "history_exec L (O_finish_action_success a src k i g v) s = snd (finish_action_success L a src k i g v s)"
| "history_exec L (O_finish_action_failure a) s = finish_action_failure a s"
| "history_exec L O_mark_edit_unsupported s = mark_edit_unsupported s"
| "history_exec L (O_record_untracked_success src k i g) s = record_untracked_success src k i g s"
| "history_exec L (O_record_success ck p ctx r) s = record_success_in_group L ck p ctx r s"

definition history_run :: "json_lib \<Rightarrow> history_op list \<Rightarrow> history_state \<Rightarrow> history_state" where
  "history_run L ops s = fold (history_exec L) ops s"

section \<open>The revision\<close>

text \<open>\<open>advances n s t\<close>: \<open>t\<close> is at most \<open>n\<close> revisions after \<open>s\<close>, and is \<open>s\<close> itself if at none.\<close>

definition advances :: "nat \<Rightarrow> history_state \<Rightarrow> history_state \<Rightarrow> bool" where
  "advances n s t \<longleftrightarrow> (\<exists>k\<le>n. h_revision t = h_revision s + word_of_nat k \<and> (k = 0 \<longrightarrow> t = s))"

lemma advances_refl [simp]: "advances n s s"
  by (auto simp: advances_def intro: exI [of _ 0])

lemma advances_mono: "advances n s t \<Longrightarrow> n \<le> m \<Longrightarrow> advances m s t"
  by (auto simp: advances_def intro: le_trans)

lemma advances_trans: "advances n s t \<Longrightarrow> advances m t u \<Longrightarrow> advances (n + m) s u"
  unfolding advances_def
proof (elim exE conjE)
  fix j k
  assume "j \<le> n" "h_revision t = h_revision s + word_of_nat j" "j = 0 \<longrightarrow> t = s"
    "k \<le> m" "h_revision u = h_revision t + word_of_nat k" "k = 0 \<longrightarrow> u = t"
  then show "\<exists>k\<le>n + m. h_revision u = h_revision s + word_of_nat k \<and> (k = 0 \<longrightarrow> u = s)"
    by (intro exI [of _ "j + k"]) auto
qed

lemma advances_bump: "h_revision t = h_revision s \<Longrightarrow> advances (Suc 0) s (bump t)"
  by (auto simp: advances_def bump_def intro!: exI [of _ "Suc 0"])

lemma advances_same_revision:
  "advances n s t \<Longrightarrow> h_revision u = h_revision t \<Longrightarrow> (t = s \<Longrightarrow> u = s) \<Longrightarrow> advances n s u"
  by (auto simp: advances_def)

lemma close_advances: "advances (Suc 0) s (snd (close_active_group s))"
  by (auto simp: close_active_group_def Let_def advances_bump split: option.splits)

lemma expire_advances: "advances (Suc 0) s (snd (expire_group now s))"
  by (auto simp: expire_group_def close_advances split: option.splits)

lemma close_unless_advances: "advances (Suc 0) s (snd (close_group_unless t s))"
  by (auto simp: close_group_unless_def close_advances)

lemmas close_like_advances = close_advances expire_advances close_unless_advances

lemma advances_then_bump: "advances n s t \<Longrightarrow> h_revision u = h_revision t + 1 \<Longrightarrow> advances (Suc n) s u"
  unfolding advances_def
proof (elim exE conjE)
  fix k
  assume "k \<le> n" "h_revision t = h_revision s + word_of_nat k" "h_revision u = h_revision t + 1"
  then show "\<exists>k\<le>Suc n. h_revision u = h_revision s + word_of_nat k \<and> (k = 0 \<longrightarrow> u = s)"
    by (intro exI [of _ "Suc k"]) auto
qed

lemmas advances_one = advances_then_bump [OF advances_refl [of 0]]

lemma revision_frame [simp, frame]:
  "h_revision (bump s) = h_revision s + 1"
  "h_revision (bump_applied s) = h_revision s"
  "h_revision (push_marker src k i g s) = h_revision s + 1"
  "h_revision (push_back d e s) = h_revision s"
  "h_revision (correct L ckey v s) = h_revision s"
  "h_revision (uncorrect obj s) = h_revision s"
  "h_revision (set_stack d es s) = h_revision s"
  "h_revision (remap_group_ids key a b s) = h_revision s"
  "h_revision (push_single ck r ctx m s) = h_revision s"
  "h_revision (remap_changed key old updated s) = h_revision s"
  "h_revision (count_pending_step key s) = h_revision s"
  by (cases d; simp add: bump_def bump_applied_def push_marker_def push_back_def correct_def
      uncorrect_def remap_group_ids_def push_single_def remap_changed_def count_pending_step_def Let_def
      split: option.split prod.split)+

lemma revision_corrections [simp, frame]:
  "h_revision (update_action_corrections L r r' d v s) = h_revision s"
  by (cases "(L, r, r', d, v, s)" rule: update_action_corrections.cases) (auto split: option.splits)

lemma pop_cases:
  obtains (none) "pop_action_entry_id d i key s = (None, s)"
  | (some) e es where "stack d s = es @ [e]" "entry_id e = i" "entry_key e = key"
      "pop_action_entry_id d i key s = (Some e, set_stack d es s)"
proof (cases "last_opt (stack d s)")
  case None
  then show ?thesis using none by (simp add: pop_action_entry_id_def)
next
  case (Some e)
  then have "stack d s = butlast (stack d s) @ [e]"
    by (auto simp: last_opt_def split: if_splits)
  with Some show ?thesis
    using none some by (cases "entry_id e = i \<and> entry_key e = key") (auto simp: pop_action_entry_id_def)
qed

lemma pop_facts:
  assumes "pop_action_entry_id d i key s = (e, s1)"
  shows "h_revision s1 = h_revision s" "e = None \<Longrightarrow> s1 = s"
proof -
  have "h_revision s1 = h_revision s \<and> (e = None \<longrightarrow> s1 = s)"
    using assms by (cases rule: pop_cases [where d = d and s = s and i = i and key = key]) auto
  then show "h_revision s1 = h_revision s" "e = None \<Longrightarrow> s1 = s" by auto
qed

lemma revision_record_of [simp, frame]:
  "h_revision (snd (record_of L p res s)) = h_revision s"
  by (cases "(L, p, res, s)" rule: record_of.cases) (auto simp: Let_def split: option.splits)

lemma begin_group_advances: "advances 2 s (snd (begin_group ck t n src g s))"
  using advances_then_bump [OF close_advances]
  by (simp add: begin_group_def Let_def numeral_2_eq_2)

lemma begin_named_group_advances: "advances 2 s (snd (begin_named_group b ck t n g s))"
proof (cases "generate_secret b")
  case (Inr sec)
  show ?thesis
  proof (cases "begin_group ck t n Mcp g s")
    case (Pair res s1)
    show ?thesis
    proof (cases res)
      case Inl
      with Pair Inr begin_group_advances [of s ck t n Mcp g] show ?thesis
        by (simp add: begin_named_group_def)
    next
      case (Inr u)
      then have "h_revision s1 = h_revision (snd (close_active_group s)) + 1"
        using Pair by (auto simp: begin_group_def Let_def split: if_splits)
      with Pair \<open>generate_secret b = Inr sec\<close> Inr advances_then_bump [OF close_advances]
      show ?thesis by (simp add: begin_named_group_def numeral_2_eq_2)
    qed
  qed
qed (simp add: begin_named_group_def)

lemma end_group_advances: "advances 2 s (snd (end_group now t s))"
proof -
  have "advances (Suc 0 + Suc 0) s (snd (close_active_group (snd (expire_group now s))))"
    by (rule advances_trans [OF expire_advances close_advances])
  moreover have "advances 2 s (snd (expire_group now s))"
    by (rule advances_mono [OF expire_advances]) simp
  ultimately show ?thesis
    by (simp add: end_group_def Let_def split_beta numeral_2_eq_2)
qed

lemma end_named_group_advances: "advances 2 s (snd (end_named_group now sec s))"
proof -
  have "advances (Suc 0 + Suc 0) s (snd (close_active_group (snd (expire_group now s))))"
    by (rule advances_trans [OF expire_advances close_advances])
  moreover have "advances 2 s (snd (expire_group now s))"
    by (rule advances_mono [OF expire_advances]) simp
  ultimately show ?thesis
    by (simp add: end_named_group_def Let_def split_beta numeral_2_eq_2 split: option.splits)
qed

lemma group_boundary_advances: "advances 2 s (snd (group_boundary now sec keep s))"
proof -
  have "advances (Suc 0 + Suc 0) s (snd (close_group_unless t (snd (expire_group now s))))" for t
    by (rule advances_trans [OF expire_advances close_unless_advances])
  then show ?thesis by (simp add: group_boundary_def Let_def numeral_2_eq_2)
qed

lemma pop_bump_advances:
  "advances (Suc 0) s (case pop_action_entry_id d i key s of (None, s1) \<Rightarrow> s1 | (Some e, s1) \<Rightarrow> bump s1)"
  by (cases rule: pop_cases [where d = d and s = s and i = i and key = key]) (auto intro: advances_one)

lemma action_failure_advances:
  "advances (Suc 0) s (finish_action_failure a s)" "advances (Suc 0) s (discard_action a s)"
  by (simp_all only: finish_action_failure_def discard_action_def pop_action_entry_def pop_bump_advances)

lemma action_success_advances: "advances (Suc 0) s (snd (finish_action_success L a src k i g v s))"
proof (cases "pop_action_entry a s")
  case (Pair e s1)
  then have pop: "h_revision s1 = h_revision s" "e = None \<Longrightarrow> s1 = s"
    using pop_facts by (auto simp: pop_action_entry_def)
  show ?thesis
  proof (cases "updated_history_record (ha_record a) (ha_direction a) v")
    case (Inl err)
    then show ?thesis by (simp add: finish_action_success_def action_failure_advances)
  next
    case (Inr updated)
    with Pair pop show ?thesis
      by (cases e) (simp_all add: finish_action_success_def action_failure_advances advances_one)
  qed
qed

lemma group_step_advances: "advances (Suc 0) s (snd (finish_group_step L a st ctx v s))"
proof (cases "pop_action_entry_id (ha_direction a) (st_entry_id st) (gm_key (ha_group a)) s")
  case (Pair e s1)
  note pop = pop_facts [OF Pair]
  show ?thesis
  proof (cases "updated_history_record (st_record st) (ha_direction a) v")
    case (Inl err)
    then show ?thesis by (simp add: finish_group_step_def)
  next
    case (Inr updated)
    show ?thesis
    proof (cases e)
      case None
      with Inr Pair pop show ?thesis by (simp add: finish_group_step_def)
    next
      case (Some e')
      have "h_revision (snd (finish_group_step L a st ctx v s)) = h_revision s + 1" if "accepted v"
        using that Inr Pair Some pop(1)
        by (simp add: finish_group_step_def Let_def)
      then show ?thesis
        by (cases "accepted v") (simp_all add: advances_one finish_group_step_def)
    qed
  qed
qed

lemma push_record_advances:
  "h_revision s = h_revision u + 1 \<Longrightarrow> advances 3 u (push_record ck r ctx s)"
proof -
  assume rev: "h_revision s = h_revision u + 1"
  have single: "advances 3 u (push_single ck r ctx m s)" for m
    by (rule advances_mono [OF advances_one]) (simp_all add: rev)
  have grouped: "advances 3 u (snd (expire_group now t))"
    if "h_revision t = h_revision s \<or> (\<exists>w. t = snd (close_active_group w) \<and> h_revision w = h_revision s)" for now t
  proof -
    have "advances 2 u t"
    proof -
      have one: "advances 1 u w" if "h_revision w = h_revision s" for w
        using advances_one [of w u] that rev by simp
      from that show ?thesis
      proof (elim disjE exE conjE)
        assume "h_revision t = h_revision s"
        from advances_mono [OF one [OF this]] show ?thesis by simp
      next
        fix w
        assume "t = snd (close_active_group w)" "h_revision w = h_revision s"
        with advances_trans [OF one close_advances, of w] show ?thesis by (simp add: numeral_2_eq_2)
      qed
    qed
    from advances_trans [OF this expire_advances] show ?thesis by (simp add: numeral_3_eq_3)
  qed
  show ?thesis
    using single grouped
    by (auto simp: push_record_def push_grouped_def Let_def split: option.splits intro!: grouped)
qed

lemma record_success_advances: "advances 3 s (record_success_in_group L ck p ctx r s)"
proof (cases "accepted (qr_value r)")
  case True
  let ?s1 = "push_marker (oc_source ctx) (oc_kind ctx) (oc_sequence ctx) (oc_generation ctx) (bump_applied s)"
  have other: "advances 3 s (case record_of L p r ?s1 of (None, s2) \<Rightarrow> s2 | (Some x, s2) \<Rightarrow> push_record ck x ctx s2)"
  proof (cases "record_of L p r ?s1")
    case (Pair x s2)
    then have "h_revision s2 = h_revision s + 1"
      using revision_record_of [of L p r ?s1] by simp
    then show ?thesis
      using Pair push_record_advances advances_mono [OF advances_one, of s2 s 3]
      by (cases x) simp_all
  qed
  have delete: "advances 3 s (push_marker src k i g (s\<lparr>h_applied_revision := x, h_corrections := c,
      h_undo := [], h_redo := []\<rparr>))" for src k i g x c
    by (rule advances_mono [OF advances_one]) simp_all
  show ?thesis
    using True other delete
    by (cases p) (simp_all add: record_success_in_group_def Let_def bump_applied_def)
qed (simp add: record_success_in_group_def)

lemma misc_advances:
  "advances (Suc 0) s (synchronize g s)" "advances (Suc 0) s (clear_for_shutdown s)"
  "advances (Suc 0) s (snd (revoke_mcp_group s))" "advances (Suc 0) s (start_pending_group a n u r s)"
  "advances (Suc 0) s (finish_group_failure a n e s)"
  "advances (Suc 0) s (mark_mcp_outcome_unknown w i gen s)"
  "advances (Suc 0) s (clear_completed_pending_group key s)"
  "advances (Suc 0) s (snd (discard_pending_group s))"
  "advances (Suc 0) s (mark_edit_unsupported s)"
  "advances (Suc 0) s (record_untracked_success src k i gen s)"
  by (simp_all add: synchronize_def clear_for_shutdown_def revoke_mcp_group_def start_pending_group_def
      finish_group_failure_def mark_mcp_outcome_unknown_def clear_completed_pending_group_def
      discard_pending_group_def mark_edit_unsupported_def record_untracked_success_def Let_def
      close_advances advances_bump advances_one split: option.split)

lemma exec_advances: "advances 3 s (history_exec L op s)"
  by (cases op)
    (simp_all add: advances_mono [OF misc_advances(1)] advances_mono [OF misc_advances(2)]
      advances_mono [OF misc_advances(3)] advances_mono [OF misc_advances(4)]
      advances_mono [OF misc_advances(5)] advances_mono [OF misc_advances(6)]
      advances_mono [OF misc_advances(7)] advances_mono [OF misc_advances(8)]
      advances_mono [OF misc_advances(9)] advances_mono [OF misc_advances(10)]
      advances_mono [OF begin_group_advances] advances_mono [OF begin_named_group_advances]
      advances_mono [OF end_group_advances] advances_mono [OF end_named_group_advances]
      advances_mono [OF group_boundary_advances] advances_mono [OF close_unless_advances]
      advances_mono [OF expire_advances] advances_mono [OF group_step_advances]
      advances_mono [OF action_success_advances] advances_mono [OF action_failure_advances(1)]
      record_success_advances)

lemma run_advances: "advances (3 * length ops) s (history_run L ops s)"
proof (induction ops arbitrary: s)
  case (Cons op ops)
  have "advances (3 + 3 * length ops) s (history_run L ops (history_exec L op s))"
    by (rule advances_trans [OF exec_advances Cons.IH])
  then show ?case by (simp add: history_run_def)
qed (simp add: history_run_def)

lemma revision_unchanged:
  assumes "3 * length ops < 2 ^ 64" "h_revision (history_run L ops s) = h_revision s"
  shows "history_run L ops s = s"
proof -
  obtain k where k: "k \<le> 3 * length ops" "h_revision (history_run L ops s) = h_revision s + word_of_nat k"
    "k = 0 \<longrightarrow> history_run L ops s = s"
    using run_advances unfolding advances_def by blast
  with assms(2) have "(word_of_nat k :: u64) = 0" by simp
  then have "unat (word_of_nat k :: u64) = 0" by simp
  with k(1) assms(1) have "k = 0" by (simp add: unat_of_nat)
  with k(3) show ?thesis by simp
qed

text \<open>C1: The revision is a version stamp: while fewer than \<open>2^64 / 3\<close> operations run, an operation that
  changes anything of the history changes the revision, and the revision does not come back to an
  earlier value after a change.\<close>

theorem revision_is_version_stamp:
  assumes "3 * length ops < 2 ^ 64"
  shows "h_revision (history_run L ops s) = h_revision s \<longleftrightarrow> history_run L ops s = s"
  using revision_unchanged [OF assms] by metis

theorem revision_is_version_stamp_witness:
  "history_run demo_json_lib [O_mark_edit_unsupported] history_new \<noteq> history_new"
  using revision_is_version_stamp [of "[O_mark_edit_unsupported]" demo_json_lib history_new]
  by (simp add: history_run_def mark_edit_unsupported_def history_new_def)

lemma top_run_nonempty: "es \<noteq> [] \<Longrightarrow> \<exists>rest. top_run (entry_key (last es)) es = entry_step (last es) # rest"
  by (cases es rule: rev_cases) (auto simp: top_run_def)

lemma prepare_action_Some:
  "prepare_action req s = Some a \<longleftrightarrow>
     \<not> h_edit_unsupported s \<and> \<not> h_pending s \<and> ar_expected_revision req = h_revision s
     \<and> visible_stack (ar_direction req) s \<noteq> []
     \<and> ar_expected_head_id req = Some (entry_id (last (visible_stack (ar_direction req) s)))
     \<and> a = (let e = last (visible_stack (ar_direction req) s)
            in \<lparr>ha_direction = ar_direction req, ha_entry_id = entry_id e, ha_record = he_record e,
                ha_group = he_group e, ha_steps = top_run (entry_key e) (visible_stack (ar_direction req) s),
                ha_grouped = gm_named (he_group e)\<rparr>)"
proof (cases "visible_stack (ar_direction req) s = []")
  case True
  then show ?thesis by (auto simp: prepare_action_def last_opt_def split: option.splits)
next
  case False
  from top_run_nonempty [OF this] obtain rest where
    "top_run (entry_key (last (visible_stack (ar_direction req) s))) (visible_stack (ar_direction req) s)
      = entry_step (last (visible_stack (ar_direction req) s)) # rest"
    by blast
  with False show ?thesis
    by (auto simp: prepare_action_def last_opt_def Let_def entry_step_def split: option.splits)
qed

text \<open>A client that acts on a cursor it read earlier acts on the history it saw: if an action can
  be prepared from that cursor after other operations ran, nothing changed in between, and the
  action is the whole run of the group at the top of the stack the client was shown.\<close>

lemma stale_cursor_is_refused:
  assumes "3 * length ops < 2 ^ 64" and "history_cursor d s = (Some i, seen)"
    and "prepare_action \<lparr>ar_direction = d, ar_expected_head_id = Some i, ar_expected_revision = seen\<rparr>
           (history_run L ops s) = Some a"
  shows "history_run L ops s = s \<and> ha_entry_id a = i
     \<and> ha_steps a = top_run (gm_key (ha_group a)) (visible_stack d s)"
proof -
  have "h_revision (history_run L ops s) = h_revision s"
    using assms(2,3) by (auto simp: history_cursor_def prepare_action_Some)
  with revision_unchanged [OF assms(1)] have same: "history_run L ops s = s" by blast
  from assms(3) show ?thesis
    unfolding same prepare_action_Some by (auto simp: Let_def)
qed

definition demo_entry :: "u64 \<Rightarrow> history_record \<Rightarrow> history_entry" where
  "demo_entry i r =
     \<lparr>he_marker = \<lparr>mk_sequence = i, mk_source = Ui, mk_kind = KEdit, mk_generation = 1\<rparr>,
      he_record = r,
      he_group = \<lparr>gm_key = \<lparr>gk_generation = 1, gk_sequence = i\<rparr>, gm_name = summary_name r,
        gm_source = Ui, gm_created_at = 0, gm_count = 1, gm_named = False\<rparr>\<rparr>"

definition demo_history :: "history_entry list \<Rightarrow> history_state" where
  "demo_history es = history_new\<lparr>h_generation := Some 1, h_undo := es\<rparr>"

end
