(* ===== verification/History_Corrections.thy ===== *)
theory History_Corrections
  imports History_Invariants
begin

text \<open>
  Old values. \<open>note_write\<close> is the abstract specification of the corrections: the latest write of
  every property and parent, without bounds and without eviction. Along every run the bounded
  cache is related to it by the interface of \<open>Corrections\<close>, and so \<open>resolve_capture\<close> answers with
  the value the abstract record gives, or refuses.
\<close>

section \<open>The abstract record of writes\<close>

type_synonym writes = "correction_key \<Rightarrow> (u64 \<times> correction_value) option"

fun edit_write :: "prepared_request \<Rightarrow> queued_edit_result \<Rightarrow> (correction_key \<times> correction_value) option" where
  "edit_write (PCreateObject p k) res =
     map_option (\<lambda>i. (ParentKey i, ParentValue p)) (non_empty_new_id (qr_value res))"
| "edit_write (PDuplicateObject c None) res = None"
| "edit_write (PDuplicateObject c (Some p)) res =
     map_option (\<lambda>i. (ParentKey i, ParentValue (Some p))) (non_empty_new_id (qr_value res))"
| "edit_write (PReparentObject i p old) res = Some (ParentKey i, ParentValue p)"
| "edit_write (PSetProperty i n requested old) res =
     Some (PropertyKey i n, PropertyValue
       (case jget ''appliedValue'' (qr_value res) of None \<Rightarrow> requested | Some v \<Rightarrow> v))"
| "edit_write (PDeleteObject i) res = None"

fun action_write :: "history_direction \<Rightarrow> history_record \<Rightarrow> json \<Rightarrow> (correction_key \<times> correction_value) option" where
  "action_write Redo (Create i p k) res =
     map_option (\<lambda>i. (ParentKey i, ParentValue p)) (non_empty_new_id res)"
| "action_write Redo (Duplicate c i (Some p)) res =
     map_option (\<lambda>i. (ParentKey i, ParentValue (Some p))) (non_empty_new_id res)"
| "action_write d (Reparent i p q) res =
     Some (ParentKey i, ParentValue (case d of Undo \<Rightarrow> p | Redo \<Rightarrow> q))"
| "action_write d (SetProperty i n v w) res =
     Some (PropertyKey i n, PropertyValue
       (case jget ''appliedValue'' res of Some u \<Rightarrow> u | None \<Rightarrow> (case d of Undo \<Rightarrow> v | Redo \<Rightarrow> w)))"
| "action_write d r res = None"

text \<open>The write of an operation that takes effect.\<close>

fun op_write :: "history_op \<Rightarrow> history_state \<Rightarrow> (correction_key \<times> correction_value) option" where
  "op_write (O_record_success ck p ctx res) s =
     (if accepted (qr_value res) then edit_write p res else None)"
| "op_write (O_finish_action_success a src k i g v) s =
     (if accepted v \<and> fst (pop_action_entry a s) \<noteq> None then action_write (ha_direction a) (ha_record a) v
      else None)"
| "op_write (O_finish_group_step a st ctx v) s =
     (if accepted v \<and> fst (pop_action_entry_id (ha_direction a) (st_entry_id st) (gm_key (ha_group a)) s) \<noteq> None
      then action_write (ha_direction a) (st_record st) v else None)"
| "op_write op s = None"

fun forgets_all :: "history_op \<Rightarrow> history_state \<Rightarrow> bool" where
  "forgets_all (O_synchronize g) s = (h_generation s \<noteq> g)"
| "forgets_all O_shutdown s = True"
| "forgets_all op s = False"

definition write_at :: "u64 \<Rightarrow> (correction_key \<times> correction_value) option \<Rightarrow> writes \<Rightarrow> writes" where
  "write_at r w latest = (case w of None \<Rightarrow> latest | Some (k, v) \<Rightarrow> latest(k \<mapsto> (r, v)))"

lemma write_at_simps [simp]:
  "write_at r None latest = latest" "write_at r (Some (k, v)) latest = latest(k \<mapsto> (r, v))"
  by (simp_all add: write_at_def)

definition note_write :: "history_op \<Rightarrow> history_state \<Rightarrow> writes \<Rightarrow> writes" where
  "note_write op s latest =
     (if forgets_all op s then Map.empty
      else write_at (h_applied_revision s + 1) (op_write op s) latest)"

inductive traced :: "json_lib \<Rightarrow> nat \<Rightarrow> history_state \<Rightarrow> writes \<Rightarrow> bool" for L where
  traced_new: "traced L 0 history_new Map.empty"
| traced_step: "traced L n s latest \<Longrightarrow> traced L (Suc n) (history_exec L op s) (note_write op s latest)"

section \<open>The relation\<close>

definition writes_upto :: "u64 \<Rightarrow> writes \<Rightarrow> bool" where
  "writes_upto r latest \<longleftrightarrow> (\<forall>k a v. latest k = Some (a, v) \<longrightarrow> a \<le> r)"

definition faithful :: "correction_cache \<Rightarrow> writes \<Rightarrow> u64 \<Rightarrow> bool" where
  "faithful c latest r \<longleftrightarrow> tracks (known c) (cc_lost_through c) latest \<and> writes_upto r latest
     \<and> cc_lost_through c \<le> r"

lemma evict_lost_upto:
  "(\<And>k a v. known c k = Some (a, v) \<Longrightarrow> a \<le> r) \<Longrightarrow> cc_lost_through c \<le> r \<Longrightarrow> cc_lost_through (evict b c) \<le> r"
proof (induction b c rule: evict.induct)
  case (1 b c)
  show ?case
  proof (cases "(length (cc_entries c) \<ge> MAX_CORRECTION_ENTRIES
      \<or> sat_add (cc_bytes c) b > MAX_CORRECTION_BYTES) \<and> oldest_key (cc_entries c) \<noteq> None")
    case False
    with "1.prems" show ?thesis by (auto simp: evict.simps [of b c])
  next
    case True
    then obtain k where k: "oldest_key (cc_entries c) = Some k" by blast
    then obtain e where e: "hm_get (cc_entries c) k = Some e" using oldest_key_in by blast
    let ?d = "cc_mark_lost_through (ce_revision e) (drop_key k c)"
    have step: "evict b c = evict b ?d"
      using True k e by (simp add: evict.simps [of b c] drop_key_def)
    have "ce_revision e \<le> r" using "1.prems"(1) [of k] e by (simp add: known_def cc_get_def)
    moreover have "a \<le> r" if "known ?d j = Some (a, v)" for j a v
      using that "1.prems"(1) [of j a v] by (auto split: if_splits)
    ultimately have "cc_lost_through (evict b ?d) \<le> r"
      using "1.IH"(2) [OF conjunct1 [OF True] k e] "1.prems"(2) e by (simp add: drop_key_def)
    with step show ?thesis by simp
  qed
qed

lemma known_upto: "faithful c latest r \<Longrightarrow> known c k = Some (a, v) \<Longrightarrow> a \<le> r"
  using cs.found_is_latest by (fastforce simp: faithful_def writes_upto_def)

lemma faithful_mono: "faithful c latest r \<Longrightarrow> r \<le> r' \<Longrightarrow> faithful c latest r'"
  by (auto simp: faithful_def writes_upto_def intro: order_trans)

lemma faithful_insert:
  assumes "faithful c latest r"
  shows "faithful (cc_insert L k r v c) (latest(k \<mapsto> (r, v))) r"
proof -
  have "tracks (known (cc_insert L k r v c)) (cc_lost_through (cc_insert L k r v c)) (latest(k \<mapsto> (r, v)))"
    using assms by (intro cs.put_tracks) (simp add: faithful_def)
  moreover have "cc_lost_through (cc_insert L k r v c) \<le> r"
  proof (cases rule: insert_cases [of L k r v c])
    case lost
    with assms show ?thesis by (simp add: faithful_def)
  next
    case (kept b)
    have "cc_lost_through (evict b (drop_key k c)) \<le> r"
      using assms known_upto [OF assms] by (intro evict_lost_upto) (auto simp: faithful_def split: if_splits)
    with kept show ?thesis by (simp add: Let_def)
  qed
  ultimately show ?thesis using assms by (simp add: faithful_def writes_upto_def)
qed

lemma faithful_discard:
  assumes "faithful c latest r"
  shows "faithful (cc_remove_object obj r c) latest r"
proof -
  have "tracks (known (cc_remove_object obj r c)) (cc_lost_through (cc_remove_object obj r c)) latest"
    using assms by (intro cs.discard_tracks) (auto simp: faithful_def writes_upto_def)
  moreover have "cc_lost_through (cc_remove_object obj r c) \<le> r"
    using assms by (simp add: cc_remove_object_def Let_def remove_keys_lost faithful_def)
  ultimately show ?thesis using assms by (simp add: faithful_def)
qed

lemma faithful_clear: "faithful (cc_clear c) Map.empty r"
  by (simp add: faithful_def clear_tracks writes_upto_def) (simp add: cc_clear_def)

lemma faithful_clear_and_mark: "writes_upto r latest \<Longrightarrow> faithful (cc_clear_and_mark_lost_through r c) latest r"
  unfolding faithful_def
  by (intro conjI clear_and_mark_tracks) (auto simp: writes_upto_def cc_clear_and_mark_lost_through_def)

definition state_faithful :: "history_state \<Rightarrow> writes \<Rightarrow> bool" where
  "state_faithful s latest \<longleftrightarrow> faithful (h_corrections s) latest (h_applied_revision s)"

lemma state_faithful_correct:
  "state_faithful s latest \<Longrightarrow> state_faithful (correct L k v s) (latest(k \<mapsto> (h_applied_revision s, v)))"
  by (simp add: state_faithful_def correct_def faithful_insert)

lemma state_faithful_uncorrect: "state_faithful s latest \<Longrightarrow> state_faithful (uncorrect obj s) latest"
  by (simp add: state_faithful_def uncorrect_def faithful_discard)

lemma applied_frame [simp, frame]:
  "h_applied_revision (correct L k v s) = h_applied_revision s"
  "h_applied_revision (uncorrect obj s) = h_applied_revision s"
  "h_applied_revision (bump s) = h_applied_revision s"
  "h_applied_revision (bump_applied s) = h_applied_revision s + 1"
  "h_applied_revision (push_marker src kd i g s) = h_applied_revision s"
  by (simp_all add: correct_def uncorrect_def bump_def bump_applied_def push_marker_def)

lemma state_faithful_frame:
  "h_corrections t = h_corrections s \<Longrightarrow> h_applied_revision t = h_applied_revision s \<Longrightarrow>
    state_faithful t latest = state_faithful s latest"
  by (simp add: state_faithful_def)

lemma state_faithful_next:
  "state_faithful s latest \<Longrightarrow> h_applied_revision s \<noteq> u64_max \<Longrightarrow> state_faithful (bump_applied s) latest"
  by (simp add: state_faithful_def bump_applied_def) (metis faithful_mono less_imp_le u64_succ_gt)

lemma state_faithful_action:
  assumes "state_faithful s latest" "updated_history_record r d res = Inr r'"
  shows "state_faithful (update_action_corrections L r r' d res s)
    (write_at (h_applied_revision s) (action_write d r res) latest)"
proof -
  note un = state_faithful_uncorrect [OF assms(1)]
  note ins = state_faithful_correct [OF assms(1)]
  note both = state_faithful_correct [OF un]
  show ?thesis
  proof (cases r)
    case (Create i p k)
    with assms(2) un both show ?thesis by (cases d) (auto split: option.splits)
  next
    case (Duplicate c i p)
    with assms(2) un both show ?thesis by (cases d; cases p) (auto split: option.splits)
  next
    case (Reparent i p q)
    with assms(2) ins show ?thesis by (cases d) auto
  next
    case (SetProperty i n v w)
    with assms(2) ins show ?thesis by (cases d) auto
  qed
qed

lemma state_faithful_record:
  assumes "state_faithful s latest"
  shows "state_faithful (snd (record_of L p res s)) (write_at (h_applied_revision s) (edit_write p res) latest)"
  using assms state_faithful_correct [OF assms]
  by (cases "(p, res)" rule: edit_write.cases) (auto simp: Let_def split: option.splits)

lemma record_of_delete: "record_of L (PDeleteObject i) res s = (None, s)"
  by simp

section \<open>Every run\<close>

lemma corrections_frame [simp, frame]:
  "h_corrections (bump s) = h_corrections s" "h_corrections (bump_applied s) = h_corrections s"
  "h_corrections (push_marker src k i g s) = h_corrections s"
  "h_corrections (push_back d e s) = h_corrections s" "h_corrections (set_stack d es s) = h_corrections s"
  "h_corrections (remap_changed gkey old updated s) = h_corrections s"
  "h_corrections (count_pending_step gkey s) = h_corrections s"
  "h_corrections (snd (close_active_group s)) = h_corrections s"
  "h_corrections (snd (expire_group now s)) = h_corrections s"
  "h_corrections (snd (close_group_unless t s)) = h_corrections s"
  "h_corrections (push_record ck r ctx s) = h_corrections s"
  "h_applied_revision (push_back d e s) = h_applied_revision s"
  "h_applied_revision (set_stack d es s) = h_applied_revision s"
  "h_applied_revision (remap_changed gkey old updated s) = h_applied_revision s"
  "h_applied_revision (count_pending_step gkey s) = h_applied_revision s"
  "h_applied_revision (snd (close_active_group s)) = h_applied_revision s"
  "h_applied_revision (snd (expire_group now s)) = h_applied_revision s"
  "h_applied_revision (snd (close_group_unless t s)) = h_applied_revision s"
  "h_applied_revision (push_record ck r ctx s) = h_applied_revision s"
  by (cases d; simp add: bump_def bump_applied_def push_marker_def push_back_def
      remap_group_ids_def remap_changed_def count_pending_step_def close_active_group_def
      expire_group_def close_group_unless_def push_record_def push_grouped_def push_single_def Let_def
      split: option.split prod.split)+

lemma pop_frame:
  "pop_action_entry_id d i key s = (e, s1) \<Longrightarrow>
    h_corrections s1 = h_corrections s \<and> h_applied_revision s1 = h_applied_revision s"
  by (cases rule: pop_cases [where d = d and s = s and i = i and key = key]) auto

definition same_corrections :: "history_state \<Rightarrow> history_state \<Rightarrow> bool" where
  "same_corrections s t \<longleftrightarrow> h_corrections t = h_corrections s \<and> h_applied_revision t = h_applied_revision s"

lemma quiet_group_ops:
  "same_corrections s (snd (begin_group ck tk n src g s))"
  "same_corrections s (snd (begin_named_group b ck tk n g s))"
  "same_corrections s (snd (end_group now tk s))"
  "same_corrections s (snd (group_boundary now sec keep s))"
  "same_corrections s (snd (end_named_group now secret s))"
  "same_corrections s (snd (revoke_mcp_group s))"
  "same_corrections s (snd (close_group_unless t s))"
  "same_corrections s (snd (expire_group now s))"
proof -
  show b: "same_corrections s (snd (begin_group ck tk n src g s))" for src
    by (simp add: begin_group_def Let_def same_corrections_def)
  show "same_corrections s (snd (begin_named_group b ck tk n g s))"
    using b [of Mcp] by (cases "begin_group ck tk n Mcp g s")
      (auto simp: begin_named_group_def same_corrections_def split: sum.split)
qed (simp_all add: end_group_def group_boundary_def end_named_group_def revoke_mcp_group_def
    same_corrections_def Let_def split_beta split: option.split)

lemma quiet_action_ops:
  "same_corrections s (start_pending_group a m u r s)" "same_corrections s (finish_group_failure a m err s)"
  "same_corrections s (mark_mcp_outcome_unknown w i g s)" "same_corrections s (clear_completed_pending_group key s)"
  "same_corrections s (snd (discard_pending_group s))" "same_corrections s (mark_edit_unsupported s)"
  "same_corrections s (finish_action_failure a s)"
proof -
  obtain e s1 where pop: "pop_action_entry_id (ha_direction a) (ha_entry_id a) (gm_key (ha_group a)) s = (e, s1)"
    by fastforce
  show "same_corrections s (finish_action_failure a s)"
    using pop pop_frame [OF pop]
    by (auto simp: finish_action_failure_def pop_action_entry_def same_corrections_def split: option.split)
qed (simp_all add: start_pending_group_def finish_group_failure_def mark_mcp_outcome_unknown_def
    clear_completed_pending_group_def discard_pending_group_def mark_edit_unsupported_def
    same_corrections_def Let_def split: option.split)

lemma step_record_success:
  assumes "state_faithful s latest" "h_applied_revision s \<noteq> u64_max"
  shows "state_faithful (record_success_in_group L ck p ctx res s)
    (note_write (O_record_success ck p ctx res) s latest)"
proof (cases "accepted (qr_value res)")
  case False
  with assms show ?thesis by (simp add: record_success_in_group_def note_write_def)
next
  case True
  let ?s1 = "push_marker (oc_source ctx) (oc_kind ctx) (oc_sequence ctx) (oc_generation ctx) (bump_applied s)"
  obtain x s2 where r: "record_of L p res ?s1 = (x, s2)" by fastforce
  have "state_faithful ?s1 latest"
    using state_faithful_next [OF assms] by (simp add: state_faithful_def)
  from state_faithful_record [OF this, of L p res]
  have "state_faithful s2 (write_at (h_applied_revision s + 1) (edit_write p res) latest)"
    by (simp add: r)
  then have other: "state_faithful (case record_of L p res ?s1 of (None, s2) \<Rightarrow> s2 | (Some x, s2) \<Rightarrow> push_record ck x ctx s2)
      (write_at (h_applied_revision s + 1) (edit_write p res) latest)"
    unfolding r by (cases x) (simp_all add: state_faithful_def)
  have "writes_upto (h_applied_revision s + 1) latest"
    using state_faithful_next [OF assms] by (simp add: state_faithful_def faithful_def)
  then have "state_faithful (record_success_in_group L ck (PDeleteObject i) ctx res s) latest" for i
    using True by (simp add: record_success_in_group_def Let_def state_faithful_def faithful_clear_and_mark)
  with other True show ?thesis
    by (cases p) (simp_all add: record_success_in_group_def Let_def note_write_def split: option.split)
qed

lemma step_action:
  assumes "state_faithful s latest" "h_applied_revision s \<noteq> u64_max"
    and pop: "pop_action_entry_id d i key s = (e, s1)"
    and upd: "updated_history_record r d res = Inr r'"
  shows "state_faithful (update_action_corrections L r r' d res (bump_applied s1))
    (write_at (h_applied_revision s + 1) (action_write d r res) latest)"
proof -
  have "state_faithful (bump_applied s1) latest" "h_applied_revision s1 = h_applied_revision s"
    using state_faithful_next [OF assms(1,2)] pop_frame [OF pop] by (simp_all add: state_faithful_def)
  with state_faithful_action [OF _ upd, of "bump_applied s1" latest L] show ?thesis by simp
qed

lemma action_write_error: "updated_history_record r d res = Inl e \<Longrightarrow> action_write d r res = None"
  by (cases "(r, d, res)" rule: updated_history_record.cases; cases "rec_parent r") (auto split: option.splits)

lemma applied_corrections [simp]:
  "h_applied_revision (update_action_corrections L r r' d v s) = h_applied_revision s"
  by (cases "(L, r, r', d, v, s)" rule: update_action_corrections.cases) (auto split: option.splits)

lemma step_action_success:
  assumes "state_faithful s latest" "h_applied_revision s \<noteq> u64_max"
  shows "state_faithful (snd (finish_action_success L a src k i g v s))
    (note_write (O_finish_action_success a src k i g v) s latest)"
proof -
  obtain e s1 where pop: "pop_action_entry a s = (e, s1)" by fastforce
  note pop' = pop [unfolded pop_action_entry_def]
  have discard: "state_faithful (discard_action a s) latest"
    using assms(1) pop pop_frame [OF pop']
    by (auto simp: discard_action_def state_faithful_def split: option.split)
  show ?thesis
  proof (cases "updated_history_record (ha_record a) (ha_direction a) v")
    case (Inl err)
    with discard show ?thesis
      by (simp add: finish_action_success_def note_write_def action_write_error split: option.split)
  next
    case (Inr r')
    have "state_faithful s1 latest" using assms(1) pop_frame [OF pop'] by (simp add: state_faithful_def)
    with discard Inr pop step_action [OF assms pop' Inr, of L] show ?thesis
      by (cases e; cases "accepted v")
        (simp_all add: finish_action_success_def note_write_def state_faithful_def split: option.split)
  qed
qed

lemma step_group_step:
  assumes "state_faithful s latest" "h_applied_revision s \<noteq> u64_max"
  shows "state_faithful (snd (finish_group_step L a st ctx v s))
    (note_write (O_finish_group_step a st ctx v) s latest)"
proof -
  obtain e s1 where pop: "pop_action_entry_id (ha_direction a) (st_entry_id st) (gm_key (ha_group a)) s = (e, s1)"
    by fastforce
  show ?thesis
  proof (cases "updated_history_record (st_record st) (ha_direction a) v")
    case (Inl err)
    with assms show ?thesis
      by (simp add: finish_group_step_def note_write_def action_write_error split: option.split)
  next
    case (Inr r')
    have "state_faithful s1 latest" using assms(1) pop_frame [OF pop] by (simp add: state_faithful_def)
    with assms Inr pop step_action [OF assms pop Inr, of L] show ?thesis
      by (cases e; cases "accepted v")
        (simp_all add: finish_group_step_def note_write_def state_faithful_def Let_def split: option.split)
  qed
qed

lemma state_faithful_same: "same_corrections s t \<Longrightarrow> state_faithful s latest \<Longrightarrow> state_faithful t latest"
  by (simp add: same_corrections_def state_faithful_def)

lemma state_faithful_exec:
  assumes "state_faithful s latest" "h_applied_revision s \<noteq> u64_max"
  shows "state_faithful (history_exec L op s) (note_write op s latest)"
proof (cases op)
  case (O_synchronize g)
  with assms show ?thesis
    by (simp add: synchronize_def note_write_def state_faithful_def faithful_clear)
next
  case O_shutdown
  with assms show ?thesis
    by (simp add: clear_for_shutdown_def note_write_def state_faithful_def faithful_clear)
next
  case (O_record_untracked_success src k i g)
  with state_faithful_next [OF assms] show ?thesis
    by (simp add: record_untracked_success_def note_write_def state_faithful_def)
next
  case (O_record_success ck p ctx r)
  with step_record_success [OF assms] show ?thesis by simp
next
  case (O_finish_action_success a src k i g v)
  with step_action_success [OF assms] show ?thesis by simp
next
  case (O_finish_group_step a st ctx v)
  with step_group_step [OF assms] show ?thesis by simp
qed (simp_all add: note_write_def state_faithful_same [OF _ assms(1)] quiet_group_ops quiet_action_ops)

lemma unat_succ_le: "unat (x + 1 :: u64) \<le> Suc (unat x)"
proof (cases "x = u64_max")
  case False
  then have "x < x + 1" by (rule u64_succ_gt)
  then have "unat (x + 1) = unat x + unat (1 :: u64)"
    by (simp add: unat_word_ariths word_less_nat_alt)
  then show ?thesis by simp
qed (simp add: u64_max_def)

lemma applied_record_of [simp]: "h_applied_revision (snd (record_of L p r s)) = h_applied_revision s"
  by (cases "(L, p, r, s)" rule: record_of.cases) (auto simp: Let_def split: option.splits)

definition applied_steps :: "history_state \<Rightarrow> history_state \<Rightarrow> bool" where
  "applied_steps s t \<longleftrightarrow> h_applied_revision t = h_applied_revision s
     \<or> h_applied_revision t = h_applied_revision s + 1 \<or> h_applied_revision t = 0"

lemma applied_exec: "applied_steps s (history_exec L op s)"
proof (cases op)
  case (O_synchronize g)
  then show ?thesis by (simp add: synchronize_def applied_steps_def)
next
  case O_shutdown
  then show ?thesis by (simp add: clear_for_shutdown_def applied_steps_def)
next
  case (O_record_untracked_success src k i g)
  then show ?thesis by (simp add: record_untracked_success_def applied_steps_def)
next
  case (O_record_success ck p ctx r)
  let ?s1 = "push_marker (oc_source ctx) (oc_kind ctx) (oc_sequence ctx) (oc_generation ctx) (bump_applied s)"
  obtain x s2 where rec: "record_of L p r ?s1 = (x, s2)" by fastforce
  with applied_record_of [of L p r ?s1] have "h_applied_revision s2 = h_applied_revision s + 1" by simp
  with rec O_record_success show ?thesis
    by (cases p; cases x) (simp_all add: record_success_in_group_def Let_def applied_steps_def)
next
  case (O_finish_action_success a src k i g v)
  obtain e s1 where pop: "pop_action_entry a s = (e, s1)" by fastforce
  from pop_frame [OF pop [unfolded pop_action_entry_def]] pop O_finish_action_success show ?thesis
    by (auto simp: finish_action_success_def discard_action_def applied_steps_def
        split: sum.split option.split)
next
  case (O_finish_group_step a st ctx v)
  obtain e s1 where pop: "pop_action_entry_id (ha_direction a) (st_entry_id st) (gm_key (ha_group a)) s = (e, s1)"
    by fastforce
  from pop_frame [OF pop] pop O_finish_group_step show ?thesis
    by (auto simp: finish_group_step_def Let_def applied_steps_def split: sum.split option.split)
qed (simp_all add: quiet_group_ops [unfolded same_corrections_def]
    quiet_action_ops [unfolded same_corrections_def] applied_steps_def)

lemma traced_faithful:
  "traced L n s latest \<Longrightarrow> n < 2 ^ 64 \<Longrightarrow> state_faithful s latest \<and> unat (h_applied_revision s) \<le> n"
proof (induction rule: traced.induct)
  case traced_new
  then show ?case
    by (simp add: state_faithful_def history_new_def faithful_def tracks_def forgets_def known_def
        cc_get_def cc_new_def writes_upto_def)
next
  case (traced_step n s latest op)
  then have ih: "state_faithful s latest" "unat (h_applied_revision s) \<le> n" by simp_all
  with traced_step.prems have "h_applied_revision s \<noteq> u64_max" by (auto simp: unat_u64_max)
  with ih have "state_faithful (history_exec L op s) (note_write op s latest)"
    by (intro state_faithful_exec)
  moreover have "unat (h_applied_revision (history_exec L op s)) \<le> Suc n"
    using applied_exec [of s L op] ih(2) unat_succ_le [of "h_applied_revision s"]
    by (auto simp: applied_steps_def)
  ultimately show ?case by simp
qed

section \<open>Captures\<close>

text \<open>The value a key has according to the writes after the capture, or else the captured one.\<close>

definition current_value :: "writes \<Rightarrow> correction_key \<Rightarrow> 'a history_capture \<Rightarrow> (correction_value \<Rightarrow> 'a option) \<Rightarrow> 'a option" where
  "current_value latest key capture f =
     (case latest key of
       Some (r, w) \<Rightarrow> if r > hc_revision capture then f w else hc_value capture
     | None \<Rightarrow> hc_value capture)"

text \<open>C2: An old value is never stale: along every run of fewer than \<open>2^64\<close> operations, a value that
  \<open>resolve_capture\<close> returns is the value of the latest write of that property or parent if one came
  after the capture, and the captured value otherwise, although the cache is bounded and evicts.\<close>

theorem resolved_value_is_current:
  assumes "traced L n s latest" and "n < 2 ^ 64"
    and "resolve_capture key capture source generation f s = Inr (Some v)"
  shows "current_value latest key capture f = Some v"
proof -
  have "tracks (known (h_corrections s)) (cc_lost_through (h_corrections s)) latest"
    using traced_faithful [OF assms(1,2)] by (simp add: state_faithful_def faithful_def)
  note found = cs.found_is_latest [OF this] and unfound = cs.unfound_is_old [OF this]
  show ?thesis
  proof (cases "cc_get (h_corrections s) key")
    case None
    then have "known (h_corrections s) key = None" by (simp add: known_def)
    from assms(3) None have v: "hc_value capture = Some v"
      "\<not> hc_revision capture < cc_lost_through (h_corrections s)"
      by (auto simp: resolve_capture_def split: if_splits)
    have "\<not> r > hc_revision capture" if "latest key = Some (r, w)" for r w
      using unfound [OF \<open>known (h_corrections s) key = None\<close> that] v(2) by simp
    with v(1) show ?thesis by (auto simp: current_value_def split: option.split)
  next
    case (Some e)
    then have "latest key = Some (ce_revision e, ce_value e)" by (intro found) (simp add: known_def)
    with Some assms(3) show ?thesis
      by (auto simp: resolve_capture_def current_value_def split: if_splits option.splits)
  qed
qed

text \<open>A capture taken at the newest applied revision is never refused and never replaced: the
  value the screen shows now is the old value that is recorded.\<close>

lemma fresh_capture_is_accepted:
  assumes "traced L n s latest" and "n < 2 ^ 64"
    and "h_generation s = Some g" and "hc_generation capture = g"
    and "hc_revision capture = h_applied_revision s"
  shows "resolve_capture key capture Ui g f s = Inr (hc_value capture)"
proof -
  have faith: "faithful (h_corrections s) latest (h_applied_revision s)"
    using traced_faithful [OF assms(1,2)] by (simp add: state_faithful_def)
  then have lost: "\<not> h_applied_revision s < cc_lost_through (h_corrections s)"
    by (simp add: faithful_def not_less)
  have "\<not> h_applied_revision s < ce_revision e" if "cc_get (h_corrections s) key = Some e" for e
    using known_upto [OF faith, of key "ce_revision e" "ce_value e"] that by (simp add: known_def not_less)
  with lost assms show ?thesis by (simp add: resolve_capture_def split: option.split)
qed

section \<open>A run with one property edit\<close>

definition demo_ops :: "history_op list" where
  "demo_ops = [O_synchronize (Some 1),
     O_record_success \<lparr>ck_first = 0, ck_second = 0, ck_wall = None\<rparr>
       (PSetProperty ''a'' ''x'' (JBool True) (Some JNull))
       \<lparr>oc_source = Ui, oc_kind = KEdit, oc_sequence = 7, oc_generation = 1, oc_group_token = None\<rparr>
       \<lparr>qr_value = JObject [(''accepted'', JBool True)], qr_prior = None\<rparr>]"

definition demo_traced :: history_state where
  "demo_traced = history_run demo_json_lib demo_ops history_new"

definition demo_writes :: writes where
  "demo_writes = [PropertyKey ''a'' ''x'' \<mapsto> (1, PropertyValue (JBool True))]"

lemma demo_is_traced: "traced demo_json_lib 2 demo_traced demo_writes"
proof -
  let ?s = "history_exec demo_json_lib (hd demo_ops) history_new"
  have "traced demo_json_lib (Suc 0) ?s Map.empty"
    using traced_step [OF traced_new, of demo_json_lib "hd demo_ops"]
    by (simp add: demo_ops_def note_write_def history_new_def)
  from traced_step [OF this, of "demo_ops ! 1"] show ?thesis
    by (simp add: demo_ops_def demo_traced_def history_run_def note_write_def demo_writes_def
        accepted_def synchronize_def history_new_def bump_def numeral_2_eq_2)
qed

lemma demo_known:
  "cc_get (h_corrections demo_traced) (PropertyKey ''a'' ''x'') = Some
     \<lparr>ce_revision = 1, ce_value = PropertyValue (JBool True), ce_byte_len = 3\<rparr>"
  "h_generation demo_traced = Some 1" "h_applied_revision demo_traced = 1"
  by (simp_all add: demo_traced_def history_run_def demo_ops_def synchronize_def history_new_def bump_def
      record_success_in_group_def accepted_def push_marker_def bump_applied_def correct_def opt_or_def
      property_values_equal_def push_record_def push_single_def cc_insert_def cc_clear_def cc_new_def
      checked_add_def sat_add_def demo_json_lib_def evict.simps max_defs cc_get_def Let_def numeral_3_eq_3)

theorem resolved_value_is_current_witness:
  "current_value demo_writes (PropertyKey ''a'' ''x'')
     \<lparr>hc_generation = 1, hc_revision = 0, hc_value = Some JNull\<rparr> as_property = Some (JBool True)"
  by (rule resolved_value_is_current [OF demo_is_traced, where source = Ui and generation = 1])
    (simp_all add: resolve_capture_def demo_known)

theorem fresh_capture_is_accepted_witness:
  "resolve_capture (PropertyKey ''a'' ''x'')
     \<lparr>hc_generation = 1, hc_revision = 1, hc_value = Some (JBool True)\<rparr> Ui 1 as_property demo_traced
     = Inr (Some (JBool True))"
  using fresh_capture_is_accepted [OF demo_is_traced, of 1
      "\<lparr>hc_generation = 1, hc_revision = 1, hc_value = Some (JBool True)\<rparr>"]
  by (simp add: demo_known)

end
