(* ===== verification/History_Edits.thy ===== *)
theory History_Edits
  imports History_Ops
begin

text \<open>
  What the operations of the history do to the two stacks: an undo followed by a redo, one step
  of a group action with the renaming of recreated objects, the closing of a group, a recorded
  edit, a deletion, the group boundary and the discard of a partial group.
\<close>

section \<open>Stacks\<close>

fun opposite :: "history_direction \<Rightarrow> history_direction" where
  "opposite Undo = Redo"
| "opposite Redo = Undo"

lemma stack_set_stack [simp]:
  "stack d (set_stack d es s) = es" "stack (opposite d) (set_stack d es s) = stack (opposite d) s"
  by (cases d; simp)+

lemma stack_push_back [simp]:
  "stack (opposite d) (push_back d e s) = stack (opposite d) s @ [e]" "stack d (push_back d e s) = stack d s"
  by (cases d; simp add: push_back_def)+

lemma stack_frame [simp]:
  "stack d (bump s) = stack d s" "stack d (bump_applied s) = stack d s"
  "stack d (push_marker src k i g s) = stack d s" "stack d (correct L ckey v s) = stack d s"
  "stack d (uncorrect obj s) = stack d s"
  by (cases d; simp add: bump_def bump_applied_def push_marker_def correct_def uncorrect_def)+

lemma corrections_only [simp, frame]:
  "h_undo (update_action_corrections L r r' d' v s) = h_undo s"
  "h_redo (update_action_corrections L r r' d' v s) = h_redo s"
  "h_active_group (update_action_corrections L r r' d' v s) = h_active_group s"
  "h_pending (update_action_corrections L r r' d' v s) = h_pending s"
  "h_edit_unsupported (update_action_corrections L r r' d' v s) = h_edit_unsupported s"
  "h_pending_group (update_action_corrections L r r' d' v s) = h_pending_group s"
  "h_generation (update_action_corrections L r r' d' v s) = h_generation s"
  by (cases "(L, r, r', d', v, s)" rule: update_action_corrections.cases;
      auto simp: correct_def uncorrect_def split: option.splits)+

lemma stack_corrections [simp]: "stack d (update_action_corrections L r r' d' v s) = stack d s"
  by (cases d) simp_all

lemma stack_count_pending [simp]: "stack d (count_pending_step key s) = stack d s"
  by (cases d) (auto simp: count_pending_step_def Let_def split: option.splits)

lemma last_opt_snoc [simp]: "last_opt (es @ [e]) = Some e"
  by (simp add: last_opt_def)

lemma last_opt_Some: "last_opt es = Some e \<longleftrightarrow> (\<exists>es'. es = es' @ [e])"
  by (cases es rule: rev_cases) (auto simp: last_opt_def)

definition visible_free :: "history_direction \<Rightarrow> history_state \<Rightarrow> bool" where
  "visible_free d s \<longleftrightarrow> d = Redo \<or> h_active_group s = None"

lemma visible_stack_free: "visible_free d s \<Longrightarrow> visible_stack d s = stack d s"
  by (cases d) (auto simp: visible_free_def)

lemma top_run_snoc: "top_run key (es @ [e]) = (if entry_key e = key then entry_step e # top_run key es else [])"
  by (simp add: top_run_def)

lemma pop_snoc:
  "stack d s = es @ [e] \<Longrightarrow> pop_action_entry_id d (entry_id e) (entry_key e) s = (Some e, set_stack d es s)"
  by (simp add: pop_action_entry_id_def)

text \<open>The action of a current cursor.\<close>

definition current_request :: "history_direction \<Rightarrow> history_state \<Rightarrow> history_action_request" where
  "current_request d s = \<lparr>ar_direction = d, ar_expected_head_id = fst (history_cursor d s),
     ar_expected_revision = snd (history_cursor d s)\<rparr>"

lemma prepare_current:
  assumes "visible_stack d s = es @ [e]" "\<not> h_edit_unsupported s" "\<not> h_pending s"
  shows "prepare_action (current_request d s) s = Some \<lparr>ha_direction = d, ha_entry_id = entry_id e,
      ha_record = he_record e, ha_group = he_group e,
      ha_steps = top_run (entry_key e) (es @ [e]), ha_grouped = gm_named (he_group e)\<rparr>"
  using assms
  by (simp add: prepare_action_def current_request_def history_cursor_def top_run_snoc entry_step_def)

section \<open>A single undo and its redo\<close>

lemma updated_undo [simp]: "updated_history_record r Undo v = Inr r"
  by (cases r) auto

lemma finish_success_effect:
  assumes "stack (ha_direction a) s = es @ [e]" "ha_entry_id a = entry_id e" "gm_key (ha_group a) = entry_key e"
    and "accepted v" "updated_history_record (ha_record a) (ha_direction a) v = Inr r"
  shows "\<exists>t. finish_action_success L a src k i g v s = (Inr True, t)
     \<and> stack (ha_direction a) t = es
     \<and> stack (opposite (ha_direction a)) t = stack (opposite (ha_direction a)) s @ [e\<lparr>he_record := r\<rparr>]
     \<and> h_active_group t = h_active_group s \<and> h_pending t = h_pending s
     \<and> h_edit_unsupported t = h_edit_unsupported s \<and> h_pending_group t = h_pending_group s"
  using assms pop_snoc [OF assms(1)]
  by (cases "ha_direction a")
    (simp_all add: finish_action_success_def pop_action_entry_def push_back_def push_marker_def bump_def bump_applied_def)

text \<open>What an accepted undo and the redo of it do to the top entry \<open>e\<close> of the undo stack.\<close>

lemma undo_redo_effect:
  assumes undo: "h_undo s = es @ [e]" and free: "h_active_group s = None" "\<not> h_edit_unsupported s" "\<not> h_pending s"
    and acc: "accepted v" "accepted w" and upd: "updated_history_record (he_record e) Redo w = Inr r"
  shows "\<exists>a s1 b s2. prepare_action (current_request Undo s) s = Some a
     \<and> finish_action_success L a src k i g v s = (Inr True, s1)
     \<and> h_undo s1 = es \<and> h_redo s1 = h_redo s @ [e]
     \<and> prepare_action (current_request Redo s1) s1 = Some b
     \<and> finish_action_success L b src' k' i' g' w s1 = (Inr True, s2)
     \<and> h_undo s2 = es @ [e\<lparr>he_record := r\<rparr>] \<and> h_redo s2 = h_redo s"
proof -
  have vis: "visible_stack Undo s = es @ [e]" using undo free(1) by simp
  define a where "a = the (prepare_action (current_request Undo s) s)"
  have a: "prepare_action (current_request Undo s) s = Some a"
    "ha_direction a = Undo" "ha_entry_id a = entry_id e" "ha_record a = he_record e" "ha_group a = he_group e"
    using prepare_current [OF vis free(2,3)] by (simp_all add: a_def)
  from finish_success_effect [of a s es e v "he_record e" L src k i g] a undo acc
  obtain s1 where s1: "finish_action_success L a src k i g v s = (Inr True, s1)"
    "h_undo s1 = es" "h_redo s1 = h_redo s @ [e]"
    "h_active_group s1 = None" "\<not> h_edit_unsupported s1" "\<not> h_pending s1"
    using free by auto
  have vis1: "visible_stack Redo s1 = h_redo s @ [e]" using s1 by simp
  define b where "b = the (prepare_action (current_request Redo s1) s1)"
  have b: "prepare_action (current_request Redo s1) s1 = Some b"
    "ha_direction b = Redo" "ha_entry_id b = entry_id e" "ha_record b = he_record e" "ha_group b = he_group e"
    using prepare_current [OF vis1 s1(5,6)] by (simp_all add: b_def)
  from finish_success_effect [of b s1 "h_redo s" e w r L src' k' i' g'] b s1 acc upd
  obtain s2 where "finish_action_success L b src' k' i' g' w s1 = (Inr True, s2)"
    "h_undo s2 = es @ [e\<lparr>he_record := r\<rparr>]" "h_redo s2 = h_redo s" by auto
  with a(1) s1 b(1) show ?thesis by blast
qed

text \<open>An accepted undo of the newest entry and an accepted redo of it put both stacks back: the entry
  returns to the top of the undo stack and the redo stack is what it was. Only the record of
  a recreated object differs, by the identifier the engine gave it this time.\<close>

lemma undo_redo_restores_stacks:
  assumes "h_undo s = es @ [e]" "h_active_group s = None" "\<not> h_edit_unsupported s" "\<not> h_pending s"
    and "accepted v" "accepted w" "updated_history_record (he_record e) Redo w = Inr r"
    and "prepare_action (current_request Undo s) s = Some a"
    and "finish_action_success L a src k i g v s = (res1, s1)"
    and "prepare_action (current_request Redo s1) s1 = Some b"
    and "finish_action_success L b src' k' i' g' w s1 = (res2, s2)"
  shows "res1 = Inr True \<and> res2 = Inr True
     \<and> h_undo s2 = butlast (h_undo s) @ [(last (h_undo s))\<lparr>he_record := r\<rparr>] \<and> h_redo s2 = h_redo s"
  using undo_redo_effect [OF assms(1-7), of L src k i g src' k' i' g'] assms(1,8-11) by auto

definition yes :: json where
  "yes = JObject [(''accepted'', JBool True), (''newId'', JString ''b'')]"

lemma accepted_yes [simp]: "accepted yes"
  by (simp add: accepted_def yes_def)

theorem undo_redo_restores_stacks_witness:
  "\<exists>s2 :: history_state. h_undo s2 = [(demo_entry 7 (Create ''a'' None None))\<lparr>he_record := Create ''b'' None None\<rparr>]
     \<and> h_redo s2 = []"
proof -
  let ?e = "demo_entry 7 (Create ''a'' None None)"
  let ?s = "demo_history [?e]"
  have pre: "h_undo ?s = [] @ [?e]" "h_active_group ?s = None" "\<not> h_edit_unsupported ?s" "\<not> h_pending ?s"
    by (simp_all add: demo_history_def history_new_def)
  have upd: "updated_history_record (he_record ?e) Redo yes = Inr (Create ''b'' None None)"
    by (simp add: demo_entry_def yes_def non_empty_new_id_def)
  note facts = undo_redo_effect [OF pre accepted_yes accepted_yes upd, of demo_json_lib Ui KUndo 1 1 Ui KRedo 2 1]
  then obtain a s1 b s2 where "prepare_action (current_request Undo ?s) ?s = Some a"
    "finish_action_success demo_json_lib a Ui KUndo 1 1 yes ?s = (Inr True, s1)"
    "prepare_action (current_request Redo s1) s1 = Some b"
    "finish_action_success demo_json_lib b Ui KRedo 2 1 yes s1 = (Inr True, s2)" by blast
  from undo_redo_restores_stacks [OF pre accepted_yes accepted_yes upd this] show ?thesis
    by (intro exI [of _ s2]) (simp add: demo_history_def history_new_def)
qed

section \<open>One step of a group action\<close>

definition renaming :: "group_key \<Rightarrow> history_record \<Rightarrow> history_record \<Rightarrow> history_entry \<Rightarrow> history_entry" where
  "renaming key old updated =
     (case changed_created_id old updated of None \<Rightarrow> id | Some (a, b) \<Rightarrow> on_group key a b)"

lemma stack_remap [simp]: "stack d (remap_changed key old updated s) = map (renaming key old updated) (stack d s)"
  by (cases d) (auto simp: remap_changed_def renaming_def remap_group_ids_def split: option.splits)

lemma has_group_on_stack_iff: "has_group_on_stack d key s \<longleftrightarrow> key \<in> entry_key ` set (stack d s)"
  by (auto simp: has_group_on_stack_def list_ex_iff)

lemma key_renaming [simp]: "entry_key (renaming key old updated e) = entry_key e"
  "entry_id (renaming key old updated e) = entry_id e"
  by (auto simp: renaming_def on_group_def split: option.splits)

lemma renaming_undo [simp]: "renaming key r r = id"
  by (cases r) (auto simp: renaming_def)

lemma remap_fields [simp, frame]:
  "h_generation (remap_changed key old updated s) = h_generation s"
  "h_pending (remap_changed key old updated s) = h_pending s"
  "h_pending_group (remap_changed key old updated s) = h_pending_group s"
  "h_edit_unsupported (remap_changed key old updated s) = h_edit_unsupported s"
  by (auto simp: remap_changed_def remap_group_ids_def split: option.splits)

text \<open>
  An accepted step moves its entry from the top of its stack to the top of the other one, with
  the record the answer gives, and renames the rest of the group on both stacks.
\<close>

lemma finish_step_effect:
  assumes "stack (ha_direction a) s = es @ [e]" "st_entry_id st = entry_id e" "gm_key (ha_group a) = entry_key e"
    and "accepted v" "updated_history_record (st_record st) (ha_direction a) v = Inr r"
  shows "\<exists>t. finish_group_step L a st ctx v s = (Inr True, t)
     \<and> stack (ha_direction a) t = map (renaming (entry_key e) (st_record st) r) es
     \<and> stack (opposite (ha_direction a)) t
         = map (renaming (entry_key e) (st_record st) r) (stack (opposite (ha_direction a)) s) @ [e\<lparr>he_record := r\<rparr>]
     \<and> h_generation t = h_generation s \<and> h_edit_unsupported t = h_edit_unsupported s
     \<and> (h_pending_group s = None \<longrightarrow> h_pending_group t = None \<and> h_pending t = h_pending s)"
proof -
  define s4 where "s4 = push_back (ha_direction a) (e\<lparr>he_record := r\<rparr>)
      (push_marker (oc_source ctx) (oc_kind ctx) (oc_sequence ctx) (oc_generation ctx)
        (remap_changed (entry_key e) (st_record st) r
          (update_action_corrections L (st_record st) r (ha_direction a) v
            (bump_applied (set_stack (ha_direction a) es s)))))"
  have fin: "finish_group_step L a st ctx v s = (Inr True, count_pending_step (entry_key e) s4)"
    using assms pop_snoc [OF assms(1)] by (simp add: finish_group_step_def s4_def)
  have st: "stack (ha_direction a) s4 = map (renaming (entry_key e) (st_record st) r) es"
    "stack (opposite (ha_direction a)) s4
       = map (renaming (entry_key e) (st_record st) r) (stack (opposite (ha_direction a)) s) @ [e\<lparr>he_record := r\<rparr>]"
    by (simp_all add: s4_def)
  have same: "h_generation s4 = h_generation s" "h_edit_unsupported s4 = h_edit_unsupported s"
    "h_pending_group s4 = h_pending_group s" "h_pending s4 = h_pending s"
    by (cases "ha_direction a"; simp add: s4_def push_back_def push_marker_def bump_def bump_applied_def)+
  have "h_generation (count_pending_step k s4) = h_generation s4"
    "h_edit_unsupported (count_pending_step k s4) = h_edit_unsupported s4"
    "h_pending_group s4 = None \<Longrightarrow> count_pending_step k s4 = s4" for k
    by (auto simp: count_pending_step_def Let_def split: option.splits)
  with fin st same show ?thesis by auto
qed

text \<open>The identifiers a record mentions.\<close>

fun record_ids :: "history_record \<Rightarrow> string set" where
  "record_ids (Create i p k) = insert i (set_option p)"
| "record_ids (Duplicate c i p) = insert c (insert i (set_option p))"
| "record_ids (Reparent i p q) = insert i (set_option p \<union> set_option q)"
| "record_ids (SetProperty i n v w) = {i}"

lemma replaced_ids: "a \<noteq> b \<Longrightarrow> a \<notin> record_ids (replace_record_ids a b r)"
  by (cases r) (auto simp: replace_id_def split: if_splits)

lemma renamed_away:
  assumes "changed_created_id old r = Some (a, b)" "entry_key x = key"
  shows "a \<notin> record_ids (he_record (renaming key old r x))"
proof -
  have "a \<noteq> b" using assms(1) by (cases "(old, r)" rule: changed_created_id.cases) (auto split: if_splits)
  with assms show ?thesis by (simp add: renaming_def on_group_def replaced_ids)
qed

text \<open>When a redo recreates an object under a new identifier, no other entry of the group on either
  stack still mentions the old one, so the following steps address the new object.\<close>

lemma redo_renames_group:
  assumes "finish_group_step L a st ctx v s = (Inr True, t)" "ha_direction a = Redo"
    and "updated_history_record (st_record st) Redo v = Inr r"
    and "changed_created_id (st_record st) r = Some (old_id, new_id)"
    and "x \<in> set (h_redo t @ butlast (h_undo t))" "entry_key x = gm_key (ha_group a)"
  shows "old_id \<notin> record_ids (he_record x)"
proof -
  have acc: "accepted v" using assms(1) by (auto simp: finish_group_step_def split: if_splits)
  obtain e es where pop: "h_redo s = es @ [e]" "entry_id e = st_entry_id st" "entry_key e = gm_key (ha_group a)"
    using assms(1,2,3) acc
    by (cases rule: pop_cases [where d = Redo and s = s and i = "st_entry_id st" and key = "gm_key (ha_group a)"])
      (auto simp: finish_group_step_def)
  let ?f = "renaming (gm_key (ha_group a)) (st_record st) r"
  obtain t' where "finish_group_step L a st ctx v s = (Inr True, t')"
    "h_redo t' = map ?f es" "h_undo t' = map ?f (h_undo s) @ [e\<lparr>he_record := r\<rparr>]"
    using finish_step_effect [of a s es e st v r L ctx] pop acc assms(2,3) by auto
  with assms(1,5) obtain y where "x = ?f y" by auto
  with renamed_away [OF assms(4), of y] assms(6) show ?thesis by simp
qed

definition demo_group_entry :: "u64 \<Rightarrow> history_record \<Rightarrow> history_entry" where
  "demo_group_entry i r = (demo_entry i r)\<lparr>he_group := he_group (demo_entry 7 (Create ''a'' None None))\<rparr>"

definition demo_redo :: history_state where
  "demo_redo = history_new\<lparr>h_generation := Some 1,
     h_redo := [demo_group_entry 8 (Reparent ''a'' None (Some ''p'')), demo_group_entry 7 (Create ''a'' None None)]\<rparr>"

definition demo_redo_action :: history_action where
  "demo_redo_action = the (prepare_action (current_request Redo demo_redo) demo_redo)"

lemma demo_redo_action_simps:
  "ha_direction demo_redo_action = Redo" "gm_key (ha_group demo_redo_action) = \<lparr>gk_generation = 1, gk_sequence = 7\<rparr>"
  using prepare_current [of Redo demo_redo "[demo_group_entry 8 (Reparent ''a'' None (Some ''p''))]"
      "demo_group_entry 7 (Create ''a'' None None)"]
  by (simp_all add: demo_redo_action_def demo_redo_def history_new_def demo_group_entry_def demo_entry_def)

theorem redo_renames_group_witness:
  "\<exists>t :: history_state. \<exists>x \<in> set (h_redo t @ butlast (h_undo t)). ''a'' \<notin> record_ids (he_record x)"
proof -
  let ?st = "\<lparr>st_entry_id = 7, st_record = Create ''a'' None None\<rparr>"
  let ?ctx = "\<lparr>oc_source = Ui, oc_kind = KRedo, oc_sequence = 9, oc_generation = 1, oc_group_token = None\<rparr>"
  let ?x = "demo_group_entry 8 (Reparent ''a'' None (Some ''p''))"
  have upd: "updated_history_record (st_record ?st) Redo yes = Inr (Create ''b'' None None)"
    by (simp add: yes_def non_empty_new_id_def)
  have ch: "changed_created_id (st_record ?st) (Create ''b'' None None) = Some (''a'', ''b'')" by simp
  have st: "stack Redo demo_redo = [?x] @ [demo_group_entry 7 (Create ''a'' None None)]"
    by (simp add: demo_redo_def)
  obtain t where t: "finish_group_step demo_json_lib demo_redo_action ?st ?ctx yes demo_redo = (Inr True, t)"
    "h_redo t = map (renaming \<lparr>gk_generation = 1, gk_sequence = 7\<rparr> (Create ''a'' None None) (Create ''b'' None None)) [?x]"
    using finish_step_effect [of demo_redo_action demo_redo "[?x]" "demo_group_entry 7 (Create ''a'' None None)"
        ?st yes "Create ''b'' None None" demo_json_lib ?ctx] st upd
    by (auto simp: demo_redo_action_simps demo_group_entry_def demo_entry_def)
  let ?y = "renaming \<lparr>gk_generation = 1, gk_sequence = 7\<rparr> (Create ''a'' None None) (Create ''b'' None None) ?x"
  have y: "?y \<in> set (h_redo t @ butlast (h_undo t))" using t(2) by simp
  have key: "entry_key ?y = gm_key (ha_group demo_redo_action)"
    by (simp add: demo_redo_action_simps demo_group_entry_def demo_entry_def)
  from redo_renames_group [OF t(1) demo_redo_action_simps(1) upd ch y key]
  have "''a'' \<notin> record_ids (he_record ?y)" .
  with y show ?thesis by blast
qed

section \<open>Groups\<close>

text \<open>Closing a group puts its entries on the undo stack in order, each with the final count, and the
  next undo covers exactly these entries, newest first, as one named group.
\<close>
lemma closed_group_is_one_undo:
  assumes "h_active_group s = Some g" "ag_entries g \<noteq> []" "\<not> h_edit_unsupported s" "\<not> h_pending s"
    and "\<And>e. e \<in> set (h_undo s) \<Longrightarrow> entry_key e \<noteq> gm_key (ag_metadata g)"
    and "close_active_group s = (shut, t)"
  shows "shut \<and> h_active_group t = None
     \<and> length (h_undo t) = length (h_undo s) + length (ag_entries g)
     \<and> map he_record (h_undo t) = map he_record (h_undo s @ ag_entries g)
     \<and> (\<exists>a. prepare_action (current_request Undo t) t = Some a
          \<and> map st_record (ha_steps a) = rev (map he_record (ag_entries g))
          \<and> gm_count (ha_group a) = length (ag_entries g)
          \<and> ha_grouped a = gm_named (ag_metadata g))"
proof -
  define m where "m = (ag_metadata g)\<lparr>gm_count := length (ag_entries g)\<rparr>"
  define es where "es = map (he_group_update (\<lambda>_. m)) (ag_entries g)"
  have t: "shut" "t = bump (s\<lparr>h_active_group := None, h_undo := h_undo s @ es\<rparr>)"
    using assms(1,2,6) by (simp_all add: close_active_group_def Let_def es_def m_def)
  have "es \<noteq> []" using assms(2) by (simp add: es_def)
  then obtain fs e where fs: "es = fs @ [e]" by (cases es rule: rev_cases) auto
  have "e \<in> set es" using fs by simp
  then have e: "he_group e = m" by (auto simp: es_def)
  have vis: "visible_stack Undo t = (h_undo s @ fs) @ [e]" using t fs by (simp add: bump_def)
  have "takeWhile (\<lambda>x. entry_key x = gm_key m) (rev (h_undo s @ es)) = rev es"
  proof -
    have "entry_key x = gm_key m" if "x \<in> set (rev es)" for x using that by (auto simp: es_def)
    moreover have "takeWhile (\<lambda>x. entry_key x = gm_key m) (rev (h_undo s)) = []"
      using assms(5) by (cases "h_undo s" rule: rev_cases) (auto simp: m_def)
    ultimately show ?thesis
      using takeWhile_append2 [of "rev es" "\<lambda>x. entry_key x = gm_key m" "rev (h_undo s)"] by simp
  qed
  then have run: "top_run (gm_key m) (h_undo s @ es) = map entry_step (rev es)" by (simp add: top_run_def)
  have flags: "\<not> h_edit_unsupported t" "\<not> h_pending t" using t assms(3,4) by (simp_all add: bump_def)
  have recs: "map he_record es = map he_record (ag_entries g)" by (simp add: es_def)
  have "map st_record (map entry_step (rev es)) = rev (map he_record (ag_entries g))"
    by (simp add: rev_map recs [symmetric] entry_step_def)
  moreover have "Suc (length fs) = length (ag_entries g)" using arg_cong [OF fs, of length] by (simp add: es_def)
  moreover have "gm_count m = length (ag_entries g)" "gm_named m = gm_named (ag_metadata g)"
    by (simp_all add: m_def)
  ultimately show ?thesis
    using prepare_current [OF vis flags] t fs run recs by (simp add: e bump_def)
qed

theorem closed_group_is_one_undo_witness:
  "\<exists>a t. prepare_action (current_request Undo t) t = Some a
     \<and> map st_record (ha_steps a) = [Reparent ''a'' None (Some ''p''), Create ''a'' None None]"
proof -
  let ?g = "\<lparr>ag_token = 7, ag_secret = None, ag_started_at = 0, ag_last_edit_at = 0,
     ag_metadata = he_group (demo_entry 7 (Create ''a'' None None)),
     ag_entries = [demo_group_entry 7 (Create ''a'' None None), demo_group_entry 8 (Reparent ''a'' None (Some ''p''))]\<rparr>"
  let ?s = "(demo_history [demo_entry 3 (SetProperty ''q'' ''x'' JNull JNull)])\<lparr>h_active_group := Some ?g\<rparr>"
  obtain shut t where c: "close_active_group ?s = (shut, t)" by (cases "close_active_group ?s")
  have pre: "h_active_group ?s = Some ?g" "ag_entries ?g \<noteq> []" "\<not> h_edit_unsupported ?s" "\<not> h_pending ?s"
    "\<And>e. e \<in> set (h_undo ?s) \<Longrightarrow> entry_key e \<noteq> gm_key (ag_metadata ?g)"
    by (simp_all add: demo_history_def history_new_def demo_entry_def)
  from closed_group_is_one_undo [OF pre c] show ?thesis
    by (auto simp: demo_group_entry_def demo_entry_def)
qed

section \<open>Recording\<close>

text \<open>The undo stack as the screen would see it after the open group is closed.\<close>

definition all_records :: "history_state \<Rightarrow> history_record list" where
  "all_records s = map he_record (h_undo s @ (case h_active_group s of None \<Rightarrow> [] | Some g \<Rightarrow> ag_entries g))"

lemma all_records_close [simp]: "all_records (snd (close_active_group s)) = all_records s"
  by (auto simp: all_records_def close_active_group_def Let_def bump_def split: option.splits)

lemma all_records_expire [simp]: "all_records (snd (expire_group now s)) = all_records s"
  by (auto simp: expire_group_def split: option.splits)

lemma redo_close [simp]: "h_redo (snd (close_active_group s)) = h_redo s"
  by (auto simp: close_active_group_def Let_def bump_def split: option.splits)

lemma redo_expire [simp]: "h_redo (snd (expire_group now s)) = h_redo s"
  by (auto simp: expire_group_def split: option.splits)

lemma all_records_push_grouped:
  assumes "h_active_group s = Some g"
  shows "all_records (push_grouped ck r marker g s) = all_records s @ [r]"
  using assms by (simp add: push_grouped_def Let_def) (simp add: all_records_def add_entry_def Let_def)

lemma redo_push_grouped:
  "h_redo (push_grouped ck r marker g s) = (if ag_entries g = [] then [] else h_redo s)"
  by (simp add: push_grouped_def Let_def add_entry_def)

lemma undo_correct [simp]: "all_records (correct L k v s) = all_records s" "h_redo (correct L k v s) = h_redo s"
  "h_active_group (correct L k v s) = h_active_group s"
  by (simp_all add: all_records_def correct_def)

lemma record_of_frame:
  "all_records (snd (record_of L p res s)) = all_records s" "h_redo (snd (record_of L p res s)) = h_redo s"
  "h_active_group (snd (record_of L p res s)) = h_active_group s"
  by (cases "(L, p, res, s)" rule: record_of.cases; auto simp: Let_def split: option.splits)+

lemma marker_frame [simp]:
  "all_records (push_marker src k i g s) = all_records s" "all_records (bump_applied s) = all_records s"
  "h_redo (push_marker src k i g s) = h_redo s" "h_redo (bump_applied s) = h_redo s"
  "h_active_group (push_marker src k i g s) = h_active_group s" "h_active_group (bump_applied s) = h_active_group s"
  by (simp_all add: all_records_def push_marker_def bump_def bump_applied_def)

lemma all_records_push_single: "h_active_group s = None \<Longrightarrow> all_records (push_single ck r ctx m s) = all_records s @ [r]"
  by (auto simp: all_records_def push_single_def)

lemma redo_push_single [simp]: "h_redo (push_single ck r ctx m s) = []"
  by (simp add: push_single_def)

lemma push_record_effect:
  assumes "case h_active_group s of None \<Rightarrow> True | Some g \<Rightarrow> takes_edit ctx g"
  shows "all_records (push_record ck r ctx s) = all_records s @ [r]"
    and "h_redo (push_record ck r ctx s) =
       (case h_active_group s of Some g \<Rightarrow> if ag_entries g = [] then [] else h_redo s | None \<Rightarrow> [])"
  using assms
  by (auto simp: push_record_def Let_def all_records_push_grouped all_records_push_single redo_push_grouped
      split: option.splits)

lemma record_of_stateless: "fst (record_of L p res s) = fst (record_of L p res s')"
  by (cases "(L, p, res, s)" rule: record_of.cases) (auto simp: Let_def split: option.splits)

lemma record_success_edit:
  assumes "accepted (qr_value res)" "\<nexists>i. p = PDeleteObject i"
  shows "record_success_in_group L ck p ctx res s =
     (case record_of L p res (push_marker (oc_source ctx) (oc_kind ctx) (oc_sequence ctx)
         (oc_generation ctx) (bump_applied s)) of
        (None, s2) \<Rightarrow> s2 | (Some r, s2) \<Rightarrow> push_record ck r ctx s2)"
  using assms by (cases p) (simp_all add: record_success_in_group_def Let_def)

text \<open>An accepted edit that can be undone is the newest record of the history, whether it lands on the
  undo stack or in the open group, also when it fills or outlives the group; it empties the
  redo stack unless the group already has edits. One that cannot be undone leaves both as
  they were.
\<close>
lemma recorded_edit_is_newest:
  assumes "accepted (qr_value res)" "\<nexists>i. p = PDeleteObject i"
    and "case h_active_group s of None \<Rightarrow> True | Some g \<Rightarrow> takes_edit ctx g"
    and "t = record_success_in_group L ck p ctx res s"
  shows "case fst (record_of L p res s) of
      None \<Rightarrow> all_records t = all_records s \<and> h_redo t = h_redo s
    | Some r \<Rightarrow> all_records t = all_records s @ [r]
        \<and> h_redo t = (case h_active_group s of Some g \<Rightarrow> if ag_entries g = [] then [] else h_redo s | None \<Rightarrow> [])"
proof -
  let ?s1 = "push_marker (oc_source ctx) (oc_kind ctx) (oc_sequence ctx) (oc_generation ctx) (bump_applied s)"
  obtain ro s2 where ro: "record_of L p res ?s1 = (ro, s2)" by fastforce
  from record_of_frame [of L p res ?s1] ro
  have same: "all_records s2 = all_records s" "h_redo s2 = h_redo s" "h_active_group s2 = h_active_group s" by simp_all
  have "fst (record_of L p res s) = ro" using ro record_of_stateless [of L p res s ?s1] by simp
  then show ?thesis
    using assms(3,4) record_success_edit [OF assms(1,2), of L ck ctx s] ro same
      push_record_effect [where s = s2 and ctx = ctx and ck = ck] by (cases ro; cases "h_active_group s") simp_all
qed

definition demo_clock :: clock where
  "demo_clock = \<lparr>ck_first = 0, ck_second = 0, ck_wall = None\<rparr>"

definition demo_context :: history_operation_context where
  "demo_context = \<lparr>oc_source = Ui, oc_kind = KEdit, oc_sequence = 4, oc_generation = 1, oc_group_token = None\<rparr>"

theorem recorded_edit_is_newest_witness:
  "\<exists>t. all_records t = [Create ''b'' (Some ''p'') None] \<and> h_redo t = []"
proof -
  let ?s = "demo_history []" and ?p = "PCreateObject (Some ''p'') None"
  have pre: "accepted (qr_value (plain_result yes))" "\<nexists>i. ?p = PDeleteObject i"
    "case h_active_group ?s of None \<Rightarrow> True | Some g \<Rightarrow> takes_edit demo_context g"
    by (simp_all add: plain_result_def demo_history_def history_new_def)
  from recorded_edit_is_newest [OF pre refl, of demo_json_lib demo_clock] show ?thesis
    by (auto simp: plain_result_def yes_def non_empty_new_id_def all_records_def demo_history_def history_new_def)
qed

text \<open>A successful deletion empties both stacks and every correction, and marks the lost corrections up
  to its own revision, so that older captures are refused. The entries of an open group survive
  it: closing the group puts them on the undo stack although the object may be gone.
\<close>
lemma deletion_spares_open_group:
  assumes "accepted (qr_value res)" "t = record_success_in_group L ck (PDeleteObject i) ctx res s"
  shows "h_undo t = [] \<and> h_redo t = [] \<and> cc_entries (h_corrections t) = []
     \<and> cc_lost_through (h_corrections t) \<ge> h_applied_revision t
     \<and> h_active_group t = h_active_group s
     \<and> map he_record (h_undo (snd (close_active_group t)))
        = (case h_active_group s of None \<Rightarrow> [] | Some g \<Rightarrow> map he_record (ag_entries g))"
  using assms
  by (auto simp: record_success_in_group_def Let_def push_marker_def bump_def bump_applied_def
      cc_clear_and_mark_lost_through_def cc_mark_lost_through_def cc_clear_def close_active_group_def
      split: option.splits)

theorem deletion_spares_open_group_witness:
  "map he_record (h_undo (snd (close_active_group (record_success_in_group demo_json_lib demo_clock
     (PDeleteObject ''b'') demo_context (plain_result yes)
     ((demo_history [])\<lparr>h_active_group := Some
        \<lparr>ag_token = 7, ag_secret = None, ag_started_at = 0, ag_last_edit_at = 0,
         ag_metadata = he_group (demo_entry 7 (Create ''b'' None None)),
         ag_entries = [demo_group_entry 7 (Create ''b'' None None)]\<rparr>\<rparr>)))))
   = [Create ''b'' None None]"
proof -
  have acc: "accepted (qr_value (plain_result yes))" by (simp add: plain_result_def)
  show ?thesis
    using deletion_spares_open_group [OF acc refl, of demo_json_lib demo_clock "''b''" demo_context
      "(demo_history [])\<lparr>h_active_group := Some
        \<lparr>ag_token = 7, ag_secret = None, ag_started_at = 0, ag_last_edit_at = 0,
         ag_metadata = he_group (demo_entry 7 (Create ''b'' None None)),
         ag_entries = [demo_group_entry 7 (Create ''b'' None None)]\<rparr>\<rparr>"]
    by (simp add: demo_group_entry_def demo_entry_def)
qed

section \<open>The group boundary\<close>

lemma close_no_group [simp]: "h_active_group (snd (close_active_group s)) = None"
  by (auto simp: close_active_group_def Let_def bump_def split: option.splits)

lemma close_unless_group:
  "snd (close_group_unless t s) = s \<and> map_option ag_token (h_active_group s) = t
   \<or> h_active_group (snd (close_group_unless t s)) = None"
  by (auto simp: close_group_unless_def)

lemma expire_group_cases:
  obtains (still) g where "h_active_group s = Some g" "now < the (group_deadline s)" "expire_group now s = (False, s)"
    | (none) "h_active_group (snd (expire_group now s)) = None"
proof (cases "h_active_group s")
  case None
  then show ?thesis using none by (simp add: expire_group_def group_deadline_def)
next
  case (Some g)
  show ?thesis
  proof (cases "now < the (group_deadline s)")
    case True
    with Some show ?thesis by (intro still) (auto simp: expire_group_def group_deadline_def)
  next
    case False
    with Some have "expire_group now s = close_active_group s" by (auto simp: expire_group_def group_deadline_def)
    then show ?thesis by (intro none) simp
  qed
qed

text \<open>A group stays open across a boundary only for a caller that shows its secret, asks to keep it and
  comes before its deadline; then nothing changes. In every other case, errors included, no
  group is open afterwards.
\<close>
lemma boundary_keeps_only_with_secret:
  assumes "group_boundary now secret keep s = (r, t)"
  shows "(\<exists>token g sec. r = Inr (Some token) \<and> keep \<and> h_active_group s = Some g \<and> ag_token g = token
       \<and> ag_secret g = Some sec \<and> secret = Some (secret_expose sec)
       \<and> now < the (group_deadline s) \<and> t = s)
     \<or> h_active_group t = None \<and> (\<forall>token. r \<noteq> Inr (Some token))"
proof (cases rule: expire_group_cases [of s now])
  case none
  then have "h_active_group (snd (close_group_unless k (snd (expire_group now s)))) = None" for k
    by (auto simp: close_group_unless_def)
  with none assms show ?thesis
    by (auto simp: group_boundary_def Let_def split: if_splits option.splits)
next
  case (still g)
  show ?thesis
  proof (cases "\<exists>c. secret = Some c \<and> group_secret_matches c g")
    case True
    then obtain sec where sec: "ag_secret g = Some sec" "secret = Some (secret_expose sec)"
      by (auto simp: group_secret_matches_def secret_matches_text split: option.splits)
    show ?thesis
    proof (cases keep)
      case True
      with sec still assms show ?thesis
        by (auto simp: group_boundary_def Let_def group_secret_matches_def secret_matches_text close_group_unless_def)
    next
      case False
      with sec still assms show ?thesis
        by (auto simp: group_boundary_def Let_def group_secret_matches_def secret_matches_text close_group_unless_def)
    qed
  next
    case False
    with still have "Option.bind secret (\<lambda>c. if group_secret_matches c g then Some (ag_token g) else None) = None"
      by (cases secret) auto
    with still assms show ?thesis
      by (auto simp: group_boundary_def Let_def close_group_unless_def split: if_splits)
  qed
qed


theorem boundary_keeps_only_with_secret_witness:
  "h_active_group (snd (group_boundary 5 (Some ''guess'') True
     ((demo_history [])\<lparr>h_active_group := Some
        \<lparr>ag_token = 7, ag_secret = Some (GroupSecret ''right''), ag_started_at = 0, ag_last_edit_at = 0,
         ag_metadata = he_group (demo_entry 7 (Create ''b'' None None)), ag_entries = []\<rparr>\<rparr>))) = None"
proof -
  let ?s = "(demo_history [])\<lparr>h_active_group := Some
        \<lparr>ag_token = 7, ag_secret = Some (GroupSecret ''right''), ag_started_at = 0, ag_last_edit_at = 0,
         ag_metadata = he_group (demo_entry 7 (Create ''b'' None None)), ag_entries = []\<rparr>\<rparr>"
  obtain r t where "group_boundary 5 (Some ''guess'') True ?s = (r, t)" by fastforce
  from boundary_keeps_only_with_secret [OF this] this show ?thesis by auto
qed

end
