(* ===== verification/Payloads.thy ===== *)
theory Payloads
  imports Bridge_Common
begin

text \<open>
  The payload parsers of \<open>norves-bridge-editor-client\<close>: \<open>handshake.rs\<close>, \<open>status.rs\<close>, \<open>log.rs\<close>,
  \<open>scene.rs\<close>, \<open>object.rs\<close>, \<open>asset.rs\<close> and \<open>viewport.rs\<close>. Each module has an error enum with the
  constructors of \<open>payload_error\<close> and its own copies of the field readers, which are modelled once.
  The derived deserializers (of the enums, and of the types parsed by \<open>from_value\<close>) are arguments.
\<close>

section \<open>Field readers\<close>

datatype payload_error =
    MissingField string
  | InvalidField string
  | UnexpectedShape string

definition at_key :: "string \<Rightarrow> string \<Rightarrow> string" where
  "at_key path key = path @ ''.'' @ key"

definition at_index :: "string \<Rightarrow> nat \<Rightarrow> string" where
  "at_index path i = path @ ''['' @ nat_dec i @ '']''"

definition object_or :: "string \<Rightarrow> json \<Rightarrow> payload_error + json_map" where
  "object_or what v = ok_or (UnexpectedShape what) (as_object v)"

definition item_object :: "string \<Rightarrow> json \<Rightarrow> payload_error + json_map" where
  "item_object path v = ok_or (InvalidField (path @ '' is not an object'')) (as_object v)"

definition required_field :: "json_map \<Rightarrow> string \<Rightarrow> string \<Rightarrow> payload_error + json" where
  "required_field obj key path = ok_or (MissingField (at_key path key)) (map_of obj key)"

text \<open>A reader of one type applied to a required or an optional field.\<close>

definition required_as :: "(json \<Rightarrow> 'a option) \<Rightarrow> json_map \<Rightarrow> string \<Rightarrow> string \<Rightarrow> payload_error + 'a" where
  "required_as rd obj key path =
     bind_r (required_field obj key path) (\<lambda>v. ok_or (InvalidField (at_key path key)) (rd v))"

definition optional_as ::
  "(json \<Rightarrow> 'a option) \<Rightarrow> json_map \<Rightarrow> string \<Rightarrow> string \<Rightarrow> payload_error + 'a option" where
  "optional_as rd obj key path =
     (case map_of obj key of
       None \<Rightarrow> Inr None
     | Some v \<Rightarrow> bind_r (ok_or (InvalidField (at_key path key)) (rd v)) (\<lambda>x. Inr (Some x)))"

definition required_str :: "json_map \<Rightarrow> string \<Rightarrow> string \<Rightarrow> payload_error + string" where
  "required_str = required_as as_str"

definition optional_str :: "json_map \<Rightarrow> string \<Rightarrow> string \<Rightarrow> payload_error + string option" where
  "optional_str = optional_as as_str"

definition required_bool :: "json_map \<Rightarrow> string \<Rightarrow> string \<Rightarrow> payload_error + bool" where
  "required_bool = required_as as_bool"

definition optional_bool :: "json_map \<Rightarrow> string \<Rightarrow> string \<Rightarrow> payload_error + bool option" where
  "optional_bool = optional_as as_bool"

text \<open>The modules that name a field by its key alone.\<close>

definition required_str_flat :: "json_map \<Rightarrow> string \<Rightarrow> payload_error + string" where
  "required_str_flat obj key =
     (case map_of obj key of
       None \<Rightarrow> Inl (MissingField key)
     | Some v \<Rightarrow> ok_or (InvalidField key) (as_str v))"

definition optional_str_flat :: "json_map \<Rightarrow> string \<Rightarrow> payload_error + string option" where
  "optional_str_flat obj key =
     (case map_of obj key of
       None \<Rightarrow> Inr None
     | Some v \<Rightarrow> bind_r (ok_or (InvalidField key) (as_str v)) (\<lambda>s. Inr (Some s)))"

definition required_enum :: "(json \<Rightarrow> 'a option) \<Rightarrow> json_map \<Rightarrow> string \<Rightarrow> payload_error + 'a" where
  "required_enum deserialize obj key =
     bind_r (ok_or (MissingField key) (map_of obj key)) (\<lambda>v. ok_or (InvalidField key) (deserialize v))"

text \<open>The loop over the items of an array, each parsed under its own path.\<close>

fun parse_items :: "(json \<Rightarrow> string \<Rightarrow> payload_error + 'a) \<Rightarrow> string \<Rightarrow> nat \<Rightarrow> json list \<Rightarrow> payload_error + 'a list" where
  "parse_items f path i [] = Inr []"
| "parse_items f path i (x # xs) =
     bind_r (f x (at_index path i)) (\<lambda>a. bind_r (parse_items f path (Suc i) xs) (\<lambda>as. Inr (a # as)))"

lemma parse_items_cong [fundef_cong]:
  "xs = ys \<Longrightarrow> (\<And>x p. x \<in> set ys \<Longrightarrow> f x p = g x p) \<Longrightarrow> path = path' \<Longrightarrow> i = i' \<Longrightarrow>
    parse_items f path i xs = parse_items g path' i' ys"
proof (induction xs arbitrary: ys i i')
  case (Cons x xs)
  then obtain z zs where ys: "ys = z # zs" "x = z" "xs = zs" by (cases ys) auto
  with Cons.prems have "parse_items f path (Suc i) xs = parse_items g path' (Suc i') zs"
    by (intro Cons.IH) auto
  with Cons.prems ys show ?case by simp
qed auto

section \<open>Handshake\<close>

datatype handshake_error =
    VersionUnsupported "string list" "string list"
  | Handshake_field payload_error
  | EngineError bridge_error
  | SerializeError string

record hello_outcome =
  ho_session_id :: string
  ho_protocol_version :: version_string
  ho_server_name :: string
  ho_server_version :: "string option"
  ho_server_engine :: "string option"

definition parse_hello_result :: "json \<Rightarrow> handshake_error + hello_outcome" where
  "parse_hello_result result = map_err Handshake_field
     (bind_r (object_or ''hello result is not an object'' result) (\<lambda>obj.
      bind_r (required_str_flat obj ''sessionId'') (\<lambda>session_id.
      bind_r (required_str_flat obj ''protocolVersion'') (\<lambda>raw.
      bind_r (map_err (\<lambda>_. InvalidField ''protocolVersion'') (version_try_from raw)) (\<lambda>version.
      bind_r (bind_r (ok_or (MissingField ''server'') (map_of obj ''server''))
                (\<lambda>v. ok_or (InvalidField ''server'') (as_object v))) (\<lambda>server.
      bind_r (required_str_flat server ''name'') (\<lambda>name.
      bind_r (optional_str_flat server ''version'') (\<lambda>server_version.
      bind_r (optional_str_flat server ''engine'') (\<lambda>engine.
        Inr \<lparr>ho_session_id = session_id, ho_protocol_version = version, ho_server_name = name,
             ho_server_version = server_version, ho_server_engine = engine\<rparr>)))))))))"

definition string_array :: "json option \<Rightarrow> string list" where
  "string_array v = (case v of Some (JArray items) \<Rightarrow> List.map_filter as_str items | _ \<Rightarrow> [])"

definition hello_error_to_handshake :: "bridge_error \<Rightarrow> handshake_error" where
  "hello_error_to_handshake e =
     (if be_code e = protocol_version_unsupported then
        (case be_data e of
          Some (JObject d) \<Rightarrow>
            VersionUnsupported (string_array (map_of d ''offered'')) (string_array (map_of d ''supported''))
        | _ \<Rightarrow> VersionUnsupported [] [])
      else EngineError e)"

section \<open>Status and log\<close>

record status_snapshot =
  ss_engine_state :: engine_state
  ss_runtime_state :: runtime_state
  ss_engine_name :: "string option"
  ss_engine_version :: "string option"
  ss_title :: "string option"

definition parse_status_result ::
  "(json \<Rightarrow> engine_state option) \<Rightarrow> (json \<Rightarrow> runtime_state option) \<Rightarrow> json \<Rightarrow> payload_error + status_snapshot" where
  "parse_status_result de_engine de_runtime result =
     bind_r (object_or ''status result is not an object'' result) (\<lambda>obj.
     bind_r (required_enum de_engine obj ''engineState'') (\<lambda>engine.
     bind_r (required_enum de_runtime obj ''runtimeState'') (\<lambda>runtime.
     bind_r (optional_str_flat obj ''engineName'') (\<lambda>name.
     bind_r (optional_str_flat obj ''engineVersion'') (\<lambda>version.
     bind_r (optional_str_flat obj ''title'') (\<lambda>title.
       Inr \<lparr>ss_engine_state = engine, ss_runtime_state = runtime, ss_engine_name = name,
            ss_engine_version = version, ss_title = title\<rparr>))))))"

record log_message =
  lm_level :: log_level
  lm_message :: string
  lm_category :: "string option"
  lm_timestamp :: "string option"

definition parse_log_message :: "(json \<Rightarrow> log_level option) \<Rightarrow> json \<Rightarrow> payload_error + log_message" where
  "parse_log_message de_level params =
     bind_r (object_or ''log params is not an object'' params) (\<lambda>obj.
     bind_r (required_enum de_level obj ''level'') (\<lambda>level.
     bind_r (required_str_flat obj ''message'') (\<lambda>message.
     bind_r (optional_str_flat obj ''category'') (\<lambda>category.
     bind_r (optional_str_flat obj ''timestamp'') (\<lambda>timestamp.
       Inr \<lparr>lm_level = level, lm_message = message, lm_category = category, lm_timestamp = timestamp\<rparr>)))))"

section \<open>Scene\<close>

datatype scene_tree_node =
  Scene_node (sn_id: string) (sn_name: "string option") (sn_kind: "string option")
    (sn_children: "scene_tree_node list")

record create_object_result =
  co_accepted :: bool
  co_new_id :: "string option"

record scene_edit_result =
  se_accepted :: bool

definition parse_create_object_result :: "json \<Rightarrow> payload_error + create_object_result" where
  "parse_create_object_result result =
     bind_r (object_or ''scene.createObject result is not an object'' result) (\<lambda>obj.
     bind_r (required_bool obj ''accepted'' ''result'') (\<lambda>acc.
     bind_r (optional_str obj ''newId'' ''result'') (\<lambda>new_id.
       Inr \<lparr>co_accepted = acc, co_new_id = new_id\<rparr>)))"

definition parse_scene_edit_result :: "string \<Rightarrow> json \<Rightarrow> payload_error + scene_edit_result" where
  "parse_scene_edit_result what result =
     bind_r (object_or (what @ '' result is not an object'') result) (\<lambda>obj.
     bind_r (required_bool obj ''accepted'' ''result'') (\<lambda>acc. Inr \<lparr>se_accepted = acc\<rparr>))"

definition parse_delete_object_result :: "json \<Rightarrow> payload_error + scene_edit_result" where
  "parse_delete_object_result = parse_scene_edit_result ''scene.deleteObject''"

definition parse_reparent_object_result :: "json \<Rightarrow> payload_error + scene_edit_result" where
  "parse_reparent_object_result = parse_scene_edit_result ''scene.reparentObject''"

definition parse_duplicate_object_result :: "json \<Rightarrow> payload_error + create_object_result" where
  "parse_duplicate_object_result = parse_create_object_result"

lemma size_array_item:
  assumes "x \<in> set xs" "(k, JArray xs) \<in> set m"
  shows "size x < Suc (size_list (size_prod (\<lambda>_. 0) size) m)"
proof -
  have "size x \<le> size_list size xs" using assms(1) by (intro size_list_estimation') auto
  with size_json_field [OF assms(2)] show ?thesis by simp
qed

text \<open>\<open>parse_scene_node\<close> with \<open>parse_children\<close> as its inner loop.\<close>

function parse_scene_node :: "json \<Rightarrow> string \<Rightarrow> payload_error + scene_tree_node" where
  "parse_scene_node v path =
     (case v of
       JObject obj \<Rightarrow>
         bind_r (required_str obj ''id'' path) (\<lambda>i.
         bind_r (optional_str obj ''name'' path) (\<lambda>name.
         bind_r (optional_str obj ''kind'' path) (\<lambda>kind.
         bind_r (case map_of obj ''children'' of
                   None \<Rightarrow> Inr []
                 | Some (JArray items) \<Rightarrow> parse_items parse_scene_node (at_key path ''children'') 0 items
                 | Some _ \<Rightarrow> Inl (InvalidField (at_key path ''children'')))
           (\<lambda>children. Inr (Scene_node i name kind children)))))
     | _ \<Rightarrow> Inl (InvalidField (path @ '' is not an object'')))"
  by pat_completeness auto
termination
  by (relation "measure (\<lambda>(v, path). size v)")
    (auto dest!: map_of_SomeD intro: size_array_item)

declare parse_scene_node.simps [simp del]

definition parse_scene_tree_result :: "json \<Rightarrow> payload_error + scene_tree_node" where
  "parse_scene_tree_result result =
     bind_r (object_or ''scene result is not an object'' result) (\<lambda>obj.
     bind_r (ok_or (MissingField ''root'') (map_of obj ''root'')) (\<lambda>root.
       parse_scene_node root ''root''))"

section \<open>Objects and schemas\<close>

record component_ref =
  cr_object_id :: string
  cr_kind :: string

record object_property =
  op_name :: string
  op_value :: json
  op_value_type :: "string option"

record object_snapshot =
  os_object_id :: string
  os_name :: "string option"
  os_kind :: "string option"
  os_properties :: "object_property list"
  os_components :: "component_ref list option"

record set_property_ack =
  sp_accepted :: bool
  sp_applied_value :: "json option"

definition parse_property_entry :: "json \<Rightarrow> string \<Rightarrow> payload_error + object_property" where
  "parse_property_entry v path =
     bind_r (item_object path v) (\<lambda>obj.
     bind_r (required_str obj ''name'' path) (\<lambda>name.
     bind_r (required_field obj ''value'' path) (\<lambda>val.
     bind_r (optional_str obj ''valueType'' path) (\<lambda>value_type.
       Inr \<lparr>op_name = name, op_value = val, op_value_type = value_type\<rparr>))))"

definition parse_property_bag :: "json_map \<Rightarrow> payload_error + object_property list" where
  "parse_property_bag obj =
     bind_r (required_field obj ''properties'' ''result'') (\<lambda>v.
     bind_r (ok_or (InvalidField ''result.properties'') (as_array v)) (\<lambda>items.
       parse_items parse_property_entry ''result.properties'' 0 items))"

definition parse_component :: "json \<Rightarrow> string \<Rightarrow> payload_error + component_ref" where
  "parse_component v path =
     bind_r (item_object path v) (\<lambda>entry.
     bind_r (case filter (\<lambda>k. k \<noteq> ''objectId'' \<and> k \<noteq> ''kind'') (map fst entry) of
               [] \<Rightarrow> Inr ()
             | k # _ \<Rightarrow> Inl (InvalidField (at_key path k @ '' is unknown''))) (\<lambda>_.
     bind_r (required_str entry ''objectId'' path) (\<lambda>object_id.
     bind_r (required_str entry ''kind'' path) (\<lambda>kd.
       if object_id = [] then Inl (InvalidField (path @ ''.objectId is empty''))
       else if kd = [] then Inl (InvalidField (path @ ''.kind is empty''))
       else Inr \<lparr>cr_object_id = object_id, cr_kind = kd\<rparr>))))"

definition parse_components :: "json_map \<Rightarrow> payload_error + component_ref list option" where
  "parse_components obj =
     (case map_of obj ''components'' of
       None \<Rightarrow> Inr None
     | Some v \<Rightarrow>
         bind_r (ok_or (InvalidField ''result.components'') (as_array v)) (\<lambda>items.
         bind_r (parse_items parse_component ''result.components'' 0 items) (\<lambda>cs. Inr (Some cs))))"

definition parse_object_snapshot_result :: "json \<Rightarrow> payload_error + object_snapshot" where
  "parse_object_snapshot_result result =
     bind_r (object_or ''object result is not an object'' result) (\<lambda>obj.
     bind_r (required_str obj ''objectId'' ''result'') (\<lambda>object_id.
     bind_r (optional_str obj ''name'' ''result'') (\<lambda>name.
     bind_r (optional_str obj ''kind'' ''result'') (\<lambda>kd.
     bind_r (parse_property_bag obj) (\<lambda>props.
     bind_r (parse_components obj) (\<lambda>comps.
       Inr \<lparr>os_object_id = object_id, os_name = name, os_kind = kd, os_properties = props,
            os_components = comps\<rparr>))))))"

definition parse_set_property_result :: "json \<Rightarrow> payload_error + set_property_ack" where
  "parse_set_property_result result =
     bind_r (object_or ''setProperty result is not an object'' result) (\<lambda>obj.
     bind_r (required_bool obj ''accepted'' ''result'') (\<lambda>acc.
       Inr \<lparr>sp_accepted = acc, sp_applied_value = map_of obj ''appliedValue''\<rparr>))"

record object_property_definition =
  opd_name :: string
  opd_value_type :: string

record object_type =
  ot_type_name :: string
  ot_kind :: "string option"
  ot_properties :: "object_property_definition list"
  ot_instantiable :: "bool option"

definition parse_property_definition :: "json \<Rightarrow> string \<Rightarrow> payload_error + object_property_definition" where
  "parse_property_definition v path =
     bind_r (item_object path v) (\<lambda>obj.
     bind_r (required_str obj ''name'' path) (\<lambda>name.
     bind_r (required_str obj ''valueType'' path) (\<lambda>value_type.
       Inr \<lparr>opd_name = name, opd_value_type = value_type\<rparr>)))"

definition parse_property_definitions :: "json_map \<Rightarrow> string \<Rightarrow> payload_error + object_property_definition list" where
  "parse_property_definitions obj path =
     (case map_of obj ''properties'' of
       None \<Rightarrow> Inr []
     | Some (JArray items) \<Rightarrow> parse_items parse_property_definition (at_key path ''properties'') 0 items
     | Some _ \<Rightarrow> Inl (InvalidField (at_key path ''properties'')))"

definition parse_type_descriptor :: "json \<Rightarrow> string \<Rightarrow> payload_error + object_type" where
  "parse_type_descriptor v path =
     bind_r (item_object path v) (\<lambda>obj.
     bind_r (required_str obj ''typeName'' path) (\<lambda>name.
     bind_r (optional_str obj ''kind'' path) (\<lambda>kd.
     bind_r (parse_property_definitions obj path) (\<lambda>props.
     bind_r (optional_bool obj ''instantiable'' path) (\<lambda>inst.
       Inr \<lparr>ot_type_name = name, ot_kind = kd, ot_properties = props, ot_instantiable = inst\<rparr>)))))"

definition parse_schema_snapshot_result :: "json \<Rightarrow> payload_error + object_type list" where
  "parse_schema_snapshot_result result =
     bind_r (object_or ''schema result is not an object'' result) (\<lambda>obj.
     bind_r (required_field obj ''types'' ''result'') (\<lambda>v.
     bind_r (ok_or (InvalidField ''result.types'') (as_array v)) (\<lambda>items.
       parse_items parse_type_descriptor ''result.types'' 0 items)))"

record component_add_ack =
  ca_accepted :: bool
  ca_component_id :: "string option"

definition parse_component_add_result :: "json \<Rightarrow> payload_error + component_add_ack" where
  "parse_component_add_result result =
     bind_r (object_or ''component.add result is not an object'' result) (\<lambda>obj.
     bind_r (required_bool obj ''accepted'' ''result'') (\<lambda>acc.
     bind_r (optional_str obj ''componentId'' ''result'') (\<lambda>component_id.
       if component_id = Some [] then Inl (InvalidField ''result.componentId is empty'')
       else Inr \<lparr>ca_accepted = acc, ca_component_id = component_id\<rparr>)))"

definition parse_component_remove_result :: "json \<Rightarrow> payload_error + bool" where
  "parse_component_remove_result result =
     bind_r (object_or ''component.remove result is not an object'' result) (\<lambda>obj.
       required_bool obj ''accepted'' ''result'')"

section \<open>Assets\<close>

datatype asset_status =
    SuccessCooked | SuccessLoose | InvalidRequest | InvalidManifest | LooseReadFailed
  | CookedPackageReadFailed | CookedPackageParseFailed | CookedEntryMissing | CookedEntryHashMismatch

datatype asset_source = SourceNone | SourceCooked | SourceLoose | SourceDebugLooseFallback

definition parse_status :: "string \<Rightarrow> payload_error + asset_status" where
  "parse_status s =
     (if s = ''successCooked'' then Inr SuccessCooked
      else if s = ''successLoose'' then Inr SuccessLoose
      else if s = ''invalidRequest'' then Inr InvalidRequest
      else if s = ''invalidManifest'' then Inr InvalidManifest
      else if s = ''looseReadFailed'' then Inr LooseReadFailed
      else if s = ''cookedPackageReadFailed'' then Inr CookedPackageReadFailed
      else if s = ''cookedPackageParseFailed'' then Inr CookedPackageParseFailed
      else if s = ''cookedEntryMissing'' then Inr CookedEntryMissing
      else if s = ''cookedEntryHashMismatch'' then Inr CookedEntryHashMismatch
      else Inl (InvalidField ''result.status''))"

definition parse_source :: "string \<Rightarrow> payload_error + asset_source" where
  "parse_source s =
     (if s = ''none'' then Inr SourceNone
      else if s = ''cooked'' then Inr SourceCooked
      else if s = ''loose'' then Inr SourceLoose
      else if s = ''debugLooseFallback'' then Inr SourceDebugLooseFallback
      else Inl (InvalidField ''result.source''))"

record asset_resolve_result =
  rr_status :: asset_status
  rr_source :: asset_source
  rr_normalized_logical_path :: string
  rr_requires_explicit_log :: "bool option"
  rr_fallback_action :: "string option"
  rr_failure_kind :: "string option"
  rr_reason :: "string option"

definition parse_asset_resolve_result :: "json \<Rightarrow> payload_error + asset_resolve_result" where
  "parse_asset_resolve_result result =
     bind_r (object_or ''asset.resolve result is not an object'' result) (\<lambda>obj.
     bind_r (bind_r (required_str obj ''status'' ''result'') parse_status) (\<lambda>status.
     bind_r (bind_r (required_str obj ''source'' ''result'') parse_source) (\<lambda>source.
     bind_r (required_str obj ''normalizedLogicalPath'' ''result'') (\<lambda>p.
     bind_r (optional_bool obj ''requiresExplicitLog'' ''result'') (\<lambda>lg.
     bind_r (optional_str obj ''fallbackAction'' ''result'') (\<lambda>fallback.
     bind_r (optional_str obj ''failureKind'' ''result'') (\<lambda>failure.
     bind_r (optional_str obj ''reason'' ''result'') (\<lambda>reason.
       Inr \<lparr>rr_status = status, rr_source = source, rr_normalized_logical_path = p,
            rr_requires_explicit_log = lg, rr_fallback_action = fallback,
            rr_failure_kind = failure, rr_reason = reason\<rparr>))))))))"

text \<open>\<open>as_i64\<close>, else \<open>as_u64\<close> within \<open>i64\<close>.\<close>

fun integer_value :: "json \<Rightarrow> int option" where
  "integer_value (JNumber (PosInt n)) = (if uint n < 2 ^ 63 then Some (uint n) else None)"
| "integer_value (JNumber (NegInt n)) = Some (sint n)"
| "integer_value _ = None"

record asset_entry =
  ae_logical_path :: string
  ae_kind :: string
  ae_variant :: "string option"
  ae_format :: "string option"
  ae_source_hash :: "string option"
  ae_cooked_package :: "string option"
  ae_entry_name :: "string option"
  ae_entry_type :: "string option"
  ae_cooked_hash :: "string option"
  ae_cooked_version :: "int option"

definition parse_entry :: "json \<Rightarrow> string \<Rightarrow> payload_error + asset_entry" where
  "parse_entry v path =
     bind_r (item_object path v) (\<lambda>obj.
     bind_r (required_str obj ''logicalPath'' path) (\<lambda>logical_path.
     bind_r (required_str obj ''kind'' path) (\<lambda>kd.
     bind_r (optional_str obj ''variant'' path) (\<lambda>variant.
     bind_r (optional_str obj ''format'' path) (\<lambda>format.
     bind_r (optional_str obj ''sourceHash'' path) (\<lambda>source_hash.
     bind_r (optional_str obj ''cookedPackage'' path) (\<lambda>cooked_package.
     bind_r (optional_str obj ''entryName'' path) (\<lambda>entry_name.
     bind_r (optional_str obj ''entryType'' path) (\<lambda>entry_type.
     bind_r (optional_str obj ''cookedHash'' path) (\<lambda>cooked_hash.
     bind_r (optional_as integer_value obj ''cookedVersion'' path) (\<lambda>cooked_version.
       Inr \<lparr>ae_logical_path = logical_path, ae_kind = kd, ae_variant = variant, ae_format = format,
            ae_source_hash = source_hash, ae_cooked_package = cooked_package,
            ae_entry_name = entry_name, ae_entry_type = entry_type, ae_cooked_hash = cooked_hash,
            ae_cooked_version = cooked_version\<rparr>)))))))))))"

record asset_manifest_result =
  am_version :: int
  am_entries :: "asset_entry list"
  am_total_count :: int
  am_page :: "int option"
  am_page_size :: "int option"

definition parse_entries :: "json_map \<Rightarrow> payload_error + asset_entry list" where
  "parse_entries obj =
     bind_r (required_field obj ''entries'' ''result'') (\<lambda>v.
     bind_r (ok_or (InvalidField ''result.entries'') (as_array v)) (\<lambda>items.
       parse_items parse_entry ''result.entries'' 0 items))"

definition parse_asset_manifest_result :: "json \<Rightarrow> payload_error + asset_manifest_result" where
  "parse_asset_manifest_result result =
     bind_r (object_or ''asset.getManifest result is not an object'' result) (\<lambda>obj.
     bind_r (required_as integer_value obj ''version'' ''result'') (\<lambda>version.
     bind_r (parse_entries obj) (\<lambda>entries.
     bind_r (required_as integer_value obj ''totalCount'' ''result'') (\<lambda>total.
     bind_r (optional_as integer_value obj ''page'' ''result'') (\<lambda>page.
     bind_r (optional_as integer_value obj ''pageSize'' ''result'') (\<lambda>page_size.
       Inr \<lparr>am_version = version, am_entries = entries, am_total_count = total, am_page = page,
            am_page_size = page_size\<rparr>))))))"

section \<open>Thumbnails\<close>

record viewport_thumbnail =
  vt_image_base64 :: string
  vt_mime_type :: string
  vt_width :: "u32 option"
  vt_height :: "u32 option"

definition non_empty_str :: "json \<Rightarrow> string option" where
  "non_empty_str v = (case as_str v of Some s \<Rightarrow> if s = [] then None else Some s | None \<Rightarrow> None)"

definition required_non_empty_str :: "json_map \<Rightarrow> string \<Rightarrow> string \<Rightarrow> payload_error + string" where
  "required_non_empty_str = required_as non_empty_str"

fun u32_value :: "json \<Rightarrow> u32 option" where
  "u32_value (JNumber (PosInt n)) = (if unat n < 2 ^ 32 then Some (ucast n) else None)"
| "u32_value _ = None"

definition optional_u32 :: "json_map \<Rightarrow> string \<Rightarrow> string \<Rightarrow> payload_error + u32 option" where
  "optional_u32 = optional_as u32_value"

definition parse_thumbnail_result :: "json \<Rightarrow> payload_error + viewport_thumbnail" where
  "parse_thumbnail_result result =
     bind_r (object_or ''thumbnail result is not an object'' result) (\<lambda>obj.
     bind_r (required_non_empty_str obj ''imageBase64'' ''result'') (\<lambda>image.
     bind_r (required_non_empty_str obj ''mimeType'' ''result'') (\<lambda>mime.
     bind_r (optional_u32 obj ''width'' ''result'') (\<lambda>w.
     bind_r (optional_u32 obj ''height'' ''result'') (\<lambda>h.
       Inr \<lparr>vt_image_base64 = image, vt_mime_type = mime, vt_width = w, vt_height = h\<rparr>)))))"

end
