(* ===== verification/Edit_Actions.thy ===== *)
theory Edit_Actions
  imports History_Edits Payloads
begin

text \<open>
  The execution of an undo, a redo or a retry by the actor of the edit service
  (\<open>run_history_action\<close> and \<open>run_group_history_action\<close> in \<open>edit_service.rs\<close>): the request each
  record sends, the check of its answer, and the loop over the steps of a group. What the loop
  cannot decide itself is an argument, one \<open>step_env\<close> per step: whether the authorization and
  the connection are current before the step, what other tasks do to the shared history while
  the request is in flight, the answer (\<open>None\<close> when the future is dropped at that await) and the
  connection generation afterwards.
\<close>

section \<open>Requests and answers\<close>

datatype history_result_kind = RCreate | RDuplicate | RDelete | RReparent | RProperty

definition insert_optional_string :: "json_map \<Rightarrow> string \<Rightarrow> string option \<Rightarrow> json_map" where
  "insert_optional_string params key v =
     (case v of None \<Rightarrow> params | Some s \<Rightarrow> params @ [(key, JString s)])"

text \<open>The method, the parameters and the kind of answer of a record in a direction.\<close>

fun history_call :: "history_record \<Rightarrow> history_direction \<Rightarrow> string \<times> json_map \<times> history_result_kind" where
  "history_call (Create i p k) Undo = (''scene.deleteObject'', [(''objectId'', JString i)], RDelete)"
| "history_call (Duplicate c i p) Undo = (''scene.deleteObject'', [(''objectId'', JString i)], RDelete)"
| "history_call (Create i p k) Redo =
     (''scene.createObject'', insert_optional_string (insert_optional_string [] ''parentId'' p) ''kind'' k, RCreate)"
| "history_call (Duplicate c i p) Redo =
     (''scene.duplicateObject'', insert_optional_string [(''objectId'', JString c)] ''newParentId'' p, RDuplicate)"
| "history_call (Reparent i p q) Undo =
     (''scene.reparentObject'', insert_optional_string [(''objectId'', JString i)] ''newParentId'' p, RReparent)"
| "history_call (Reparent i p q) Redo =
     (''scene.reparentObject'', insert_optional_string [(''objectId'', JString i)] ''newParentId'' q, RReparent)"
| "history_call (SetProperty i n v w) Undo =
     (''object.setProperty'', [(''objectId'', JString i), (''property'', JString n), (''value'', v)], RProperty)"
| "history_call (SetProperty i n v w) Redo =
     (''object.setProperty'', [(''objectId'', JString i), (''property'', JString n), (''value'', w)], RProperty)"

fun parse_history_result :: "history_result_kind \<Rightarrow> json \<Rightarrow> payload_error + unit" where
  "parse_history_result RCreate v = bind_r (parse_create_object_result v) (\<lambda>_. Inr ())"
| "parse_history_result RDuplicate v = bind_r (parse_duplicate_object_result v) (\<lambda>_. Inr ())"
| "parse_history_result RDelete v = bind_r (parse_delete_object_result v) (\<lambda>_. Inr ())"
| "parse_history_result RReparent v = bind_r (parse_reparent_object_result v) (\<lambda>_. Inr ())"
| "parse_history_result RProperty v = bind_r (parse_set_property_result v) (\<lambda>_. Inr ())"

definition validate_history_result :: "string \<Rightarrow> history_result_kind \<Rightarrow> json \<Rightarrow> backend_error + unit" where
  "validate_history_result meth k v =
     map_err (\<lambda>_. RequestFailed (Malformed_answer meth)) (parse_history_result k v)"

text \<open>\<open>send\<close> is the bridge: the answer of the engine to a method and its parameters.\<close>

type_synonym send = "string \<Rightarrow> json_map \<Rightarrow> backend_error + json"

definition run_history_action :: "send \<Rightarrow> history_action \<Rightarrow> backend_error + json" where
  "run_history_action send a =
     (let (meth, params, k) = history_call (ha_record a) (ha_direction a)
      in bind_r (send meth params) (\<lambda>v.
         bind_r (validate_history_result meth k v) (\<lambda>_. Inr v)))"

section \<open>Events\<close>

record edit_event_input =
  ei_operation :: string
  ei_object_id :: "string option"
  ei_property :: "string option"
  ei_value :: "json option"

record edit_event_details =
  ed_operation :: string
  ed_object_id :: "string option"
  ed_property :: "string option"
  ed_value :: "json option"
  ed_new_id :: "string option"

record edit_applied =
  ea_details :: edit_event_details
  ea_source :: edit_source_dto
  ea_group_id :: string
  ea_generation :: u64
  ea_sequence :: u64
  ea_history_revision :: u64
  ea_applied_revision :: u64

definition optional_string_value :: "string option \<Rightarrow> json" where
  "optional_string_value v = (case v of None \<Rightarrow> JNull | Some s \<Rightarrow> JString s)"

definition str_field :: "string \<Rightarrow> json \<Rightarrow> string option" where
  "str_field key v = Option.bind (jget key v) as_str"

definition applied_or :: "json \<Rightarrow> json \<Rightarrow> json" where
  "applied_or v fallback = (case jget ''appliedValue'' v of Some w \<Rightarrow> w | None \<Rightarrow> fallback)"

definition details :: "string \<Rightarrow> string option \<Rightarrow> string option \<Rightarrow> json option \<Rightarrow> string option \<Rightarrow> edit_event_details" where
  "details operation obj prop v new_id = \<lparr>ed_operation = operation, ed_object_id = obj, ed_property = prop,
     ed_value = v, ed_new_id = new_id\<rparr>"

fun action_details :: "history_record \<Rightarrow> history_direction \<Rightarrow> json \<Rightarrow> edit_event_details" where
  "action_details (Create i p k) Undo v = details ''undo'' (Some i) None None None"
| "action_details (Create i p k) Redo v = details ''redo'' None None None (str_field ''newId'' v)"
| "action_details (Duplicate c i p) Undo v = details ''undo'' (Some i) None None None"
| "action_details (Duplicate c i p) Redo v = details ''redo'' (Some c) None None (str_field ''newId'' v)"
| "action_details (Reparent i p q) Undo v =
     details ''undo'' (Some i) (Some ''parentId'') (Some (optional_string_value p)) None"
| "action_details (Reparent i p q) Redo v =
     details ''redo'' (Some i) (Some ''parentId'') (Some (optional_string_value q)) None"
| "action_details (SetProperty i n old new) Undo v = details ''undo'' (Some i) (Some n) (Some (applied_or v old)) None"
| "action_details (SetProperty i n old new) Redo v = details ''redo'' (Some i) (Some n) (Some (applied_or v new)) None"

fun request_details :: "history_request \<Rightarrow> json \<Rightarrow> edit_event_details" where
  "request_details (CreateObject p k) v = details ''createObject'' None None None (str_field ''newId'' v)"
| "request_details (DuplicateObject c p) v = details ''duplicateObject'' (Some c) None None (str_field ''newId'' v)"
| "request_details (DeleteObject i) v = details ''deleteObject'' (Some i) None None None"
| "request_details (ReparentObject i p old) v =
     details ''reparentObject'' (Some i) (Some ''parentId'') (Some (optional_string_value p)) None"
| "request_details (SetPropertyTo i n w old) v =
     details ''setProperty'' (Some i) (Some n) (Some (applied_or v w)) None"

definition edit_event_details_of ::
  "history_request option \<Rightarrow> edit_event_input option \<Rightarrow> history_action option \<Rightarrow> json \<Rightarrow> edit_event_details option" where
  "edit_event_details_of request input action v =
     (case action of
       Some a \<Rightarrow> Some (action_details (ha_record a) (ha_direction a) v)
     | None \<Rightarrow>
         (case request of
           Some r \<Rightarrow> Some (request_details r v)
         | None \<Rightarrow>
             map_option (\<lambda>input. details (ei_operation input) (ei_object_id input) (ei_property input) (ei_value input)
                 (if ei_operation input = ''componentAdd'' then str_field ''componentId'' v else None)) input))"

section \<open>The steps of a group\<close>

record step_env =
  en_auth :: bool
  en_bridge :: bool
  en_during :: "history_op list"
  en_reply :: "send option"
  en_generation :: "u64 option"

text \<open>The parts of \<open>GroupActionContext\<close> that the loop uses.\<close>

record group_context =
  gc_generation :: u64
  gc_source :: edit_source
  gc_sequence :: u64
  gc_retrying :: bool

datatype steps_end = All_done nat | Stopped backend_error | Dropped

definition step_action :: "history_action \<Rightarrow> history_action_step \<Rightarrow> history_action" where
  "step_action a step = \<lparr>ha_direction = ha_direction a, ha_entry_id = st_entry_id step,
     ha_record = st_record step, ha_group = ha_group a, ha_steps = [step], ha_grouped = True\<rparr>"

fun direction_kind :: "history_direction \<Rightarrow> edit_kind" where
  "direction_kind Undo = KUndo"
| "direction_kind Redo = KRedo"

definition step_context :: "group_context \<Rightarrow> history_action \<Rightarrow> history_operation_context" where
  "step_context c a = \<lparr>oc_source = gc_source c, oc_kind = direction_kind (ha_direction a),
     oc_sequence = gc_sequence c, oc_generation = gc_generation c, oc_group_token = None\<rparr>"

definition step_event ::
  "group_context \<Rightarrow> history_action \<Rightarrow> history_action_step \<Rightarrow> json \<Rightarrow> history_state \<Rightarrow> edit_applied list" where
  "step_event c a step v s =
     (case edit_event_details_of None None (Some (step_action a step)) v of
       None \<Rightarrow> []
     | Some d \<Rightarrow> [\<lparr>ea_details = d, ea_source = source_dto (gc_source c),
         ea_group_id = group_id (gk_generation (gm_key (ha_group a))) (gk_sequence (gm_key (ha_group a))),
         ea_generation = gc_generation c, ea_sequence = gc_sequence c,
         ea_history_revision = h_revision s, ea_applied_revision = h_applied_revision s\<rparr>])"

text \<open>A step whose answer arrived, on the synchronized history.\<close>

definition settle_step ::
  "json_lib \<Rightarrow> group_context \<Rightarrow> history_action \<Rightarrow> history_action_step \<Rightarrow> nat \<Rightarrow> u64 option
    \<Rightarrow> backend_error + json \<Rightarrow> history_state \<Rightarrow> (backend_error + json) \<times> history_state" where
  "settle_step L c a step completed generation reply s =
     (case reply of
       Inl e \<Rightarrow>
         (Inl e, if generation = Some (gc_generation c) then finish_group_failure a completed e s else s)
     | Inr v \<Rightarrow>
         if generation \<noteq> Some (gc_generation c) then (Inl NotConnected, s)
         else if \<not> accepted v then
           (Inl (RequestFailed Group_step_rejected), start_pending_group a completed False True s)
         else
           (case finish_group_step L a step (step_context c a) v s of
             (Inl e, s1) \<Rightarrow> (Inl e, finish_group_failure a completed e s1)
           | (Inr ok, s1) \<Rightarrow>
               if ok then (Inr v, s1)
               else (Inl (RequestFailed Group_result_unapplied), start_pending_group a completed True False s1)))"

text \<open>The loop; \<open>i\<close> counts its steps.\<close>

fun group_steps ::
  "json_lib \<Rightarrow> group_context \<Rightarrow> history_action \<Rightarrow> (nat \<Rightarrow> step_env) \<Rightarrow> nat \<Rightarrow> nat
    \<Rightarrow> history_action_step list \<Rightarrow> history_state \<Rightarrow> steps_end \<times> edit_applied list \<times> history_state" where
  "group_steps L c a env i completed [] s = (All_done completed, [], s)"
| "group_steps L c a env i completed (q # qs) s =
     (if \<not> en_auth (env i) then
        (if completed = 0 then (Stopped EditCancelled, [], s)
         else (Stopped (RequestFailed (Request_cancelled completed)), [],
               start_pending_group a completed False False s))
      else if \<not> en_bridge (env i) then (Stopped NotConnected, [], s)
      else
        (case refresh_action_step (ha_direction a) (gm_key (ha_group a)) (st_entry_id q) s of
          None \<Rightarrow> (Stopped NotConnected, [], s)
        | Some step \<Rightarrow>
            let s1 = history_run L (en_during (env i)) s
            in case en_reply (env i) of
                 None \<Rightarrow> (Dropped, [], s1)
               | Some send \<Rightarrow>
                   (case settle_step L c a step completed (en_generation (env i))
                           (run_history_action send (step_action a step))
                           (synchronize (en_generation (env i)) s1) of
                     (Inl e, s2) \<Rightarrow> (Stopped e, [], s2)
                   | (Inr v, s2) \<Rightarrow>
                       (case group_steps L c a env (Suc i) (sat_add completed 1) qs s2 of
                         (r, evs, s3) \<Rightarrow> (r, step_event c a step v s2 @ evs, s3)))))"

definition group_answer :: "history_action \<Rightarrow> nat \<Rightarrow> json" where
  "group_answer a completed =
     JObject [(''accepted'', JBool True),
       (''groupId'', JString (group_id (gk_generation (gm_key (ha_group a))) (gk_sequence (gm_key (ha_group a))))),
       (''completedCount'', jnat (min completed (gm_count (ha_group a)))),
       (''totalCount'', jnat (gm_count (ha_group a)))]"

definition start_count :: "group_context \<Rightarrow> history_state \<Rightarrow> nat" where
  "start_count c s =
     (if gc_retrying c then (case h_pending_group s of None \<Rightarrow> 0 | Some p \<Rightarrow> pg_completed p) else 0)"

text \<open>\<open>None\<close> for a future that was dropped before it returned.\<close>

definition run_group_history_action ::
  "json_lib \<Rightarrow> group_context \<Rightarrow> history_action \<Rightarrow> (nat \<Rightarrow> step_env) \<Rightarrow> history_state
    \<Rightarrow> (backend_error + queued_edit_result) option \<times> edit_applied list \<times> history_state" where
  "run_group_history_action L c a env s =
     (case group_steps L c a env 0 (start_count c s) (ha_steps a) s of
       (Dropped, evs, s1) \<Rightarrow> (None, evs, s1)
     | (Stopped e, evs, s1) \<Rightarrow> (Some (Inl e), evs, s1)
     | (All_done completed, evs, s1) \<Rightarrow>
         (Some (Inr (plain_result (group_answer a completed))), evs,
          if gc_retrying c then clear_completed_pending_group (gm_key (ha_group a)) s1 else s1))"

end
