(* ===== verification/Edit_Service.thy ===== *)
theory Edit_Service
  imports Edit_Group
begin

text \<open>
  The actor of the edit service (\<open>apps/editor/src-tauri/src/edit_service.rs\<close>): one queued item at
  a time, from the checks before it starts to the reply. What the actor does not decide itself
  is in \<open>item_world\<close>: the answers of the authorization and of the connection at each question,
  clocks, random bytes, and what happens while the bridge works. An event sink that is absent
  discards the events listed here. The traces an MCP request keeps of its own execution are
  returned as \<open>trace_call\<close>s by the control handler.
\<close>

section \<open>Items\<close>

datatype group_control =
    BeginNamed string
  | EndNamed string
  | CloseFailed u64
  | Boundary "string option" bool
  | Begin u64 u64 string
  | End u64 u64

datatype queued_action =
    A_edit
  | A_history history_action_request
  | A_retry
  | A_discard
  | A_group group_control

text \<open>\<open>qi_auth\<close> and \<open>qi_permit\<close> tell whether the item carries an authorization lease and a permit.\<close>

record queue_item =
  qi_sequence :: u64
  qi_source :: edit_source
  qi_kind :: edit_kind
  qi_generation :: u64
  qi_action :: queued_action
  qi_group_token :: "u64 option"
  qi_history_request :: "history_request option"
  qi_event_request :: "history_request option"
  qi_event_input :: "edit_event_input option"
  qi_auth :: bool
  qi_permit :: bool

datatype queue_outcome = Complete queued_edit_result | Reconfirm

fun into_value :: "queue_outcome \<Rightarrow> backend_error + json" where
  "into_value (Complete r) = Inr (qr_value r)"
| "into_value Reconfirm = Inl (RequestFailed Reconfirm_needed)"

datatype service_event = Applied edit_applied | HistoryChanged edit_history_summary

definition changed_since :: "edit_history_summary \<Rightarrow> history_state \<Rightarrow> service_event list" where
  "changed_since before s = (if summary s \<noteq> before then [HistoryChanged (summary s)] else [])"

definition null_outcome :: "backend_error + queue_outcome" where
  "null_outcome = Inr (Complete (plain_result JNull))"

section \<open>Control items\<close>

datatype trace_call = Display_group string | Control_finished

text \<open>\<open>serde_json::to_value\<close> of the discard result.\<close>

definition discard_json :: "edit_discard_result \<Rightarrow> json" where
  "discard_json d = JObject [(''groupId'', JString (dr_group_id d)),
     (''completedCount'', jnat (dr_completed_count d)), (''totalCount'', jnat (dr_total_count d)),
     (''outcomeUnknown'', JBool (dr_outcome_unknown d)), (''changesRemain'', JBool (dr_changes_remain d))]"

definition json_token :: "u64 option \<Rightarrow> json" where
  "json_token t = (case t of None \<Rightarrow> JNull | Some n \<Rightarrow> JNumber (PosInt n))"

text \<open>The action of a control item on the synchronized history of its own generation.\<close>

fun control_action ::
  "8 word list option \<Rightarrow> clock \<Rightarrow> queue_item \<Rightarrow> queued_action \<Rightarrow> history_state
    \<Rightarrow> (backend_error + queued_edit_result) \<times> trace_call list \<times> history_state" where
  "control_action filled ck item (A_group (BeginNamed name)) s =
     (case begin_named_group filled ck (qi_sequence item) name (qi_generation item) s of
       (Inl e, s1) \<Rightarrow> (Inl e, [], s1)
     | (Inr v, s1) \<Rightarrow> (Inr (plain_result v),
         [Display_group (group_id (qi_generation item) (qi_sequence item)), Control_finished], s1))"
| "control_action filled ck item (A_group (EndNamed secret)) s =
     (case end_named_group (ck_first ck) secret s of
       (Inl e, s1) \<Rightarrow> (Inl e, [], s1)
     | (Inr _, s1) \<Rightarrow> (Inr (plain_result (JObject [(''closed'', JBool True)])),
         (case active_display_group_id s of None \<Rightarrow> [] | Some g \<Rightarrow> [Display_group g]) @ [Control_finished], s1))"
| "control_action filled ck item (A_group (Boundary secret keep)) s =
     (case group_boundary (ck_first ck) secret keep s of
       (Inl e, s1) \<Rightarrow> (Inl e, [], s1)
     | (Inr token, s1) \<Rightarrow> (Inr (plain_result (json_token token)), [], s1))"
| "control_action filled ck item (A_group (CloseFailed token)) s =
     (Inr (plain_result JNull), [],
      if has_group token (qi_generation item) s then snd (close_group_unless None s) else s)"
| "control_action filled ck item (A_group (Begin token generation name)) s =
     (if generation = qi_generation item then
        (case begin_group ck token name (qi_source item) (qi_generation item) s of
          (Inl e, s1) \<Rightarrow> (Inl e, [], s1)
        | (Inr _, s1) \<Rightarrow> (Inr (plain_result JNull), [], s1))
      else (Inl (RequestFailed Malformed_control), [], s))"
| "control_action filled ck item (A_group (End token generation)) s =
     (if generation = qi_generation item then
        (case end_group (ck_first ck) token s of
          (Inl e, s1) \<Rightarrow> (Inl e, [], s1)
        | (Inr _, s1) \<Rightarrow> (Inr (plain_result JNull), [], s1))
      else (Inl (RequestFailed Malformed_control), [], s))"
| "control_action filled ck item A_discard s =
     (case discard_pending_group s of
       (Inl e, s1) \<Rightarrow> (Inl e, [], s1)
     | (Inr d, s1) \<Rightarrow> (Inr (plain_result (discard_json d)), [], s1))"
| "control_action filled ck item _ s = (Inl (RequestFailed Malformed_control), [], s)"

text \<open>\<open>auth\<close> and \<open>auth'\<close> are the two readings of the lease, \<open>now\<close> the first reading of the clock.\<close>

definition control_guarded ::
  "8 word list option \<Rightarrow> nat \<Rightarrow> clock \<Rightarrow> u64 option \<Rightarrow> bool \<Rightarrow> queue_item \<Rightarrow> history_state
    \<Rightarrow> (backend_error + queued_edit_result) \<times> trace_call list \<times> history_state" where
  "control_guarded filled now ck generation auth' item s =
     (let s1 = synchronize generation s
      in if generation \<noteq> Some (qi_generation item) then (Inl NotConnected, [], s1)
         else if qi_auth item \<and> \<not> auth' then (Inl McpAuthorizationRevoked, [], s1)
         else if h_pending s1 \<and> qi_action item \<noteq> A_discard then (Inl (RequestFailed Operation_pending), [], s1)
         else control_action filled ck item (qi_action item) (snd (expire_group now s1)))"

definition process_control_item ::
  "8 word list option \<Rightarrow> nat \<Rightarrow> clock \<Rightarrow> u64 option \<Rightarrow> bool \<Rightarrow> bool \<Rightarrow> queue_item \<Rightarrow> history_state
    \<Rightarrow> (backend_error + queue_outcome) \<times> trace_call list \<times> service_event list \<times> history_state" where
  "process_control_item filled now ck generation auth auth' item s =
     (if qi_auth item \<and> \<not> auth then (Inl McpAuthorizationRevoked, [], [], s)
      else
        (case control_guarded filled now ck generation auth' item s of
          (r, traces, s1) \<Rightarrow>
            (case r of Inl e \<Rightarrow> Inl e | Inr v \<Rightarrow> Inr (Complete v), traces, changed_since (summary s) s1, s1)))"

section \<open>Preparing an edit, an undo, a redo or a retry\<close>

datatype item_plan =
    Refused "backend_error + queue_outcome"
  | Planned "prepared_request option" "history_action option"

definition close_other_groups :: "nat \<Rightarrow> u64 option \<Rightarrow> history_state \<Rightarrow> history_state" where
  "close_other_groups now token s = snd (close_group_unless token (snd (expire_group now s)))"

text \<open>A cursor that was current before the groups were closed follows the change of revision.\<close>

definition follow_cursor :: "queued_action \<Rightarrow> history_state \<Rightarrow> history_state \<Rightarrow> queued_action" where
  "follow_cursor act s t =
     (case act of
       A_history r \<Rightarrow>
         if history_cursor (ar_direction r) s = (ar_expected_head_id r, ar_expected_revision r)
         then A_history (current_request (ar_direction r) t) else act
     | _ \<Rightarrow> act)"

definition plan_action :: "queued_action \<Rightarrow> history_state \<Rightarrow> (backend_error + queue_outcome) + history_action option" where
  "plan_action act s =
     (case act of
       A_history r \<Rightarrow> (case prepare_action r s of None \<Rightarrow> Inl null_outcome | Some a \<Rightarrow> Inr (Some a))
     | A_retry \<Rightarrow>
         (case prepare_retry s of None \<Rightarrow> Inl (Inl (RequestFailed Nothing_to_retry)) | Some a \<Rightarrow> Inr (Some a))
     | _ \<Rightarrow> Inr None)"

definition prepare_request :: "queue_item \<Rightarrow> history_state \<Rightarrow> backend_error + prepared_request option" where
  "prepare_request item s =
     (case qi_history_request item of
       None \<Rightarrow> Inr None
     | Some r \<Rightarrow> bind_r (prepare r (qi_source item) (qi_generation item) s) (\<lambda>p. Inr (Some p)))"

definition group_missing :: "queue_item \<Rightarrow> history_state \<Rightarrow> bool" where
  "group_missing item s \<longleftrightarrow>
     (case qi_group_token item of None \<Rightarrow> False | Some token \<Rightarrow> \<not> has_group token (qi_generation item) s)"

definition prepare_item ::
  "nat \<Rightarrow> u64 option \<Rightarrow> queue_item \<Rightarrow> history_state \<Rightarrow> item_plan \<times> service_event list \<times> history_state" where
  "prepare_item now generation item s =
     (let s0 = synchronize generation s; before = summary s0; retry = (qi_action item = A_retry)
      in if h_pending s0 \<and> \<not> retry then (Refused (Inl (RequestFailed Partial_failure_left)), [], s0)
         else
           (let s1 = (if retry then s0 else close_other_groups now (qi_group_token item) s0);
                act = (if retry then A_retry else follow_cursor (qi_action item) s0 s1)
            in if \<not> retry \<and> group_missing item s1
               then (Refused (Inl (RequestFailed Group_not_current)), changed_since before s1, s1)
               else
                 (case prepare_request item s1 of
                   Inl e \<Rightarrow> (Refused (Inl e), changed_since before s1, s1)
                 | Inr prepared \<Rightarrow>
                     (case plan_action act s1 of
                       Inl out \<Rightarrow> (Refused out, if retry then [] else changed_since before s1, s1)
                     | Inr a \<Rightarrow> (Planned prepared a, [], s1)))))"

section \<open>Settling an item\<close>

definition item_context :: "queue_item \<Rightarrow> history_operation_context" where
  "item_context item = \<lparr>oc_source = qi_source item, oc_kind = qi_kind item, oc_sequence = qi_sequence item,
     oc_generation = qi_generation item, oc_group_token = qi_group_token item\<rparr>"

text \<open>An edit's success on the history of its own generation.\<close>

definition settle_edit ::
  "json_lib \<Rightarrow> clock \<Rightarrow> queue_item \<Rightarrow> prepared_request option \<Rightarrow> queued_edit_result \<Rightarrow> history_state \<Rightarrow> history_state" where
  "settle_edit L ck item prepared v s =
     (let s1 = (case prepared of
                 Some p \<Rightarrow> record_success_in_group L ck p (item_context item) v s
               | None \<Rightarrow>
                   if qi_kind item = KEdit \<and> accepted (qr_value v)
                   then record_untracked_success (qi_source item) (qi_kind item) (qi_sequence item) (qi_generation item) s
                   else s)
      in if qi_group_token item \<noteq> None \<and> \<not> accepted (qr_value v) then snd (close_group_unless None s1) else s1)"

definition settle_success ::
  "json_lib \<Rightarrow> clock \<Rightarrow> queue_item \<Rightarrow> bool \<Rightarrow> history_action option \<Rightarrow> prepared_request option \<Rightarrow> u64 option
    \<Rightarrow> queued_edit_result \<Rightarrow> history_state \<Rightarrow> (backend_error + queued_edit_result) \<times> history_state" where
  "settle_success L ck item grouped plan prepared generation v s =
     (let s1 = synchronize generation s
      in if generation \<noteq> Some (qi_generation item) then (Inl NotConnected, s1)
         else if grouped then (Inr v, s1)
         else
           (case plan of
             Some a \<Rightarrow>
               (case finish_action_success L a (qi_source item) (qi_kind item) (qi_sequence item)
                       (qi_generation item) (qr_value v) s1 of
                 (Inl e, s2) \<Rightarrow> (Inl e, s2)
               | (Inr ok, s2) \<Rightarrow> (Inr (if ok then v else plain_result JNull), s2))
           | None \<Rightarrow> (Inr v, settle_edit L ck item prepared v s1)))"

definition method_unsupported :: "backend_error \<Rightarrow> bool" where
  "method_unsupported e = (case e of EngineFailed c _ \<Rightarrow> c = ''METHOD_NOT_SUPPORTED'' | _ \<Rightarrow> False)"

definition structural :: "queue_item \<Rightarrow> bool" where
  "structural item = (case qi_history_request item of None \<Rightarrow> False | Some r \<Rightarrow> is_scene_structure_edit r)"

text \<open>\<open>unknown\<close>: the MCP request was sent and its outcome is not known.\<close>

definition settle_failure ::
  "clock \<Rightarrow> queue_item \<Rightarrow> bool \<Rightarrow> history_action option \<Rightarrow> bool \<Rightarrow> u64 option \<Rightarrow> backend_error
    \<Rightarrow> history_state \<Rightarrow> history_state" where
  "settle_failure ck item grouped plan unknown generation e s =
     (let s1 = synchronize generation s
      in if generation \<noteq> Some (qi_generation item) then s1
         else
           (let s2 = (if qi_group_token item \<noteq> None then snd (close_group_unless None s1) else s1);
                s3 = (case (if grouped then None else plan) of
                       Some a \<Rightarrow> finish_action_failure a s2
                     | None \<Rightarrow> if method_unsupported e \<and> structural item then mark_edit_unsupported s2 else s2)
            in if qi_kind item \<noteq> KRuntimeControl \<and> \<not> grouped \<and> unknown
               then mark_mcp_outcome_unknown (ck_wall ck) (qi_sequence item) (qi_generation item) s3 else s3))"

section \<open>Running an item\<close>

text \<open>
  What reaches the actor while an action runs, in order: the watch channels of shutdown,
  sessions and authorization, and the action's result with the generation read after it.
\<close>

datatype run_event =
    Shutdown_changed bool
  | Shutdown_closed
  | Session_changed "u64 option" "u64 option"
  | Sessions_closed
  | Auth_changed
  | Auth_closed
  | Action_done "u64 option" "backend_error + queued_edit_result"

record run_setting =
  rs_item :: queue_item
  rs_grouped :: bool
  rs_plan :: "history_action option"
  rs_prepared :: "prepared_request option"
  rs_unknown :: bool
  rs_clock :: clock

text \<open>The outcome, whether the actor stops, the events and the history; \<open>None\<close> while it still runs.\<close>

type_synonym run_end = "(backend_error + queued_edit_result) \<times> bool \<times> service_event list \<times> history_state"

definition settle ::
  "json_lib \<Rightarrow> run_setting \<Rightarrow> u64 option \<Rightarrow> backend_error + queued_edit_result \<Rightarrow> history_state
    \<Rightarrow> (backend_error + queued_edit_result) \<times> history_state" where
  "settle L r generation result s =
     (case result of
       Inr v \<Rightarrow> settle_success L (rs_clock r) (rs_item r) (rs_grouped r) (rs_plan r) (rs_prepared r) generation v s
     | Inl e \<Rightarrow> (Inl e, settle_failure (rs_clock r) (rs_item r) (rs_grouped r) (rs_plan r) (rs_unknown r) generation e s))"

fun run_events :: "json_lib \<Rightarrow> run_setting \<Rightarrow> run_event list \<Rightarrow> history_state \<Rightarrow> run_end option" where
  "run_events L r [] s = None"
| "run_events L r (Shutdown_closed # es) s = Some (Inl EditServiceStopping, True, [], s)"
| "run_events L r (Shutdown_changed stop # es) s =
     (if stop then Some (Inl EditServiceStopping, True, [], s) else run_events L r es s)"
| "run_events L r (Sessions_closed # es) s = Some (Inl NotConnected, False, [], s)"
| "run_events L r (Session_changed session current # es) s =
     (let s1 = synchronize current s
      in if session \<noteq> Some (qi_generation (rs_item r)) \<or> current \<noteq> Some (qi_generation (rs_item r))
         then Some (Inl NotConnected, False, [], s1) else run_events L r es s1)"
| "run_events L r (Auth_closed # es) s = Some (Inl McpAuthorizationRevoked, False, [], s)"
| "run_events L r (Auth_changed # es) s =
     (let s1 = snd (revoke_mcp_group s)
      in map_option (\<lambda>(out, stop, evs, t). (out, stop, changed_since (summary s) s1 @ evs, t))
           (run_events L r es s1))"
| "run_events L r (Action_done generation result # es) s =
     (case settle L r generation result s of (out, s1) \<Rightarrow> Some (out, False, [], s1))"

text \<open>
  A group action changes the history itself while it runs; the other changes are in its step
  environments, and \<open>break\<close> is why it was dropped if it was.
\<close>

definition run_grouped ::
  "json_lib \<Rightarrow> run_setting \<Rightarrow> (nat \<Rightarrow> step_env) \<Rightarrow> u64 option \<Rightarrow> backend_error \<times> bool \<Rightarrow> history_action
    \<Rightarrow> history_state \<Rightarrow> run_end" where
  "run_grouped L r env generation break_reason a s =
     (case run_group_history_action L
            \<lparr>gc_generation = qi_generation (rs_item r), gc_source = qi_source (rs_item r),
             gc_sequence = qi_sequence (rs_item r), gc_retrying = (qi_action (rs_item r) = A_retry)\<rparr> a env s of
       (None, evs, s1) \<Rightarrow> (Inl (fst break_reason), snd break_reason, map Applied evs, s1)
     | (Some result, evs, s1) \<Rightarrow>
         (case settle L r generation result s1 of (out, s2) \<Rightarrow> (out, False, map Applied evs, s2)))"

text \<open>The event of a single action, after it has been settled.\<close>

definition applied_event ::
  "queue_item \<Rightarrow> history_action option \<Rightarrow> edit_history_summary \<Rightarrow> edit_history_summary \<Rightarrow> backend_error + queued_edit_result
    \<Rightarrow> service_event list" where
  "applied_event item plan before after_run out =
     (case out of
       Inl e \<Rightarrow> []
     | Inr v \<Rightarrow>
         if hs_applied_revision after_run \<noteq> hs_applied_revision before \<and> accepted (qr_value v)
            \<and> qi_kind item \<noteq> KRuntimeControl
         then
           (case edit_event_details_of (qi_event_request item) (qi_event_input item) plan (qr_value v) of
             None \<Rightarrow> []
           | Some d \<Rightarrow>
               let seq = (case qi_group_token item of
                            Some token \<Rightarrow> token
                          | None \<Rightarrow> (case plan of Some a \<Rightarrow> gk_sequence (gm_key (ha_group a)) | None \<Rightarrow> qi_sequence item))
               in [Applied \<lparr>ea_details = d, ea_source = source_dto (qi_source item),
                     ea_group_id = group_id (qi_generation item) seq,
                     ea_generation = qi_generation item, ea_sequence = qi_sequence item,
                     ea_history_revision = hs_history_revision after_run,
                     ea_applied_revision = hs_applied_revision after_run\<rparr>])
         else [])"

section \<open>The handler of an item\<close>

datatype permit_result = Permit_ok | Permit_reconfirm | Permit_error string | Permit_shutdown

record item_world =
  iw_auth :: bool
  iw_cancelled :: bool
  iw_generation :: "u64 option"
  iw_permit :: permit_result
  iw_now :: nat
  iw_clock :: clock
  iw_prepare_generation :: "u64 option"
  iw_auth_late :: bool
  iw_started :: bool
  iw_unknown :: bool
  iw_events :: "run_event list"
  iw_env :: "nat \<Rightarrow> step_env"
  iw_break :: "backend_error \<times> bool"
  iw_end_generation :: "u64 option"
  iw_filled :: "8 word list option"
  iw_auth_control :: bool

record item_end =
  ie_outcome :: "backend_error + queue_outcome"
  ie_stopping :: bool
  ie_events :: "service_event list"
  ie_history :: history_state

definition reply :: "backend_error + queue_outcome \<Rightarrow> service_event list \<Rightarrow> history_state \<Rightarrow> item_end option" where
  "reply out evs s = Some \<lparr>ie_outcome = out, ie_stopping = False, ie_events = evs, ie_history = s\<rparr>"

definition outcome_of :: "backend_error + queued_edit_result \<Rightarrow> backend_error + queue_outcome" where
  "outcome_of out = (case out of Inl e \<Rightarrow> Inl e | Inr v \<Rightarrow> Inr (Complete v))"

text \<open>A planned item: the last checks, the run, the events, the reply.\<close>

definition is_grouped :: "queue_item \<Rightarrow> history_action option \<Rightarrow> bool" where
  "is_grouped item plan =
     (case plan of None \<Rightarrow> False | Some a \<Rightarrow> ha_grouped a \<or> qi_action item = A_retry \<or> qi_source item = Mcp)"

definition execute_item ::
  "json_lib \<Rightarrow> item_world \<Rightarrow> queue_item \<Rightarrow> prepared_request option \<Rightarrow> history_action option
    \<Rightarrow> edit_history_summary \<Rightarrow> history_state \<Rightarrow> item_end option" where
  "execute_item L w item prepared plan before s =
     (if qi_auth item \<and> \<not> iw_auth_late w then reply (Inl McpAuthorizationRevoked) [] s
      else if \<not> iw_started w then reply (Inl EditCancelled) [] s
      else
        (let grouped = is_grouped item plan;
             r = \<lparr>rs_item = item, rs_grouped = grouped, rs_plan = plan, rs_prepared = prepared,
                  rs_unknown = iw_unknown w, rs_clock = iw_clock w\<rparr>
         in map_option
              (\<lambda>(out, stop, evs, t).
                \<lparr>ie_outcome = outcome_of out, ie_stopping = stop,
                 ie_events = evs @ (if grouped then [] else applied_event item plan before (summary t) out)
                   @ changed_since before t,
                 ie_history = t\<rparr>)
              (case (if grouped then plan else None) of
                Some a \<Rightarrow> Some (run_grouped L r (iw_env w) (iw_end_generation w) (iw_break w) a s)
              | None \<Rightarrow> run_events L r (iw_events w) s)))"

definition is_control :: "queue_item \<Rightarrow> bool" where
  "is_control item \<longleftrightarrow> (case qi_action item of A_group _ \<Rightarrow> True | A_discard \<Rightarrow> True | _ \<Rightarrow> False)"

definition is_history :: "queue_item \<Rightarrow> bool" where
  "is_history item \<longleftrightarrow> (case qi_action item of A_history _ \<Rightarrow> True | _ \<Rightarrow> False)"

definition permitted :: "item_world \<Rightarrow> queue_item \<Rightarrow> (backend_error + queue_outcome) option" where
  "permitted w item =
     (if \<not> qi_permit item then None
      else if \<not> qi_auth item then Some (Inl McpAuthorizationRevoked)
      else
        (case iw_permit w of
          Permit_ok \<Rightarrow> None
        | Permit_reconfirm \<Rightarrow> Some (Inr Reconfirm)
        | Permit_error m \<Rightarrow> Some (Inl (RequestFailed (Text m)))
        | Permit_shutdown \<Rightarrow> Some (Inl EditServiceStopping)))"

definition run_planned :: "json_lib \<Rightarrow> item_world \<Rightarrow> queue_item \<Rightarrow> history_state \<Rightarrow> item_end option" where
  "run_planned L w item s =
     (case prepare_item (iw_now w) (iw_prepare_generation w) item s of
       (Refused out, evs, s1) \<Rightarrow> reply out evs s1
     | (Planned prepared plan, evs, s1) \<Rightarrow>
         execute_item L w item prepared plan (summary (synchronize (iw_prepare_generation w) s)) s1)"

definition process_item_inner :: "json_lib \<Rightarrow> item_world \<Rightarrow> queue_item \<Rightarrow> history_state \<Rightarrow> item_end option" where
  "process_item_inner L w item s =
     (if qi_auth item \<and> \<not> iw_auth w then reply (Inl McpAuthorizationRevoked) [] s
      else if iw_cancelled w then reply (Inl EditCancelled) [] s
      else if is_control item then
        (case process_control_item (iw_filled w) (iw_now w) (iw_clock w) (iw_generation w) (iw_auth_late w)
                (iw_auth_control w) item s of
          (out, traces, evs, s1) \<Rightarrow> reply out evs s1)
      else if iw_generation w \<noteq> Some (qi_generation item) then
        reply (if qi_source item = Ui \<and> is_history item then null_outcome else Inl NotConnected) [] s
      else
        (case permitted w item of
          Some out \<Rightarrow>
            Some \<lparr>ie_outcome = out, ie_stopping = (out = Inl EditServiceStopping), ie_events = [], ie_history = s\<rparr>
        | None \<Rightarrow> run_planned L w item s))"

end
