(* ===== verification/Edit_Actor.thy ===== *)
theory Edit_Actor
  imports Edit_Service History_Invariants
begin

text \<open>
  The edit service around its items (\<open>EditService\<close> and \<open>run_actor\<close> in \<open>edit_service.rs\<close>): the
  admission of requests into the bounded queue, the actor's loop with the answers it has sent,
  the shutdown, and the ticket whose cancellation races with the start of its item.
\<close>

section \<open>The service\<close>

text \<open>
  The lock of the admission orders the client's calls; the channel is \<open>sv_queue\<close> with its
  receiver open until the actor leaves its loop. Answers and events are kept in the order sent.
\<close>

record service =
  sv_accepting :: bool
  sv_next_sequence :: u64
  sv_capacity :: nat
  sv_queue :: "queue_item list"
  sv_receiving :: bool
  sv_history :: history_state
  sv_observed :: "u64 option"
  sv_replies :: "(u64 \<times> (backend_error + queue_outcome)) list"
  sv_events :: "service_event list"
  sv_revocations :: nat

definition QUEUE_CAPACITY :: nat where "QUEUE_CAPACITY = 64"

text \<open>\<open>with_capacity\<close> and the start of the actor on a connection generation.\<close>

definition service_new :: "nat \<Rightarrow> u64 option \<Rightarrow> service" where
  "service_new capacity generation = \<lparr>sv_accepting = True, sv_next_sequence = 0, sv_capacity = capacity,
     sv_queue = [], sv_receiving = True, sv_history = synchronize generation history_new,
     sv_observed = generation, sv_replies = [], sv_events = [], sv_revocations = 0\<rparr>"

text \<open>The bridge as the service sees it: the current generation and the session's lease.\<close>

record bridge =
  br_generation :: "u64 option"
  br_session :: "u64 option"

definition pin :: "bridge \<Rightarrow> backend_error + u64" where
  "pin b = (case br_session b of
       Some g \<Rightarrow> if br_generation b = Some g then Inr g else Inl NotConnected
     | None \<Rightarrow> Inl NotConnected)"

section \<open>Admission\<close>

record enqueue_context =
  ec_source :: edit_source
  ec_kind :: edit_kind
  ec_group_token :: "u64 option"
  ec_history_request :: "history_request option"
  ec_event_request :: "history_request option"
  ec_event_input :: "edit_event_input option"
  ec_auth :: bool
  ec_permit :: bool

definition try_send :: "queue_item \<Rightarrow> service \<Rightarrow> (backend_error + u64) \<times> service" where
  "try_send item sv =
     (if \<not> sv_receiving sv then (Inl EditServiceStopping, sv)
      else if length (sv_queue sv) \<ge> sv_capacity sv then (Inl EditQueueFull, sv)
      else (Inr (qi_sequence item),
            sv\<lparr>sv_queue := sv_queue sv @ [item], sv_next_sequence := sv_next_sequence sv + 1\<rparr>))"

definition enqueue_action_with_context ::
  "bridge \<Rightarrow> enqueue_context \<Rightarrow> queued_action \<Rightarrow> service \<Rightarrow> (backend_error + u64) \<times> service" where
  "enqueue_action_with_context b c act sv =
     (if \<not> sv_accepting sv then (Inl EditServiceStopping, sv)
      else
        (case pin b of
          Inl e \<Rightarrow> (Inl e, sv)
        | Inr generation \<Rightarrow>
            try_send \<lparr>qi_sequence = sv_next_sequence sv, qi_source = ec_source c, qi_kind = ec_kind c,
              qi_generation = generation, qi_action = act, qi_group_token = ec_group_token c,
              qi_history_request = ec_history_request c, qi_event_request = ec_event_request c,
              qi_event_input = ec_event_input c, qi_auth = (ec_auth c \<or> ec_source c = Mcp),
              qi_permit = ec_permit c\<rparr> sv))"

text \<open>\<open>build\<close> makes the action from the sequence number and the generation.\<close>

definition enqueue_control_with_auth ::
  "bridge \<Rightarrow> edit_source \<Rightarrow> bool \<Rightarrow> (u64 \<Rightarrow> u64 \<Rightarrow> queued_action) \<Rightarrow> service \<Rightarrow> (backend_error + u64) \<times> service" where
  "enqueue_control_with_auth b source auth build sv =
     (if \<not> sv_accepting sv then (Inl EditServiceStopping, sv)
      else
        (case pin b of
          Inl e \<Rightarrow> (Inl e, sv)
        | Inr generation \<Rightarrow>
            try_send \<lparr>qi_sequence = sv_next_sequence sv, qi_source = source, qi_kind = KEdit,
              qi_generation = generation, qi_action = build (sv_next_sequence sv) generation,
              qi_group_token = None, qi_history_request = None, qi_event_request = None,
              qi_event_input = None, qi_auth = auth, qi_permit = False\<rparr> sv))"

definition synchronize_history_if_disconnected :: "bridge \<Rightarrow> service \<Rightarrow> service" where
  "synchronize_history_if_disconnected b sv =
     (if br_generation b = None then sv\<lparr>sv_history := synchronize None (sv_history sv)\<rparr> else sv)"

definition can_prepare_history_action ::
  "bridge \<Rightarrow> u64 \<Rightarrow> history_action_request \<Rightarrow> service \<Rightarrow> bool \<times> service" where
  "can_prepare_history_action b expected_generation request sv =
     (if br_generation b \<noteq> Some expected_generation then (False, sv)
      else
        (let h = synchronize (br_generation b) (sv_history sv)
         in (has_active_group h \<or> prepare_action request h \<noteq> None, sv\<lparr>sv_history := h\<rparr>)))"

datatype history_ticket = Noop_ticket | Queued_ticket u64

definition enqueue_history_action ::
  "bridge \<Rightarrow> edit_source \<Rightarrow> history_action_request \<Rightarrow> service \<Rightarrow> (backend_error + history_ticket) \<times> service" where
  "enqueue_history_action b source request sv =
     (if \<not> sv_accepting sv then (Inl EditServiceStopping, sv)
      else
        (case pin b of
          Inl NotConnected \<Rightarrow> (Inr Noop_ticket, synchronize_history_if_disconnected b sv)
        | Inl e \<Rightarrow> (Inl e, sv)
        | Inr generation \<Rightarrow>
            (case can_prepare_history_action b generation request sv of
              (can_run, sv1) \<Rightarrow>
                if \<not> can_run \<and> \<not> h_pending (sv_history sv1) then (Inr Noop_ticket, sv1)
                else
                  (case try_send \<lparr>qi_sequence = sv_next_sequence sv1, qi_source = source,
                      qi_kind = direction_kind (ar_direction request), qi_generation = generation,
                      qi_action = A_history request, qi_group_token = None, qi_history_request = None,
                      qi_event_request = None, qi_event_input = None, qi_auth = (source = Mcp),
                      qi_permit = False\<rparr> sv1 of
                    (Inl e, sv2) \<Rightarrow> (Inl e, sv2)
                  | (Inr n, sv2) \<Rightarrow> (Inr (Queued_ticket n), sv2)))))"

text \<open>The end of \<open>shutdown\<close>: the admission closes first, the history is cleared when the actor has ended.\<close>

definition close_admission :: "service \<Rightarrow> service" where
  "close_admission sv = sv\<lparr>sv_accepting := False\<rparr>"

definition finish_shutdown :: "service \<Rightarrow> service" where
  "finish_shutdown sv = sv\<lparr>sv_history := clear_for_shutdown (sv_history sv)\<rparr>"

section \<open>The actor\<close>

datatype actor_event =
    Stop_changed bool
  | Stop_closed
  | Actor_session "u64 option"
  | Actor_sessions_closed
  | Actor_auth
  | Actor_auth_closed
  | Group_deadline nat
  | Item_received item_world

text \<open>Leaving the loop: the receiver closes and every queued item is answered.\<close>

definition leave_loop :: "service \<Rightarrow> service" where
  "leave_loop sv = sv\<lparr>sv_receiving := False, sv_queue := [],
     sv_replies := sv_replies sv @ map (\<lambda>item. (qi_sequence item, Inl EditServiceStopping)) (sv_queue sv)\<rparr>"

definition with_history :: "(history_state \<Rightarrow> history_state) \<Rightarrow> service \<Rightarrow> service" where
  "with_history f sv = sv\<lparr>sv_history := f (sv_history sv),
     sv_events := sv_events sv @ changed_since (summary (sv_history sv)) (f (sv_history sv))\<rparr>"

definition answer_item :: "queue_item \<Rightarrow> queue_item list \<Rightarrow> item_end \<Rightarrow> service \<Rightarrow> service" where
  "answer_item item rest e sv =
     (let sv1 = sv\<lparr>sv_queue := rest, sv_history := ie_history e,
                   sv_replies := sv_replies sv @ [(qi_sequence item, ie_outcome e)],
                   sv_events := sv_events sv @ ie_events e\<rparr>
      in if ie_stopping e then leave_loop sv1 else sv1)"

text \<open>One turn of the loop; \<open>None\<close> when the event cannot happen or the item still runs.\<close>

fun actor_turn :: "json_lib \<Rightarrow> actor_event \<Rightarrow> service \<Rightarrow> service option" where
  "actor_turn L (Stop_changed stop) sv = Some (if stop then leave_loop sv else sv)"
| "actor_turn L Stop_closed sv = Some (leave_loop sv)"
| "actor_turn L Actor_sessions_closed sv = Some (leave_loop sv)"
| "actor_turn L Actor_auth_closed sv = Some (leave_loop sv)"
| "actor_turn L (Actor_session generation) sv =
     (let sv1 = (if generation \<noteq> sv_observed sv
                 then sv\<lparr>sv_observed := generation, sv_revocations := Suc (sv_revocations sv)\<rparr> else sv)
      in Some (with_history (synchronize generation) sv1))"
| "actor_turn L Actor_auth sv = Some (with_history (\<lambda>h. snd (revoke_mcp_group h)) sv)"
| "actor_turn L (Group_deadline now) sv =
     (case expire_group now (sv_history sv) of
       (expired, h) \<Rightarrow>
         Some (sv\<lparr>sv_history := h, sv_events := sv_events sv @ (if expired then [HistoryChanged (summary h)] else [])\<rparr>))"
| "actor_turn L (Item_received w) sv =
     (case sv_queue sv of
       [] \<Rightarrow> None
     | item # rest \<Rightarrow> map_option (\<lambda>e. answer_item item rest e sv) (process_item_inner L w item (sv_history sv)))"

section \<open>Steps of the system\<close>

datatype client_call =
    Enqueue bridge enqueue_context queued_action
  | Enqueue_control bridge edit_source bool "u64 \<Rightarrow> u64 \<Rightarrow> queued_action"
  | Enqueue_history bridge edit_source history_action_request
  | Close_admission
  | Finish_shutdown
  | Read_history "u64 option"

text \<open>The reading calls (\<open>history_summary\<close>, \<open>history_cursor\<close> and their like) synchronize the history.\<close>

fun client_turn :: "client_call \<Rightarrow> service \<Rightarrow> service" where
  "client_turn (Enqueue b c act) sv = snd (enqueue_action_with_context b c act sv)"
| "client_turn (Enqueue_control b source auth build) sv = snd (enqueue_control_with_auth b source auth build sv)"
| "client_turn (Enqueue_history b source request) sv = snd (enqueue_history_action b source request sv)"
| "client_turn Close_admission sv = close_admission sv"
| "client_turn Finish_shutdown sv = finish_shutdown sv"
| "client_turn (Read_history generation) sv = sv\<lparr>sv_history := synchronize generation (sv_history sv)\<rparr>"

inductive service_step :: "json_lib \<Rightarrow> service \<Rightarrow> service \<Rightarrow> bool" for L where
  client: "service_step L sv (client_turn call sv)"
| actor: "sv_receiving sv \<Longrightarrow> actor_turn L ev sv = Some sv' \<Longrightarrow> service_step L sv sv'"

inductive service_reach :: "json_lib \<Rightarrow> nat \<Rightarrow> service \<Rightarrow> bool" for L capacity where
  start: "service_reach L capacity (service_new capacity generation)"
| step: "service_reach L capacity sv \<Longrightarrow> service_step L sv sv' \<Longrightarrow> service_reach L capacity sv'"


end
