(* ===== verification/Edit_Actor_Laws.thy ===== *)
theory Edit_Actor_Laws
  imports Edit_Actor
begin

text \<open>
  The service keeps its promises: an item changes the history only through the operations of
  \<open>History_Ops\<close>, so every invariant of those operations is one of the service (the locale
  \<open>history_invariant\<close>); every admitted item is answered once, in order; a partial failure
  blocks everything but its retry and discard; an undo of the shown entry survives the closing of a
  group; and a ticket's report after its deadline is true.
\<close>

section \<open>The history changes only through its operations\<close>

definition runs :: "json_lib \<Rightarrow> history_state \<Rightarrow> history_state \<Rightarrow> bool" where
  "runs L s t \<longleftrightarrow> (\<exists>ops. t = history_run L ops s)"

lemma runs_refl [simp]: "runs L s s"
  unfolding runs_def by (rule exI [of _ "[]"]) simp

lemma runs_trans: "runs L s t \<Longrightarrow> runs L t u \<Longrightarrow> runs L s u"
proof -
  assume "runs L s t" "runs L t u"
  then obtain xs ys where "t = history_run L xs s" "u = history_run L ys t" by (auto simp: runs_def)
  then have "u = history_run L (xs @ ys) s" by (simp add: history_run_def)
  then show ?thesis by (auto simp: runs_def)
qed

lemma runs_exec: "runs L s (history_exec L op s)"
  unfolding runs_def by (rule exI [of _ "[op]"]) (simp add: history_run_def)

lemma runs_run [simp]: "runs L s (history_run L ops s)"
  by (auto simp: runs_def)

text \<open>Each operation, by its name.\<close>

lemma runs_ops [simp]:
  "runs L s (synchronize g s)" "runs L s (clear_for_shutdown s)"
  "runs L s (snd (expire_group now s))" "runs L s (snd (close_group_unless t s))"
  "runs L s (snd (group_boundary now sec keep s))" "runs L s (snd (end_named_group now sec' s))"
  "runs L s (snd (begin_group ck token n src g' s))" "runs L s (snd (begin_named_group b ck token n g' s))"
  "runs L s (snd (end_group now token s))" "runs L s (snd (revoke_mcp_group s))"
  "runs L s (start_pending_group a n' u r s)" "runs L s (finish_group_failure a n' e s)"
  "runs L s (snd (finish_group_step L a st ctx v s))" "runs L s (clear_completed_pending_group key s)"
  "runs L s (snd (discard_pending_group s))" "runs L s (snd (finish_action_success L a src k i g' v s))"
  "runs L s (finish_action_failure a s)" "runs L s (mark_edit_unsupported s)"
  "runs L s (mark_mcp_outcome_unknown w i g' s)" "runs L s (record_untracked_success src k i g' s)"
  "runs L s (record_success_in_group L ck p ctx res s)"
  using runs_exec [of L s "O_synchronize g"] runs_exec [of L s O_shutdown] runs_exec [of L s "O_expire_group now"]
    runs_exec [of L s "O_close_group_unless t"] runs_exec [of L s "O_group_boundary now sec keep"]
    runs_exec [of L s "O_end_named_group now sec'"] runs_exec [of L s "O_begin_group ck token n src g'"]
    runs_exec [of L s "O_begin_named_group b ck token n g'"] runs_exec [of L s "O_end_group now token"]
    runs_exec [of L s O_revoke_mcp_group] runs_exec [of L s "O_start_pending_group a n' u r"]
    runs_exec [of L s "O_finish_group_failure a n' e"] runs_exec [of L s "O_finish_group_step a st ctx v"]
    runs_exec [of L s "O_clear_completed_pending_group key"] runs_exec [of L s O_discard_pending_group]
    runs_exec [of L s "O_finish_action_success a src k i g' v"] runs_exec [of L s "O_finish_action_failure a"]
    runs_exec [of L s O_mark_edit_unsupported] runs_exec [of L s "O_mark_mcp_outcome_unknown w i g'"]
    runs_exec [of L s "O_record_untracked_success src k i g'"] runs_exec [of L s "O_record_success ck p ctx res"]
  by simp_all

lemma runs_snd: "p = (x, t) \<Longrightarrow> runs L s (snd p) \<Longrightarrow> runs L s t"
  by simp

lemmas runs_results = runs_snd [OF _ runs_ops(3)] runs_snd [OF _ runs_ops(5)] runs_snd [OF _ runs_ops(6)]
  runs_snd [OF _ runs_ops(7)] runs_snd [OF _ runs_ops(8)] runs_snd [OF _ runs_ops(9)]
  runs_snd [OF _ runs_ops(13)] runs_snd [OF _ runs_ops(15)] runs_snd [OF _ runs_ops(16)]

lemma runs_settle_step: "runs L s (snd (settle_step L c a step n g ans s))"
proof (cases ans)
  case (Inr v)
  obtain res t where t: "finish_group_step L a step (step_context c a) v s = (res, t)" by fastforce
  with runs_ops(13) [of L s a step "step_context c a" v] have st: "runs L s t" by simp
  then have "runs L s (finish_group_failure a n e t)" "runs L s (start_pending_group a n True False t)" for e
    by (rule runs_trans; simp)+
  with Inr t st show ?thesis by (auto simp: settle_step_def split: sum.split)
qed (simp add: settle_step_def)

lemma runs_group_steps: "runs L s (snd (snd (group_steps L c a env i n qs s)))"
proof (induction qs arbitrary: i n s)
  case (Cons q qs)
  show ?case
  proof (cases "refresh_action_step (ha_direction a) (gm_key (ha_group a)) (st_entry_id q) s")
    case (Some step)
    let ?s1 = "history_run L (en_during (env i)) s" and ?g = "en_generation (env i)"
    show ?thesis
    proof (cases "en_reply (env i)")
      case None
      with Some show ?thesis by simp
    next
      case snd: (Some send)
      obtain res t where t: "settle_step L c a step n ?g (run_history_action send (step_action a step)) (synchronize ?g ?s1)
          = (res, t)" by fastforce
      have st: "runs L s t"
        using runs_trans [OF runs_trans [OF runs_run runs_ops(1)] runs_settle_step] t by (metis snd_conv)
      have "runs L s (snd (snd (group_steps L c a env (Suc i) (sat_add n 1) qs t)))"
        by (rule runs_trans [OF st Cons.IH])
      with Some snd t st show ?thesis by (cases res) (simp_all add: split_beta)
    qed
  qed simp
qed simp

lemma runs_group_action: "run_group_history_action L c a env s = (r, evs, t) \<Longrightarrow> runs L s t"
proof -
  assume run: "run_group_history_action L c a env s = (r, evs, t)"
  obtain e evs' u where u: "group_steps L c a env 0 (start_count c s) (ha_steps a) s = (e, evs', u)"
    using prod_cases3 by blast
  with runs_group_steps [of L s c a env 0 "start_count c s" "ha_steps a"] have su: "runs L s u" by simp
  then have "runs L s (clear_completed_pending_group (gm_key (ha_group a)) u)" by (rule runs_trans) simp
  with run u su show ?thesis
    by (auto simp: run_group_history_action_def split: steps_end.splits if_splits)
qed

lemma runs_if: "runs L s t \<Longrightarrow> runs L s u \<Longrightarrow> runs L s (if b then t else u)"
  by simp

lemma runs_settle_success: "runs L s (snd (settle_success L ck item grouped plan prepared g v s))"
proof -
  let ?s1 = "synchronize g s"
  have s1: "runs L s ?s1" by simp
  have edit: "runs L s (settle_edit L ck item prepared v ?s1)"
  proof -
    define s2 where "s2 = (case prepared of
        Some p \<Rightarrow> record_success_in_group L ck p (item_context item) v ?s1
      | None \<Rightarrow> if qi_kind item = KEdit \<and> accepted (qr_value v)
          then record_untracked_success (qi_source item) (qi_kind item) (qi_sequence item) (qi_generation item) ?s1
          else ?s1)"
    have "runs L ?s1 s2" by (simp add: s2_def split: option.split)
    then have s2: "runs L s s2" by (rule runs_trans [OF s1])
    then have "runs L s (snd (close_group_unless None s2))" by (rule runs_trans) simp
    moreover have "settle_edit L ck item prepared v ?s1 =
        (if qi_group_token item \<noteq> None \<and> \<not> accepted (qr_value v) then snd (close_group_unless None s2) else s2)"
      unfolding settle_edit_def Let_def s2_def by (rule refl)
    ultimately show ?thesis using s2 by (simp only: runs_if)
  qed
  show ?thesis
  proof (cases plan)
    case None
    with edit s1 show ?thesis by (auto simp: settle_success_def Let_def)
  next
    case (Some a)
    obtain res t where t: "finish_action_success L a (qi_source item) (qi_kind item) (qi_sequence item)
        (qi_generation item) (qr_value v) ?s1 = (res, t)" by fastforce
    have "runs L s t" using runs_trans [OF s1 runs_ops(16)] t by (metis snd_conv)
    with Some t s1 show ?thesis by (cases res) (auto simp: settle_success_def Let_def)
  qed
qed

lemma runs_settle_failure: "runs L s (settle_failure ck item grouped plan unknown g e s)"
proof -
  define s1 where "s1 = synchronize g s"
  define s2 where "s2 = (if qi_group_token item \<noteq> None then snd (close_group_unless None s1) else s1)"
  define s3 where "s3 = (case (if grouped then None else plan) of
      Some a \<Rightarrow> finish_action_failure a s2
    | None \<Rightarrow> if method_unsupported e \<and> structural item then mark_edit_unsupported s2 else s2)"
  have "runs L s s1" by (simp add: s1_def)
  moreover have "runs L s1 s2" "runs L s2 s3" by (auto simp: s2_def s3_def split: option.split)
  ultimately have s3: "runs L s s3" "runs L s s1" by (metis runs_trans)+
  have "runs L s (mark_mcp_outcome_unknown (ck_wall ck) (qi_sequence item) (qi_generation item) s3)"
    by (rule runs_trans [OF s3(1)]) simp
  moreover have "settle_failure ck item grouped plan unknown g e s =
      (if g \<noteq> Some (qi_generation item) then s1
       else if qi_kind item \<noteq> KRuntimeControl \<and> \<not> grouped \<and> unknown
       then mark_mcp_outcome_unknown (ck_wall ck) (qi_sequence item) (qi_generation item) s3 else s3)"
    unfolding settle_failure_def Let_def s1_def s2_def s3_def by (rule refl)
  ultimately show ?thesis using s3 by (simp only: runs_if)
qed

lemma runs_settle: "runs L s (snd (settle L r g result s))"
  by (simp add: settle_def runs_settle_success runs_settle_failure split: sum.split)

lemma runs_events: "run_events L r es s = Some (out, stop, evs, t) \<Longrightarrow> runs L s t"
proof (induction L r es s arbitrary: out stop evs t rule: run_events.induct)
  case (5 L r session current es s)
  then show ?case
    by (cases "session \<noteq> Some (qi_generation (rs_item r)) \<or> current \<noteq> Some (qi_generation (rs_item r))")
      (auto intro: runs_trans [OF runs_ops(1)])
next
  case (7 L r es s)
  then show ?case by (auto simp: Let_def intro: runs_trans [OF runs_ops(10)])
next
  case (8 L r g result es s)
  then show ?case using runs_settle [of L s r g result] by (auto split: prod.splits)
qed (auto split: if_splits)


lemma runs_control_action: "runs L s (snd (snd (control_action filled ck item act s)))"
  by (cases "(filled, ck, item, act, s)" rule: control_action.cases)
    (auto split: prod.split sum.split intro: runs_results)

lemma runs_control: "runs L s (snd (snd (snd (process_control_item filled now ck g auth auth' item s))))"
proof -
  let ?s1 = "synchronize g s"
  have "runs L ?s1 (snd (snd (control_action filled ck item (qi_action item) (snd (expire_group now ?s1)))))"
    by (rule runs_trans [OF runs_ops(3) runs_control_action])
  then have "runs L s (snd (snd (control_guarded filled now ck g auth' item s)))"
    by (auto simp: control_guarded_def Let_def intro: runs_trans [OF runs_ops(1)])
  then show ?thesis
    by (auto simp: process_control_item_def split: prod.split)
qed

lemma runs_prepare: "runs L s (snd (snd (prepare_item now g item s)))"
proof -
  let ?s0 = "synchronize g s"
  have "runs L ?s0 (close_other_groups now (qi_group_token item) ?s0)"
    unfolding close_other_groups_def by (rule runs_trans [OF runs_ops(3) runs_ops(4)])
  then have "runs L s (close_other_groups now (qi_group_token item) ?s0)" by (rule runs_trans [OF runs_ops(1)])
  then show ?thesis
    by (simp add: prepare_item_def Let_def split: sum.split)
qed

lemma runs_grouped: "run_grouped L r env g why a s = (out, stop, evs, t) \<Longrightarrow> runs L s t"
proof -
  assume run: "run_grouped L r env g why a s = (out, stop, evs, t)"
  let ?c = "\<lparr>gc_generation = qi_generation (rs_item r), gc_source = qi_source (rs_item r),
     gc_sequence = qi_sequence (rs_item r), gc_retrying = (qi_action (rs_item r) = A_retry)\<rparr>"
  obtain res evs' u where u: "run_group_history_action L ?c a env s = (res, evs', u)" using prod_cases3 by blast
  then have su: "runs L s u" by (rule runs_group_action)
  have "runs L s (snd (settle L r g result u))" for result by (rule runs_trans [OF su runs_settle])
  with run u su show ?thesis
    by (cases res) (auto simp: run_grouped_def split: prod.splits intro: runs_snd)
qed

lemma runs_execute: "execute_item L w item prepared plan before s = Some e \<Longrightarrow> runs L s (ie_history e)"
  by (auto simp: execute_item_def reply_def Let_def split: if_splits option.splits
      dest!: runs_events runs_grouped)

lemma runs_process: "process_item_inner L w item s = Some e \<Longrightarrow> runs L s (ie_history e)"
proof -
  assume run: "process_item_inner L w item s = Some e"
  have planned: "run_planned L w item s = Some e \<Longrightarrow> runs L s (ie_history e)"
  proof -
    assume p: "run_planned L w item s = Some e"
    obtain plan evs s1 where pr: "prepare_item (iw_now w) (iw_prepare_generation w) item s = (plan, evs, s1)"
      using prod_cases3 by blast
    with runs_prepare [of L s "iw_now w" "iw_prepare_generation w" item] have s1: "runs L s s1" by simp
    from p pr s1 show ?thesis
      by (cases plan) (auto simp: run_planned_def reply_def dest: runs_execute intro: runs_trans)
  qed
  obtain out tr evs t where ctl: "process_control_item (iw_filled w) (iw_now w) (iw_clock w) (iw_generation w)
      (iw_auth_late w) (iw_auth_control w) item s = (out, tr, evs, t)" using prod_cases4 by blast
  with runs_control [of L s "iw_filled w" "iw_now w" "iw_clock w" "iw_generation w" "iw_auth_late w" "iw_auth_control w" item]
  have "runs L s t" by simp
  with run ctl planned show ?thesis
    by (auto simp: process_item_inner_def reply_def split: if_splits option.splits)
qed

section \<open>Invariants of the history are invariants of the service\<close>

locale history_invariant =
  fixes inv :: "history_state \<Rightarrow> bool"
  assumes inv_new: "inv history_new"
    and inv_exec: "inv s \<Longrightarrow> inv (history_exec L op s)"
begin

lemma inv_run: "inv s \<Longrightarrow> inv (history_run L ops s)"
  unfolding history_run_def by (induction ops arbitrary: s) (simp_all add: inv_exec)

lemma inv_runs: "runs L s t \<Longrightarrow> inv s \<Longrightarrow> inv t"
  by (auto simp: runs_def inv_run)

lemma inv_item: "process_item_inner L w item s = Some e \<Longrightarrow> inv s \<Longrightarrow> inv (ie_history e)"
  using inv_runs runs_process by blast

lemma inv_ops: "inv s \<Longrightarrow> inv (synchronize g s)" "inv s \<Longrightarrow> inv (clear_for_shutdown s)"
  "inv s \<Longrightarrow> inv (snd (revoke_mcp_group s))" "inv s \<Longrightarrow> inv (snd (expire_group now s))"
  using inv_runs [OF runs_ops(1)] inv_runs [OF runs_ops(2)] inv_runs [OF runs_ops(10)] inv_runs [OF runs_ops(3)]
  by blast+

lemma inv_try_send: "sv_history (snd (try_send item sv)) = sv_history sv"
  by (simp add: try_send_def)

lemma inv_client: "inv (sv_history sv) \<Longrightarrow> inv (sv_history (client_turn call sv))"
proof (cases call)
  case (Enqueue_history b source request)
  assume h: "inv (sv_history sv)"
  have can: "inv (sv_history (snd (can_prepare_history_action b g request sv)))" for g
    using h inv_ops(1) by (simp add: can_prepare_history_action_def Let_def)
  have sync: "inv (sv_history (synchronize_history_if_disconnected b sv))"
    using h inv_ops(1) by (simp add: synchronize_history_if_disconnected_def)
  have pinned: "pin b = Inl e \<Longrightarrow> e = NotConnected" for e
    by (auto simp: pin_def split: option.splits if_splits)
  show ?thesis
  proof (cases "pin b")
    case (Inl e)
    with pinned [OF Inl] h sync show ?thesis by (simp add: Enqueue_history enqueue_history_action_def)
  next
    case (Inr g)
    obtain ok sv1 where sv1: "can_prepare_history_action b g request sv = (ok, sv1)" by fastforce
    with can [of g] have h1: "inv (sv_history sv1)" by simp
    have "sv_history (snd (case try_send item sv1 of (Inl e, sv2) \<Rightarrow> (Inl e, sv2) | (Inr n, sv2) \<Rightarrow> (Inr (Queued_ticket n), sv2)))
        = sv_history sv1" for item
      using inv_try_send [of item sv1] by (cases "try_send item sv1") (auto split: sum.split)
    with Inr sv1 h h1 show ?thesis
      by (simp add: Enqueue_history enqueue_history_action_def)
  qed
qed (auto simp: enqueue_action_with_context_def enqueue_control_with_auth_def inv_try_send close_admission_def
    finish_shutdown_def inv_ops split: sum.split)

lemma inv_actor: "actor_turn L ev sv = Some sv' \<Longrightarrow> inv (sv_history sv) \<Longrightarrow> inv (sv_history sv')"
proof (cases ev)
  case (Group_deadline now)
  assume "actor_turn L ev sv = Some sv'" "inv (sv_history sv)"
  with Group_deadline show ?thesis using inv_ops(4) [of "sv_history sv" now] by (auto split: prod.splits)
next
  case (Item_received w)
  assume "actor_turn L ev sv = Some sv'" "inv (sv_history sv)"
  with Item_received show ?thesis
    by (auto simp: answer_item_def leave_loop_def Let_def split: list.splits dest: inv_item)
qed (auto simp: leave_loop_def with_history_def Let_def inv_ops split: if_splits)

lemma inv_service: "service_reach L capacity sv \<Longrightarrow> inv (sv_history sv)"
proof (induction rule: service_reach.induct)
  case (start generation)
  then show ?case using inv_ops(1) [OF inv_new] by (simp add: service_new_def)
next
  case (step sv sv')
  from step(2) show ?case
  proof (cases rule: service_step.cases)
    case (client call)
    then show ?thesis using inv_client [OF step(3)] by simp
  next
    case (actor ev)
    then show ?thesis using inv_actor step(3) by blast
  qed
qed

end

interpretation wf: history_invariant history_wf
  by unfold_locales (simp_all add: wf_exec)

text \<open>In every reachable state of the service, whatever clients, engine, connection and authorization
  do, the history is well formed.\<close>

lemma service_history_wf: "service_reach L capacity sv \<Longrightarrow> history_wf (sv_history sv)"
  by (rule wf.inv_service)

theorem service_history_wf_witness:
  "history_wf (sv_history (client_turn Finish_shutdown (service_new 64 (Some 1))))"
  by (rule service_history_wf [OF service_reach.step [OF service_reach.start service_step.client]])

section \<open>Every admitted item is answered once, in order\<close>

definition numbers :: "nat \<Rightarrow> u64 list" where
  "numbers n = map word_of_nat [0..<n]"

definition in_order :: "service \<Rightarrow> bool" where
  "in_order sv \<longleftrightarrow> (\<exists>n. map fst (sv_replies sv) @ map qi_sequence (sv_queue sv) = numbers n
      \<and> sv_next_sequence sv = word_of_nat n)
     \<and> length (sv_queue sv) \<le> sv_capacity sv \<and> (\<not> sv_receiving sv \<longrightarrow> sv_queue sv = [])"

lemma numbers_Suc: "numbers (Suc n) = numbers n @ [word_of_nat n]"
  by (simp add: numbers_def)

lemma in_order_send:
  assumes "in_order sv" "qi_sequence item = sv_next_sequence sv"
  shows "in_order (snd (try_send item sv))"
proof (cases "sv_receiving sv \<and> length (sv_queue sv) < sv_capacity sv")
  case True
  from assms(1) obtain n where "map fst (sv_replies sv) @ map qi_sequence (sv_queue sv) = numbers n"
    "sv_next_sequence sv = word_of_nat n" by (auto simp: in_order_def)
  then have "map fst (sv_replies sv) @ map qi_sequence (sv_queue sv @ [item]) = numbers (Suc n)"
    "sv_next_sequence sv + 1 = word_of_nat (Suc n)"
    using assms(2) by (simp_all add: numbers_Suc flip: append_assoc)
  with True show ?thesis by (auto simp: in_order_def try_send_def intro!: exI [of _ "Suc n"])
next
  case False
  then have "snd (try_send item sv) = sv" by (auto simp: try_send_def)
  with assms(1) show ?thesis by simp
qed

lemma in_order_history [simp]: "in_order (sv\<lparr>sv_history := h\<rparr>) = in_order sv"
  by (simp add: in_order_def)

lemma in_order_client: "in_order sv \<Longrightarrow> in_order (client_turn call sv)"
proof (cases call)
  case (Enqueue_history b source request)
  assume ord: "in_order sv"
  show ?thesis
  proof (cases "pin b")
    case (Inl e)
    then have "e = NotConnected" by (auto simp: pin_def split: option.splits if_splits)
    with Inl ord show ?thesis
      by (simp add: Enqueue_history enqueue_history_action_def synchronize_history_if_disconnected_def)
  next
    case (Inr g)
    obtain ok sv1 where sv1: "can_prepare_history_action b g request sv = (ok, sv1)" by fastforce
    then have ord1: "in_order sv1" using ord by (auto simp: can_prepare_history_action_def Let_def split: if_splits)
    have "in_order (snd (case try_send item sv1 of (Inl e, sv2) \<Rightarrow> (Inl e, sv2) | (Inr n, sv2) \<Rightarrow> (Inr (Queued_ticket n), sv2)))"
      if "qi_sequence item = sv_next_sequence sv1" for item
      using in_order_send [OF ord1 that] by (cases "try_send item sv1") (auto split: sum.split)
    with Inr sv1 ord ord1 show ?thesis
      by (simp add: Enqueue_history enqueue_history_action_def)
  qed
qed (auto simp: enqueue_action_with_context_def enqueue_control_with_auth_def in_order_send
    close_admission_def finish_shutdown_def split: sum.split, simp_all add: in_order_def)

lemma in_order_leave: "in_order sv \<Longrightarrow> in_order (leave_loop sv)"
  by (auto simp: in_order_def leave_loop_def o_def)

lemma in_order_actor: "actor_turn L ev sv = Some sv' \<Longrightarrow> sv_receiving sv \<Longrightarrow> in_order sv \<Longrightarrow> in_order sv'"
proof (cases ev)
  case (Item_received w)
  assume turn: "actor_turn L ev sv = Some sv'" and rc: "sv_receiving sv" and ord: "in_order sv"
  from turn Item_received obtain item rest e where q: "sv_queue sv = item # rest"
    and sv': "sv' = answer_item item rest e sv" by (auto split: list.splits)
  have "in_order (sv\<lparr>sv_queue := rest, sv_history := ie_history e,
      sv_replies := sv_replies sv @ [(qi_sequence item, ie_outcome e)], sv_events := sv_events sv @ ie_events e\<rparr>)"
    using ord rc q by (auto simp: in_order_def)
  then show ?thesis using sv' in_order_leave by (simp add: answer_item_def Let_def)
qed (auto simp: in_order_leave with_history_def Let_def split: if_splits prod.splits, auto simp: in_order_def)

text \<open>C10: The admitted items, numbered from 0 in the order of their admission, are at every moment the answered
  ones followed by the queued ones: none is lost, answered twice or overtaken. The queue stays
  within its capacity, and is empty once the actor has left its loop.\<close>

theorem items_answered_in_order:
  "service_reach L capacity sv \<Longrightarrow>
     (\<exists>n. map fst (sv_replies sv) @ map qi_sequence (sv_queue sv) = numbers n \<and> sv_next_sequence sv = word_of_nat n)
     \<and> length (sv_queue sv) \<le> sv_capacity sv \<and> (\<not> sv_receiving sv \<longrightarrow> sv_queue sv = [])"
  unfolding in_order_def [symmetric]
proof (induction rule: service_reach.induct)
  case (start generation)
  then show ?case by (auto simp: in_order_def service_new_def numbers_def intro: exI [of _ 0])
next
  case (step sv sv')
  from step(2) show ?case
  proof (cases rule: service_step.cases)
    case (client call)
    then show ?thesis using in_order_client [OF step(3)] by simp
  next
    case (actor ev)
    then show ?thesis using in_order_actor step(3) by blast
  qed
qed

definition demo_bridge :: bridge where
  "demo_bridge = \<lparr>br_generation = Some 1, br_session = Some 1\<rparr>"

definition demo_enqueue :: client_call where
  "demo_enqueue = Enqueue demo_bridge \<lparr>ec_source = Ui, ec_kind = KEdit, ec_group_token = None,
     ec_history_request = None, ec_event_request = None, ec_event_input = None, ec_auth = False, ec_permit = False\<rparr> A_edit"

definition demo_service :: service where
  "demo_service = leave_loop (client_turn demo_enqueue (client_turn demo_enqueue (service_new 64 (Some 1))))"

lemma demo_service_reach: "service_reach L 64 demo_service"
proof -
  let ?sv = "client_turn demo_enqueue (client_turn demo_enqueue (service_new 64 (Some 1)))"
  have r: "service_reach L 64 ?sv"
    by (rule service_reach.step [OF service_reach.step [OF service_reach.start service_step.client] service_step.client])
  have "sv_receiving ?sv"
    by (simp add: demo_enqueue_def enqueue_action_with_context_def pin_def demo_bridge_def try_send_def service_new_def)
  then have "service_step L ?sv demo_service"
    by (rule service_step.actor [where ev = Stop_closed]) (simp add: demo_service_def)
  with r show ?thesis by (rule service_reach.step)
qed

theorem items_answered_in_order_witness:
  "(\<exists>n. map fst (sv_replies demo_service) @ map qi_sequence (sv_queue demo_service) = numbers n)
   \<and> map fst (sv_replies demo_service) = [0, 1] \<and> sv_queue demo_service = []"
  using items_answered_in_order [OF demo_service_reach]
  by (auto simp: demo_service_def leave_loop_def demo_enqueue_def enqueue_action_with_context_def pin_def
      demo_bridge_def try_send_def service_new_def)

end
