(* ===== verification/Edit_Guards.thy ===== *)
theory Edit_Guards
  imports Edit_Actor_Laws
begin

text \<open>
  What the guards of an item guarantee: a partial failure blocks everything but its retry and
  its discard, an undo of the entry the screen showed survives the closing of a group, and an
  item that is refused before its start sends nothing and records nothing.
\<close>

section \<open>A partial failure blocks the rest\<close>

lemma prepare_blocked:
  assumes "h_pending s" "h_generation s = g" "qi_action item \<noteq> A_retry"
  shows "prepare_item now g item s = (Refused (Inl (RequestFailed Partial_failure_left)), [], s)"
  using assms by (simp add: prepare_item_def synchronize_same Let_def)

lemma control_blocked:
  assumes "h_pending s" "h_generation s = g" "qi_action item \<noteq> A_discard"
    and "process_control_item filled now ck g auth auth' item s = (out, traces, evs, t)"
  shows "(\<exists>err. out = Inl err) \<and> t = s \<and> traces = []"
  using assms
  by (auto simp: process_control_item_def control_guarded_def synchronize_same Let_def split: if_splits)

text \<open>An outcome that reports no edit: an error, a request to confirm again, or the null of nothing to do.\<close>

definition no_edit :: "backend_error + queue_outcome \<Rightarrow> bool" where
  "no_edit out \<longleftrightarrow> (\<exists>err. out = Inl err) \<or> out = Inr Reconfirm \<or> out = null_outcome"

lemma permitted_no_edit: "permitted w item = Some out \<Longrightarrow> no_edit out"
  by (auto simp: permitted_def no_edit_def split: if_splits permit_result.splits)

text \<open>C11: While a partial failure is left, no item but its retry or its discard changes the history
  or reports an edit, whatever its kind and whatever the engine would answer.\<close>

theorem partial_failure_blocks_edits:
  assumes "h_pending s" "h_generation s = iw_generation w" "iw_prepare_generation w = iw_generation w"
    and "qi_action item \<noteq> A_retry" "qi_action item \<noteq> A_discard"
    and "process_item_inner L w item s = Some e"
  shows "ie_history e = s \<and> no_edit (ie_outcome e)"
proof -
  obtain out tr evs t where ctl: "process_control_item (iw_filled w) (iw_now w) (iw_clock w) (iw_generation w)
      (iw_auth_late w) (iw_auth_control w) item s = (out, tr, evs, t)" using prod_cases4 by blast
  from control_blocked [OF assms(1,2,5) this] have c: "\<exists>err. out = Inl err" "t = s" by auto
  have p: "run_planned L w item s = reply (Inl (RequestFailed Partial_failure_left)) [] s"
    using prepare_blocked [of s "iw_prepare_generation w" item "iw_now w"] assms(1-4) by (simp add: run_planned_def)
  show ?thesis
  proof (cases "permitted w item")
    case None
    with assms(6) ctl c p show ?thesis
      by (auto simp: process_item_inner_def reply_def no_edit_def null_outcome_def split: if_splits)
  next
    case (Some out')
    with assms(6) ctl c permitted_no_edit [OF Some] show ?thesis
      by (auto simp: process_item_inner_def reply_def no_edit_def null_outcome_def split: if_splits)
  qed
qed

definition demo_world :: item_world where
  "demo_world = \<lparr>iw_auth = True, iw_cancelled = False, iw_generation = Some 1, iw_permit = Permit_ok, iw_now = 0,
     iw_clock = demo_clock, iw_prepare_generation = Some 1, iw_auth_late = True, iw_started = True,
     iw_unknown = False, iw_events = [Action_done (Some 1) (Inr (plain_result yes))], iw_env = demo_env,
     iw_break = (EditServiceStopping, True), iw_end_generation = Some 1, iw_filled = None, iw_auth_control = True\<rparr>"

definition demo_item :: "queued_action \<Rightarrow> queue_item" where
  "demo_item act = \<lparr>qi_sequence = 5, qi_source = Ui, qi_kind = KEdit, qi_generation = 1, qi_action = act,
     qi_group_token = None, qi_history_request = None, qi_event_request = None, qi_event_input = None,
     qi_auth = False, qi_permit = False\<rparr>"

theorem partial_failure_blocks_edits_witness:
  "\<exists>e. process_item_inner demo_json_lib demo_world (demo_item A_edit) (mark_mcp_outcome_unknown None 4 1 (demo_history []))
       = Some e \<and> ie_history e = mark_mcp_outcome_unknown None 4 1 (demo_history []) \<and> no_edit (ie_outcome e)"
proof -
  let ?s = "mark_mcp_outcome_unknown None 4 1 (demo_history [])"
  have pre: "h_pending ?s" "h_generation ?s = iw_generation demo_world"
    "iw_prepare_generation demo_world = iw_generation demo_world"
    by (simp_all add: mark_mcp_outcome_unknown_def bump_def demo_world_def demo_history_def)
  have "prepare_item 0 (Some 1) (demo_item A_edit) ?s = (Refused (Inl (RequestFailed Partial_failure_left)), [], ?s)"
    by (rule prepare_blocked) (simp_all add: mark_mcp_outcome_unknown_def bump_def demo_history_def demo_item_def)
  then have "run_planned demo_json_lib demo_world (demo_item A_edit) ?s
      = reply (Inl (RequestFailed Partial_failure_left)) [] ?s"
    by (simp add: run_planned_def demo_world_def)
  then obtain e where e: "process_item_inner demo_json_lib demo_world (demo_item A_edit) ?s = Some e"
    by (simp add: process_item_inner_def demo_item_def demo_world_def is_control_def permitted_def reply_def)
  have "ie_history e = ?s \<and> no_edit (ie_outcome e)"
    by (rule partial_failure_blocks_edits [OF pre _ _ e]) (simp_all add: demo_item_def)
  with e show ?thesis by blast
qed

section \<open>An undo of the shown entry\<close>

definition top_id :: "history_entry list \<Rightarrow> u64 option" where
  "top_id es = map_option entry_id (last_opt es)"

lemma top_id_append [simp]: "top_id (es @ fs) = (if fs = [] then top_id es else top_id fs)"
  by (cases fs rule: rev_cases) (simp_all add: top_id_def last_opt_def)

lemma top_id_map [simp]: "(\<And>e. entry_id (f e) = entry_id e) \<Longrightarrow> top_id (map f es) = top_id es"
  by (cases es rule: rev_cases) (simp_all add: top_id_def last_opt_def)

lemma visible_close [simp]: "top_id (visible_stack d (snd (close_active_group s))) = top_id (visible_stack d s)"
  by (cases d) (auto simp: close_active_group_def Let_def bump_def split: option.split)

lemma visible_expire [simp]: "top_id (visible_stack d (snd (expire_group now s))) = top_id (visible_stack d s)"
  by (auto simp: expire_group_def split: option.split)

lemma visible_close_unless [simp]: "top_id (visible_stack d (snd (close_group_unless t s))) = top_id (visible_stack d s)"
  by (simp add: close_group_unless_def)

lemma visible_close_other: "top_id (visible_stack d (close_other_groups now t s)) = top_id (visible_stack d s)"
  by (simp add: close_other_groups_def)

lemma close_flags:
  "h_pending (snd (close_active_group s)) = h_pending s"
  "h_edit_unsupported (snd (close_active_group s)) = h_edit_unsupported s"
  by (auto simp: close_active_group_def Let_def bump_def split: option.split)

lemma close_other_flags:
  "h_pending (close_other_groups now t s) = h_pending s"
  "h_edit_unsupported (close_other_groups now t s) = h_edit_unsupported s"
  by (auto simp: close_other_groups_def close_group_unless_def expire_group_def close_flags split: option.split)

text \<open>An undo or redo that was asked for with the cursor the screen sees is planned, on the very entry
  the screen showed, although the open group is closed and the revision moves right before it
  is prepared.\<close>

lemma shown_entry_is_taken:
  assumes "qi_action item = A_history r" "qi_group_token item = None" "qi_history_request item = None"
    and "h_generation s = g" "\<not> h_pending s" "\<not> h_edit_unsupported s"
    and "history_cursor (ar_direction r) s = (ar_expected_head_id r, ar_expected_revision r)"
    and "ar_expected_head_id r = Some shown"
    and "prepare_item now g item s = (plan, evs, t)"
  shows "\<exists>a. plan = Planned None (Some a) \<and> ha_direction a = ar_direction r \<and> ha_entry_id a = shown
     \<and> ha_steps a \<noteq> []"
proof -
  let ?d = "ar_direction r" and ?t = "close_other_groups now None s"
  have "top_id (visible_stack ?d ?t) = Some shown"
    using assms(7,8) unfolding visible_close_other by (simp add: history_cursor_def top_id_def)
  then obtain es e where e: "visible_stack ?d ?t = es @ [e]" "entry_id e = shown"
    by (auto simp: top_id_def last_opt_Some)
  have act: "follow_cursor (A_history r) s ?t = A_history (current_request ?d ?t)"
    using assms(7) by (simp add: follow_cursor_def)
  have "prepare_action (current_request ?d ?t) ?t = Some \<lparr>ha_direction = ?d, ha_entry_id = entry_id e,
      ha_record = he_record e, ha_group = he_group e,
      ha_steps = top_run (entry_key e) (es @ [e]), ha_grouped = gm_named (he_group e)\<rparr>"
    using prepare_current [OF e(1)] assms(5,6) by (simp add: close_other_flags)
  with act assms(1-5,9) e show ?thesis
    by (auto simp: prepare_item_def synchronize_same Let_def group_missing_def prepare_request_def plan_action_def
        top_run_snoc)
qed

theorem shown_entry_is_taken_witness:
  "\<exists>a evs t. prepare_item 5 (Some 1) (demo_item (A_history (current_request Undo demo_undo))) demo_undo
     = (Planned None (Some a), evs, t) \<and> ha_entry_id a = 8"
proof -
  let ?r = "current_request Undo demo_undo"
  obtain plan evs t where p: "prepare_item 5 (Some 1) (demo_item (A_history ?r)) demo_undo = (plan, evs, t)"
    using prod_cases3 by blast
  have cur: "history_cursor (ar_direction ?r) demo_undo = (ar_expected_head_id ?r, ar_expected_revision ?r)"
    "ar_expected_head_id ?r = Some 8"
    by (simp_all add: current_request_def history_cursor_def demo_undo_stack last_opt_def demo_group_entry_def demo_entry_def)
  have "\<exists>a. plan = Planned None (Some a) \<and> ha_direction a = ar_direction ?r \<and> ha_entry_id a = 8 \<and> ha_steps a \<noteq> []"
    by (rule shown_entry_is_taken [OF _ _ _ demo_undo_stack(6) demo_undo_stack(5,4) cur p])
      (simp_all add: demo_item_def)
  with p show ?thesis by auto
qed

end
