(* ===== verification/Edit_Ticket.thy ===== *)
theory Edit_Ticket
  imports Edit_Service
begin

text \<open>
  The ticket of a queued item (\<open>EditTicket\<close> in \<open>edit_service.rs\<close>): the waiter and the actor race on
  one atomic state. The waiter may see its result, run into its deadline, or be dropped; the
  actor may refuse the item, start it, and finish it. The steps of both interleave freely.
\<close>

section \<open>The atomic state\<close>

datatype ticket_state = Waiting | Started | Cancelled

text \<open>\<open>compare_exchange\<close> with the expected state \<open>Waiting\<close>.\<close>

definition exchange_waiting :: "ticket_state \<Rightarrow> ticket_state \<Rightarrow> bool \<times> ticket_state" where
  "exchange_waiting new cur = (if cur = Waiting then (True, new) else (False, cur))"

text \<open>What \<open>outcome_until\<close> returns for the result channel's answer and, after its deadline, the state it loads.\<close>

datatype channel_answer = Received "backend_error + queue_outcome" | Sender_dropped | Deadline_passed

definition ticket_outcome :: "channel_answer \<Rightarrow> ticket_state \<Rightarrow> backend_error + queue_outcome" where
  "ticket_outcome answer cur =
     (case answer of
       Received out \<Rightarrow> out
     | Sender_dropped \<Rightarrow> Inl EditServiceStopping
     | Deadline_passed \<Rightarrow>
         Inl (RequestFailed (if cur = Started then Deadline_started else Deadline_not_started)))"

definition result_until :: "channel_answer \<Rightarrow> ticket_state \<Rightarrow> backend_error + json" where
  "result_until answer cur = bind_r (ticket_outcome answer cur) into_value"

section \<open>The race\<close>










lemma exchange_simps [simp]:
  "snd (exchange_waiting new Waiting) = new" "st \<noteq> Waiting \<Longrightarrow> snd (exchange_waiting new st) = st"
  by (simp_all add: exchange_waiting_def)








end
