(* ===== verification/Payload_Laws.thy ===== *)
theory Payload_Laws
  imports Payloads
begin

text \<open>
  What the payload parsers accept and what their errors say. A reader that walks an array is
  all or nothing; the scene tree parser is proved equal to a schema stated as an inductive
  relation without paths, its errors are proved to name a node of the document that has the
  fault, and it inverts an encoder. The component list accepts exactly the closed entries of
  the specification, and the integer readers accept exactly the values of their width.
\<close>

section \<open>Readers\<close>

lemma required_as_Inr:
  "required_as rd obj key path = Inr x \<longleftrightarrow> (\<exists>v. map_of obj key = Some v \<and> rd v = Some x)"
  by (auto simp: required_as_def required_field_def bind_r_Inr)

lemma optional_as_Inr:
  "optional_as rd obj key path = Inr x \<longleftrightarrow>
     (case map_of obj key of None \<Rightarrow> x = None | Some v \<Rightarrow> \<exists>y. rd v = Some y \<and> x = Some y)"
  by (auto simp: optional_as_def bind_r_Inr split: option.splits)

lemma required_as_Inl:
  "required_as rd obj key path = Inl e \<longleftrightarrow>
     (case map_of obj key of
        None \<Rightarrow> e = MissingField (at_key path key)
      | Some v \<Rightarrow> rd v = None \<and> e = InvalidField (at_key path key))"
  by (auto simp: required_as_def required_field_def split: option.splits)

lemma optional_as_Inl:
  "optional_as rd obj key path = Inl e \<longleftrightarrow>
     (\<exists>v. map_of obj key = Some v \<and> rd v = None \<and> e = InvalidField (at_key path key))"
  by (auto simp: optional_as_def bind_r_Inl split: option.splits)

lemmas reader_Inr = required_as_Inr optional_as_Inr
lemmas reader_defs = required_str_def optional_str_def required_bool_def optional_bool_def

lemma parse_items_Inr:
  "parse_items f path i xs = Inr ys \<longleftrightarrow>
     length ys = length xs \<and> (\<forall>k < length xs. f (xs ! k) (at_index path (i + k)) = Inr (ys ! k))"
proof (induction xs arbitrary: i ys)
  case (Cons x xs)
  show ?case
    by (cases ys) (auto simp: bind_r_Inr Cons.IH nth_Cons less_Suc_eq_0_disj split: nat.splits)
qed auto

lemma parse_items_Inl:
  "parse_items f path i xs = Inl e \<Longrightarrow> \<exists>k < length xs. f (xs ! k) (at_index path (i + k)) = Inl e"
proof (induction xs arbitrary: i)
  case (Cons x xs)
  show ?case
  proof (cases "f x (at_index path i)")
    case (Inr a)
    with Cons.prems have "parse_items f path (Suc i) xs = Inl e" by (auto simp: bind_r_Inl)
    with Cons.IH obtain k where "k < length xs" "f (xs ! k) (at_index path (Suc i + k)) = Inl e" by blast
    then show ?thesis by (intro exI [of _ "Suc k"]) auto
  next
    case (Inl e')
    with Cons.prems show ?thesis by (intro exI [of _ 0]) auto
  qed
qed auto

section \<open>The scene tree\<close>

text \<open>A JSON value and the node it stands for: the schema of a scene node, without paths.\<close>

inductive scene_shape :: "json \<Rightarrow> scene_tree_node \<Rightarrow> bool" where
  leaf: "map_of obj ''id'' = Some (JString i) \<Longrightarrow>
      map_of obj ''name'' = map_option JString name \<Longrightarrow> map_of obj ''kind'' = map_option JString kd \<Longrightarrow>
      map_of obj ''children'' = None \<Longrightarrow> scene_shape (JObject obj) (Scene_node i name kd [])"
| inner: "map_of obj ''id'' = Some (JString i) \<Longrightarrow>
      map_of obj ''name'' = map_option JString name \<Longrightarrow> map_of obj ''kind'' = map_option JString kd \<Longrightarrow>
      map_of obj ''children'' = Some (JArray items) \<Longrightarrow> list_all2 scene_shape items children \<Longrightarrow>
      scene_shape (JObject obj) (Scene_node i name kd children)"

inductive_cases scene_shape_elim: "scene_shape v n"

lemma optional_str_shape:
  "optional_str obj key path = Inr x \<longleftrightarrow> map_of obj key = map_option JString x"
  by (cases x) (auto simp: optional_str_def optional_as_Inr split: option.splits)

lemma required_str_shape: "required_str obj key path = Inr x \<longleftrightarrow> map_of obj key = Some (JString x)"
  by (auto simp: required_str_def required_as_Inr)

lemma scene_shape_iff:
  "scene_shape v (Scene_node i name kd children) \<longleftrightarrow>
     (\<exists>obj. v = JObject obj \<and> map_of obj ''id'' = Some (JString i)
        \<and> map_of obj ''name'' = map_option JString name \<and> map_of obj ''kind'' = map_option JString kd
        \<and> (map_of obj ''children'' = None \<and> children = []
           \<or> (\<exists>items. map_of obj ''children'' = Some (JArray items) \<and> list_all2 scene_shape items children)))"
  by (auto elim: scene_shape_elim intro: scene_shape.intros)

definition children_of :: "json_map \<Rightarrow> string \<Rightarrow> payload_error + scene_tree_node list" where
  "children_of obj path =
     (case map_of obj ''children'' of
        None \<Rightarrow> Inr []
      | Some (JArray items) \<Rightarrow> parse_items parse_scene_node (at_key path ''children'') 0 items
      | Some _ \<Rightarrow> Inl (InvalidField (at_key path ''children'')))"

lemma parse_scene_node_object:
  "parse_scene_node (JObject obj) path =
     bind_r (required_str obj ''id'' path) (\<lambda>i.
     bind_r (optional_str obj ''name'' path) (\<lambda>name.
     bind_r (optional_str obj ''kind'' path) (\<lambda>kd.
     bind_r (children_of obj path) (\<lambda>children. Inr (Scene_node i name kd children)))))"
  by (subst parse_scene_node.simps) (simp add: children_of_def cong: option.case_cong)

lemma parse_scene_node_other:
  "as_object v = None \<Longrightarrow> parse_scene_node v path = Inl (InvalidField (path @ '' is not an object''))"
  by (subst parse_scene_node.simps) (cases v; simp)

lemma children_of_Inr:
  "children_of obj path = Inr cs \<longleftrightarrow>
     map_of obj ''children'' = None \<and> cs = []
     \<or> (\<exists>items. map_of obj ''children'' = Some (JArray items)
          \<and> parse_items parse_scene_node (at_key path ''children'') 0 items = Inr cs)"
  by (auto simp: children_of_def split: option.splits json.splits)

lemma size_child: "map_of obj ''children'' = Some (JArray items) \<Longrightarrow> x \<in> set items \<Longrightarrow> size x < size (JObject obj)"
  using size_array_item [of x items "''children''" obj] map_of_SomeD [of obj] by auto

lemma parse_scene_node_shape: "parse_scene_node v path = Inr n \<longleftrightarrow> scene_shape v n"
proof (induction "size v" arbitrary: v path n rule: less_induct)
  case less
  show ?case
  proof (cases v)
    case (JObject obj)
    have items: "parse_items parse_scene_node p 0 items = Inr cs \<longleftrightarrow> list_all2 scene_shape items cs"
      if "map_of obj ''children'' = Some (JArray items)" for items cs p
    proof -
      have "parse_scene_node (items ! k) q = Inr m \<longleftrightarrow> scene_shape (items ! k) m" if "k < length items" for k q m
        using less size_child [OF \<open>map_of obj ''children'' = Some (JArray items)\<close>] that JObject by simp
      then show ?thesis by (auto simp: parse_items_Inr list_all2_conv_all_nth)
    qed
    obtain i name kd children where n: "n = Scene_node i name kd children" by (cases n)
    show ?thesis
      by (auto simp: JObject n parse_scene_node_object bind_r_Inr required_str_shape optional_str_shape
          scene_shape_iff children_of_Inr items)
  qed (auto simp: parse_scene_node_other elim: scene_shape_elim)
qed

text \<open>The scene tree parser accepts exactly the documents of the schema (an object with a
  \<open>root\<close> node; a node is an object with a string \<open>id\<close>, optional string \<open>name\<close> and \<open>kind\<close>,
  and optional \<open>children\<close> that are all nodes) and returns the tree they describe.
\<close>
lemma scene_tree_matches_schema:
  "parse_scene_tree_result v = Inr n \<longleftrightarrow>
     (\<exists>obj root. v = JObject obj \<and> map_of obj ''root'' = Some root \<and> scene_shape root n)"
  by (auto simp: parse_scene_tree_result_def object_or_def bind_r_Inr parse_scene_node_shape)

text \<open>The encoder of the tree.\<close>

definition opt_field :: "string \<Rightarrow> string option \<Rightarrow> json_map" where
  "opt_field key v = (case v of None \<Rightarrow> [] | Some s \<Rightarrow> [(key, JString s)])"

fun scene_json :: "scene_tree_node \<Rightarrow> json" where
  "scene_json (Scene_node i name kd children) =
     JObject ([(''id'', JString i)] @ opt_field ''name'' name @ opt_field ''kind'' kd
       @ [(''children'', JArray (map scene_json children))])"

lemma scene_json_shape: "scene_shape (scene_json n) n"
proof (induction n)
  case (Scene_node i name kd children)
  then have "list_all2 scene_shape (map scene_json children) children"
    by (auto simp: list_all2_conv_all_nth)
  then show ?case
    by (cases name; cases kd) (auto simp: scene_shape_iff opt_field_def)
qed

text \<open>Parsing an encoded scene tree gives back the tree.\<close>
lemma scene_tree_round_trip: "parse_scene_tree_result (JObject [(''root'', scene_json n)]) = Inr n"
  by (simp add: parse_scene_tree_result_def object_or_def parse_scene_node_shape scene_json_shape)

section \<open>Errors of the scene tree\<close>

text \<open>
  Descent along child indices, the location the code writes for it, and the faults a node has
  by itself, each as the error that names it.
\<close>

fun descend :: "json \<Rightarrow> nat list \<Rightarrow> json option" where
  "descend v [] = Some v"
| "descend v (k # ks) =
     (case jget ''children'' v of
        Some (JArray items) \<Rightarrow> if k < length items then descend (items ! k) ks else None
      | _ \<Rightarrow> None)"

fun node_path :: "string \<Rightarrow> nat list \<Rightarrow> string" where
  "node_path path [] = path"
| "node_path path (k # ks) = node_path (at_index (at_key path ''children'') k) ks"

inductive node_fault :: "json \<Rightarrow> string \<Rightarrow> payload_error \<Rightarrow> bool" where
  not_object: "as_object v = None \<Longrightarrow> node_fault v path (InvalidField (path @ '' is not an object''))"
| no_id: "map_of obj ''id'' = None \<Longrightarrow> node_fault (JObject obj) path (MissingField (at_key path ''id''))"
| bad_string: "key \<in> {''id'', ''name'', ''kind''} \<Longrightarrow> map_of obj key = Some w \<Longrightarrow> as_str w = None \<Longrightarrow>
    node_fault (JObject obj) path (InvalidField (at_key path key))"
| bad_children: "map_of obj ''children'' = Some w \<Longrightarrow> as_array w = None \<Longrightarrow>
    node_fault (JObject obj) path (InvalidField (at_key path ''children''))"

lemma children_of_Inl:
  "children_of obj path = Inl e \<longleftrightarrow>
     (\<exists>w. map_of obj ''children'' = Some w \<and>
        (if as_array w = None then e = InvalidField (at_key path ''children'')
         else parse_items parse_scene_node (at_key path ''children'') 0 (the (as_array w)) = Inl e))"
  by (auto simp: children_of_def split: option.splits json.splits)

lemma as_array_Some: "as_array v = Some xs \<longleftrightarrow> v = JArray xs"
  by (cases v) auto

lemma id_fault: "required_str obj ''id'' path = Inl e \<Longrightarrow> node_fault (JObject obj) path e"
  by (auto simp: required_str_def required_as_Inl split: option.splits intro: no_id bad_string)

lemma name_fault: "optional_str obj ''name'' path = Inl e \<Longrightarrow> node_fault (JObject obj) path e"
  by (auto simp: optional_str_def optional_as_Inl intro: bad_string)

lemma kind_fault: "optional_str obj ''kind'' path = Inl e \<Longrightarrow> node_fault (JObject obj) path e"
  by (auto simp: optional_str_def optional_as_Inl intro: bad_string)

lemma own_fault: "node_fault v path e \<Longrightarrow> \<exists>ks w. descend v ks = Some w \<and> node_fault w (node_path path ks) e"
  by (intro exI [of _ "[]"] exI [of _ v]) simp

lemma child_fault:
  assumes "\<exists>ks w. descend (items ! k) ks = Some w
      \<and> node_fault w (node_path (at_index (at_key path ''children'') k) ks) e"
    and "map_of obj ''children'' = Some (JArray items)" "k < length items"
  shows "\<exists>ks w. descend (JObject obj) ks = Some w \<and> node_fault w (node_path path ks) e"
proof -
  from assms(1) obtain ks w where "descend (items ! k) ks = Some w"
    "node_fault w (node_path (at_index (at_key path ''children'') k) ks) e" by blast
  with assms(2,3) show ?thesis by (intro exI [of _ "k # ks"] exI [of _ w]) simp
qed

lemma scene_node_error:
  "parse_scene_node v path = Inl e \<Longrightarrow> \<exists>ks w. descend v ks = Some w \<and> node_fault w (node_path path ks) e"
proof (induction "size v" arbitrary: v path rule: less_induct)
  case less
  show ?case
  proof (cases "as_object v")
    case None
    with less.prems show ?thesis by (intro own_fault) (auto simp: parse_scene_node_other intro: not_object)
  next
    case (Some obj)
    then have v: "v = JObject obj" by simp
    with less.prems consider "required_str obj ''id'' path = Inl e" | "optional_str obj ''name'' path = Inl e"
      | "optional_str obj ''kind'' path = Inl e" | "children_of obj path = Inl e"
      by (auto simp: parse_scene_node_object bind_r_Inl)
    then show ?thesis
    proof cases
      case 4
      then obtain w where w: "map_of obj ''children'' = Some w"
        and c: "if as_array w = None then e = InvalidField (at_key path ''children'')
           else parse_items parse_scene_node (at_key path ''children'') 0 (the (as_array w)) = Inl e"
        by (auto simp: children_of_Inl)
      show ?thesis
      proof (cases "as_array w")
        case None
        with w c show ?thesis unfolding v by (intro own_fault) (simp add: bad_children)
      next
        case (Some items)
        with c obtain k where k: "k < length items"
          "parse_scene_node (items ! k) (at_index (at_key path ''children'') k) = Inl e"
          using parse_items_Inl [of parse_scene_node _ 0] by fastforce
        have m: "map_of obj ''children'' = Some (JArray items)" using w Some by (simp add: as_array_Some)
        then have "size (items ! k) < size v" using k(1) v size_child by simp
        from less.hyps [OF this k(2)] m k(1) show ?thesis unfolding v by (rule child_fault)
      qed
    qed (simp_all add: v own_fault id_fault name_fault kind_fault)
  qed
qed

text \<open>An error of the scene tree parser below the root is never misplaced: it is the fault of
  one node of the document, reachable by child indices, and names that node's path.
\<close>
lemma scene_error_names_faulty_node:
  assumes "parse_scene_tree_result (JObject obj) = Inl e" "map_of obj ''root'' = Some root"
  shows "\<exists>ks w. descend root ks = Some w \<and> node_fault w (node_path ''root'' ks) e"
  using assms by (intro scene_node_error) (simp add: parse_scene_tree_result_def object_or_def)

definition demo_scene :: json_map where
  "demo_scene = [(''root'', JObject [(''id'', JString ''a''),
     (''children'', JArray [JObject [(''id'', JString ''b'')], JObject [(''id'', JNull)]])])]"

theorem scene_error_names_faulty_node_witness:
  "parse_scene_tree_result (JObject demo_scene) = Inl (InvalidField ''root.children[1].id'')
   \<and> (\<exists>root ks w. descend root ks = Some w
        \<and> node_fault w (node_path ''root'' ks) (InvalidField ''root.children[1].id''))"
proof -
  have p: "parse_scene_tree_result (JObject demo_scene) = Inl (InvalidField ''root.children[1].id'')"
    by code_simp
  have "map_of demo_scene ''root'' = Some (snd (hd demo_scene))" by (simp add: demo_scene_def)
  from p scene_error_names_faulty_node [OF p this] show ?thesis by blast
qed

section \<open>Component lists\<close>

text \<open>
  A component entry of the specification: an object with the two string fields, neither empty,
  and no other field.
\<close>

definition component_shape :: "json \<Rightarrow> component_ref \<Rightarrow> bool" where
  "component_shape v c \<longleftrightarrow>
     (\<exists>m. v = JObject m \<and> fst ` set m \<subseteq> {''objectId'', ''kind''}
        \<and> map_of m ''objectId'' = Some (JString (cr_object_id c)) \<and> cr_object_id c \<noteq> []
        \<and> map_of m ''kind'' = Some (JString (cr_kind c)) \<and> cr_kind c \<noteq> [])"

lemma no_unknown_key:
  "filter (\<lambda>k. k \<noteq> a \<and> k \<noteq> b) (map fst m) = [] \<longleftrightarrow> fst ` set m \<subseteq> {a, b}"
  by (auto simp: filter_empty_conv)

lemma parse_component_Inr: "parse_component v path = Inr c \<longleftrightarrow> component_shape v c"
proof (cases "as_object v")
  case None
  then show ?thesis by (auto simp: parse_component_def item_object_def component_shape_def)
next
  case (Some m)
  then have v: "v = JObject m" by simp
  show ?thesis
  proof (cases "fst ` set m \<subseteq> {''objectId'', ''kind''}")
    case True
    then have "filter (\<lambda>k. k \<noteq> ''objectId'' \<and> k \<noteq> ''kind'') (map fst m) = []" by (simp only: no_unknown_key)
    with True show ?thesis
      by (cases c) (auto simp: v parse_component_def item_object_def component_shape_def required_str_shape)
  next
    case False
    then have "filter (\<lambda>k. k \<noteq> ''objectId'' \<and> k \<noteq> ''kind'') (map fst m) \<noteq> []" by (simp only: no_unknown_key simp_thms)
    with False show ?thesis
      by (auto simp: v parse_component_def item_object_def component_shape_def split: list.splits)
  qed
qed

text \<open>The component list of an object is taken whole or not at all: a missing field is no
  list, and otherwise every entry must be a closed, addressable entry and is kept, in order.
\<close>
lemma component_list_all_or_nothing:
  "parse_components obj = Inr r \<longleftrightarrow>
     (case map_of obj ''components'' of
        None \<Rightarrow> r = None
      | Some v \<Rightarrow> \<exists>items cs. v = JArray items \<and> r = Some cs \<and> list_all2 component_shape items cs)"
  by (auto simp: parse_components_def parse_items_Inr parse_component_Inr list_all2_conv_all_nth
      as_array_Some split: option.splits)

section \<open>Integers\<close>

text \<open>The number a JSON integer stands for.\<close>

fun int_of_num :: "jnum \<Rightarrow> int option" where
  "int_of_num (PosInt n) = Some (uint n)"
| "int_of_num (NegInt n) = Some (sint n)"
| "int_of_num (Float _) = None"

lemma sint_i64: "- (2 ^ 63) \<le> sint (n :: u64)" "sint (n :: u64) < 2 ^ 63"
  using sint_ge [of n] sint_lt [of n] by simp_all

text \<open>An integer field of an asset is read exactly when it is a JSON integer that fits \<open>i64\<close>,
  and then with its value; floats, strings and larger numbers are refused.
\<close>
lemma asset_integer_exact:
  "integer_value v = Some i \<longleftrightarrow>
     (\<exists>n. v = JNumber n \<and> int_of_num n = Some i \<and> - (2 ^ 63) \<le> i \<and> i < 2 ^ 63)"
proof (cases v rule: integer_value.cases)
  case (1 n)
  have "- (2 ^ 63) \<le> uint n" by (rule order_trans [of _ 0]) simp_all
  with 1 show ?thesis by auto
next
  case (2 n)
  then show ?thesis using sint_i64 [of n] by auto
qed auto

end
