(* ===== verification/Reconnect.thy ===== *)
theory Reconnect
  imports Correlation
begin

text \<open>
  \<open>norves-bridge-editor-client/src/reconnect.rs\<close>: the backoff of the connection retries, the retry
  loop over a clock, and the manager of the current handle. A \<open>Duration\<close> is its number of
  nanoseconds with the panics of its arithmetic as \<open>None\<close>; instants are nanoseconds since an
  arbitrary origin. What a dial answers and takes, and how late a sleep ends, are functions of
  the number of the attempt.
\<close>

section \<open>Durations\<close>

definition duration_max :: nat where
  "duration_max = (2 ^ 64 - 1) * 1000000000 + 999999999"

definition dur :: "nat \<Rightarrow> nat option" where
  "dur n = (if n \<le> duration_max then Some n else None)"

record retry_config =
  rt_initial_backoff :: nat
  rt_max_backoff :: nat
  rt_max_elapsed :: nat
  rt_jitter :: bool

definition default_retry :: retry_config where
  "default_retry = \<lparr>rt_initial_backoff = 50 * 1000000, rt_max_backoff = 1000000000,
     rt_max_elapsed = 10 * 1000000000, rt_jitter = True\<rparr>"

section \<open>Backoff\<close>

text \<open>
  \<open>extra\<close> is the jitter within a quarter of the base; \<open>nanos + 1\<close> overflows, or is a division by
  zero, when the truncated quarter is the largest \<open>u64\<close>.
\<close>

definition jitter_extra :: "nat \<Rightarrow> u64 \<Rightarrow> nat option" where
  "jitter_extra quarter salt =
     (if quarter = 0 then Some 0
      else
        (let nanos = word_of_nat quarter :: u64
         in if nanos = u64_max then None
            else Some (unat ((nanos * salt + salt) mod (nanos + 1)))))"

definition next_backoff :: "nat \<Rightarrow> nat \<Rightarrow> bool \<Rightarrow> u64 \<Rightarrow> nat option" where
  "next_backoff current max_backoff jitter salt =
     (let base = min current max_backoff
      in if \<not> jitter then Some base
         else
           Option.bind (jitter_extra (base div 4) salt) (\<lambda>extra.
           Option.bind (dur (base + extra)) (\<lambda>total.
           Option.bind (dur (max_backoff + max_backoff div 4)) (\<lambda>limit. Some (min total limit)))))"

section \<open>The retry loop\<close>

text \<open>Attempt \<open>i\<close> fails with an error (\<open>None\<close>: it connects) after \<open>dial_time i\<close>; its sleep ends \<open>late i\<close> too late.\<close>

record 'e dial_env =
  de_dial :: "nat \<Rightarrow> 'e option"
  de_dial_time :: "nat \<Rightarrow> nat"
  de_late :: "nat \<Rightarrow> nat"

datatype 'e retry_end =
    Connected nat
  | Timed_out nat 'e
  | Panicked

text \<open>\<open>None\<close> is that \<open>fuel\<close> attempts did not end the loop; \<open>i\<close> attempts were made before.\<close>

fun retry_loop ::
  "retry_config \<Rightarrow> 'e dial_env \<Rightarrow> nat \<Rightarrow> nat \<Rightarrow> nat \<Rightarrow> nat \<Rightarrow> nat \<Rightarrow> 'e retry_end option" where
  "retry_loop cfg env deadline 0 t backoff i = None"
| "retry_loop cfg env deadline (Suc fuel) t backoff i =
     (case de_dial env i of
       None \<Rightarrow> Some (Connected i)
     | Some err \<Rightarrow>
         if Suc i \<ge> 2 ^ 64 then Some Panicked
         else
           (let now = t + de_dial_time env i
            in if now \<ge> deadline then Some (Timed_out (rt_max_elapsed cfg) err)
               else
                 (case next_backoff backoff (rt_max_backoff cfg) (rt_jitter cfg) (word_of_nat (Suc i)) of
                   None \<Rightarrow> Some Panicked
                 | Some sleep \<Rightarrow>
                     let wake = now + min sleep (deadline - now) + de_late env i
                     in case dur (backoff * 2) of
                          None \<Rightarrow> Some Panicked
                        | Some doubled \<Rightarrow>
                            retry_loop cfg env deadline fuel wake (min doubled (rt_max_backoff cfg)) (Suc i))))"

definition connect_with_retry :: "retry_config \<Rightarrow> 'e dial_env \<Rightarrow> nat \<Rightarrow> nat \<Rightarrow> 'e retry_end option" where
  "connect_with_retry cfg env fuel start =
     retry_loop cfg env (start + rt_max_elapsed cfg) fuel start (rt_initial_backoff cfg) 0"

section \<open>The manager\<close>

text \<open>Handles are numbers; \<open>reconnect\<close> also returns the handle it shut down.\<close>

record reconnect_manager =
  rm_cfg :: retry_config
  rm_handle :: "nat option"

definition manager_new :: "retry_config \<Rightarrow> reconnect_manager" where
  "manager_new cfg = \<lparr>rm_cfg = cfg, rm_handle = None\<rparr>"

definition reconnect ::
  "(retry_config \<Rightarrow> 'e + nat) \<Rightarrow> reconnect_manager \<Rightarrow> ('e + nat) \<times> nat option \<times> reconnect_manager" where
  "reconnect connect m =
     (let m1 = m\<lparr>rm_handle := None\<rparr>
      in case connect (rm_cfg m1) of
           Inl e \<Rightarrow> (Inl e, rm_handle m, m1)
         | Inr h \<Rightarrow> (Inr h, rm_handle m, m1\<lparr>rm_handle := Some h\<rparr>))"

section \<open>Words\<close>

lemma unat_word_of_nat_u64: "n < 2 ^ 64 \<Longrightarrow> unat (word_of_nat n :: u64) = n"
  by (simp add: unat_of_nat take_bit_nat_eq_self)

lemma u64_lt_succ_le: "(x :: u64) < y + 1 \<Longrightarrow> y \<noteq> u64_max \<Longrightarrow> x \<le> y"
proof -
  assume l: "x < y + 1" and y: "y \<noteq> u64_max"
  have "1 + y \<noteq> 0" using y by (metis add.commute add_eq_0_iff u64_max_def)
  then have "unat (1 + y) = Suc (unat y)" by (rule unatSuc)
  with l show ?thesis by (simp add: word_less_nat_alt word_le_nat_alt add.commute)
qed

section \<open>The jitter stays within a quarter\<close>

lemma jitter_extra_le: "jitter_extra q salt = Some x \<Longrightarrow> x \<le> q"
proof -
  assume j: "jitter_extra q salt = Some x"
  show ?thesis
  proof (cases "q = 0")
    case True
    with j show ?thesis by (simp add: jitter_extra_def)
  next
    case False
    let ?n = "word_of_nat q :: u64"
    from j False have n: "?n \<noteq> u64_max" and x: "x = unat ((?n * salt + salt) mod (?n + 1))"
      by (auto simp: jitter_extra_def Let_def split: if_splits)
    have "?n < ?n + 1" using u64_succ_gt [OF n] .
    then have "0 < ?n + 1" using word_gt_0 by (metis word_not_simps(1))
    then have "(?n * salt + salt) mod (?n + 1) < ?n + 1" by (rule word_mod_less_divisor)
    then have "(?n * salt + salt) mod (?n + 1) \<le> ?n" using n by (rule u64_lt_succ_le)
    then have "x \<le> unat ?n" using x by (simp add: word_le_nat_alt)
    also have "\<dots> \<le> q" by (simp add: unat_of_nat)
    finally show ?thesis .
  qed
qed

text \<open>The sleep before the next attempt is the current backoff capped at the largest one, never less, and with
  jitter at most a quarter more.\<close>

lemma backoff_within_a_quarter:
  assumes "next_backoff current max_backoff jitter salt = Some d"
  shows "min current max_backoff \<le> d \<and> d \<le> min current max_backoff + min current max_backoff div 4
     \<and> (\<not> jitter \<longrightarrow> d = min current max_backoff)"
proof -
  let ?base = "min current max_backoff"
  have quarter: "?base + ?base div 4 \<le> max_backoff + max_backoff div 4" by (intro add_mono div_le_mono) simp_all
  show ?thesis
  proof (cases jitter)
    case True
    with assms obtain x where x: "jitter_extra (?base div 4) salt = Some x"
      "d = min (?base + x) (max_backoff + max_backoff div 4)"
      by (auto simp: next_backoff_def Let_def dur_def split: bind_splits if_splits)
    with jitter_extra_le [OF x(1)] quarter True show ?thesis by simp
  next
    case False
    with assms show ?thesis by (simp add: next_backoff_def Let_def)
  qed
qed

text \<open>
  The jitter is computed as \<open>nanos * salt + salt\<close> modulo \<open>nanos + 1\<close>, a multiple of the modulus:
  as long as the product stays within 64 bits it is 0.
\<close>

lemma jitter_extra_zero:
  assumes "(q + 1) * unat salt < 2 ^ 64" "q + 1 < 2 ^ 64"
  shows "jitter_extra q salt = Some 0"
proof (cases "q = 0")
  case False
  let ?n = "word_of_nat q :: u64"
  have succ: "?n + 1 = word_of_nat (q + 1)" by simp
  have "?n * salt + salt = (?n + 1) * salt" by (simp add: algebra_simps)
  also have "\<dots> = word_of_nat ((q + 1) * unat salt)" by (simp add: algebra_simps)
  finally have num: "unat (?n * salt + salt) = (q + 1) * unat salt"
    using unat_word_of_nat_u64 [OF assms(1)] by (simp only:)
  have "unat (?n + 1) = q + 1" using unat_word_of_nat_u64 [OF assms(2)] by (simp add: succ del: of_nat_add)
  then have "unat ((?n * salt + salt) mod (?n + 1)) = ((q + 1) * unat salt) mod (q + 1)"
    by (simp only: unat_mod_distrib num)
  then have "unat ((?n * salt + salt) mod (?n + 1)) = 0" by (simp only: mod_mult_self1_is_0)
  moreover have "?n \<noteq> u64_max" using assms(2) by (simp add: u64_max_unat unat_word_of_nat_u64)
  ultimately show ?thesis using False by (simp add: jitter_extra_def Let_def)
qed (simp add: jitter_extra_def)

section \<open>The retry loop ends\<close>

lemma next_backoff_defined:
  assumes "2 * max_backoff \<le> duration_max" "max_backoff div 4 < 2 ^ 64 - 1"
  shows "\<exists>d. next_backoff current max_backoff jitter salt = Some d \<and> min current max_backoff \<le> d"
proof (cases jitter)
  case True
  let ?base = "min current max_backoff"
  have "?base div 4 \<le> max_backoff div 4" by (intro div_le_mono) simp
  with assms(2) have small: "?base div 4 < 2 ^ 64 - 1" by simp
  then have "word_of_nat (?base div 4) \<noteq> u64_max"
    by (simp add: u64_max_unat unat_word_of_nat_u64)
  then obtain x where x: "jitter_extra (?base div 4) salt = Some x"
    by (cases "?base div 4 = 0") (auto simp: jitter_extra_def Let_def simp del: One_nat_def)
  have "x \<le> ?base div 4" by (rule jitter_extra_le [OF x])
  moreover have "?base + ?base div 4 \<le> 2 * max_backoff" by auto
  moreover have "max_backoff + max_backoff div 4 \<le> 2 * max_backoff" by auto
  ultimately show ?thesis using True assms(1) x by (auto simp: next_backoff_def Let_def dur_def)
qed (simp add: next_backoff_def Let_def)

lemma retry_loop_ends:
  assumes "0 < m" "2 * rt_max_backoff cfg \<le> duration_max" "rt_max_backoff cfg div 4 < 2 ^ 64 - 1"
    and "m \<le> min b (rt_max_backoff cfg)" "2 * b \<le> duration_max"
    and "deadline \<le> t + k * m" "i + k + 1 < 2 ^ 64"
  shows "\<exists>n \<le> i + k. i \<le> n \<and> (\<forall>j. i \<le> j \<longrightarrow> j < n \<longrightarrow> de_dial env j \<noteq> None)
    \<and> retry_loop cfg env deadline (Suc k) t b i
        = Some (case de_dial env n of None \<Rightarrow> Connected n | Some e \<Rightarrow> Timed_out (rt_max_elapsed cfg) e)"
  using assms(4-7)
proof (induction k arbitrary: t b i)
  case 0
  then show ?case by (cases "de_dial env i") (auto intro!: exI [of _ i])
next
  case (Suc k)
  show ?case
  proof (cases "de_dial env i")
    case None
    then show ?thesis by (auto intro!: exI [of _ i])
  next
    case (Some err)
    let ?now = "t + de_dial_time env i"
    show ?thesis
    proof (cases "deadline \<le> ?now")
      case True
      with Some Suc.prems(4) show ?thesis by (auto intro!: exI [of _ i] simp: Let_def)
    next
      case False
      obtain d where d: "next_backoff b (rt_max_backoff cfg) (rt_jitter cfg) (word_of_nat (Suc i)) = Some d"
        "min b (rt_max_backoff cfg) \<le> d" using next_backoff_defined [OF assms(2,3)] by blast
      let ?wake = "?now + min d (deadline - ?now) + de_late env i"
      let ?b = "min (b * 2) (rt_max_backoff cfg)"
      have "m \<le> d" using d(2) Suc.prems(1) by (meson order_trans)
      then have wake: "deadline \<le> ?wake + k * m" using Suc.prems(3) False by (auto simp: min_def)
      have "m \<le> min ?b (rt_max_backoff cfg)" "2 * ?b \<le> duration_max" using Suc.prems(1) assms(2) by auto
      moreover have "Suc i + k + 1 < 2 ^ 64" using Suc.prems(4) by simp
      ultimately obtain n where n: "n \<le> Suc i + k" "Suc i \<le> n"
        "\<forall>j. Suc i \<le> j \<longrightarrow> j < n \<longrightarrow> de_dial env j \<noteq> None"
        "retry_loop cfg env deadline (Suc k) ?wake ?b (Suc i)
          = Some (case de_dial env n of None \<Rightarrow> Connected n | Some e \<Rightarrow> Timed_out (rt_max_elapsed cfg) e)"
        using Suc.IH [OF _ _ wake, of ?b "Suc i"] by blast
      have "de_dial env j \<noteq> None" if "i \<le> j" "j < n" for j
        using that n(3) Some by (cases "j = i") auto
      moreover have "retry_loop cfg env deadline (Suc (Suc k)) t b i = retry_loop cfg env deadline (Suc k) ?wake ?b (Suc i)"
        using Some False d(1) Suc.prems(2,4) by (simp add: Let_def dur_def mult.commute del: of_nat_Suc)
      ultimately show ?thesis using n by (intro exI [of _ n]) simp
    qed
  qed
qed

text \<open>C13: The retry loop ends: with a positive backoff it answers within a number of attempts bounded by the budget
  over the smallest backoff, with the connection of the first dial that succeeds or with the
  timeout of the last error, and never panics.\<close>

theorem connect_with_retry_ends:
  assumes "0 < min (rt_initial_backoff cfg) (rt_max_backoff cfg)"
    and "2 * rt_initial_backoff cfg \<le> duration_max" "2 * rt_max_backoff cfg \<le> duration_max"
    and "rt_max_backoff cfg div 4 < 2 ^ 64 - 1"
    and "k = rt_max_elapsed cfg div min (rt_initial_backoff cfg) (rt_max_backoff cfg) + 1" "k + 1 < 2 ^ 64"
  shows "\<exists>n \<le> k. (\<forall>j < n. de_dial env j \<noteq> None)
    \<and> connect_with_retry cfg env (Suc k) start
        = Some (case de_dial env n of None \<Rightarrow> Connected n | Some e \<Rightarrow> Timed_out (rt_max_elapsed cfg) e)"
proof -
  let ?m = "min (rt_initial_backoff cfg) (rt_max_backoff cfg)"
  have "rt_max_elapsed cfg \<le> k * ?m"
    unfolding assms(5) using dividend_less_div_times [OF assms(1), of "rt_max_elapsed cfg"]
    by (simp add: add_mult_distrib add.commute)
  then have "start + rt_max_elapsed cfg \<le> start + k * ?m" by simp
  from retry_loop_ends [OF assms(1,3,4) order_refl assms(2) this, of 0 env] assms(6)
  show ?thesis by (auto simp: connect_with_retry_def)
qed

definition dead_engine :: "string dial_env" where
  "dead_engine = \<lparr>de_dial = (\<lambda>i. Some ''refused''), de_dial_time = (\<lambda>i. 0), de_late = (\<lambda>i. 0)\<rparr>"

lemma connect_with_retry_ends_witness:
  "connect_with_retry default_retry dead_engine 202 0 = Some (Timed_out (10 * 1000000000) ''refused'')"
  using connect_with_retry_ends [of default_retry 201 dead_engine 0]
  by (simp add: default_retry_def dead_engine_def duration_max_def)

text \<open>The jitter never perturbs a sleep: its remainder is of a multiple of the modulus, so as long as the product
  fits into 64 bits the sleep is the capped backoff, exactly as without jitter.\<close>

lemma jitter_has_no_effect:
  assumes "(min current max_backoff div 4 + 1) * unat salt < 2 ^ 64" "min current max_backoff div 4 + 1 < 2 ^ 64"
    and "2 * max_backoff \<le> duration_max"
  shows "next_backoff current max_backoff True salt = next_backoff current max_backoff False salt"
proof -
  have "max_backoff + max_backoff div 4 \<le> 2 * max_backoff" by auto
  then have "max_backoff + max_backoff div 4 \<le> duration_max" "min current max_backoff \<le> duration_max"
    using assms(3) by auto
  then show ?thesis using jitter_extra_zero [OF assms(1,2)] by (auto simp: next_backoff_def dur_def Let_def)
qed

end
