(* ===== verification/Log_Buffer.thy ===== *)
theory Log_Buffer
  imports Bridge_Envelope
begin

text \<open>
  \<open>src-tauri/src/mcp/log_buffer.rs\<close>: the bounded buffer of the engine's log messages, kept per
  connection generation, and its paged reading. Counters of type \<open>u64\<close> are natural numbers with
  the saturation and the overflow check of the source written out. A \<open>BTreeMap\<close> is an association
  list visited by ascending key, a \<open>VecDeque\<close> a list. The size of a \<open>LogEntry\<close> in memory is a choice
  of the compiler, \<open>entry_size\<close>; the derived deserializer of \<open>LogLevel\<close> is the argument \<open>level_of\<close>.
\<close>

section \<open>Data\<close>

definition MAX_LOG_ENTRIES :: nat where
  "MAX_LOG_ENTRIES = 1000"

definition MAX_LOG_BYTES :: nat where
  "MAX_LOG_BYTES = 2 * 1024 * 1024"

definition MAX_LOG_PAGE_SIZE :: nat where
  "MAX_LOG_PAGE_SIZE = 1000"

definition MAX_TRACKED_GENERATIONS :: nat where
  "MAX_TRACKED_GENERATIONS = MAX_LOG_ENTRIES + 1"

definition DEFAULT_LOG_PAGE_SIZE :: nat where
  "DEFAULT_LOG_PAGE_SIZE = 100"

definition MAX_SUBSCRIPTION_ID_BYTES :: nat where
  "MAX_SUBSCRIPTION_ID_BYTES = 256"

datatype log_subscription_status =
    NotAttempted
  | Sub_Pending
  | Subscribed
  | Unsupported
  | Sub_Failed
  | Sub_Cancelled
  | IncompatibleAck

record log_subscription =
  ls_status :: log_subscription_status
  ls_subscription_id :: "string option"

record log_entry =
  le_generation :: nat
  le_sequence :: nat
  le_received_at_ms :: nat
  le_level :: log_level
  le_message :: string
  le_category :: "string option"
  le_engine_timestamp :: "string option"
  le_truncated :: bool
  le_stored_bytes :: nat

record log_record_outcome =
  lo_sequence :: nat
  lo_truncated :: bool

datatype relay_log_record = Stale | Retained log_record_outcome

record log_query =
  lq_generation :: "nat option"
  lq_from_time_ms :: "nat option"
  lq_to_time_ms :: "nat option"
  lq_after_sequence :: "nat option"
  lq_through_sequence :: "nat option"
  lq_limit :: "nat option"

record log_retention =
  lr_generation :: nat
  lr_first_sequence :: "nat option"
  lr_last_sequence :: "nat option"
  lr_last_observed_sequence :: nat
  lr_first_received_at_ms :: "nat option"
  lr_last_received_at_ms :: "nat option"
  lr_missing_count :: nat
  lr_missed_event_count :: nat
  lr_has_gap :: bool
  lr_subscription :: log_subscription_status

record log_snapshot =
  sn_entries :: "log_entry list"
  sn_retention :: "log_retention list"
  sn_has_more :: bool
  sn_next_after_sequence :: "nat option"
  sn_missing_before_cursor :: bool

datatype log_buffer_error =
    InvalidShape
  | MissingLevel
  | InvalidLevel
  | MissingMessage
  | InvalidMessage
  | InvalidCategory
  | InvalidTimestamp
  | SequenceExhausted

record generation_state =
  gs_last_observed_sequence :: nat
  gs_missing_count :: nat
  gs_missed_event_count :: nat
  gs_subscription :: log_subscription_status

definition generation_default :: generation_state where
  "generation_default = \<lparr>gs_last_observed_sequence = 0, gs_missing_count = 0,
     gs_missed_event_count = 0, gs_subscription = NotAttempted\<rparr>"

record log_buffer =
  lb_entries :: "log_entry list"
  lb_retained_bytes :: nat
  lb_generations :: "(nat, generation_state) hash_map"
  lb_generation_order :: "nat list"
  lb_active_generation :: "nat option"
  lb_last_generation :: "nat option"

definition log_buffer_default :: log_buffer where
  "log_buffer_default = \<lparr>lb_entries = [], lb_retained_bytes = 0, lb_generations = [],
     lb_generation_order = [], lb_active_generation = None, lb_last_generation = None\<rparr>"

section \<open>Generations\<close>

definition ensure_generation :: "nat \<Rightarrow> log_buffer \<Rightarrow> log_buffer" where
  "ensure_generation g b =
     (case hm_get (lb_generations b) g of
       None \<Rightarrow> b\<lparr>lb_generations := hm_insert g generation_default (lb_generations b),
                  lb_generation_order := lb_generation_order b @ [g]\<rparr>
     | Some st \<Rightarrow> b)"

text \<open>
  Removing the position found by the search is removing the first occurrence of the generation
  found. Each round shortens the order, so the loop ends.
\<close>

function prune_loop ::
  "(nat \<Rightarrow> bool) \<Rightarrow> (nat, generation_state) hash_map \<Rightarrow> nat list
    \<Rightarrow> (nat, generation_state) hash_map \<times> nat list" where
  "prune_loop removable gens order =
     (if length gens > MAX_TRACKED_GENERATIONS
      then (case find removable order of
             None \<Rightarrow> (gens, order)
           | Some g \<Rightarrow> prune_loop removable (hm_remove g gens) (remove1 g order))
      else (gens, order))"
  by pat_completeness auto
termination
  by (relation "measure (\<lambda>(_, _, order). length order)")
     (auto simp: find_Some_iff length_remove1 in_set_conv_nth intro!: Nat.gr0I)

declare prune_loop.simps [simp del]

definition removable :: "log_buffer \<Rightarrow> nat \<Rightarrow> bool" where
  "removable b g \<longleftrightarrow> g \<notin> le_generation ` set (lb_entries b)
     \<and> Some g \<noteq> lb_active_generation b \<and> Some g \<noteq> lb_last_generation b"

definition prune_generation_metadata :: "log_buffer \<Rightarrow> log_buffer" where
  "prune_generation_metadata b =
     (if length (lb_generations b) \<le> MAX_TRACKED_GENERATIONS then b
      else
        (let (gens, order) = prune_loop (removable b) (lb_generations b) (lb_generation_order b)
         in b\<lparr>lb_generations := gens,
              lb_generation_order := filter (\<lambda>g. hm_get gens g \<noteq> None) order\<rparr>))"

definition begin_generation :: "nat \<Rightarrow> log_buffer \<Rightarrow> log_buffer" where
  "begin_generation g b =
     prune_generation_metadata
       (ensure_generation g (b\<lparr>lb_active_generation := Some g, lb_last_generation := Some g\<rparr>))"

definition update_generation ::
  "nat \<Rightarrow> (generation_state \<Rightarrow> generation_state) \<Rightarrow> (nat, generation_state) hash_map
    \<Rightarrow> (nat, generation_state) hash_map" where
  "update_generation g f gens =
     (case hm_get gens g of None \<Rightarrow> gens | Some st \<Rightarrow> hm_insert g (f st) gens)"

definition end_generation :: "nat \<Rightarrow> log_buffer \<Rightarrow> log_buffer" where
  "end_generation g b =
     prune_generation_metadata
       (if lb_active_generation b = Some g
        then b\<lparr>lb_active_generation := None, lb_last_generation := Some g,
               lb_generations := update_generation g
                 (\<lambda>st. if gs_subscription st = Sub_Pending \<or> gs_subscription st = Subscribed
                       then st\<lparr>gs_subscription := Sub_Cancelled\<rparr> else st)
                 (lb_generations b)\<rparr>
        else b)"

definition set_subscription_status :: "nat \<Rightarrow> log_subscription_status \<Rightarrow> log_buffer \<Rightarrow> log_buffer" where
  "set_subscription_status g status b =
     (let b1 = ensure_generation g b;
          b2 = b1\<lparr>lb_generations :=
                 update_generation g (\<lambda>st. st\<lparr>gs_subscription := status\<rparr>) (lb_generations b1)\<rparr>;
          b3 = (if lb_active_generation b2 = None then b2\<lparr>lb_last_generation := Some g\<rparr> else b2)
      in prune_generation_metadata b3)"

definition set_subscription_status_if_active ::
  "nat \<Rightarrow> log_subscription_status \<Rightarrow> log_buffer \<Rightarrow> bool \<times> log_buffer" where
  "set_subscription_status_if_active g status b =
     (if lb_active_generation b \<noteq> Some g then (False, b)
      else (True, set_subscription_status g status b))"

definition note_missed_events :: "nat \<Rightarrow> nat \<Rightarrow> log_buffer \<Rightarrow> bool \<times> log_buffer" where
  "note_missed_events g count b =
     (if lb_active_generation b \<noteq> Some g then (False, b)
      else
        (case hm_get (lb_generations b) g of
          None \<Rightarrow> (False, b)
        | Some st \<Rightarrow>
            (True, b\<lparr>lb_generations := hm_insert g
               (st\<lparr>gs_missed_event_count := sat_add (gs_missed_event_count st) count\<rparr>)
               (lb_generations b)\<rparr>)))"

section \<open>Recording a message\<close>

text \<open>A byte continues a character when its two top bits are 10.\<close>

definition is_char_boundary :: "string \<Rightarrow> nat \<Rightarrow> bool" where
  "is_char_boundary s i \<longleftrightarrow>
     i = 0 \<or> i = length s \<or> (i < length s \<and> \<not> (128 \<le> code (s ! i) \<and> code (s ! i) < 192))"

fun char_floor :: "string \<Rightarrow> nat \<Rightarrow> nat" where
  "char_floor s 0 = 0"
| "char_floor s (Suc n) = (if is_char_boundary s (Suc n) then Suc n else char_floor s n)"

definition bounded_copy :: "string \<Rightarrow> nat \<Rightarrow> string \<times> nat" where
  "bounded_copy s remaining =
     (let end_at = char_floor s (min (length s) remaining)
      in (take end_at s, remaining - end_at))"

fun bounded_copy_opt :: "string option \<Rightarrow> nat \<Rightarrow> string option \<times> nat" where
  "bounded_copy_opt None remaining = (None, remaining)"
| "bounded_copy_opt (Some s) remaining = (let (t, rest) = bounded_copy s remaining in (Some t, rest))"

record borrowed_log =
  bl_level :: log_level
  bl_message :: string
  bl_category :: "string option"
  bl_engine_timestamp :: "string option"

definition log_optional_string :: "json_map \<Rightarrow> string \<Rightarrow> unit + string option" where
  "log_optional_string params key =
     (case map_of params key of
       None \<Rightarrow> Inr None
     | Some v \<Rightarrow> bind_r (ok_or () (as_str v)) (\<lambda>s. Inr (Some s)))"

definition borrowed_parse ::
  "(json \<Rightarrow> log_level option) \<Rightarrow> json_map \<Rightarrow> log_buffer_error + borrowed_log" where
  "borrowed_parse level_of params =
     bind_r (ok_or MissingLevel (map_of params ''level'')) (\<lambda>level_value.
     bind_r (ok_or InvalidLevel (level_of level_value)) (\<lambda>level.
     bind_r (ok_or MissingMessage (map_of params ''message'')) (\<lambda>message_value.
     bind_r (ok_or InvalidMessage (as_str message_value)) (\<lambda>message.
     bind_r (map_err (\<lambda>_. InvalidCategory) (log_optional_string params ''category'')) (\<lambda>category.
     bind_r (map_err (\<lambda>_. InvalidTimestamp) (log_optional_string params ''timestamp'')) (\<lambda>timestamp.
       Inr \<lparr>bl_level = level, bl_message = message, bl_category = category,
            bl_engine_timestamp = timestamp\<rparr>))))))"

definition opt_len :: "string option \<Rightarrow> nat" where
  "opt_len x = (case x of None \<Rightarrow> 0 | Some s \<Rightarrow> length s)"

definition payload_bytes :: "borrowed_log \<Rightarrow> nat" where
  "payload_bytes l =
     sat_add (sat_add (length (bl_message l)) (opt_len (bl_category l))) (opt_len (bl_engine_timestamp l))"

definition owned_fields :: "nat \<Rightarrow> borrowed_log \<Rightarrow> string \<times> string option \<times> string option" where
  "owned_fields limit l =
     (let (message, r1) = bounded_copy (bl_message l) limit;
          (category, r2) = bounded_copy_opt (bl_category l) r1;
          (timestamp, r3) = bounded_copy_opt (bl_engine_timestamp l) r2
      in (message, category, timestamp))"

text \<open>The eviction loop: the oldest entries go until the new one fits, each counted in its generation.\<close>

definition count_missing :: "nat \<Rightarrow> (nat, generation_state) hash_map \<Rightarrow> (nat, generation_state) hash_map" where
  "count_missing g = update_generation g (\<lambda>st. st\<lparr>gs_missing_count := sat_add (gs_missing_count st) 1\<rparr>)"

fun make_room ::
  "nat \<Rightarrow> log_entry list \<Rightarrow> nat \<Rightarrow> (nat, generation_state) hash_map
    \<Rightarrow> log_entry list \<times> nat \<times> (nat, generation_state) hash_map" where
  "make_room stored [] bytes gens = ([], bytes, gens)"
| "make_room stored (e # es) bytes gens =
     (if length (e # es) \<ge> MAX_LOG_ENTRIES \<or> sat_add bytes stored > MAX_LOG_BYTES
      then make_room stored es (sat_sub bytes (le_stored_bytes e)) (count_missing (le_generation e) gens)
      else (e # es, bytes, gens))"

definition record_at ::
  "nat \<Rightarrow> (json \<Rightarrow> log_level option) \<Rightarrow> nat \<Rightarrow> json_map \<Rightarrow> nat \<Rightarrow> log_buffer
    \<Rightarrow> (log_buffer_error + log_record_outcome) \<times> log_buffer" where
  "record_at entry_size level_of g params received_at_ms b =
     (case borrowed_parse level_of params of
       Inl e \<Rightarrow> (Inl e, b)
     | Inr borrowed \<Rightarrow>
         (let max_payload = sat_sub MAX_LOG_BYTES entry_size;
              truncated = payload_bytes borrowed > max_payload;
              (message, category, timestamp) = owned_fields max_payload borrowed;
              stored = sat_add (sat_add (sat_add entry_size (length message)) (opt_len category))
                         (opt_len timestamp);
              b1 = ensure_generation g b;
              st = (case hm_get (lb_generations b1) g of None \<Rightarrow> generation_default | Some st \<Rightarrow> st)
          in case checked_add (gs_last_observed_sequence st) 1 of
               None \<Rightarrow> (Inl SequenceExhausted, b1)
             | Some sequence \<Rightarrow>
                 let b2 = b1\<lparr>lb_generations :=
                            hm_insert g (st\<lparr>gs_last_observed_sequence := sequence\<rparr>) (lb_generations b1)\<rparr>;
                     b3 = (if lb_active_generation b2 = None then b2\<lparr>lb_last_generation := Some g\<rparr> else b2);
                     entry = \<lparr>le_generation = g, le_sequence = sequence,
                       le_received_at_ms = received_at_ms, le_level = bl_level borrowed,
                       le_message = message, le_category = category, le_engine_timestamp = timestamp,
                       le_truncated = truncated, le_stored_bytes = stored\<rparr>;
                     (entries, bytes, gens) =
                       make_room stored (lb_entries b3) (lb_retained_bytes b3) (lb_generations b3);
                     b4 = b3\<lparr>lb_entries := entries @ [entry], lb_retained_bytes := sat_add bytes stored,
                             lb_generations := gens\<rparr>
                 in (Inr \<lparr>lo_sequence = sequence, lo_truncated = truncated\<rparr>,
                     prune_generation_metadata b4)))"

text \<open>The system clock is the milliseconds since the epoch, \<open>None\<close> before it.\<close>

definition now_unix_millis :: "nat option \<Rightarrow> nat" where
  "now_unix_millis clock = min (case clock of None \<Rightarrow> 0 | Some ms \<Rightarrow> ms) (2 ^ 64 - 1)"

definition log_record ::
  "nat \<Rightarrow> (json \<Rightarrow> log_level option) \<Rightarrow> nat option \<Rightarrow> nat \<Rightarrow> json_map \<Rightarrow> log_buffer
    \<Rightarrow> (log_buffer_error + log_record_outcome) \<times> log_buffer" where
  "log_record entry_size level_of clock g params b =
     record_at entry_size level_of g params (now_unix_millis clock) b"

definition record_relay_log ::
  "nat \<Rightarrow> (json \<Rightarrow> log_level option) \<Rightarrow> nat option \<Rightarrow> nat \<Rightarrow> json_map \<Rightarrow> log_buffer
    \<Rightarrow> (log_buffer_error + relay_log_record) \<times> log_buffer" where
  "record_relay_log entry_size level_of clock g params b =
     (if lb_active_generation b \<noteq> Some g then (Inr Stale, b)
      else
        (let (r, b1) = log_record entry_size level_of clock g params b
         in (bind_r r (\<lambda>out. Inr (Retained out)), b1)))"

section \<open>Reading\<close>

definition matches_query :: "log_query \<Rightarrow> log_entry \<Rightarrow> bool" where
  "matches_query q e \<longleftrightarrow>
     (case lq_generation q of None \<Rightarrow> True | Some g \<Rightarrow> g = le_generation e)
   \<and> (case lq_from_time_ms q of None \<Rightarrow> True | Some t \<Rightarrow> le_received_at_ms e \<ge> t)
   \<and> (case lq_to_time_ms q of None \<Rightarrow> True | Some t \<Rightarrow> le_received_at_ms e \<le> t)
   \<and> (case lq_after_sequence q of None \<Rightarrow> True | Some s \<Rightarrow> le_sequence e > s)
   \<and> (case lq_through_sequence q of None \<Rightarrow> True | Some s \<Rightarrow> le_sequence e \<le> s)"

text \<open>The loop over the matching entries: it stops at the first one beyond the page.\<close>

fun fill_page :: "nat \<Rightarrow> log_entry list \<Rightarrow> log_entry list \<Rightarrow> log_entry list \<times> bool" where
  "fill_page limit page [] = (page, False)"
| "fill_page limit page (e # es) =
     (if length page = limit then (page, True) else fill_page limit (page @ [e]) es)"

definition retention_for :: "log_buffer \<Rightarrow> nat \<Rightarrow> generation_state \<Rightarrow> log_retention" where
  "retention_for b g st =
     (let first = find (\<lambda>e. le_generation e = g) (lb_entries b);
          final = find (\<lambda>e. le_generation e = g) (rev (lb_entries b));
          first_sequence = map_option le_sequence first;
          last_sequence = map_option le_sequence final
      in \<lparr>lr_generation = g, lr_first_sequence = first_sequence, lr_last_sequence = last_sequence,
          lr_last_observed_sequence = gs_last_observed_sequence st,
          lr_first_received_at_ms = map_option le_received_at_ms first,
          lr_last_received_at_ms = map_option le_received_at_ms final,
          lr_missing_count = gs_missing_count st,
          lr_missed_event_count = gs_missed_event_count st,
          lr_has_gap =
            (gs_missing_count st > 0 \<or> gs_missed_event_count st > 0
             \<or> (case first_sequence of None \<Rightarrow> False | Some s \<Rightarrow> s > 1)
             \<or> (case last_sequence of None \<Rightarrow> False | Some s \<Rightarrow> s < gs_last_observed_sequence st)
             \<or> list_ex (\<lambda>e. le_generation e = g \<and> le_truncated e) (lb_entries b)),
          lr_subscription = gs_subscription st\<rparr>)"

definition range_missing :: "nat \<Rightarrow> log_retention \<Rightarrow> bool" where
  "range_missing cursor r \<longleftrightarrow>
     lr_missed_event_count r > 0
   \<or> (case lr_first_sequence r of None \<Rightarrow> False | Some s \<Rightarrow> s > sat_add cursor 1)
   \<or> (lr_first_sequence r = None \<and> lr_last_observed_sequence r > cursor)"

definition retention_list :: "log_buffer \<Rightarrow> log_query \<Rightarrow> log_retention list" where
  "retention_list b q =
     List.map_filter (\<lambda>g. map_option (retention_for b g) (hm_get (lb_generations b) g))
       (filter (\<lambda>g. case lq_generation q of None \<Rightarrow> True | Some w \<Rightarrow> w = g)
         (sort (map fst (lb_generations b))))"

definition page_limit :: "log_query \<Rightarrow> nat" where
  "page_limit q =
     min (max (case lq_limit q of None \<Rightarrow> DEFAULT_LOG_PAGE_SIZE | Some n \<Rightarrow> n) 1) MAX_LOG_PAGE_SIZE"

definition log_read :: "log_buffer \<Rightarrow> log_query \<Rightarrow> log_snapshot" where
  "log_read b q =
     (let (entries, has_more) = fill_page (page_limit q) [] (filter (matches_query q) (lb_entries b));
          retention = retention_list b q
      in \<lparr>sn_entries = entries, sn_retention = retention, sn_has_more = has_more,
          sn_next_after_sequence =
            (case lq_generation q of
              None \<Rightarrow> None
            | Some g \<Rightarrow> if has_more \<and> entries \<noteq> [] then Some (le_sequence (last entries)) else None),
          sn_missing_before_cursor =
            (case lq_after_sequence q of
              None \<Rightarrow> False
            | Some cursor \<Rightarrow> list_ex (range_missing cursor) retention)\<rparr>)"

section \<open>The subscription\<close>

definition parse_log_subscription_ack :: "json \<Rightarrow> log_subscription" where
  "parse_log_subscription_ack v =
     (case Option.bind (Option.bind (Option.bind (as_object v) (\<lambda>m. map_of m ''subscriptionId'')) as_str)
             (\<lambda>i. if i \<noteq> [] \<and> length i \<le> MAX_SUBSCRIPTION_ID_BYTES then Some i else None) of
       Some i \<Rightarrow> \<lparr>ls_status = Subscribed, ls_subscription_id = Some i\<rparr>
     | None \<Rightarrow> \<lparr>ls_status = IncompatibleAck, ls_subscription_id = None\<rparr>)"

text \<open>
  What happens around the call: whether it is cancelled before it is sent, its answer (\<open>None\<close>:
  cancelled first; an error of the request, of any type, or the response), whether it is
  cancelled right after, and what the others do to the shared buffer while it waits.
\<close>

record 'e subscribe_env =
  se_cancelled_before :: bool
  se_answer :: "('e + response_payload) option"
  se_cancelled_after :: bool
  se_meanwhile :: "log_buffer \<Rightarrow> log_buffer"

definition subscribe_log_stream ::
  "capability_descriptor list \<Rightarrow> nat \<Rightarrow> 'e subscribe_env \<Rightarrow> log_buffer
    \<Rightarrow> log_subscription option \<times> log_buffer" where
  "subscribe_log_stream capabilities g env b =
     (let supported = list_ex (\<lambda>c. capability_token_str (cd_name c) = ''log.stream'') capabilities;
          (active, b1) = set_subscription_status_if_active g
            (if supported then Sub_Pending else Unsupported) b
      in if \<not> active then (None, b1)
         else if \<not> supported then (Some \<lparr>ls_status = Unsupported, ls_subscription_id = None\<rparr>, b1)
         else if se_cancelled_before env then (None, b1)
         else
           (let b2 = se_meanwhile env b1
            in case se_answer env of
                 None \<Rightarrow> (None, b2)
               | Some answer \<Rightarrow>
                   if se_cancelled_after env then (None, b2)
                   else
                     (let subscription =
                        (case answer of
                          Inr (Result v) \<Rightarrow> parse_log_subscription_ack v
                        | Inr (Error e) \<Rightarrow> \<lparr>ls_status = Sub_Failed, ls_subscription_id = None\<rparr>
                        | Inl e \<Rightarrow> \<lparr>ls_status = Sub_Failed, ls_subscription_id = None\<rparr>);
                        (still, b3) = set_subscription_status_if_active g (ls_status subscription) b2
                      in (if still then Some subscription else None, b3))))"

end
