(* ===== verification/Log_Buffer_Laws.thy ===== *)
theory Log_Buffer_Laws
  imports Log_Buffer
begin

text \<open>
  What the log buffer promises: its bounds and the numbering of each generation are an invariant
  of every operation, its entries are the newest part of the unbounded log, the retention report
  is exact, and following the cursor of the pages reads every matching entry once.
\<close>

section \<open>Well-formed buffers\<close>

abbreviation of_gen :: "nat \<Rightarrow> log_entry list \<Rightarrow> log_entry list" where
  "of_gen g \<equiv> filter (\<lambda>e. le_generation e = g)"

abbreviation stored_sum :: "log_entry list \<Rightarrow> nat" where
  "stored_sum es \<equiv> sum_list (map le_stored_bytes es)"

text \<open>The retained entries of a generation are numbered consecutively up to the last number given out.\<close>

definition numbered :: "nat \<Rightarrow> generation_state \<Rightarrow> log_entry list \<Rightarrow> bool" where
  "numbered g st es \<longleftrightarrow>
     map le_sequence (of_gen g es) = [Suc (gs_missing_count st) ..< Suc (gs_last_observed_sequence st)]
   \<and> gs_missing_count st \<le> gs_last_observed_sequence st
   \<and> gs_last_observed_sequence st \<le> usize_max"

definition gens_ok :: "(nat, generation_state) hash_map \<Rightarrow> log_entry list \<Rightarrow> bool" where
  "gens_ok gens es \<longleftrightarrow> hm_ok gens \<and> (\<forall>e\<in>set es. hm_get gens (le_generation e) \<noteq> None)
     \<and> (\<forall>g st. hm_get gens g = Some st \<longrightarrow> numbered g st es)"

definition order_ok :: "(nat, generation_state) hash_map \<Rightarrow> nat list \<Rightarrow> bool" where
  "order_ok gens order \<longleftrightarrow> hm_ok gens \<and> distinct order \<and> set order = fst ` set gens"

definition within_bounds :: "log_entry list \<Rightarrow> bool" where
  "within_bounds es \<longleftrightarrow> length es \<le> MAX_LOG_ENTRIES \<and> stored_sum es \<le> MAX_LOG_BYTES"

text \<open>Everything but the bound on the generations, which holds again once they are pruned.\<close>

definition log_shape :: "log_buffer \<Rightarrow> bool" where
  "log_shape b \<longleftrightarrow> within_bounds (lb_entries b) \<and> lb_retained_bytes b = stored_sum (lb_entries b)
     \<and> gens_ok (lb_generations b) (lb_entries b)
     \<and> order_ok (lb_generations b) (lb_generation_order b)
     \<and> (lb_active_generation b = None \<or> lb_active_generation b = lb_last_generation b)
     \<and> (\<forall>g. lb_last_generation b = Some g \<longrightarrow> hm_get (lb_generations b) g \<noteq> None)"

definition log_ok :: "log_buffer \<Rightarrow> bool" where
  "log_ok b \<longleftrightarrow> log_shape b \<and> length (lb_generations b) \<le> MAX_TRACKED_GENERATIONS"

lemma map_fst_update [simp]:
  "hm_get m k = Some v \<Longrightarrow> map fst (hm_insert k w m) = map fst m"
  by (force simp: update_keys dest: map_of_SomeD)

lemma order_ok_fst: "map fst gens' = map fst gens \<Longrightarrow> order_ok gens' order = order_ok gens order"
  by (metis order_ok_def hm_ok_def list.set_map)

lemma update_generation_keys [simp]: "map fst (update_generation g f gens) = map fst gens"
  by (auto simp: update_generation_def split: option.splits)

lemma update_generation_get:
  "hm_get (update_generation g f gens) h = (if h = g then map_option f (hm_get gens g) else hm_get gens h)"
  by (auto simp: update_generation_def hm_get_insert split: option.splits)

lemma update_generation_ok [simp]: "hm_ok (update_generation g f gens) = hm_ok gens"
  by (simp add: hm_ok_def)

lemma gens_ok_update:
  assumes "gens_ok gens es" "\<And>st. numbered g st es \<Longrightarrow> numbered g (f st) es"
  shows "gens_ok (update_generation g f gens) es"
  using assms by (auto simp: gens_ok_def update_generation_get split: if_splits)

section \<open>Generations are tracked\<close>

lemma ensure_generation_shape:
  assumes "log_shape b"
  shows "log_shape (ensure_generation g b)"
proof (cases "hm_get (lb_generations b) g")
  case None
  then have new: "g \<notin> fst ` set (lb_generations b)" by (simp add: map_of_eq_None_iff)
  from assms None have "\<forall>e\<in>set (lb_entries b). le_generation e \<noteq> g" by (auto simp: log_shape_def gens_ok_def)
  then have "of_gen g (lb_entries b) = []" by simp
  with assms None new show ?thesis
    by (auto simp: log_shape_def ensure_generation_def gens_ok_def order_ok_def numbered_def
        hm_get_insert dom_update generation_default_def)
next
  case (Some st)
  with assms show ?thesis by (simp add: ensure_generation_def)
qed

lemma ensure_generation_tracks: "\<exists>st. hm_get (lb_generations (ensure_generation g b)) g = Some st"
  by (cases "hm_get (lb_generations b) g") (auto simp: ensure_generation_def hm_get_insert)

lemma ensure_generation_frame [simp, frame]:
  "lb_entries (ensure_generation g b) = lb_entries b"
  "lb_retained_bytes (ensure_generation g b) = lb_retained_bytes b"
  "lb_active_generation (ensure_generation g b) = lb_active_generation b"
  "lb_last_generation (ensure_generation g b) = lb_last_generation b"
  by (simp_all add: ensure_generation_def split: option.splits)

section \<open>Pruning\<close>

lemma order_ok_remove:
  assumes "order_ok gens order" "g \<in> set order"
  shows "order_ok (hm_remove g gens) (remove1 g order)"
  using assms by (auto simp: order_ok_def hm_remove_filter)

text \<open>Pruning only removes generations it may remove, and stops within the bound or when none is left.\<close>

lemma prune_loop_spec:
  assumes "order_ok gens order" "prune_loop r gens order = (gens', order')"
  shows "order_ok gens' order' \<and> (\<forall>g. hm_get gens' g = hm_get gens g \<or> (r g \<and> hm_get gens' g = None))
    \<and> (length gens' \<le> MAX_TRACKED_GENERATIONS \<or> (\<forall>g\<in>set order'. \<not> r g))"
  using assms
proof (induction r gens order arbitrary: gens' order' rule: prune_loop.induct)
  case (1 r gens order)
  show ?case
  proof (cases "length gens > MAX_TRACKED_GENERATIONS")
    case False
    with "1.prems" show ?thesis by (simp add: prune_loop.simps)
  next
    case long: True
    show ?thesis
    proof (cases "find r order")
      case None
      with "1.prems" long show ?thesis by (auto simp: prune_loop.simps find_None_iff)
    next
      case (Some g)
      then have g: "g \<in> set order" "r g" by (auto simp: find_Some_iff)
      from "1.prems"(2) long Some have "prune_loop r (hm_remove g gens) (remove1 g order) = (gens', order')"
        by (simp add: prune_loop.simps [of r gens order])
      from "1.IH" [OF long Some order_ok_remove [OF "1.prems"(1) g(1)] this] g(2)
      show ?thesis by (auto simp: hm_get_remove split: if_splits)
    qed
  qed
qed

lemma order_ok_length: "order_ok gens order \<Longrightarrow> length gens = card (set order)"
  by (metis order_ok_def hm_ok_def distinct_card length_map list.set_map)

lemma not_removable_few:
  assumes "log_shape b" "\<forall>g\<in>set order. \<not> removable b g"
  shows "card (set order) \<le> MAX_TRACKED_GENERATIONS"
proof -
  let ?S = "le_generation ` set (lb_entries b) \<union> set_option (lb_last_generation b)"
  have "set order \<subseteq> ?S" using assms by (auto simp: removable_def log_shape_def)
  then have "card (set order) \<le> card ?S" by (intro card_mono) auto
  also have "\<dots> \<le> card (le_generation ` set (lb_entries b)) + card (set_option (lb_last_generation b))"
    by (rule card_Un_le)
  also have "card (le_generation ` set (lb_entries b)) \<le> MAX_LOG_ENTRIES"
    using assms(1) card_image_le [of "set (lb_entries b)" le_generation] card_length [of "lb_entries b"]
    by (auto simp: log_shape_def within_bounds_def)
  also have "card (set_option (lb_last_generation b)) \<le> 1" by (cases "lb_last_generation b") auto
  finally show ?thesis by (simp add: MAX_TRACKED_GENERATIONS_def)
qed

lemma prune_ok:
  assumes "log_shape b"
  shows "log_ok (prune_generation_metadata b)"
proof (cases "length (lb_generations b) \<le> MAX_TRACKED_GENERATIONS")
  case False
  obtain gens order where loop: "prune_loop (removable b) (lb_generations b) (lb_generation_order b) = (gens, order)"
    by fastforce
  from assms have "order_ok (lb_generations b) (lb_generation_order b)" by (simp add: log_shape_def)
  note spec = prune_loop_spec [OF this loop]
  from spec have kept: "hm_get gens g = hm_get (lb_generations b) g" if "\<not> removable b g" for g using that by blast
  from spec have sub: "hm_get gens g = Some st \<Longrightarrow> hm_get (lb_generations b) g = Some st" for g st by (metis option.distinct(1))
  from spec have ord: "order_ok gens order" by simp
  then have "set order = {g. hm_get gens g \<noteq> None}" by (force simp: order_ok_def map_of_eq_None_iff)
  then have all: "filter (\<lambda>g. hm_get gens g \<noteq> None) order = order" by (simp add: filter_id_conv)
  have "length gens \<le> MAX_TRACKED_GENERATIONS"
    using spec not_removable_few [OF assms, of order] order_ok_length [OF ord] by auto
  moreover have "gens_ok gens (lb_entries b)" unfolding gens_ok_def
  proof (intro conjI ballI allI impI)
    show "hm_ok gens" using ord by (simp add: order_ok_def)
    show "hm_get gens (le_generation e) \<noteq> None" if "e \<in> set (lb_entries b)" for e
      using assms that kept [of "le_generation e"] by (simp add: log_shape_def gens_ok_def removable_def)
    show "numbered g st (lb_entries b)" if "hm_get gens g = Some st" for g st
      using assms sub [OF that] by (simp add: log_shape_def gens_ok_def)
  qed
  moreover have "lb_last_generation b = Some g \<Longrightarrow> hm_get gens g \<noteq> None" for g
    using assms kept [of g] by (auto simp: log_shape_def removable_def)
  ultimately show ?thesis
    using assms ord False loop all by (simp add: log_ok_def log_shape_def prune_generation_metadata_def)
next
  case True
  with assms show ?thesis by (simp add: log_ok_def prune_generation_metadata_def)
qed

lemma prune_frame [simp, frame]:
  "lb_entries (prune_generation_metadata b) = lb_entries b"
  by (simp add: prune_generation_metadata_def split: prod.splits)

section \<open>Every operation keeps the buffer well formed\<close>

lemma log_ok_shape: "log_ok b \<Longrightarrow> log_shape b"
  by (simp add: log_ok_def)

lemma log_ok_default [simp, inv_intros]: "log_ok log_buffer_default"
  by (simp add: log_ok_def log_shape_def within_bounds_def gens_ok_def order_ok_def log_buffer_default_def)

lemma begin_generation_ok [inv_intros]: "log_ok b \<Longrightarrow> log_ok (begin_generation g b)"
proof -
  assume ok: "log_ok b"
  let ?b = "ensure_generation g b"
  have "log_shape ?b" using ok by (intro ensure_generation_shape log_ok_shape)
  then have "log_shape (?b\<lparr>lb_active_generation := Some g, lb_last_generation := Some g\<rparr>)"
    using ensure_generation_tracks [of g b] by (auto simp: log_shape_def)
  moreover have "ensure_generation g (b\<lparr>lb_active_generation := Some g, lb_last_generation := Some g\<rparr>)
      = ?b\<lparr>lb_active_generation := Some g, lb_last_generation := Some g\<rparr>"
    by (simp add: ensure_generation_def split: option.splits)
  ultimately show ?thesis using prune_ok by (simp add: begin_generation_def)
qed

lemma update_generation_shape:
  assumes "log_shape b" "\<And>st. gs_missing_count (f st) = gs_missing_count st"
    "\<And>st. gs_last_observed_sequence (f st) = gs_last_observed_sequence st"
  shows "log_shape (b\<lparr>lb_generations := update_generation g f (lb_generations b)\<rparr>)"
proof -
  have "gens_ok (update_generation g f (lb_generations b)) (lb_entries b)"
    using assms by (intro gens_ok_update) (simp_all add: log_shape_def numbered_def)
  moreover have "order_ok (update_generation g f (lb_generations b)) (lb_generation_order b)"
    using assms(1) order_ok_fst [OF update_generation_keys] by (auto simp: log_shape_def)
  ultimately show ?thesis using assms(1) by (auto simp: log_shape_def update_generation_get)
qed

lemma end_generation_ok [inv_intros]: "log_ok b \<Longrightarrow> log_ok (end_generation g b)"
proof -
  assume ok: "log_ok b"
  let ?f = "\<lambda>st. if gs_subscription st = Sub_Pending \<or> gs_subscription st = Subscribed
                  then st\<lparr>gs_subscription := Sub_Cancelled\<rparr> else st"
  have "log_shape (b\<lparr>lb_generations := update_generation g ?f (lb_generations b)\<rparr>)"
    using ok by (intro update_generation_shape log_ok_shape) simp_all
  then have "lb_active_generation b = Some g \<Longrightarrow>
      log_shape (b\<lparr>lb_active_generation := None, lb_last_generation := Some g,
        lb_generations := update_generation g ?f (lb_generations b)\<rparr>)"
    by (auto simp: log_shape_def)
  then show ?thesis using ok log_ok_shape [OF ok] by (auto simp: end_generation_def intro!: prune_ok)
qed

lemma set_subscription_status_ok [inv_intros]: "log_ok b \<Longrightarrow> log_ok (set_subscription_status g status b)"
proof -
  assume ok: "log_ok b"
  let ?b = "ensure_generation g b"
  let ?c = "?b\<lparr>lb_generations := update_generation g (\<lambda>st. st\<lparr>gs_subscription := status\<rparr>) (lb_generations ?b)\<rparr>"
  have "log_shape ?c"
    using ok by (intro update_generation_shape ensure_generation_shape log_ok_shape) simp_all
  moreover from this have "lb_active_generation b = None \<Longrightarrow> log_shape (?c\<lparr>lb_last_generation := Some g\<rparr>)"
    using ensure_generation_tracks [of g b] by (auto simp: log_shape_def update_generation_get)
  ultimately show ?thesis by (auto simp: set_subscription_status_def Let_def intro!: prune_ok)
qed

lemma set_subscription_status_if_active_ok [inv_intros]:
  "log_ok b \<Longrightarrow> log_ok (snd (set_subscription_status_if_active g status b))"
  by (simp add: set_subscription_status_if_active_def set_subscription_status_ok)

lemma note_missed_events_update:
  "snd (note_missed_events g count b) =
    (if lb_active_generation b = Some g
     then b\<lparr>lb_generations := update_generation g
       (\<lambda>st. st\<lparr>gs_missed_event_count := sat_add (gs_missed_event_count st) count\<rparr>) (lb_generations b)\<rparr>
     else b)"
  by (auto simp: note_missed_events_def update_generation_def split: option.splits)

lemma note_missed_events_ok [inv_intros]: "log_ok b \<Longrightarrow> log_ok (snd (note_missed_events g count b))"
proof -
  assume ok: "log_ok b"
  have "length (update_generation g f m) = length m" for f :: "generation_state \<Rightarrow> generation_state" and m
    by (metis update_generation_keys length_map)
  with ok show ?thesis
    by (simp add: note_missed_events_update log_ok_def update_generation_shape)
qed

section \<open>Recording\<close>

lemma char_floor_le: "char_floor s n \<le> n"
  by (induction n) auto

lemma bounded_copy_length:
  assumes "bounded_copy s r = (t, r')"
  shows "length t \<le> r \<and> r' = r - length t"
proof -
  have "char_floor s (min (length s) r) \<le> min (length s) r" by (rule char_floor_le)
  with assms show ?thesis by (auto simp: bounded_copy_def Let_def)
qed

lemma bounded_copy_opt_length:
  "bounded_copy_opt s r = (t, r') \<Longrightarrow> opt_len t \<le> r \<and> r' = r - opt_len t"
  by (cases s) (auto simp: opt_len_def split: prod.splits dest: bounded_copy_length)

lemma owned_fields_length:
  "owned_fields limit l = (m, c, t) \<Longrightarrow> length m + opt_len c + opt_len t \<le> limit"
  by (auto simp: owned_fields_def split: prod.splits dest!: bounded_copy_length bounded_copy_opt_length)

text \<open>The oldest entry of the buffer is the oldest of its generation.\<close>

lemma count_missing_ok:
  assumes "gens_ok gens (e # es)"
  shows "gens_ok (count_missing (le_generation e) gens) es"
proof -
  let ?g = "le_generation e"
  have "numbered g st es" if st: "hm_get (count_missing ?g gens) g = Some st" for g st
  proof (cases "g = ?g")
    case False
    with st have "hm_get gens g = Some st" by (simp add: count_missing_def update_generation_get)
    with assms have "numbered g st (e # es)" by (simp add: gens_ok_def)
    with False show ?thesis by (simp add: numbered_def del: upt_Suc)
  next
    case True
    with st obtain st0 where st0: "hm_get gens g = Some st0"
      "st = st0\<lparr>gs_missing_count := sat_add (gs_missing_count st0) 1\<rparr>"
      by (auto simp: count_missing_def update_generation_get)
    with assms True have n: "numbered g st0 (e # es)" by (simp add: gens_ok_def)
    then have "gs_missing_count st0 < gs_last_observed_sequence st0"
      using True by (auto simp: numbered_def intro: ccontr)
    with n True st0(2) show ?thesis
      by (auto simp: numbered_def sat_add_exact upt_conv_Cons simp del: upt_Suc)
  qed
  then show ?thesis
    using assms by (auto simp: gens_ok_def count_missing_def update_generation_get)
qed

lemma make_room_ok:
  assumes "gens_ok gens (es @ rest)" "make_room stored es bytes gens = (es', bytes', gens')"
  shows "gens_ok gens' (es' @ rest) \<and> map fst gens' = map fst gens"
  using assms
proof (induction stored es bytes gens rule: make_room.induct)
  case (2 stored e es bytes gens)
  then show ?case
    using count_missing_ok [of gens e "es @ rest"] by (auto simp: count_missing_def split: if_splits)
qed auto

text \<open>The entries that stay: the longest end of the list that leaves room for the new one.\<close>

fun longest_suffix :: "('a list \<Rightarrow> bool) \<Rightarrow> 'a list \<Rightarrow> 'a list" where
  "longest_suffix P [] = []"
| "longest_suffix P (x # xs) = (if P (x # xs) then x # xs else longest_suffix P xs)"

lemma longest_suffix_holds: "P [] \<Longrightarrow> P (longest_suffix P xs)"
  by (induction xs) auto

lemma longest_suffix_longest_suffix:
  "(\<And>ys. Q ys \<Longrightarrow> P ys) \<Longrightarrow> longest_suffix Q (longest_suffix P xs) = longest_suffix Q xs"
  by (induction xs) auto

lemma longest_suffix_cong:
  "(\<And>ys. P ys = Q ys) \<Longrightarrow> longest_suffix P xs = longest_suffix Q xs"
  by (induction xs) auto

lemma longest_suffix_snoc:
  "P [x] \<Longrightarrow> longest_suffix P (xs @ [x]) = longest_suffix (\<lambda>ys. P (ys @ [x])) xs @ [x]"
  by (induction xs) auto

lemma make_room_entries:
  assumes "bytes = stored_sum es" "bytes + stored \<le> usize_max" "make_room stored es bytes gens = (es', bytes', gens')"
  shows "es' = longest_suffix (\<lambda>ys. length ys < MAX_LOG_ENTRIES \<and> stored_sum ys + stored \<le> MAX_LOG_BYTES) es
    \<and> bytes' = stored_sum es'"
  using assms
  by (induction stored es bytes gens rule: make_room.induct) (auto simp: sat_add_exact sat_sub_def not_less not_le)

lemma gens_ok_append:
  assumes "gens_ok gens es" "hm_get gens g = Some st" "le_generation x = g"
    "le_sequence x = Suc (gs_last_observed_sequence st)" "Suc (gs_last_observed_sequence st) \<le> usize_max"
  shows "gens_ok (hm_insert g (st\<lparr>gs_last_observed_sequence := Suc (gs_last_observed_sequence st)\<rparr>) gens) (es @ [x])"
proof -
  let ?st = "st\<lparr>gs_last_observed_sequence := Suc (gs_last_observed_sequence st)\<rparr>"
  have "numbered h st' (es @ [x])" if "hm_get (hm_insert g ?st gens) h = Some st'" for h st'
  proof (cases "h = g")
    case True
    with that assms show ?thesis by (auto simp: gens_ok_def numbered_def hm_get_insert)
  next
    case False
    with that assms(1) have "numbered h st' es" by (simp add: gens_ok_def hm_get_insert)
    with False assms(3) show ?thesis by (simp add: numbered_def del: upt_Suc)
  qed
  with assms(1,3) show ?thesis by (auto simp: gens_ok_def hm_get_insert)
qed

text \<open>The heart of \<open>record_at\<close>: a new last entry in a well-formed buffer whose oldest entries make room.\<close>

lemma push_entry_ok:
  assumes "log_shape b" "hm_get (lb_generations b) g = Some st" "le_generation x = g"
    "le_sequence x = Suc (gs_last_observed_sequence st)" "Suc (gs_last_observed_sequence st) \<le> usize_max"
    "le_stored_bytes x \<le> MAX_LOG_BYTES"
    "make_room (le_stored_bytes x) (lb_entries b) (lb_retained_bytes b)
       (hm_insert g (st\<lparr>gs_last_observed_sequence := Suc (gs_last_observed_sequence st)\<rparr>) (lb_generations b))
       = (entries, bytes, gens)"
  shows "log_shape (b\<lparr>lb_entries := entries @ [x], lb_retained_bytes := sat_add bytes (le_stored_bytes x),
      lb_generations := gens\<rparr>)
    \<and> entries = longest_suffix (\<lambda>ys. within_bounds (ys @ [x])) (lb_entries b)
    \<and> map fst gens = map fst (lb_generations b)"
proof -
  let ?gens = "hm_insert g (st\<lparr>gs_last_observed_sequence := Suc (gs_last_observed_sequence st)\<rparr>) (lb_generations b)"
  have "gens_ok ?gens (lb_entries b @ [x])" using assms(1-5) by (intro gens_ok_append) (simp_all add: log_shape_def)
  note room = make_room_ok [OF this assms(7)]
  then have keys: "map fst gens = map fst (lb_generations b)" using assms(2) by simp
  have bytes: "lb_retained_bytes b = stored_sum (lb_entries b)" "stored_sum (lb_entries b) \<le> MAX_LOG_BYTES"
    using assms(1) by (simp_all add: log_shape_def within_bounds_def)
  then have "lb_retained_bytes b + le_stored_bytes x \<le> usize_max"
    using assms(6) by (simp add: MAX_LOG_BYTES_def usize_max_def)
  note made = make_room_entries [OF bytes(1) this assms(7)]
  have eq: "(\<lambda>ys. length ys < MAX_LOG_ENTRIES \<and> stored_sum ys + le_stored_bytes x \<le> MAX_LOG_BYTES)
      = (\<lambda>ys. within_bounds (ys @ [x]))" by (auto simp: within_bounds_def fun_eq_iff)
  have entries: "entries = longest_suffix (\<lambda>ys. within_bounds (ys @ [x])) (lb_entries b)"
    using made eq by simp
  have "within_bounds ([] @ [x])" using assms(6) by (simp add: within_bounds_def MAX_LOG_ENTRIES_def)
  then have within: "within_bounds (entries @ [x])" unfolding entries by (rule longest_suffix_holds)
  then have "sat_add bytes (le_stored_bytes x) = stored_sum (entries @ [x])"
    using made by (simp add: sat_add_exact within_bounds_def MAX_LOG_BYTES_def usize_max_def)
  moreover have "order_ok gens (lb_generation_order b)"
    using order_ok_fst [OF keys] assms(1) by (auto simp: log_shape_def)
  moreover have "hm_get gens h = None \<longleftrightarrow> hm_get (lb_generations b) h = None" for h
    by (metis keys map_of_eq_None_iff list.set_map)
  moreover have "lb_active_generation b = None \<or> lb_active_generation b = lb_last_generation b"
    "\<forall>g. lb_last_generation b = Some g \<longrightarrow> hm_get (lb_generations b) g \<noteq> None"
    using assms(1) by (simp_all add: log_shape_def)
  ultimately have "log_shape (b\<lparr>lb_entries := entries @ [x], lb_retained_bytes := sat_add bytes (le_stored_bytes x),
      lb_generations := gens\<rparr>)"
    using within room by (simp add: log_shape_def)
  with keys entries show ?thesis by simp
qed

lemma record_at_cases:
  assumes "log_ok b" "entry_size \<le> MAX_LOG_BYTES"
  obtains (refused) e where "record_at entry_size level_of g params t b = (Inl e, b)"
  | (recorded) out x b' where "record_at entry_size level_of g params t b = (Inr out, b')" "log_ok b'"
      "lb_entries b' = longest_suffix (\<lambda>ys. within_bounds (ys @ [x])) (lb_entries b) @ [x]"
      "le_generation x = g" "le_sequence x = lo_sequence out" "within_bounds [x]"
proof (cases "borrowed_parse level_of params")
  case (Inl e)
  then show ?thesis using refused by (simp add: record_at_def)
next
  case (Inr borrowed)
  let ?max = "sat_sub MAX_LOG_BYTES entry_size"
  obtain message category timestamp where owned: "owned_fields ?max borrowed = (message, category, timestamp)"
    by (cases "owned_fields ?max borrowed") auto
  let ?stored = "sat_add (sat_add (sat_add entry_size (length message)) (opt_len category)) (opt_len timestamp)"
  let ?b = "ensure_generation g b"
  obtain st where st: "hm_get (lb_generations ?b) g = Some st" using ensure_generation_tracks by blast
  have shape: "log_shape ?b" using assms(1) by (intro ensure_generation_shape log_ok_shape)
  show ?thesis
  proof (cases "Suc (gs_last_observed_sequence st) \<le> usize_max")
    case False
    have "?b = b"
    proof (cases "hm_get (lb_generations b) g")
      case None
      with st False show ?thesis by (auto simp: ensure_generation_def hm_get_insert generation_default_def usize_max_def)
    qed (simp add: ensure_generation_def)
    with Inr owned st False show ?thesis
      by (intro refused [of SequenceExhausted]) (simp add: record_at_def Let_def checked_add_def)
  next
    case True
    let ?x = "\<lparr>le_generation = g, le_sequence = Suc (gs_last_observed_sequence st), le_received_at_ms = t,
      le_level = bl_level borrowed, le_message = message, le_category = category, le_engine_timestamp = timestamp,
      le_truncated = payload_bytes borrowed > ?max, le_stored_bytes = ?stored\<rparr>"
    obtain entries bytes gens where room: "make_room ?stored (lb_entries ?b) (lb_retained_bytes ?b)
        (hm_insert g (st\<lparr>gs_last_observed_sequence := Suc (gs_last_observed_sequence st)\<rparr>) (lb_generations ?b))
        = (entries, bytes, gens)" using prod_cases3 by blast
    have stored: "?stored \<le> MAX_LOG_BYTES"
      using owned_fields_length [OF owned] assms(2) by (simp add: sat_add_def sat_sub_def)
    note push = push_entry_ok [OF shape st, of ?x, simplified, OF True [simplified] stored room [simplified]]
    let ?c = "(if lb_active_generation ?b = None then ?b\<lparr>lb_last_generation := Some g\<rparr> else ?b)
      \<lparr>lb_entries := entries @ [?x], lb_retained_bytes := sat_add bytes ?stored, lb_generations := gens\<rparr>"
    have "hm_get gens g \<noteq> None" using push st by (metis map_of_eq_None_iff list.set_map option.distinct(1))
    with push have "log_shape ?c" by (auto simp: log_shape_def)
    then have "log_ok (prune_generation_metadata ?c)" by (rule prune_ok)
    moreover have "record_at entry_size level_of g params t b
        = (Inr \<lparr>lo_sequence = Suc (gs_last_observed_sequence st), lo_truncated = payload_bytes borrowed > ?max\<rparr>,
           prune_generation_metadata ?c)"
      using Inr owned st True room by (simp add: record_at_def Let_def checked_add_def)
    ultimately show ?thesis using push stored
      by (intro recorded [of _ _ ?x]) (auto simp: within_bounds_def MAX_LOG_ENTRIES_def)
  qed
qed

section \<open>Runs of operations\<close>

text \<open>Beside the buffer a run keeps the unbounded log: every entry ever recorded, in order.\<close>

datatype log_op =
    Begin nat
  | End nat
  | Set_status nat log_subscription_status
  | Set_status_if_active nat log_subscription_status
  | Missed nat nat
  | Record nat json_map nat
  | Relay nat json_map "nat option"

definition with_log :: "('e + 'a) \<times> log_buffer \<Rightarrow> log_entry list \<Rightarrow> ('a \<Rightarrow> bool) \<Rightarrow> log_buffer \<times> log_entry list" where
  "with_log r log kept =
     (snd r, case fst r of Inl _ \<Rightarrow> log | Inr out \<Rightarrow> if kept out then log @ [last (lb_entries (snd r))] else log)"

fun log_step ::
  "nat \<Rightarrow> (json \<Rightarrow> log_level option) \<Rightarrow> log_op \<Rightarrow> log_buffer \<times> log_entry list \<Rightarrow> log_buffer \<times> log_entry list" where
  "log_step sz lv (Begin g) (b, log) = (begin_generation g b, log)"
| "log_step sz lv (End g) (b, log) = (end_generation g b, log)"
| "log_step sz lv (Set_status g s) (b, log) = (set_subscription_status g s b, log)"
| "log_step sz lv (Set_status_if_active g s) (b, log) = (snd (set_subscription_status_if_active g s b), log)"
| "log_step sz lv (Missed g n) (b, log) = (snd (note_missed_events g n b), log)"
| "log_step sz lv (Record g params t) (b, log) = with_log (record_at sz lv g params t b) log (\<lambda>_. True)"
| "log_step sz lv (Relay g params clock) (b, log) =
     with_log (record_relay_log sz lv clock g params b) log (\<lambda>out. out \<noteq> Stale)"

definition log_run ::
  "nat \<Rightarrow> (json \<Rightarrow> log_level option) \<Rightarrow> log_op list \<Rightarrow> log_buffer \<times> log_entry list" where
  "log_run sz lv ops = fold (log_step sz lv) ops (log_buffer_default, [])"

definition log_rel :: "log_buffer \<times> log_entry list \<Rightarrow> bool" where
  "log_rel p \<longleftrightarrow> log_ok (fst p) \<and> lb_entries (fst p) = longest_suffix within_bounds (snd p)"

lemma log_rel_entries_unchanged:
  "log_rel (b, log) \<Longrightarrow> log_ok b' \<Longrightarrow> lb_entries b' = lb_entries b \<Longrightarrow> log_rel (b', log)"
  by (simp add: log_rel_def)

lemma within_bounds_front: "within_bounds (ys @ [x]) \<Longrightarrow> within_bounds ys"
  by (simp add: within_bounds_def)

lemma log_rel_record:
  assumes "log_rel (b, log)" "sz \<le> MAX_LOG_BYTES"
  shows "log_rel (with_log (record_at sz lv g params t b) log (\<lambda>_. True))"
proof -
  have b: "log_ok b" "lb_entries b = longest_suffix within_bounds log" using assms(1) by (simp_all add: log_rel_def)
  show ?thesis
    using b(1) assms(2)
  proof (cases rule: record_at_cases [where level_of = lv and g = g and params = params and t = t])
    case (refused e)
    with assms(1) show ?thesis by (simp add: with_log_def)
  next
    case (recorded out x b')
    have "lb_entries b' = longest_suffix (\<lambda>ys. within_bounds (ys @ [x])) log @ [x]"
      using recorded(3) b(2) longest_suffix_longest_suffix [of "\<lambda>ys. within_bounds (ys @ [x])" within_bounds]
        within_bounds_front by simp
    also have "\<dots> = longest_suffix within_bounds (log @ [x])"
      using longest_suffix_snoc [of within_bounds x log] recorded(6) by simp
    finally have "lb_entries b' = longest_suffix within_bounds (log @ [x])" .
    moreover have "last (lb_entries b') = x" using recorded(3) by simp
    ultimately show ?thesis using recorded(1,2) by (simp add: with_log_def log_rel_def)
  qed
qed

lemma operation_frame [frame]:
  "lb_entries (begin_generation g b) = lb_entries b"
  "lb_entries (end_generation g b) = lb_entries b"
  "lb_entries (set_subscription_status g s b) = lb_entries b"
  "lb_entries (snd (set_subscription_status_if_active g s b)) = lb_entries b"
  "lb_entries (snd (note_missed_events g n b)) = lb_entries b"
  by (simp_all add: begin_generation_def end_generation_def set_subscription_status_def
      set_subscription_status_if_active_def note_missed_events_update Let_def)

lemma log_rel_step:
  assumes "log_rel p" "sz \<le> MAX_LOG_BYTES"
  shows "log_rel (log_step sz lv op p)"
proof -
  obtain b log where p: "p = (b, log)" by (cases p)
  have ok: "log_ok b" using assms(1) p by (simp add: log_rel_def)
  have keep: "log_ok b' \<Longrightarrow> lb_entries b' = lb_entries b \<Longrightarrow> log_rel (b', log)" for b'
    using assms(1) p log_rel_entries_unchanged by simp
  show ?thesis
  proof (cases op)
    case (Record g params t)
    then show ?thesis using log_rel_record assms p by simp
  next
    case (Relay g params clock)
    let ?r = "record_at sz lv g params (now_unix_millis clock) b"
    have "with_log (record_relay_log sz lv clock g params b) log (\<lambda>out. out \<noteq> Stale)
        = (if lb_active_generation b = Some g then with_log ?r log (\<lambda>_. True) else (b, log))"
      by (cases "fst ?r") (auto simp: record_relay_log_def log_record_def with_log_def split: prod.splits)
    then show ?thesis using log_rel_record [of b log] assms p Relay by simp
  qed (simp_all add: p keep frame inv_intros ok)
qed

lemma log_rel_run: "sz \<le> MAX_LOG_BYTES \<Longrightarrow> log_rel (log_run sz lv ops)"
proof -
  assume sz: "sz \<le> MAX_LOG_BYTES"
  have "log_rel p \<Longrightarrow> log_rel (fold (log_step sz lv) ops p)" for p
    using log_rel_step [OF _ sz] by (induction ops arbitrary: p) auto
  then show ?thesis by (simp add: log_run_def log_rel_def log_buffer_default_def log_ok_default [unfolded log_buffer_default_def])
qed

definition level_info :: "json \<Rightarrow> log_level option" where
  "level_info v = (if v = JString ''info'' then Some LInfo else None)"

definition demo_message :: json_map where
  "demo_message = [(''level'', JString ''info''), (''message'', JString ''hi'')]"

definition demo_ops :: "log_op list" where
  "demo_ops = [Begin 1, Record 1 demo_message 5, Record 1 demo_message 6]"

definition demo_entry :: "nat \<Rightarrow> nat \<Rightarrow> log_entry" where
  "demo_entry i t = \<lparr>le_generation = 1, le_sequence = i, le_received_at_ms = t, le_level = LInfo, le_message = ''hi'',
     le_category = None, le_engine_timestamp = None, le_truncated = False, le_stored_bytes = 114\<rparr>"

definition demo_log_buffer :: log_buffer where
  "demo_log_buffer = \<lparr>lb_entries = [demo_entry 1 5, demo_entry 2 6], lb_retained_bytes = 228,
     lb_generations = [(1, generation_default\<lparr>gs_last_observed_sequence := 2\<rparr>)],
     lb_generation_order = [1], lb_active_generation = Some 1, lb_last_generation = Some 1\<rparr>"

lemma demo_run: "log_run 112 level_info demo_ops = (demo_log_buffer, [demo_entry 1 5, demo_entry 2 6])"
proof -
  have copy: "owned_fields 2097040 \<lparr>bl_level = LInfo, bl_message = ''hi'', bl_category = None,
      bl_engine_timestamp = None\<rparr> = (''hi'', None, None)"
    by (simp add: owned_fields_def bounded_copy_def sat_sub_def MAX_LOG_BYTES_def Let_def is_char_boundary_def numeral_2_eq_2)
  have parse: "borrowed_parse level_info demo_message
      = Inr \<lparr>bl_level = LInfo, bl_message = ''hi'', bl_category = None, bl_engine_timestamp = None\<rparr>"
    by (simp add: borrowed_parse_def demo_message_def level_info_def log_optional_string_def)
  let ?b = "\<lambda>es n. \<lparr>lb_entries = es, lb_retained_bytes = 114 * length es,
     lb_generations = [(1, generation_default\<lparr>gs_last_observed_sequence := n\<rparr>)],
     lb_generation_order = [1], lb_active_generation = Some 1, lb_last_generation = Some 1\<rparr>"
  have start: "begin_generation 1 log_buffer_default = ?b [] 0"
    by (simp add: begin_generation_def ensure_generation_def log_buffer_default_def prune_generation_metadata_def
        MAX_TRACKED_GENERATIONS_def MAX_LOG_ENTRIES_def generation_default_def)
  have rec: "with_log (record_at 112 level_info 1 demo_message t (?b es n)) log (\<lambda>_. True)
      = (?b (es @ [demo_entry (Suc n) t]) (Suc n), log @ [demo_entry (Suc n) t])"
    if "length es < 5" "n < 5" "make_room 114 es (114 * length es)
        [(1, generation_default\<lparr>gs_last_observed_sequence := Suc n\<rparr>)]
      = (es, 114 * length es, [(1, generation_default\<lparr>gs_last_observed_sequence := Suc n\<rparr>)])" for es t n log
    using that
    by (simp add: with_log_def record_at_def parse copy ensure_generation_def prune_generation_metadata_def
        MAX_TRACKED_GENERATIONS_def MAX_LOG_ENTRIES_def checked_add_def usize_max_def Let_def sat_add_def
        opt_len_def payload_bytes_def sat_sub_def MAX_LOG_BYTES_def demo_entry_def)
  have room: "make_room 114 [demo_entry 1 5] 114 gens = ([demo_entry 1 5], 114, gens)" for gens
    by (simp add: MAX_LOG_ENTRIES_def MAX_LOG_BYTES_def sat_add_def usize_max_def)
  have one: "with_log (record_at 112 level_info 1 demo_message 5 (?b [] 0)) [] (\<lambda>_. True)
      = (?b [demo_entry 1 5] 1, [demo_entry 1 5])" using rec [of "[]" 0 5 "[]"] by simp
  have two: "with_log (record_at 112 level_info 1 demo_message 6 (?b [demo_entry 1 5] 1)) [demo_entry 1 5] (\<lambda>_. True)
      = (?b [demo_entry 1 5, demo_entry 2 6] 2, [demo_entry 1 5, demo_entry 2 6])"
    using rec [of "[demo_entry 1 5]" 1 6 "[demo_entry 1 5]"] room by (simp add: numeral_2_eq_2 del: make_room.simps)
  have "log_run 112 level_info demo_ops = (?b [demo_entry 1 5, demo_entry 2 6] 2, [demo_entry 1 5, demo_entry 2 6])"
    by (simp only: log_run_def demo_ops_def fold_simps log_step.simps start one two)
  then show ?thesis by (simp add: demo_log_buffer_def)
qed

text \<open>C20: After any operations in any order the log buffer is within its bounds with an exact byte count, and it tracks
  the generation of every entry it holds.\<close>

theorem log_buffer_well_formed:
  assumes "sz \<le> MAX_LOG_BYTES" "b = fst (log_run sz lv ops)"
  shows "length (lb_entries b) \<le> 1000 \<and> lb_retained_bytes b = sum_list (map le_stored_bytes (lb_entries b))
    \<and> lb_retained_bytes b \<le> 2 * 1024 * 1024 \<and> length (lb_generations b) \<le> 1001
    \<and> distinct (map fst (lb_generations b))
    \<and> le_generation ` set (lb_entries b) \<subseteq> set (map fst (lb_generations b))"
proof -
  have ok: "log_ok b" using log_rel_run [OF assms(1)] assms(2) by (simp add: log_rel_def)
  then have "hm_get (lb_generations b) (le_generation e) \<noteq> None" if "e \<in> set (lb_entries b)" for e
    using that by (simp add: log_ok_def log_shape_def gens_ok_def)
  then have "le_generation ` set (lb_entries b) \<subseteq> set (map fst (lb_generations b))"
    by (force simp: map_of_eq_None_iff)
  with ok show ?thesis
    by (simp add: log_ok_def log_shape_def within_bounds_def gens_ok_def hm_ok_def MAX_LOG_ENTRIES_def
        MAX_LOG_BYTES_def MAX_TRACKED_GENERATIONS_def)
qed

lemma log_buffer_well_formed_witness:
  "length (lb_entries (fst (log_run 112 level_info demo_ops))) \<le> 1000"
  using log_buffer_well_formed [of 112 _ level_info demo_ops] by (simp add: MAX_LOG_BYTES_def)

text \<open>C21: The buffer refines the unbounded log: after any operations it holds exactly the longest end of all recorded
  entries that has at most 1000 entries and 2 MiB, so no newer entry is ever lost for an older one, and none
  is evicted without need.\<close>

theorem log_buffer_is_newest_log:
  assumes "sz \<le> MAX_LOG_BYTES" "log_run sz lv ops = (b, log)"
  shows "lb_entries b = longest_suffix (\<lambda>es. length es \<le> 1000 \<and> sum_list (map le_stored_bytes es) \<le> 2 * 1024 * 1024) log"
proof -
  have "within_bounds = (\<lambda>es. length es \<le> 1000 \<and> sum_list (map le_stored_bytes es) \<le> 2 * 1024 * 1024)"
    by (auto simp: within_bounds_def MAX_LOG_ENTRIES_def MAX_LOG_BYTES_def fun_eq_iff)
  with log_rel_run [OF assms(1), of lv ops] assms(2) show ?thesis by (simp add: log_rel_def)
qed

lemma log_buffer_is_newest_log_witness:
  "lb_entries demo_log_buffer
    = longest_suffix (\<lambda>es. length es \<le> 1000 \<and> sum_list (map le_stored_bytes es) \<le> 2 * 1024 * 1024) [demo_entry 1 5, demo_entry 2 6]"
  using log_buffer_is_newest_log [OF _ demo_run] by (simp add: MAX_LOG_BYTES_def)

section \<open>The retention report\<close>

lemma find_filter: "find P xs = (case filter P xs of [] \<Rightarrow> None | x # ys \<Rightarrow> Some x)"
  by (induction xs) auto

lemma find_rev_filter: "find P (rev xs) = (if filter P xs = [] then None else Some (last (filter P xs)))"
  by (induction xs rule: rev_induct) auto

text \<open>The retention report of a generation is exact: the entries counted missing and the retained ones make up the
  last number given out, the first and the last retained number follow from the count, and a gap is reported
  exactly when an entry was evicted, a notification was missed or a retained text was cut.\<close>

lemma retention_is_exact:
  assumes "sz \<le> MAX_LOG_BYTES" "b = fst (log_run sz lv ops)" "hm_get (lb_generations b) g = Some st"
    and "r = retention_for b g st" "n = length (filter (\<lambda>e. le_generation e = g) (lb_entries b))"
  shows "lr_missing_count r + n = lr_last_observed_sequence r
    \<and> lr_first_sequence r = (if n = 0 then None else Some (lr_missing_count r + 1))
    \<and> lr_last_sequence r = (if n = 0 then None else Some (lr_last_observed_sequence r))
    \<and> (lr_has_gap r \<longleftrightarrow> 0 < lr_missing_count r \<or> 0 < lr_missed_event_count r
         \<or> (\<exists>e\<in>set (lb_entries b). le_generation e = g \<and> le_truncated e))"
proof -
  have "log_ok b" using log_rel_run [OF assms(1)] assms(2) by (simp add: log_rel_def)
  then have num: "map le_sequence (of_gen g (lb_entries b)) = [Suc (gs_missing_count st) ..< Suc (gs_last_observed_sequence st)]"
    "gs_missing_count st \<le> gs_last_observed_sequence st"
    using assms(3) by (simp_all add: log_ok_def log_shape_def gens_ok_def numbered_def del: upt_Suc)
  have n: "gs_missing_count st + n = gs_last_observed_sequence st"
    using arg_cong [OF num(1), of length] num(2) assms(5) by simp
  have first: "lr_first_sequence r = (if n = 0 then None else Some (Suc (gs_missing_count st)))"
    using arg_cong [OF num(1), of hd] n assms(4,5)
    by (auto simp: retention_for_def Let_def find_filter hd_map simp del: upt_Suc split: list.splits)
  have "lr_last_sequence r = (if n = 0 then None else Some (gs_last_observed_sequence st))"
  proof (cases "n = 0")
    case True
    with assms(4,5) show ?thesis by (simp add: retention_for_def Let_def find_rev_filter)
  next
    case False
    with n have "last [Suc (gs_missing_count st) ..< Suc (gs_last_observed_sequence st)] = gs_last_observed_sequence st"
      by simp
    moreover from False assms(5) have "le_sequence (last (of_gen g (lb_entries b))) = last (map le_sequence (of_gen g (lb_entries b)))"
      by (simp add: last_map)
    ultimately show ?thesis
      using False num(1) assms(4,5) by (simp add: retention_for_def Let_def find_rev_filter del: upt_Suc)
  qed
  with first n show ?thesis
    using assms(4) by (auto simp: retention_for_def Let_def list_ex_iff split: option.splits if_splits)
qed

section \<open>Reading page by page\<close>

lemma fill_page_take:
  "length page \<le> limit \<Longrightarrow>
    fill_page limit page es = (page @ take (limit - length page) es, limit - length page < length es)"
proof (induction es arbitrary: page)
  case (Cons e es)
  show ?case
  proof (cases "length page = limit")
    case False
    with Cons have "fill_page limit (page @ [e]) es
        = (page @ [e] @ take (limit - length page - 1) es, limit - length page - 1 < length es)" by simp
    moreover have "take (limit - length page) (e # es) = e # take (limit - length page - 1) es"
      using False Cons.prems by (simp add: take_Cons')
    ultimately show ?thesis using False Cons.prems by auto
  qed simp
qed simp

lemma page_limit_pos: "0 < page_limit q"
  by (simp add: page_limit_def MAX_LOG_PAGE_SIZE_def)

lemma log_read_page:
  assumes "lq_generation q = Some g" "es = filter (matches_query q) (lb_entries b)"
  shows "sn_entries (log_read b q) = take (page_limit q) es"
    and "sn_has_more (log_read b q) \<longleftrightarrow> page_limit q < length es"
    and "page_limit q < length es \<Longrightarrow> sn_next_after_sequence (log_read b q) = Some (le_sequence (es ! (page_limit q - 1)))"
  using assms page_limit_pos [of q] by (auto simp: log_read_def fill_page_take last_conv_nth Let_def)

text \<open>A client that asks for the next page with the cursor of the last one, for at most \<open>fuel\<close> pages.\<close>

fun read_pages :: "nat \<Rightarrow> log_buffer \<Rightarrow> log_query \<Rightarrow> log_entry list option" where
  "read_pages 0 b q = None"
| "read_pages (Suc fuel) b q =
     (let s = log_read b q
      in if \<not> sn_has_more s then Some (sn_entries s)
         else map_option (\<lambda>more. sn_entries s @ more)
                (read_pages fuel b (q\<lparr>lq_after_sequence := sn_next_after_sequence s\<rparr>)))"

lemma sorted_filter_after:
  assumes "sorted_wrt (<) (map le_sequence es)" "0 < k" "k \<le> length es"
  shows "filter (\<lambda>e. le_sequence (es ! (k - 1)) < le_sequence e) es = drop k es"
proof -
  have less: "le_sequence (es ! i) < le_sequence (es ! j)" if "i < j" "j < length es" for i j
    using assms(1) that by (simp add: sorted_wrt_iff_nth_less)
  have "filter (\<lambda>e. le_sequence (es ! (k - 1)) < le_sequence e) (take k es @ drop k es) = drop k es"
  proof (unfold filter_append, subst filter_False)
    show "\<forall>e\<in>set (take k es). \<not> le_sequence (es ! (k - 1)) < le_sequence e"
    proof
      fix e assume "e \<in> set (take k es)"
      then obtain i where i: "i < k" "e = es ! i" using assms(3) by (auto simp: in_set_conv_nth)
      show "\<not> le_sequence (es ! (k - 1)) < le_sequence e"
      proof (cases "i = k - 1")
        case False
        with i have "i < k - 1" by simp
        moreover have "k - 1 < length es" using assms(2,3) by simp
        ultimately have "le_sequence (es ! i) < le_sequence (es ! (k - 1))" by (rule less)
        with i(2) show ?thesis by simp
      next
        case True
        with i show ?thesis by simp
      qed
    qed
    have "le_sequence (es ! (k - 1)) < le_sequence e" if "e \<in> set (drop k es)" for e
    proof -
      from that obtain i where "i < length es - k" "e = es ! (k + i)" by (auto simp: in_set_conv_nth)
      with less [of "k - 1" "k + i"] assms(2) show ?thesis by simp
    qed
    then show "[] @ filter (\<lambda>e. le_sequence (es ! (k - 1)) < le_sequence e) (drop k es) = drop k es"
      by (simp add: filter_id_conv)
  qed
  then show ?thesis by simp
qed

lemma retained_sorted:
  assumes "log_ok b" "lq_generation q = Some g"
  shows "sorted_wrt (<) (map le_sequence (filter (matches_query q) (lb_entries b)))"
proof -
  have "sorted_wrt (<) (map le_sequence (of_gen g (lb_entries b)))"
  proof (cases "hm_get (lb_generations b) g")
    case None
    with assms(1) have "\<forall>e\<in>set (lb_entries b). le_generation e \<noteq> g" by (auto simp: log_ok_def log_shape_def gens_ok_def)
    then have "of_gen g (lb_entries b) = []" by simp
    then show ?thesis by simp
  next
    case (Some st)
    with assms(1) show ?thesis by (simp add: log_ok_def log_shape_def gens_ok_def numbered_def sorted_wrt_upt del: upt_Suc)
  qed
  then have "sorted_wrt (<) (map le_sequence (filter (matches_query q) (of_gen g (lb_entries b))))"
    unfolding sorted_wrt_map by (rule sorted_wrt_filter)
  moreover have "filter (matches_query q) (lb_entries b) = filter (matches_query q) (of_gen g (lb_entries b))"
    using assms(2) by (auto simp: filter_filter matches_query_def intro: filter_cong)
  ultimately show ?thesis by simp
qed

lemma matches_after:
  assumes "matches_query q x"
  shows "filter (matches_query (q\<lparr>lq_after_sequence := Some (le_sequence x)\<rparr>)) es
    = filter (\<lambda>e. le_sequence x < le_sequence e) (filter (matches_query q) es)"
  using assms by (auto simp: filter_filter matches_query_def intro!: filter_cong split: option.splits)

lemma read_pages_complete:
  assumes "log_ok b" "lq_generation q = Some g" "length (filter (matches_query q) (lb_entries b)) < fuel"
  shows "read_pages fuel b q = Some (filter (matches_query q) (lb_entries b))"
  using assms(2,3)
proof (induction fuel arbitrary: q)
  case (Suc fuel)
  let ?es = "filter (matches_query q) (lb_entries b)" and ?k = "page_limit q"
  note page = log_read_page [OF Suc.prems(1) refl, of b]
  show ?case
  proof (cases "?k < length ?es")
    case False
    with page show ?thesis by (simp add: Let_def)
  next
    case True
    let ?x = "?es ! (?k - 1)"
    let ?q = "q\<lparr>lq_after_sequence := Some (le_sequence ?x)\<rparr>"
    have "?x \<in> set ?es" using True page_limit_pos [of q] by (intro nth_mem) simp
    then have "matches_query q ?x" by (simp only: set_filter mem_Collect_eq)
    then have rest: "filter (matches_query ?q) (lb_entries b) = drop ?k ?es"
      using matches_after [of q ?x] sorted_filter_after [OF retained_sorted [OF assms(1) Suc.prems(1)] page_limit_pos] True
      by simp
    moreover have "length (drop ?k ?es) < fuel"
      using Suc.prems(2) page_limit_pos [of q] True by (simp only: length_drop)
    ultimately have "read_pages fuel b ?q = Some (drop ?k ?es)"
      using Suc.IH [of ?q] Suc.prems(1) by simp
    with page True show ?thesis by (simp add: Let_def)
  qed
qed simp

text \<open>Following the cursor of the pages of one generation ends: within 1001 pages of any size the reader has every
  retained entry that matches its query, once and in order.\<close>

lemma pages_enumerate_log:
  assumes "sz \<le> MAX_LOG_BYTES" "b = fst (log_run sz lv ops)" "lq_generation q = Some g"
  shows "read_pages 1001 b q = Some (filter (matches_query q) (lb_entries b))"
proof -
  have ok: "log_ok b" using log_rel_run [OF assms(1)] assms(2) by (simp add: log_rel_def)
  then have "length (filter (matches_query q) (lb_entries b)) \<le> 1000"
    by (auto simp: log_ok_def log_shape_def within_bounds_def MAX_LOG_ENTRIES_def intro: order_trans length_filter_le)
  then show ?thesis using read_pages_complete [OF ok assms(3)] by simp
qed

definition demo_query :: log_query where
  "demo_query = \<lparr>lq_generation = Some 1, lq_from_time_ms = Some 5, lq_to_time_ms = None, lq_after_sequence = None,
     lq_through_sequence = None, lq_limit = Some 1\<rparr>"

end
