(* ===== verification/Json_Maps.thy ===== *)
theory Json_Maps
  imports Json
begin

text \<open>
  Two operations of \<open>serde_json\<close> on objects that keep the order in which their fields were inserted: the
  removal of a field, and equality, for which that order does not count.
\<close>

text \<open>
  \<open>Map::remove\<close> of the library with insertion order: the last field takes the place of the removed one.
\<close>

definition swap_remove :: "string \<Rightarrow> json_map \<Rightarrow> json_map" where
  "swap_remove key obj =
     (case dropWhile (\<lambda>(k, _). k \<noteq> key) obj of
       [] \<Rightarrow> obj
     | _ # post \<Rightarrow>
         takeWhile (\<lambda>(k, _). k \<noteq> key) obj @ (if post = [] then [] else last post # butlast post))"

text \<open>Equality of values: the order of the fields of an object does not count, and the two zeros of \<open>f64\<close> are
  equal; other floating point numbers are equal when their bits are (a JSON number is never NaN).\<close>

function json_eq :: "json \<Rightarrow> json \<Rightarrow> bool" where
  "json_eq v w =
     (case (v, w) of
       (JArray xs, JArray ys) \<Rightarrow> list_all2 json_eq xs ys
     | (JObject fs, JObject gs) \<Rightarrow>
         length fs = length gs \<and>
         list_all (\<lambda>(k, x). case map_of gs k of None \<Rightarrow> False | Some y \<Rightarrow> json_eq x y) fs
     | (JNumber (Float a), JNumber (Float b)) \<Rightarrow> a = b \<or> a + a = 0 \<and> b + b = 0
     | _ \<Rightarrow> v = w)"
  by pat_completeness auto
termination
  by (relation "measure (\<lambda>(v, _). size v)")
    (auto dest: size_json_field simp: less_Suc_eq_le size_list_estimation')

declare json_eq.simps [simp del]

text \<open>A value as the library builds it: the keys of every object are distinct.\<close>

function json_keys_ok :: "json \<Rightarrow> bool" where
  "json_keys_ok v =
     (case v of
       JArray xs \<Rightarrow> list_all json_keys_ok xs
     | JObject fs \<Rightarrow> distinct (map fst fs) \<and> list_all (\<lambda>(k, x). json_keys_ok x) fs
     | _ \<Rightarrow> True)"
  by pat_completeness auto
termination
  by (relation "measure size") (auto dest: size_json_field simp: less_Suc_eq_le size_list_estimation')

declare json_keys_ok.simps [simp del]

lemma json_eq_refl: "json_keys_ok v \<Longrightarrow> json_eq v v"
proof (induction v rule: json_keys_ok.induct)
  case (1 v)
  show ?case
  proof (cases v)
    case (JArray xs)
    then have "json_eq x x" if "x \<in> set xs" for x
      using 1 that by (simp add: json_keys_ok.simps [of "JArray xs"] list_all_iff)
    then show ?thesis by (simp add: JArray json_eq.simps [of "JArray xs" "JArray xs"] list_all2_same)
  next
    case (JObject fs)
    then have "map_of fs k = Some x \<and> json_eq x x" if "(k, x) \<in> set fs" for k x
      using 1 that by (auto simp: json_keys_ok.simps [of "JObject fs"] list_all_iff)
    then show ?thesis
      by (auto simp: JObject json_eq.simps [of "JObject fs" "JObject fs"] list_all_iff)
  qed (auto simp: json_eq.simps split: jnum.splits)
qed

text \<open>Removing a field removes that field and keeps every other one.\<close>

lemma map_of_swap_remove:
  assumes "distinct (map fst obj)"
  shows "map_of (swap_remove key obj) = (map_of obj)(key := None)"
proof (cases "dropWhile (\<lambda>(k, _). k \<noteq> key) obj")
  case Nil
  then have "key \<notin> fst ` set obj" by (auto simp: dropWhile_eq_Nil_conv)
  then have "map_of obj key = None" by (simp add: map_of_eq_None_iff)
  moreover have "swap_remove key obj = obj" unfolding swap_remove_def Nil by simp
  ultimately show ?thesis by (simp add: fun_upd_idem)
next
  case (Cons p post)
  obtain pre where pre: "takeWhile (\<lambda>(k, _). k \<noteq> key) obj = pre" by simp
  have obj: "obj = pre @ p # post"
    using Cons pre takeWhile_dropWhile_id [of "\<lambda>(k, _). k \<noteq> key" obj] by metis
  have key: "fst p = key" using Cons hd_dropWhile [of "\<lambda>(k, _). k \<noteq> key" obj] by (auto split: prod.splits)
  have d: "distinct (map fst (pre @ p # post))" using assms obj by simp
  have "set (swap_remove key obj) = set pre \<union> set post \<and> distinct (map fst (swap_remove key obj))"
  proof (cases post rule: rev_cases)
    case Nil
    then show ?thesis using Cons d pre by (simp add: swap_remove_def)
  next
    case (snoc xs x)
    then show ?thesis using Cons d pre by (auto simp: swap_remove_def)
  qed
  moreover have "filter (\<lambda>(k, _). k \<noteq> key) obj = pre @ post"
  proof -
    have other: "filter (\<lambda>(k, _). k \<noteq> key) xs = xs" if "key \<notin> fst ` set xs" for xs :: json_map
      using that by (force simp: filter_id_conv)
    have "filter (\<lambda>(k, _). k \<noteq> key) pre = pre" "filter (\<lambda>(k, _). k \<noteq> key) post = post"
      using d key by (simp_all add: other)
    then show ?thesis using key by (cases p) (simp add: obj)
  qed
  moreover have "distinct (map fst (filter (\<lambda>(k, _). k \<noteq> key) obj))"
    using assms by (rule distinct_map_filter)
  ultimately have "map_of (swap_remove key obj) = map_of (filter (\<lambda>(k, _). k \<noteq> key) obj)"
    by (intro map_of_inject_set [THEN iffD2]) auto
  then show ?thesis by (simp add: hm_get_remove [symmetric] hm_remove_filter)
qed

end
