(* ===== verification/Scope.thy ===== *)
theory Scope
  imports Payloads Edit_Data Json_Maps "HOL-Library.List_Lexorder" "HOL-Library.Char_ord"
begin

text \<open>
  \<open>src-tauri/src/mcp/authorization.rs\<close>: what an MCP write names, which capabilities and confirmations
  it needs, and whether it stays within the part of the scene that was allowed. A \<open>HashSet\<close> is a
  set; the depth-first stacks have their top at the head of the list. The walk below a deleted
  object has no record of visited nodes, so it is a partial function: \<open>None\<close> is that it never ends.
\<close>

section \<open>Settings and operations\<close>

definition MAX_SCOPE_NODES :: nat where
  "MAX_SCOPE_NODES = 2000"

definition MAX_SCOPE_SNAPSHOTS :: nat where
  "MAX_SCOPE_SNAPSHOTS = 200"

definition MAX_SCOPE_BYTES :: nat where
  "MAX_SCOPE_BYTES = 2 * 1024 * 1024"

definition MAX_SCOPE_ROOT_ID_BYTES :: nat where
  "MAX_SCOPE_ROOT_ID_BYTES = 256"

datatype mcp_write_mode = ReadOnly_mode | Enabled | Confirm

datatype scope_error =
    InvalidScopeRoot
  | InvalidWriteRequest
  | UnsupportedWrite
  | ReadOnly
  | ConfirmationRequired
  | AuthorizationRevoked
  | ScopeRootUnknown
  | ObjectUnknown
  | ObjectOutsideScope
  | ComponentMembershipUnknown
  | ComponentOutsideScope
  | TreeMalformed
  | DuplicateObjectId
  | LimitExceeded
  | DeadlineExceeded
  | HistoryUnavailable

record mcp_write_settings =
  ws_mode :: mcp_write_mode
  ws_scene_root_id :: "string option"

definition settings_validate :: "mcp_write_settings \<Rightarrow> scope_error + unit" where
  "settings_validate s =
     (case ws_scene_root_id s of
       None \<Rightarrow> Inr ()
     | Some i \<Rightarrow>
         if i = [] \<or> length i > MAX_SCOPE_ROOT_ID_BYTES \<or> CHR 0x00 \<in> set i then Inl InvalidScopeRoot else Inr ())"

record mcp_history_action =
  mh_direction :: history_direction
  mh_head_id :: u64
  mh_revision :: u64
  mh_group_name :: string
  mh_source :: edit_source
  mh_records :: "history_record list"

fun creates :: "string \<Rightarrow> history_record \<Rightarrow> bool" where
  "creates i (Create c p k) = (c = i)"
| "creates i (Duplicate s c p) = (c = i)"
| "creates i _ = False"

definition recreates_before :: "nat \<Rightarrow> string \<Rightarrow> mcp_history_action \<Rightarrow> bool" where
  "recreates_before position i a \<longleftrightarrow>
     mh_direction a = Redo \<and> list_ex (creates i) (take position (mh_records a))"

datatype mcp_write_operation =
    Property string
  | Op_create "string option"
  | Op_duplicate string "string option"
  | Op_reparent string "string option"
  | Op_delete string
  | ComponentAdd string
  | ComponentRemove string
  | RuntimeControl
  | Op_history mcp_history_action

text \<open>Equality of operations, in which the order of the fields of a recorded value does not count.\<close>

fun record_eq :: "history_record \<Rightarrow> history_record \<Rightarrow> bool" where
  "record_eq (SetProperty i n v w) (SetProperty j m v' w') = (i = j \<and> n = m \<and> json_eq v v' \<and> json_eq w w')"
| "record_eq r s = (r = s)"

definition action_eq :: "mcp_history_action \<Rightarrow> mcp_history_action \<Rightarrow> bool" where
  "action_eq a b \<longleftrightarrow>
     mh_direction a = mh_direction b \<and> mh_head_id a = mh_head_id b \<and> mh_revision a = mh_revision b
     \<and> mh_group_name a = mh_group_name b \<and> mh_source a = mh_source b
     \<and> list_all2 record_eq (mh_records a) (mh_records b)"

fun operation_eq :: "mcp_write_operation \<Rightarrow> mcp_write_operation \<Rightarrow> bool" where
  "operation_eq (Op_history a) (Op_history b) = action_eq a b"
| "operation_eq p q = (p = q)"

definition required_id :: "json_map \<Rightarrow> string \<Rightarrow> scope_error + string" where
  "required_id m key =
     ok_or InvalidWriteRequest
       (Option.bind (Option.bind (map_of m key) as_str) (\<lambda>s. if s \<noteq> [] then Some s else None))"

definition optional_id :: "json_map \<Rightarrow> string \<Rightarrow> scope_error + string option" where
  "optional_id m key =
     (case map_of m key of
       None \<Rightarrow> Inr None
     | Some (JString s) \<Rightarrow> if s \<noteq> [] then Inr (Some s) else Inl InvalidWriteRequest
     | Some v \<Rightarrow> Inl InvalidWriteRequest)"

definition from_bridge_method :: "string \<Rightarrow> json \<Rightarrow> scope_error + mcp_write_operation" where
  "from_bridge_method meth params =
     bind_r (ok_or InvalidWriteRequest (as_object params)) (\<lambda>m.
       if meth = ''object.setProperty'' then bind_r (required_id m ''objectId'') (\<lambda>i. Inr (Property i))
       else if meth = ''scene.createObject'' then bind_r (optional_id m ''parentId'') (\<lambda>p. Inr (Op_create p))
       else if meth = ''scene.duplicateObject'' then
         bind_r (required_id m ''objectId'') (\<lambda>i. bind_r (optional_id m ''newParentId'') (\<lambda>p. Inr (Op_duplicate i p)))
       else if meth = ''scene.reparentObject'' then
         bind_r (required_id m ''objectId'') (\<lambda>i. bind_r (optional_id m ''newParentId'') (\<lambda>p. Inr (Op_reparent i p)))
       else if meth = ''scene.deleteObject'' then bind_r (required_id m ''objectId'') (\<lambda>i. Inr (Op_delete i))
       else if meth = ''component.add'' then bind_r (required_id m ''objectId'') (\<lambda>i. Inr (ComponentAdd i))
       else if meth = ''component.remove'' then bind_r (required_id m ''objectId'') (\<lambda>i. Inr (ComponentRemove i))
       else if meth \<in> {''runtime.play'', ''runtime.pause'', ''runtime.stop''} \<and> m = [] then Inr RuntimeControl
       else Inl UnsupportedWrite)"

fun record_capabilities :: "history_record \<Rightarrow> string list" where
  "record_capabilities (Create i p k) = [''scene.edit'']"
| "record_capabilities (Duplicate s i p) = [''scene.edit'']"
| "record_capabilities (Reparent i p q) = [''scene.edit'']"
| "record_capabilities (SetProperty i n v w) = [''object.edit'', ''object.query'']"

definition history_required_capabilities :: "mcp_history_action \<Rightarrow> string list" where
  "history_required_capabilities a =
     remdups_adj (sort (''scene.query'' # concat (map record_capabilities (mh_records a))))"

fun required_capabilities :: "mcp_write_operation \<Rightarrow> string list" where
  "required_capabilities (Property i) = [''object.edit'', ''object.query'', ''scene.query'']"
| "required_capabilities (Op_create p) = [''scene.edit'', ''scene.query'']"
| "required_capabilities (Op_duplicate i p) = [''scene.edit'', ''scene.query'']"
| "required_capabilities (Op_reparent i p) = [''scene.edit'', ''scene.query'']"
| "required_capabilities (Op_delete i) = [''scene.edit'', ''scene.query'']"
| "required_capabilities (ComponentAdd i) = [''component.edit'', ''object.query'', ''scene.query'']"
| "required_capabilities (ComponentRemove i) = [''component.edit'', ''object.query'', ''scene.query'']"
| "required_capabilities RuntimeControl = [''runtime.control'']"
| "required_capabilities (Op_history a) = history_required_capabilities a"

fun is_recreation :: "history_record \<Rightarrow> bool" where
  "is_recreation (Create i p k) = True"
| "is_recreation (Duplicate s i p) = True"
| "is_recreation _ = False"

fun requires_confirmation :: "mcp_write_operation \<Rightarrow> bool" where
  "requires_confirmation (Op_delete i) = True"
| "requires_confirmation (ComponentRemove i) = True"
| "requires_confirmation (Op_history a) = list_ex (\<lambda>r. is_recreation r \<and> mh_direction a = Undo) (mh_records a)"
| "requires_confirmation _ = False"

lemma record_eq_recreation: "record_eq r s \<Longrightarrow> is_recreation r = is_recreation s"
  by (cases "(r, s)" rule: record_eq.cases) auto

lemma list_all2_list_ex: "list_all2 P xs ys \<Longrightarrow> (\<And>x y. P x y \<Longrightarrow> f x = g y) \<Longrightarrow> list_ex f xs = list_ex g ys"
  by (induction rule: list_all2_induct) auto

lemma requires_confirmation_cong: "operation_eq p q \<Longrightarrow> requires_confirmation p = requires_confirmation q"
  by (cases "(p, q)" rule: operation_eq.cases)
     (auto simp: action_eq_def intro!: list_all2_list_ex simp: record_eq_recreation)

lemma operation_eq_object [simp]:
  "\<not> (\<exists>a. p = Op_history a) \<Longrightarrow> operation_eq p q \<longleftrightarrow> p = q"
  "\<not> (\<exists>a. q = Op_history a) \<Longrightarrow> operation_eq p q \<longleftrightarrow> p = q"
  by (cases "(p, q)" rule: operation_eq.cases; auto)+

section \<open>The budget of a scope check\<close>

record mcp_scope_budget =
  sb_nodes :: nat
  sb_snapshots :: nat
  sb_bytes :: nat

definition budget_new :: "nat \<Rightarrow> scope_error + mcp_scope_budget" where
  "budget_new tree_bytes =
     (if tree_bytes > MAX_SCOPE_BYTES then Inl LimitExceeded
      else Inr \<lparr>sb_nodes = 0, sb_snapshots = 0, sb_bytes = tree_bytes\<rparr>)"

definition add_nodes :: "nat \<Rightarrow> mcp_scope_budget \<Rightarrow> (scope_error + unit) \<times> mcp_scope_budget" where
  "add_nodes count b =
     (let b1 = b\<lparr>sb_nodes := sat_add (sb_nodes b) count\<rparr>
      in (if sb_nodes b1 > MAX_SCOPE_NODES then Inl LimitExceeded else Inr (), b1))"

definition begin_snapshot :: "mcp_scope_budget \<Rightarrow> (scope_error + unit) \<times> mcp_scope_budget" where
  "begin_snapshot b =
     (if sb_snapshots b \<ge> MAX_SCOPE_SNAPSHOTS then (Inl LimitExceeded, b)
      else (Inr (), b\<lparr>sb_snapshots := sb_snapshots b + 1\<rparr>))"

definition add_bytes :: "nat \<Rightarrow> mcp_scope_budget \<Rightarrow> (scope_error + unit) \<times> mcp_scope_budget" where
  "add_bytes n b =
     (let b1 = b\<lparr>sb_bytes := sat_add (sb_bytes b) n\<rparr>
      in (if sb_bytes b1 > MAX_SCOPE_BYTES then Inl LimitExceeded else Inr (), b1))"

section \<open>The index of the scene\<close>

record scene_node_meta =
  nm_parent :: "string option"
  nm_children :: "string list"

record mcp_scene_scope_index =
  si_root_id :: string
  si_scene_root_id :: string
  si_nodes :: "(string, scene_node_meta) hash_map"
  si_allowed :: "string set"
  si_component_owners :: "(string, string) hash_map"

definition node_meta :: "scene_tree_node \<Rightarrow> string option \<Rightarrow> scene_node_meta" where
  "node_meta t parent = \<lparr>nm_parent = parent, nm_children = map sn_id (sn_children t)\<rparr>"

lemma size_children_less: "sum_list (map size (sn_children t)) < size t"
proof (cases t)
  case (Scene_node i n k cs)
  have "sum_list (map size cs) \<le> size_list size cs" by (induction cs) auto
  with Scene_node show ?thesis by simp
qed

function index_loop ::
  "(scene_tree_node \<times> string option) list \<Rightarrow> (string, scene_node_meta) hash_map \<Rightarrow> mcp_scope_budget
    \<Rightarrow> (scope_error + (string, scene_node_meta) hash_map) \<times> mcp_scope_budget" where
  "index_loop [] nodes b = (Inr nodes, b)"
| "index_loop ((t, parent) # rest) nodes b =
     (case add_nodes 1 b of
       (Inl e, b1) \<Rightarrow> (Inl e, b1)
     | (Inr u, b1) \<Rightarrow>
         if hm_get nodes (sn_id t) \<noteq> None then (Inl DuplicateObjectId, b1)
         else index_loop (map (\<lambda>c. (c, Some (sn_id t))) (sn_children t) @ rest)
                (hm_insert (sn_id t) (node_meta t parent) nodes) b1)"
  by pat_completeness auto
termination
  by (relation "measure (\<lambda>(stack, _, _). sum_list (map (size \<circ> fst) stack))")
     (auto simp: comp_def size_children_less)

text \<open>The walk of the allowed part: each round either stops or allows a node of the index more.\<close>

function allowed_loop ::
  "(string, scene_node_meta) hash_map \<Rightarrow> string list \<Rightarrow> string set \<Rightarrow> scope_error + string set" where
  "allowed_loop nodes [] allowed = Inr allowed"
| "allowed_loop nodes (i # rest) allowed =
     (if i \<in> allowed then Inl DuplicateObjectId
      else
        (case hm_get nodes i of
          None \<Rightarrow> Inl TreeMalformed
        | Some n \<Rightarrow> allowed_loop nodes (rev (nm_children n) @ rest) (insert i allowed)))"
  by pat_completeness auto
termination
proof (relation "measure (\<lambda>(nodes, stack, allowed). card (fst ` set nodes - allowed))", goal_cases)
  case (2 nodes i rest allowed n)
  then have "i \<in> fst ` set nodes - allowed" by (force dest: map_of_SomeD)
  then have "fst ` set nodes - insert i allowed \<subset> fst ` set nodes - allowed" by blast
  then show ?case by (auto intro: psubset_card_mono)
qed simp

declare allowed_loop.simps [simp del] index_loop.simps [simp del]

definition from_result ::
  "json \<Rightarrow> string option \<Rightarrow> mcp_scope_budget \<Rightarrow> (scope_error + mcp_scene_scope_index) \<times> mcp_scope_budget" where
  "from_result result scope b =
     (case parse_scene_tree_result result of
       Inl e \<Rightarrow> (Inl TreeMalformed, b)
     | Inr root \<Rightarrow>
         (case index_loop [(root, None)] [] b of
           (Inl e, b1) \<Rightarrow> (Inl e, b1)
         | (Inr nodes, b1) \<Rightarrow>
             (let root_id = (case scope of None \<Rightarrow> sn_id root | Some s \<Rightarrow> s)
              in if hm_get nodes root_id = None then (Inl ScopeRootUnknown, b1)
                 else
                   (bind_r (allowed_loop nodes [root_id] {}) (\<lambda>allowed.
                      Inr \<lparr>si_root_id = root_id, si_scene_root_id = sn_id root, si_nodes = nodes,
                           si_allowed = allowed, si_component_owners = []\<rparr>), b1))))"

definition scene_object_ids :: "mcp_scene_scope_index \<Rightarrow> string list" where
  "scene_object_ids x = sort (map fst (si_nodes x))"

definition contains_node :: "mcp_scene_scope_index \<Rightarrow> string \<Rightarrow> bool" where
  "contains_node x i \<longleftrightarrow> hm_get (si_nodes x) i \<noteq> None"

definition contains_component :: "mcp_scene_scope_index \<Rightarrow> string \<Rightarrow> bool" where
  "contains_component x i \<longleftrightarrow> hm_get (si_component_owners x) i \<noteq> None"

definition is_full_scene :: "mcp_scene_scope_index \<Rightarrow> bool" where
  "is_full_scene x \<longleftrightarrow> si_root_id x = si_scene_root_id x"

fun components_fresh :: "mcp_scene_scope_index \<Rightarrow> string set \<Rightarrow> component_ref list \<Rightarrow> bool" where
  "components_fresh x seen [] = True"
| "components_fresh x seen (c # cs) =
     (if contains_node x (cr_object_id c) \<or> contains_component x (cr_object_id c) \<or> cr_object_id c \<in> seen
      then False
      else components_fresh x (insert (cr_object_id c) seen) cs)"

definition record_component_snapshot ::
  "string \<Rightarrow> object_snapshot \<Rightarrow> mcp_scene_scope_index \<Rightarrow> (scope_error + unit) \<times> mcp_scene_scope_index" where
  "record_component_snapshot owner snapshot x =
     (if os_object_id snapshot \<noteq> owner \<or> \<not> contains_node x owner then (Inl ComponentMembershipUnknown, x)
      else
        (case os_components snapshot of
          None \<Rightarrow> (Inl ComponentMembershipUnknown, x)
        | Some cs \<Rightarrow>
            if \<not> components_fresh x {} cs then (Inl ComponentMembershipUnknown, x)
            else (Inr (), x\<lparr>si_component_owners :=
                   fold (\<lambda>c. hm_insert (cr_object_id c) owner) cs (si_component_owners x)\<rparr>)))"

section \<open>The checks\<close>

definition check_object :: "mcp_scene_scope_index \<Rightarrow> string \<Rightarrow> scope_error + unit" where
  "check_object x i =
     (if \<not> contains_node x i then Inl ObjectUnknown
      else if i \<notin> si_allowed x then Inl ObjectOutsideScope
      else Inr ())"

definition check_component :: "mcp_scene_scope_index \<Rightarrow> string \<Rightarrow> scope_error + unit" where
  "check_component x i =
     (case hm_get (si_component_owners x) i of
       Some owner \<Rightarrow> if owner \<in> si_allowed x then Inr () else Inl ComponentOutsideScope
     | None \<Rightarrow> Inl ComponentMembershipUnknown)"

definition check_object_or_component :: "mcp_scene_scope_index \<Rightarrow> string \<Rightarrow> scope_error + unit" where
  "check_object_or_component x i = (if contains_node x i then check_object x i else check_component x i)"

definition check_parent :: "mcp_scene_scope_index \<Rightarrow> string option \<Rightarrow> scope_error + unit" where
  "check_parent x parent =
     (case parent of
       Some p \<Rightarrow> check_object x p
     | None \<Rightarrow> if is_full_scene x then Inr () else Inl ObjectOutsideScope)"

definition parent_of :: "mcp_scene_scope_index \<Rightarrow> string \<Rightarrow> string option" where
  "parent_of x i = Option.bind (hm_get (si_nodes x) i) nm_parent"

partial_function (option) delete_loop :: "mcp_scene_scope_index \<Rightarrow> string list \<Rightarrow> (scope_error + unit) option" where
  "delete_loop x stack =
     (case stack of
       [] \<Rightarrow> Some (Inr ())
     | i # rest \<Rightarrow>
         if i \<notin> si_allowed x then Some (Inl ObjectOutsideScope)
         else
           (case hm_get (si_nodes x) i of
             None \<Rightarrow> Some (Inl ObjectUnknown)
           | Some n \<Rightarrow> delete_loop x (rev (nm_children n) @ rest)))"

declare delete_loop.simps [code]

text \<open>The \<open>?\<close> operator on a check that may not end.\<close>

fun and_then :: "(scope_error + 'a) option \<Rightarrow> ('a \<Rightarrow> (scope_error + 'b) option) \<Rightarrow> (scope_error + 'b) option" where
  "and_then None f = None"
| "and_then (Some (Inl e)) f = Some (Inl e)"
| "and_then (Some (Inr a)) f = f a"

definition check_delete_subtree :: "mcp_scene_scope_index \<Rightarrow> string \<Rightarrow> (scope_error + unit) option" where
  "check_delete_subtree x i =
     and_then (Some (check_object x i)) (\<lambda>_.
     and_then (Some (check_parent x (parent_of x i))) (\<lambda>_.
       delete_loop x [i]))"

definition add_recreated_node ::
  "string \<Rightarrow> string option \<Rightarrow> mcp_scene_scope_index \<Rightarrow> scope_error + mcp_scene_scope_index" where
  "add_recreated_node i parent x =
     bind_r (check_parent x parent) (\<lambda>_.
       if contains_node x i \<or> contains_component x i then Inl DuplicateObjectId
       else if length (si_nodes x) \<ge> MAX_SCOPE_NODES then Inl LimitExceeded
       else
         (let p = (case parent of None \<Rightarrow> si_scene_root_id x | Some p \<Rightarrow> p)
          in case hm_get (si_nodes x) p of
               None \<Rightarrow> Inl ObjectUnknown
             | Some n \<Rightarrow>
                 Inr (x\<lparr>si_nodes := hm_insert i \<lparr>nm_parent = Some p, nm_children = []\<rparr>
                          (hm_insert p (n\<lparr>nm_children := nm_children n @ [i]\<rparr>) (si_nodes x)),
                        si_allowed := insert i (si_allowed x)\<rparr>)))"

text \<open>One record of a history action: it checks the index and returns the projected one.\<close>

fun check_record ::
  "mcp_scene_scope_index \<Rightarrow> history_direction \<Rightarrow> history_record \<Rightarrow> mcp_scene_scope_index
    \<Rightarrow> (scope_error + mcp_scene_scope_index) option" where
  "check_record x Undo (Create c p k) y = and_then (check_delete_subtree x c) (\<lambda>_. Some (Inr y))"
| "check_record x Undo (Duplicate s c p) y = and_then (check_delete_subtree x c) (\<lambda>_. Some (Inr y))"
| "check_record x Redo (Create c p k) y = Some (add_recreated_node c p y)"
| "check_record x Redo (Duplicate s c p) y =
     and_then (Some (check_object y s)) (\<lambda>_.
       Some (add_recreated_node c (case p of None \<Rightarrow> parent_of y s | Some q \<Rightarrow> Some q) y))"
| "check_record x d (Reparent i p q) y =
     and_then (Some (check_object y i)) (\<lambda>_.
     and_then (Some (check_parent y p)) (\<lambda>_.
     and_then (Some (check_parent y q)) (\<lambda>_.
       if d = Redo then
         and_then (Some (check_parent y (parent_of y i))) (\<lambda>_.
           case hm_get (si_nodes y) i of
             None \<Rightarrow> Some (Inl ObjectUnknown)
           | Some n \<Rightarrow>
               Some (Inr (y\<lparr>si_nodes := hm_insert i
                 (n\<lparr>nm_parent := (case q of None \<Rightarrow> Some (si_scene_root_id y) | Some r \<Rightarrow> Some r)\<rparr>)
                 (si_nodes y)\<rparr>)))
       else Some (Inr y))))"
| "check_record x d (SetProperty i n v w) y =
     and_then (Some (check_object_or_component y i)) (\<lambda>_. Some (Inr y))"

fun check_records ::
  "mcp_scene_scope_index \<Rightarrow> history_direction \<Rightarrow> history_record list \<Rightarrow> mcp_scene_scope_index
    \<Rightarrow> (scope_error + unit) option" where
  "check_records x d [] y = Some (Inr ())"
| "check_records x d (r # rs) y = and_then (check_record x d r y) (\<lambda>y1. check_records x d rs y1)"

definition check_history :: "mcp_scene_scope_index \<Rightarrow> mcp_history_action \<Rightarrow> (scope_error + unit) option" where
  "check_history x a =
     (if mh_records a = [] then Some (Inl HistoryUnavailable)
      else check_records x (mh_direction a) (mh_records a) x)"

fun check_operation :: "mcp_scene_scope_index \<Rightarrow> mcp_write_operation \<Rightarrow> (scope_error + unit) option" where
  "check_operation x (Property i) = Some (check_object_or_component x i)"
| "check_operation x (Op_create p) = Some (check_parent x p)"
| "check_operation x (Op_duplicate i p) =
     and_then (Some (check_object x i)) (\<lambda>_.
       Some (check_parent x (case p of None \<Rightarrow> parent_of x i | Some q \<Rightarrow> Some q)))"
| "check_operation x (Op_reparent i p) =
     and_then (Some (check_object x i)) (\<lambda>_.
     and_then (Some (check_parent x (parent_of x i))) (\<lambda>_. Some (check_parent x p)))"
| "check_operation x (Op_delete i) = check_delete_subtree x i"
| "check_operation x (ComponentAdd i) = Some (check_object x i)"
| "check_operation x (ComponentRemove i) = Some (check_component x i)"
| "check_operation x RuntimeControl = Some (if is_full_scene x then Inr () else Inl ObjectOutsideScope)"
| "check_operation x (Op_history a) = check_history x a"

end
