(* ===== verification/Scope_Laws.thy ===== *)
theory Scope_Laws
  imports Scope Edit_Actions
begin

text \<open>
  The scope check against the scene tree itself: the index holds exactly the tree and the allowed
  subtree, the checks end and accept exactly the writes that touch nothing outside of it, and an
  accepted history action touches only allowed objects and those it recreates.
\<close>

section \<open>Trees and their index\<close>

fun tree_ids :: "scene_tree_node \<Rightarrow> string list" where
  "tree_ids (Scene_node i n k cs) = i # concat (map tree_ids cs)"

fun subtrees :: "scene_tree_node \<Rightarrow> scene_tree_node list" where
  "subtrees (Scene_node i n k cs) = Scene_node i n k cs # concat (map subtrees cs)"

fun metas :: "string option \<Rightarrow> scene_tree_node \<Rightarrow> (string \<times> scene_node_meta) list" where
  "metas p (Scene_node i n k cs)
    = (i, node_meta (Scene_node i n k cs) p) # concat (map (metas (Some i)) cs)"

lemma map_fst_metas [simp]: "map fst (metas p t) = tree_ids t"
  by (induction t arbitrary: p) (simp add: map_concat comp_def cong: map_cong)

lemma metas_nonempty [simp]: "metas p t \<noteq> []"
  by (cases t) simp

lemma sn_id_in_tree_ids [simp]: "sn_id t \<in> set (tree_ids t)"
  by (cases t) simp

lemma metas_unfold: "metas p t = (sn_id t, node_meta t p) # concat (map (metas (Some (sn_id t))) (sn_children t))"
  by (cases t) simp

lemma tree_ids_unfold: "tree_ids t = sn_id t # concat (map tree_ids (sn_children t))"
  by (cases t) simp

lemma self_in_subtrees [simp]: "t \<in> set (subtrees t)"
  by (cases t) simp

lemma subtree_size_ids: "s \<in> set (subtrees t) \<Longrightarrow> set (tree_ids s) \<subseteq> set (tree_ids t)"
  by (induction t) fastforce

lemma subtree_metas:
  "s \<in> set (subtrees t) \<Longrightarrow> \<exists>q. set (metas q s) \<subseteq> set (metas p t)"
proof (induction t arbitrary: p)
  case (Scene_node i n k cs)
  show ?case
  proof (cases "s = Scene_node i n k cs")
    case False
    with Scene_node.prems obtain c where c: "c \<in> set cs" "s \<in> set (subtrees c)" by auto
    with Scene_node.IH obtain q where "set (metas q s) \<subseteq> set (metas (Some i) c)" by blast
    with c(1) show ?thesis by (intro exI [of _ q]) auto
  next
    case True
    then show ?thesis by auto
  qed
qed

lemma subtree_trans: "s \<in> set (subtrees u) \<Longrightarrow> u \<in> set (subtrees t) \<Longrightarrow> s \<in> set (subtrees t)"
  by (induction t) auto

lemma subtree_size: "s \<in> set (subtrees t) \<Longrightarrow> s = t \<or> size s < size t"
proof (induction t)
  case (Scene_node i n k cs)
  show ?case
  proof (cases "s = Scene_node i n k cs")
    case False
    with Scene_node.prems obtain c where c: "c \<in> set cs" "s \<in> set (subtrees c)" by auto
    then have "size s \<le> size c" using Scene_node.IH by fastforce
    also have "size c < size (Scene_node i n k cs)" using c(1) by (induction cs) auto
    finally show ?thesis by simp
  qed simp
qed

lemma subtree_antisym: "s \<in> set (subtrees t) \<Longrightarrow> t \<in> set (subtrees s) \<Longrightarrow> s = t"
  using subtree_size [of s t] subtree_size [of t s] by auto

lemma id_has_subtree: "i \<in> set (tree_ids t) \<Longrightarrow> \<exists>s\<in>set (subtrees t). sn_id s = i"
  by (induction t) fastforce

lemma subtree_ids_distinct: "s \<in> set (subtrees t) \<Longrightarrow> distinct (tree_ids t) \<Longrightarrow> distinct (tree_ids s)"
proof (induction t)
  case (Scene_node i n k cs)
  show ?case
  proof (cases "s = Scene_node i n k cs")
    case False
    with Scene_node.prems(1) obtain c where c: "c \<in> set cs" "s \<in> set (subtrees c)" by auto
    from c(1) Scene_node.prems(2) have "distinct (tree_ids c)" by (auto simp: distinct_concat_iff)
    with c Scene_node.IH show ?thesis by blast
  next
    case True
    with Scene_node.prems(2) show ?thesis by simp
  qed
qed

text \<open>The stack of the indexing loop is a forest whose entries come next, in preorder.\<close>

definition forest :: "(scene_tree_node \<times> string option) list \<Rightarrow> (string \<times> scene_node_meta) list" where
  "forest todo = concat (map (\<lambda>(t, p). metas p t) todo)"

lemma forest_Cons:
  "forest ((t, p) # rest) = (sn_id t, node_meta t p) # forest (map (\<lambda>c. (c, Some (sn_id t))) (sn_children t) @ rest)"
  by (simp add: forest_def metas_unfold [of p t] comp_def)

lemma forest_empty: "forest todo = [] \<longleftrightarrow> todo = []"
  by (cases todo) (auto simp: forest_def)

lemma index_loop_exact:
  assumes "distinct (map fst nodes)"
  shows "(\<exists>b'. index_loop todo nodes b = (Inr nodes', b'))
    \<longleftrightarrow> nodes' = nodes @ forest todo \<and> distinct (map fst nodes')
      \<and> (todo = [] \<or> sb_nodes b + length (forest todo) \<le> MAX_SCOPE_NODES)"
  using assms
proof (induction todo nodes b rule: index_loop.induct)
  case (1 nodes b)
  then show ?case by (auto simp: index_loop.simps forest_def)
next
  case (2 t p rest nodes b)
  let ?todo = "map (\<lambda>c. (c, Some (sn_id t))) (sn_children t) @ rest"
  let ?nodes = "hm_insert (sn_id t) (node_meta t p) nodes"
  have len: "Suc (sb_nodes b) \<le> sb_nodes b + length (forest ((t, p) # rest))" by (simp add: forest_Cons)
  show ?case
  proof (cases "sb_nodes b + 1 \<le> MAX_SCOPE_NODES")
    case False
    with len show ?thesis
      by (auto simp: index_loop.simps add_nodes_def Let_def sat_add_def MAX_SCOPE_NODES_def usize_max_def)
  next
    case room: True
    then have add: "add_nodes 1 b = (Inr (), b\<lparr>sb_nodes := sb_nodes b + 1\<rparr>)"
      by (simp add: add_nodes_def Let_def sat_add_exact MAX_SCOPE_NODES_def usize_max_def)
    show ?thesis
    proof (cases "hm_get nodes (sn_id t)")
      case (Some m)
      then have "sn_id t \<in> fst ` set nodes" by (metis map_of_eq_None_iff option.distinct(1))
      then have "\<not> distinct (map fst (nodes @ forest ((t, p) # rest)))" by (simp add: forest_Cons)
      moreover have "\<exists>b'. index_loop ((t, p) # rest) nodes b = (Inl DuplicateObjectId, b')"
        using Some add by (simp add: index_loop.simps)
      ultimately show ?thesis by (metis Inl_Inr_False Pair_inject)
    next
      case None
      then have ins: "?nodes = nodes @ [(sn_id t, node_meta t p)]" by (rule hm_insert_fresh)
      moreover from None have "distinct (map fst (nodes @ [(sn_id t, node_meta t p)]))"
        using "2.prems" by (auto simp: map_of_eq_None_iff)
      ultimately have IH: "(\<exists>b'. index_loop ?todo ?nodes (b\<lparr>sb_nodes := sb_nodes b + 1\<rparr>) = (Inr nodes', b'))
          \<longleftrightarrow> nodes' = ?nodes @ forest ?todo \<and> distinct (map fst nodes')
            \<and> (?todo = [] \<or> sb_nodes b + 1 + length (forest ?todo) \<le> MAX_SCOPE_NODES)"
        using "2.IH" [OF add [symmetric]] None by simp
      have "forest ?todo = [] \<longleftrightarrow> ?todo = []" by (rule forest_empty)
      then have "(?todo = [] \<or> sb_nodes b + 1 + length (forest ?todo) \<le> MAX_SCOPE_NODES)
          \<longleftrightarrow> sb_nodes b + length (forest ((t, p) # rest)) \<le> MAX_SCOPE_NODES"
        using room by (auto simp: forest_Cons)
      with IH ins add None show ?thesis by (simp add: index_loop.simps(2) forest_Cons)
    qed
  qed
qed

text \<open>A tree is realised by an index that lists the children of each of its nodes.\<close>

definition realised :: "(string, scene_node_meta) hash_map \<Rightarrow> scene_tree_node \<Rightarrow> bool" where
  "realised nodes t \<longleftrightarrow>
     (\<forall>s\<in>set (subtrees t). \<exists>n. hm_get nodes (sn_id s) = Some n \<and> nm_children n = map sn_id (sn_children s))"

lemma realised_children: "realised nodes t \<Longrightarrow> c \<in> set (sn_children t) \<Longrightarrow> realised nodes c"
  by (cases t) (auto simp: realised_def)

lemma realised_subtree: "realised nodes t \<Longrightarrow> s \<in> set (subtrees t) \<Longrightarrow> realised nodes s"
proof (induction t)
  case (Scene_node i n k cs)
  show ?case
  proof (cases "s = Scene_node i n k cs")
    case False
    with Scene_node show ?thesis by (auto dest: realised_children)
  next
    case True
    with Scene_node.prems(1) show ?thesis by simp
  qed
qed

lemma metas_realised:
  assumes "distinct (tree_ids t)"
  shows "realised (metas p t) t"
  unfolding realised_def
proof
  fix s assume "s \<in> set (subtrees t)"
  then obtain q where "set (metas q s) \<subseteq> set (metas p t)" using subtree_metas by blast
  then have "(sn_id s, node_meta s q) \<in> set (metas p t)" by (simp add: metas_unfold [of q s])
  then have "hm_get (metas p t) (sn_id s) = Some (node_meta s q)" using assms by (simp add: map_of_eq_Some_iff)
  then show "\<exists>n. hm_get (metas p t) (sn_id s) = Some n \<and> nm_children n = map sn_id (sn_children s)"
    by (simp add: node_meta_def)
qed

lemma tree_id_known: "realised nodes t \<Longrightarrow> \<exists>n. hm_get nodes (sn_id t) = Some n \<and> nm_children n = map sn_id (sn_children t)"
  by (simp add: realised_def)

lemma distinct_concat_rev: "distinct (concat (rev xss)) = distinct (concat xss)"
  by (induction xss) auto

lemma set_concat_rev: "set (concat (rev xss)) = set (concat xss)"
  by simp

lemma allowed_loop_forest:
  assumes "\<forall>t\<in>set ts. realised nodes t" "distinct (concat (map tree_ids ts))"
    "set (concat (map tree_ids ts)) \<inter> allowed = {}"
  shows "allowed_loop nodes (map sn_id ts) allowed = Inr (allowed \<union> set (concat (map tree_ids ts)))"
  using assms
proof (induction "sum_list (map size ts)" arbitrary: ts allowed rule: less_induct)
  case less
  show ?case
  proof (cases ts)
    case (Cons t rest)
    let ?ts = "rev (sn_children t) @ rest"
    obtain n where n: "hm_get nodes (sn_id t) = Some n" "nm_children n = map sn_id (sn_children t)"
      using less.prems(1) Cons tree_id_known [of _ t] by auto
    have out: "sn_id t \<notin> allowed" using less.prems(3) Cons by (simp add: tree_ids_unfold [of t])
    have "sum_list (map size ?ts) < sum_list (map size ts)"
      using size_children_less [of t] Cons by (simp add: rev_map [symmetric])
    moreover have "\<forall>s\<in>set ?ts. realised nodes s" using less.prems(1) Cons by (auto intro: realised_children)
    moreover have ids: "set (concat (map tree_ids ?ts)) = set (concat (map tree_ids (sn_children t))) \<union> set (concat (map tree_ids rest))"
      by simp
    moreover have dist: "distinct (sn_id t # concat (map tree_ids (sn_children t)) @ concat (map tree_ids rest))"
      using less.prems(2) Cons by (simp add: tree_ids_unfold [of t])
    moreover from this have "distinct (concat (map tree_ids ?ts))"
      using distinct_concat_rev [of "map tree_ids (sn_children t)"] by (simp add: rev_map)
    moreover have "set (concat (map tree_ids ?ts)) \<inter> insert (sn_id t) allowed = {}"
    proof -
      have "set (sn_id t # concat (map tree_ids (sn_children t)) @ concat (map tree_ids rest)) \<inter> allowed = {}"
        using less.prems(3) Cons by (simp add: tree_ids_unfold [of t])
      with ids dist show ?thesis by auto
    qed
    ultimately have loop: "allowed_loop nodes (map sn_id ?ts) (insert (sn_id t) allowed)
        = Inr (insert (sn_id t) allowed \<union> set (concat (map tree_ids ?ts)))"
      using less.hyps by blast
    have "insert (sn_id t) allowed \<union> set (concat (map tree_ids ?ts)) = allowed \<union> set (concat (map tree_ids ts))"
      unfolding ids Cons by (simp add: tree_ids_unfold [of t] Un_ac)
    with loop show ?thesis
      using n out Cons by (simp add: allowed_loop.simps(2) rev_map)
  qed (simp add: allowed_loop.simps)
qed

lemma delete_loop_forest:
  assumes "\<forall>t\<in>set ts. realised (si_nodes x) t"
  shows "delete_loop x (map sn_id ts)
    = Some (if set (concat (map tree_ids ts)) \<subseteq> si_allowed x then Inr () else Inl ObjectOutsideScope)"
  using assms
proof (induction "sum_list (map size ts)" arbitrary: ts rule: less_induct)
  case less
  show ?case
  proof (cases ts)
    case Nil
    then show ?thesis by (simp add: delete_loop.simps)
  next
    case (Cons t rest)
    let ?ts = "rev (sn_children t) @ rest"
    obtain n where n: "hm_get (si_nodes x) (sn_id t) = Some n" "nm_children n = map sn_id (sn_children t)"
      using less.prems(1) Cons tree_id_known [of _ t] by auto
    have "sum_list (map size ?ts) < sum_list (map size ts)"
      using size_children_less [of t] Cons by (simp add: rev_map [symmetric])
    moreover have "\<forall>s\<in>set ?ts. realised (si_nodes x) s" using less.prems(1) Cons by (auto intro: realised_children)
    ultimately have "delete_loop x (map sn_id ?ts)
        = Some (if set (concat (map tree_ids ?ts)) \<subseteq> si_allowed x then Inr () else Inl ObjectOutsideScope)"
      by (rule less.hyps)
    then show ?thesis
      using n Cons by (subst delete_loop.simps) (auto simp: rev_map tree_ids_unfold [of t])
  qed
qed

section \<open>The index of a tree\<close>

text \<open>\<open>x\<close> indexes the tree \<open>t\<close> with the part below \<open>sub\<close> allowed and components owned by nodes.\<close>

definition index_of :: "scene_tree_node \<Rightarrow> scene_tree_node \<Rightarrow> mcp_scene_scope_index \<Rightarrow> bool" where
  "index_of t sub x \<longleftrightarrow> distinct (tree_ids t) \<and> sub \<in> set (subtrees t)
     \<and> si_nodes x = metas None t \<and> si_scene_root_id x = sn_id t \<and> si_root_id x = sn_id sub
     \<and> si_allowed x = set (tree_ids sub)"

lemma unique_subtree:
  assumes "distinct (tree_ids t)" "s \<in> set (subtrees t)" "s' \<in> set (subtrees t)" "sn_id s = sn_id s'"
  shows "s = s'"
  using assms
proof (induction t)
  case (Scene_node i n k cs)
  let ?t = "Scene_node i n k cs"
  have below: "sn_id u \<noteq> i" if "c \<in> set cs" "u \<in> set (subtrees c)" for c u
  proof -
    have "sn_id u \<in> set (tree_ids c)" using subtree_size_ids [OF that(2)] sn_id_in_tree_ids by blast
    with Scene_node.prems(1) that(1) show ?thesis by auto
  qed
  consider (top) "s = ?t" "s' = ?t" | (first) c where "s = ?t" "c \<in> set cs" "s' \<in> set (subtrees c)"
    | (second) c where "s' = ?t" "c \<in> set cs" "s \<in> set (subtrees c)"
    | (both) c c' where "c \<in> set cs" "s \<in> set (subtrees c)" "c' \<in> set cs" "s' \<in> set (subtrees c')"
    using Scene_node.prems(2,3) by auto
  then show ?case
  proof cases
    case first
    with below [of c s'] Scene_node.prems(4) show ?thesis by simp
  next
    case second
    with below [of c s] Scene_node.prems(4) show ?thesis by simp
  next
    case both
    have "sn_id s \<in> set (tree_ids c) \<inter> set (tree_ids c')"
      using both subtree_size_ids sn_id_in_tree_ids Scene_node.prems(4) by (metis IntI subsetD)
    then have same: "tree_ids c = tree_ids c'"
      using both(1,3) Scene_node.prems(1) by (fastforce simp: distinct_concat_iff)
    moreover have "c = c'"
    proof (rule ccontr)
      assume "c \<noteq> c'"
      then obtain a b where ab: "a < length cs" "b < length cs" "a \<noteq> b" "cs ! a = c" "cs ! b = c'"
        using both(1,3) by (metis in_set_conv_nth)
      have "distinct (concat (map tree_ids cs))" using Scene_node.prems(1) by simp
      then have "distinct (removeAll [] (map tree_ids cs))" by (simp add: distinct_concat_iff)
      moreover have "removeAll [] (map tree_ids cs) = map tree_ids cs"
        by (rule removeAll_id) (auto simp: tree_ids_unfold)
      ultimately have "distinct (map tree_ids cs)" by simp
      then show False using ab same by (metis nth_eq_iff_index_eq length_map nth_map)
    qed
    ultimately show ?thesis
      using Scene_node.IH [of c] both Scene_node.prems(1,4) by (auto simp: distinct_concat_iff)
  qed simp
qed

lemma index_realised: "index_of t sub x \<Longrightarrow> realised (si_nodes x) t"
  using metas_realised by (auto simp: index_of_def)

lemma index_node: "index_of t sub x \<Longrightarrow> contains_node x i \<longleftrightarrow> i \<in> set (tree_ids t)"
  unfolding contains_node_def index_of_def by (metis map_fst_metas map_of_eq_None_iff list.set_map)

lemma index_allowed_known: "index_of t sub x \<Longrightarrow> i \<in> si_allowed x \<Longrightarrow> i \<in> set (tree_ids t)"
  using subtree_size_ids by (auto simp: index_of_def)

lemma index_full_scene:
  assumes "index_of t sub x"
  shows "is_full_scene x \<longleftrightarrow> sn_id t \<in> si_allowed x"
proof
  assume "is_full_scene x"
  then have "sn_id t = sn_id sub" "si_allowed x = set (tree_ids sub)"
    using assms unfolding is_full_scene_def index_of_def by metis+
  then show "sn_id t \<in> si_allowed x" by (simp only: sn_id_in_tree_ids)
next
  assume "sn_id t \<in> si_allowed x"
  then have "sn_id t \<in> set (tree_ids sub)" using assms by (simp add: index_of_def)
  then obtain s where s: "s \<in> set (subtrees sub)" "sn_id s = sn_id t" using id_has_subtree by blast
  have "s \<in> set (subtrees t)" using s(1) assms subtree_trans by (auto simp: index_of_def)
  then have "s = t" using unique_subtree [of t s t] s(2) assms by (simp add: index_of_def)
  then have "sub = t" using s(1) assms subtree_antisym by (auto simp: index_of_def)
  then show "is_full_scene x" using assms by (simp add: is_full_scene_def index_of_def)
qed

text \<open>The index of a scene answer is exact: it is built if and only if the answer parses, its ids are distinct, its
  nodes fit into the budget and the scope names one of them, and then it holds the tree and allows exactly
  the ids of the subtree below the scope.\<close>

lemma scope_index_exact:
  "(\<exists>b'. from_result result scope b = (Inr x, b'))
    \<longleftrightarrow> (\<exists>t sub. parse_scene_tree_result result = Inr t \<and> sb_nodes b + length (tree_ids t) \<le> MAX_SCOPE_NODES
         \<and> index_of t sub x \<and> si_component_owners x = []
         \<and> sn_id sub = (case scope of None \<Rightarrow> sn_id t | Some i \<Rightarrow> i))"
proof (cases "parse_scene_tree_result result")
  case (Inr t)
  let ?root = "case scope of None \<Rightarrow> sn_id t | Some i \<Rightarrow> i"
  have forest: "forest [(t, None)] = metas None t" by (simp add: forest_def)
  have len: "length (metas None t) = length (tree_ids t)" by (metis map_fst_metas length_map)
  note loop = index_loop_exact [of "[]" "[(t, None)]" b, unfolded forest, simplified, unfolded len]
  show ?thesis
  proof
    assume "\<exists>b'. from_result result scope b = (Inr x, b')"
    then obtain b1 nodes allowed where made: "index_loop [(t, None)] [] b = (Inr nodes, b1)"
      "hm_get nodes ?root \<noteq> None" "allowed_loop nodes [?root] {} = Inr allowed"
      "x = \<lparr>si_root_id = ?root, si_scene_root_id = sn_id t, si_nodes = nodes, si_allowed = allowed, si_component_owners = []\<rparr>"
      using Inr by (auto simp: from_result_def Let_def split: prod.splits sum.splits if_splits)
    with loop [of nodes] have nodes: "nodes = metas None t" "distinct (tree_ids t)"
      "sb_nodes b + length (tree_ids t) \<le> MAX_SCOPE_NODES" by auto
    have "?root \<in> set (tree_ids t)" using made(2) nodes(1) by (metis map_fst_metas map_of_eq_None_iff list.set_map)
    then obtain sub where sub: "sub \<in> set (subtrees t)" "sn_id sub = ?root" using id_has_subtree by blast
    have "realised nodes sub" using realised_subtree [OF metas_realised [OF nodes(2)] sub(1)] nodes(1) by simp
    moreover have "distinct (tree_ids sub)" using subtree_ids_distinct [OF sub(1) nodes(2)] .
    ultimately have "allowed = set (tree_ids sub)"
      using allowed_loop_forest [of "[sub]" nodes "{}"] made(3) sub(2) by simp
    then show "\<exists>t' sub. parse_scene_tree_result result = Inr t' \<and> sb_nodes b + length (tree_ids t') \<le> MAX_SCOPE_NODES
         \<and> index_of t' sub x \<and> si_component_owners x = []
         \<and> sn_id sub = (case scope of None \<Rightarrow> sn_id t' | Some i \<Rightarrow> i)"
      using Inr made(4) nodes sub by (intro exI [of _ t] exI [of _ sub]) (simp add: index_of_def)
  next
    assume "\<exists>t' sub. parse_scene_tree_result result = Inr t' \<and> sb_nodes b + length (tree_ids t') \<le> MAX_SCOPE_NODES
         \<and> index_of t' sub x \<and> si_component_owners x = []
         \<and> sn_id sub = (case scope of None \<Rightarrow> sn_id t' | Some i \<Rightarrow> i)"
    then obtain sub where x: "sb_nodes b + length (tree_ids t) \<le> MAX_SCOPE_NODES" "index_of t sub x"
      "si_component_owners x = []" "sn_id sub = ?root" using Inr by auto
    then have dist: "distinct (tree_ids t)" by (simp add: index_of_def)
    with loop [of "metas None t"] x(1) obtain b1 where made: "index_loop [(t, None)] [] b = (Inr (metas None t), b1)" by auto
    have sub: "sub \<in> set (subtrees t)" using x(2) by (simp add: index_of_def)
    have real: "realised (metas None t) sub" using realised_subtree [OF metas_realised [OF dist] sub] .
    then have "hm_get (metas None t) ?root \<noteq> None" using tree_id_known [OF real] x(4) by auto
    moreover have "allowed_loop (metas None t) [?root] {} = Inr (set (tree_ids sub))"
      using allowed_loop_forest [of "[sub]" "metas None t" "{}"] real subtree_ids_distinct [OF sub dist] x(4)
      by simp
    moreover have "x = \<lparr>si_root_id = ?root, si_scene_root_id = sn_id t, si_nodes = metas None t,
        si_allowed = set (tree_ids sub), si_component_owners = []\<rparr>"
      using x(2-4) by (simp add: index_of_def)
    ultimately show "\<exists>b'. from_result result scope b = (Inr x, b')"
      using Inr made by (simp add: from_result_def Let_def)
  qed
qed (simp add: from_result_def)

section \<open>The checks are exact\<close>

definition tree_parent :: "scene_tree_node \<Rightarrow> string \<Rightarrow> string option" where
  "tree_parent t i = Option.bind (map_of (metas None t) i) nm_parent"

definition parent_or_root :: "scene_tree_node \<Rightarrow> string option \<Rightarrow> string" where
  "parent_or_root t p = (case p of None \<Rightarrow> sn_id t | Some q \<Rightarrow> q)"

definition subtree_ids :: "scene_tree_node \<Rightarrow> string \<Rightarrow> string set" where
  "subtree_ids t i = \<Union> (set (map (\<lambda>s. if sn_id s = i then set (tree_ids s) else {}) (subtrees t)))"

text \<open>The objects of the scene a write reads as its place or changes; \<open>None\<close> for an unknown component.\<close>

fun touched :: "scene_tree_node \<Rightarrow> (string \<Rightarrow> string option) \<Rightarrow> mcp_write_operation \<Rightarrow> string set option" where
  "touched t owner (Property i) = (if i \<in> set (tree_ids t) then Some {i} else map_option (\<lambda>w. {w}) (owner i))"
| "touched t owner (Op_create p) = Some {parent_or_root t p}"
| "touched t owner (Op_duplicate i p) =
     Some {i, parent_or_root t (case p of None \<Rightarrow> tree_parent t i | Some q \<Rightarrow> Some q)}"
| "touched t owner (Op_reparent i p) = Some {i, parent_or_root t (tree_parent t i), parent_or_root t p}"
| "touched t owner (Op_delete i) = Some ({i, parent_or_root t (tree_parent t i)} \<union> subtree_ids t i)"
| "touched t owner (ComponentAdd i) = Some {i}"
| "touched t owner (ComponentRemove i) = map_option (\<lambda>w. {w}) (owner i)"
| "touched t owner RuntimeControl = Some (set (tree_ids t))"
| "touched t owner (Op_history a) = None"

fun simple_write :: "mcp_write_operation \<Rightarrow> bool" where
  "simple_write (Op_history a) = False"
| "simple_write _ = True"

lemma check_object_iff:
  "index_of t sub x \<Longrightarrow> check_object x i = Inr () \<longleftrightarrow> i \<in> si_allowed x"
  using index_node [of t sub x i] index_allowed_known [of t sub x i] by (auto simp: check_object_def)

lemma check_parent_iff:
  "index_of t sub x \<Longrightarrow> check_parent x p = Inr () \<longleftrightarrow> parent_or_root t p \<in> si_allowed x"
  using check_object_iff [of t sub x] index_full_scene [of t sub x]
  by (auto simp: check_parent_def parent_or_root_def split: option.splits)

lemma parent_of_tree: "index_of t sub x \<Longrightarrow> parent_of x i = tree_parent t i"
  by (simp add: parent_of_def tree_parent_def index_of_def)

lemma check_component_iff:
  "check_component x i = Inr () \<longleftrightarrow> (\<exists>w. hm_get (si_component_owners x) i = Some w \<and> w \<in> si_allowed x)"
  by (auto simp: check_component_def split: option.splits if_splits)

lemma and_then_ok: "and_then m f = Some (Inr c) \<longleftrightarrow> (\<exists>a. m = Some (Inr a) \<and> f a = Some (Inr c))"
  by (cases "(m, f)" rule: and_then.cases) auto

text \<open>The check ends.\<close>

definition ends :: "'a option \<Rightarrow> bool" where
  "ends m \<longleftrightarrow> m \<noteq> None"

lemma ends_Some [simp, intro]: "ends (Some r)"
  by (simp add: ends_def)

lemma and_then_ends [intro]: "ends m \<Longrightarrow> (\<And>a. ends (f a)) \<Longrightarrow> ends (and_then m f)"
  by (cases "(m, f)" rule: and_then.cases) (auto simp: ends_def)

lemma delete_walk:
  assumes "index_of t sub x" "i \<in> si_allowed x"
  shows "delete_loop x [i] = Some (if subtree_ids t i \<subseteq> si_allowed x then Inr () else Inl ObjectOutsideScope)"
proof -
  obtain s where s: "s \<in> set (subtrees t)" "sn_id s = i"
    using id_has_subtree index_allowed_known [OF assms] by blast
  have "s' = s" if "s' \<in> set (subtrees t)" "sn_id s' = i" for s'
    using unique_subtree [of t s' s] that s assms(1) by (simp add: index_of_def)
  then have one: "(if sn_id s' = i then set (tree_ids s') else {}) = (if s' = s then set (tree_ids s) else {})"
    if "s' \<in> set (subtrees t)" for s' using that s(2) by metis
  have "subtree_ids t i = (\<Union>s'\<in>set (subtrees t). if s' = s then set (tree_ids s) else {})"
    unfolding subtree_ids_def set_map using one by (intro SUP_cong refl)
  also have "\<dots> = set (tree_ids s)" using s(1) by auto
  finally have "subtree_ids t i = set (tree_ids s)" .
  moreover have "realised (si_nodes x) s" using realised_subtree [OF index_realised [OF assms(1)] s(1)] .
  ultimately show ?thesis using delete_loop_forest [of "[s]" x] s(2) by simp
qed

lemma check_delete_iff:
  assumes "index_of t sub x"
  shows "ends (check_delete_subtree x i)"
    and "check_delete_subtree x i = Some (Inr ())
      \<longleftrightarrow> {i, parent_or_root t (tree_parent t i)} \<union> subtree_ids t i \<subseteq> si_allowed x"
proof -
  have *: "ends (and_then (Some (check_parent x (parent_of x i))) (\<lambda>_. delete_loop x [i]))" if "i \<in> si_allowed x"
    using delete_walk [OF assms that] by (auto intro!: and_then_ends)
  then show "ends (check_delete_subtree x i)"
    using check_object_iff [OF assms, of i]
    by (cases "check_object x i") (simp_all add: check_delete_subtree_def)
  show "check_delete_subtree x i = Some (Inr ())
      \<longleftrightarrow> {i, parent_or_root t (tree_parent t i)} \<union> subtree_ids t i \<subseteq> si_allowed x"
    using check_object_iff [OF assms] check_parent_iff [OF assms] parent_of_tree [OF assms] delete_walk [OF assms, of i]
    by (auto simp: check_delete_subtree_def and_then_ok split: if_splits)
qed

lemma full_scene_iff:
  assumes "index_of t sub x"
  shows "is_full_scene x \<longleftrightarrow> set (tree_ids t) \<subseteq> si_allowed x"
proof
  assume "is_full_scene x"
  then have "sn_id sub = sn_id t" using assms unfolding is_full_scene_def index_of_def by metis
  then have "sub = t" using unique_subtree [of t sub t] assms by (simp add: index_of_def)
  then show "set (tree_ids t) \<subseteq> si_allowed x" using assms by (simp add: index_of_def)
next
  assume "set (tree_ids t) \<subseteq> si_allowed x"
  then show "is_full_scene x" using index_full_scene [OF assms] sn_id_in_tree_ids by blast
qed

lemma check_simple_exact:
  assumes "index_of t sub x" "simple_write op"
  shows "check_operation x op = Some (Inr ())
    \<longleftrightarrow> (\<exists>S. touched t (hm_get (si_component_owners x)) op = Some S \<and> S \<subseteq> si_allowed x)"
proof (cases op)
  case (Property i)
  show ?thesis
  proof (cases "i \<in> set (tree_ids t)")
    case True
    with Property index_node [OF assms(1)] check_object_iff [OF assms(1)] show ?thesis
      by (simp add: check_object_or_component_def)
  next
    case False
    with Property index_node [OF assms(1)] show ?thesis
      by (auto simp: check_object_or_component_def check_component_iff)
  qed
next
  case (Op_delete i)
  with check_delete_iff [OF assms(1)] show ?thesis by simp
qed (insert assms check_object_iff [OF assms(1)] check_parent_iff [OF assms(1)] parent_of_tree [OF assms(1)]
    full_scene_iff [OF assms(1)], auto simp: and_then_ok check_component_iff cong: option.case_cong)

lemma check_record_ends: "index_of t sub x \<Longrightarrow> ends (check_record x d r y)"
  using check_delete_iff(1)
  by (cases "(x, d, r, y)" rule: check_record.cases) (auto intro!: and_then_ends split: option.splits if_splits)

lemma check_records_end: "index_of t sub x \<Longrightarrow> ends (check_records x d rs y)"
  by (induction rs arbitrary: y) (auto simp: check_record_ends)

lemma check_operation_ends: "index_of t sub x \<Longrightarrow> ends (check_operation x op)"
  using check_delete_iff(1) check_records_end by (cases op) (auto simp: check_history_def)

section \<open>Component snapshots keep the index\<close>

definition with_snapshots :: "(string \<times> object_snapshot) list \<Rightarrow> mcp_scene_scope_index \<Rightarrow> mcp_scene_scope_index" where
  "with_snapshots ss = fold (\<lambda>(owner, s) x. snd (record_component_snapshot owner s x)) ss"

lemma index_of_owners: "index_of t sub (x\<lparr>si_component_owners := m\<rparr>) = index_of t sub x"
  by (simp add: index_of_def)

lemma index_of_snapshot: "index_of t sub (snd (record_component_snapshot owner s x)) = index_of t sub x"
proof (cases "os_components s")
  case (Some cs)
  then show ?thesis unfolding record_component_snapshot_def
    by (simp only: option.case if_split [of "\<lambda>r. index_of t sub (snd r) = index_of t sub x"] snd_conv index_of_owners simp_thms)
qed (simp add: record_component_snapshot_def)

lemma index_of_snapshots: "index_of t sub (with_snapshots ss x) = index_of t sub x"
proof (induction ss arbitrary: x)
  case (Cons s ss)
  obtain owner snap where s: "s = (owner, snap)" by (cases s)
  have "with_snapshots (s # ss) x = with_snapshots ss (snd (record_component_snapshot owner snap x))"
    by (simp add: with_snapshots_def s)
  with Cons.IH index_of_snapshot show ?case by metis
qed (simp add: with_snapshots_def)

lemma from_result_index:
  assumes "from_result result scope b = (Inr x, b')"
  obtains t sub where "parse_scene_tree_result result = Inr t" "index_of t sub x"
    "sn_id sub = (case scope of None \<Rightarrow> sn_id t | Some i \<Rightarrow> i)"
  using scope_index_exact [of result scope b x] assms by blast

definition scope_scene :: json where
  "scope_scene = JObject [(''root'', JObject [(''id'', JString ''s''), (''children'', JArray
     [JObject [(''id'', JString ''a''), (''children'', JArray [JObject [(''id'', JString ''c'')]])],
      JObject [(''id'', JString ''b'')]])])]"

definition scope_tree :: scene_tree_node where
  "scope_tree = Scene_node ''s'' None None
     [Scene_node ''a'' None None [Scene_node ''c'' None None []], Scene_node ''b'' None None []]"

definition scope_budget :: mcp_scope_budget where
  "scope_budget = \<lparr>sb_nodes = 0, sb_snapshots = 0, sb_bytes = 0\<rparr>"

definition scope_index :: mcp_scene_scope_index where
  "scope_index = \<lparr>si_root_id = ''a'', si_scene_root_id = ''s'', si_nodes = metas None scope_tree,
     si_allowed = {''a'', ''c''}, si_component_owners = []\<rparr>"

lemma scope_parse: "parse_scene_tree_result scope_scene = Inr scope_tree"
  by (simp add: scope_scene_def scope_tree_def parse_scene_tree_result_def parse_scene_node.simps object_or_def
      required_str_def required_as_def required_field_def optional_str_def optional_as_def)

lemma scope_index_of: "index_of scope_tree (Scene_node ''a'' None None [Scene_node ''c'' None None []]) scope_index"
  by (simp add: index_of_def scope_index_def scope_tree_def)

lemma scope_from_result: "\<exists>b'. from_result scope_scene (Some ''a'') scope_budget = (Inr scope_index, b')"
proof -
  have "length (tree_ids scope_tree) = 4" by (simp add: scope_tree_def)
  moreover have "si_component_owners scope_index = []" by (simp add: scope_index_def)
  ultimately show ?thesis
    using scope_parse scope_index_of
    by (auto simp only: scope_index_exact scope_budget_def MAX_SCOPE_NODES_def mcp_scope_budget.simps option.case
        scene_tree_node.sel sum.inject intro!: exI conjI)
qed

text \<open>C22: A scope check of a single write ends, and it accepts exactly the writes that touch nothing outside the allowed
  subtree: the target, its owner if it is a component, the places it leaves and enters, and everything below a
  deleted object.\<close>

theorem write_check_is_exact:
  assumes "from_result result scope b = (Inr x0, b')" "x = with_snapshots ss x0" "simple_write op"
  shows "\<exists>t sub r. parse_scene_tree_result result = Inr t \<and> sub \<in> set (subtrees t)
    \<and> sn_id sub = (case scope of None \<Rightarrow> sn_id t | Some i \<Rightarrow> i)
    \<and> check_operation x op = Some r
    \<and> (r = Inr () \<longleftrightarrow> (\<exists>S. touched t (hm_get (si_component_owners x)) op = Some S \<and> S \<subseteq> set (tree_ids sub)))"
proof -
  from assms(1) obtain t sub where t: "parse_scene_tree_result result = Inr t" "index_of t sub x0"
    "sn_id sub = (case scope of None \<Rightarrow> sn_id t | Some i \<Rightarrow> i)" by (rule from_result_index)
  then have index: "index_of t sub x" using assms(2) index_of_snapshots by simp
  obtain r where r: "check_operation x op = Some r" using check_operation_ends [OF index] by (auto simp: ends_def)
  have "sub \<in> set (subtrees t)" "si_allowed x = set (tree_ids sub)" using index by (simp_all add: index_of_def)
  with check_simple_exact [OF index assms(3)] r t show ?thesis
    by (intro exI [of _ t] exI [of _ sub] exI [of _ r]) simp
qed

lemma write_check_is_exact_witness:
  "check_operation scope_index (Op_delete ''a'') = Some (Inl ObjectOutsideScope)
    \<and> check_operation scope_index (Op_delete ''c'') \<noteq> None"
proof -
  obtain b' where made: "from_result scope_scene (Some ''a'') scope_budget = (Inr scope_index, b')"
    using scope_from_result by blast
  have "scope_index = with_snapshots [] scope_index" by (simp add: with_snapshots_def)
  from write_check_is_exact [OF made this, of "Op_delete ''c''"]
  have "check_operation scope_index (Op_delete ''c'') \<noteq> None" by (simp add: not_None_eq del: check_operation.simps) blast
  moreover have "check_operation scope_index (Op_delete ''a'') = Some (Inl ObjectOutsideScope)"
    by (simp add: check_delete_subtree_def check_object_def check_parent_def parent_of_def contains_node_def
        scope_index_def scope_tree_def node_meta_def)
  ultimately show ?thesis by simp
qed

text \<open>No scope check runs forever: on the index of any answer, with any component snapshots, the check of every
  operation ends, also of a history action, although the walk below a deleted object keeps no record of the nodes
  it has visited.\<close>

lemma scope_check_ends:
  assumes "from_result result scope b = (Inr x0, b')"
  shows "check_operation (with_snapshots ss x0) op \<noteq> None"
proof -
  from assms obtain t sub where "index_of t sub x0" by (rule from_result_index)
  then show ?thesis using check_operation_ends [of t sub "with_snapshots ss x0"] index_of_snapshots by (simp add: ends_def)
qed

section \<open>History actions\<close>

fun created :: "history_direction \<Rightarrow> history_record \<Rightarrow> string set" where
  "created Redo (Create c p k) = {c}"
| "created Redo (Duplicate s c p) = {c}"
| "created d r = {}"

fun record_targets :: "scene_tree_node \<Rightarrow> history_direction \<Rightarrow> history_record \<Rightarrow> string set" where
  "record_targets t Undo (Create c p k) = insert c (subtree_ids t c)"
| "record_targets t Undo (Duplicate s c p) = insert c (subtree_ids t c)"
| "record_targets t Redo (Create c p k) = {parent_or_root t p}"
| "record_targets t Redo (Duplicate s c p) = insert s (set_option p)"
| "record_targets t d (Reparent i p q) = {i, parent_or_root t p, parent_or_root t q}"
| "record_targets t d (SetProperty i n v w) = {i}"

text \<open>What the index projected over the records checked so far still has of the first one.\<close>

definition projects :: "scene_tree_node \<Rightarrow> mcp_scene_scope_index \<Rightarrow> string set \<Rightarrow> mcp_scene_scope_index \<Rightarrow> bool" where
  "projects t x A y \<longleftrightarrow> si_allowed y \<subseteq> A \<and> si_component_owners y = si_component_owners x
     \<and> (is_full_scene y \<longrightarrow> sn_id t \<in> A)"

definition owned_by :: "mcp_scene_scope_index \<Rightarrow> string set \<Rightarrow> string set" where
  "owned_by x A = A \<union> {c. \<exists>w. hm_get (si_component_owners x) c = Some w \<and> w \<in> A}"

lemma projects_object: "projects t x A y \<Longrightarrow> check_object y i = Inr () \<Longrightarrow> i \<in> A"
  by (auto simp: projects_def check_object_def split: if_splits)

lemma projects_parent: "projects t x A y \<Longrightarrow> check_parent y p = Inr () \<Longrightarrow> parent_or_root t p \<in> A"
  using projects_object [of t x A y]
  by (auto simp: check_parent_def parent_or_root_def projects_def split: option.splits if_splits)

lemma projects_any:
  "projects t x A y \<Longrightarrow> check_object_or_component y i = Inr () \<Longrightarrow> i \<in> owned_by x A"
  using projects_object [of t x A y i]
  by (auto simp: check_object_or_component_def check_component_def owned_by_def projects_def split: if_splits option.splits)

lemma add_recreated_projects:
  assumes "projects t x A y" "add_recreated_node c p y = Inr y'"
  shows "projects t x (insert c A) y' \<and> parent_or_root t p \<in> A"
  using assms projects_parent [OF assms(1), of p]
  by (auto simp: add_recreated_node_def projects_def is_full_scene_def Let_def split: if_splits option.splits)

lemma check_record_projects:
  assumes "index_of t sub x" "projects t x A y" "si_allowed x \<subseteq> A" "check_record x d r y = Some (Inr y')"
  shows "projects t x (A \<union> created d r) y' \<and> record_targets t d r \<subseteq> owned_by x A"
proof -
  have own: "A \<subseteq> owned_by x A" by (auto simp: owned_by_def)
  have del: "insert c (subtree_ids t c) \<subseteq> A" if "check_delete_subtree x c = Some (Inr ())" for c
    using that check_delete_iff(2) [OF assms(1), of c] assms(3) by blast
  have recreated: "projects t x (insert c A) y'' \<and> set_option p \<subseteq> owned_by x A \<and> parent_or_root t p \<in> owned_by x A"
    if "add_recreated_node c p y = Inr y''" for c p y''
    using add_recreated_projects [OF assms(2) that] own by (auto simp: parent_or_root_def)
  show ?thesis
  proof (cases "(x, d, r, y)" rule: check_record.cases)
    case (1 x1 c p k y1)
    with assms own del show ?thesis by (auto simp: and_then_ok)
  next
    case (2 x1 s c p y1)
    with assms own del show ?thesis by (auto simp: and_then_ok)
  next
    case (3 x1 c p k y1)
    with assms(4) recreated [of c p y'] show ?thesis by simp
  next
    case (4 x1 s c p y1)
    with assms(4) have o: "check_object y s = Inr ()"
      "add_recreated_node c (case p of None \<Rightarrow> parent_of y s | Some q \<Rightarrow> Some q) y = Inr y'"
      by (auto simp: and_then_ok)
    with 4 recreated [OF o(2)] projects_object [OF assms(2)] own show ?thesis
      by (cases p) auto
  next
    case (5 x1 d1 i p q y1)
    with assms(4) have o: "check_object y i = Inr ()" "check_parent y p = Inr ()" "check_parent y q = Inr ()"
      "projects t x A y'"
      using assms(2) by (auto simp: and_then_ok projects_def is_full_scene_def split: if_splits option.splits)
    with 5 projects_object [OF assms(2)] projects_parent [OF assms(2)] own show ?thesis by auto
  next
    case (6 x1 d1 i n v w y1)
    with assms(2,4) projects_any [OF assms(2)] show ?thesis by (auto simp: and_then_ok)
  qed
qed

lemma owned_by_mono: "A \<subseteq> B \<Longrightarrow> owned_by x A \<subseteq> owned_by x B"
  by (auto simp: owned_by_def)

lemma check_records_targets:
  assumes "index_of t sub x" "projects t x A y" "si_allowed x \<subseteq> A" "check_records x d rs y = Some (Inr ())"
  shows "\<forall>r\<in>set rs. record_targets t d r \<subseteq> owned_by x (A \<union> (\<Union>r\<in>set rs. created d r))"
  using assms(2-4)
proof (induction rs arbitrary: A y)
  case (Cons r rs)
  from Cons.prems(3) obtain y1 where y1: "check_record x d r y = Some (Inr y1)" "check_records x d rs y1 = Some (Inr ())"
    by (auto simp: and_then_ok)
  note step = check_record_projects [OF assms(1) Cons.prems(1,2) y1(1)]
  have "\<forall>q\<in>set rs. record_targets t d q \<subseteq> owned_by x (A \<union> created d r \<union> (\<Union>r\<in>set rs. created d r))"
    using Cons.IH [of "A \<union> created d r" y1] step Cons.prems(2) y1(2) by blast
  moreover have "A \<union> created d r \<union> (\<Union>r\<in>set rs. created d r) = A \<union> (\<Union>r\<in>set (r # rs). created d r)" by auto
  moreover have "record_targets t d r \<subseteq> owned_by x (A \<union> (\<Union>r\<in>set (r # rs). created d r))"
    using step owned_by_mono [of A] by blast
  ultimately show ?case by simp
qed simp

text \<open>An accepted undo or redo of a whole group stays within the allowed subtree: every object that one of its
  records changes, moves from or to, copies or deletes, with everything below a deleted one, is allowed, was
  recreated by the same redo, or is a component of such an object.\<close>

lemma history_check_stays_in_scope:
  assumes "from_result result scope b = (Inr x0, b')" "x = with_snapshots ss x0"
    and "check_operation x (Op_history a) = Some (Inr ())" "r \<in> set (mh_records a)"
  shows "\<exists>t sub. parse_scene_tree_result result = Inr t \<and> sub \<in> set (subtrees t)
    \<and> sn_id sub = (case scope of None \<Rightarrow> sn_id t | Some i \<Rightarrow> i)
    \<and> record_targets t (mh_direction a) r
        \<subseteq> owned_by x (set (tree_ids sub) \<union> (\<Union>r'\<in>set (mh_records a). created (mh_direction a) r'))"
proof -
  from assms(1) obtain t sub where t: "parse_scene_tree_result result = Inr t" "index_of t sub x0"
    "sn_id sub = (case scope of None \<Rightarrow> sn_id t | Some i \<Rightarrow> i)" by (rule from_result_index)
  then have index: "index_of t sub x" using assms(2) index_of_snapshots by simp
  then have "projects t x (si_allowed x) x" using index_full_scene by (simp add: projects_def)
  moreover have "check_records x (mh_direction a) (mh_records a) x = Some (Inr ())"
    using assms(3) by (simp add: check_history_def split: if_splits)
  ultimately have "record_targets t (mh_direction a) r
      \<subseteq> owned_by x (si_allowed x \<union> (\<Union>r'\<in>set (mh_records a). created (mh_direction a) r'))"
    using check_records_targets [OF index _ order_refl] assms(4) by blast
  moreover have "sub \<in> set (subtrees t)" "si_allowed x = set (tree_ids sub)" using index by (simp_all add: index_of_def)
  ultimately show ?thesis using t by auto
qed

definition scope_redo :: mcp_history_action where
  "scope_redo = \<lparr>mh_direction = Redo, mh_head_id = 1, mh_revision = 1, mh_group_name = ''g'', mh_source = Mcp,
     mh_records = [Create ''n'' (Some ''a'') None, SetProperty ''n'' ''p'' JNull JNull]\<rparr>"

section \<open>Confirmation and capabilities\<close>

text \<open>The editing capability that the method of a request belongs to.\<close>

definition method_capability :: "string \<Rightarrow> string" where
  "method_capability m = (if m = ''object.setProperty'' then ''object.edit'' else ''scene.edit'')"

text \<open>What a history action sends is covered by what it asked for: the capability of the method of each of its
  requests is one it required, and only an action that requires a confirmation deletes an object.\<close>

lemma history_action_is_announced:
  assumes "r \<in> set (mh_records a)" "history_call r (mh_direction a) = (meth, params, kind)"
  shows "method_capability meth \<in> set (required_capabilities (Op_history a))
    \<and> (meth = ''scene.deleteObject'' \<longrightarrow> requires_confirmation (Op_history a))"
proof -
  have "method_capability meth \<in> set (record_capabilities r)"
    using assms(2) by (cases "(r, mh_direction a)" rule: history_call.cases) (auto simp: method_capability_def)
  then have "method_capability meth \<in> set (required_capabilities (Op_history a))"
    using assms(1) by (auto simp: history_required_capabilities_def set_insort_key)
  moreover have "is_recreation r \<and> mh_direction a = Undo" if "meth = ''scene.deleteObject''"
    using assms(2) that by (cases "(r, mh_direction a)" rule: history_call.cases) auto
  then have "meth = ''scene.deleteObject'' \<longrightarrow> requires_confirmation (Op_history a)"
    using assms(1) by (auto simp: list_ex_iff)
  ultimately show ?thesis by simp
qed

end
