(* ===== verification/Mcp_Auth.thy ===== *)
theory Mcp_Auth
  imports Scope
begin

text \<open>
  \<open>src-tauri/src/mcp.rs\<close> (the authorization) and \<open>src-tauri/src/mcp/confirmation.rs\<close>: leases of
  authenticated requests and their revocation, the write policy and its permits, and the broker of
  the confirmations on the screen. A cancellation token is a number, cancelled when it is in a set;
  the weak reference to one is alive while the lease that owns it is. Instants are milliseconds.
  A critical section of the source is one definition; \<open>revoke\<close> is the atomic increment
  (\<open>revoke_bump\<close>) and the section under the lock of the leases (\<open>revoke_sweep\<close>), between which
  other threads may run.
\<close>

section \<open>Confirmations\<close>

definition CONFIRMATION_TIMEOUT :: nat where
  "CONFIRMATION_TIMEOUT = 120 * 1000"

definition MAX_PENDING_CONFIRMATIONS :: nat where
  "MAX_PENDING_CONFIRMATIONS = 16"

datatype confirmation_result =
    Approved | Rejected | TimedOut | Confirmation_cancelled | GenerationChanged | Unavailable

record mcp_confirmation_request =
  cf_id :: string
  cf_tool_name :: string
  cf_method :: string
  cf_target_ids :: "string list"
  cf_target_count :: nat
  cf_before :: "json option"
  cf_after :: "json option"
  cf_source :: "edit_source_dto option"
  cf_undo_available :: bool
  cf_clears_history :: bool
  cf_history_generation :: "u64 option"
  cf_history_revision :: u64
  cf_undo_head_id :: "u64 option"
  cf_expires_at :: u64

record pending_confirmation =
  pc_request :: mcp_confirmation_request
  pc_auth_revision :: u64

text \<open>
  The oneshot channel of a registration: what its sender did (\<open>None\<close>: it was dropped) is in
  \<open>cb_results\<close>, and whether its receiver still waits in \<open>cb_waiting\<close>. \<open>cb_updates\<close> is the last value of
  the watch channel to the screen.
\<close>

record confirmation_broker =
  cb_requests :: "(string, pending_confirmation) hash_map"
  cb_results :: "(string, bool option) hash_map"
  cb_waiting :: "string set"
  cb_updates :: "mcp_confirmation_request list"

definition broker_default :: confirmation_broker where
  "broker_default = \<lparr>cb_requests = [], cb_results = [], cb_waiting = {}, cb_updates = []\<rparr>"

definition publish_locked :: "confirmation_broker \<Rightarrow> confirmation_broker" where
  "publish_locked b =
     b\<lparr>cb_updates := sort_key cf_expires_at (map (pc_request \<circ> snd) (cb_requests b))\<rparr>"

text \<open>The registration of a request under its fresh random id; \<open>None\<close> for the id is that no random bytes came.\<close>

definition broker_register ::
  "nat option \<Rightarrow> bool \<Rightarrow> string option \<Rightarrow> u64 \<Rightarrow> mcp_confirmation_request \<Rightarrow> confirmation_broker
    \<Rightarrow> (confirmation_result + string) \<times> confirmation_broker" where
  "broker_register deadline lease_current fresh_id revision request b =
     (case deadline of
       None \<Rightarrow> (Inl TimedOut, b)
     | Some d \<Rightarrow>
         if \<not> lease_current then (Inl Confirmation_cancelled, b)
         else
           (case fresh_id of
             None \<Rightarrow> (Inl Unavailable, b)
           | Some i \<Rightarrow>
               if length (cb_requests b) \<ge> MAX_PENDING_CONFIRMATIONS then (Inl Unavailable, b)
               else
                 (Inr i, publish_locked
                    (b\<lparr>cb_requests := hm_insert i
                         \<lparr>pc_request = request\<lparr>cf_id := i\<rparr>, pc_auth_revision = revision\<rparr> (cb_requests b),
                       cb_results := hm_remove i (cb_results b),
                       cb_waiting := insert i (cb_waiting b)\<rparr>))))"

text \<open>The biased \<open>select\<close>: the first ready branch in this order; \<open>None\<close> is that it still waits.\<close>

definition select_outcome ::
  "bool \<Rightarrow> bool \<Rightarrow> bool \<Rightarrow> bool \<Rightarrow> bool option option \<Rightarrow> confirmation_result option" where
  "select_outcome authorization_cancelled request_cancelled timed_out generation_changed decision =
     (if authorization_cancelled then Some Confirmation_cancelled
      else if request_cancelled then Some Confirmation_cancelled
      else if timed_out then Some TimedOut
      else if generation_changed then Some GenerationChanged
      else
        (case decision of
          Some (Some True) \<Rightarrow> Some Approved
        | Some (Some False) \<Rightarrow> Some Rejected
        | Some None \<Rightarrow> Some Confirmation_cancelled
        | None \<Rightarrow> None))"

definition broker_select ::
  "bool \<Rightarrow> bool \<Rightarrow> bool \<Rightarrow> bool \<Rightarrow> string \<Rightarrow> confirmation_broker
    \<Rightarrow> confirmation_result option \<times> confirmation_broker" where
  "broker_select authorization_cancelled request_cancelled timed_out generation_changed i b =
     (case select_outcome authorization_cancelled request_cancelled timed_out generation_changed
             (hm_get (cb_results b) i) of
       None \<Rightarrow> (None, b)
     | Some r \<Rightarrow> (Some r, b\<lparr>cb_waiting := cb_waiting b - {i}\<rparr>))"

text \<open>\<open>remove\<close>, run by the drop of the registration; the sender of the entry is dropped with it.\<close>

definition drop_sender :: "string \<Rightarrow> confirmation_broker \<Rightarrow> confirmation_broker" where
  "drop_sender i b = b\<lparr>cb_results := hm_insert i None (cb_results b)\<rparr>"

definition broker_remove :: "string \<Rightarrow> confirmation_broker \<Rightarrow> confirmation_broker" where
  "broker_remove i b =
     (case hm_get (cb_requests b) i of
       None \<Rightarrow> b
     | Some p \<Rightarrow> drop_sender i (publish_locked (b\<lparr>cb_requests := hm_remove i (cb_requests b)\<rparr>)))"

definition decide :: "string \<Rightarrow> bool \<Rightarrow> confirmation_broker \<Rightarrow> bool \<times> confirmation_broker" where
  "decide i approved b =
     (case hm_get (cb_requests b) i of
       None \<Rightarrow> (False, b)
     | Some p \<Rightarrow>
         (let b1 = publish_locked (b\<lparr>cb_requests := hm_remove i (cb_requests b)\<rparr>)
          in if i \<in> cb_waiting b1
             then (True, b1\<lparr>cb_results := hm_insert i (Some approved) (cb_results b1)\<rparr>)
             else (False, drop_sender i b1)))"

definition approve :: "string \<Rightarrow> confirmation_broker \<Rightarrow> bool \<times> confirmation_broker" where
  "approve i = decide i True"

definition reject :: "string \<Rightarrow> confirmation_broker \<Rightarrow> bool \<times> confirmation_broker" where
  "reject i = decide i False"

definition cancel_before_revision :: "u64 \<Rightarrow> confirmation_broker \<Rightarrow> confirmation_broker" where
  "cancel_before_revision revision b =
     (let old = filter (\<lambda>(i, p). \<not> pc_auth_revision p \<ge> revision) (cb_requests b)
      in fold (drop_sender \<circ> fst) old
           (publish_locked (b\<lparr>cb_requests := filter (\<lambda>(i, p). pc_auth_revision p \<ge> revision) (cb_requests b)\<rparr>)))"

definition broker_pending :: "confirmation_broker \<Rightarrow> mcp_confirmation_request list" where
  "broker_pending b = map (pc_request \<circ> snd) (cb_requests b)"

section \<open>Leases and revocation\<close>

definition WRITE_REQUEST_TIMEOUT :: nat where
  "WRITE_REQUEST_TIMEOUT = 125 * 1000"

record mcp_request_lease =
  rl_revision :: u64
  rl_request_id :: u64
  rl_token :: nat
  rl_deadline :: nat

text \<open>\<open>ma_next_token\<close> numbers the cancellation tokens, \<open>ma_dropped\<close> are those of leases that are gone.\<close>

record mcp_authorization =
  ma_revision :: u64
  ma_next_request_id :: u64
  ma_leases :: "(u64 \<times> nat) list"
  ma_settings :: mcp_write_settings
  ma_policy_revision :: u64
  ma_confirmations :: confirmation_broker
  ma_next_token :: nat
  ma_cancelled :: "nat set"
  ma_request_cancelled :: "nat set"
  ma_dropped :: "nat set"

definition settings_default :: mcp_write_settings where
  "settings_default = \<lparr>ws_mode = ReadOnly_mode, ws_scene_root_id = None\<rparr>"

definition authorization_default :: mcp_authorization where
  "authorization_default = \<lparr>ma_revision = 1, ma_next_request_id = 1, ma_leases = [],
     ma_settings = settings_default, ma_policy_revision = 1, ma_confirmations = broker_default,
     ma_next_token = 0, ma_cancelled = {}, ma_request_cancelled = {}, ma_dropped = {}\<rparr>"

definition is_strong :: "mcp_authorization \<Rightarrow> nat \<Rightarrow> bool" where
  "is_strong a token \<longleftrightarrow> token \<notin> ma_dropped a"

text \<open>
  \<open>current_lease\<close> holds the lock of the leases, but the revision is read without one: \<open>loaded\<close> is what
  the first load gave, the state holds what the second one gives.
\<close>

definition current_lease :: "u64 \<Rightarrow> nat \<Rightarrow> mcp_authorization \<Rightarrow> mcp_request_lease \<times> mcp_authorization" where
  "current_lease loaded now a =
     (let token = ma_next_token a;
          kept = filter (\<lambda>(r, t). is_strong a t) (ma_leases a);
          a1 = a\<lparr>ma_leases := kept, ma_next_token := token + 1\<rparr>;
          a2 = (if loaded = ma_revision a
                then a1\<lparr>ma_leases := kept @ [(loaded, token)]\<rparr>
                else a1\<lparr>ma_cancelled := insert token (ma_cancelled a)\<rparr>)
      in (\<lparr>rl_revision = loaded, rl_request_id = ma_next_request_id a, rl_token = token,
           rl_deadline = now + WRITE_REQUEST_TIMEOUT\<rparr>,
          a2\<lparr>ma_next_request_id := ma_next_request_id a + 1\<rparr>))"

definition revoke_bump :: "mcp_authorization \<Rightarrow> u64 \<times> mcp_authorization" where
  "revoke_bump a = (ma_revision a + 1, a\<lparr>ma_revision := ma_revision a + 1\<rparr>)"

definition revoke_sweep :: "u64 \<Rightarrow> mcp_authorization \<Rightarrow> mcp_authorization" where
  "revoke_sweep revision a =
     a\<lparr>ma_leases := filter (\<lambda>(r, t). r = revision \<and> is_strong a t) (ma_leases a),
       ma_cancelled := ma_cancelled a
         \<union> set (map snd (filter (\<lambda>(r, t). r \<noteq> revision \<and> is_strong a t) (ma_leases a))),
       ma_confirmations := cancel_before_revision revision (ma_confirmations a)\<rparr>"

definition revoke :: "mcp_authorization \<Rightarrow> u64 \<times> mcp_authorization" where
  "revoke a = (let (revision, a1) = revoke_bump a in (revision, revoke_sweep revision a1))"

definition auth_is_current :: "u64 \<Rightarrow> mcp_authorization \<Rightarrow> bool" where
  "auth_is_current revision a \<longleftrightarrow> ma_revision a = revision"

definition is_authorization_current :: "mcp_request_lease \<Rightarrow> mcp_authorization \<Rightarrow> bool" where
  "is_authorization_current l a \<longleftrightarrow> rl_token l \<notin> ma_cancelled a \<and> auth_is_current (rl_revision l) a"

definition lease_is_current :: "nat \<Rightarrow> mcp_request_lease \<Rightarrow> mcp_authorization \<Rightarrow> bool" where
  "lease_is_current now l a \<longleftrightarrow>
     is_authorization_current l a \<and> rl_token l \<notin> ma_request_cancelled a \<and> now < rl_deadline l"

definition set_request_deadline :: "nat \<Rightarrow> mcp_request_lease \<Rightarrow> mcp_request_lease" where
  "set_request_deadline deadline l = l\<lparr>rl_deadline := deadline\<rparr>"

text \<open>The clock is read twice: \<open>now\<close> for the deadline, \<open>later\<close> for the comparison.\<close>

definition confirmation_deadline :: "nat \<Rightarrow> nat \<Rightarrow> mcp_request_lease \<Rightarrow> nat option" where
  "confirmation_deadline now later l =
     (let deadline = min (rl_deadline l) (now + CONFIRMATION_TIMEOUT)
      in if deadline > later then Some deadline else None)"

definition cancel_request :: "mcp_request_lease \<Rightarrow> mcp_authorization \<Rightarrow> mcp_authorization" where
  "cancel_request l a = a\<lparr>ma_request_cancelled := insert (rl_token l) (ma_request_cancelled a)\<rparr>"

section \<open>The write policy and its permits\<close>

record mcp_write_policy_snapshot =
  ps_settings :: mcp_write_settings
  ps_revision :: u64

text \<open>The material for the screen's review that a permit may carry along is left out.\<close>

record mcp_write_permit =
  wp_auth_revision :: u64
  wp_policy_revision :: u64
  wp_generation :: u64
  wp_request_id :: u64
  wp_confirmed :: bool
  wp_operation :: mcp_write_operation

text \<open>The change of the policy under its lock; \<open>Inr (revision, True)\<close> is that a \<open>revoke\<close> follows.\<close>

definition change_policy ::
  "mcp_write_settings \<Rightarrow> mcp_authorization \<Rightarrow> (scope_error + u64 \<times> bool) \<times> mcp_authorization" where
  "change_policy settings a =
     (case settings_validate settings of
       Inl e \<Rightarrow> (Inl e, a)
     | Inr u \<Rightarrow>
         if ma_settings a = settings then (Inr (ma_policy_revision a, False), a)
         else (Inr (ma_policy_revision a + 1, True),
               a\<lparr>ma_settings := settings, ma_policy_revision := ma_policy_revision a + 1\<rparr>))"

definition set_write_settings ::
  "mcp_write_settings \<Rightarrow> mcp_authorization \<Rightarrow> (scope_error + u64) \<times> mcp_authorization" where
  "set_write_settings settings a =
     (case change_policy settings a of
       (Inl e, a1) \<Rightarrow> (Inl e, a1)
     | (Inr (revision, changed), a1) \<Rightarrow> (Inr revision, if changed then snd (revoke a1) else a1))"

definition write_policy_snapshot :: "mcp_authorization \<Rightarrow> mcp_write_policy_snapshot" where
  "write_policy_snapshot a = \<lparr>ps_settings = ma_settings a, ps_revision = ma_policy_revision a\<rparr>"

definition check_write_preflight ::
  "nat \<Rightarrow> mcp_request_lease \<Rightarrow> mcp_write_policy_snapshot \<Rightarrow> mcp_authorization \<Rightarrow> scope_error + unit" where
  "check_write_preflight now l snapshot a =
     (if \<not> lease_is_current now l a then Inl AuthorizationRevoked
      else if ps_revision (write_policy_snapshot a) \<noteq> ps_revision snapshot
        \<or> ps_settings (write_policy_snapshot a) \<noteq> ps_settings snapshot then Inl AuthorizationRevoked
      else if ws_mode (ps_settings snapshot) = ReadOnly_mode then Inl ReadOnly
      else Inr ())"

definition check_write_request ::
  "nat \<Rightarrow> mcp_request_lease \<Rightarrow> mcp_write_policy_snapshot \<Rightarrow> mcp_write_operation \<Rightarrow> mcp_authorization
    \<Rightarrow> scope_error + unit" where
  "check_write_request now l snapshot operation a =
     (if \<not> lease_is_current now l a then Inl AuthorizationRevoked
      else if ps_revision (write_policy_snapshot a) \<noteq> ps_revision snapshot
        \<or> ps_settings (write_policy_snapshot a) \<noteq> ps_settings snapshot then Inl AuthorizationRevoked
      else if ws_mode (ps_settings snapshot) = ReadOnly_mode then Inl ReadOnly
      else if ws_mode (ps_settings snapshot) = Confirm \<or> requires_confirmation operation
        then Inl ConfirmationRequired
      else Inr ())"

definition check_write_request_after_confirmation ::
  "nat \<Rightarrow> mcp_request_lease \<Rightarrow> mcp_write_policy_snapshot \<Rightarrow> mcp_write_operation \<Rightarrow> mcp_authorization
    \<Rightarrow> scope_error + unit" where
  "check_write_request_after_confirmation now l snapshot operation a =
     (if \<not> lease_is_current now l a then Inl AuthorizationRevoked
      else if ps_revision (write_policy_snapshot a) \<noteq> ps_revision snapshot
        \<or> ps_settings (write_policy_snapshot a) \<noteq> ps_settings snapshot then Inl AuthorizationRevoked
      else if ws_mode (ps_settings snapshot) = ReadOnly_mode then Inl ReadOnly
      else Inr ())"

definition issue_write_permit ::
  "nat \<Rightarrow> mcp_request_lease \<Rightarrow> mcp_write_policy_snapshot \<Rightarrow> u64 \<Rightarrow> mcp_write_operation \<Rightarrow> mcp_authorization
    \<Rightarrow> scope_error + mcp_write_permit" where
  "issue_write_permit now l snapshot generation operation a =
     bind_r (check_write_request now l snapshot operation a) (\<lambda>_.
       Inr \<lparr>wp_auth_revision = rl_revision l, wp_policy_revision = ps_revision snapshot,
            wp_generation = generation, wp_request_id = rl_request_id l, wp_confirmed = False,
            wp_operation = operation\<rparr>)"

definition issue_confirmed_write_permit ::
  "nat \<Rightarrow> mcp_request_lease \<Rightarrow> mcp_write_policy_snapshot \<Rightarrow> u64 \<Rightarrow> mcp_write_operation \<Rightarrow> mcp_authorization
    \<Rightarrow> scope_error + mcp_write_permit" where
  "issue_confirmed_write_permit now l snapshot generation operation a =
     bind_r (check_write_request_after_confirmation now l snapshot operation a) (\<lambda>_.
       Inr \<lparr>wp_auth_revision = rl_revision l, wp_policy_revision = ps_revision snapshot,
            wp_generation = generation, wp_request_id = rl_request_id l, wp_confirmed = True,
            wp_operation = operation\<rparr>)"

fun ensure_write_mode :: "mcp_write_mode \<Rightarrow> mcp_write_operation \<Rightarrow> bool \<Rightarrow> scope_error + unit" where
  "ensure_write_mode ReadOnly_mode operation confirmed = Inl ReadOnly"
| "ensure_write_mode Confirm operation confirmed =
     (if confirmed then Inr () else Inl ConfirmationRequired)"
| "ensure_write_mode Enabled operation confirmed =
     (if requires_confirmation operation \<and> \<not> confirmed then Inl ConfirmationRequired else Inr ())"

definition validate_write_permit ::
  "nat \<Rightarrow> mcp_write_permit \<Rightarrow> mcp_request_lease \<Rightarrow> u64 \<Rightarrow> mcp_write_operation \<Rightarrow> mcp_authorization
    \<Rightarrow> scope_error + unit" where
  "validate_write_permit now permit l generation operation a =
     (let current = write_policy_snapshot a
      in if \<not> lease_is_current now l a
          \<or> wp_auth_revision permit \<noteq> rl_revision l
          \<or> wp_policy_revision permit \<noteq> ps_revision current
          \<or> wp_generation permit \<noteq> generation
          \<or> wp_request_id permit \<noteq> rl_request_id l
          \<or> \<not> operation_eq (wp_operation permit) operation
         then Inl AuthorizationRevoked
         else ensure_write_mode (ws_mode (ps_settings current)) operation (wp_confirmed permit))"

section \<open>The token of the HTTP entry\<close>

text \<open>The stored token is compared with what its URL-safe Base64 decoder makes of the presented text.\<close>

definition TOKEN_SIZE :: nat where
  "TOKEN_SIZE = 32"

definition token_matches :: "(string \<Rightarrow> string option) \<Rightarrow> string \<Rightarrow> string \<Rightarrow> bool" where
  "token_matches decode token presented \<longleftrightarrow>
     (case decode presented of
       None \<Rightarrow> False
     | Some bytes \<Rightarrow> if length bytes \<noteq> TOKEN_SIZE then False else token = bytes)"

record mcp_http_auth =
  mt_token :: "string option"
  mt_authorization :: mcp_authorization

definition replace_token :: "string \<Rightarrow> mcp_http_auth \<Rightarrow> mcp_http_auth" where
  "replace_token token h =
     h\<lparr>mt_token := Some token, mt_authorization := snd (revoke (mt_authorization h))\<rparr>"

definition disable_token :: "mcp_http_auth \<Rightarrow> mcp_http_auth" where
  "disable_token h = h\<lparr>mt_token := None, mt_authorization := snd (revoke (mt_authorization h))\<rparr>"

definition authorize ::
  "(string \<Rightarrow> string option) \<Rightarrow> u64 \<Rightarrow> nat \<Rightarrow> string \<Rightarrow> mcp_http_auth \<Rightarrow> mcp_request_lease option \<times> mcp_http_auth" where
  "authorize decode loaded now presented h =
     (case mt_token h of
       None \<Rightarrow> (None, h)
     | Some token \<Rightarrow>
         if token_matches decode token presented
         then (let (l, a) = current_lease loaded now (mt_authorization h)
               in (Some l, h\<lparr>mt_authorization := a\<rparr>))
         else (None, h))"

end
