(* ===== verification/Mcp_Auth_Laws.thy ===== *)
theory Mcp_Auth_Laws
  imports Mcp_Auth "HOL-Library.Multiset"
begin

text \<open>
  Revocation, permits and confirmations: leases against concurrent revocations as a step relation,
  permits against changes of the settings, and the broker over arbitrary operations.
\<close>

section \<open>Leases and concurrent revocations\<close>

text \<open>
  The threads at work: one may be inside \<open>current_lease\<close> (it holds the lock of the leases and has
  loaded a revision), and any number have incremented the revision in \<open>revoke\<close> and still have to
  sweep the leases. Settings, cancelled requests, dropped leases and the confirmations change freely.
\<close>

record auth_world =
  aw_auth :: mcp_authorization
  aw_loading :: "u64 option"
  aw_sweeps :: "u64 list"
  aw_issued :: "mcp_request_lease list"

definition auth_init :: auth_world where
  "auth_init = \<lparr>aw_auth = authorization_default, aw_loading = None, aw_sweeps = [], aw_issued = []\<rparr>"

inductive auth_step :: "auth_world \<Rightarrow> auth_world \<Rightarrow> bool" where
  load: "aw_loading w = None \<Longrightarrow> auth_step w (w\<lparr>aw_loading := Some (ma_revision (aw_auth w))\<rparr>)"
| lease: "aw_loading w = Some r \<Longrightarrow> current_lease r now (aw_auth w) = (l, a) \<Longrightarrow>
    auth_step w (w\<lparr>aw_auth := a, aw_loading := None, aw_issued := l # aw_issued w\<rparr>)"
| bump: "revoke_bump (aw_auth w) = (r, a) \<Longrightarrow>
    auth_step w (w\<lparr>aw_auth := a, aw_sweeps := r # aw_sweeps w\<rparr>)"
| sweep: "aw_loading w = None \<Longrightarrow> r \<in> set (aw_sweeps w) \<Longrightarrow>
    auth_step w (w\<lparr>aw_auth := revoke_sweep r (aw_auth w), aw_sweeps := remove1 r (aw_sweeps w)\<rparr>)"
| policy: "auth_step w (w\<lparr>aw_auth := snd (change_policy s (aw_auth w))\<rparr>)"
| cancel: "auth_step w (w\<lparr>aw_auth := cancel_request l (aw_auth w)\<rparr>)"
| drop: "auth_step w (w\<lparr>aw_auth := aw_auth w\<lparr>ma_dropped := insert t (ma_dropped (aw_auth w))\<rparr>\<rparr>)"
| confirm: "auth_step w (w\<lparr>aw_auth := aw_auth w\<lparr>ma_confirmations := b\<rparr>\<rparr>)"

definition auth_reach :: "auth_world \<Rightarrow> bool" where
  "auth_reach w \<longleftrightarrow> auth_step\<^sup>*\<^sup>* auth_init w"

text \<open>A live lease is cancelled or registered, and one registered at another revision awaits a sweep.\<close>

definition leases_ok :: "auth_world \<Rightarrow> bool" where
  "leases_ok w \<longleftrightarrow>
     (\<forall>l\<in>set (aw_issued w). rl_token l \<in> ma_cancelled (aw_auth w) \<or> rl_token l \<in> ma_dropped (aw_auth w)
        \<or> (rl_revision l, rl_token l) \<in> set (ma_leases (aw_auth w)))
   \<and> (\<forall>(r, t)\<in>set (ma_leases (aw_auth w)). r = ma_revision (aw_auth w) \<or> (\<exists>q\<in>set (aw_sweeps w). q \<noteq> r))"

lemma change_policy_frame [frame]:
  "ma_leases (snd (change_policy s a)) = ma_leases a" "ma_revision (snd (change_policy s a)) = ma_revision a"
  "ma_cancelled (snd (change_policy s a)) = ma_cancelled a" "ma_dropped (snd (change_policy s a)) = ma_dropped a"
  by (auto simp: change_policy_def split: sum.splits)

lemma leases_ok_lease:
  assumes "leases_ok w" "current_lease r now (aw_auth w) = (l, a)"
  shows "leases_ok (w\<lparr>aw_auth := a, aw_loading := None, aw_issued := l # aw_issued w\<rparr>)"
  using assms
  by (fastforce simp: leases_ok_def current_lease_def is_strong_def Let_def split: if_splits)

lemma leases_ok_sweep:
  assumes "leases_ok w" "r \<in> set (aw_sweeps w)"
  shows "leases_ok (w\<lparr>aw_auth := revoke_sweep r (aw_auth w), aw_sweeps := remove1 r (aw_sweeps w)\<rparr>)"
proof -
  have "q \<in> set (remove1 r (aw_sweeps w))" if "q \<in> set (aw_sweeps w)" "q \<noteq> r" for q using that by simp
  with assms show ?thesis
    by (fastforce simp: leases_ok_def revoke_sweep_def is_strong_def image_iff)
qed

lemma leases_ok_step: "auth_step w w' \<Longrightarrow> leases_ok w \<Longrightarrow> leases_ok w'"
proof (induction rule: auth_step.induct)
  case (lease w r now l a)
  then show ?case by (intro leases_ok_lease)
next
  case (bump w r a)
  then show ?case by (fastforce simp: leases_ok_def revoke_bump_def)
next
  case (sweep w r)
  then show ?case by (intro leases_ok_sweep)
qed (auto simp: leases_ok_def frame cancel_request_def)

lemma leases_ok_reach: "auth_reach w \<Longrightarrow> leases_ok w"
  unfolding auth_reach_def
proof (induction rule: rtranclp_induct)
  case base
  show ?case by (simp add: leases_ok_def auth_init_def authorization_default_def)
next
  case (step w w')
  then show ?case using leases_ok_step by blast
qed

text \<open>C23: No lease survives a revocation: whatever threads issue and revoke leases at the same time, once every
  revocation that has begun is over, a live lease of another revision than the current one is cancelled, so
  the work of its request is told to stop and not only refused later.\<close>

theorem revocation_is_complete:
  assumes "auth_reach w" "aw_sweeps w = []" "l \<in> set (aw_issued w)" "rl_token l \<notin> ma_dropped (aw_auth w)"
    and "rl_revision l \<noteq> ma_revision (aw_auth w)"
  shows "rl_token l \<in> ma_cancelled (aw_auth w) \<and> \<not> lease_is_current now l (aw_auth w)"
  using leases_ok_reach [OF assms(1)] assms(2-)
  by (auto simp: leases_ok_def lease_is_current_def is_authorization_current_def)

definition lease_of :: "u64 \<Rightarrow> nat \<Rightarrow> mcp_request_lease" where
  "lease_of r t = \<lparr>rl_revision = r, rl_request_id = of_nat t + 1, rl_token = t, rl_deadline = WRITE_REQUEST_TIMEOUT\<rparr>"

lemma reach_step: "auth_reach w \<Longrightarrow> auth_step w w' \<Longrightarrow> auth_reach w'"
  by (simp add: auth_reach_def)

lemma reach_issue:
  assumes "auth_reach w" "aw_loading w = None"
  shows "auth_reach (w\<lparr>aw_auth := snd (current_lease (ma_revision (aw_auth w)) 0 (aw_auth w)), aw_loading := None,
    aw_issued := fst (current_lease (ma_revision (aw_auth w)) 0 (aw_auth w)) # aw_issued w\<rparr>)"
proof -
  let ?r = "ma_revision (aw_auth w)"
  let ?w = "w\<lparr>aw_loading := Some ?r\<rparr>"
  have one: "auth_reach ?w" using assms by (auto intro: reach_step auth_step.load)
  have "auth_step ?w (?w\<lparr>aw_auth := snd (current_lease ?r 0 (aw_auth ?w)), aw_loading := None,
      aw_issued := fst (current_lease ?r 0 (aw_auth ?w)) # aw_issued ?w\<rparr>)"
    by (rule auth_step.lease [where r = ?r and now = 0]) simp_all
  from reach_step [OF one this] show ?thesis by simp
qed

lemma reach_bump:
  "auth_reach w \<Longrightarrow> auth_reach (w\<lparr>aw_auth := aw_auth w\<lparr>ma_revision := ma_revision (aw_auth w) + 1\<rparr>,
    aw_sweeps := (ma_revision (aw_auth w) + 1) # aw_sweeps w\<rparr>)"
  by (rule reach_step, assumption, rule auth_step.bump) (simp add: revoke_bump_def)

lemma reach_sweep:
  "auth_reach w \<Longrightarrow> aw_loading w = None \<Longrightarrow> r \<in> set (aw_sweeps w) \<Longrightarrow>
    auth_reach (w\<lparr>aw_auth := revoke_sweep r (aw_auth w), aw_sweeps := remove1 r (aw_sweeps w)\<rparr>)"
  by (rule reach_step, assumption, rule auth_step.sweep)

lemma auth_reach_init [simp]: "auth_reach auth_init"
  by (simp add: auth_reach_def)

lemma revocation_is_complete_witness:
  "\<exists>w. auth_reach w \<and> aw_sweeps w = [] \<and> rl_token (lease_of 1 0) \<in> ma_cancelled (aw_auth w)
     \<and> \<not> lease_is_current 5 (lease_of 1 0) (aw_auth w)"
proof -
  note run = reach_sweep [OF reach_bump [OF reach_issue [OF auth_reach_init]], of 2]
  obtain w where w: "auth_reach w" "aw_sweeps w = []" "lease_of 1 0 \<in> set (aw_issued w)"
    "rl_token (lease_of 1 0) \<notin> ma_dropped (aw_auth w)" "rl_revision (lease_of 1 0) \<noteq> ma_revision (aw_auth w)"
    using run by (force simp: auth_init_def authorization_default_def current_lease_def lease_of_def revoke_sweep_def
        cancel_before_revision_def is_strong_def Let_def)
  from revocation_is_complete [OF w, of 5] w(1,2) show ?thesis by blast
qed

text \<open>
  A revocation that sweeps late cancels more than it should: two revocations begin, the second one
  sweeps and a new lease is issued, and then the sweep of the first one cancels the new lease.
\<close>

lemma late_sweep_cancels_current_lease:
  "\<exists>w. auth_reach w \<and> lease_of 3 0 \<in> set (aw_issued w) \<and> auth_is_current 3 (aw_auth w)
     \<and> rl_token (lease_of 3 0) \<in> ma_cancelled (aw_auth w)"
proof -
  note two = reach_bump [OF reach_bump [OF auth_reach_init]]
  note swept = reach_sweep [OF two, of 3]
  note issued = reach_issue [OF swept]
  note late = reach_sweep [OF issued, of 2]
  show ?thesis
    using late by (force simp: auth_init_def authorization_default_def current_lease_def lease_of_def revoke_sweep_def
        cancel_before_revision_def is_strong_def auth_is_current_def Let_def)
qed

section \<open>Permits\<close>

lemma lease_current_revision: "lease_is_current now l a \<Longrightarrow> rl_revision l = ma_revision a"
  by (simp add: lease_is_current_def is_authorization_current_def auth_is_current_def)

text \<open>A permit issued without the screen runs only what needs no confirmation: if it is accepted at any later time,
  then for the very request and operation and the very connection it was issued for, while the lease is current,
  the mode is enabled, and the operation deletes nothing.\<close>

lemma unconfirmed_permit_is_harmless:
  assumes "issue_write_permit now l snapshot generation operation a = Inr permit"
    and "validate_write_permit now' permit l' generation' operation' a' = Inr ()"
  shows "operation_eq operation operation' \<and> generation' = generation \<and> rl_request_id l' = rl_request_id l
    \<and> rl_revision l' = rl_revision l \<and> lease_is_current now' l' a'
    \<and> ws_mode (ma_settings a') = Enabled \<and> \<not> requires_confirmation operation'"
  using assms
  by (cases "ws_mode (ma_settings a')")
     (auto simp: issue_write_permit_def validate_write_permit_def check_write_request_def write_policy_snapshot_def
       Let_def split: if_splits)

definition enabled_policy :: mcp_write_settings where
  "enabled_policy = \<lparr>ws_mode = Enabled, ws_scene_root_id = None\<rparr>"

definition enabled_auth :: mcp_authorization where
  "enabled_auth = snd (set_write_settings enabled_policy authorization_default)"

lemma enabled_auth_fields:
  "ma_settings enabled_auth = enabled_policy" "ma_revision enabled_auth = 2" "ma_cancelled enabled_auth = {}"
  "ma_request_cancelled enabled_auth = {}" "ma_policy_revision enabled_auth = 2"
  by (simp_all add: enabled_auth_def set_write_settings_def change_policy_def settings_validate_def enabled_policy_def
      authorization_default_def settings_default_def revoke_def revoke_bump_def revoke_sweep_def Let_def)

text \<open>The settings applied one after the other, and how many of them changed anything.\<close>

fun apply_settings :: "mcp_write_settings list \<Rightarrow> mcp_authorization \<Rightarrow> nat \<times> mcp_authorization" where
  "apply_settings [] a = (0, a)"
| "apply_settings (s # ss) a =
     (let (n, a') = apply_settings ss (snd (set_write_settings s a))
      in ((if settings_validate s = Inr () \<and> ma_settings a \<noteq> s then Suc n else n), a'))"

lemma set_write_settings_revisions:
  "ma_policy_revision (snd (set_write_settings s a))
    = (if settings_validate s = Inr () \<and> ma_settings a \<noteq> s then ma_policy_revision a + 1 else ma_policy_revision a)"
  by (auto simp: set_write_settings_def change_policy_def revoke_def revoke_bump_def revoke_sweep_def Let_def
      split: sum.splits)

lemma apply_settings_revision:
  "apply_settings ss a = (n, a') \<Longrightarrow> ma_policy_revision a' = ma_policy_revision a + of_nat n"
  by (induction ss arbitrary: a n)
     (auto simp: Let_def set_write_settings_revisions algebra_simps split: prod.splits if_splits)

text \<open>A change of the settings kills every permit issued before it, even if the old settings come back: after any
  settings of which at least one and fewer than 2^64 changed something, no permit issued before is accepted,
  whatever the lease.\<close>

lemma permit_dies_with_settings:
  assumes "issue_write_permit now l snapshot generation operation a = Inr permit
      \<or> issue_confirmed_write_permit now l snapshot generation operation a = Inr permit"
    and "apply_settings ss a = (n, a')" "0 < n" "n < 2 ^ 64"
  shows "validate_write_permit now' permit l' generation' operation' a' = Inl AuthorizationRevoked"
proof -
  have "wp_policy_revision permit = ma_policy_revision a"
    using assms(1) by (auto simp: issue_write_permit_def issue_confirmed_write_permit_def check_write_request_def
        check_write_request_after_confirmation_def write_policy_snapshot_def split: if_splits)
  moreover have "(of_nat n :: u64) \<noteq> 0" using assms(3,4) by (simp add: word_of_nat_eq_0_iff nat_dvd_not_less)
  ultimately have "wp_policy_revision permit \<noteq> ma_policy_revision a'"
    using apply_settings_revision [OF assms(2)] by simp
  then show ?thesis by (simp add: validate_write_permit_def write_policy_snapshot_def Let_def)
qed

section \<open>Confirmations\<close>

datatype broker_op =
    Register "nat option" bool "string option" u64 mcp_confirmation_request
  | Select bool bool bool bool string
  | Remove string
  | Decide string bool
  | Cancel_before u64

text \<open>Beside the broker a run keeps what the user was told to have decided (\<open>decide\<close> returned true), by registration.\<close>

fun broker_step ::
  "broker_op \<Rightarrow> confirmation_broker \<times> (string \<Rightarrow> bool option) \<Rightarrow> confirmation_broker \<times> (string \<Rightarrow> bool option)" where
  "broker_step (Register d c i r q) (b, g) =
     (case broker_register d c i r q b of
       (Inl e, b') \<Rightarrow> (b', g)
     | (Inr j, b') \<Rightarrow> (b', g(j := None)))"
| "broker_step (Select a r t c i) (b, g) = (snd (broker_select a r t c i b), g)"
| "broker_step (Remove i) (b, g) = (broker_remove i b, g)"
| "broker_step (Decide i v) (b, g) = (let (ok, b') = decide i v b in (b', if ok then g(i \<mapsto> v) else g))"
| "broker_step (Cancel_before r) (b, g) = (cancel_before_revision r b, g)"

definition broker_run :: "broker_op list \<Rightarrow> confirmation_broker \<times> (string \<Rightarrow> bool option)" where
  "broker_run ops = fold broker_step ops (broker_default, \<lambda>i. None)"

definition broker_ok :: "confirmation_broker \<times> (string \<Rightarrow> bool option) \<Rightarrow> bool" where
  "broker_ok p \<longleftrightarrow> (case p of (b, g) \<Rightarrow>
     hm_ok (cb_requests b) \<and> length (cb_requests b) \<le> MAX_PENDING_CONFIRMATIONS
   \<and> cb_updates b = sort_key cf_expires_at (broker_pending b)
   \<and> (\<forall>i p. hm_get (cb_requests b) i = Some p \<longrightarrow> cf_id (pc_request p) = i \<and> hm_get (cb_results b) i = None \<and> g i = None)
   \<and> (\<forall>i v. hm_get (cb_results b) i = Some (Some v) \<longrightarrow> g i = Some v))"

lemma publish_fields [simp]:
  "cb_requests (publish_locked b) = cb_requests b" "cb_results (publish_locked b) = cb_results b"
  "cb_waiting (publish_locked b) = cb_waiting b"
  "cb_updates (publish_locked b) = sort_key cf_expires_at (broker_pending b)"
  by (simp_all add: publish_locked_def broker_pending_def)

lemma drop_sender_fields [simp]:
  "cb_requests (drop_sender i b) = cb_requests b" "cb_waiting (drop_sender i b) = cb_waiting b"
  "cb_updates (drop_sender i b) = cb_updates b" "cb_results (drop_sender i b) = hm_insert i None (cb_results b)"
  "broker_pending (drop_sender i b) = broker_pending b"
  by (simp_all add: drop_sender_def broker_pending_def)

lemma drop_senders:
  "cb_requests (fold (drop_sender \<circ> fst) ps b) = cb_requests b"
  "cb_updates (fold (drop_sender \<circ> fst) ps b) = cb_updates b"
  "hm_get (cb_results (fold (drop_sender \<circ> fst) ps b)) i
    = (if i \<in> fst ` set ps then Some None else hm_get (cb_results b) i)"
  by (induction ps arbitrary: b) (auto simp: hm_get_insert)

lemma pending_requests [simp]: "broker_pending b' = map (pc_request \<circ> snd) (cb_requests b')"
  by (simp add: broker_pending_def)

lemma broker_ok_register:
  assumes "broker_ok (b, g)"
  shows "broker_ok (broker_step (Register d c i r q) (b, g))"
proof (cases "broker_register d c i r q b")
  case (Pair res b')
  show ?thesis
  proof (cases res)
    case (Inl e)
    with Pair have "b' = b" by (auto simp: broker_register_def split: option.splits if_splits)
    with assms Pair Inl show ?thesis by simp
  next
    case (Inr j)
    with Pair have b': "length (cb_requests b) < MAX_PENDING_CONFIRMATIONS"
      "b' = publish_locked (b\<lparr>cb_requests := hm_insert j \<lparr>pc_request = q\<lparr>cf_id := j\<rparr>, pc_auth_revision = r\<rparr> (cb_requests b),
         cb_results := hm_remove j (cb_results b), cb_waiting := insert j (cb_waiting b)\<rparr>)"
      by (auto simp: broker_register_def split: option.splits if_splits)
    have "length (hm_insert j v m) \<le> Suc (length m)" for v and m :: "(string, pending_confirmation) hash_map"
      by (induction m) auto
    with b'(1) have "length (hm_insert j v (cb_requests b)) \<le> MAX_PENDING_CONFIRMATIONS" for v
      using order_trans Suc_leI by metis
    with assms Pair Inr b'(2) show ?thesis
      by (auto simp: broker_ok_def hm_get_insert hm_get_remove)
  qed
qed

lemma broker_ok_gone:
  assumes "broker_ok (b, g)" "hm_get (cb_requests b) i = Some p"
  shows "broker_ok (publish_locked (b\<lparr>cb_requests := hm_remove i (cb_requests b)\<rparr>), g)"
    and "broker_ok (drop_sender i (publish_locked (b\<lparr>cb_requests := hm_remove i (cb_requests b)\<rparr>)), g)"
    and "broker_ok (publish_locked (b\<lparr>cb_requests := hm_remove i (cb_requests b)\<rparr>)
      \<lparr>cb_results := hm_insert i (Some v) (cb_results b)\<rparr>, g(i \<mapsto> v))"
  using assms hm_length_remove_le [of i "cb_requests b"]
  by (auto simp: broker_ok_def hm_get_remove hm_get_insert intro: order_trans)

lemma broker_ok_cancel:
  assumes "broker_ok (b, g)"
  shows "broker_ok (cancel_before_revision r b, g)"
proof -
  let ?keep = "\<lambda>(i, p). r \<le> pc_auth_revision p"
  let ?gone = "fst ` set (filter (\<lambda>(i, p). \<not> r \<le> pc_auth_revision p) (cb_requests b))"
  define c where "c = cancel_before_revision r b"
  have ok: "hm_ok (cb_requests b)" "length (cb_requests b) \<le> MAX_PENDING_CONFIRMATIONS"
    "\<And>i p. hm_get (cb_requests b) i = Some p \<Longrightarrow> cf_id (pc_request p) = i \<and> hm_get (cb_results b) i = None \<and> g i = None"
    "\<And>i v. hm_get (cb_results b) i = Some (Some v) \<Longrightarrow> g i = Some v"
    using assms by (simp_all add: broker_ok_def)
  have c: "cb_requests c = filter ?keep (cb_requests b)" "cb_updates c = sort_key cf_expires_at (broker_pending c)"
    "\<And>i. hm_get (cb_results c) i = (if i \<in> ?gone then Some None else hm_get (cb_results b) i)"
    by (simp_all add: c_def cancel_before_revision_def Let_def drop_senders del: set_filter)
  have kept: "hm_get (cb_requests b) i = Some p \<and> i \<notin> ?gone" if "hm_get (cb_requests c) i = Some p" for i p
  proof -
    have "(i, p) \<in> set (cb_requests b)" "r \<le> pc_auth_revision p" using map_of_SomeD [OF that] c(1) by auto
    then show ?thesis using ok(1) by (auto simp: hm_get_in_set)
  qed
  have "length (cb_requests c) \<le> MAX_PENDING_CONFIRMATIONS"
    unfolding c(1) by (rule order_trans [OF length_filter_le ok(2)])
  moreover have "hm_ok (cb_requests c)" using ok(1) c(1) by simp
  moreover have "cf_id (pc_request p) = i \<and> hm_get (cb_results c) i = None \<and> g i = None"
    if "hm_get (cb_requests c) i = Some p" for i p
    using kept [OF that] ok(3) [of i p] c(3) [of i] by simp
  moreover have "g i = Some v" if "hm_get (cb_results c) i = Some (Some v)" for i v
    using that ok(4) [of i v] c(3) [of i] by (simp split: if_splits)
  ultimately show ?thesis using c(2) unfolding broker_ok_def c_def prod.case by blast
qed

lemma broker_ok_step: "broker_ok p \<Longrightarrow> broker_ok (broker_step op p)"
proof (induction op p rule: broker_step.induct)
  case (1 d c i r q b g)
  then show ?case by (rule broker_ok_register)
next
  case (2 a r t c i b g)
  then show ?case by (auto simp: broker_ok_def broker_select_def split: option.splits)
next
  case (3 i b g)
  then show ?case using broker_ok_gone(2) by (auto simp: broker_remove_def split: option.splits)
next
  case (4 i v b g)
  then show ?case using broker_ok_gone by (auto simp: decide_def Let_def split: option.splits)
next
  case (5 r b g)
  then show ?case by (simp add: broker_ok_cancel)
qed

lemma broker_ok_run: "broker_ok (broker_run ops)"
proof -
  have "broker_ok p \<Longrightarrow> broker_ok (fold broker_step ops p)" for p
    using broker_ok_step by (induction ops arbitrary: p) auto
  then show ?thesis by (simp add: broker_run_def broker_ok_def broker_default_def)
qed

text \<open>The confirmations on the screen are the pending ones: after any operations at most 16 requests are pending
  under distinct ids, and the list last sent to the screen is exactly the pending requests by expiry.\<close>

lemma screen_shows_pending:
  assumes "broker_run ops = (b, g)"
  shows "length (cb_requests b) \<le> 16 \<and> distinct (map fst (cb_requests b))
    \<and> mset (cb_updates b) = mset (broker_pending b) \<and> sorted (map cf_expires_at (cb_updates b))
    \<and> map cf_id (broker_pending b) = map fst (cb_requests b)"
proof -
  have ok: "broker_ok (b, g)" using broker_ok_run [of ops] assms by simp
  then have "cf_id (pc_request p) = i" if "(i, p) \<in> set (cb_requests b)" for i p
    using that by (auto simp: broker_ok_def hm_get_in_set)
  then have "map cf_id (broker_pending b) = map fst (cb_requests b)" by auto
  with ok show ?thesis by (simp add: broker_ok_def hm_ok_def MAX_PENDING_CONFIRMATIONS_def del: pending_requests)
qed

text \<open>An approval is the user's and is used once: a request ends approved only if the user was told so for its
  registration and nothing cancelled it first, and once decided it can be decided no more.\<close>

lemma approval_is_the_users:
  assumes "broker_run ops = (b, g)" "fst (broker_select a r t c i b) = Some Approved"
  shows "g i = Some True \<and> \<not> a \<and> \<not> r \<and> \<not> t \<and> \<not> c \<and> fst (approve i b) = False \<and> fst (reject i b) = False"
proof -
  have ok: "broker_ok (b, g)" using broker_ok_run [of ops] assms(1) by simp
  have sel: "\<not> a \<and> \<not> r \<and> \<not> t \<and> \<not> c \<and> hm_get (cb_results b) i = Some (Some True)"
    using assms(2) by (auto simp: broker_select_def select_outcome_def split: option.splits bool.splits if_splits)
  then have "g i = Some True" using ok by (simp add: broker_ok_def)
  moreover from this have "hm_get (cb_requests b) i = None"
    using ok by (cases "hm_get (cb_requests b) i") (auto simp: broker_ok_def)
  ultimately show ?thesis using sel by (simp add: approve_def reject_def decide_def)
qed

definition demo_request :: mcp_confirmation_request where
  "demo_request = \<lparr>cf_id = [], cf_tool_name = ''t'', cf_method = ''scene.deleteObject'', cf_target_ids = [''a''],
     cf_target_count = 1, cf_before = None, cf_after = None, cf_source = None, cf_undo_available = False,
     cf_clears_history = True, cf_history_generation = None, cf_history_revision = 0, cf_undo_head_id = None,
     cf_expires_at = 9\<rparr>"

definition demo_approval :: "broker_op list" where
  "demo_approval = [Register (Some 9) True (Some ''x'') 1 demo_request, Decide ''x'' True]"

end
