(* ===== verification/Tool_Catalog.thy ===== *)
theory Tool_Catalog
  imports Scope
begin

text \<open>
  \<open>src-tauri/src/mcp/tool_catalog.rs\<close> and the list of implemented writes of \<open>mcp/writes.rs\<close>: the
  tools and what exposes them, the check of a call, and the schemas with their references made
  local. Titles and descriptions for people are left out of the table. The texts of the embedded
  schemas, parsed, are the argument \<open>source\<close>; the validator of the schema library is \<open>valid\<close>.
\<close>

section \<open>The tools\<close>

datatype write_permission = Perm_read_only | Perm_enabled | Perm_confirm

datatype tool_access = Read_access | Write_access

text \<open>A bridge schema is named by its method, a custom one by its constant or, where it stands in the
  table itself, by its tool.\<close>

datatype schema_source = Bridge_schema string | Custom_schema string

record tool_spec =
  ts_name :: string
  ts_access :: tool_access
  ts_capabilities :: "string list"
  ts_input :: schema_source
  ts_bridge_method :: "string option"
  ts_bridge_write :: bool
  ts_destructive :: bool

definition bridge_tool :: "string \<Rightarrow> string \<Rightarrow> tool_access \<Rightarrow> string list \<Rightarrow> bool \<Rightarrow> tool_spec" where
  "bridge_tool name meth acc caps destructive =
     \<lparr>ts_name = name, ts_access = acc, ts_capabilities = caps, ts_input = Bridge_schema meth,
      ts_bridge_method = Some meth, ts_bridge_write = (acc = Write_access), ts_destructive = destructive\<rparr>"

definition custom_tool :: "string \<Rightarrow> tool_access \<Rightarrow> string list \<Rightarrow> string \<Rightarrow> tool_spec" where
  "custom_tool name acc caps schema =
     \<lparr>ts_name = name, ts_access = acc, ts_capabilities = caps, ts_input = Custom_schema schema,
      ts_bridge_method = None, ts_bridge_write = False, ts_destructive = False\<rparr>"

definition tool_specs :: "tool_spec list" where
  "tool_specs =
     [bridge_tool ''engine_get_status'' ''engine.getStatus'' Read_access [] False,
      custom_tool ''viewport_get_thumbnail'' Read_access [''viewport.thumbnail''] ''EMPTY_INPUT_SCHEMA'',
      custom_tool ''bridge_get_capabilities'' Read_access [] ''SIMPLE_PAGE_SCHEMA'',
      custom_tool ''scene_get_tree'' Read_access [''scene.query''] ''TREE_PAGE_SCHEMA'',
      custom_tool ''scene_get_tree_page'' Read_access [''scene.query''] ''TREE_PAGE_SCHEMA'',
      custom_tool ''object_get_snapshot'' Read_access [''object.query''] ''SNAPSHOT_PAGE_SCHEMA'',
      custom_tool ''schema_get_snapshot'' Read_access [''object.query''] ''SIMPLE_PAGE_SCHEMA'',
      custom_tool ''asset_get_manifest'' Read_access [''asset.read''] ''ASSET_MANIFEST_PAGE_SCHEMA'',
      bridge_tool ''asset_resolve'' ''asset.resolve'' Read_access [''asset.read''] False,
      custom_tool ''logs_get_recent'' Read_access [] ''LOGS_PAGE_SCHEMA'',
      bridge_tool ''object_set_property'' ''object.setProperty'' Write_access
        [''object.edit'', ''object.query'', ''scene.query''] False,
      bridge_tool ''scene_create_object'' ''scene.createObject'' Write_access [''scene.edit'', ''scene.query''] False,
      bridge_tool ''scene_delete_object'' ''scene.deleteObject'' Write_access [''scene.edit'', ''scene.query''] True,
      bridge_tool ''scene_reparent_object'' ''scene.reparentObject'' Write_access [''scene.edit'', ''scene.query''] False,
      bridge_tool ''scene_duplicate_object'' ''scene.duplicateObject'' Write_access
        [''scene.edit'', ''scene.query''] False,
      bridge_tool ''component_add'' ''component.add'' Write_access
        [''component.edit'', ''object.query'', ''scene.query''] False,
      bridge_tool ''component_remove'' ''component.remove'' Write_access
        [''component.edit'', ''object.query'', ''scene.query''] True,
      bridge_tool ''runtime_play'' ''runtime.play'' Write_access [''runtime.control''] False,
      bridge_tool ''runtime_pause'' ''runtime.pause'' Write_access [''runtime.control''] False,
      bridge_tool ''runtime_stop'' ''runtime.stop'' Write_access [''runtime.control''] False,
      custom_tool ''edit_undo'' Write_access [''scene.query''] ''EMPTY_INPUT_SCHEMA'',
      custom_tool ''edit_redo'' Write_access [''scene.query''] ''EMPTY_INPUT_SCHEMA'',
      custom_tool ''edit_begin_group'' Write_access [''object.edit'', ''scene.edit'', ''component.edit''] ''edit_begin_group'',
      custom_tool ''edit_end_group'' Write_access [''object.edit'', ''scene.edit'', ''component.edit''] ''edit_end_group'']"

definition is_write_tool_name :: "string \<Rightarrow> bool" where
  "is_write_tool_name name \<longleftrightarrow> list_ex (\<lambda>s. ts_name s = name \<and> ts_access s = Write_access) tool_specs"

definition is_implemented_write :: "string \<Rightarrow> bool" where
  "is_implemented_write name \<longleftrightarrow>
     name \<in> {''object_set_property'', ''scene_create_object'', ''scene_duplicate_object'', ''scene_reparent_object'',
       ''scene_delete_object'', ''component_add'', ''component_remove'', ''edit_undo'', ''edit_redo'',
       ''edit_begin_group'', ''edit_end_group'', ''runtime_play'', ''runtime_pause'', ''runtime_stop''}"

section \<open>The catalog\<close>

record catalog_state =
  ct_generation :: "u64 option"
  ct_capabilities :: "string set"
  ct_permission :: write_permission
  ct_write_handlers_ready :: bool

text \<open>The state with the revision of the watch channel.\<close>

record mcp_tool_catalog =
  tc_state :: catalog_state
  tc_revision :: u64

definition catalog_default :: mcp_tool_catalog where
  "catalog_default = \<lparr>tc_state = \<lparr>ct_generation = None, ct_capabilities = {}, ct_permission = Perm_read_only,
     ct_write_handlers_ready = False\<rparr>, tc_revision = 0\<rparr>"

definition notify_changed :: "mcp_tool_catalog \<Rightarrow> mcp_tool_catalog" where
  "notify_changed c = c\<lparr>tc_revision := tc_revision c + 1\<rparr>"

definition set_connection :: "u64 option \<Rightarrow> capability_descriptor list \<Rightarrow> mcp_tool_catalog \<Rightarrow> mcp_tool_catalog" where
  "set_connection generation capabilities c =
     (let next_state = \<lparr>ct_generation = generation,
            ct_capabilities = set (map (\<lambda>d. capability_token_str (cd_name d)) capabilities),
            ct_permission = ct_permission (tc_state c),
            ct_write_handlers_ready = ct_write_handlers_ready (tc_state c)\<rparr>
      in if tc_state c = next_state then c else notify_changed (c\<lparr>tc_state := next_state\<rparr>))"

definition set_write_permission :: "write_permission \<Rightarrow> mcp_tool_catalog \<Rightarrow> mcp_tool_catalog" where
  "set_write_permission permission c =
     (if ct_permission (tc_state c) = permission then c
      else notify_changed (c\<lparr>tc_state := tc_state c\<lparr>ct_permission := permission\<rparr>\<rparr>))"

definition set_write_handlers_ready :: "bool \<Rightarrow> mcp_tool_catalog \<Rightarrow> mcp_tool_catalog" where
  "set_write_handlers_ready ready c =
     (if ct_write_handlers_ready (tc_state c) = ready then c
      else notify_changed (c\<lparr>tc_state := tc_state c\<lparr>ct_write_handlers_ready := ready\<rparr>\<rparr>))"

definition current_generation :: "mcp_tool_catalog \<Rightarrow> u64 option" where
  "current_generation c = ct_generation (tc_state c)"

definition has_capabilities :: "u64 \<Rightarrow> string list \<Rightarrow> mcp_tool_catalog \<Rightarrow> bool" where
  "has_capabilities generation required c \<longleftrightarrow>
     ct_generation (tc_state c) = Some generation \<and> list_all (\<lambda>r. r \<in> ct_capabilities (tc_state c)) required"

definition is_exposed :: "tool_spec \<Rightarrow> catalog_state \<Rightarrow> bool" where
  "is_exposed s st \<longleftrightarrow>
     ct_generation st \<noteq> None
   \<and> (ts_access s = Read_access \<or> is_implemented_write (ts_name s))
   \<and> list_all (\<lambda>r. r \<in> ct_capabilities st) (ts_capabilities s)
   \<and> (ts_access s = Read_access \<or> (ct_permission st \<noteq> Perm_read_only \<and> ct_write_handlers_ready st))"

section \<open>Schemas\<close>

definition COMMON_SCHEMA_ID :: string where
  "COMMON_SCHEMA_ID = ''https://norveseditor.dev/bridge/spec/schema/common.schema.json''"

datatype schema_error =
    No_common | No_defs | Root_not_object | Defs_not_object | Ref_not_string | Foreign_ref | Unreadable

fun strip_prefix :: "string \<Rightarrow> string \<Rightarrow> string option" where
  "strip_prefix [] s = Some s"
| "strip_prefix (p # ps) [] = None"
| "strip_prefix (p # ps) (c # cs) = (if p = c then strip_prefix ps cs else None)"

definition starts_with :: "string \<Rightarrow> string \<Rightarrow> bool" where
  "starts_with p s \<longleftrightarrow> strip_prefix p s \<noteq> None"

text \<open>The reference of an object, made local; the map of the library keeps the place of a key it replaces.\<close>

definition rewrite_reference :: "json_map \<Rightarrow> schema_error + json_map" where
  "rewrite_reference m =
     (case map_of m ''$ref'' of
       None \<Rightarrow> Inr m
     | Some (JString r) \<Rightarrow>
         (case strip_prefix COMMON_SCHEMA_ID r of
           Some fragment \<Rightarrow>
             Inr (hm_insert ''$ref''
               (JString (if starts_with ''#'' fragment then fragment else ''#'' @ fragment)) m)
         | None \<Rightarrow> if starts_with ''#'' r then Inr m else Inl Foreign_ref)
     | Some v \<Rightarrow> Inl Ref_not_string)"

lemma size_update_json:
  "map_of m k = Some w \<Longrightarrow> size v \<le> size w \<Longrightarrow>
    size_list (size_prod (\<lambda>_. 0) size) (hm_insert k v m) \<le> size_list (size_prod (\<lambda>_. 0) size) (m :: json_map)"
  by (induction m) (auto split: if_splits)

lemma rewrite_reference_size:
  "rewrite_reference m = Inr m' \<Longrightarrow>
    size_list (size_prod (\<lambda>_. 0) size) m' \<le> size_list (size_prod (\<lambda>_. 0) size) (m :: json_map)"
  by (auto simp: rewrite_reference_def intro!: size_update_json split: option.splits json.splits if_splits)

fun each_item :: "('a \<Rightarrow> 'e + 'b) \<Rightarrow> 'a list \<Rightarrow> 'e + 'b list" where
  "each_item f [] = Inr []"
| "each_item f (x # xs) = bind_r (f x) (\<lambda>y. bind_r (each_item f xs) (\<lambda>ys. Inr (y # ys)))"

lemma each_item_cong [fundef_cong]:
  "xs = ys \<Longrightarrow> (\<And>x. x \<in> set ys \<Longrightarrow> f x = g x) \<Longrightarrow> each_item f xs = each_item g ys"
  by (induction ys arbitrary: xs) auto

lemma bind_r_cong [fundef_cong]:
  "r = r' \<Longrightarrow> (\<And>a. r' = Inr a \<Longrightarrow> f a = g a) \<Longrightarrow> bind_r r f = bind_r r' g"
  by (cases r') auto

lemma size_field_less: "p \<in> set m \<Longrightarrow> size (snd p) < Suc (size_list (size_prod (\<lambda>_. 0) size) (m :: json_map))"
  by (cases p) (auto dest: size_json_field)

function rewrite_embedded_references :: "json \<Rightarrow> schema_error + json" where
  "rewrite_embedded_references v =
     (case v of
       JArray items \<Rightarrow> bind_r (each_item rewrite_embedded_references items) (\<lambda>xs. Inr (JArray xs))
     | JObject m \<Rightarrow>
         bind_r (rewrite_reference m) (\<lambda>m1.
         bind_r (each_item (\<lambda>p. bind_r (rewrite_embedded_references (snd p)) (\<lambda>w. Inr (fst p, w))) m1) (\<lambda>m2.
           Inr (JObject m2)))
     | _ \<Rightarrow> Inr v)"
  by pat_completeness auto
termination
  by (relation "measure size")
     (auto dest!: rewrite_reference_size size_field_less intro: size_list_estimation' less_Suc_eq_le [THEN iffD2])

declare rewrite_embedded_references.simps [simp del]

definition resolve_embedded_references :: "json option \<Rightarrow> json \<Rightarrow> schema_error + json" where
  "resolve_embedded_references common schema =
     bind_r (ok_or No_common common) (\<lambda>c.
     bind_r (ok_or No_defs (Option.bind (jget ''$defs'' c) as_object)) (\<lambda>common_definitions.
     bind_r (ok_or Root_not_object (as_object schema)) (\<lambda>m.
     bind_r (ok_or Defs_not_object
               (as_object (case map_of m ''$defs'' of None \<Rightarrow> JObject [] | Some d \<Rightarrow> d))) (\<lambda>definitions.
       (let merged = fold (\<lambda>(name, d) ds. if map_of ds name = None then ds @ [(name, d)] else ds)
                       common_definitions definitions
        in rewrite_embedded_references (JObject (hm_insert ''$defs'' (JObject merged) m)))))))"

definition input_schema :: "json option \<Rightarrow> (schema_source \<Rightarrow> json option) \<Rightarrow> tool_spec \<Rightarrow> schema_error + json" where
  "input_schema common source s =
     bind_r (case ts_input s of
         Bridge_schema m \<Rightarrow> bind_r (ok_or Unreadable (source (Bridge_schema m))) (\<lambda>params.
            bind_r (resolve_embedded_references common params) (\<lambda>r. Inr (r, ts_bridge_write s)))
       | Custom_schema n \<Rightarrow> bind_r (ok_or Unreadable (source (Custom_schema n))) (\<lambda>v. Inr (v, False)))
     (\<lambda>(doc, bridge_write).
       if \<not> bridge_write then Inr doc
       else Inr (JObject [(''$schema'', JString ''https://json-schema.org/draft/2020-12/schema''),
              (''type'', JString ''object''), (''required'', JArray [JString ''params'']),
              (''properties'', JObject [(''params'', doc),
                 (''groupId'', JObject [(''type'', JString ''string''), (''minLength'', JNumber (PosInt 1)),
                    (''maxLength'', JNumber (PosInt 128))])]),
              (''additionalProperties'', JBool False)]))"

section \<open>The list of tools\<close>

text \<open>A tool as it is listed: its name, its schema and the two hints that say whether it only reads and
  whether it destroys.\<close>

record mcp_tool =
  mt_name :: string
  mt_schema :: json_map
  mt_read_only :: bool
  mt_destructive :: bool

definition build_tool :: "json option \<Rightarrow> (schema_source \<Rightarrow> json option) \<Rightarrow> tool_spec \<Rightarrow> schema_error + mcp_tool" where
  "build_tool common source s =
     bind_r (input_schema common source s) (\<lambda>schema.
     bind_r (ok_or Root_not_object (as_object schema)) (\<lambda>m.
       Inr \<lparr>mt_name = ts_name s, mt_schema = m, mt_read_only = (ts_access s = Read_access),
            mt_destructive = ts_destructive s\<rparr>))"

definition tool_ok :: "schema_error + mcp_tool \<Rightarrow> mcp_tool option" where
  "tool_ok r = (case r of Inl _ \<Rightarrow> None | Inr t \<Rightarrow> Some t)"

definition list_tools :: "json option \<Rightarrow> (schema_source \<Rightarrow> json option) \<Rightarrow> mcp_tool_catalog \<Rightarrow> mcp_tool list" where
  "list_tools common source c =
     (if ct_generation (tc_state c) = None then []
      else List.map_filter (\<lambda>s. tool_ok (build_tool common source s))
             (filter (\<lambda>s. is_exposed s (tc_state c)) tool_specs))"

definition exposed_spec :: "string \<Rightarrow> catalog_state \<Rightarrow> tool_spec option" where
  "exposed_spec name st = find (\<lambda>s. ts_name s = name \<and> is_exposed s st) tool_specs"

definition get_tool :: "json option \<Rightarrow> (schema_source \<Rightarrow> json option) \<Rightarrow> string \<Rightarrow> mcp_tool_catalog \<Rightarrow> mcp_tool option" where
  "get_tool common source name c =
     (if ct_generation (tc_state c) = None then None
      else Option.bind (exposed_spec name (tc_state c)) (\<lambda>s. tool_ok (build_tool common source s)))"

section \<open>Calls\<close>

datatype validated_tool_input =
    BridgeRead json
  | BridgeWrite json "string option"
  | Custom_input json

datatype tool_input_error = Tool_unavailable | Input_invalid | Schema_broken

definition validate_call ::
  "json option \<Rightarrow> (schema_source \<Rightarrow> json option) \<Rightarrow> (json \<Rightarrow> json \<Rightarrow> bool) \<Rightarrow> string \<Rightarrow> json \<Rightarrow> mcp_tool_catalog
    \<Rightarrow> tool_input_error + validated_tool_input" where
  "validate_call common source valid name arguments c =
     bind_r (ok_or Tool_unavailable (exposed_spec name (tc_state c))) (\<lambda>s.
     bind_r (map_err (\<lambda>_. Schema_broken) (input_schema common source s)) (\<lambda>schema.
       if \<not> valid schema arguments then Inl Input_invalid
       else
         (case (ts_input s, ts_bridge_write s) of
           (Bridge_schema m, True) \<Rightarrow>
             bind_r (ok_or Input_invalid (as_object arguments)) (\<lambda>obj.
             bind_r (ok_or Input_invalid (map_of obj ''params'')) (\<lambda>params.
               Inr (BridgeWrite params (Option.bind (map_of obj ''groupId'') as_str))))
         | (Bridge_schema m, False) \<Rightarrow> Inr (BridgeRead arguments)
         | (Custom_schema n, _) \<Rightarrow> Inr (Custom_input arguments))))"

definition hidden_write_method :: "string \<Rightarrow> string option" where
  "hidden_write_method name =
     Option.bind (find (\<lambda>s. ts_name s = name \<and> ts_bridge_write s) tool_specs) ts_bridge_method"

datatype unavailability = Not_connected | Read_only_mode | No_edit_service | Not_supported

definition unavailability_message :: "mcp_tool_catalog \<Rightarrow> unavailability" where
  "unavailability_message c =
     (if ct_generation (tc_state c) = None then Not_connected
      else if ct_permission (tc_state c) = Perm_read_only then Read_only_mode
      else if \<not> ct_write_handlers_ready (tc_state c) then No_edit_service
      else Not_supported)"

lemma in_map_filter: "y \<in> set (List.map_filter f xs) \<longleftrightarrow> (\<exists>x \<in> set xs. f x = Some y)"
  by (induction xs) (auto simp: map_filter_simps split: option.splits)

end
