(* ===== verification/Tool_Catalog_Laws.thy ===== *)
theory Tool_Catalog_Laws
  imports Tool_Catalog
begin

text \<open>
  Facts on the tool catalog: the schemas it hands out hold no reference to another document, the
  table agrees with the capabilities and the confirmations that \<open>mcp/authorization.rs\<close> asks for, and
  what is listed is what can be called.
\<close>

section \<open>References\<close>

function local_refs :: "json \<Rightarrow> bool" where
  "local_refs v =
     (case v of
       JArray items \<Rightarrow> list_all local_refs items
     | JObject m \<Rightarrow>
         (case map_of m ''$ref'' of None \<Rightarrow> True | Some (JString r) \<Rightarrow> starts_with ''#'' r | Some _ \<Rightarrow> False)
         \<and> list_all (\<lambda>p. local_refs (snd p)) m
     | _ \<Rightarrow> True)"
  by pat_completeness auto
termination
  by (relation "measure size")
     (auto dest: size_field_less intro: size_list_estimation' less_Suc_eq_le [THEN iffD2])

declare local_refs.simps [simp del]

lemmas local_refs_atom =
  local_refs.simps [of JNull, simplified] local_refs.simps [of "JBool b" for b, simplified]
  local_refs.simps [of "JNumber n" for n, simplified] local_refs.simps [of "JString s" for s, simplified]

lemmas local_refs_array = local_refs.simps [of "JArray items" for items, simplified]

lemmas local_refs_object = local_refs.simps [of "JObject m" for m, simplified]

lemma starts_with_hash [simp]: "starts_with ''#'' (CHR ''#'' # s)"
  by (simp add: starts_with_def)

lemma rewrite_reference_local:
  "rewrite_reference m = Inr m' \<Longrightarrow>
    (case map_of m' ''$ref'' of None \<Rightarrow> True | Some (JString r) \<Rightarrow> starts_with ''#'' r | Some _ \<Rightarrow> False)"
  by (auto simp: rewrite_reference_def hm_get_insert split: option.splits json.splits if_splits)

lemma each_item_all2:
  "each_item f xs = Inr ys \<Longrightarrow> list_all2 (\<lambda>x y. f x = Inr y) xs ys"
  by (induction xs arbitrary: ys) (auto simp: bind_r_Inr)

lemma each_item_fields:
  "each_item (\<lambda>p. bind_r (f (snd p)) (\<lambda>w. Inr (fst p, w))) m = Inr m' \<Longrightarrow>
    map_of m' k = Option.bind (map_of m k) (\<lambda>v. case f v of Inr w \<Rightarrow> Some w | Inl _ \<Rightarrow> None)"
  by (induction m arbitrary: m') (auto simp: bind_r_Inr)

lemma list_all2_target:
  "list_all2 P xs ys \<Longrightarrow> (\<And>x y. x \<in> set xs \<Longrightarrow> P x y \<Longrightarrow> Q y) \<Longrightarrow> list_all Q ys"
  by (induction rule: list_all2_induct) auto

lemmas rewrite_atom =
  rewrite_embedded_references.simps [of JNull, simplified] rewrite_embedded_references.simps [of "JBool b" for b, simplified]
  rewrite_embedded_references.simps [of "JNumber n" for n, simplified] rewrite_embedded_references.simps [of "JString s" for s, simplified]

lemmas rewrite_array = rewrite_embedded_references.simps [of "JArray items" for items, simplified]

lemmas rewrite_object = rewrite_embedded_references.simps [of "JObject m" for m, simplified]

lemma rewrite_is_local: "rewrite_embedded_references v = Inr w \<Longrightarrow> local_refs w"
proof (induction v arbitrary: w rule: rewrite_embedded_references.induct)
  case (1 v)
  show ?case
  proof (cases v)
    case (JArray items)
    then obtain ws where ws: "each_item rewrite_embedded_references items = Inr ws" "w = JArray ws"
      using 1(3) JArray by (auto simp: rewrite_array)
    then have "list_all2 (\<lambda>x y. rewrite_embedded_references x = Inr y) items ws"
      by (blast dest: each_item_all2)
    then have "list_all local_refs ws"
      by (rule list_all2_target) (rule 1(1) [OF JArray])
    then show ?thesis
      using ws by (simp add: local_refs_array)
  next
    case (JObject m)
    then obtain m1 m2 where m1: "rewrite_reference m = Inr m1" and w: "w = JObject m2"
      and m2: "each_item (\<lambda>p. bind_r (rewrite_embedded_references (snd p)) (\<lambda>w. Inr (fst p, w))) m1 = Inr m2"
      using 1(3) JObject by (auto simp: rewrite_object)
    have step: "list_all2 (\<lambda>p q. fst q = fst p \<and> rewrite_embedded_references (snd p) = Inr (snd q)) m1 m2"
      using each_item_all2 [OF m2] by (rule list_all2_mono) auto
    then have "list_all (\<lambda>q. local_refs (snd q)) m2"
      by (rule list_all2_target) (blast intro: 1(2) [OF JObject m1])
    moreover have "(case map_of m2 ''$ref'' of None \<Rightarrow> True | Some (JString r) \<Rightarrow> starts_with ''#'' r | Some _ \<Rightarrow> False)"
      using rewrite_reference_local [OF m1] each_item_fields [OF m2, of "''$ref''"]
      by (auto simp: rewrite_embedded_references.simps split: option.splits json.splits)
    ultimately show ?thesis
      by (simp add: w local_refs_object)
  qed (insert 1(3), auto simp: rewrite_atom local_refs_atom)
qed

lemma rewritten_field:
  assumes "rewrite_embedded_references (JObject m) = Inr w" "map_of m k = Some v" "k \<noteq> ''$ref''"
  shows "\<exists>v'. rewrite_embedded_references v = Inr v' \<and> jget k w = Some v'"
proof -
  obtain m1 m2 where m1: "rewrite_reference m = Inr m1" and w: "w = JObject m2"
    and m2: "each_item (\<lambda>p. bind_r (rewrite_embedded_references (snd p)) (\<lambda>w. Inr (fst p, w))) m1 = Inr m2"
    using assms(1) by (auto simp: rewrite_object)
  have k: "map_of m1 k = Some v"
    using m1 assms(2,3) by (auto simp: rewrite_reference_def hm_get_insert split: option.splits json.splits if_splits)
  then have "(k, v) \<in> set m1"
    by (rule map_of_SomeD)
  moreover have "list_all2 (\<lambda>p q. fst q = fst p \<and> rewrite_embedded_references (snd p) = Inr (snd q)) m1 m2"
    using each_item_all2 [OF m2] by (rule list_all2_mono) auto
  ultimately obtain v' where "rewrite_embedded_references v = Inr v'"
    by (fastforce simp: list_all2_conv_all_nth in_set_conv_nth)
  then show ?thesis
    using each_item_fields [OF m2, of k] k by (simp add: w)
qed

lemma each_item_names:
  "each_item (\<lambda>p. bind_r (f (snd p)) (\<lambda>w. Inr (fst p, w))) m = Inr m' \<Longrightarrow> map fst m' = map fst m"
  by (induction m arbitrary: m') auto

lemma rewritten_names:
  assumes "rewrite_embedded_references (JObject m) = Inr w" "map_of m k \<noteq> None"
  shows "\<exists>d. w = JObject d \<and> map_of d k \<noteq> None"
proof -
  obtain m1 m2 where m1: "rewrite_reference m = Inr m1" and w: "w = JObject m2"
    and m2: "each_item (\<lambda>p. bind_r (rewrite_embedded_references (snd p)) (\<lambda>w. Inr (fst p, w))) m1 = Inr m2"
    using assms(1) by (auto simp: rewrite_object)
  have "map_of m1 k \<noteq> None"
    using m1 assms(2) by (auto simp: rewrite_reference_def hm_get_insert split: option.splits json.splits if_splits)
  then have "k \<in> set (map fst m1)"
    by (simp add: map_of_eq_None_iff)
  then have "map_of m2 k \<noteq> None"
    unfolding each_item_names [OF m2, symmetric] by (simp add: map_of_eq_None_iff)
  then show ?thesis
    using w by blast
qed

lemma merged_definition:
  "map_of ds n \<noteq> None \<or> map_of cs n \<noteq> None \<Longrightarrow>
    map_of (fold (\<lambda>(name, d) ds. if map_of ds name = None then ds @ [(name, d)] else ds) cs ds) n \<noteq> None"
  by (induction cs arbitrary: ds) (auto simp: map_add_def split: option.splits if_splits)

lemma resolved_definitions_object:
  assumes "resolve_embedded_references common schema = Inr w"
  shows "\<exists>ds. jget ''$defs'' w = Some (JObject ds)"
proof -
  obtain m ds where "rewrite_embedded_references (JObject (hm_insert ''$defs'' (JObject ds) m)) = Inr w"
    using assms by (auto simp: resolve_embedded_references_def Let_def)
  from rewritten_field [OF this, of "''$defs''"] show ?thesis
    by (auto simp: hm_get_insert rewrite_object)
qed

lemma resolved_definitions:
  assumes "resolve_embedded_references (Some common) schema = Inr w"
    and "jget ''$defs'' common = Some (JObject cs)" and "map_of cs n \<noteq> None"
  shows "\<exists>ds. jget ''$defs'' w = Some (JObject ds) \<and> map_of ds n \<noteq> None"
proof -
  obtain m ds where w: "rewrite_embedded_references (JObject (hm_insert ''$defs'' (JObject
      (fold (\<lambda>(name, d) ds. if map_of ds name = None then ds @ [(name, d)] else ds) cs ds)) m)) = Inr w"
    using assms(1,2) by (auto simp: resolve_embedded_references_def Let_def)
  define merged where "merged = fold (\<lambda>(name, d) ds. if map_of ds name = None then ds @ [(name, d)] else ds) cs ds"
  obtain v where v: "rewrite_embedded_references (JObject merged) = Inr v" "jget ''$defs'' w = Some v"
    using rewritten_field [OF w, of "''$defs''"] by (auto simp: hm_get_insert merged_def)
  have "map_of merged n \<noteq> None"
    unfolding merged_def using assms(3) by (intro merged_definition) simp
  then show ?thesis
    using rewritten_names [OF v(1), of n] v(2) by blast
qed

section \<open>The table\<close>

lemma spec_names_distinct: "distinct (map ts_name tool_specs)"
  by (simp add: tool_specs_def bridge_tool_def custom_tool_def)

lemma find_distinct:
  "distinct (map f xs) \<Longrightarrow> x \<in> set xs \<Longrightarrow> P x \<Longrightarrow> find (\<lambda>y. f y = f x \<and> P y) xs = Some x"
  by (induction xs) auto

lemma find_named: "find (\<lambda>y. f y = n \<and> P y) xs = Some x \<Longrightarrow> x \<in> set xs \<and> f x = n \<and> P x"
  by (induction xs) (auto split: if_splits)

lemmas found_spec = find_distinct [OF spec_names_distinct]

definition table_agrees :: "tool_spec \<Rightarrow> bool" where
  "table_agrees s \<longleftrightarrow>
     (\<exists>m. ts_bridge_method s = Some m \<and> ts_input s = Bridge_schema m \<and> ts_access s = Write_access
       \<and> is_implemented_write (ts_name s)
       \<and> (\<forall>p op. from_bridge_method m p = Inr op \<longrightarrow>
            set (required_capabilities op) = set (ts_capabilities s) \<and> requires_confirmation op = ts_destructive s))"

lemma table_agrees_all: "s \<in> set tool_specs \<Longrightarrow> ts_bridge_write s \<Longrightarrow> table_agrees s"
  by (auto simp: tool_specs_def bridge_tool_def custom_tool_def table_agrees_def from_bridge_method_def
    is_implemented_write_def split: if_splits)

lemma hidden_write_method_of:
  assumes "s \<in> set tool_specs" "ts_bridge_write s"
  shows "hidden_write_method (ts_name s) = ts_bridge_method s"
  using found_spec [where P = ts_bridge_write, OF assms] by (simp add: hidden_write_method_def)

lemma accepted_write:
  assumes "validate_call common source valid name args c = Inr (BridgeWrite p g)"
  shows "\<exists>s \<in> set tool_specs. ts_name s = name \<and> is_exposed s (tc_state c) \<and> ts_bridge_write s
    \<and> exposed_spec name (tc_state c) = Some s"
proof -
  obtain s where s: "exposed_spec name (tc_state c) = Some s"
    using assms by (cases "exposed_spec name (tc_state c)") (simp_all add: validate_call_def)
  have w: "ts_bridge_write s"
    using assms s by (cases "ts_bridge_write s"; cases "ts_input s") (simp_all add: validate_call_def split: if_splits)
  from s have "s \<in> set tool_specs \<and> ts_name s = name \<and> is_exposed s (tc_state c)"
    unfolding exposed_spec_def by (rule find_named)
  with s w show ?thesis
    by blast
qed

lemma tool_ok_Some [simp]: "tool_ok r = Some t \<longleftrightarrow> r = Inr t"
  by (cases r) (auto simp: tool_ok_def)

lemma built_tool: "build_tool common source s = Inr t \<Longrightarrow>
    mt_name t = ts_name s \<and> mt_destructive t = ts_destructive s \<and> mt_read_only t = (ts_access s = Read_access)
    \<and> input_schema common source s = Inr (JObject (mt_schema t))"
  by (auto simp: build_tool_def)

lemma listed_tool:
  assumes "t \<in> set (list_tools common source c)"
  shows "\<exists>s. exposed_spec (mt_name t) (tc_state c) = Some s \<and> build_tool common source s = Inr t
    \<and> s \<in> set tool_specs \<and> get_tool common source (mt_name t) c = Some t"
proof -
  from assms obtain s where s: "s \<in> set tool_specs" "is_exposed s (tc_state c)" "build_tool common source s = Inr t"
    unfolding list_tools_def in_map_filter by (auto simp: in_map_filter split: if_splits)
  then have g: "ct_generation (tc_state c) \<noteq> None"
    by (simp add: is_exposed_def)
  have "exposed_spec (mt_name t) (tc_state c) = Some s"
    using found_spec [where P = "\<lambda>s. is_exposed s (tc_state c)", OF s(1,2)] built_tool [OF s(3)]
    by (simp add: exposed_spec_def)
  with s g show ?thesis
    by (simp add: get_tool_def)
qed

section \<open>Claims\<close>

definition sample_source :: "schema_source \<Rightarrow> json option" where
  "sample_source _ = Some (JObject [(''type'', JString ''object'')])"

definition sample_common :: json where
  "sample_common = JObject [(''$defs'', JObject [(''id'', JObject [(''$ref'', JString (COMMON_SCHEMA_ID @ ''#/$defs/name''))]),
     (''name'', JObject [])])]"

definition sample_catalog :: mcp_tool_catalog where
  "sample_catalog = \<lparr>tc_state = \<lparr>ct_generation = Some 1, ct_capabilities = {''scene.edit'', ''scene.query''},
     ct_permission = Perm_confirm, ct_write_handlers_ready = True\<rparr>, tc_revision = 3\<rparr>"

definition sample_args :: json where
  "sample_args = JObject [(''params'', JObject [(''objectId'', JString ''o1'')])]"

lemmas sample_evals = sample_source_def sample_common_def sample_catalog_def sample_args_def
  resolve_embedded_references_def rewrite_object rewrite_atom rewrite_reference_def COMMON_SCHEMA_ID_def
  starts_with_def

text \<open>A Bridge schema handed to a client stands by itself: no reference in it, however deep, leaves the
  document, and every definition of the common schema is defined in it.\<close>
lemma bridge_schema_is_self_contained:
  assumes "resolve_embedded_references (Some common) schema = Inr w"
    and "jget ''$defs'' common = Some (JObject cs)"
  shows "local_refs w \<and> (\<exists>ds. jget ''$defs'' w = Some (JObject ds) \<and> fst ` set cs \<subseteq> fst ` set ds)"
proof -
  have "local_refs w"
    using assms(1) by (auto simp: resolve_embedded_references_def Let_def dest: rewrite_is_local)
  moreover obtain ds where ds: "jget ''$defs'' w = Some (JObject ds)"
    using resolved_definitions_object [OF assms(1)] by blast
  moreover have "fst ` set cs \<subseteq> fst ` set ds"
    using resolved_definitions [OF assms] ds by (force simp: map_of_eq_None_iff)
  ultimately show ?thesis
    by blast
qed

text \<open>A write that the catalog lets through is one that the connection, the permission and the edit
  service allow: the engine is connected, writes are permitted and handled, and every capability
  that \<open>required_capabilities\<close> asks for the operation is advertised. The destructive hint of the listed
  tool is whether the operation needs a confirmation.\<close>
lemma exposed_write_is_permitted:
  assumes "validate_call common source valid name args c = Inr (BridgeWrite p g)"
    and "hidden_write_method name = Some m" and "from_bridge_method m p = Inr op"
  shows "ct_generation (tc_state c) \<noteq> None \<and> ct_permission (tc_state c) \<noteq> Perm_read_only
    \<and> ct_write_handlers_ready (tc_state c)
    \<and> set (required_capabilities op) \<subseteq> ct_capabilities (tc_state c)
    \<and> map_option mt_destructive (get_tool common source name c) \<in> {None, Some (requires_confirmation op)}"
proof -
  obtain s where s: "s \<in> set tool_specs" "ts_name s = name" "is_exposed s (tc_state c)" "ts_bridge_write s"
    and found: "exposed_spec name (tc_state c) = Some s"
    using accepted_write [OF assms(1)] by blast
  then have "ts_bridge_method s = Some m"
    using hidden_write_method_of [OF s(1,4)] assms(2) by simp
  then have agrees: "ts_access s = Write_access \<and> set (required_capabilities op) = set (ts_capabilities s)
      \<and> requires_confirmation op = ts_destructive s"
    using table_agrees_all [OF s(1,4)] assms(3) by (auto simp: table_agrees_def)
  moreover have "get_tool common source name c = Some t \<Longrightarrow> mt_destructive t = ts_destructive s" for t
    using found built_tool [of common source s t] by (simp add: get_tool_def split: if_splits)
  then have "map_option mt_destructive (get_tool common source name c) \<in> {None, Some (ts_destructive s)}"
    by (cases "get_tool common source name c") simp_all
  ultimately show ?thesis
    using s(3) by (auto simp: is_exposed_def list_all_iff)
qed

text \<open>What is listed is what can be called: for a listed tool the check of a call reports neither an
  unavailable tool nor a broken schema, it looks at exactly the listed schema, and \<open>get\<close> returns the
  same tool.\<close>
lemma listed_tool_is_callable:
  assumes "t \<in> set (list_tools common source c)"
  shows "get_tool common source (mt_name t) c = Some t
    \<and> validate_call common source valid (mt_name t) args c \<notin> {Inl Tool_unavailable, Inl Schema_broken}
    \<and> (\<not> valid (JObject (mt_schema t)) args \<longrightarrow>
         validate_call common source valid (mt_name t) args c = Inl Input_invalid)
    \<and> (mt_read_only t \<and> valid (JObject (mt_schema t)) args \<longrightarrow>
         validate_call common source valid (mt_name t) args c \<in> {Inr (BridgeRead args), Inr (Custom_input args)})"
proof -
  obtain s where s: "exposed_spec (mt_name t) (tc_state c) = Some s" "build_tool common source s = Inr t"
    "s \<in> set tool_specs" and g: "get_tool common source (mt_name t) c = Some t"
    using listed_tool [OF assms] by blast
  have schema: "input_schema common source s = Inr (JObject (mt_schema t))"
    and ro: "mt_read_only t = (ts_access s = Read_access)"
    using built_tool [OF s(2)] by blast+
  have reads: "ts_bridge_write s \<longrightarrow> \<not> mt_read_only t"
    using table_agrees_all [OF s(3)] by (auto simp: ro table_agrees_def)
  show ?thesis
    using g s(1) schema reads
    by (cases "ts_input s"; cases "ts_bridge_write s"; cases "as_object args")
       (simp_all add: validate_call_def bind_r_Inl split: option.splits)
qed

end
