(* ===== verification/Mcp_Wire.thy ===== *)
theory Mcp_Wire
  imports Mcp_Auth "HOL-Library.Sublist"
begin

text \<open>
  The connection side of the HTTP entry in \<open>src-tauri/src/mcp.rs\<close>: what a connection holds while a
  request of it runs, and the tracker that reads the bytes of the responses to learn when a response
  ends and how long a stream of events may live. A byte is a \<open>char\<close>, an instant or a duration a number
  of milliseconds; the overflow of an instant is not modelled. Semaphore permits are flags here, they
  are counted in \<open>Mcp_Http\<close>. Request ids of the protocol library are the type \<open>'id\<close>.
\<close>

section \<open>The state of a connection\<close>

record 'id request_key =
  rk_session :: "string option"
  rk_id :: 'id

record 'id active_http_request =
  ar_lease :: mcp_request_lease
  ar_key :: "'id request_key option"

record 'id connection_state =
  cn_ordinary :: bool
  cn_stream :: bool
  cn_deadline :: "nat option"
  cn_head :: bool
  cn_active :: "'id active_http_request option"

definition connection_default :: "'id connection_state" where
  "connection_default = \<lparr>cn_ordinary = False, cn_stream = False, cn_deadline = None, cn_head = False, cn_active = None\<rparr>"

text \<open>The flag of the result is whether the permit was kept; otherwise it is dropped by the callee.\<close>

definition retain_ordinary :: "'id connection_state \<Rightarrow> bool \<times> 'id connection_state" where
  "retain_ordinary c = (if cn_ordinary c then (False, c) else (True, c\<lparr>cn_ordinary := True\<rparr>))"

definition release_ordinary :: "'id connection_state \<Rightarrow> 'id connection_state" where
  "release_ordinary c = c\<lparr>cn_ordinary := False\<rparr>"

definition retain_stream :: "'id connection_state \<Rightarrow> bool \<times> 'id connection_state" where
  "retain_stream c = (if cn_stream c then (False, c) else (True, c\<lparr>cn_stream := True\<rparr>))"

definition release_stream :: "'id connection_state \<Rightarrow> 'id connection_state" where
  "release_stream c = c\<lparr>cn_stream := False\<rparr>"

definition conn_set_deadline :: "nat option \<Rightarrow> 'id connection_state \<Rightarrow> 'id connection_state" where
  "conn_set_deadline deadline c = c\<lparr>cn_deadline := deadline\<rparr>"

definition set_head_request :: "bool \<Rightarrow> 'id connection_state \<Rightarrow> 'id connection_state" where
  "set_head_request is_head c = c\<lparr>cn_head := is_head\<rparr>"

definition conn_retain_request :: "'id active_http_request \<Rightarrow> 'id connection_state \<Rightarrow> bool \<times> 'id connection_state" where
  "conn_retain_request request c =
     (if cn_active c \<noteq> None then (False, c) else (True, c\<lparr>cn_active := Some request\<rparr>))"

definition active_request_id :: "'id connection_state \<Rightarrow> u64 option" where
  "active_request_id c = map_option (\<lambda>r. rl_request_id (ar_lease r)) (cn_active c)"

definition finish_request :: "u64 \<Rightarrow> 'id connection_state \<Rightarrow> 'id connection_state" where
  "finish_request request_id c =
     (if active_request_id c = Some request_id then c\<lparr>cn_active := None\<rparr> else c)"

text \<open>The lease whose request is cancelled is the first component.\<close>

definition cancel_active_request :: "'id connection_state \<Rightarrow> mcp_request_lease option \<times> 'id connection_state" where
  "cancel_active_request c = (map_option ar_lease (cn_active c), c\<lparr>cn_active := None\<rparr>)"

text \<open>\<open>if let Some(request_id) = \<dots> { finish_request(request_id) }\<close>.\<close>

definition finish_if :: "u64 option \<Rightarrow> 'id connection_state \<Rightarrow> 'id connection_state" where
  "finish_if request_id c = (case request_id of None \<Rightarrow> c | Some i \<Rightarrow> finish_request i c)"

section \<open>The watchdog of a stream\<close>

record stream_policy =
  sp_request :: nat
  sp_idle :: nat
  sp_maximum :: nat

definition ORDINARY_REQUEST_TIMEOUT :: nat where
  "ORDINARY_REQUEST_TIMEOUT = 30 * 1000"

definition STREAM_IDLE_TIMEOUT :: nat where
  "STREAM_IDLE_TIMEOUT = 5 * 60 * 1000"

definition STREAM_MAX_LIFETIME :: nat where
  "STREAM_MAX_LIFETIME = 30 * 60 * 1000"

definition policy_default :: stream_policy where
  "policy_default = \<lparr>sp_request = ORDINARY_REQUEST_TIMEOUT, sp_idle = STREAM_IDLE_TIMEOUT, sp_maximum = STREAM_MAX_LIFETIME\<rparr>"

record stream_watchdog =
  wd_started :: nat
  wd_last_event :: nat
  wd_idle_timeout :: nat
  wd_maximum_lifetime :: nat
  wd_timer :: nat

definition wd_deadline :: "stream_watchdog \<Rightarrow> nat" where
  "wd_deadline w = min (wd_started w + wd_maximum_lifetime w) (wd_last_event w + wd_idle_timeout w)"

definition reset_timer :: "stream_watchdog \<Rightarrow> stream_watchdog" where
  "reset_timer w = w\<lparr>wd_timer := wd_deadline w\<rparr>"

definition watchdog_new :: "nat \<Rightarrow> nat \<Rightarrow> nat \<Rightarrow> stream_watchdog" where
  "watchdog_new now idle_timeout maximum_lifetime =
     reset_timer \<lparr>wd_started = now, wd_last_event = now, wd_idle_timeout = idle_timeout,
       wd_maximum_lifetime = maximum_lifetime, wd_timer = now + idle_timeout\<rparr>"

definition watchdog_new_until :: "nat \<Rightarrow> nat \<Rightarrow> stream_watchdog" where
  "watchdog_new_until now deadline =
     (let maximum_lifetime = deadline - now
      in reset_timer \<lparr>wd_started = now, wd_last_event = now, wd_idle_timeout = maximum_lifetime,
           wd_maximum_lifetime = maximum_lifetime, wd_timer = deadline\<rparr>)"

definition expired_at :: "nat \<Rightarrow> stream_watchdog \<Rightarrow> bool" where
  "expired_at now w \<longleftrightarrow> now \<ge> wd_deadline w"

definition record_event :: "nat \<Rightarrow> stream_watchdog \<Rightarrow> stream_watchdog" where
  "record_event now w = reset_timer (w\<lparr>wd_last_event := now\<rparr>)"

text \<open>The timer is ready once its instant has come; it is polled later than the clock is read.\<close>

definition wd_poll_expired :: "nat \<Rightarrow> nat \<Rightarrow> stream_watchdog \<Rightarrow> bool" where
  "wd_poll_expired now polled w \<longleftrightarrow> expired_at now w \<or> polled \<ge> wd_timer w"

section \<open>The lines of an event stream\<close>

record sse_line_scanner =
  ls_prefix_length :: nat
  ls_matching_prefix :: bool
  ls_is_data_line :: bool

definition scanner_default :: sse_line_scanner where
  "scanner_default = \<lparr>ls_prefix_length = 0, ls_matching_prefix = True, ls_is_data_line = False\<rparr>"

definition newline :: char where
  "newline = CHR 0x0A"

definition carriage :: char where
  "carriage = CHR 0x0D"

definition data_prefix :: string where
  "data_prefix = ''data:''"

definition scan_byte ::
  "char \<Rightarrow> nat \<Rightarrow> stream_watchdog option \<Rightarrow> sse_line_scanner \<Rightarrow> stream_watchdog option \<times> sse_line_scanner" where
  "scan_byte b now watchdog l =
     (if b = newline
      then (if ls_is_data_line l then map_option (record_event now) watchdog else watchdog, scanner_default)
      else if ls_matching_prefix l
      then (watchdog,
        if ls_prefix_length l < length data_prefix \<and> data_prefix ! ls_prefix_length l = b
        then l\<lparr>ls_prefix_length := ls_prefix_length l + 1,
               ls_is_data_line := (ls_prefix_length l + 1 = length data_prefix)\<rparr>
        else l\<lparr>ls_matching_prefix := False\<rparr>)
      else (watchdog, l))"

section \<open>The head of a response\<close>

definition MAX_RESPONSE_HEADER_BYTES :: nat where
  "MAX_RESPONSE_HEADER_BYTES = 16 * 1024"

definition to_ascii_lowercase :: "char \<Rightarrow> char" where
  "to_ascii_lowercase c = (if is_ascii_uppercase c then char_of (code c + 32) else c)"

fun split_bytes :: "char \<Rightarrow> string \<Rightarrow> string list" where
  "split_bytes d [] = [[]]"
| "split_bytes d (c # cs) =
     (if c = d then [] # split_bytes d cs
      else (case split_bytes d cs of [] \<Rightarrow> [[c]] | l # ls \<Rightarrow> (c # l) # ls))"

definition is_ascii_space :: "char \<Rightarrow> bool" where
  "is_ascii_space c \<longleftrightarrow> code c \<in> {9, 10, 12, 13, 32}"

definition trim_ascii :: "string \<Rightarrow> string" where
  "trim_ascii s = rev (dropWhile is_ascii_space (rev (dropWhile is_ascii_space s)))"

text \<open>\<open>str::parse\<close> of an unsigned integer: an optional plus, digits, no overflow.\<close>

definition parse_unsigned :: "nat \<Rightarrow> string \<Rightarrow> nat option" where
  "parse_unsigned maximum s =
     (let ds = (case s of c # cs \<Rightarrow> if c = CHR ''+'' then cs else s | [] \<Rightarrow> s)
      in if ds \<noteq> [] \<and> list_all is_ascii_digit ds \<and> dec_val ds \<le> maximum then Some (dec_val ds) else None)"

definition nth_opt :: "'a list \<Rightarrow> nat \<Rightarrow> 'a option" where
  "nth_opt xs n = (if n < length xs then Some (xs ! n) else None)"

definition header_status :: "string \<Rightarrow> nat option" where
  "header_status headers =
     Option.bind (nth_opt (split_bytes newline headers) 0) (\<lambda>line.
     Option.bind (nth_opt (split_bytes (CHR '' '') line) 1) (\<lambda>c.
       parse_unsigned (2 ^ 16 - 1) (trim_ascii c)))"

fun contains_bytes :: "string \<Rightarrow> string \<Rightarrow> bool" where
  "contains_bytes p [] = (p = [])"
| "contains_bytes p (c # cs) = (prefix p (c # cs) \<or> contains_bytes p cs)"

definition header_has :: "string \<Rightarrow> string \<Rightarrow> string \<Rightarrow> bool" where
  "header_has name part headers \<longleftrightarrow>
     list_ex (\<lambda>line. prefix name line \<and> contains_bytes part line) (split_bytes newline headers)"

definition is_sse_head :: "string \<Rightarrow> bool" where
  "is_sse_head headers \<longleftrightarrow> header_has ''content-type:'' ''text/event-stream'' headers"

definition is_chunked_head :: "string \<Rightarrow> bool" where
  "is_chunked_head headers \<longleftrightarrow> header_has ''transfer-encoding:'' ''chunked'' headers"

fun find_map :: "('a \<Rightarrow> 'b option) \<Rightarrow> 'a list \<Rightarrow> 'b option" where
  "find_map f [] = None"
| "find_map f (x # xs) = (case f x of None \<Rightarrow> find_map f xs | Some y \<Rightarrow> Some y)"

definition length_line :: "string \<Rightarrow> nat option" where
  "length_line line =
     (if prefix ''content-length:'' line
      then parse_unsigned usize_max (trim_ascii (drop (length ''content-length:'') line)) else None)"

definition content_length :: "string \<Rightarrow> nat option" where
  "content_length headers = find_map length_line (split_bytes newline headers)"

section \<open>The tracker\<close>

record response_body =
  rb_is_sse :: bool
  rb_content_length :: "nat option"
  rb_chunked :: bool
  rb_written :: nat
  rb_chunk_tail :: string
  rb_request_id :: "u64 option"

record sse_wire_tracker =
  wt_headers :: string
  wt_body :: "response_body option"
  wt_watchdog :: "stream_watchdog option"
  wt_line :: sse_line_scanner

definition tracker_default :: sse_wire_tracker where
  "tracker_default = \<lparr>wt_headers = [], wt_body = None, wt_watchdog = None, wt_line = scanner_default\<rparr>"

definition is_streaming :: "sse_wire_tracker \<Rightarrow> bool" where
  "is_streaming t \<longleftrightarrow> wt_watchdog t \<noteq> None"

definition clear_request :: "'id connection_state \<Rightarrow> 'id connection_state" where
  "clear_request c = set_head_request False (conn_set_deadline None (release_ordinary c))"

definition begin_response ::
  "nat \<Rightarrow> stream_policy \<Rightarrow> sse_wire_tracker \<Rightarrow> 'id connection_state \<Rightarrow> sse_wire_tracker \<times> 'id connection_state" where
  "begin_response now policy t0 c =
     (let headers = map to_ascii_lowercase (wt_headers t0);
          t = t0\<lparr>wt_headers := []\<rparr>;
          status = header_status headers
      in if (case status of Some n \<Rightarrow> 100 \<le> n \<and> n < 200 | None \<Rightarrow> False) then (t, c)
         else if cn_head c \<or> (case status of Some n \<Rightarrow> (204 \<le> n \<and> n \<le> 205) \<or> n = 304 | None \<Rightarrow> False)
         then (t\<lparr>wt_body := None, wt_watchdog := None, wt_line := scanner_default\<rparr>,
               clear_request (release_stream (finish_if (active_request_id c) c)))
         else
           (let is_sse = is_sse_head headers;
                chunked = is_chunked_head headers;
                len = content_length headers;
                t1 = (if is_sse
                      then t\<lparr>wt_watchdog :=
                        (if cn_stream c then Some (watchdog_new now (sp_idle policy) (sp_maximum policy))
                         else map_option (watchdog_new_until now) (cn_deadline c))\<rparr>
                      else t);
                c1 = (if is_sse then c else conn_set_deadline None c);
                t2 = t1\<lparr>wt_body := Some \<lparr>rb_is_sse = is_sse, rb_content_length = len, rb_chunked = chunked,
                       rb_written = 0, rb_chunk_tail = [], rb_request_id = active_request_id c1\<rparr>\<rparr>
            in if len = Some 0
               then (let c2 = finish_if (active_request_id c1) c1;
                         c3 = (if is_sse then release_stream c2 else c2)
                     in (t2\<lparr>wt_body := None, wt_watchdog := None\<rparr>, clear_request c3))
               else (t2, c1)))"

definition finish_response :: "sse_wire_tracker \<Rightarrow> 'id connection_state \<Rightarrow> sse_wire_tracker \<times> 'id connection_state" where
  "finish_response t c =
     (case wt_body t of
       None \<Rightarrow> (t, c)
     | Some body \<Rightarrow>
         (let c1 = finish_if (rb_request_id body) c;
              c2 = (if rb_is_sse body then release_stream c1 else c1)
          in (t\<lparr>wt_body := None, wt_watchdog := None, wt_line := scanner_default\<rparr>, clear_request c2)))"

definition head_end :: string where
  "head_end = [carriage, newline, carriage, newline]"

definition last_chunk :: string where
  "last_chunk = CHR ''0'' # head_end"

text \<open>A byte of the body, and whether it was the last one.\<close>

definition body_byte :: "char \<Rightarrow> response_body \<Rightarrow> bool \<times> response_body" where
  "body_byte b body =
     (let body1 = body\<lparr>rb_written := sat_add (rb_written body) 1\<rparr>
      in if rb_chunked body1
         then (let tail0 = rb_chunk_tail body1 @ [b];
                   tail1 = (if length tail0 > 7 then tl tail0 else tail0)
               in (tail1 = [carriage, newline] @ last_chunk \<or> tail1 = last_chunk,
                   body1\<lparr>rb_chunk_tail := tail1\<rparr>))
         else ((case rb_content_length body1 of Some n \<Rightarrow> rb_written body1 \<ge> n | None \<Rightarrow> False), body1))"

definition observe_byte ::
  "nat \<Rightarrow> stream_policy \<Rightarrow> char \<Rightarrow> sse_wire_tracker \<times> 'id connection_state \<Rightarrow> sse_wire_tracker \<times> 'id connection_state" where
  "observe_byte now policy b tc =
     (let (t, c) = tc
      in case wt_body t of
           None \<Rightarrow>
             (let hs = (if length (wt_headers t) = MAX_RESPONSE_HEADER_BYTES then [] else wt_headers t) @ [b];
                  t1 = t\<lparr>wt_headers := hs\<rparr>
              in if suffix head_end hs then begin_response now policy t1 c else (t1, c))
         | Some body \<Rightarrow>
             (let (wd, line) = (if rb_is_sse body then scan_byte b now (wt_watchdog t) (wt_line t)
                                else (wt_watchdog t, wt_line t));
                  (finished, body1) = body_byte b body;
                  t1 = t\<lparr>wt_watchdog := wd, wt_line := line, wt_body := Some body1\<rparr>
              in if finished then finish_response t1 c else (t1, c)))"

definition wire_observe ::
  "string \<Rightarrow> nat \<Rightarrow> stream_policy \<Rightarrow> sse_wire_tracker \<times> 'id connection_state \<Rightarrow> sse_wire_tracker \<times> 'id connection_state" where
  "wire_observe bytes now policy tc = fold (observe_byte now policy) bytes tc"

definition wire_poll_expired :: "nat \<Rightarrow> nat \<Rightarrow> sse_wire_tracker \<Rightarrow> bool" where
  "wire_poll_expired now polled t \<longleftrightarrow> (case wt_watchdog t of None \<Rightarrow> False | Some w \<Rightarrow> wd_poll_expired now polled w)"

section \<open>The socket of a connection\<close>

text \<open>What the socket below answers to a poll is an argument; addresses are numbers,
  and \<open>io_waker\<close> is whether the waker of a read is stored.\<close>

datatype 'a io_poll = Io_pending | Io_failed | Io_timed_out | Io_done 'a

record 'id connection_io =
  io_remote :: nat
  io_state :: "'id connection_state"
  io_wire :: sse_wire_tracker
  io_policy :: stream_policy
  io_waker :: bool

definition poll_read :: "nat \<Rightarrow> nat \<Rightarrow> 'a io_poll \<Rightarrow> 'id connection_io \<Rightarrow> 'a io_poll \<times> 'id connection_io" where
  "poll_read now polled answer io =
     (if wire_poll_expired now polled (io_wire io) then (Io_timed_out, io)
      else (answer, if answer = Io_pending \<and> \<not> is_streaming (io_wire io) then io\<lparr>io_waker := True\<rparr> else io))"

text \<open>The last component is whether a waiting read is woken.\<close>

definition poll_write ::
  "nat \<Rightarrow> nat \<Rightarrow> nat \<Rightarrow> string \<Rightarrow> nat io_poll \<Rightarrow> 'id connection_io \<Rightarrow> nat io_poll \<times> 'id connection_io \<times> bool" where
  "poll_write now polled written_at buffer answer io =
     (if wire_poll_expired now polled (io_wire io) then (Io_timed_out, io, False)
      else
        (case answer of
          Io_done written \<Rightarrow>
            if written > 0
            then (let (wire, st) = wire_observe (take written buffer) written_at (io_policy io) (io_wire io, io_state io);
                      io1 = io\<lparr>io_wire := wire, io_state := st\<rparr>
                  in if \<not> is_streaming (io_wire io) \<and> is_streaming wire
                     then (answer, io1\<lparr>io_waker := False\<rparr>, io_waker io)
                     else (answer, io1, False))
            else (answer, io, False)
        | _ \<Rightarrow> (answer, io, False)))"

definition poll_flush :: "nat \<Rightarrow> nat \<Rightarrow> unit io_poll \<Rightarrow> 'id connection_io \<Rightarrow> unit io_poll" where
  "poll_flush now polled answer io =
     (if wire_poll_expired now polled (io_wire io) then Io_timed_out else answer)"

definition poll_shutdown :: "nat \<Rightarrow> nat \<Rightarrow> unit io_poll \<Rightarrow> 'id connection_io \<Rightarrow> unit io_poll" where
  "poll_shutdown now polled answer io =
     (if wire_poll_expired now polled (io_wire io) then Io_timed_out else answer)"

end
