(* ===== verification/Mcp_Http.thy ===== *)
theory Mcp_Http
  imports Mcp_Wire Tool_Catalog
begin

text \<open>
  The HTTP entry of \<open>src-tauri/src/mcp.rs\<close>: the limits, the registry of connections and
  \<open>authenticate_and_limit\<close>, one definition per stretch between two points where other threads may
  run. A handler is what the function holds at such a point. The environment of a stretch is given:
  clock readings, the outcome of reading the body, the answer of the service. Parameters stand for
  libraries: \<open>to_str\<close> reads a header value, \<open>parse\<close> a JSON body, \<open>request_key\<close> and
  \<open>cancellation_key\<close> (\<open>mcp/request_lifetime.rs\<close>, over message types of the protocol library) the key
  of a request and the key a cancellation names. A connection lives from \<open>accept\<close> to the drop of its
  socket; a weak reference to it is its number.
\<close>

section \<open>Limits and state\<close>

definition MAX_REQUEST_BODY_BYTES :: nat where
  "MAX_REQUEST_BODY_BYTES = 1024 * 1024"

definition MAX_CONNECTIONS :: nat where
  "MAX_CONNECTIONS = 32"

definition MAX_ORDINARY_REQUESTS :: nat where
  "MAX_ORDINARY_REQUESTS = 16"

definition MAX_LONG_LIVED_STREAMS :: nat where
  "MAX_LONG_LIVED_STREAMS = 8"

datatype http_method = Get | Post | Head | Other_method

record http_parts =
  hp_method :: http_method
  hp_host :: "string list"
  hp_origin :: "string list"
  hp_authorization :: "string list"

datatype request_admission = Ordinary_permit | Stream_permit

datatype http_status =
    Forbidden | Unauthorized | Payload_too_large | Request_timeout | Service_unavailable | Conflict | Gateway_timeout
  | Service_answer

text \<open>Where a handler stands: what it does next.\<close>

datatype handler_point =
    At_body | At_cancellation | At_acquire | At_retain | At_register | At_run | At_notify | At_end http_status

record 'id http_handler =
  hl_parts :: http_parts
  hl_lease :: mcp_request_lease
  hl_started :: nat
  hl_connection :: "nat option"
  hl_deadline :: nat
  hl_long :: bool
  hl_key :: "'id request_key option"
  hl_cancellation :: "'id request_key option"
  hl_permit :: "request_admission option"
  hl_point :: handler_point

text \<open>\<open>hw_ordinary\<close>, \<open>hw_streams\<close> and \<open>hw_slots\<close> are the permits the semaphores have left.\<close>

record 'id http_world =
  hw_auth :: mcp_http_auth
  hw_ordinary :: nat
  hw_streams :: nat
  hw_slots :: nat
  hw_registry :: "(nat, nat) hash_map"
  hw_connections :: "(nat, 'id connection_io) hash_map"

definition limits_default :: "mcp_http_auth \<Rightarrow> 'id http_world" where
  "limits_default auth = \<lparr>hw_auth = auth, hw_ordinary = MAX_ORDINARY_REQUESTS, hw_streams = MAX_LONG_LIVED_STREAMS,
     hw_slots = MAX_CONNECTIONS, hw_registry = [], hw_connections = []\<rparr>"

text \<open>A change of a connection gives the permits it drops back to the semaphores.\<close>

definition returned :: "bool \<Rightarrow> bool \<Rightarrow> nat" where
  "returned before after = (if before \<and> \<not> after then 1 else 0)"

definition put_connection :: "nat \<Rightarrow> 'id connection_io \<Rightarrow> 'id connection_io \<Rightarrow> 'id http_world \<Rightarrow> 'id http_world" where
  "put_connection i before after w =
     w\<lparr>hw_connections := hm_insert i after (hw_connections w),
       hw_ordinary := hw_ordinary w + returned (cn_ordinary (io_state before)) (cn_ordinary (io_state after)),
       hw_streams := hw_streams w + returned (cn_stream (io_state before)) (cn_stream (io_state after))\<rparr>"

definition change_connection ::
  "nat option \<Rightarrow> ('id connection_state \<Rightarrow> 'id connection_state) \<Rightarrow> 'id http_world \<Rightarrow> 'id http_world" where
  "change_connection ci f w =
     (case Option.bind ci (hm_get (hw_connections w)) of
       None \<Rightarrow> w
     | Some io \<Rightarrow> put_connection (the ci) io (io\<lparr>io_state := f (io_state io)\<rparr>) w)"

definition give_back :: "request_admission option \<Rightarrow> 'id http_world \<Rightarrow> 'id http_world" where
  "give_back p w =
     (case p of
       None \<Rightarrow> w
     | Some Ordinary_permit \<Rightarrow> w\<lparr>hw_ordinary := hw_ordinary w + 1\<rparr>
     | Some Stream_permit \<Rightarrow> w\<lparr>hw_streams := hw_streams w + 1\<rparr>)"

definition cancel_lease :: "mcp_request_lease \<Rightarrow> 'id http_world \<Rightarrow> 'id http_world" where
  "cancel_lease l w = w\<lparr>hw_auth := hw_auth w\<lparr>mt_authorization := cancel_request l (mt_authorization (hw_auth w))\<rparr>\<rparr>"

section \<open>The registry of connections\<close>

definition registry_insert :: "nat \<Rightarrow> nat \<Rightarrow> 'id http_world \<Rightarrow> 'id http_world" where
  "registry_insert remote i w = w\<lparr>hw_registry := hm_insert remote i (hw_registry w)\<rparr>"

definition registry_get :: "nat \<Rightarrow> 'id http_world \<Rightarrow> nat option \<times> 'id http_world" where
  "registry_get remote w =
     (case Option.bind (hm_get (hw_registry w) remote)
             (\<lambda>i. if hm_get (hw_connections w) i = None then None else Some i) of
       None \<Rightarrow> (None, w\<lparr>hw_registry := hm_remove remote (hw_registry w)\<rparr>)
     | Some i \<Rightarrow> (Some i, w))"

definition registry_remove :: "nat \<Rightarrow> nat \<Rightarrow> 'id http_world \<Rightarrow> 'id http_world" where
  "registry_remove remote i w =
     (if hm_get (hw_registry w) remote = Some i then w\<lparr>hw_registry := hm_remove remote (hw_registry w)\<rparr> else w)"

text \<open>The active requests of the live connections of the registry.\<close>

definition registered_active :: "'id http_world \<Rightarrow> 'id active_http_request list" where
  "registered_active w =
     List.map_filter (\<lambda>(remote, i). Option.bind (hm_get (hw_connections w) i) (\<lambda>io. cn_active (io_state io))) (hw_registry w)"

definition registry_retain_request ::
  "nat \<Rightarrow> mcp_request_lease \<Rightarrow> 'id request_key option \<Rightarrow> 'id http_world \<Rightarrow> bool \<times> 'id http_world" where
  "registry_retain_request i l key w =
     (if key \<noteq> None \<and> list_ex (\<lambda>r. ar_key r = key) (registered_active w) then (False, w)
      else
        (case hm_get (hw_connections w) i of
          None \<Rightarrow> (False, w)
        | Some io \<Rightarrow>
            (let (kept, st) = conn_retain_request \<lparr>ar_lease = l, ar_key = key\<rparr> (io_state io)
             in (kept, put_connection i io (io\<lparr>io_state := st\<rparr>) w))))"

definition registry_cancel_request :: "'id request_key \<Rightarrow> 'id http_world \<Rightarrow> 'id http_world" where
  "registry_cancel_request key w =
     fold (\<lambda>r w. if ar_key r = Some key then cancel_lease (ar_lease r) w else w) (registered_active w) w"

text \<open>\<open>accept\<close> once it has a slot and a socket; the drop of the socket's connection.\<close>

definition accept_connection :: "stream_policy \<Rightarrow> nat \<Rightarrow> nat \<Rightarrow> 'id http_world \<Rightarrow> 'id http_world" where
  "accept_connection policy remote i w =
     registry_insert remote i
       (w\<lparr>hw_slots := hw_slots w - 1,
          hw_connections := hm_insert i \<lparr>io_remote = remote, io_state = connection_default, io_wire = tracker_default, io_policy = policy,
            io_waker = False\<rparr> (hw_connections w)\<rparr>)"

definition drop_connection :: "nat \<Rightarrow> 'id http_world \<Rightarrow> 'id http_world" where
  "drop_connection i w =
     (case hm_get (hw_connections w) i of
       None \<Rightarrow> w
     | Some io \<Rightarrow>
         (let (l, st) = cancel_active_request (io_state io);
              w1 = (case l of None \<Rightarrow> w | Some lease \<Rightarrow> cancel_lease lease w);
              w2 = registry_remove (io_remote io) i w1
          in w2\<lparr>hw_connections := hm_remove i (hw_connections w2),
                hw_ordinary := hw_ordinary w2 + returned (cn_ordinary st) False,
                hw_streams := hw_streams w2 + returned (cn_stream st) False,
                hw_slots := hw_slots w2 + 1\<rparr>))"

section \<open>Reading a request\<close>

definition valid_host :: "(string \<Rightarrow> string option) \<Rightarrow> string list \<Rightarrow> string \<Rightarrow> bool" where
  "valid_host to_str hosts expected \<longleftrightarrow> (case hosts of [v] \<Rightarrow> to_str v = Some expected | _ \<Rightarrow> False)"

definition valid_origin :: "(string \<Rightarrow> string option) \<Rightarrow> string list \<Rightarrow> string \<Rightarrow> bool" where
  "valid_origin to_str origins expected \<longleftrightarrow>
     (case origins of [] \<Rightarrow> True | [v] \<Rightarrow> to_str v = Some expected | _ \<Rightarrow> False)"

definition bearer_token :: "(string \<Rightarrow> string option) \<Rightarrow> string list \<Rightarrow> string option" where
  "bearer_token to_str values =
     (case values of [v] \<Rightarrow> Option.bind (to_str v) (strip_prefix ''Bearer '') | _ \<Rightarrow> None)"

definition authorized_request ::
  "(string \<Rightarrow> string option) \<Rightarrow> (string \<Rightarrow> string option) \<Rightarrow> u64 \<Rightarrow> nat \<Rightarrow> string list \<Rightarrow> mcp_http_auth
    \<Rightarrow> mcp_request_lease option \<times> mcp_http_auth" where
  "authorized_request to_str decode loaded now values auth =
     (case bearer_token to_str values of
       None \<Rightarrow> (None, auth)
     | Some presented \<Rightarrow> authorize decode loaded now presented auth)"

fun is_listen :: "json \<Rightarrow> bool" where
  "is_listen (JArray items) = list_ex is_listen items"
| "is_listen (JObject m) = (Option.bind (map_of m ''method'') as_str = Some ''subscriptions/listen'')"
| "is_listen _ = False"

fun is_write :: "json \<Rightarrow> bool" where
  "is_write (JArray items) = list_ex is_write items"
| "is_write (JObject m) =
     (Option.bind (map_of m ''method'') as_str = Some ''tools/call''
      \<and> (case Option.bind (Option.bind (Option.bind (map_of m ''params'') as_object) (\<lambda>p. map_of p ''name'')) as_str of
           None \<Rightarrow> False
         | Some name \<Rightarrow> is_write_tool_name name))"
| "is_write _ = False"

definition contains_listen_request :: "(string \<Rightarrow> json option) \<Rightarrow> string \<Rightarrow> bool" where
  "contains_listen_request parse body \<longleftrightarrow> (case parse body of None \<Rightarrow> False | Some v \<Rightarrow> is_listen v)"

definition contains_write_tool_call :: "(string \<Rightarrow> json option) \<Rightarrow> string \<Rightarrow> bool" where
  "contains_write_tool_call parse body \<longleftrightarrow> (case parse body of None \<Rightarrow> False | Some v \<Rightarrow> is_write v)"

text \<open>The first value of the content type, up to a semicolon.\<close>

definition is_sse_response :: "(string \<Rightarrow> string option) \<Rightarrow> string option \<Rightarrow> bool" where
  "is_sse_response to_str content_type \<longleftrightarrow>
     (case Option.bind content_type to_str of
       None \<Rightarrow> False
     | Some v \<Rightarrow>
         map to_ascii_lowercase (trim_ascii (hd (split_bytes (CHR '';'') v))) = ''text/event-stream'')"

section \<open>The handler of a request\<close>

text \<open>\<open>authenticate_and_limit\<close> up to the reading of the body.\<close>

definition admit_head ::
  "(string \<Rightarrow> string option) \<Rightarrow> (string \<Rightarrow> string option) \<Rightarrow> string \<Rightarrow> string \<Rightarrow> http_parts \<Rightarrow> nat option \<Rightarrow> u64 \<Rightarrow> nat \<Rightarrow> nat
    \<Rightarrow> 'id http_world \<Rightarrow> (http_status + 'id http_handler) \<times> 'id http_world" where
  "admit_head to_str decode authority origin parts remote loaded now started w =
     (if \<not> valid_host to_str (hp_host parts) authority \<or> \<not> valid_origin to_str (hp_origin parts) origin
      then (Inl Forbidden, w)
      else
        (case authorized_request to_str decode loaded now (hp_authorization parts) (hw_auth w) of
          (None, auth) \<Rightarrow> (Inl Unauthorized, w\<lparr>hw_auth := auth\<rparr>)
        | (Some lease, auth) \<Rightarrow>
            (let (connection, w1) = (case remote of None \<Rightarrow> (None, w\<lparr>hw_auth := auth\<rparr>)
                                      | Some r \<Rightarrow> registry_get r (w\<lparr>hw_auth := auth\<rparr>))
             in (Inr \<lparr>hl_parts = parts, hl_lease = lease, hl_started = started, hl_connection = connection,
                   hl_deadline = 0, hl_long = False, hl_key = None, hl_cancellation = None, hl_permit = None,
                   hl_point = At_body\<rparr>, w1))))"

datatype body_outcome = Body string | Body_failed | Body_late

text \<open>The clock is read for the deadline (\<open>now\<close>) and for the currency of the lease (\<open>later\<close>).\<close>

definition read_body ::
  "(string \<Rightarrow> json option) \<Rightarrow> (http_parts \<Rightarrow> string \<Rightarrow> 'id request_key option) \<Rightarrow> (http_parts \<Rightarrow> string \<Rightarrow> 'id request_key option)
    \<Rightarrow> stream_policy \<Rightarrow> body_outcome \<Rightarrow> nat \<Rightarrow> nat \<Rightarrow> 'id http_handler \<Rightarrow> 'id http_world \<Rightarrow> 'id http_handler \<times> 'id http_world" where
  "read_body parse request_key_of cancellation_key_of policy outcome now later h w =
     (case outcome of
       Body_failed \<Rightarrow> (h\<lparr>hl_point := At_end Payload_too_large\<rparr>, w)
     | Body_late \<Rightarrow> (h\<lparr>hl_point := At_end Request_timeout\<rparr>, cancel_lease (hl_lease h) w)
     | Body body \<Rightarrow>
         (let post = (hp_method (hl_parts h) = Post);
              write_request = (post \<and> contains_write_tool_call parse body);
              deadline = hl_started h + (if write_request then WRITE_REQUEST_TIMEOUT else sp_request policy)
          in if now \<ge> deadline
             then (h\<lparr>hl_point := At_end Request_timeout\<rparr>, cancel_lease (hl_lease h) w)
             else if \<not> lease_is_current later (hl_lease h) (mt_authorization (hw_auth w))
             then (h\<lparr>hl_point := At_end Unauthorized\<rparr>, w)
             else (h\<lparr>hl_deadline := deadline,
                     hl_long := (hp_method (hl_parts h) = Get \<or> (post \<and> contains_listen_request parse body)),
                     hl_key := request_key_of (hl_parts h) body,
                     hl_cancellation := (if post then cancellation_key_of (hl_parts h) body else None),
                     hl_point := At_cancellation\<rparr>, w)))"

definition run_cancellation :: "'id http_handler \<Rightarrow> 'id http_world \<Rightarrow> 'id http_handler \<times> 'id http_world" where
  "run_cancellation h w =
     (let w1 = (case hl_cancellation h of
            None \<Rightarrow> w
          | Some key \<Rightarrow> if rk_session key = None then registry_cancel_request key w else w)
      in (h\<lparr>hl_lease := set_request_deadline (hl_deadline h) (hl_lease h),
            hl_point := (if hl_cancellation h \<noteq> None then At_notify else At_acquire)\<rparr>, w1))"

definition acquire_permit :: "'id http_handler \<Rightarrow> 'id http_world \<Rightarrow> 'id http_handler \<times> 'id http_world" where
  "acquire_permit h w =
     (if hl_long h
      then if hw_streams w = 0 then (h\<lparr>hl_point := At_end Service_unavailable\<rparr>, w)
           else (h\<lparr>hl_permit := Some Stream_permit, hl_point := At_retain\<rparr>, w\<lparr>hw_streams := hw_streams w - 1\<rparr>)
      else if hw_ordinary w = 0 then (h\<lparr>hl_point := At_end Service_unavailable\<rparr>, w)
           else (h\<lparr>hl_permit := Some Ordinary_permit, hl_point := At_retain\<rparr>, w\<lparr>hw_ordinary := hw_ordinary w - 1\<rparr>))"

text \<open>A permit that the connection does not keep is dropped.\<close>

definition retain_permit :: "'id http_handler \<Rightarrow> 'id http_world \<Rightarrow> 'id http_handler \<times> 'id http_world" where
  "retain_permit h w =
     (let refused = (h\<lparr>hl_permit := None, hl_point := At_end Service_unavailable\<rparr>, give_back (hl_permit h) w)
      in case Option.bind (hl_connection h) (hm_get (hw_connections w)) of
           None \<Rightarrow> refused
         | Some io \<Rightarrow>
             (let (kept, st) = (if hl_permit h = Some Ordinary_permit then retain_ordinary (io_state io)
                                else retain_stream (io_state io))
              in if kept
                 then (h\<lparr>hl_permit := None, hl_point := At_register\<rparr>,
                       put_connection (the (hl_connection h)) io (io\<lparr>io_state := st\<rparr>) w)
                 else refused))"

definition release_both :: "'id connection_state \<Rightarrow> 'id connection_state" where
  "release_both c = release_stream (release_ordinary c)"

definition register_request :: "'id http_handler \<Rightarrow> 'id http_world \<Rightarrow> 'id http_handler \<times> 'id http_world" where
  "register_request h w =
     (case hl_connection h of
       None \<Rightarrow> (h\<lparr>hl_point := At_run\<rparr>, w)
     | Some i \<Rightarrow>
         (let (kept, w1) = registry_retain_request i (hl_lease h) (hl_key h) w
          in if kept
             then (h\<lparr>hl_point := At_run\<rparr>,
                   change_connection (Some i)
                     (\<lambda>c. set_head_request (hp_method (hl_parts h) = Head) (conn_set_deadline (Some (hl_deadline h)) c)) w1)
             else (h\<lparr>hl_point := At_end Conflict\<rparr>, change_connection (Some i) release_both w1)))"

text \<open>
  The answer of the service: \<open>None\<close> is that the deadline came first, \<open>Some sse\<close> is an answer and
  whether it is a stream of events. Up to when the handler waits is \<open>run_until\<close>.
\<close>

definition run_until :: "stream_policy \<Rightarrow> 'id http_handler \<Rightarrow> nat" where
  "run_until policy h = (if hl_long h then hl_started h + sp_maximum policy else hl_deadline h)"

definition run_request :: "bool option \<Rightarrow> 'id http_handler \<Rightarrow> 'id http_world \<Rightarrow> 'id http_handler \<times> 'id http_world" where
  "run_request answer h w =
     (let w1 = (if answer = None then cancel_lease (hl_lease h) w else w);
          h1 = h\<lparr>hl_point := At_end (if answer = None then Gateway_timeout else Service_answer)\<rparr>
      in if answer = Some True then (h1, w1)
         else (h1, change_connection (hl_connection h)
                (\<lambda>c. release_stream (release_ordinary (finish_request (rl_request_id (hl_lease h)) c))) w1))"

definition run_notification :: "bool option \<Rightarrow> 'id http_handler \<Rightarrow> 'id http_world \<Rightarrow> 'id http_handler \<times> 'id http_world" where
  "run_notification answer h w =
     (h\<lparr>hl_point := At_end (if answer = None then Gateway_timeout else Service_answer)\<rparr>, w)"

text \<open>A handler that is dropped gives its permit back.\<close>

definition abandon :: "'id http_handler \<Rightarrow> 'id http_world \<Rightarrow> 'id http_world" where
  "abandon h w = give_back (hl_permit h) w"

end
