(* ===== verification/Mcp_Http_Laws.thy ===== *)
theory Mcp_Http_Laws
  imports Mcp_Http
begin

text \<open>
  The HTTP entry with any number of connections and handlers at work: permits are conserved, the keys of
  the running requests are unique, and only a request with the current token gets past its body.
\<close>

section \<open>The system\<close>

record 'id http_config =
  hc_to_str :: "string \<Rightarrow> string option"
  hc_decode :: "string \<Rightarrow> string option"
  hc_authority :: string
  hc_origin :: string
  hc_parse :: "string \<Rightarrow> json option"
  hc_request_key :: "http_parts \<Rightarrow> string \<Rightarrow> 'id request_key option"
  hc_cancellation_key :: "http_parts \<Rightarrow> string \<Rightarrow> 'id request_key option"
  hc_policy :: stream_policy

text \<open>
  \<open>hs_bumps\<close> counts the revocations begun, \<open>hs_epochs\<close> holds the count at the admission of each handler;
  neither is read by the code.
\<close>

record 'id http_system =
  hs_world :: "'id http_world"
  hs_handlers :: "(nat, 'id http_handler) hash_map"
  hs_bumps :: nat
  hs_epochs :: "nat \<Rightarrow> nat"

definition http_init :: "mcp_http_auth \<Rightarrow> 'id http_system" where
  "http_init auth = \<lparr>hs_world = limits_default auth, hs_handlers = [], hs_bumps = 0, hs_epochs = (\<lambda>_. 0)\<rparr>"

text \<open>One stretch of a handler that is past its head, with what the environment gives.\<close>

definition handler_step ::
  "'id http_config \<Rightarrow> body_outcome \<Rightarrow> nat \<Rightarrow> nat \<Rightarrow> bool option \<Rightarrow> 'id http_handler \<Rightarrow> 'id http_world
    \<Rightarrow> ('id http_handler \<times> 'id http_world) option" where
  "handler_step cfg body now later answer h w =
     (case hl_point h of
       At_body \<Rightarrow> Some (read_body (hc_parse cfg) (hc_request_key cfg) (hc_cancellation_key cfg) (hc_policy cfg) body now later h w)
     | At_cancellation \<Rightarrow> Some (run_cancellation h w)
     | At_acquire \<Rightarrow> Some (acquire_permit h w)
     | At_retain \<Rightarrow> Some (retain_permit h w)
     | At_register \<Rightarrow> Some (register_request h w)
     | At_run \<Rightarrow> Some (run_request answer h w)
     | At_notify \<Rightarrow> Some (run_notification answer h w)
     | At_end st \<Rightarrow> None)"

inductive http_step :: "'id http_config \<Rightarrow> 'id http_system \<Rightarrow> 'id http_system \<Rightarrow> bool" for cfg where
  accept: "hw_slots (hs_world s) > 0 \<Longrightarrow> hm_get (hw_connections (hs_world s)) i = None \<Longrightarrow>
    http_step cfg s (s\<lparr>hs_world := accept_connection (hc_policy cfg) remote i (hs_world s)\<rparr>)"
| close: "(\<And>k h. hm_get (hs_handlers s) k = Some h \<Longrightarrow> hl_connection h \<noteq> Some i) \<Longrightarrow>
    http_step cfg s (s\<lparr>hs_world := drop_connection i (hs_world s)\<rparr>)"
| refuse: "admit_head (hc_to_str cfg) (hc_decode cfg) (hc_authority cfg) (hc_origin cfg) parts remote loaded now started (hs_world s)
      = (Inl st, w) \<Longrightarrow> http_step cfg s (s\<lparr>hs_world := w\<rparr>)"
| admit: "admit_head (hc_to_str cfg) (hc_decode cfg) (hc_authority cfg) (hc_origin cfg) parts remote loaded now started (hs_world s)
      = (Inr h, w) \<Longrightarrow> hm_get (hs_handlers s) k = None \<Longrightarrow>
    http_step cfg s (s\<lparr>hs_world := w, hs_handlers := hm_insert k h (hs_handlers s),
      hs_epochs := (hs_epochs s)(k := hs_bumps s)\<rparr>)"
| act: "hm_get (hs_handlers s) k = Some h \<Longrightarrow> handler_step cfg body now later answer h (hs_world s) = Some (h', w) \<Longrightarrow>
    http_step cfg s (s\<lparr>hs_world := w, hs_handlers := hm_insert k h' (hs_handlers s)\<rparr>)"
| leave: "hm_get (hs_handlers s) k = Some h \<Longrightarrow>
    http_step cfg s (s\<lparr>hs_world := abandon h (hs_world s), hs_handlers := hm_remove k (hs_handlers s)\<rparr>)"
| wire: "hm_get (hw_connections (hs_world s)) i = Some io \<Longrightarrow>
    poll_write now polled written_at buffer answered io = (r, io', woken) \<Longrightarrow>
    http_step cfg s (s\<lparr>hs_world := put_connection i io io' (hs_world s)\<rparr>)"
| replace: "http_step cfg s (s\<lparr>hs_world := hs_world s\<lparr>hw_auth := replace_token token (hw_auth (hs_world s))\<rparr>,
    hs_bumps := hs_bumps s + 1\<rparr>)"
| disable: "http_step cfg s (s\<lparr>hs_world := hs_world s\<lparr>hw_auth := disable_token (hw_auth (hs_world s))\<rparr>,
    hs_bumps := hs_bumps s + 1\<rparr>)"
| bump: "http_step cfg s (s\<lparr>hs_world := hs_world s\<lparr>hw_auth := hw_auth (hs_world s)
    \<lparr>mt_authorization := snd (revoke_bump (mt_authorization (hw_auth (hs_world s))))\<rparr>\<rparr>, hs_bumps := hs_bumps s + 1\<rparr>)"
| other: "ma_revision a = ma_revision (mt_authorization (hw_auth (hs_world s))) \<Longrightarrow>
    ma_cancelled (mt_authorization (hw_auth (hs_world s))) \<subseteq> ma_cancelled a \<Longrightarrow>
    http_step cfg s (s\<lparr>hs_world := hs_world s\<lparr>hw_auth := hw_auth (hs_world s)\<lparr>mt_authorization := a\<rparr>\<rparr>\<rparr>)"

definition http_reach :: "'id http_config \<Rightarrow> mcp_http_auth \<Rightarrow> 'id http_system \<Rightarrow> bool" where
  "http_reach cfg auth s \<longleftrightarrow> (http_step cfg)\<^sup>*\<^sup>* (http_init auth) s"

lemma http_reach_induct [consumes 1, case_names init step]:
  assumes "http_reach cfg auth s" "P (http_init auth)"
    and "\<And>s s'. http_reach cfg auth s \<Longrightarrow> P s \<Longrightarrow> http_step cfg s s' \<Longrightarrow> P s'"
  shows "P s"
  using assms(1) unfolding http_reach_def
  by (induction rule: rtranclp_induct) (auto intro: assms(2,3) simp: http_reach_def)

section \<open>Permits\<close>

definition held :: "('a \<Rightarrow> bool) \<Rightarrow> (nat, 'a) hash_map \<Rightarrow> nat" where
  "held P m = sum_list (map (\<lambda>p. of_bool (P (snd p))) m)"

lemma held_Nil [simp]: "held P [] = 0"
  by (simp add: held_def)





text \<open>What the world has of each kind of permit, free or held by a connection.\<close>

definition balance :: "'id http_world \<Rightarrow> nat \<times> nat \<times> nat" where
  "balance w =
     (hw_ordinary w + held (\<lambda>io. cn_ordinary (io_state io)) (hw_connections w),
      hw_streams w + held (\<lambda>io. cn_stream (io_state io)) (hw_connections w),
      hw_slots w + length (hw_connections w))"

definition with_permit :: "request_admission option \<Rightarrow> nat \<times> nat \<times> nat \<Rightarrow> nat \<times> nat \<times> nat" where
  "with_permit p b = (case b of (x, y, z) \<Rightarrow>
     (x + of_bool (p = Some Ordinary_permit), y + of_bool (p = Some Stream_permit), z))"

lemma with_permit_None [simp]: "with_permit None b = b"
  by (cases b) (simp add: with_permit_def)

definition keeps_less :: "'id connection_state \<Rightarrow> 'id connection_state \<Rightarrow> bool" where
  "keeps_less c c' \<longleftrightarrow> (cn_ordinary c' \<longrightarrow> cn_ordinary c) \<and> (cn_stream c' \<longrightarrow> cn_stream c)"

lemma put_frame [simp, frame]:
  "hw_auth (put_connection i io io' w) = hw_auth w" "hw_slots (put_connection i io io' w) = hw_slots w"
  "hw_registry (put_connection i io io' w) = hw_registry w"
  "hw_connections (put_connection i io io' w) = hm_insert i io' (hw_connections w)"
  by (simp_all add: put_connection_def)



lemma cancel_frame [simp, frame]:
  "hw_ordinary (cancel_lease l w) = hw_ordinary w" "hw_streams (cancel_lease l w) = hw_streams w"
  "hw_slots (cancel_lease l w) = hw_slots w" "hw_registry (cancel_lease l w) = hw_registry w"
  "hw_connections (cancel_lease l w) = hw_connections w"
  by (simp_all add: cancel_lease_def)

lemma cancel_all_frame [simp, frame]:
  "hw_connections (registry_cancel_request key w) = hw_connections w \<and> hw_registry (registry_cancel_request key w) = hw_registry w
   \<and> hw_ordinary (registry_cancel_request key w) = hw_ordinary w \<and> hw_streams (registry_cancel_request key w) = hw_streams w
   \<and> hw_slots (registry_cancel_request key w) = hw_slots w"
proof -
  have "hw_connections w' = hw_connections w \<and> hw_registry w' = hw_registry w \<and> hw_ordinary w' = hw_ordinary w
      \<and> hw_streams w' = hw_streams w \<and> hw_slots w' = hw_slots w"
    if "w' = fold (\<lambda>r w. if ar_key r = Some key then cancel_lease (ar_lease r) w else w) rs w" for rs w'
    using that by (induction rs arbitrary: w w') auto
  then show ?thesis
    unfolding registry_cancel_request_def by blast
qed


lemma give_back_balance:
  "balance (give_back p w) = with_permit p (balance w) \<and> hw_connections (give_back p w) = hw_connections w
    \<and> hw_registry (give_back p w) = hw_registry w \<and> hw_auth (give_back p w) = hw_auth w"
  by (auto simp: give_back_def balance_def with_permit_def split: option.splits request_admission.splits)



lemma keeps_less_refl [simp]: "keeps_less c c"
  by (simp add: keeps_less_def)

lemma keeps_less_trans: "keeps_less a b \<Longrightarrow> keeps_less b c \<Longrightarrow> keeps_less a c"
  by (auto simp: keeps_less_def)

lemma finish_if_keeps: "cn_ordinary (finish_if i c) = cn_ordinary c" "cn_stream (finish_if i c) = cn_stream c"
  by (auto simp: finish_if_def finish_request_def split: option.splits)

lemma finish_request_keeps: "cn_ordinary (finish_request i c) = cn_ordinary c" "cn_stream (finish_request i c) = cn_stream c"
  by (auto simp: finish_request_def)

lemmas wire_ops = clear_request_def set_head_request_def conn_set_deadline_def release_ordinary_def release_stream_def

lemma observe_byte_keeps: "keeps_less c (snd (observe_byte now policy b (t, c)))"
  by (auto simp: observe_byte_def begin_response_def finish_response_def keeps_less_def wire_ops finish_if_keeps Let_def
    split: option.splits prod.splits if_splits)

lemma wire_observe_keeps: "keeps_less c (snd (wire_observe bytes now policy (t, c)))"
proof (induction bytes arbitrary: t c)
  case Nil
  show ?case
    by (simp add: wire_observe_def)
next
  case (Cons b bytes)
  obtain t' c' where o: "observe_byte now policy b (t, c) = (t', c')"
    by fastforce
  then show ?case
    using Cons [of c' t'] observe_byte_keeps [of c now policy b t] keeps_less_trans
    by (simp add: wire_observe_def) blast
qed

lemma poll_write_keeps:
  assumes "poll_write now polled at buffer answered io = (r, io', woken)"
  shows "keeps_less (io_state io) (io_state io') \<and> io_remote io' = io_remote io"
  using assms wire_observe_keeps [of "io_state io" _ _ _ "io_wire io"]
  by (auto simp: poll_write_def Let_def split: if_splits io_poll.splits prod.splits) (metis snd_conv)+













section \<open>Keys of running requests\<close>

definition active_of :: "'id http_world \<Rightarrow> nat \<Rightarrow> 'id active_http_request option" where
  "active_of w i = Option.bind (hm_get (hw_connections w) i) (\<lambda>io. cn_active (io_state io))"

definition registered :: "'id http_world \<Rightarrow> nat \<Rightarrow> bool" where
  "registered w i \<longleftrightarrow> (\<exists>io. hm_get (hw_connections w) i = Some io \<and> hm_get (hw_registry w) (io_remote io) = Some i)"

definition keys_ok :: "'id http_world \<Rightarrow> bool" where
  "keys_ok w \<longleftrightarrow>
     hm_ok (hw_registry w) \<and> hm_ok (hw_connections w)
   \<and> (\<forall>r i. hm_get (hw_registry w) r = Some i \<longrightarrow> (\<exists>io. hm_get (hw_connections w) i = Some io \<and> io_remote io = r))
   \<and> (\<forall>i j a b. registered w i \<and> registered w j \<and> active_of w i = Some a \<and> active_of w j = Some b
        \<and> ar_key a = ar_key b \<and> ar_key a \<noteq> None \<longrightarrow> i = j)"

lemma keys_okD:
  assumes "keys_ok w"
  shows "hm_ok (hw_registry w)" "hm_ok (hw_connections w)"
    and "hm_get (hw_registry w) r = Some i \<Longrightarrow> \<exists>io. hm_get (hw_connections w) i = Some io \<and> io_remote io = r"
  using assms unfolding keys_ok_def by blast+

text \<open>A change that starts no request and opens no connection.\<close>

definition lighter :: "'id http_world \<Rightarrow> 'id http_world \<Rightarrow> bool" where
  "lighter w w' \<longleftrightarrow>
     hm_ok (hw_registry w') \<and> hm_ok (hw_connections w')
   \<and> (\<forall>r i. hm_get (hw_registry w') r = Some i \<longrightarrow>
        hm_get (hw_registry w) r = Some i \<and> hm_get (hw_connections w') i \<noteq> None)
   \<and> (\<forall>i io'. hm_get (hw_connections w') i = Some io' \<longrightarrow>
        (\<exists>io. hm_get (hw_connections w) i = Some io \<and> io_remote io' = io_remote io
           \<and> cn_active (io_state io') \<in> {None, cn_active (io_state io)}))"

lemma lighter_keys:
  assumes "keys_ok w" "lighter w w'"
  shows "keys_ok w'"
proof -
  have reg: "registered w i" if "registered w' i" for i
    using that assms(2) unfolding registered_def lighter_def by metis
  have act: "active_of w i = Some a" if "active_of w' i = Some a" for i a
    using that assms(2) unfolding active_of_def lighter_def by (fastforce split: bind_splits)
  have "\<exists>io. hm_get (hw_connections w') i = Some io \<and> io_remote io = r" if "hm_get (hw_registry w') r = Some i" for r i
    using that assms unfolding keys_ok_def lighter_def by (metis not_Some_eq option.inject)
  then show ?thesis
    using assms reg act unfolding keys_ok_def lighter_def by meson
qed

lemma lighter_put:
  assumes "keys_ok w" "hm_get (hw_connections w) i = Some io" "io_remote io' = io_remote io"
    and "cn_active (io_state io') \<in> {None, cn_active (io_state io)}"
  shows "lighter w (put_connection i io io' w)"
  using keys_okD(1,2) [OF assms(1)] assms(2-4) by (auto simp: lighter_def hm_get_insert dest: keys_okD(3) [OF assms(1)])

lemma lighter_cong:
  "keys_ok w \<Longrightarrow> hw_connections w' = hw_connections w \<Longrightarrow> hw_registry w' = hw_registry w \<Longrightarrow> lighter w w'"
  by (auto simp: lighter_def keys_okD dest: keys_okD(3))

lemmas lighter_refl = lighter_cong [OF _ refl refl]

lemma lighter_change:
  assumes "keys_ok w" "\<And>c. cn_active (f c) \<in> {None, cn_active c}"
  shows "lighter w (change_connection ci f w)"
  using assms(1) lighter_put [OF assms(1), of "the ci"] assms(2)
  by (auto simp: change_connection_def lighter_refl split: option.splits bind_splits)

lemma registered_active_in:
  assumes "registered w i" "active_of w i = Some a"
  shows "a \<in> set (registered_active w)"
proof -
  obtain r where "(r, i) \<in> set (hw_registry w)"
    using assms(1) by (auto simp: registered_def dest: map_of_SomeD)
  then show ?thesis
    using assms(2) by (force simp: registered_active_def in_map_filter active_of_def)
qed

lemma finish_if_active: "cn_active (finish_if i c) \<in> {None, cn_active c}"
  by (auto simp: finish_if_def finish_request_def split: option.splits)

lemma observe_byte_active: "cn_active (snd (observe_byte now policy b (t, c))) \<in> {None, cn_active c}"
  using finish_if_active [of _ c] finish_if_active [of _ "c\<lparr>cn_deadline := None\<rparr>"]
  by (auto simp: observe_byte_def begin_response_def finish_response_def wire_ops Let_def
    split: option.splits prod.splits if_splits)

lemma wire_observe_active: "cn_active (snd (wire_observe bytes now policy (t, c))) \<in> {None, cn_active c}"
proof (induction bytes arbitrary: t c)
  case Nil
  show ?case
    by (simp add: wire_observe_def)
next
  case (Cons b bytes)
  obtain t' c' where o: "observe_byte now policy b (t, c) = (t', c')"
    by fastforce
  then show ?case
    using Cons [of t' c'] observe_byte_active [of now policy b t c] by (auto simp: wire_observe_def)
qed

lemma poll_write_active:
  assumes "poll_write now polled at buffer answered io = (r, io', woken)"
  shows "cn_active (io_state io') \<in> {None, cn_active (io_state io)}"
  using assms wire_observe_active [of _ _ _ "io_wire io" "io_state io"]
  by (auto simp: poll_write_def Let_def split: if_splits io_poll.splits prod.splits) (metis snd_conv)+

lemma lighter_drop:
  assumes "keys_ok w"
  shows "lighter w (drop_connection i w)"
proof (cases "hm_get (hw_connections w) i")
  case None
  then show ?thesis
    using assms by (simp add: drop_connection_def lighter_refl)
next
  case (Some io)
  define w' where "w' = drop_connection i w"
  have con: "hw_connections w' = hm_remove i (hw_connections w)"
    and reg: "hw_registry w' = (if hm_get (hw_registry w) (io_remote io) = Some i
      then hm_remove (io_remote io) (hw_registry w) else hw_registry w)"
    using Some by (auto simp: w'_def drop_connection_def registry_remove_def Let_def split: option.splits prod.splits)
  have "hm_get (hw_registry w') r = Some j \<Longrightarrow> j \<noteq> i \<and> hm_get (hw_registry w) r = Some j" for r j
    using keys_okD(3) [OF assms, of r j] Some by (auto simp: reg hm_get_remove split: if_splits)
  then have "hm_get (hw_registry w') r = Some j \<Longrightarrow> hm_get (hw_registry w) r = Some j \<and> hm_get (hw_connections w') j \<noteq> None" for r j
    using keys_okD(3) [OF assms, of r j] by (simp add: con hm_get_remove) blast
  moreover have "hm_ok (hw_registry w')" "hm_ok (hw_connections w')"
    using keys_okD(1,2) [OF assms] by (simp_all add: con reg)
  moreover have "hm_get (hw_connections w') j = Some io' \<Longrightarrow> hm_get (hw_connections w) j = Some io'" for j io'
    by (simp add: con hm_get_remove split: if_splits)
  ultimately show ?thesis
    unfolding lighter_def w'_def [symmetric] by blast
qed

lemma lighter_admit:
  assumes "keys_ok w" "admit_head to_str decode authority origin parts remote loaded now started w = (r, w')"
  shows "lighter w w'"
proof -
  have "registry_get x (w\<lparr>hw_auth := a\<rparr>) = (c, w') \<Longrightarrow>
      hw_connections w' = hw_connections w \<and> hw_registry w' = hw_registry w" for x a c
    using keys_okD(3) [OF assms(1), of x]
    by (cases "hm_get (hw_registry w) x") (auto simp: registry_get_def hm_remove_notin split: option.splits bind_splits if_splits)
  then have "hw_connections w' = hw_connections w \<and> hw_registry w' = hw_registry w"
    using assms(2) by (auto simp: admit_head_def Let_def split: if_splits option.splits prod.splits)
  then show ?thesis
    using assms(1) by (simp add: lighter_cong)
qed

lemma accept_keys:
  assumes "keys_ok w" "hm_get (hw_connections w) i = None"
  shows "keys_ok (accept_connection policy remote i w)"
proof -
  define w' where "w' = accept_connection policy remote i w"
  have con: "hm_get (hw_connections w') = (hm_get (hw_connections w))(i \<mapsto> \<lparr>io_remote = remote,
      io_state = connection_default, io_wire = tracker_default, io_policy = policy, io_waker = False\<rparr>)"
    and reg: "hw_registry w' = hm_insert remote i (hw_registry w)" and ok: "hm_ok (hw_connections w')"
    using keys_okD(2) [OF assms(1)] by (simp_all add: w'_def accept_connection_def registry_insert_def hm_get_insert)
  have new: "active_of w' i = None"
    by (simp add: active_of_def con connection_default_def)
  have old: "active_of w' j = active_of w j" if "j \<noteq> i" for j
    using that by (simp add: active_of_def con)
  have was: "registered w j" if "registered w' j" "j \<noteq> i" for j
    using that by (auto simp: registered_def con reg hm_get_insert split: if_splits)
  have not_i: "hm_get (hw_registry w) r \<noteq> Some i" for r
    using keys_okD(3) [OF assms(1), of r i] assms(2) by auto
  have "\<exists>io. hm_get (hw_connections w') j = Some io \<and> io_remote io = r"
    if "hm_get (hw_registry w') r = Some j" for r j
    using that keys_okD(3) [OF assms(1), of r j] assms(2)
    by (auto simp: con reg hm_get_insert split: if_splits)
  moreover have "j = j'" if "registered w' j" "registered w' j'" "active_of w' j = Some a" "active_of w' j' = Some b"
    "ar_key a = ar_key b" "ar_key a \<noteq> None" for j j' a b
  proof -
    have "j \<noteq> i" "j' \<noteq> i"
      using that new by auto
    then show ?thesis
      using that was old assms(1) unfolding keys_ok_def by metis
  qed
  moreover have "hm_ok (hw_registry w')"
    using keys_okD(1) [OF assms(1)] by (simp add: reg)
  ultimately show ?thesis
    using ok unfolding keys_ok_def w'_def [symmetric] by blast
qed

lemma retain_keys:
  assumes "keys_ok w" "registry_retain_request i l key w = (kept, w')"
  shows "keys_ok w' \<and> hw_auth w' = hw_auth w"
proof (cases "w' = w \<or> hm_get (hw_connections w) i = None")
  case True
  then show ?thesis
    using assms by (auto simp: registry_retain_request_def split: if_splits)
next
  case False
  then obtain io where io: "hm_get (hw_connections w) i = Some io"
    by blast
  have free: "key = None \<or> list_all (\<lambda>r. ar_key r \<noteq> key) (registered_active w)"
    using assms(2) False by (auto simp: registry_retain_request_def list_all_iff list_ex_iff split: if_splits)
  have w': "w' = put_connection i io (io\<lparr>io_state := snd (conn_retain_request \<lparr>ar_lease = l, ar_key = key\<rparr> (io_state io))\<rparr>) w"
    using assms(2) False io by (auto simp: registry_retain_request_def Let_def split: if_splits prod.splits)
  show ?thesis
  proof (cases "cn_active (io_state io)")
    case None
    then have new: "active_of w' i = Some \<lparr>ar_lease = l, ar_key = key\<rparr>"
      by (simp add: w' active_of_def hm_get_insert conn_retain_request_def)
    have old: "active_of w' j = active_of w j" if "j \<noteq> i" for j
      using that by (simp add: w' active_of_def hm_get_insert)
    have reg: "registered w' j = registered w j" for j
      using io by (auto simp: w' registered_def hm_get_insert)
    have other: "ar_key b \<noteq> key" if "registered w j" "active_of w j = Some b" "key \<noteq> None" for j b
      using free registered_active_in [OF that(1,2)] that(3) by (auto simp: list_all_iff)
    have "j = j'" if "registered w' j" "registered w' j'" "active_of w' j = Some a" "active_of w' j' = Some b"
      "ar_key a = ar_key b" "ar_key a \<noteq> None" for j j' a b
      using that new old reg other assms(1) unfolding keys_ok_def
      by (cases "j = i"; cases "j' = i") (metis active_http_request.select_convs(2) option.inject)+
    moreover have "hm_get (hw_registry w') r = Some j \<Longrightarrow> \<exists>io. hm_get (hw_connections w') j = Some io \<and> io_remote io = r" for r j
      using io by (auto simp: w' hm_get_insert dest: keys_okD(3) [OF assms(1)])
    moreover have "hm_ok (hw_registry w')" "hm_ok (hw_connections w')" "hw_auth w' = hw_auth w"
      using keys_okD(1,2) [OF assms(1)] by (simp_all add: w')
    ultimately show ?thesis
      unfolding keys_ok_def by blast
  next
    case (Some a)
    have "lighter w w'"
      unfolding w' by (rule lighter_put [OF assms(1) io]) (simp_all add: Some conn_retain_request_def)
    then show ?thesis
      using lighter_keys [OF assms(1)] by (simp add: w')
  qed
qed

lemma register_keys:
  assumes "keys_ok w" "register_request h w = (h', w')"
  shows "keys_ok w' \<and> hw_auth w' = hw_auth w"
proof (cases "hl_connection h")
  case None
  then show ?thesis
    using assms by (simp add: register_request_def)
next
  case (Some i)
  obtain kept w1 where r: "registry_retain_request i (hl_lease h) (hl_key h) w = (kept, w1)"
    by fastforce
  have k: "keys_ok w1" "hw_auth w1 = hw_auth w"
    using retain_keys [OF assms(1) r] by blast+
  have "keys_ok (change_connection ci f w1)" if "\<And>c. cn_active (f c) \<in> {None, cn_active c}" for ci and f :: "'a connection_state \<Rightarrow> 'a connection_state"
    by (rule lighter_keys [OF k(1) lighter_change [OF k(1) that]])
  moreover have "hw_auth (change_connection ci f w1) = hw_auth w1" for ci and f :: "'a connection_state \<Rightarrow> 'a connection_state"
    by (simp add: change_connection_def split: option.splits)
  ultimately show ?thesis
    using assms(2) Some r k by (auto simp: register_request_def release_both_def wire_ops split: if_splits)
qed

text \<open>What a stretch of a handler leaves alone.\<close>

definition same_lease :: "'id http_handler \<Rightarrow> 'id http_handler \<Rightarrow> bool" where
  "same_lease h h' \<longleftrightarrow> hl_parts h' = hl_parts h \<and> rl_token (hl_lease h') = rl_token (hl_lease h)
     \<and> rl_revision (hl_lease h') = rl_revision (hl_lease h)"

definition same_auth :: "'id http_world \<Rightarrow> 'id http_world \<Rightarrow> bool" where
  "same_auth w w' \<longleftrightarrow> mt_token (hw_auth w') = mt_token (hw_auth w)
     \<and> ma_revision (mt_authorization (hw_auth w')) = ma_revision (mt_authorization (hw_auth w))
     \<and> ma_cancelled (mt_authorization (hw_auth w)) \<subseteq> ma_cancelled (mt_authorization (hw_auth w'))"

lemma same_auth_eq: "hw_auth w' = hw_auth w \<Longrightarrow> same_auth w w'"
  by (simp add: same_auth_def)

lemma same_auth_cancel: "same_auth w (cancel_lease l w)"
  by (simp add: same_auth_def cancel_lease_def cancel_request_def)

lemma same_auth_trans: "same_auth w w1 \<Longrightarrow> same_auth w1 w2 \<Longrightarrow> same_auth w w2"
  by (auto simp: same_auth_def)

lemma same_auth_cancel_all: "same_auth w (registry_cancel_request key w)"
proof -
  have "same_auth w (fold (\<lambda>r w. if ar_key r = Some key then cancel_lease (ar_lease r) w else w) rs w)" for rs
  proof (induction rs arbitrary: w)
    case (Cons r rs)
    show ?case
      using Cons [of w] same_auth_trans [OF same_auth_cancel Cons] by simp
  qed (simp add: same_auth_def)
  then show ?thesis
    by (simp add: registry_cancel_request_def)
qed

lemma change_auth [simp, frame]: "hw_auth (change_connection ci f w) = hw_auth w"
  by (simp add: change_connection_def split: option.splits)

lemma same_auth_change [simp]: "same_auth w (change_connection ci f w') = same_auth w w'"
  by (simp add: same_auth_def)

lemma same_auth_refl [simp]: "same_auth w w"
  by (simp add: same_auth_def)

lemma retain_permit_keys:
  assumes "keys_ok w" "retain_permit h w = (h', w')"
  shows "keys_ok w' \<and> hw_auth w' = hw_auth w \<and> same_lease h h'"
proof -
  have g: "keys_ok (give_back (hl_permit h) w) \<and> hw_auth (give_back (hl_permit h) w) = hw_auth w"
    using give_back_balance [of "hl_permit h" w] lighter_keys [OF assms(1) lighter_cong [OF assms(1)]] by blast
  show ?thesis
  proof (cases "Option.bind (hl_connection h) (hm_get (hw_connections w))")
    case None
    then show ?thesis
      using assms(2) g by (auto simp: retain_permit_def same_lease_def)
  next
    case (Some io)
    then obtain i where i: "hl_connection h = Some i" "hm_get (hw_connections w) i = Some io"
      by (auto split: bind_splits)
    have "keys_ok (put_connection i io (io\<lparr>io_state := st\<rparr>) w)" if "cn_active st = cn_active (io_state io)" for st
      using lighter_keys [OF assms(1) lighter_put [OF assms(1) i(2), of "io\<lparr>io_state := st\<rparr>"]] that by simp
    then show ?thesis
      using assms(2) g i
      by (auto simp: retain_permit_def Let_def retain_ordinary_def retain_stream_def same_lease_def
        split: prod.splits if_splits)
  qed
qed

lemma handler_step_keys:
  assumes "keys_ok w" "handler_step cfg body now later answer h w = Some (h', w')"
  shows "keys_ok w' \<and> same_auth w w' \<and> same_lease h h'"
proof (cases "hl_point h")
  case At_body
  then have "w' = w \<or> w' = cancel_lease (hl_lease h) w" "same_lease h h'"
    using assms(2) by (auto simp: handler_step_def read_body_def Let_def same_lease_def split: body_outcome.splits if_splits)
  then show ?thesis
    using assms(1) same_auth_cancel [of w] lighter_keys [OF assms(1) lighter_cong [OF assms(1), of w']] by auto
next
  case At_cancellation
  then have "w' = w \<or> w' = registry_cancel_request (the (hl_cancellation h)) w" "same_lease h h'"
    using assms(2)
    by (auto simp: handler_step_def run_cancellation_def Let_def same_lease_def set_request_deadline_def split: option.splits)
  then show ?thesis
    using assms(1) same_auth_cancel_all [of w] lighter_keys [OF assms(1) lighter_cong [OF assms(1), of w']] by auto
next
  case At_acquire
  then have "hw_auth w' = hw_auth w" "same_lease h h'" "hw_connections w' = hw_connections w" "hw_registry w' = hw_registry w"
    using assms(2) by (auto simp: handler_step_def acquire_permit_def same_lease_def split: if_splits)
  then show ?thesis
    using lighter_keys [OF assms(1) lighter_cong [OF assms(1), of w']] by (simp add: same_auth_eq)
next
  case At_retain
  then have r: "retain_permit h w = (h', w')"
    using assms(2) by (simp add: handler_step_def)
  show ?thesis
    using retain_permit_keys [OF assms(1) r] by (simp add: same_auth_eq)
next
  case At_register
  then show ?thesis
    using assms register_keys [of w h h' w']
    by (auto simp: handler_step_def same_auth_eq same_lease_def register_request_def split: option.splits prod.splits if_splits)
next
  case At_run
  define w1 where "w1 = (if answer = None then cancel_lease (hl_lease h) w else w)"
  have k: "keys_ok w1" "same_auth w w1"
    using lighter_keys [OF assms(1) lighter_cong [OF assms(1), of w1]] same_auth_cancel [of w]
    by (simp_all add: w1_def)
  have "keys_ok (change_connection ci (\<lambda>c. release_stream (release_ordinary (finish_request r c))) w1)" for ci r
    by (rule lighter_keys [OF k(1) lighter_change [OF k(1)]]) (simp add: wire_ops finish_request_def)
  then show ?thesis
    using At_run assms(2) k unfolding handler_step_def run_request_def Let_def w1_def [symmetric]
    by (auto simp: same_lease_def split: if_splits)
next
  case At_notify
  then show ?thesis
    using assms by (auto simp: handler_step_def run_notification_def same_lease_def)
next
  case (At_end st)
  then show ?thesis
    using assms by (simp add: handler_step_def)
qed

section \<open>The token of a request\<close>

text \<open>The request of a handler was for this host and origin, and its token is current as long as its lease is.\<close>

definition well_met :: "'id http_config \<Rightarrow> u64 \<Rightarrow> 'id http_system \<Rightarrow> nat \<Rightarrow> 'id http_handler \<Rightarrow> bool" where
  "well_met cfg start s k h \<longleftrightarrow>
     hs_epochs s k \<le> hs_bumps s
   \<and> valid_host (hc_to_str cfg) (hp_host (hl_parts h)) (hc_authority cfg)
   \<and> valid_origin (hc_to_str cfg) (hp_origin (hl_parts h)) (hc_origin cfg)
   \<and> (\<exists>p. bearer_token (hc_to_str cfg) (hp_authorization (hl_parts h)) = Some p
        \<and> (rl_token (hl_lease h) \<in> ma_cancelled (mt_authorization (hw_auth (hs_world s)))
           \<or> (rl_revision (hl_lease h) = start + of_nat (hs_epochs s k)
              \<and> (hs_epochs s k = hs_bumps s \<longrightarrow>
                   (\<exists>tok. mt_token (hw_auth (hs_world s)) = Some tok \<and> token_matches (hc_decode cfg) tok p)))))"

definition entry_ok :: "'id http_config \<Rightarrow> u64 \<Rightarrow> 'id http_system \<Rightarrow> bool" where
  "entry_ok cfg start s \<longleftrightarrow>
     keys_ok (hs_world s)
   \<and> ma_revision (mt_authorization (hw_auth (hs_world s))) = start + of_nat (hs_bumps s)
   \<and> (\<forall>k h. hm_get (hs_handlers s) k = Some h \<longrightarrow> well_met cfg start s k h)"

lemma well_met_auth:
  assumes "well_met cfg start s k h" "same_auth (hs_world s) w" "same_lease h h'"
  shows "well_met cfg start (s\<lparr>hs_world := w, hs_handlers := m\<rparr>) k h'"
  using assms by (auto simp: well_met_def same_auth_def same_lease_def)

lemma well_met_bump:
  assumes "well_met cfg start s k h"
    and "ma_cancelled (mt_authorization (hw_auth (hs_world s))) \<subseteq> ma_cancelled (mt_authorization (hw_auth w))"
  shows "well_met cfg start (s\<lparr>hs_world := w, hs_bumps := hs_bumps s + 1\<rparr>) k h"
  using assms by (auto simp: well_met_def)

lemma entry_ok_world:
  assumes "entry_ok cfg start s" "keys_ok w" "same_auth (hs_world s) w"
  shows "entry_ok cfg start (s\<lparr>hs_world := w\<rparr>)"
proof -
  have "well_met cfg start (s\<lparr>hs_world := w\<rparr>) k h" if "hm_get (hs_handlers s) k = Some h" for k h
    using well_met_auth [of cfg start s k h w h "hs_handlers s"] assms(1,3) that
    by (simp add: entry_ok_def same_lease_def)
  then show ?thesis
    using assms by (simp add: entry_ok_def same_auth_def)
qed

lemma entry_ok_bump:
  assumes "entry_ok cfg start s" "hw_registry w = hw_registry (hs_world s)" "hw_connections w = hw_connections (hs_world s)"
    and "ma_revision (mt_authorization (hw_auth w)) = ma_revision (mt_authorization (hw_auth (hs_world s))) + 1"
    and "ma_cancelled (mt_authorization (hw_auth (hs_world s))) \<subseteq> ma_cancelled (mt_authorization (hw_auth w))"
  shows "entry_ok cfg start (s\<lparr>hs_world := w, hs_bumps := hs_bumps s + 1\<rparr>)"
proof -
  have "keys_ok w"
    using assms(1-3) lighter_keys lighter_cong unfolding entry_ok_def by blast
  moreover have "well_met cfg start (s\<lparr>hs_world := w, hs_bumps := hs_bumps s + 1\<rparr>) k h"
    if "hm_get (hs_handlers s) k = Some h" for k h
    using well_met_bump [OF _ assms(5)] assms(1) that by (simp add: entry_ok_def)
  ultimately show ?thesis
    using assms(1,4) by (simp add: entry_ok_def)
qed

lemma registry_get_auth: "hw_auth (snd (registry_get r w)) = hw_auth w"
  by (simp add: registry_get_def split: option.splits)

lemma current_lease_auth:
  assumes "current_lease loaded now a = (lease, a')"
  shows "ma_revision a' = ma_revision a \<and> ma_cancelled a \<subseteq> ma_cancelled a'
    \<and> (rl_token lease \<in> ma_cancelled a' \<or> rl_revision lease = ma_revision a')"
  using assms by (cases "loaded = ma_revision a") (auto simp: current_lease_def Let_def)

lemma authorized_auth:
  assumes "authorized_request to_str decode loaded now vs auth = (l, a)"
  shows "mt_token a = mt_token auth \<and> ma_revision (mt_authorization a) = ma_revision (mt_authorization auth)
    \<and> ma_cancelled (mt_authorization auth) \<subseteq> ma_cancelled (mt_authorization a)
    \<and> (\<forall>lease. l = Some lease \<longrightarrow> (\<exists>p tok. bearer_token to_str vs = Some p \<and> mt_token a = Some tok \<and> token_matches decode tok p
         \<and> (rl_token lease \<in> ma_cancelled (mt_authorization a) \<or> rl_revision lease = ma_revision (mt_authorization a))))"
proof (cases "\<exists>p tok. bearer_token to_str vs = Some p \<and> mt_token auth = Some tok \<and> token_matches decode tok p")
  case True
  then obtain p tok where p: "bearer_token to_str vs = Some p" "mt_token auth = Some tok" "token_matches decode tok p"
    by blast
  obtain lease a' where c: "current_lease loaded now (mt_authorization auth) = (lease, a')"
    by fastforce
  have "l = Some lease \<and> a = auth\<lparr>mt_authorization := a'\<rparr>"
    using assms p c by (simp add: authorized_request_def authorize_def)
  then show ?thesis
    using p current_lease_auth [OF c] by auto
next
  case False
  then have "l = None \<and> a = auth"
    using assms by (cases "bearer_token to_str vs"; cases "mt_token auth") (auto simp: authorized_request_def authorize_def)
  then show ?thesis
    by simp
qed

lemma admit_well_met:
  assumes "admit_head (hc_to_str cfg) (hc_decode cfg) (hc_authority cfg) (hc_origin cfg) parts remote loaded now started w
      = (r, w')"
  shows "same_auth w w' \<and> (\<forall>h. r = Inr h \<longrightarrow>
     valid_host (hc_to_str cfg) (hp_host (hl_parts h)) (hc_authority cfg)
   \<and> valid_origin (hc_to_str cfg) (hp_origin (hl_parts h)) (hc_origin cfg)
   \<and> (\<exists>p tok. bearer_token (hc_to_str cfg) (hp_authorization (hl_parts h)) = Some p
        \<and> mt_token (hw_auth w') = Some tok \<and> token_matches (hc_decode cfg) tok p
        \<and> (rl_token (hl_lease h) \<in> ma_cancelled (mt_authorization (hw_auth w'))
           \<or> rl_revision (hl_lease h) = ma_revision (mt_authorization (hw_auth w')))))"
proof (cases "\<not> valid_host (hc_to_str cfg) (hp_host parts) (hc_authority cfg)
    \<or> \<not> valid_origin (hc_to_str cfg) (hp_origin parts) (hc_origin cfg)")
  case True
  then have "(r, w') = (Inl Forbidden, w)"
    unfolding assms [symmetric] admit_head_def by (rule if_P)
  then show ?thesis
    by simp
next
  case False
  obtain l a where l: "authorized_request (hc_to_str cfg) (hc_decode cfg) loaded now (hp_authorization parts) (hw_auth w) = (l, a)"
    by (rule prod.exhaust)
  have a: "mt_token a = mt_token (hw_auth w)" "ma_revision (mt_authorization a) = ma_revision (mt_authorization (hw_auth w))"
    "ma_cancelled (mt_authorization (hw_auth w)) \<subseteq> ma_cancelled (mt_authorization a)"
    using authorized_auth [OF l] by blast+
  define cw where "cw = (case remote of None \<Rightarrow> (None, w\<lparr>hw_auth := a\<rparr>) | Some r \<Rightarrow> registry_get r (w\<lparr>hw_auth := a\<rparr>))"
  have run: "(r, w') = (case l of None \<Rightarrow> (Inl Unauthorized, w\<lparr>hw_auth := a\<rparr>)
      | Some lease \<Rightarrow> (Inr \<lparr>hl_parts = parts, hl_lease = lease, hl_started = started, hl_connection = fst cw,
          hl_deadline = 0, hl_long = False, hl_key = None, hl_cancellation = None, hl_permit = None,
          hl_point = At_body\<rparr>, snd cw))"
    using assms False l by (cases l) (simp_all add: admit_head_def Let_def cw_def case_prod_beta)
  have w': "hw_auth w' = a"
    using run registry_get_auth [of _ "w\<lparr>hw_auth := a\<rparr>"] by (cases l; cases remote) (simp_all add: cw_def)
  have lease: "\<exists>p tok. bearer_token (hc_to_str cfg) (hp_authorization parts) = Some p \<and> mt_token a = Some tok
      \<and> token_matches (hc_decode cfg) tok p
      \<and> (rl_token lease \<in> ma_cancelled (mt_authorization a) \<or> rl_revision lease = ma_revision (mt_authorization a))"
    if "l = Some lease" for lease
    using that authorized_auth [OF l] by blast
  have admitted: "l = Some (hl_lease h) \<and> hl_parts h = parts" if "r = Inr h" for h
    using that run by (cases l) simp_all
  have "same_auth w w'"
    using a by (simp add: w' same_auth_def)
  then show ?thesis
    using False lease admitted unfolding w' by blast
qed

lemma entry_ok_step:
  assumes "http_step cfg s s'" "entry_ok cfg start s"
  shows "entry_ok cfg start s'"
  using assms(1)
proof cases
  case (accept i remote)
  have "keys_ok (accept_connection (hc_policy cfg) remote i (hs_world s))"
    using assms(2) accept(3) accept_keys [of "hs_world s" i] by (simp add: entry_ok_def)
  moreover have "same_auth (hs_world s) (accept_connection (hc_policy cfg) remote i (hs_world s))"
    by (simp add: same_auth_def accept_connection_def registry_insert_def)
  ultimately show ?thesis
    using assms(2) accept(1) by (simp add: entry_ok_world)
next
  case (close i)
  have "keys_ok (drop_connection i (hs_world s))"
    using assms(2) lighter_keys lighter_drop unfolding entry_ok_def by blast
  moreover have "same_auth (hs_world s) (drop_connection i (hs_world s))"
    by (auto simp: same_auth_def drop_connection_def registry_remove_def cancel_lease_def cancel_request_def Let_def
      split: option.splits prod.splits)
  ultimately show ?thesis
    using assms(2) close(1) by (simp add: entry_ok_world)
next
  case (refuse parts remote loaded now started st w)
  have "keys_ok w"
    using assms(2) lighter_keys lighter_admit [OF _ refuse(2)] unfolding entry_ok_def by blast
  then show ?thesis
    using assms(2) refuse(1) admit_well_met [OF refuse(2)] by (simp add: entry_ok_world)
next
  case (admit parts remote loaded now started h w k)
  have "keys_ok w"
    using assms(2) lighter_keys lighter_admit [OF _ admit(2)] unfolding entry_ok_def by blast
  moreover have "well_met cfg start s' j g" if "hm_get (hs_handlers s') j = Some g" for j g
  proof (cases "j = k")
    case True
    then show ?thesis
      using that admit_well_met [OF admit(2)] assms(2)
      by (auto simp: admit(1) hm_get_insert well_met_def entry_ok_def same_auth_def)
  next
    case False
    then have "well_met cfg start s j g"
      using that assms(2) by (simp add: admit(1) hm_get_insert entry_ok_def)
    then show ?thesis
      using admit_well_met [OF admit(2)] False by (auto simp: admit(1) well_met_def same_auth_def)
  qed
  ultimately show ?thesis
    using assms(2) admit_well_met [OF admit(2)] unfolding entry_ok_def by (simp add: admit(1) same_auth_def)
next
  case (act k h body now later answer h' w)
  have k: "keys_ok w" "same_auth (hs_world s) w" "same_lease h h'"
    using handler_step_keys [OF _ act(3)] assms(2) by (simp_all add: entry_ok_def)
  have "well_met cfg start s' j g" if "hm_get (hs_handlers s') j = Some g" for j g
  proof -
    have "\<exists>g0. hm_get (hs_handlers s) j = Some g0 \<and> same_lease g0 g"
    proof (cases "j = k")
      case True
      then show ?thesis
        using that act(2) k(3) by (simp add: act(1) hm_get_insert)
    next
      case False
      then show ?thesis
        using that by (simp add: act(1) hm_get_insert same_lease_def)
    qed
    then show ?thesis
      using assms(2) well_met_auth [of cfg start s j _ w g] k(2) by (auto simp: act(1) entry_ok_def)
  qed
  then show ?thesis
    using assms(2) k unfolding entry_ok_def by (simp add: act(1) same_auth_def)
next
  case (leave k h)
  have g: "hw_auth (abandon h (hs_world s)) = hw_auth (hs_world s)" "keys_ok (abandon h (hs_world s))"
    using give_back_balance [of "hl_permit h" "hs_world s"] assms(2) lighter_keys lighter_cong
    unfolding abandon_def entry_ok_def by blast+
  have "well_met cfg start s' j g" if "hm_get (hs_handlers s') j = Some g" for j g
    using that assms(2) well_met_auth [of cfg start s j g "abandon h (hs_world s)" g] g(1)
    by (auto simp: leave(1) hm_get_remove entry_ok_def same_auth_eq same_lease_def split: if_splits)
  then show ?thesis
    using assms(2) g unfolding entry_ok_def by (simp add: leave(1))
next
  case (wire i io now polled written_at buffer answered r io' woken)
  have "keys_ok (put_connection i io io' (hs_world s))"
    using assms(2) wire(2) poll_write_keeps [OF wire(3)] poll_write_active [OF wire(3)] lighter_keys lighter_put
    unfolding entry_ok_def by blast
  then show ?thesis
    using assms(2) by (simp add: wire(1) entry_ok_world same_auth_eq)
next
  case (replace token)
  show ?thesis
    unfolding replace(1) by (rule entry_ok_bump [OF assms(2)])
      (auto simp: replace_token_def revoke_def revoke_bump_def revoke_sweep_def)
next
  case disable
  show ?thesis
    unfolding disable(1) by (rule entry_ok_bump [OF assms(2)])
      (auto simp: disable_token_def revoke_def revoke_bump_def revoke_sweep_def)
next
  case bump
  show ?thesis
    unfolding bump(1) by (rule entry_ok_bump [OF assms(2)]) (auto simp: revoke_bump_def)
next
  case (other a)
  have "keys_ok (hs_world s\<lparr>hw_auth := hw_auth (hs_world s)\<lparr>mt_authorization := a\<rparr>\<rparr>)"
    using assms(2) lighter_keys lighter_cong unfolding entry_ok_def by fastforce
  then show ?thesis
    using assms(2) other by (simp add: entry_ok_world same_auth_def)
qed

lemma entry_ok_reach:
  "http_reach cfg auth s \<Longrightarrow> entry_ok cfg (ma_revision (mt_authorization auth)) s"
proof (induction rule: http_reach_induct)
  case init
  show ?case
    by (simp add: entry_ok_def keys_ok_def http_init_def limits_default_def registered_def)
qed (rule entry_ok_step)

section \<open>Claims\<close>


lemma map_filter_one:
  assumes "distinct xs" "\<And>p q a b. p \<in> set xs \<Longrightarrow> q \<in> set xs \<Longrightarrow> g p = Some a \<Longrightarrow> P a \<Longrightarrow> g q = Some b \<Longrightarrow> P b \<Longrightarrow> p = q"
  shows "length (filter P (List.map_filter g xs)) \<le> 1"
  using assms
proof (induction xs)
  case (Cons x xs)
  show ?case
  proof (cases "\<exists>a. g x = Some a \<and> P a")
    case True
    then obtain a where a: "g x = Some a" "P a"
      by blast
    have "\<not> P b" if "b \<in> set (List.map_filter g xs)" for b
    proof
      assume "P b"
      obtain q where "q \<in> set xs" "g q = Some b"
        using \<open>b \<in> set (List.map_filter g xs)\<close> by (auto simp: in_map_filter)
      then have "x = q"
        using Cons.prems(2) [of x q a b] a \<open>P b\<close> by simp
      then show False
        using Cons.prems(1) \<open>q \<in> set xs\<close> by simp
    qed
    then have "filter P (List.map_filter g xs) = []"
      by (simp add: filter_empty_conv)
    then show ?thesis
      by (cases "g x") (auto simp: map_filter_simps)
  next
    case False
    have "length (filter P (List.map_filter g xs)) \<le> 1"
    proof (rule Cons.IH)
      show "distinct xs"
        using Cons.prems(1) by simp
      show "p = q" if "p \<in> set xs" "q \<in> set xs" "g p = Some a" "P a" "g q = Some b" "P b" for p q a b
        using Cons.prems(2) [of p q a b] that by simp
    qed
    then show ?thesis
      using False by (cases "g x") (auto simp: map_filter_simps)
  qed
qed (simp add: map_filter_simps)

lemma fold_one:
  assumes "length (filter P xs) \<le> 1"
  shows "fold (\<lambda>x w. if P x then f x w else w) xs w = w \<or>
    (\<exists>x \<in> set xs. P x \<and> fold (\<lambda>x w. if P x then f x w else w) xs w = f x w)"
proof -
  have f: "fold (\<lambda>x w. if P x then f x w else w) xs w = fold f (filter P xs) w"
    by (induction xs arbitrary: w) auto
  consider "filter P xs = []" | x where "filter P xs = [x]"
    using assms by (cases "filter P xs") auto
  then show ?thesis
  proof cases
    case (2 x)
    then have "x \<in> set (filter P xs)"
      by simp
    then have "x \<in> set xs \<and> P x"
      by simp
    moreover have "fold f (filter P xs) w = f x w"
      using 2 by simp
    ultimately have "x \<in> set xs \<and> P x \<and> fold f (filter P xs) w = f x w"
      by blast
    then show ?thesis
      unfolding f by blast
  qed (simp add: f)
qed

lemma registered_active_of:
  assumes "keys_ok w" "(r, i) \<in> set (hw_registry w)"
  shows "registered w i" "Option.bind (hm_get (hw_connections w) i) (\<lambda>io. cn_active (io_state io)) = active_of w i"
  using keys_okD(3) [OF assms(1), of r i] assms hm_get_in_set [OF keys_okD(1) [OF assms(1)]]
  by (auto simp: registered_def active_of_def)

lemma one_active:
  assumes "keys_ok w"
  shows "length (filter (\<lambda>r. ar_key r = Some key) (registered_active w)) \<le> 1"
  unfolding registered_active_def
proof (rule map_filter_one)
  show "distinct (hw_registry w)"
    using keys_okD(1) [OF assms] by (simp add: hm_ok_def distinct_map)
  fix p q a b
  assume p: "p \<in> set (hw_registry w)" "q \<in> set (hw_registry w)"
    and a: "(case p of (remote, i) \<Rightarrow> Option.bind (hm_get (hw_connections w) i) (\<lambda>io. cn_active (io_state io))) = Some a"
      "ar_key a = Some key"
    and b: "(case q of (remote, i) \<Rightarrow> Option.bind (hm_get (hw_connections w) i) (\<lambda>io. cn_active (io_state io))) = Some b"
      "ar_key b = Some key"
  obtain r i r' j where pq: "p = (r, i)" "q = (r', j)"
    by (cases p; cases q)
  have "registered w i" "registered w j" "active_of w i = Some a" "active_of w j = Some b"
    using a b p registered_active_of [OF assms] by (auto simp: pq)
  then have "i = j"
    using a(2) b(2) assms unfolding keys_ok_def by (metis option.distinct(1))
  moreover have "hm_get (hw_registry w) r = Some i" "hm_get (hw_registry w) r' = Some j"
    using p hm_get_in_set [OF keys_okD(1) [OF assms]] by (auto simp: pq)
  ultimately show "p = q"
    using keys_okD(3) [OF assms, of r i] keys_okD(3) [OF assms, of r' j] by (auto simp: pq)
qed

text \<open>A cancellation hits one request: in every reachable state no two registered connections run requests
  with the same key, and cancelling a key cancels the lease of the one request that runs under it or
  nothing at all.\<close>
lemma cancellation_hits_one_request:
  assumes "http_reach cfg auth s"
  shows "(\<forall>i j a b. registered (hs_world s) i \<and> registered (hs_world s) j
        \<and> active_of (hs_world s) i = Some a \<and> active_of (hs_world s) j = Some b
        \<and> ar_key a = ar_key b \<and> ar_key a \<noteq> None \<longrightarrow> i = j)
    \<and> (registry_cancel_request key (hs_world s) = hs_world s
       \<or> (\<exists>r \<in> set (registered_active (hs_world s)). ar_key r = Some key
            \<and> registry_cancel_request key (hs_world s) = cancel_lease (ar_lease r) (hs_world s)))"
proof -
  have k: "keys_ok (hs_world s)"
    using entry_ok_reach [OF assms] by (simp add: entry_ok_def)
  have "registry_cancel_request key (hs_world s) = hs_world s
      \<or> (\<exists>r \<in> set (registered_active (hs_world s)). ar_key r = Some key
            \<and> registry_cancel_request key (hs_world s) = cancel_lease (ar_lease r) (hs_world s))"
    unfolding registry_cancel_request_def by (rule fold_one [OF one_active [OF k]])
  then show ?thesis
    using k unfolding keys_ok_def by blast
qed

text \<open>C24: Only the current token opens the entry: when a handler gets past its body, and so may reach the
  service, its request was for this host and this origin, with one authorization header, and the
  token in it is the current token at that moment, not only the one at its admission, however tokens
  and settings were changed meanwhile (fewer than $2^{64}$ times).\<close>
theorem only_current_token_passes:
  assumes "http_reach cfg auth s" "hs_bumps s < 2 ^ 64"
    and "hm_get (hs_handlers s) k = Some h"
    and "read_body (hc_parse cfg) (hc_request_key cfg) (hc_cancellation_key cfg) (hc_policy cfg) body now later h (hs_world s)
      = (h', w')" "hl_point h' = At_cancellation" "hl_point h = At_body"
  shows "valid_host (hc_to_str cfg) (hp_host (hl_parts h)) (hc_authority cfg)
    \<and> valid_origin (hc_to_str cfg) (hp_origin (hl_parts h)) (hc_origin cfg)
    \<and> (\<exists>p tok. bearer_token (hc_to_str cfg) (hp_authorization (hl_parts h)) = Some p
         \<and> mt_token (hw_auth (hs_world s)) = Some tok \<and> token_matches (hc_decode cfg) tok p)"
proof -
  have ok: "entry_ok cfg (ma_revision (mt_authorization auth)) s"
    by (rule entry_ok_reach [OF assms(1)])
  then have met: "well_met cfg (ma_revision (mt_authorization auth)) s k h"
    using assms(3) by (simp add: entry_ok_def)
  have "lease_is_current later (hl_lease h) (mt_authorization (hw_auth (hs_world s)))"
    using assms(4-6) by (auto simp: read_body_def Let_def split: body_outcome.splits if_splits)
  then have current: "rl_token (hl_lease h) \<notin> ma_cancelled (mt_authorization (hw_auth (hs_world s)))"
    "rl_revision (hl_lease h) = ma_revision (mt_authorization (hw_auth (hs_world s)))"
    by (simp_all add: lease_is_current_def is_authorization_current_def auth_is_current_def)
  have "hs_epochs s k = hs_bumps s" if "rl_revision (hl_lease h) = ma_revision (mt_authorization auth) + of_nat (hs_epochs s k)"
  proof -
    have "(of_nat (hs_epochs s k) :: u64) = of_nat (hs_bumps s)"
      using that current(2) ok by (simp add: entry_ok_def)
    moreover have "hs_epochs s k \<le> hs_bumps s"
      using met by (simp add: well_met_def)
    ultimately show ?thesis
      using assms(2) by (simp add: word_of_nat_eq_iff take_bit_nat_eq_self)
  qed
  then show ?thesis
    using met current(1) by (auto simp: well_met_def)
qed

text \<open>A request of one connection, admitted with the token of the moment.\<close>

definition demo_config :: "nat http_config" where
  "demo_config = \<lparr>hc_to_str = Some, hc_decode = Some, hc_authority = ''127.0.0.1:80'', hc_origin = ''http://127.0.0.1:80'',
     hc_parse = (\<lambda>_. None), hc_request_key = (\<lambda>_ _. None), hc_cancellation_key = (\<lambda>_ _. None), hc_policy = policy_default\<rparr>"

definition demo_auth :: mcp_http_auth where
  "demo_auth = \<lparr>mt_token = Some (replicate 32 (CHR ''t'')), mt_authorization = authorization_default\<rparr>"

definition demo_parts :: http_parts where
  "demo_parts = \<lparr>hp_method = Post, hp_host = [''127.0.0.1:80''], hp_origin = [],
     hp_authorization = [''Bearer '' @ replicate 32 (CHR ''t'')]\<rparr>"

definition demo_handler :: "nat http_handler" where
  "demo_handler = \<lparr>hl_parts = demo_parts,
     hl_lease = \<lparr>rl_revision = 1, rl_request_id = 1, rl_token = 0, rl_deadline = WRITE_REQUEST_TIMEOUT\<rparr>,
     hl_started = 0, hl_connection = Some 0, hl_deadline = 0, hl_long = False, hl_key = None, hl_cancellation = None,
     hl_permit = None, hl_point = At_body\<rparr>"

definition demo_system :: "nat http_system" where
  "demo_system = (let w = accept_connection policy_default 7 0 (limits_default demo_auth)
     in \<lparr>hs_world = w\<lparr>hw_auth := demo_auth\<lparr>mt_authorization := snd (current_lease 1 0 authorization_default)\<rparr>\<rparr>,
         hs_handlers = [(3, demo_handler)], hs_bumps = 0, hs_epochs = (\<lambda>_. 0)\<rparr>)"

lemma demo_reach: "http_reach demo_config demo_auth demo_system"
proof -
  let ?s = "http_init demo_auth :: nat http_system"
  let ?t = "?s\<lparr>hs_world := accept_connection policy_default 7 0 (hs_world ?s)\<rparr>"
  have 1: "http_step demo_config ?s ?t"
    using accept [of ?s 0 demo_config 7] by (simp add: http_init_def limits_default_def MAX_CONNECTIONS_def demo_config_def)
  have "admit_head Some Some ''127.0.0.1:80'' ''http://127.0.0.1:80'' demo_parts (Some 7) 1 0 0 (hs_world ?t)
      = (Inr demo_handler, hs_world demo_system)"
    by (simp add: admit_head_def demo_parts_def valid_host_def valid_origin_def authorized_request_def bearer_token_def
      authorize_def token_matches_def TOKEN_SIZE_def current_lease_def authorization_default_def registry_get_def
      demo_system_def demo_handler_def demo_auth_def Let_def accept_connection_def registry_insert_def http_init_def
      limits_default_def)
  then have "http_step demo_config ?t (?t\<lparr>hs_world := hs_world demo_system, hs_handlers := hm_insert 3 demo_handler (hs_handlers ?t),
      hs_epochs := (hs_epochs ?t)(3 := hs_bumps ?t)\<rparr>)"
    by (intro admit) (simp_all add: demo_config_def http_init_def)
  moreover have "?t\<lparr>hs_world := hs_world demo_system, hs_handlers := hm_insert 3 demo_handler (hs_handlers ?t),
      hs_epochs := (hs_epochs ?t)(3 := hs_bumps ?t)\<rparr> = demo_system"
    by (simp add: http_init_def demo_system_def Let_def fun_upd_idem)
  ultimately show ?thesis
    using 1 unfolding http_reach_def by (metis converse_rtranclp_into_rtranclp rtranclp.rtrancl_refl)
qed


lemma only_current_token_passes_witness:
  "\<exists>p tok. bearer_token Some (hp_authorization demo_parts) = Some p \<and> mt_token (hw_auth (hs_world demo_system)) = Some tok
    \<and> token_matches Some tok p"
proof -
  obtain h' w' where r: "read_body (hc_parse demo_config) (hc_request_key demo_config) (hc_cancellation_key demo_config)
      (hc_policy demo_config) (Body []) 1 1 demo_handler (hs_world demo_system) = (h', w')"
    by fastforce
  have "hl_point h' = At_cancellation"
    using r by (simp add: read_body_def demo_config_def demo_handler_def demo_parts_def demo_system_def Let_def
      contains_write_tool_call_def contains_listen_request_def policy_default_def ORDINARY_REQUEST_TIMEOUT_def
      lease_is_current_def is_authorization_current_def auth_is_current_def current_lease_def authorization_default_def
      is_strong_def WRITE_REQUEST_TIMEOUT_def accept_connection_def registry_insert_def split: if_splits) auto
  moreover have "hm_get (hs_handlers demo_system) 3 = Some demo_handler" "hs_bumps demo_system < 2 ^ 64"
    by (simp_all add: demo_system_def Let_def)
  ultimately show ?thesis
    using only_current_token_passes [OF demo_reach _ _ r, of 3]
    by (simp add: demo_handler_def demo_config_def)
qed

end
