(* ===== verification/Mcp_Wire_Laws.thy ===== *)
theory Mcp_Wire_Laws
  imports Mcp_Wire
begin

text \<open>
  Facts on the tracker of a connection: the scanner recognizes exactly the lines that begin with
  \<open>data:\<close>, so only events move the deadline of a stream, and a response frees its connection with
  its last byte and not before.
\<close>

section \<open>The lines of an event stream\<close>

text \<open>The reference: the instants of the newlines that end a line beginning with \<open>data:\<close>.\<close>

fun data_events :: "string \<Rightarrow> (char \<times> nat) list \<Rightarrow> nat list" where
  "data_events line [] = []"
| "data_events line ((b, now) # bs) =
     (if b = newline then (if prefix data_prefix line then [now] else []) @ data_events [] bs
      else data_events (line @ [b]) bs)"

fun scan_run ::
  "(char \<times> nat) list \<Rightarrow> stream_watchdog option \<times> sse_line_scanner \<Rightarrow> stream_watchdog option \<times> sse_line_scanner" where
  "scan_run [] s = s"
| "scan_run ((b, now) # bs) s = scan_run bs (scan_byte b now (fst s) (snd s))"

text \<open>The scanner after the bytes of a line.\<close>

fun common_prefix :: "string \<Rightarrow> string \<Rightarrow> nat" where
  "common_prefix (x # xs) (y # ys) = (if x = y then Suc (common_prefix xs ys) else 0)"
| "common_prefix _ _ = 0"

definition scanner_of :: "string \<Rightarrow> sse_line_scanner" where
  "scanner_of line = \<lparr>ls_prefix_length = common_prefix line data_prefix, ls_matching_prefix = prefix line data_prefix,
     ls_is_data_line = prefix data_prefix line\<rparr>"

lemma scanner_of_Nil [simp]: "scanner_of [] = scanner_default"
  by (simp add: scanner_of_def scanner_default_def data_prefix_def)

lemma common_prefix_prefix: "prefix xs ys \<Longrightarrow> common_prefix xs ys = length xs"
  by (induction xs ys rule: common_prefix.induct) auto

lemma common_prefix_snoc: "\<not> prefix xs ys \<Longrightarrow> common_prefix (xs @ [b]) ys = common_prefix xs ys"
proof (induction xs arbitrary: ys)
  case (Cons x xs)
  then show ?case
    by (cases ys) auto
qed simp

lemma common_prefix_mismatch:
  "prefix xs ys \<Longrightarrow> \<not> prefix (xs @ [b]) ys \<Longrightarrow> common_prefix (xs @ [b]) ys = length xs"
proof (induction xs arbitrary: ys)
  case Nil
  then show ?case
    by (cases ys) auto
next
  case (Cons x xs)
  then show ?case
    by (cases ys) auto
qed

lemma prefix_snoc_nth:
  assumes "prefix xs ys"
  shows "prefix (xs @ [b]) ys \<longleftrightarrow> length xs < length ys \<and> ys ! length xs = b"
proof -
  obtain zs where ys: "ys = xs @ zs"
    using assms by (auto simp: prefix_def)
  show ?thesis
    by (cases zs) (auto simp: ys)
qed

lemma prefix_of_snoc: "prefix ys (xs @ [b]) \<longleftrightarrow> prefix ys xs \<or> ys = xs @ [b]"
  by (simp add: disj_commute)

lemma scan_byte_line:
  assumes "b \<noteq> newline"
  shows "scan_byte b now wd (scanner_of line) = (wd, scanner_of (line @ [b]))"
proof (cases "prefix line data_prefix")
  case True
  show ?thesis
  proof (cases "prefix (line @ [b]) data_prefix")
    case True': True
    then have "prefix data_prefix (line @ [b]) \<longleftrightarrow> length line + 1 = length data_prefix"
      by (metis length_append_singleton Suc_eq_plus1 prefix_order.eq_refl prefix_order.antisym not_equal_is_parallel
        parallelD1)
    with True True' assms show ?thesis
      using prefix_snoc_nth [OF True, of b]
      by (simp add: scan_byte_def scanner_of_def common_prefix_prefix)
  next
    case False
    have "prefix data_prefix (line @ [b]) \<longleftrightarrow> prefix data_prefix line"
      using False by (auto simp: prefix_of_snoc)
    with True False assms show ?thesis
      using prefix_snoc_nth [OF True, of b]
      by (simp add: scan_byte_def scanner_of_def common_prefix_prefix common_prefix_mismatch)
  qed
next
  case False
  then have "\<not> prefix (line @ [b]) data_prefix"
    using append_prefixD by blast
  moreover have "prefix data_prefix (line @ [b]) \<longleftrightarrow> prefix data_prefix line"
    using calculation by (auto simp: prefix_of_snoc)
  ultimately show ?thesis
    using False assms by (simp add: scan_byte_def scanner_of_def common_prefix_snoc)
qed

lemma scan_byte_newline:
  "scan_byte newline now (Some w) (scanner_of line)
     = (Some (if prefix data_prefix line then record_event now w else w), scanner_default)"
  by (simp add: scan_byte_def scanner_of_def)

lemma scan_run_events:
  "\<exists>l. scan_run bs (Some w, scanner_of line) = (Some (fold record_event (data_events line bs) w), l)"
proof (induction line bs arbitrary: w rule: data_events.induct)
  case (2 line b now bs)
  show ?case
  proof (cases "b = newline")
    case True
    then show ?thesis
      using 2(1) [OF True, of "if prefix data_prefix line then record_event now w else w"]
      by (auto simp: scan_byte_newline)
  next
    case False
    then show ?thesis
      using 2(2) [OF False, of w] by (simp add: scan_byte_line)
  qed
qed simp

lemma fold_record_event:
  "fold record_event ts w = (if ts = [] then w else record_event (last ts) w)"
  by (induction ts arbitrary: w) (auto simp: record_event_def reset_timer_def wd_deadline_def)

section \<open>The bytes of a response\<close>

text \<open>The reference: the body of a response with these headers is over after these bytes.\<close>

definition body_over :: "string \<Rightarrow> string \<Rightarrow> bool" where
  "body_over headers bs \<longleftrightarrow>
     (if is_chunked_head headers then suffix ([carriage, newline] @ last_chunk) bs \<or> bs = last_chunk
      else (case content_length headers of Some n \<Rightarrow> length bs \<ge> n | None \<Rightarrow> False))"

definition last_bytes :: "nat \<Rightarrow> 'a list \<Rightarrow> 'a list" where
  "last_bytes n bs = drop (length bs - n) bs"

lemma last_bytes_snoc:
  "last_bytes 7 (bs @ [b]) =
     (let t = last_bytes 7 bs @ [b] in if length t > 7 then tl t else t)"
proof (cases "length bs \<ge> 7")
  case True
  then have "length bs - 6 = Suc (length bs - 7)"
    by simp
  with True show ?thesis
    by (simp add: last_bytes_def tl_append2 tl_drop drop_Suc)
qed (simp add: last_bytes_def)

lemma last_bytes_eq:
  assumes "length p \<le> n"
  shows "last_bytes n bs = p \<longleftrightarrow> (if length p = n then suffix p bs else bs = p)"
proof (cases "length bs \<ge> n")
  case True
  then have "length (last_bytes n bs) = n"
    by (simp add: last_bytes_def)
  moreover have "suffix p bs \<longleftrightarrow> last_bytes n bs = p" if "length p = n"
    using that True by (auto simp: last_bytes_def suffix_def) (metis append_take_drop_id)
  ultimately show ?thesis
    using assms True by auto
next
  case False
  then show ?thesis
    using assms suffix_length_le [of p bs] by (auto simp: last_bytes_def)
qed

text \<open>The body as the tracker holds it after the bytes \<open>bs\<close>.\<close>

definition body_of :: "string \<Rightarrow> u64 option \<Rightarrow> string \<Rightarrow> response_body" where
  "body_of h rid bs =
     \<lparr>rb_is_sse = is_sse_head h, rb_content_length = content_length h, rb_chunked = is_chunked_head h,
      rb_written = length bs, rb_chunk_tail = (if is_chunked_head h then last_bytes 7 bs else []), rb_request_id = rid\<rparr>"

lemma body_byte_of:
  assumes "length bs < usize_max"
  shows "body_byte b (body_of h rid bs) = (body_over h (bs @ [b]), body_of h rid (bs @ [b]))"
proof -
  have "sat_add (length bs) 1 = length (bs @ [b])"
    using assms by (simp add: sat_add_exact)
  moreover have "(let tail0 = last_bytes 7 bs @ [b] in if length tail0 > 7 then tl tail0 else tail0)
      = last_bytes 7 (bs @ [b])"
    by (simp add: last_bytes_snoc)
  moreover have "last_bytes 7 xs = [carriage, newline] @ last_chunk \<or> last_bytes 7 xs = last_chunk \<longleftrightarrow>
      suffix ([carriage, newline] @ last_chunk) xs \<or> xs = last_chunk" for xs
    by (simp add: last_bytes_eq last_chunk_def head_end_def)
  ultimately show ?thesis
    by (simp add: body_byte_def body_of_def body_over_def Let_def split: option.splits)
qed

text \<open>
  The reference: \<open>hs\<close> and \<open>bs\<close> are the head and the body of one final response. A head ends with the
  first empty line; a body is there unless the request or the head says otherwise, and it ends
  with the first byte after which it is over.
\<close>

definition lower_head :: "string \<Rightarrow> string" where
  "lower_head hs = map to_ascii_lowercase hs"

definition no_body :: "bool \<Rightarrow> string \<Rightarrow> bool" where
  "no_body is_head h \<longleftrightarrow> is_head
     \<or> (case header_status h of Some n \<Rightarrow> n \<in> {204, 205, 304} | None \<Rightarrow> False)
     \<or> content_length h = Some 0"

definition interim :: "string \<Rightarrow> bool" where
  "interim h \<longleftrightarrow> (case header_status h of Some n \<Rightarrow> 100 \<le> n \<and> n < 200 | None \<Rightarrow> False)"

definition is_response :: "bool \<Rightarrow> string \<Rightarrow> string \<Rightarrow> bool" where
  "is_response is_head hs bs \<longleftrightarrow>
     suffix head_end hs \<and> list_all (\<lambda>k. \<not> suffix head_end (take k hs)) [0..<length hs]
   \<and> length hs \<le> MAX_RESPONSE_HEADER_BYTES \<and> length bs \<le> usize_max \<and> \<not> interim (lower_head hs)
   \<and> (if no_body is_head (lower_head hs) then bs = []
      else bs \<noteq> [] \<and> body_over (lower_head hs) bs
         \<and> list_all (\<lambda>k. \<not> body_over (lower_head hs) (take k bs)) [1..<length bs])"

text \<open>The bytes of all writes, each with the instant of its write.\<close>

definition wire_run ::
  "stream_policy \<Rightarrow> (char \<times> nat) list \<Rightarrow> sse_wire_tracker \<times> 'id connection_state \<Rightarrow> sse_wire_tracker \<times> 'id connection_state" where
  "wire_run policy ts tc = fold (\<lambda>(b, now). observe_byte now policy b) ts tc"

definition timed :: "(string \<times> nat) list \<Rightarrow> (char \<times> nat) list" where
  "timed ws = concat (map (\<lambda>(bytes, now). map (\<lambda>b. (b, now)) bytes) ws)"

lemma wire_observe_run: "wire_observe bytes now policy tc = wire_run policy (map (\<lambda>b. (b, now)) bytes) tc"
  by (induction bytes arbitrary: tc) (simp_all add: wire_observe_def wire_run_def)

lemma wire_run_append: "wire_run policy (xs @ ys) tc = wire_run policy ys (wire_run policy xs tc)"
  by (simp add: wire_run_def)

lemma wire_run_single: "wire_run policy [(b, now)] tc = observe_byte now policy b tc"
  by (simp add: wire_run_def)

lemma wire_run_writes:
  "fold (\<lambda>(bytes, now). wire_observe bytes now policy) ws tc = wire_run policy (timed ws) tc"
proof (induction ws arbitrary: tc)
  case Nil
  show ?case
    by (simp add: wire_run_def timed_def)
next
  case (Cons w ws)
  have "timed (w # ws) = map (\<lambda>b. (b, snd w)) (fst w) @ timed ws"
    by (cases w) (simp add: timed_def)
  then show ?case
    using Cons by (cases w) (simp add: wire_observe_run wire_run_append)
qed

lemma fst_timed: "map fst (timed ws) = concat (map fst ws)"
  by (induction ws) (auto simp: timed_def comp_def)

lemma head_run:
  assumes "k < length ts" "list_all (\<lambda>k. \<not> suffix head_end (take k (map fst ts))) [0..<length ts]"
    and "length ts \<le> MAX_RESPONSE_HEADER_BYTES"
  shows "wire_run policy (take k ts) (tracker_default, c) = (tracker_default\<lparr>wt_headers := take k (map fst ts)\<rparr>, c)"
  using assms(1)
proof (induction k)
  case 0
  then show ?case
    by (simp add: wire_run_def tracker_default_def)
next
  case (Suc k)
  obtain b now where b: "ts ! k = (b, now)"
    by (cases "ts ! k")
  have "\<not> suffix head_end (take (Suc k) (map fst ts))"
    using assms(2) Suc.prems by (auto simp: list_all_iff)
  then show ?case
    using Suc assms(3) b
    by (simp add: take_Suc_conv_app_nth wire_run_append wire_run_single observe_byte_def tracker_default_def
      Let_def del: suffix_snoc)
qed

lemma body_run:
  assumes "k < length ts" "length ts \<le> usize_max"
    and "list_all (\<lambda>k. \<not> body_over h (take k (map fst ts))) [1..<length ts]"
    and "wt_body t = Some (body_of h rid [])"
  shows "\<exists>t'. wire_run policy (take k ts) (t, c) = (t', c) \<and> wt_body t' = Some (body_of h rid (take k (map fst ts)))
    \<and> wt_headers t' = wt_headers t"
  using assms(1)
proof (induction k)
  case 0
  then show ?case
    using assms(4) by (simp add: wire_run_def)
next
  case (Suc k)
  obtain b now where b: "ts ! k = (b, now)"
    by (cases "ts ! k")
  obtain t' where t': "wire_run policy (take k ts) (t, c) = (t', c)"
    "wt_body t' = Some (body_of h rid (take k (map fst ts)))" "wt_headers t' = wt_headers t"
    using Suc by auto
  have "\<not> body_over h (take (Suc k) (map fst ts))"
    using assms(3) Suc.prems by (auto simp: list_all_iff)
  moreover have "length (take k (map fst ts)) < usize_max"
    using Suc.prems assms(2) by simp
  ultimately show ?case
    using Suc.prems t' b body_byte_of [of "take k (map fst ts)" b h rid]
    by (auto simp: take_Suc_conv_app_nth wire_run_append wire_run_single observe_byte_def
      split: prod.splits)
qed

lemma head_observed:
  assumes "suffix head_end (map fst ts)" "list_all (\<lambda>k. \<not> suffix head_end (take k (map fst ts))) [0..<length ts]"
    and "length ts \<le> MAX_RESPONSE_HEADER_BYTES"
  shows "\<exists>now. wire_run policy ts (tracker_default, c)
    = begin_response now policy (tracker_default\<lparr>wt_headers := map fst ts\<rparr>) c"
proof -
  obtain ts' b now where ts: "ts = ts' @ [(b, now)]"
    using assms(1) by (cases ts rule: rev_cases) (auto simp: head_end_def)
  have "wire_run policy ts' (tracker_default, c) = (tracker_default\<lparr>wt_headers := map fst ts'\<rparr>, c)"
    using head_run [of "length ts'" ts] assms(2,3) by (simp add: ts)
  then show ?thesis
    using assms(1,3) unfolding ts wire_run_append wire_run_single
    by (auto simp: observe_byte_def tracker_default_def Let_def simp del: suffix_snoc)
qed

text \<open>The head: a response without a body frees the connection, one with a body leaves it as it was.\<close>

definition freed :: "bool \<Rightarrow> 'id connection_state \<Rightarrow> bool" where
  "freed sse c \<longleftrightarrow> \<not> cn_ordinary c \<and> cn_active c = None \<and> cn_deadline c = None \<and> \<not> cn_head c \<and> (sse \<longrightarrow> \<not> cn_stream c)"

definition same_holdings :: "'id connection_state \<Rightarrow> 'id connection_state \<Rightarrow> bool" where
  "same_holdings c c' \<longleftrightarrow> cn_ordinary c' = cn_ordinary c \<and> cn_stream c' = cn_stream c \<and> cn_active c' = cn_active c"

lemma finish_own: "cn_active (finish_if (active_request_id c) c) = None"
  by (cases "cn_active c") (auto simp: finish_if_def finish_request_def active_request_id_def)

lemma finish_if_fields [simp]:
  "cn_ordinary (finish_if i c) = cn_ordinary c" "cn_stream (finish_if i c) = cn_stream c"
  "cn_deadline (finish_if i c) = cn_deadline c" "cn_head (finish_if i c) = cn_head c"
  by (auto simp: finish_if_def finish_request_def split: option.splits)

lemmas connection_ops = clear_request_def set_head_request_def conn_set_deadline_def release_ordinary_def
  release_stream_def

lemma begin_no_body:
  assumes "no_body (cn_head c) (lower_head hs)" "\<not> interim (lower_head hs)"
  shows "\<exists>c'. begin_response now policy (tracker_default\<lparr>wt_headers := hs\<rparr>) c = (tracker_default, c')
    \<and> freed (is_sse_head (lower_head hs)) c'"
proof (cases "cn_head c \<or> (case header_status (lower_head hs) of Some n \<Rightarrow> (204 \<le> n \<and> n \<le> 205) \<or> n = 304 | None \<Rightarrow> False)")
  case True
  then show ?thesis
    using assms(2) finish_own [of c]
    by (auto simp: begin_response_def lower_head_def interim_def freed_def connection_ops Let_def tracker_default_def)
next
  case False
  then have "content_length (lower_head hs) = Some 0"
    using assms(1) by (auto simp: no_body_def split: option.splits)
  then show ?thesis
    using assms(2) False finish_own [of c] finish_own [of "c\<lparr>cn_deadline := None\<rparr>"]
    by (auto simp: begin_response_def lower_head_def interim_def freed_def connection_ops Let_def tracker_default_def)
qed

lemma begin_body:
  assumes "\<not> no_body (cn_head c) (lower_head hs)" "\<not> interim (lower_head hs)"
  shows "\<exists>t c'. begin_response now policy (tracker_default\<lparr>wt_headers := hs\<rparr>) c = (t, c')
    \<and> wt_headers t = [] \<and> wt_body t = Some (body_of (lower_head hs) (active_request_id c) []) \<and> same_holdings c c'"
proof -
  have "\<not> (cn_head c \<or> (case header_status (lower_head hs) of Some n \<Rightarrow> (204 \<le> n \<and> n \<le> 205) \<or> n = 304 | None \<Rightarrow> False))"
    "content_length (lower_head hs) \<noteq> Some 0"
    using assms(1) by (auto simp: no_body_def split: option.splits)
  then show ?thesis
    using assms(2)
    by (auto simp: begin_response_def lower_head_def interim_def same_holdings_def connection_ops Let_def
      tracker_default_def body_of_def last_bytes_def active_request_id_def)
qed

lemma finish_body:
  assumes "wt_body t = Some (body_of h (active_request_id c) bs)" "wt_headers t = []" "same_holdings c0 c"
    and "active_request_id c0 = active_request_id c"
  shows "\<exists>c'. finish_response t c = (tracker_default, c') \<and> freed (is_sse_head h) c'"
  using assms(1,2) finish_own [of c]
  by (auto simp: finish_response_def body_of_def freed_def connection_ops Let_def tracker_default_def)

lemma response_body_run:
  assumes "is_response (cn_head c) (map fst hs) (map fst bs)" "\<not> no_body (cn_head c) (lower_head (map fst hs))"
  shows "\<exists>c'. wire_run policy (hs @ bs) (tracker_default, c) = (tracker_default, c')
      \<and> freed (is_sse_head (lower_head (map fst hs))) c'"
    and "k < length bs \<Longrightarrow>
      \<exists>t c'. wire_run policy (hs @ take k bs) (tracker_default, c) = (t, c') \<and> same_holdings c c'"
proof -
  define h where "h = lower_head (map fst hs)"
  have hs: "suffix head_end (map fst hs)" "list_all (\<lambda>k. \<not> suffix head_end (take k (map fst hs))) [0..<length hs]"
    "length hs \<le> MAX_RESPONSE_HEADER_BYTES" "\<not> interim (lower_head (map fst hs))"
    and bs: "bs \<noteq> []" "body_over h (map fst bs)" "length bs \<le> usize_max"
    "list_all (\<lambda>k. \<not> body_over h (take k (map fst bs))) [1..<length bs]"
    using assms by (auto simp: is_response_def h_def)
  obtain t c1 where t: "wire_run policy hs (tracker_default, c) = (t, c1)" "wt_headers t = []"
    "wt_body t = Some (body_of h (active_request_id c) [])" "same_holdings c c1"
    using head_observed [OF hs(1-3)] begin_body [OF assms(2) hs(4)] unfolding h_def by metis
  have part: "\<exists>t'. wire_run policy (take k bs) (t, c1) = (t', c1)
      \<and> wt_body t' = Some (body_of h (active_request_id c) (take k (map fst bs))) \<and> wt_headers t' = []" if "k < length bs" for k
    using body_run [OF that bs(3,4) t(3)] t(2) by metis
  show "\<exists>t c'. wire_run policy (hs @ take k bs) (tracker_default, c) = (t, c') \<and> same_holdings c c'"
    if "k < length bs"
    using part [OF that] t by (auto simp: wire_run_append)
  have id: "active_request_id c = active_request_id c1"
    using t(4) by (simp add: same_holdings_def active_request_id_def)
  obtain bs' b now where split: "bs = bs' @ [(b, now)]"
    using bs(1) by (cases bs rule: rev_cases) auto
  obtain t' where t': "wire_run policy bs' (t, c1) = (t', c1)" "wt_headers t' = []"
    "wt_body t' = Some (body_of h (active_request_id c) (map fst bs'))"
    using part [of "length bs'"] by (auto simp: split)
  have "body_byte b (body_of h (active_request_id c) (map fst bs')) = (True, body_of h (active_request_id c) (map fst bs))"
    using body_byte_of [of "map fst bs'" b] bs(2,3) by (simp add: split)
  then have "\<exists>c'. observe_byte now policy b (t', c1) = (tracker_default, c') \<and> freed (is_sse_head h) c'"
    using t' finish_body [OF _ _ t(4) id]
    by (auto simp: observe_byte_def id split: prod.splits)
  then show "\<exists>c'. wire_run policy (hs @ bs) (tracker_default, c) = (tracker_default, c')
      \<and> freed (is_sse_head (lower_head (map fst hs))) c'"
    using t(1) t'(1) by (simp add: split wire_run_append wire_run_single h_def)
qed

lemma response_run:
  assumes "is_response (cn_head c) (map fst hs) (map fst bs)"
  shows "\<exists>c'. wire_run policy (hs @ bs) (tracker_default, c) = (tracker_default, c')
      \<and> freed (is_sse_head (lower_head (map fst hs))) c'"
proof (cases "no_body (cn_head c) (lower_head (map fst hs))")
  case True
  then have hs: "suffix head_end (map fst hs)" "list_all (\<lambda>k. \<not> suffix head_end (take k (map fst hs))) [0..<length hs]"
    "length hs \<le> MAX_RESPONSE_HEADER_BYTES" "\<not> interim (lower_head (map fst hs))" "bs = []"
    using assms by (auto simp: is_response_def)
  show ?thesis
    using head_observed [OF hs(1-3)] begin_no_body [OF True hs(4)] hs(5) by (metis append_Nil2)
qed (rule response_body_run(1) [OF assms])

lemma response_part:
  assumes "is_response (cn_head c) (map fst hs) (map fst bs)" "k < length (hs @ bs)"
  shows "same_holdings c (snd (wire_run policy (take k (hs @ bs)) (tracker_default, c)))"
proof (cases "k < length hs")
  case True
  then show ?thesis
    using head_run [OF True, where policy = policy and c = c] assms by (simp add: is_response_def same_holdings_def)
next
  case False
  with assms have "\<not> no_body (cn_head c) (lower_head (map fst hs))" "k - length hs < length bs"
    by (auto simp: is_response_def)
  from response_body_run(2) [OF assms(1) this, of policy] show ?thesis
    using False by auto
qed

lemma split_mapped: "map f ts = xs @ ys \<Longrightarrow> \<exists>us vs. ts = us @ vs \<and> xs = map f us \<and> ys = map f vs"
  by (rule exI [of _ "take (length xs) ts"], rule exI [of _ "drop (length xs) ts"])
     (simp add: take_map [symmetric] drop_map [symmetric])

section \<open>Claims\<close>

text \<open>Only events keep a stream alive: whatever bytes are sent at whatever instants, the watchdog expires
  an idle time after the last newline that ended a line beginning with \<open>data:\<close> (or after the start),
  and never later than the longest life after the start; comments that keep the connection alive
  move nothing. The timer stands at the same instant.\<close>
lemma events_alone_extend_stream:
  "\<exists>w l. scan_run bs (Some (watchdog_new start idle maximum), scanner_default) = (Some w, l)
    \<and> wd_deadline w = min (start + maximum) (last (start # data_events [] bs) + idle)
    \<and> wd_timer w = wd_deadline w"
proof -
  obtain l where l: "scan_run bs (Some (watchdog_new start idle maximum), scanner_default)
      = (Some (fold record_event (data_events [] bs) (watchdog_new start idle maximum)), l)"
    using scan_run_events [of bs _ "[]"] by auto
  then show ?thesis
    by (simp add: fold_record_event)
       (simp add: record_event_def reset_timer_def wd_deadline_def watchdog_new_def)
qed

text \<open>A response frees its connection with its last byte and not before: however the bytes of a final
  response are split into writes, as long as some are missing the connection keeps its permits and its
  active request, and after the last one they are gone, with the deadline and the watchdog, and the
  tracker is ready for the next response. A stream permit goes with a stream.\<close>
lemma response_frees_connection:
  assumes "is_response (cn_head c) hs bs" and "prefix (concat (map fst ws)) (hs @ bs)"
  shows "case fold (\<lambda>(bytes, now). wire_observe bytes now policy) ws (tracker_default, c) of (t, c') \<Rightarrow>
     if concat (map fst ws) = hs @ bs
     then t = tracker_default \<and> \<not> cn_ordinary c' \<and> cn_active c' = None \<and> cn_deadline c' = None
       \<and> (is_sse_head (lower_head hs) \<longrightarrow> \<not> cn_stream c')
     else cn_ordinary c' = cn_ordinary c \<and> cn_stream c' = cn_stream c \<and> cn_active c' = cn_active c"
proof -
  obtain rest where rest: "hs @ bs = map fst (timed ws) @ rest"
    using assms(2) by (auto simp: prefix_def fst_timed)
  define ts where "ts = timed ws @ map (\<lambda>b. (b, 0)) rest"
  have "map fst ts = hs @ bs"
    using rest by (simp add: ts_def comp_def)
  then obtain th tb where th: "ts = th @ tb" "hs = map fst th" "bs = map fst tb"
    using split_mapped [of fst ts hs bs] by blast
  show ?thesis
  proof (cases "rest = []")
    case True
    then have "timed ws = th @ tb" "concat (map fst ws) = hs @ bs"
      using th(1) rest by (simp_all add: ts_def flip: fst_timed)
    then show ?thesis
      using response_run [of c th tb policy] assms(1) th(2,3) by (auto simp: wire_run_writes freed_def)
  next
    case False
    then have "timed ws = take (length (timed ws)) (th @ tb)" "length (timed ws) < length (th @ tb)"
      "concat (map fst ws) \<noteq> hs @ bs"
      using rest unfolding th(1) [symmetric] by (simp_all add: ts_def fst_timed)
    then show ?thesis
      using response_part [of c th tb "length (timed ws)" policy] assms(1) th(2,3)
      by (auto simp: wire_run_writes same_holdings_def split: prod.splits)
  qed
qed

text \<open>A response of three bytes, sent in two writes.\<close>

definition demo_head :: string where
  "demo_head = ''HTTP/1.1 200'' @ [carriage, newline] @ ''Content-Length: 3'' @ head_end"

definition demo_connection :: "nat connection_state" where
  "demo_connection = connection_default\<lparr>cn_ordinary := True,
     cn_active := Some \<lparr>ar_lease = \<lparr>rl_revision = 1, rl_request_id = 7, rl_token = 0, rl_deadline = 9\<rparr>, ar_key = None\<rparr>\<rparr>"

lemma demo_head_ends:
  "suffix head_end demo_head \<and> list_all (\<lambda>k. \<not> suffix head_end (take k demo_head)) [0..<length demo_head]"
  by code_simp

lemma demo_head_lines:
  "split_bytes newline (lower_head demo_head)
    = [''http/1.1 200'' @ [carriage], ''content-length: 3'' @ [carriage], [carriage], []]"
  by code_simp

lemma demo_trim: "trim_ascii (''200'' @ [carriage]) = ''200''" "trim_ascii ('' 3'' @ [carriage]) = ''3''"
  by code_simp+

lemma demo_digits: "dec_val ''200'' = 200" "dec_val ''3'' = 3" "list_all is_ascii_digit ''200''" "list_all is_ascii_digit ''3''"
  by code_simp+

lemma demo_status: "header_status (lower_head demo_head) = Some 200"
  using demo_trim demo_digits
  by (simp add: header_status_def demo_head_lines nth_opt_def parse_unsigned_def carriage_def)

lemma demo_length: "content_length (lower_head demo_head) = Some 3"
  using demo_trim demo_digits
  by (simp add: content_length_def demo_head_lines length_line_def parse_unsigned_def usize_max_def)

lemma demo_not_chunked: "\<not> is_chunked_head (lower_head demo_head)"
  by (simp add: is_chunked_head_def header_has_def demo_head_lines)

lemma demo_response: "is_response (cn_head demo_connection) demo_head ''abc''"
proof -
  have "length demo_head = 35"
    by (simp add: demo_head_def head_end_def)
  then show ?thesis
    using demo_head_ends
    by (simp add: is_response_def no_body_def interim_def demo_status demo_length body_over_def demo_not_chunked
      demo_connection_def connection_default_def MAX_RESPONSE_HEADER_BYTES_def usize_max_def upt_rec)
qed

text \<open>
  The end of a response frees the connection of whatever holds it then: only the active request is
  compared with the one the response belongs to, the permit and the deadline are not.
\<close>

lemma late_end_frees_next_request:
  assumes "wt_body t = Some body" "rb_request_id body = Some old" "active_request_id c = Some new" "old \<noteq> new"
  shows "finish_response t c = (t', c') \<Longrightarrow> active_request_id c' = Some new \<and> \<not> cn_ordinary c' \<and> cn_deadline c' = None"
  using assms
  by (auto simp: finish_response_def finish_if_def finish_request_def connection_ops active_request_id_def Let_def)

end
