(* ===== verification/Read_Pages.thy ===== *)
theory Read_Pages
  imports Json
begin

text \<open>
  The pages of the MCP read tools (\<open>ReadSnapshotStore\<close> and its helpers in \<open>mcp/reads.rs\<close>): a read
  whose result is longer than a page is kept as a snapshot under a random identifier, and the
  client reads on with a cursor that is replaced on every page. The store is bounded in bytes,
  forgets the least recently used snapshot, and belongs to one connection generation. Instants
  are milliseconds; the random bytes a call draws are its arguments.

  The writer of JSON text, the base64 encoder and the size of a value in memory are those of
  libraries: the fields of \<open>paging_lib\<close>. \<open>pl_writes v\<close> are the lengths of the buffers that
  \<open>serde_json::to_writer\<close> hands to its writer for the value \<open>v\<close>.
\<close>

section \<open>Limits\<close>

definition MAX_READ_PAGE_ITEMS :: nat where
  "MAX_READ_PAGE_ITEMS = 200"

definition MAX_READ_RESPONSE_BYTES :: nat where
  "MAX_READ_RESPONSE_BYTES = 256 * 1024"

definition MAX_READ_SNAPSHOT_BYTES :: nat where
  "MAX_READ_SNAPSHOT_BYTES = 16 * 1024 * 1024"

definition READ_CURSOR_TTL :: nat where
  "READ_CURSOR_TTL = 5 * 60 * 1000"

definition RESPONSE_ENVELOPE_RESERVE :: nat where
  "RESPONSE_ENVELOPE_RESERVE = 1024"

definition SNAPSHOT_BOOKKEEPING_BYTES :: nat where
  "SNAPSHOT_BOOKKEEPING_BYTES = 512"

definition MAX_CURSOR_BYTES :: nat where
  "MAX_CURSOR_BYTES = 256"

lemmas read_limits = MAX_READ_PAGE_ITEMS_def MAX_READ_RESPONSE_BYTES_def
  MAX_READ_SNAPSHOT_BYTES_def READ_CURSOR_TTL_def RESPONSE_ENVELOPE_RESERVE_def
  SNAPSHOT_BOOKKEEPING_BYTES_def MAX_CURSOR_BYTES_def

datatype paging_error =
    Invalid_cursor
  | Stale_cursor
  | Item_too_large
  | Snapshot_too_large
  | Random_unavailable
  | Serialization

record paging_lib =
  pl_writes :: "json \<Rightarrow> nat list"
  pl_encode :: "string \<Rightarrow> string"
  pl_value_size :: nat

section \<open>The size of a value as JSON text\<close>

text \<open>The writer that only counts: a write that passes the limit is an error.\<close>

record limited_counter =
  lc_bytes :: nat
  lc_limit :: nat
  lc_exceeded :: bool

definition counter_write :: "nat \<Rightarrow> limited_counter \<Rightarrow> (unit + nat) \<times> limited_counter" where
  "counter_write buffer w =
     (let w1 = w\<lparr>lc_bytes := sat_add (lc_bytes w) buffer\<rparr>
      in if lc_bytes w1 > lc_limit w1 then (Inl (), w1\<lparr>lc_exceeded := True\<rparr>) else (Inr buffer, w1))"

text \<open>The serializer writes its buffers in turn and stops at the first error.\<close>

fun to_writer :: "nat list \<Rightarrow> limited_counter \<Rightarrow> (unit + unit) \<times> limited_counter" where
  "to_writer [] w = (Inr (), w)"
| "to_writer (buffer # buffers) w =
     (case counter_write buffer w of
       (Inl e, w') \<Rightarrow> (Inl e, w')
     | (Inr _, w') \<Rightarrow> to_writer buffers w')"

definition serialized_size :: "paging_lib \<Rightarrow> json \<Rightarrow> nat \<Rightarrow> paging_error + nat" where
  "serialized_size L v limit =
     (case to_writer (pl_writes L v) \<lparr>lc_bytes = 0, lc_limit = limit, lc_exceeded = False\<rparr> of
       (result, w) \<Rightarrow>
         if lc_exceeded w then Inl Snapshot_too_large
         else bind_r (map_err (\<lambda>_. Serialization) result) (\<lambda>_. Inr (lc_bytes w)))"

section \<open>Pages\<close>

abbreviation json_nat :: "nat \<Rightarrow> json" where
  "json_nat n \<equiv> JNumber (PosInt (of_nat n))"

definition page_value :: "json \<Rightarrow> json list \<Rightarrow> nat \<Rightarrow> nat \<Rightarrow> bool \<Rightarrow> string option \<Rightarrow> json" where
  "page_value metadata items total_items next_offset truncated cursor =
     JObject
       [(''metadata'', metadata),
        (''items'', JArray items),
        (''totalItems'', json_nat total_items),
        (''nextOffset'', json_nat next_offset),
        (''truncated'', JBool truncated),
        (''cursor'', opt_json cursor)]"

text \<open>
  The loop of \<open>page_end\<close>: it takes items while the page with its wrapper fits. An item that does
  not fit even as the first one is an error.
\<close>

function fill_end :: "nat list \<Rightarrow> nat \<Rightarrow> nat \<Rightarrow> nat \<Rightarrow> nat \<Rightarrow> paging_error + nat" where
  "fill_end item_bytes offset bound used stop =
     (if stop < bound then
        let used' = sat_add (sat_add used (if stop > offset then 1 else 0)) (item_bytes ! stop)
        in if sat_add used' RESPONSE_ENVELOPE_RESERVE > MAX_READ_RESPONSE_BYTES
           then if stop = offset then Inl Item_too_large else Inr stop
           else fill_end item_bytes offset bound used' (Suc stop)
      else Inr stop)"
  by pat_completeness auto
termination
  by (relation "measure (\<lambda>(_, _, bound, _, stop). bound - stop)") auto

declare fill_end.simps [simp del]

definition page_end ::
  "paging_lib \<Rightarrow> json \<Rightarrow> json list \<Rightarrow> nat list \<Rightarrow> nat \<Rightarrow> nat \<Rightarrow> nat \<Rightarrow> bool \<Rightarrow> paging_error + nat" where
  "page_end L metadata items item_bytes offset page_size item_limit has_more =
     bind_r (serialized_size L
         (page_value metadata [] (length items) offset has_more
            (if has_more then Some (replicate 44 CHR ''x'') else None)) usize_max)
       (\<lambda>base_bytes.
         if sat_add base_bytes RESPONSE_ENVELOPE_RESERVE > MAX_READ_RESPONSE_BYTES
         then Inl Item_too_large
         else bind_r (fill_end item_bytes offset
                (min (sat_add offset (min page_size item_limit)) (length items)) base_bytes offset)
              (\<lambda>stop. if stop = offset \<and> offset < length items then Inl Item_too_large
                      else Inr stop))"

definition make_page ::
  "paging_lib \<Rightarrow> json \<Rightarrow> json list \<Rightarrow> nat \<Rightarrow> nat \<Rightarrow> string option \<Rightarrow> paging_error + json" where
  "make_page L metadata items offset stop cursor =
     (let page = page_value metadata (take (stop - offset) (drop offset items)) (length items) stop
                   (stop < length items) cursor
      in bind_r (serialized_size L page usize_max)
           (\<lambda>bytes. if sat_add bytes RESPONSE_ENVELOPE_RESERVE > MAX_READ_RESPONSE_BYTES
                    then Inl Item_too_large else Inr page))"

text \<open>\<open>random_token_bytes\<close> and \<open>random_cursor\<close>, from the bytes the system's source gave, if any.\<close>

definition random_token_bytes :: "string option \<Rightarrow> paging_error + string" where
  "random_token_bytes filled = ok_or Random_unavailable filled"

definition random_cursor :: "paging_lib \<Rightarrow> string option \<Rightarrow> paging_error + string" where
  "random_cursor L filled = bind_r (random_token_bytes filled) (\<lambda>bytes. Inr (pl_encode L bytes))"

section \<open>The store\<close>

record stored_snapshot =
  ss_tool_name :: string
  ss_generation :: u64
  ss_metadata :: json
  ss_items :: "json list"
  ss_item_bytes :: "nat list"
  ss_retained :: nat
  ss_expires_at :: nat
  ss_last_used :: u64
  ss_next_offset :: nat
  ss_cursor :: string

record read_snapshot_store =
  rs_generation :: "u64 option"
  rs_snapshots :: "(string, stored_snapshot) hash_map"
  rs_cursors :: "(string, string) hash_map"
  rs_retained :: nat
  rs_use_sequence :: u64

definition store_default :: read_snapshot_store where
  "store_default =
     \<lparr>rs_generation = None, rs_snapshots = [], rs_cursors = [], rs_retained = 0, rs_use_sequence = 0\<rparr>"

definition set_generation :: "u64 option \<Rightarrow> read_snapshot_store \<Rightarrow> read_snapshot_store" where
  "set_generation generation st =
     (if rs_generation st \<noteq> generation
      then st\<lparr>rs_snapshots := [], rs_cursors := [], rs_retained := 0, rs_generation := generation\<rparr>
      else st)"

definition remove_snapshot :: "string \<Rightarrow> read_snapshot_store \<Rightarrow> read_snapshot_store" where
  "remove_snapshot sid st =
     (case hm_get (rs_snapshots st) sid of
       None \<Rightarrow> st
     | Some snapshot \<Rightarrow>
         st\<lparr>rs_snapshots := hm_remove sid (rs_snapshots st),
            rs_retained := sat_sub (rs_retained st) (ss_retained snapshot),
            rs_cursors := hm_remove (ss_cursor snapshot) (rs_cursors st)\<rparr>)"

definition prune_expired :: "nat \<Rightarrow> read_snapshot_store \<Rightarrow> read_snapshot_store" where
  "prune_expired now st =
     fold remove_snapshot
       (map fst (filter (\<lambda>(_, snapshot). ss_expires_at snapshot \<le> now) (rs_snapshots st))) st"

text \<open>\<open>min_by_key\<close> on the last use: the first of the least.\<close>

fun least_used :: "(string, stored_snapshot) hash_map \<Rightarrow> (string \<times> stored_snapshot) option" where
  "least_used [] = None"
| "least_used (p # m) =
     (case least_used m of
       None \<Rightarrow> Some p
     | Some q \<Rightarrow> if ss_last_used (snd p) \<le> ss_last_used (snd q) then Some p else Some q)"

lemma least_used_None [simp]: "least_used m = None \<longleftrightarrow> m = []"
  by (cases m) (auto split: option.splits)

lemma least_used_in: "least_used m = Some p \<Longrightarrow> p \<in> set m"
  by (induction m arbitrary: p) (auto split: option.splits if_splits)

lemma least_used_get: "least_used m = Some (sid, s) \<Longrightarrow> hm_get m sid \<noteq> None"
  using least_used_in [of m "(sid, s)"] by (auto dest: weak_map_of_SomeI)

lemma remove_snapshot_shorter:
  "hm_get (rs_snapshots st) sid \<noteq> None \<Longrightarrow>
    length (rs_snapshots (remove_snapshot sid st)) < length (rs_snapshots st)"
  by (cases "hm_get (rs_snapshots st) sid")
    (auto simp: remove_snapshot_def AList.delete_eq map_of_eq_None_iff dest!: map_of_SomeD
      intro!: length_filter_less)

function evict_until_fits :: "nat \<Rightarrow> read_snapshot_store \<Rightarrow> read_snapshot_store" where
  "evict_until_fits required st =
     (if sat_add (rs_retained st) required > MAX_READ_SNAPSHOT_BYTES then
        (case least_used (rs_snapshots st) of
          None \<Rightarrow> st
        | Some (oldest, _) \<Rightarrow> evict_until_fits required (remove_snapshot oldest st))
      else st)"
  by pat_completeness auto
termination
  by (relation "measure (\<lambda>(_, st). length (rs_snapshots st))")
    (auto intro!: remove_snapshot_shorter dest!: least_used_get)

declare evict_until_fits.simps [simp del]

definition next_use_sequence :: "read_snapshot_store \<Rightarrow> u64 \<times> read_snapshot_store" where
  "next_use_sequence st =
     (let st1 = st\<lparr>rs_use_sequence := rs_use_sequence st + 1\<rparr> in (rs_use_sequence st1, st1))"

section \<open>Creating the first page\<close>

text \<open>The checks of \<open>create_page\<close> on the items: their sizes and the size of the whole snapshot.\<close>

fun measure_items ::
  "paging_lib \<Rightarrow> nat \<Rightarrow> json list \<Rightarrow> nat \<Rightarrow> paging_error + (nat list \<times> nat)" where
  "measure_items L metadata_bytes [] snapshot_size = Inr ([], snapshot_size)"
| "measure_items L metadata_bytes (item # items) snapshot_size =
     bind_r (serialized_size L item usize_max) (\<lambda>bytes.
       if sat_add (sat_add bytes metadata_bytes) RESPONSE_ENVELOPE_RESERVE > MAX_READ_RESPONSE_BYTES
       then Inl Item_too_large
       else let snapshot_size' = sat_add (sat_add snapshot_size bytes) (pl_value_size L)
            in if snapshot_size' > MAX_READ_SNAPSHOT_BYTES then Inl Snapshot_too_large
               else bind_r (measure_items L metadata_bytes items snapshot_size')
                      (\<lambda>(item_bytes, total). Inr (bytes # item_bytes, total)))"

definition measure_snapshot ::
  "paging_lib \<Rightarrow> json \<Rightarrow> json list \<Rightarrow> paging_error + (nat list \<times> nat)" where
  "measure_snapshot L metadata items =
     bind_r (serialized_size L metadata usize_max) (\<lambda>metadata_bytes.
       let snapshot_size = sat_add metadata_bytes SNAPSHOT_BOOKKEEPING_BYTES
       in if snapshot_size > MAX_READ_SNAPSHOT_BYTES then Inl Snapshot_too_large
          else measure_items L metadata_bytes items snapshot_size)"

text \<open>
  The rest of \<open>create_page\<close> once the snapshot has its identifier and cursor. The bytes are counted
  and the cursor is entered before the page is built, the snapshot after it.
\<close>

definition store_snapshot ::
  "paging_lib \<Rightarrow> string \<Rightarrow> stored_snapshot \<Rightarrow> nat \<Rightarrow> read_snapshot_store
    \<Rightarrow> (paging_error + json) \<times> read_snapshot_store" where
  "store_snapshot L sid draft first_end st =
     (let (last_used, st1) = next_use_sequence st;
          stored = draft\<lparr>ss_last_used := rs_use_sequence st1\<rparr>;
          st2 = evict_until_fits (ss_retained stored) st1;
          st3 = st2\<lparr>rs_retained := sat_add (rs_retained st2) (ss_retained stored)\<rparr>;
          st4 = st3\<lparr>rs_cursors := hm_insert (ss_cursor stored) sid (rs_cursors st3)\<rparr>
      in case make_page L (ss_metadata stored) (ss_items stored) 0 first_end (Some (ss_cursor stored)) of
           Inl e \<Rightarrow> (Inl e, st4)
         | Inr page \<Rightarrow>
             (Inr page, st4\<lparr>rs_snapshots := hm_insert sid stored (rs_snapshots st4)\<rparr>))"

definition create_page ::
  "paging_lib \<Rightarrow> string \<Rightarrow> u64 \<Rightarrow> json \<Rightarrow> json list \<Rightarrow> nat \<Rightarrow> nat \<Rightarrow> string option \<Rightarrow> string option
    \<Rightarrow> read_snapshot_store \<Rightarrow> (paging_error + json) \<times> read_snapshot_store" where
  "create_page L tool_name generation metadata items page_size now id_random cursor_random st =
     (let st1 = prune_expired now (set_generation (Some generation) st)
      in case bind_r (measure_snapshot L metadata items) (\<lambda>(item_bytes, snapshot_size).
                bind_r (page_end L metadata items item_bytes 0 page_size MAX_READ_PAGE_ITEMS True)
                  (\<lambda>first_end. Inr (item_bytes, snapshot_size, first_end))) of
           Inl e \<Rightarrow> (Inl e, st1)
         | Inr (item_bytes, snapshot_size, first_end) \<Rightarrow>
             if first_end = length items then (make_page L metadata items 0 first_end None, st1)
             else case bind_r (random_token_bytes id_random) (\<lambda>sid.
                    bind_r (random_cursor L cursor_random) (\<lambda>cursor. Inr (sid, cursor))) of
                    Inl e \<Rightarrow> (Inl e, st1)
                  | Inr (sid, cursor) \<Rightarrow>
                      store_snapshot L sid
                        \<lparr>ss_tool_name = tool_name, ss_generation = generation,
                         ss_metadata = metadata, ss_items = items, ss_item_bytes = item_bytes,
                         ss_retained = snapshot_size, ss_expires_at = now + READ_CURSOR_TTL,
                         ss_last_used = 0, ss_next_offset = first_end, ss_cursor = cursor\<rparr>
                        first_end st1)"

section \<open>Reading on\<close>

text \<open>The snapshot a cursor stands for, with every check of \<open>continue_page\<close>.\<close>

definition find_snapshot ::
  "string \<Rightarrow> string \<Rightarrow> u64 \<Rightarrow> read_snapshot_store \<Rightarrow> paging_error + (string \<times> stored_snapshot)" where
  "find_snapshot cursor tool_name generation st =
     bind_r (ok_or Invalid_cursor (hm_get (rs_cursors st) cursor)) (\<lambda>sid.
     bind_r (ok_or Invalid_cursor (hm_get (rs_snapshots st) sid)) (\<lambda>snapshot.
       if ss_generation snapshot \<noteq> generation \<or> rs_generation st \<noteq> Some generation
       then Inl Stale_cursor
       else if ss_tool_name snapshot \<noteq> tool_name then Inl Invalid_cursor
       else if ss_cursor snapshot \<noteq> cursor then Inl Invalid_cursor
       else Inr (sid, snapshot)))"

text \<open>The page that a cursor gives, where it ends, and the cursor of the next one.\<close>

definition next_page ::
  "paging_lib \<Rightarrow> stored_snapshot \<Rightarrow> nat \<Rightarrow> string option \<Rightarrow> paging_error + (nat \<times> string option \<times> json)" where
  "next_page L snapshot page_size cursor_random =
     (let offset = ss_next_offset snapshot
      in bind_r (page_end L (ss_metadata snapshot) (ss_items snapshot) (ss_item_bytes snapshot) offset
                   page_size MAX_READ_PAGE_ITEMS True) (\<lambda>stop.
         bind_r (if stop < length (ss_items snapshot)
                 then bind_r (random_cursor L cursor_random) (\<lambda>c. Inr (Some c))
                 else Inr None) (\<lambda>next_cursor.
         bind_r (make_page L (ss_metadata snapshot) (ss_items snapshot) offset stop next_cursor)
           (\<lambda>page. Inr (stop, next_cursor, page)))))"

text \<open>The used cursor is forgotten; the snapshot moves on under the next one, or is removed.\<close>

definition advance_cursor ::
  "string \<Rightarrow> string \<Rightarrow> stored_snapshot \<Rightarrow> nat \<Rightarrow> string option \<Rightarrow> read_snapshot_store
    \<Rightarrow> read_snapshot_store" where
  "advance_cursor cursor sid snapshot stop next_cursor st =
     (let st1 = st\<lparr>rs_cursors := hm_remove cursor (rs_cursors st)\<rparr>
      in case next_cursor of
           Some c \<Rightarrow>
             (let (last_used, st2) = next_use_sequence st1
              in st2\<lparr>rs_snapshots := hm_insert sid
                       (snapshot\<lparr>ss_next_offset := stop, ss_cursor := c, ss_last_used := last_used\<rparr>)
                       (rs_snapshots st2),
                     rs_cursors := hm_insert c sid (rs_cursors st2)\<rparr>)
         | None \<Rightarrow> remove_snapshot sid st1)"

definition continue_page ::
  "paging_lib \<Rightarrow> string \<Rightarrow> string \<Rightarrow> u64 \<Rightarrow> nat \<Rightarrow> nat \<Rightarrow> string option \<Rightarrow> read_snapshot_store
    \<Rightarrow> (paging_error + json) \<times> read_snapshot_store" where
  "continue_page L cursor tool_name generation page_size now cursor_random st =
     (if length cursor > MAX_CURSOR_BYTES then (Inl Invalid_cursor, st)
      else let st1 = prune_expired now st
           in case bind_r (find_snapshot cursor tool_name generation st1) (\<lambda>(sid, snapshot).
                     bind_r (next_page L snapshot page_size cursor_random)
                       (\<lambda>(stop, next_cursor, page). Inr (sid, snapshot, stop, next_cursor, page))) of
                Inl e \<Rightarrow> (Inl e, st1)
              | Inr (sid, snapshot, stop, next_cursor, page) \<Rightarrow>
                  (Inr page, advance_cursor cursor sid snapshot stop next_cursor st1))"

end
