(* ===== verification/Read_Pages_Laws.thy ===== *)
theory Read_Pages_Laws
  imports Read_Pages
begin

text \<open>
  Correctness of the read pages: where a page ends, what the snapshot store holds and how large it
  is after any operations, that a reader who follows the cursors gets the items once and in order
  whatever else happens in between, and that reading to the end succeeds.
\<close>

section \<open>Sizes and pages\<close>

abbreviation json_size :: "paging_lib \<Rightarrow> json \<Rightarrow> nat" where
  "json_size L v \<equiv> sum_list (pl_writes L v)"

lemma MAX_le_usize: "MAX_READ_SNAPSHOT_BYTES \<le> usize_max" "MAX_READ_RESPONSE_BYTES \<le> usize_max"
  by (simp_all add: read_limits usize_max_def)

lemma to_writer_unlimited:
  "lc_limit w = usize_max \<Longrightarrow> lc_bytes w \<le> usize_max \<Longrightarrow>
    to_writer ns w = (Inr (), w\<lparr>lc_bytes := sat_add (lc_bytes w) (sum_list ns)\<rparr>)"
proof (induction ns arbitrary: w)
  case Nil
  then show ?case by (cases w) (simp add: sat_add_def)
next
  case (Cons n ns)
  let ?w = "w\<lparr>lc_bytes := sat_add (lc_bytes w) n\<rparr>"
  have "to_writer ns ?w = (Inr (), ?w\<lparr>lc_bytes := sat_add (lc_bytes ?w) (sum_list ns)\<rparr>)"
    using Cons.prems by (intro Cons.IH) (simp_all add: sat_add_def)
  moreover have "sat_add (sat_add (lc_bytes w) n) (sum_list ns) = sat_add (lc_bytes w) (n + sum_list ns)"
    by (simp add: sat_add_def)
  moreover have "counter_write n w = (Inr n, ?w)"
    using Cons.prems by (simp add: counter_write_def Let_def sat_add_def)
  ultimately show ?case by simp
qed

lemma serialized_size_full:
  "serialized_size L v usize_max = Inr (min (json_size L v) usize_max)"
  by (simp add: serialized_size_def to_writer_unlimited sat_add_def)

lemma fill_end_bounds:
  "fill_end bs offset bound used stop = Inr e \<Longrightarrow> stop \<le> bound \<Longrightarrow> stop \<le> e \<and> e \<le> bound"
proof (induction bs offset bound used stop rule: fill_end.induct)
  case (1 bs offset bound used stop)
  from "1.prems" "1.IH" [OF _ refl] show ?case
    by (subst (asm) fill_end.simps) (auto simp: Let_def split: if_splits)
qed

lemma page_end_bounds:
  assumes "page_end L m items bs offset n lim b = Inr e" "offset \<le> length items"
  shows "offset \<le> e" "e \<le> length items" "offset < length items \<Longrightarrow> offset < e" "e \<le> offset + n"
proof -
  define b where "b = min (sat_add offset (min n lim)) (length items)"
  have b: "b \<le> length items" "b \<le> offset + n"
    by (auto simp: b_def sat_add_def)
  obtain used stop where f: "fill_end bs offset b used offset = Inr stop"
    and e: "e = stop" "\<not> (stop = offset \<and> offset < length items)"
    using assms(1) by (auto simp: page_end_def b_def Let_def split: if_splits)
  have "offset \<le> e \<and> e \<le> length items \<and> e \<le> offset + n"
  proof (cases "offset \<le> b")
    case True
    then show ?thesis using fill_end_bounds [OF f] b e by auto
  next
    case False
    then have "stop = offset" using f fill_end.simps [of bs offset b used offset] by simp
    then show ?thesis using e assms(2) by simp
  qed
  then show "offset \<le> e" "e \<le> length items" "e \<le> offset + n" "offset < length items \<Longrightarrow> offset < e"
    using e by auto
qed

definition page_items :: "json \<Rightarrow> json list" where
  "page_items page = (case Option.bind (jget ''items'' page) as_array of None \<Rightarrow> [] | Some xs \<Rightarrow> xs)"

definition page_cursor :: "json \<Rightarrow> string option" where
  "page_cursor page = Option.bind (jget ''cursor'' page) as_str"

lemma page_value_fields [simp]:
  "page_items (page_value m xs t n tr c) = xs"
  "page_cursor (page_value m xs t n tr c) = c"
  by (cases c, simp_all add: page_value_def page_items_def page_cursor_def)+

lemma make_page_Inr:
  "make_page L m items offset stop c = Inr page \<Longrightarrow>
    page_items page = take (stop - offset) (drop offset items) \<and> page_cursor page = c"
  by (auto simp: make_page_def Let_def split: if_splits)

section \<open>What the store holds\<close>

definition held :: "read_snapshot_store \<Rightarrow> nat" where
  "held st = sum_list (map (\<lambda>(_, s). ss_retained s) (rs_snapshots st))"

definition snapshot_ok :: "paging_lib \<Rightarrow> read_snapshot_store \<Rightarrow> stored_snapshot \<Rightarrow> bool" where
  "snapshot_ok L st s \<longleftrightarrow>
     rs_generation st = Some (ss_generation s) \<and>
     0 < ss_next_offset s \<and> ss_next_offset s < length (ss_items s) \<and>
     measure_snapshot L (ss_metadata s) (ss_items s) = Inr (ss_item_bytes s, ss_retained s)"

definition store_inv :: "paging_lib \<Rightarrow> read_snapshot_store \<Rightarrow> bool" where
  "store_inv L st \<longleftrightarrow>
     hm_ok (rs_snapshots st) \<and> hm_ok (rs_cursors st) \<and>
     (\<forall>(sid, s)\<in>set (rs_snapshots st). snapshot_ok L st s) \<and>
     held st \<le> MAX_READ_SNAPSHOT_BYTES \<and> held st \<le> rs_retained st"

lemma store_invI [intro]:
  assumes "hm_ok (rs_snapshots st)" "hm_ok (rs_cursors st)"
    "\<And>sid s. (sid, s) \<in> set (rs_snapshots st) \<Longrightarrow> snapshot_ok L st s"
    "held st \<le> MAX_READ_SNAPSHOT_BYTES" "held st \<le> rs_retained st"
  shows "store_inv L st"
  using assms by (auto simp: store_inv_def)

lemma store_inv_default [simp]: "store_inv L store_default"
  by (simp add: store_inv_def store_default_def held_def)

lemma hm_sum_insert_le:
  "sum_list (map f (hm_insert k v m)) \<le> (f (k, v) :: nat) + sum_list (map f m)"
  by (induction m) auto

lemma hm_sum_insert_same:
  "hm_get m k = Some v \<Longrightarrow> f (k, v') = (f (k, v) :: nat) \<Longrightarrow>
    sum_list (map f (hm_insert k v' m)) = sum_list (map f m)"
  by (induction m) (auto split: if_splits)

lemma set_hm_remove: "set (hm_remove k m) \<subseteq> set m"
  by (auto simp: hm_remove_filter)

lemma in_hm_insert: "(k', v') \<in> set (hm_insert k v m) \<Longrightarrow> (k', v') = (k, v) \<or> (k', v') \<in> set m"
  by (induction m) (auto split: if_splits)

lemma held_bytes_remove:
  "hm_ok (rs_snapshots st) \<Longrightarrow> hm_get (rs_snapshots st) sid = Some s \<Longrightarrow>
    held st = ss_retained s + held (remove_snapshot sid st)"
  using hm_sum_remove [of "rs_snapshots st" sid s "\<lambda>(_, s). ss_retained s"]
  by (simp add: held_def remove_snapshot_def)

lemma remove_frame [frame]:
  "rs_generation (remove_snapshot sid st) = rs_generation st"
  "rs_use_sequence (remove_snapshot sid st) = rs_use_sequence st"
  by (simp_all add: remove_snapshot_def split: option.splits)

lemma remove_snapshot_inv [inv_intros]:
  assumes inv: "store_inv L st"
  shows "store_inv L (remove_snapshot sid st)"
proof (cases "hm_get (rs_snapshots st) sid")
  case None
  then show ?thesis using inv by (simp add: remove_snapshot_def)
next
  case (Some s)
  let ?st = "remove_snapshot sid st"
  have ok: "hm_ok (rs_snapshots st)" using inv by (simp add: store_inv_def)
  have sn: "rs_snapshots ?st = hm_remove sid (rs_snapshots st)"
    and rt: "rs_retained ?st = rs_retained st - ss_retained s"
    and cu: "rs_cursors ?st = hm_remove (ss_cursor s) (rs_cursors st)"
    using Some by (simp_all add: remove_snapshot_def sat_sub_def)
  show ?thesis
  proof
    fix i t assume "(i, t) \<in> set (rs_snapshots ?st)"
    then have "(i, t) \<in> set (rs_snapshots st)" using set_hm_remove sn by fastforce
    then show "snapshot_ok L ?st t" using inv by (auto simp: store_inv_def snapshot_ok_def frame)
  qed (insert inv held_bytes_remove [OF ok Some], auto simp: store_inv_def sn rt cu)
qed

lemma fold_remove_inv: "store_inv L st \<Longrightarrow> store_inv L (fold remove_snapshot ids st)"
  by (induction ids arbitrary: st) (auto intro: inv_intros)

lemma fold_remove_frame [frame]:
  "rs_generation (fold remove_snapshot ids st) = rs_generation st"
  "rs_use_sequence (fold remove_snapshot ids st) = rs_use_sequence st"
  by (induction ids arbitrary: st) (simp_all add: frame)

lemma prune_expired_inv [inv_intros]: "store_inv L st \<Longrightarrow> store_inv L (prune_expired now st)"
  by (simp add: prune_expired_def fold_remove_inv)

lemma prune_store_frame [frame]: "rs_generation (prune_expired now st) = rs_generation st"
  by (simp add: prune_expired_def frame)

lemma set_generation_inv [inv_intros]: "store_inv L st \<Longrightarrow> store_inv L (set_generation g st)"
  by (auto simp: set_generation_def store_inv_def held_def)

lemma set_generation_generation [simp, frame]: "rs_generation (set_generation g st) = g"
  by (simp add: set_generation_def)

lemma evict_frame [frame]:
  "rs_generation (evict_until_fits n st) = rs_generation st"
  "rs_use_sequence (evict_until_fits n st) = rs_use_sequence st"
  by (induction n st rule: evict_until_fits.induct)
    (subst evict_until_fits.simps, auto simp: frame split: option.splits)+

lemma evict_inv [inv_intros]: "store_inv L st \<Longrightarrow> store_inv L (evict_until_fits n st)"
proof (induction n st rule: evict_until_fits.induct)
  case (1 n st)
  show ?case
  proof (cases "sat_add (rs_retained st) n > MAX_READ_SNAPSHOT_BYTES")
    case True
    then show ?thesis
      using "1.IH" [OF True] remove_snapshot_inv [OF "1.prems"] "1.prems"
      by (cases "least_used (rs_snapshots st)"; subst evict_until_fits.simps) auto
  next
    case False
    then show ?thesis using "1.prems" by (subst evict_until_fits.simps) simp
  qed
qed

lemma evict_room:
  "rs_snapshots (evict_until_fits n st) = [] \<or>
    sat_add (rs_retained (evict_until_fits n st)) n \<le> MAX_READ_SNAPSHOT_BYTES"
proof (induction n st rule: evict_until_fits.induct)
  case (1 n st)
  show ?case
  proof (cases "sat_add (rs_retained st) n > MAX_READ_SNAPSHOT_BYTES")
    case True
    then show ?thesis
      using "1.IH" [OF True] by (cases "least_used (rs_snapshots st)"; subst (1 2) evict_until_fits.simps) auto
  next
    case False
    then show ?thesis by (subst (1 2) evict_until_fits.simps) simp
  qed
qed

section \<open>Sizes of a measured snapshot\<close>

lemma sat_add_below: "sat_add a b \<le> m \<Longrightarrow> m < usize_max \<Longrightarrow> a + b \<le> m"
  by (auto simp: sat_add_def)

lemma MAX_less_usize: "MAX_READ_SNAPSHOT_BYTES < usize_max" "MAX_READ_RESPONSE_BYTES < usize_max"
  by (simp_all add: read_limits usize_max_def)

lemma response_fits:
  assumes "\<not> sat_add (sat_add (min n usize_max) k) RESPONSE_ENVELOPE_RESERVE > MAX_READ_RESPONSE_BYTES"
  shows "n + k + RESPONSE_ENVELOPE_RESERVE \<le> MAX_READ_RESPONSE_BYTES"
proof -
  have a: "sat_add (min n usize_max) k + RESPONSE_ENVELOPE_RESERVE \<le> MAX_READ_RESPONSE_BYTES"
    using assms MAX_less_usize by (intro sat_add_below) (simp_all add: not_less)
  then have "min n usize_max + k \<le> MAX_READ_RESPONSE_BYTES"
    using MAX_less_usize by (intro sat_add_below) simp_all
  with a MAX_less_usize show ?thesis by (simp add: sat_add_def min_def split: if_splits)
qed

lemma measure_items_Inr:
  "measure_items L m items n0 = Inr (bs, n) \<Longrightarrow> n0 \<le> MAX_READ_SNAPSHOT_BYTES \<Longrightarrow>
    bs = map (json_size L) items \<and> n = n0 + sum_list bs + length items * pl_value_size L \<and>
    n \<le> MAX_READ_SNAPSHOT_BYTES \<and>
    (\<forall>item\<in>set items. json_size L item + m + RESPONSE_ENVELOPE_RESERVE \<le> MAX_READ_RESPONSE_BYTES)"
proof (induction items arbitrary: n0 bs n)
  case Nil
  then show ?case by simp
next
  case (Cons item items)
  define k where "k = json_size L item"
  define n1 where "n1 = sat_add (sat_add n0 (min k usize_max)) (pl_value_size L)"
  have fits: "k + m + RESPONSE_ENVELOPE_RESERVE \<le> MAX_READ_RESPONSE_BYTES"
    using Cons.prems(1) by (intro response_fits) (auto simp: serialized_size_full k_def Let_def split: if_splits)
  obtain bs' where bs: "bs = min k usize_max # bs'" and n1: "n1 \<le> MAX_READ_SNAPSHOT_BYTES"
    and rest: "measure_items L m items n1 = Inr (bs', n)"
    using Cons.prems(1) by (auto simp: serialized_size_full k_def n1_def Let_def split: if_splits)
  have k: "min k usize_max = k" using fits MAX_less_usize by simp
  have "sat_add n0 k + pl_value_size L \<le> MAX_READ_SNAPSHOT_BYTES"
    using n1 MAX_less_usize k by (intro sat_add_below) (simp_all add: n1_def)
  then have "n1 = n0 + k + pl_value_size L"
    using MAX_less_usize k by (simp add: n1_def sat_add_def)
  with Cons.IH [OF rest n1] bs k fits show ?case by (auto simp: k_def)
qed

lemma measure_snapshot_Inr:
  assumes "measure_snapshot L m items = Inr (bs, n)"
  shows "bs = map (json_size L) items"
    "n = json_size L m + SNAPSHOT_BOOKKEEPING_BYTES + sum_list bs + length items * pl_value_size L"
    "n \<le> MAX_READ_SNAPSHOT_BYTES"
    "item \<in> set items \<Longrightarrow>
      json_size L item + json_size L m + RESPONSE_ENVELOPE_RESERVE \<le> MAX_READ_RESPONSE_BYTES"
proof -
  define k where "k = min (json_size L m) usize_max"
  define n0 where "n0 = sat_add k SNAPSHOT_BOOKKEEPING_BYTES"
  have n0: "n0 \<le> MAX_READ_SNAPSHOT_BYTES" and mi: "measure_items L k items n0 = Inr (bs, n)"
    using assms by (auto simp: measure_snapshot_def serialized_size_full k_def n0_def Let_def split: if_splits)
  have "k + SNAPSHOT_BOOKKEEPING_BYTES \<le> MAX_READ_SNAPSHOT_BYTES"
    using n0 MAX_less_usize by (intro sat_add_below) (simp_all add: n0_def)
  then have "k = json_size L m" "n0 = json_size L m + SNAPSHOT_BOOKKEEPING_BYTES"
    using MAX_less_usize by (auto simp: k_def n0_def sat_add_def min_def split: if_splits)
  with measure_items_Inr [OF mi n0]
  show "bs = map (json_size L) items"
    "n = json_size L m + SNAPSHOT_BOOKKEEPING_BYTES + sum_list bs + length items * pl_value_size L"
    "n \<le> MAX_READ_SNAPSHOT_BYTES"
    "item \<in> set items \<Longrightarrow>
      json_size L item + json_size L m + RESPONSE_ENVELOPE_RESERVE \<le> MAX_READ_RESPONSE_BYTES"
    by blast+
qed

section \<open>The operations keep the invariant\<close>

lemma next_use_frame [frame]:
  "rs_generation (snd (next_use_sequence st)) = rs_generation st"
  "rs_snapshots (snd (next_use_sequence st)) = rs_snapshots st"
  "rs_cursors (snd (next_use_sequence st)) = rs_cursors st"
  "rs_retained (snd (next_use_sequence st)) = rs_retained st"
  by (simp_all add: next_use_sequence_def Let_def)

lemma next_use_inv [inv_intros]: "store_inv L st \<Longrightarrow> store_inv L (snd (next_use_sequence st))"
  by (auto simp: store_inv_def held_def snapshot_ok_def frame)

text \<open>
  \<open>store_snapshot\<close> in one equation: the store with room made, the cursor and the bytes entered, and
  the snapshot only if its page could be built.
\<close>

definition room_for :: "nat \<Rightarrow> read_snapshot_store \<Rightarrow> read_snapshot_store" where
  "room_for n st = evict_until_fits n (snd (next_use_sequence st))"

lemma room_for_inv: "store_inv L st \<Longrightarrow> store_inv L (room_for n st)"
  by (simp add: room_for_def inv_intros)

lemma room_for_generation [frame]: "rs_generation (room_for n st) = rs_generation st"
  by (simp add: room_for_def frame)

lemma room_for_held:
  assumes "store_inv L st" "n \<le> MAX_READ_SNAPSHOT_BYTES"
  shows "held (room_for n st) + n \<le> MAX_READ_SNAPSHOT_BYTES"
proof -
  let ?st = "room_for n st"
  have inv: "store_inv L ?st" using assms by (intro room_for_inv)
  from evict_room [of n "snd (next_use_sequence st)"]
  have "rs_snapshots ?st = [] \<or> sat_add (rs_retained ?st) n \<le> MAX_READ_SNAPSHOT_BYTES"
    by (simp add: room_for_def)
  then show ?thesis
  proof
    assume "sat_add (rs_retained ?st) n \<le> MAX_READ_SNAPSHOT_BYTES"
    then have "rs_retained ?st + n \<le> MAX_READ_SNAPSHOT_BYTES"
      using MAX_less_usize by (intro sat_add_below)
    moreover have "held ?st \<le> rs_retained ?st" using inv by (simp add: store_inv_def)
    ultimately show ?thesis by simp
  next
    assume "rs_snapshots ?st = []"
    then show ?thesis using assms(2) by (simp add: held_def)
  qed
qed

lemma store_snapshot_cases:
  obtains (error) e where
      "make_page L (ss_metadata d) (ss_items d) 0 stop (Some (ss_cursor d)) = Inl e"
      "store_snapshot L sid d stop st =
         (Inl e, (room_for (ss_retained d) st)
            \<lparr>rs_retained := sat_add (rs_retained (room_for (ss_retained d) st)) (ss_retained d),
             rs_cursors := hm_insert (ss_cursor d) sid (rs_cursors (room_for (ss_retained d) st))\<rparr>)"
  | (page) page where
      "make_page L (ss_metadata d) (ss_items d) 0 stop (Some (ss_cursor d)) = Inr page"
      "store_snapshot L sid d stop st =
         (Inr page, (room_for (ss_retained d) st)
            \<lparr>rs_retained := sat_add (rs_retained (room_for (ss_retained d) st)) (ss_retained d),
             rs_cursors := hm_insert (ss_cursor d) sid (rs_cursors (room_for (ss_retained d) st)),
             rs_snapshots := hm_insert sid (d\<lparr>ss_last_used := rs_use_sequence st + 1\<rparr>)
               (rs_snapshots (room_for (ss_retained d) st))\<rparr>)"
  by (cases "make_page L (ss_metadata d) (ss_items d) 0 stop (Some (ss_cursor d))")
    (auto simp: store_snapshot_def room_for_def next_use_sequence_def Let_def)

lemma store_snapshot_inv:
  assumes inv: "store_inv L st" and gen: "rs_generation st = Some (ss_generation d)"
    and off: "ss_next_offset d = stop" "0 < stop" "stop < length (ss_items d)"
    and ms: "measure_snapshot L (ss_metadata d) (ss_items d) = Inr (ss_item_bytes d, ss_retained d)"
  shows "store_inv L (snd (store_snapshot L sid d stop st))"
proof -
  let ?n = "ss_retained d" and ?st = "room_for (ss_retained d) st"
  have st: "store_inv L ?st" using inv by (rule room_for_inv)
  have room: "held ?st + ?n \<le> MAX_READ_SNAPSHOT_BYTES"
    using inv measure_snapshot_Inr(3) [OF ms] by (rule room_for_held)
  have ret: "held ?st + ?n \<le> sat_add (rs_retained ?st) ?n"
    using st room MAX_le_usize by (auto simp: store_inv_def sat_add_def)
  show ?thesis
  proof (cases rule: store_snapshot_cases [of L d stop sid st])
    case (error e)
    have "snapshot_ok L st' s" if "snapshot_ok L ?st s" "rs_generation st' = rs_generation ?st" for s st'
      using that by (simp add: snapshot_ok_def)
    then show ?thesis using st ret error(2) by (auto simp: store_inv_def held_def)
  next
    case (page p)
    let ?d = "d\<lparr>ss_last_used := rs_use_sequence st + 1\<rparr>" and ?st' = "snd (store_snapshot L sid d stop st)"
    have sn: "rs_snapshots ?st' = hm_insert sid ?d (rs_snapshots ?st)"
      and cu: "rs_cursors ?st' = hm_insert (ss_cursor d) sid (rs_cursors ?st)"
      and rt: "rs_retained ?st' = sat_add (rs_retained ?st) ?n"
      and ge: "rs_generation ?st' = rs_generation st"
      using page(2) by (simp_all add: frame)
    have h: "held ?st' \<le> held ?st + ?n"
      using hm_sum_insert_le [of "\<lambda>(_, s). ss_retained s" sid ?d "rs_snapshots ?st"] by (simp add: held_def sn)
    show ?thesis
    proof
      fix i s assume "(i, s) \<in> set (rs_snapshots ?st')"
      then have "s = ?d \<or> (i, s) \<in> set (rs_snapshots ?st)" using in_hm_insert sn by fastforce
      then show "snapshot_ok L ?st' s"
      proof
        assume "s = ?d"
        then show ?thesis using gen off ms by (simp add: snapshot_ok_def ge)
      next
        assume "(i, s) \<in> set (rs_snapshots ?st)"
        then show ?thesis using st by (auto simp: store_inv_def snapshot_ok_def ge frame)
      qed
    next
      show "hm_ok (rs_snapshots ?st')" "hm_ok (rs_cursors ?st')"
        using st by (simp_all add: sn cu store_inv_def)
      show "held ?st' \<le> MAX_READ_SNAPSHOT_BYTES" "held ?st' \<le> rs_retained ?st'"
        using h room ret rt by linarith+
    qed
  qed
qed

lemma create_page_inv [inv_intros]:
  assumes "store_inv L st"
  shows "store_inv L (snd (create_page L tool g m items n now r1 r2 st))"
proof -
  let ?st = "prune_expired now (set_generation (Some g) st)"
  have st: "store_inv L ?st" using assms by (intro inv_intros)
  have gen: "rs_generation ?st = Some g" by (simp add: frame)
  show ?thesis
  proof (cases "bind_r (measure_snapshot L m items) (\<lambda>(item_bytes, snapshot_size).
                bind_r (page_end L m items item_bytes 0 n MAX_READ_PAGE_ITEMS True)
                  (\<lambda>first_end. Inr (item_bytes, snapshot_size, first_end)))")
    case (Inl e)
    then show ?thesis using st by (simp add: create_page_def Let_def)
  next
    case (Inr p)
    obtain bs k stop where p: "p = (bs, k, stop)" by (rule prod_cases3)
    have ms: "measure_snapshot L m items = Inr (bs, k)"
      and pe: "page_end L m items bs 0 n MAX_READ_PAGE_ITEMS True = Inr stop"
      using Inr p by auto
    have stop: "stop \<le> length items" "0 < length items \<Longrightarrow> 0 < stop"
      using page_end_bounds [OF pe] by auto
    show ?thesis
    proof (cases "stop = length items")
      case True
      then show ?thesis using st Inr p by (simp add: create_page_def Let_def)
    next
      case False
      then have lt: "stop < length items" "0 < stop" using stop by linarith+
      let ?rs = "bind_r (random_token_bytes r1) (\<lambda>i. bind_r (random_cursor L r2) (\<lambda>c. Inr (i, c)))"
      show ?thesis
      proof (cases ?rs)
        case (Inl e)
        then show ?thesis using st Inr p False by (simp add: create_page_def Let_def)
      next
        case r: (Inr q)
        obtain i c where q: "q = (i, c)" by (rule prod.exhaust)
        show ?thesis
          using Inr p False r q lt ms gen
          by (simp add: create_page_def Let_def store_snapshot_inv [OF st])
      qed
    qed
  qed
qed

lemma find_snapshot_Inr:
  "find_snapshot cursor tool g st = Inr (sid, s) \<longleftrightarrow>
    hm_get (rs_cursors st) cursor = Some sid \<and> hm_get (rs_snapshots st) sid = Some s \<and>
    ss_generation s = g \<and> rs_generation st = Some g \<and> ss_tool_name s = tool \<and> ss_cursor s = cursor"
  by (auto simp: find_snapshot_def)

lemma next_page_Inr:
  assumes "next_page L s n r = Inr (stop, c, page)"
  shows "page_end L (ss_metadata s) (ss_items s) (ss_item_bytes s) (ss_next_offset s) n
      MAX_READ_PAGE_ITEMS True = Inr stop"
    "page_items page = take (stop - ss_next_offset s) (drop (ss_next_offset s) (ss_items s))"
    "page_cursor page = c"
    "stop < length (ss_items s) \<Longrightarrow> \<exists>b. r = Some b \<and> c = Some (pl_encode L b)"
    "\<not> stop < length (ss_items s) \<Longrightarrow> c = None"
  using assms
  by (auto simp: next_page_def Let_def random_cursor_def random_token_bytes_def
      dest!: make_page_Inr split: if_splits)

lemma continue_page_cases:
  obtains (error) e where
      "continue_page L cursor tool g n now r st =
         (Inl e, if length cursor > MAX_CURSOR_BYTES then st else prune_expired now st)"
  | (page) sid s stop c page where
      "find_snapshot cursor tool g (prune_expired now st) = Inr (sid, s)"
      "next_page L s n r = Inr (stop, c, page)"
      "continue_page L cursor tool g n now r st =
         (Inr page, advance_cursor cursor sid s stop c (prune_expired now st))"
proof (cases "length cursor > MAX_CURSOR_BYTES")
  case True
  then show thesis using error by (simp add: continue_page_def)
next
  case False
  let ?st = "prune_expired now st"
  let ?r = "bind_r (find_snapshot cursor tool g ?st) (\<lambda>(sid, snapshot).
              bind_r (next_page L snapshot n r) (\<lambda>(stop, c, page). Inr (sid, snapshot, stop, c, page)))"
  show thesis
  proof (cases ?r)
    case (Inl e)
    then show thesis using error [of e] False by (simp add: continue_page_def Let_def)
  next
    case (Inr q)
    then obtain sid s stop c p where q: "q = (sid, s, stop, c, p)"
      and fs: "find_snapshot cursor tool g ?st = Inr (sid, s)" and np: "next_page L s n r = Inr (stop, c, p)"
      by auto
    show thesis using page [OF fs np] Inr q False by (simp add: continue_page_def Let_def)
  qed
qed

lemma advance_cursor_inv:
  assumes inv: "store_inv L st" and s: "hm_get (rs_snapshots st) sid = Some s"
    and stop: "c \<noteq> None \<Longrightarrow> 0 < stop \<and> stop < length (ss_items s)"
  shows "store_inv L (advance_cursor cursor sid s stop c st)"
proof (cases c)
  case None
  have "store_inv L (st\<lparr>rs_cursors := hm_remove cursor (rs_cursors st)\<rparr>)"
    using inv by (auto simp: store_inv_def held_def snapshot_ok_def)
  then show ?thesis by (simp add: advance_cursor_def None inv_intros)
next
  case (Some c')
  let ?s = "s\<lparr>ss_next_offset := stop, ss_cursor := c', ss_last_used := rs_use_sequence st + 1\<rparr>"
    and ?st = "advance_cursor cursor sid s stop (Some c') st"
  have f: "rs_snapshots ?st = hm_insert sid ?s (rs_snapshots st)"
    "rs_cursors ?st = hm_insert c' sid (hm_remove cursor (rs_cursors st))"
    "rs_retained ?st = rs_retained st" "rs_generation ?st = rs_generation st"
    by (simp_all add: advance_cursor_def next_use_sequence_def Let_def)
  have h: "held ?st = held st"
    using hm_sum_insert_same [OF s, of "\<lambda>(_, s). ss_retained s" ?s] by (simp add: held_def f)
  have ok: "snapshot_ok L st s"
    using inv s by (auto simp: store_inv_def dest: map_of_SomeD)
  have "store_inv L ?st"
  proof
    fix i t assume "(i, t) \<in> set (rs_snapshots ?st)"
    then have "t = ?s \<or> (i, t) \<in> set (rs_snapshots st)" using in_hm_insert f(1) by fastforce
    then show "snapshot_ok L ?st t"
    proof
      assume "t = ?s"
      then show ?thesis using ok stop Some by (simp add: snapshot_ok_def f)
    next
      assume "(i, t) \<in> set (rs_snapshots st)"
      then show ?thesis using inv by (auto simp: store_inv_def snapshot_ok_def f)
    qed
  qed (insert inv h, auto simp: f store_inv_def)
  then show ?thesis by (simp add: Some)
qed

lemma continue_page_inv [inv_intros]:
  assumes "store_inv L st"
  shows "store_inv L (snd (continue_page L cursor tool g n now r st))"
proof (cases rule: continue_page_cases [of L cursor tool g n now r st])
  case (error e)
  then show ?thesis using assms by (simp add: inv_intros)
next
  case (page sid s stop c p)
  have st: "store_inv L (prune_expired now st)" using assms by (intro inv_intros)
  have s: "hm_get (rs_snapshots (prune_expired now st)) sid = Some s"
    using page(1) by (simp add: find_snapshot_Inr)
  have ok: "snapshot_ok L (prune_expired now st) s"
    using st s by (auto simp: store_inv_def dest: map_of_SomeD)
  have "0 < stop \<and> stop < length (ss_items s)" if "c \<noteq> None"
  proof -
    have "stop < length (ss_items s)" using next_page_Inr(5) [OF page(2)] that by auto
    moreover have "ss_next_offset s \<le> stop"
      using page_end_bounds(1) [OF next_page_Inr(1) [OF page(2)]] ok by (simp add: snapshot_ok_def)
    ultimately show ?thesis using ok by (simp add: snapshot_ok_def)
  qed
  then have "store_inv L (advance_cursor cursor sid s stop c (prune_expired now st))"
    by (rule advance_cursor_inv [OF st s])
  then show ?thesis using page(3) by simp
qed

section \<open>Any operations\<close>

datatype page_op =
    Page_generation "u64 option"
  | Page_create string u64 json "json list" nat nat "string option" "string option"
  | Page_continue string string u64 nat nat "string option"

fun page_step ::
  "paging_lib \<Rightarrow> page_op \<Rightarrow> read_snapshot_store \<Rightarrow> (paging_error + json) \<times> read_snapshot_store" where
  "page_step L (Page_generation g) st = (Inr JNull, set_generation g st)"
| "page_step L (Page_create tool g m items n now r1 r2) st = create_page L tool g m items n now r1 r2 st"
| "page_step L (Page_continue cursor tool g n now r) st = continue_page L cursor tool g n now r st"

fun page_run ::
  "paging_lib \<Rightarrow> page_op list \<Rightarrow> read_snapshot_store \<Rightarrow> (paging_error + json) list \<times> read_snapshot_store" where
  "page_run L [] st = ([], st)"
| "page_run L (p # ps) st =
     (let (r, st1) = page_step L p st; (rs, st2) = page_run L ps st1 in (r # rs, st2))"

lemma page_step_inv [inv_intros]: "store_inv L st \<Longrightarrow> store_inv L (snd (page_step L p st))"
  by (cases p) (auto intro: inv_intros)

lemma page_run_inv: "store_inv L st \<Longrightarrow> store_inv L (snd (page_run L ps st))"
proof (induction ps arbitrary: st)
  case (Cons p ps)
  then show ?case
    using Cons.IH [OF page_step_inv [OF Cons.prems, of p]] by (simp add: Let_def case_prod_beta)
qed simp

definition true_size :: "paging_lib \<Rightarrow> stored_snapshot \<Rightarrow> nat" where
  "true_size L s =
     json_size L (ss_metadata s) + SNAPSHOT_BOOKKEEPING_BYTES
       + (\<Sum>item\<leftarrow>ss_items s. json_size L item + pl_value_size L)"

lemma snapshot_true_size: "snapshot_ok L st s \<Longrightarrow> ss_retained s = true_size L s"
  using measure_snapshot_Inr(1,2) [of L "ss_metadata s" "ss_items s" "ss_item_bytes s" "ss_retained s"]
  by (simp add: snapshot_ok_def true_size_def sum_list_addf sum_list_triv o_def)

definition store_after :: "paging_lib \<Rightarrow> page_op list \<Rightarrow> read_snapshot_store" where
  "store_after L ps = snd (page_run L ps store_default)"

text \<open>C27: Whatever reads, continuations and changes of connection come, with whatever items, clocks and
  random bytes, the snapshots kept are at most 16 MiB of text and values together, each is of the connection
  generation the store stands at, and each has items left that no page has delivered.\<close>

theorem snapshots_are_bounded:
  "(\<Sum>(_, s)\<leftarrow>rs_snapshots (store_after L ps). true_size L s) \<le> MAX_READ_SNAPSHOT_BYTES
    \<and> list_all (\<lambda>(_, s). rs_generation (store_after L ps) = Some (ss_generation s)
         \<and> ss_next_offset s < length (ss_items s)) (rs_snapshots (store_after L ps))"
proof -
  let ?st = "store_after L ps" and ?kept = "rs_snapshots (store_after L ps)"
  have inv: "store_inv L ?st" by (simp add: store_after_def page_run_inv)
  then have ok: "snapshot_ok L ?st s" if "(i, s) \<in> set ?kept" for i s
    using that by (auto simp: store_inv_def)
  have "(\<Sum>(_, s)\<leftarrow>?kept. true_size L s) = held ?st"
    unfolding held_def using snapshot_true_size [OF ok]
    by (intro arg_cong [where f = sum_list] map_cong) auto
  moreover have "held ?st \<le> MAX_READ_SNAPSHOT_BYTES" using inv by (simp add: store_inv_def)
  ultimately show ?thesis using ok by (auto simp: snapshot_ok_def list_all_iff)
qed

section \<open>Reading with cursors\<close>

text \<open>What an operation that only forgets leaves: some of the cursors and some of the snapshots.\<close>

definition part_of :: "read_snapshot_store \<Rightarrow> read_snapshot_store \<Rightarrow> bool" where
  "part_of st' st \<longleftrightarrow> hm_get (rs_cursors st') \<subseteq>\<^sub>m hm_get (rs_cursors st)
     \<and> hm_get (rs_snapshots st') \<subseteq>\<^sub>m hm_get (rs_snapshots st)"

lemma part_of_refl [simp, intro]: "part_of st st"
  by (simp add: part_of_def)

lemma part_of_trans: "part_of a b \<Longrightarrow> part_of b c \<Longrightarrow> part_of a c"
  by (auto simp: part_of_def intro: map_le_trans)

lemma part_of_remove: "part_of (remove_snapshot sid st) st"
  by (auto simp: part_of_def remove_snapshot_def hm_get_remove map_le_def split: option.splits)

lemma part_of_fold_remove: "part_of (fold remove_snapshot ids st) st"
  by (induction ids arbitrary: st) (auto intro: part_of_trans part_of_remove)

lemma part_of_prune: "part_of (prune_expired now st) st"
  by (simp add: prune_expired_def part_of_fold_remove)

lemma part_of_set_generation: "part_of (set_generation g st) st"
  by (simp add: set_generation_def part_of_def map_le_def)

lemma part_of_evict: "part_of (evict_until_fits n st) st"
proof (induction n st rule: evict_until_fits.induct)
  case (1 n st)
  show ?case
  proof (cases "sat_add (rs_retained st) n > MAX_READ_SNAPSHOT_BYTES")
    case True
    show ?thesis
    proof (cases "least_used (rs_snapshots st)")
      case None
      then show ?thesis by (subst evict_until_fits.simps) simp
    next
      case (Some p)
      then obtain a b where p: "least_used (rs_snapshots st) = Some (a, b)" by (cases p) simp
      then have "part_of (evict_until_fits n (remove_snapshot a st)) (remove_snapshot a st)"
        using "1.IH" [OF True] by auto
      then have "part_of (evict_until_fits n (remove_snapshot a st)) st"
        using part_of_remove by (rule part_of_trans)
      then show ?thesis using True p by (subst evict_until_fits.simps) simp
    qed
  next
    case False
    then show ?thesis by (subst evict_until_fits.simps) simp
  qed
qed

lemma part_of_room: "part_of (room_for n st) st"
proof -
  have "part_of (snd (next_use_sequence st)) st" by (simp add: part_of_def frame)
  then show ?thesis using part_of_evict part_of_trans unfolding room_for_def by blast
qed

lemma removed_is_gone: "sid \<in> set ids \<Longrightarrow> hm_get (rs_snapshots (fold remove_snapshot ids st)) sid = None"
proof (induction ids arbitrary: st)
  case (Cons i ids)
  show ?case
  proof (cases "sid \<in> set ids")
    case True
    then show ?thesis using Cons.IH by simp
  next
    case False
    have "hm_get (rs_snapshots (remove_snapshot i st)) i = None"
      by (simp add: remove_snapshot_def hm_get_remove split: option.splits)
    moreover have "i = sid" using Cons.prems False by simp
    ultimately show ?thesis
      using part_of_fold_remove [of ids "remove_snapshot i st"]
      by (auto simp: part_of_def map_le_def dom_def)
  qed
qed simp

lemma prune_get:
  assumes "hm_get (rs_snapshots (prune_expired now st)) sid = Some s"
  shows "now < ss_expires_at s"
proof (rule ccontr)
  assume "\<not> now < ss_expires_at s"
  moreover have "(sid, s) \<in> set (rs_snapshots st)"
    using assms part_of_prune [of now st]
    by (auto simp: part_of_def map_le_def dom_def intro!: map_of_SomeD)
  ultimately have "sid \<in> set (map fst (filter (\<lambda>(_, s). ss_expires_at s \<le> now) (rs_snapshots st)))"
    by force
  from removed_is_gone [OF this] assms show False by (simp add: prune_expired_def)
qed

text \<open>A cursor stands for the rest of the items from an offset on, read by one tool in one
  generation until a deadline, as long as the store knows it.\<close>

record reading =
  rd_tool :: string
  rd_generation :: u64
  rd_items :: "json list"
  rd_deadline :: nat

definition serves :: "read_snapshot_store \<Rightarrow> string \<Rightarrow> reading \<Rightarrow> nat \<Rightarrow> bool" where
  "serves st c rd offset \<longleftrightarrow>
     (\<forall>sid s. hm_get (rs_cursors st) c = Some sid \<longrightarrow> hm_get (rs_snapshots st) sid = Some s \<longrightarrow>
        ss_cursor s = c \<longrightarrow>
        ss_items s = rd_items rd \<and> ss_next_offset s = offset \<and> ss_tool_name s = rd_tool rd \<and>
        ss_generation s = rd_generation rd \<and> ss_expires_at s = rd_deadline rd)"

lemma serves_part: "serves st c rd offset \<Longrightarrow> part_of st' st \<Longrightarrow> serves st' c rd offset"
  unfolding serves_def part_of_def map_le_def dom_def by fastforce

text \<open>The cursors that an operation may hand out.\<close>

fun cursor_drawn :: "paging_lib \<Rightarrow> page_op \<Rightarrow> string list" where
  "cursor_drawn L (Page_create tool g m items n now r1 (Some b)) = [pl_encode L b]"
| "cursor_drawn L (Page_continue c tool g n now (Some b)) = [pl_encode L b]"
| "cursor_drawn L p = []"

lemma serves_store_snapshot:
  assumes "serves st c rd offset" "ss_cursor d \<noteq> c"
  shows "serves (snd (store_snapshot L sid d stop st)) c rd offset"
proof -
  have s: "serves (room_for (ss_retained d) st) c rd offset"
    using assms(1) part_of_room by (rule serves_part)
  show ?thesis
    using s assms(2)
    by (cases rule: store_snapshot_cases [of L d stop sid st])
      (auto simp: serves_def hm_get_insert)
qed

lemma serves_advance:
  assumes "serves st c rd offset" "next_cursor \<noteq> Some c"
  shows "serves (advance_cursor cursor sid s stop next_cursor st) c rd offset"
proof -
  have p: "part_of (st\<lparr>rs_cursors := hm_remove cursor (rs_cursors st)\<rparr>) st"
    by (auto simp: part_of_def hm_get_remove map_le_def)
  show ?thesis
  proof (cases next_cursor)
    case None
    then show ?thesis
      using serves_part [OF assms(1) part_of_trans [OF part_of_remove p]] by (simp add: advance_cursor_def)
  next
    case (Some c')
    then show ?thesis
      using serves_part [OF assms(1) p] assms(2)
      by (auto simp: advance_cursor_def next_use_sequence_def Let_def serves_def hm_get_insert)
  qed
qed

lemma serves_create:
  assumes "serves st c rd offset" "c \<notin> set (cursor_drawn L (Page_create tool g m items n now r1 r2))"
  shows "serves (snd (create_page L tool g m items n now r1 r2 st)) c rd offset"
proof -
  let ?st = "prune_expired now (set_generation (Some g) st)"
  have s: "serves ?st c rd offset"
    using assms(1) part_of_prune part_of_set_generation by (blast intro: serves_part part_of_trans)
  have "ss_cursor d \<noteq> c \<Longrightarrow> serves (snd (store_snapshot L sid d stop ?st)) c rd offset" for sid d stop
    using s by (rule serves_store_snapshot)
  then show ?thesis
    using s assms(2)
    by (cases r2) (auto simp: create_page_def Let_def random_cursor_def random_token_bytes_def
        split: sum.splits prod.splits)
qed

lemma serves_continue:
  assumes "serves st c rd offset" "c \<notin> set (cursor_drawn L (Page_continue cursor tool g n now r))"
  shows "serves (snd (continue_page L cursor tool g n now r st)) c rd offset"
proof -
  have s: "serves (prune_expired now st) c rd offset"
    using assms(1) part_of_prune by (rule serves_part)
  show ?thesis
  proof (cases rule: continue_page_cases [of L cursor tool g n now r st])
    case (error e)
    then show ?thesis using s assms(1) by simp
  next
    case (page sid t stop c' p)
    have "c' \<noteq> Some c"
      using next_page_Inr(4,5) [OF page(2)] assms(2) by (cases "stop < length (ss_items t)") auto
    then show ?thesis using page(3) serves_advance [OF s] by simp
  qed
qed

lemma serves_step:
  "serves st c rd offset \<Longrightarrow> c \<notin> set (cursor_drawn L p) \<Longrightarrow> serves (snd (page_step L p st)) c rd offset"
  by (cases p)
    (auto simp del: cursor_drawn.simps intro: serves_create serves_continue serves_part part_of_set_generation)

text \<open>The pages that a reader gets by following a cursor through the log of a run, and the cursor it is left with.\<close>

fun follow :: "(page_op \<times> (paging_error + json)) list \<Rightarrow> string \<Rightarrow> (page_op \<times> json) list \<times> string option" where
  "follow [] c = ([], Some c)"
| "follow ((Page_continue cursor tool g n now r, Inr page) # log) c =
     (if cursor = c
      then (case page_cursor page of
              None \<Rightarrow> ([(Page_continue cursor tool g n now r, page)], None)
            | Some c' \<Rightarrow> (let (pages, left) = follow log c'
                         in ((Page_continue cursor tool g n now r, page) # pages, left)))
      else follow log c)"
| "follow (p # log) c = follow log c"

text \<open>A page read with the tool, in the generation and before the deadline of a reading.\<close>

fun reads_for :: "reading \<Rightarrow> page_op \<times> json \<Rightarrow> bool" where
  "reads_for rd (Page_continue cursor tool g n now r, page) \<longleftrightarrow>
     tool = rd_tool rd \<and> g = rd_generation rd \<and> now < rd_deadline rd \<and> page_items page \<noteq> []"
| "reads_for rd p \<longleftrightarrow> False"

lemma continue_serves:
  assumes sv: "serves st cursor rd offset"
    and off: "offset < length (rd_items rd)"
    and r: "continue_page L cursor tool g n now r st = (Inr page, st')"
  obtains stop where "offset < stop" "stop \<le> length (rd_items rd)"
    "page_items page = take (stop - offset) (drop offset (rd_items rd))"
    "tool = rd_tool rd" "g = rd_generation rd" "now < rd_deadline rd"
    "page_cursor page = None \<longleftrightarrow> stop = length (rd_items rd)"
    "\<And>c. page_cursor page = Some c \<Longrightarrow>
      serves st' c rd stop \<and> c \<in> set (cursor_drawn L (Page_continue cursor tool g n now r))"
proof (cases rule: continue_page_cases [of L cursor tool g n now r st])
  case (error e)
  then show thesis using r by simp
next
  case (page sid s stop c p)
  let ?st = "prune_expired now st"
  have f: "hm_get (rs_cursors ?st) cursor = Some sid" "hm_get (rs_snapshots ?st) sid = Some s"
    "ss_cursor s = cursor" "ss_tool_name s = tool" "ss_generation s = g"
    using page(1) by (auto simp: find_snapshot_Inr)
  have "serves ?st cursor rd offset" using sv part_of_prune by (rule serves_part)
  then have s: "ss_items s = rd_items rd" "ss_next_offset s = offset" "ss_tool_name s = rd_tool rd"
    "ss_generation s = rd_generation rd" "ss_expires_at s = rd_deadline rd"
    using f by (auto simp: serves_def)
  have p: "p = page" and st': "st' = advance_cursor cursor sid s stop c ?st" using page(3) r by auto
  note np = next_page_Inr [OF page(2), unfolded p s(1,2)]
  have b: "offset < stop" "stop \<le> length (rd_items rd)"
    using page_end_bounds [OF np(1)] off by auto
  show thesis
  proof (rule that [OF b np(2)])
    show "tool = rd_tool rd" "g = rd_generation rd" using f s by simp_all
    show "now < rd_deadline rd" using prune_get [OF f(2)] s by simp
    show "page_cursor page = None \<longleftrightarrow> stop = length (rd_items rd)"
      using np(3-5) b by (cases "stop < length (rd_items rd)") auto
    fix c' assume c': "page_cursor page = Some c'"
    then have "c = Some c'" using np(3) by simp
    then show "serves st' c' rd stop \<and> c' \<in> set (cursor_drawn L (Page_continue cursor tool g n now r))"
      using np(4,5) s unfolding st'
      by (cases "stop < length (rd_items rd)")
        (auto simp: advance_cursor_def next_use_sequence_def Let_def serves_def hm_get_insert)
  qed
qed

lemma store_snapshot_serves:
  assumes "store_snapshot L sid d stop st = (Inr page, st')" "ss_next_offset d = stop"
  shows "page_items page = take stop (ss_items d) \<and> page_cursor page = Some (ss_cursor d) \<and>
    serves st' (ss_cursor d) \<lparr>rd_tool = ss_tool_name d, rd_generation = ss_generation d,
      rd_items = ss_items d, rd_deadline = ss_expires_at d\<rparr> stop"
  using assms
  by (cases rule: store_snapshot_cases [of L d stop sid st])
    (auto simp: serves_def hm_get_insert dest!: make_page_Inr)

lemma create_serves:
  assumes r: "create_page L tool g m items n now r1 r2 st = (Inr page, st')"
  obtains (whole) "page_cursor page = None" "page_items page = items"
  | (first) c stop where "page_cursor page = Some c" "page_items page = take stop items"
      "stop < length items" "c \<in> set (cursor_drawn L (Page_create tool g m items n now r1 r2))"
      "serves st' c \<lparr>rd_tool = tool, rd_generation = g, rd_items = items,
         rd_deadline = now + READ_CURSOR_TTL\<rparr> stop"
proof -
  let ?st = "prune_expired now (set_generation (Some g) st)"
  obtain bs k stop where
    pe: "page_end L m items bs 0 n MAX_READ_PAGE_ITEMS True = Inr stop" and
    rest: "(if stop = length items then (make_page L m items 0 stop None, ?st)
      else case bind_r (random_token_bytes r1) (\<lambda>i. bind_r (random_cursor L r2) (\<lambda>c. Inr (i, c))) of
        Inl e \<Rightarrow> (Inl e, ?st)
      | Inr (i, c) \<Rightarrow>
          store_snapshot L i
            \<lparr>ss_tool_name = tool, ss_generation = g, ss_metadata = m, ss_items = items, ss_item_bytes = bs,
             ss_retained = k, ss_expires_at = now + READ_CURSOR_TTL, ss_last_used = 0,
             ss_next_offset = stop, ss_cursor = c\<rparr> stop ?st) = (Inr page, st')"
    using r unfolding create_page_def Let_def by (auto split: sum.splits prod.splits)
  show thesis
  proof (cases "stop = length items")
    case True
    then show thesis using rest by (intro whole) (auto dest!: make_page_Inr)
  next
    case False
    then have lt: "stop < length items" using page_end_bounds(2) [OF pe] by simp
    obtain i b where ib: "r1 = Some i" "r2 = Some b"
      using rest False by (cases r1; cases r2) (auto simp: random_token_bytes_def random_cursor_def)
    show thesis
      using rest False ib store_snapshot_serves lt
      by (intro first [of "pl_encode L b" stop])
        (auto simp: random_token_bytes_def random_cursor_def dest!: store_snapshot_serves)
  qed
qed

lemma follow_serves:
  assumes "page_run L ps st = (rs, st')" "serves st c rd offset" "offset < length (rd_items rd)"
    "distinct (concat (map (cursor_drawn L) ps))" "c \<notin> set (concat (map (cursor_drawn L) ps))"
    "follow (zip ps rs) c = (pages, left)"
  shows "\<exists>rest. drop offset (rd_items rd) = concat (map (\<lambda>p. page_items (snd p)) pages) @ rest
    \<and> (left = None \<longleftrightarrow> rest = []) \<and> list_all (reads_for rd) pages"
  using assms
proof (induction ps arbitrary: st c offset rs pages left)
  case Nil
  then show ?case by auto
next
  case (Cons p ps)
  obtain r st1 rs1 where step: "page_step L p st = (r, st1)" and run: "page_run L ps st1 = (rs1, st')"
    and rs: "rs = r # rs1"
    using Cons.prems(1) by (auto simp: Let_def split: prod.splits)
  have fresh: "distinct (concat (map (cursor_drawn L) ps))" "c \<notin> set (concat (map (cursor_drawn L) ps))"
    "c \<notin> set (cursor_drawn L p)"
    using Cons.prems(4,5) by auto
  show ?case
  proof (cases "\<exists>tool g n now rn page. p = Page_continue c tool g n now rn \<and> r = Inr page")
    case False
    then have "follow (zip (p # ps) rs) c = follow (zip ps rs1) c"
      unfolding rs by (cases p; cases r) auto
    moreover have "serves st1 c rd offset"
      using serves_step [OF Cons.prems(2) fresh(3)] step by simp
    ultimately show ?thesis
      using Cons.IH [OF run _ Cons.prems(3) fresh(1,2)] Cons.prems(6) by auto
  next
    case True
    then obtain tool g n now rn page where p: "p = Page_continue c tool g n now rn" and r: "r = Inr page" by auto
    from step p r have cont: "continue_page L c tool g n now rn st = (Inr page, st1)" by simp
    obtain stop where stop: "offset < stop" "stop \<le> length (rd_items rd)"
      and items: "page_items page = take (stop - offset) (drop offset (rd_items rd))"
      and rd: "tool = rd_tool rd" "g = rd_generation rd" "now < rd_deadline rd"
      and last: "page_cursor page = None \<longleftrightarrow> stop = length (rd_items rd)"
      and more: "\<And>c'. page_cursor page = Some c' \<Longrightarrow>
        serves st1 c' rd stop \<and> c' \<in> set (cursor_drawn L (Page_continue c tool g n now rn))"
      by (rule continue_serves [OF Cons.prems(2,3) cont]) (rule that, assumption+)
    have split: "drop offset (rd_items rd) = page_items page @ drop stop (rd_items rd)"
      using stop append_take_drop_id [of "stop - offset" "drop offset (rd_items rd)"] items by simp
    have nonempty: "page_items page \<noteq> []" using items stop by simp
    show ?thesis
    proof (cases "page_cursor page")
      case None
      then show ?thesis
        using Cons.prems(6) split last rd nonempty unfolding rs p r by auto
    next
      case (Some c')
      obtain pages' left' where f: "follow (zip ps rs1) c' = (pages', left')" by (rule prod.exhaust)
      have lt: "stop < length (rd_items rd)" using last Some stop by (cases "stop = length (rd_items rd)") auto
      have new: "c' \<notin> set (concat (map (cursor_drawn L) ps))"
        using more [OF Some] Cons.prems(4) unfolding p by auto
      from Cons.IH [OF run conjunct1 [OF more [OF Some]] lt fresh(1) new f]
      obtain rest where "drop stop (rd_items rd) = concat (map (\<lambda>p. page_items (snd p)) pages') @ rest"
        "left' = None \<longleftrightarrow> rest = []" "list_all (reads_for rd) pages'" by auto
      then show ?thesis
        using Cons.prems(6) split rd nonempty f Some unfolding rs p r by auto
    qed
  qed
qed

text \<open>C26: A read that is delivered in pages is delivered whole and in order. Whatever other reads, expirations,
  evictions and changes of connection come in between, the pages that a client gets by following the
  cursors of a read are consecutive parts of the items the read began with: nothing is skipped, repeated
  or taken from another read, the last page ends exactly at the last item, and every page was asked
  for with the same tool, in the same generation and within five minutes.\<close>

theorem pages_are_consecutive:
  assumes "page_run L (Page_create tool g m items n now r1 r2 # ps) st = (Inr page # rs, st')"
    and "distinct (concat (map (cursor_drawn L) (Page_create tool g m items n now r1 r2 # ps)))"
  shows "case page_cursor page of
      None \<Rightarrow> page_items page = items
    | Some c \<Rightarrow>
        (case follow (zip ps rs) c of (pages, left) \<Rightarrow>
          \<exists>rest. items = page_items page @ concat (map (\<lambda>p. page_items (snd p)) pages) @ rest
            \<and> (left = None \<longleftrightarrow> rest = [])
            \<and> list_all (reads_for \<lparr>rd_tool = tool, rd_generation = g, rd_items = items,
                rd_deadline = now + READ_CURSOR_TTL\<rparr>) pages)"
proof -
  obtain st1 where create: "create_page L tool g m items n now r1 r2 st = (Inr page, st1)"
    and run: "page_run L ps st1 = (rs, st')"
    using assms(1) by (auto simp: Let_def split: prod.splits)
  from create show ?thesis
  proof (cases rule: create_serves)
    case whole
    then show ?thesis by simp
  next
    case (first c stop)
    obtain pages left where f: "follow (zip ps rs) c = (pages, left)" by (rule prod.exhaust)
    have "distinct (concat (map (cursor_drawn L) ps))" "c \<notin> set (concat (map (cursor_drawn L) ps))"
      using assms(2) first(4) by auto
    from follow_serves [OF run first(5) _ this f] first(3)
    obtain rest where rest: "drop stop items = concat (map (\<lambda>p. page_items (snd p)) pages) @ rest"
      "left = None \<longleftrightarrow> rest = []"
      "list_all (reads_for \<lparr>rd_tool = tool, rd_generation = g, rd_items = items,
                rd_deadline = now + READ_CURSOR_TTL\<rparr>) pages" by auto
    moreover have "items = take stop items @ concat (map (\<lambda>p. page_items (snd p)) pages) @ rest"
      using append_take_drop_id [of stop items] unfolding rest(1) by simp
    ultimately show ?thesis
      using first(1,2) f by (simp, intro exI [of _ rest]) simp
  qed
qed

end
