(* ===== verification/Read_Pages_End.thy ===== *)
theory Read_Pages_End
  imports Read_Pages_Laws
begin

text \<open>
  Reading to the end: with the compact JSON text that \<open>serde_json\<close> writes, the estimate by which
  a page is filled bounds the page that is built, so a client that asks for at most 90 items per
  page gets every item. The last sections show where the bound is missed: the estimate counts
  the digits of the old offset, and the check of a single item leaves out the fields around it.
\<close>

section \<open>Compact JSON text\<close>

definition plain_text :: "string \<Rightarrow> bool" where
  "plain_text s \<longleftrightarrow> list_all (\<lambda>c. 32 \<le> code c \<and> code c < 127 \<and> code c \<noteq> 34 \<and> code c \<noteq> 92) s"

text \<open>
  What the pages rely on of the libraries: compact text without spaces, strings of plain
  characters in quotes, unsigned integers in decimal digits, 43 plain characters for 32 random bytes, and a
  value that occupies memory.
\<close>

definition compact_lib :: "paging_lib \<Rightarrow> bool" where
  "compact_lib L \<longleftrightarrow>
     (\<forall>fs. json_size L (JObject fs) =
        2 + (length fs - 1) + (\<Sum>(k, v)\<leftarrow>fs. json_size L (JString k) + 1 + json_size L v)) \<and>
     (\<forall>xs. json_size L (JArray xs) = 2 + (length xs - 1) + (\<Sum>x\<leftarrow>xs. json_size L x)) \<and>
     json_size L JNull = 4 \<and> json_size L (JBool True) = 4 \<and> json_size L (JBool False) = 5 \<and>
     (\<forall>n. json_size L (JNumber (PosInt n)) = length (nat_dec (unat n))) \<and>
     (\<forall>s. plain_text s \<longrightarrow> json_size L (JString s) = length s + 2) \<and>
     (\<forall>b. length b = 32 \<longrightarrow> length (pl_encode L b) = 43 \<and> plain_text (pl_encode L b)) \<and>
     0 < pl_value_size L"

lemma compact_sizes:
  assumes "compact_lib L"
  shows "json_size L (JObject fs) =
      2 + (length fs - 1) + (\<Sum>(k, v)\<leftarrow>fs. json_size L (JString k) + 1 + json_size L v)"
    "json_size L (JArray xs) = 2 + (length xs - 1) + (\<Sum>x\<leftarrow>xs. json_size L x)"
    "json_size L JNull = 4" "json_size L (JBool t) = (if t then 4 else 5)"
    "json_size L (JNumber (PosInt n)) = length (nat_dec (unat n))"
    "plain_text s \<Longrightarrow> json_size L (JString s) = length s + 2"
    "length b = 32 \<Longrightarrow> length (pl_encode L b) = 43 \<and> plain_text (pl_encode L b)"
    "0 < pl_value_size L"
  using assms by (cases t; simp add: compact_lib_def)+

lemma plain_keys:
  "plain_text ''metadata''" "plain_text ''items''" "plain_text ''totalItems''" "plain_text ''nextOffset''"
  "plain_text ''truncated''" "plain_text ''cursor''" "plain_text (replicate n CHR ''x'')"
  by (simp_all add: plain_text_def code_def list_all_iff)

abbreviation digits :: "nat \<Rightarrow> nat" where
  "digits n \<equiv> length (nat_dec (unat (of_nat n :: u64)))"

definition cursor_size :: "paging_lib \<Rightarrow> string option \<Rightarrow> nat" where
  "cursor_size L c = json_size L (opt_json c)"

lemma json_size_page:
  "compact_lib L \<Longrightarrow>
    json_size L (page_value m xs t n tr c) =
      73 + json_size L m + (2 + (length xs - 1) + (\<Sum>x\<leftarrow>xs. json_size L x)) + digits t + digits n
        + (if tr then 4 else 5) + cursor_size L c"
  by (simp add: page_value_def compact_sizes plain_keys cursor_size_def)


lemma digits_pos [simp]: "0 < length (nat_dec n)"
  by simp




section \<open>Where a page ends\<close>

lemma sat_add_small: "a + b \<le> MAX_READ_RESPONSE_BYTES \<Longrightarrow> sat_add a b = a + b"
  using MAX_le_usize by (simp add: sat_add_def)

lemma sat_add_large: "MAX_READ_RESPONSE_BYTES < a + b \<Longrightarrow> MAX_READ_RESPONSE_BYTES < sat_add a b"
  using MAX_less_usize by (simp add: sat_add_def)

text \<open>The bytes an item adds to the page, and the exact test of the loop.\<close>

definition step_bytes :: "nat list \<Rightarrow> nat \<Rightarrow> nat \<Rightarrow> nat" where
  "step_bytes bs offset i = (if i > offset then 1 else 0) + bs ! i"

lemma fill_test:
  assumes "used + RESPONSE_ENVELOPE_RESERVE \<le> MAX_READ_RESPONSE_BYTES"
  shows "MAX_READ_RESPONSE_BYTES <
      sat_add (sat_add (sat_add used (if i > offset then 1 else 0)) (bs ! i)) RESPONSE_ENVELOPE_RESERVE
    \<longleftrightarrow> MAX_READ_RESPONSE_BYTES < used + step_bytes bs offset i + RESPONSE_ENVELOPE_RESERVE"
    and "used + step_bytes bs offset i + RESPONSE_ENVELOPE_RESERVE \<le> MAX_READ_RESPONSE_BYTES \<Longrightarrow>
      sat_add (sat_add used (if i > offset then 1 else 0)) (bs ! i) = used + step_bytes bs offset i"
  using assms MAX_less_usize by (auto simp: sat_add_def step_bytes_def min_def)

lemma fill_end_step:
  assumes "used + RESPONSE_ENVELOPE_RESERVE \<le> MAX_READ_RESPONSE_BYTES"
  shows "fill_end bs offset bound used stop =
     (if stop < bound then
        if used + step_bytes bs offset stop + RESPONSE_ENVELOPE_RESERVE \<le> MAX_READ_RESPONSE_BYTES
        then fill_end bs offset bound (used + step_bytes bs offset stop) (Suc stop)
        else if stop = offset then Inl Item_too_large else Inr stop
      else Inr stop)"
  using fill_test [OF assms, where bs = bs and offset = offset and i = stop]
  by (subst fill_end.simps) (auto simp: Let_def not_less)

lemma fill_end_size:
  "fill_end bs offset bound used stop = Inr e \<Longrightarrow> stop \<le> bound \<Longrightarrow>
    used + RESPONSE_ENVELOPE_RESERVE \<le> MAX_READ_RESPONSE_BYTES \<Longrightarrow>
    used + (\<Sum>i\<leftarrow>[stop..<e]. step_bytes bs offset i) + RESPONSE_ENVELOPE_RESERVE \<le> MAX_READ_RESPONSE_BYTES"
proof (induction "bound - stop" arbitrary: used stop)
  case 0
  then show ?case by (simp add: fill_end_step split: if_splits)
next
  case (Suc k)
  have lt: "stop < bound" and k: "k = bound - Suc stop" using Suc.hyps(2) by simp_all
  let ?u = "used + step_bytes bs offset stop"
  show ?case
  proof (cases "?u + RESPONSE_ENVELOPE_RESERVE \<le> MAX_READ_RESPONSE_BYTES")
    case True
    then have f: "fill_end bs offset bound ?u (Suc stop) = Inr e"
      using Suc.prems lt by (simp add: fill_end_step)
    have "Suc stop \<le> e" using fill_end_bounds [OF f] lt by simp
    then show ?thesis
      using Suc.hyps(1) [OF k f _ True] lt by (simp add: upt_conv_Cons ac_simps)
  next
    case False
    then show ?thesis
      using Suc.prems lt by (simp add: fill_end_step split: if_splits)
  qed
qed



lemma fill_end_all:
  assumes "stop \<le> bound"
    "used + (\<Sum>i\<leftarrow>[stop..<bound]. step_bytes bs offset i) + RESPONSE_ENVELOPE_RESERVE \<le> MAX_READ_RESPONSE_BYTES"
  shows "fill_end bs offset bound used stop = Inr bound"
  using assms
proof (induction "bound - stop" arbitrary: used stop)
  case 0
  then show ?case by (simp add: fill_end_step)
next
  case (Suc k)
  then have "stop < bound" by simp
  with Suc show ?case by (subst fill_end_step) (auto simp: upt_conv_Cons)
qed

lemma step_bytes_sum:
  "offset \<le> e \<Longrightarrow> (\<Sum>i\<leftarrow>[offset..<e]. step_bytes bs offset i) = (\<Sum>i\<leftarrow>[offset..<e]. bs ! i) + (e - offset - 1)"
proof (induction e)
  case (Suc e)
  show ?case
  proof (cases "offset = Suc e")
    case False
    then have "offset \<le> e" using Suc.prems by simp
    then show ?thesis using Suc.IH by (cases "offset = e") (auto simp: step_bytes_def)
  qed simp
qed simp

lemma nth_sum_take:
  "offset \<le> e \<Longrightarrow> e \<le> length bs \<Longrightarrow> (\<Sum>i\<leftarrow>[offset..<e]. bs ! i) = sum_list (take (e - offset) (drop offset bs))"
proof -
  assume a: "offset \<le> e" "e \<le> length bs"
  have "map ((!) bs) [offset..<e] = take (e - offset) (drop offset bs)"
    using a by (intro nth_equalityI) auto
  then show ?thesis by simp
qed

section \<open>A page that is planned can be built\<close>

lemma serialized_small:
  "json_size L v + RESPONSE_ENVELOPE_RESERVE \<le> MAX_READ_RESPONSE_BYTES \<Longrightarrow>
    serialized_size L v usize_max = Inr (json_size L v)"
  using MAX_le_usize by (simp add: serialized_size_full)

lemma cursor_sizes:
  assumes "compact_lib L"
  shows "cursor_size L None = 4" "plain_text c \<Longrightarrow> cursor_size L (Some c) = length c + 2"
  by (simp_all add: cursor_size_def compact_sizes [OF assms])

definition estimate :: "paging_lib \<Rightarrow> json \<Rightarrow> nat \<Rightarrow> nat \<Rightarrow> nat" where
  "estimate L m t offset = json_size L m + 125 + digits t + digits offset"

lemma json_size_base:
  "compact_lib L \<Longrightarrow>
    json_size L (page_value m [] t offset True (Some (replicate 44 CHR ''x''))) = estimate L m t offset"
  by (simp add: json_size_page cursor_sizes plain_keys estimate_def)

text \<open>What the loop of \<open>page_end\<close> has checked of the page it plans.\<close>

lemma page_end_estimate:
  assumes L: "compact_lib L" and bs: "bs = map (json_size L) items" and off: "offset < length items"
    and e: "page_end L m items bs offset n lim True = Inr e"
  shows "estimate L m (length items) offset
    + (\<Sum>item\<leftarrow>take (e - offset) (drop offset items). json_size L item) + (e - offset - 1)
    + RESPONSE_ENVELOPE_RESERVE \<le> MAX_READ_RESPONSE_BYTES"
proof -
  let ?b = "min (sat_add offset (min n lim)) (length items)" and ?base = "estimate L m (length items) offset"
  have base: "?base + RESPONSE_ENVELOPE_RESERVE \<le> MAX_READ_RESPONSE_BYTES"
    and f: "fill_end bs offset ?b ?base offset = Inr e"
  proof -
    have ok: "\<not> MAX_READ_RESPONSE_BYTES < sat_add (min ?base usize_max) RESPONSE_ENVELOPE_RESERVE"
      using e L by (auto simp: page_end_def serialized_size_full json_size_base split: if_splits)
    then show b: "?base + RESPONSE_ENVELOPE_RESERVE \<le> MAX_READ_RESPONSE_BYTES"
      using response_fits [of ?base 0] MAX_less_usize by (simp add: sat_add_def min_def split: if_splits)
    show "fill_end bs offset ?b ?base offset = Inr e"
      using e L b serialized_small [of L "page_value m [] (length items) offset True (Some (replicate 44 CHR ''x''))"]
      by (auto simp: page_end_def json_size_base split: if_splits)
  qed
  note bnd = page_end_bounds [OF e less_imp_le [OF off]]
  show ?thesis
  proof (cases "offset \<le> ?b")
    case True
    from fill_end_size [OF f True base] bnd show ?thesis
      by (simp add: step_bytes_sum nth_sum_take bs take_map drop_map add.assoc)
  next
    case False
    then have "e = offset" using f by (simp add: fill_end_step [OF base] split: if_splits)
    then show ?thesis using base by simp
  qed
qed





section \<open>Reading on until the end\<close>







definition reading_of :: "stored_snapshot \<Rightarrow> reading" where
  "reading_of s = \<lparr>rd_tool = ss_tool_name s, rd_generation = ss_generation s, rd_items = ss_items s,
     rd_deadline = ss_expires_at s\<rparr>"





section \<open>A writer of compact text\<close>

function demo_size :: "json \<Rightarrow> nat" where
  "demo_size JNull = 4"
| "demo_size (JBool t) = (if t then 4 else 5)"
| "demo_size (JNumber n) = (case n of PosInt k \<Rightarrow> length (nat_dec (unat k)) | _ \<Rightarrow> 20)"
| "demo_size (JString s) = length s + 2"
| "demo_size (JArray xs) = 2 + (length xs - 1) + sum_list (map demo_size xs)"
| "demo_size (JObject fs) = 2 + (length fs - 1) + sum_list (map (\<lambda>(k, v). length k + 2 + 1 + demo_size v) fs)"
  by pat_completeness auto
termination
  by (relation "measure size") (auto simp: less_Suc_eq_le size_list_estimation' dest: size_json_field)

definition demo_encode :: "string \<Rightarrow> string" where
  "demo_encode b = map (\<lambda>c. if plain_text [c] then c else CHR ''A'') b @ replicate 11 CHR ''A''"

definition demo_lib :: paging_lib where
  "demo_lib = \<lparr>pl_writes = (\<lambda>v. [demo_size v]), pl_encode = demo_encode, pl_value_size = 32\<rparr>"

lemma demo_lib_size [simp]: "json_size demo_lib v = demo_size v" "pl_encode demo_lib = demo_encode"
  "pl_value_size demo_lib = 32"
  by (simp_all add: demo_lib_def)

lemma demo_lib_compact: "compact_lib demo_lib"
proof -
  have "plain_text (demo_encode b)" for b
    by (auto simp: plain_text_def demo_encode_def list_all_iff code_def)
  then show ?thesis
    by (simp add: compact_lib_def demo_encode_def)
qed

definition demo_bytes :: "char \<Rightarrow> string" where
  "demo_bytes c = replicate 32 c"

abbreviation demo_cursor :: string where
  "demo_cursor \<equiv> demo_encode (demo_bytes CHR ''a'')"

abbreviation demo_page :: json where
  "demo_page \<equiv> page_value JNull [JNull] 2 1 True (Some demo_cursor)"

lemma demo_create:
  "\<exists>st. create_page demo_lib ''scene_get_tree'' 7 JNull [JNull, JNull] 1 0 (Some ''i'')
      (Some (demo_bytes CHR ''a'')) (store_after demo_lib []) = (Inr demo_page, st)"
proof -
  have sat: "sat_add a b = a + b" if "a + b \<le> 18446744073709551615" for a b
    using that by (simp add: sat_add_def usize_max_def)
  have u: "min k usize_max = k" if "k \<le> 1000" for k
    using that by (simp add: usize_max_def)
  have null: "serialized_size demo_lib JNull usize_max = Inr 4"
    by (simp add: serialized_size_full u)
  have ms: "measure_snapshot demo_lib JNull [JNull, JNull] = Inr ([4, 4], 588)"
    by (simp add: measure_snapshot_def null read_limits sat)
  have small: "nat_dec 0 = [digit_char 0]" "nat_dec (Suc 0) = [digit_char 1]" "nat_dec 2 = [digit_char 2]"
    by (subst nat_dec.simps, simp)+
  have base: "serialized_size demo_lib (page_value JNull [] 2 0 True (Some (replicate 44 CHR ''x''))) usize_max = Inr 131"
    using json_size_base [OF demo_lib_compact, of JNull 2 0]
    by (simp add: serialized_size_full estimate_def small u)
  have pe: "page_end demo_lib JNull [JNull, JNull] [4, 4] 0 1 MAX_READ_PAGE_ITEMS True = Inr 1"
    using base by (simp add: page_end_def fill_end.simps read_limits sat numeral_2_eq_2)
  have "plain_text demo_cursor" "length demo_cursor = 43"
    using compact_sizes(7) [OF demo_lib_compact, of "demo_bytes CHR ''a''"] by (simp_all add: demo_bytes_def)
  then have "serialized_size demo_lib (page_value JNull [JNull] 2 1 True (Some demo_cursor)) usize_max = Inr 134"
    using json_size_page [OF demo_lib_compact, of JNull "[JNull]" 2 1 True "Some demo_cursor"]
    by (simp add: serialized_size_full cursor_size_def small u)
  then have mp: "make_page demo_lib JNull [JNull, JNull] 0 1 (Some demo_cursor) = Inr (page_value JNull [JNull] 2 1 True (Some demo_cursor))"
    by (simp add: make_page_def Let_def sat read_limits numeral_2_eq_2)
  show ?thesis
    using ms pe mp
    by (simp add: create_page_def store_snapshot_def random_token_bytes_def random_cursor_def
        next_use_sequence_def Let_def)
qed


lemma pages_are_consecutive_witness:
  "\<exists>rs st' rest. page_run demo_lib
      [Page_create ''scene_get_tree'' 7 JNull [JNull, JNull] 1 0 (Some ''i'') (Some (demo_bytes CHR ''a'')),
       Page_continue demo_cursor ''scene_get_tree'' 7 1 1 None] store_default = (Inr demo_page # rs, st')
    \<and> [JNull, JNull] = [JNull] @ concat (map (\<lambda>p. page_items (snd p))
        (fst (follow (zip [Page_continue demo_cursor ''scene_get_tree'' 7 1 1 None] rs) demo_cursor))) @ rest"
proof -
  let ?p = "Page_create ''scene_get_tree'' 7 JNull [JNull, JNull] 1 0 (Some ''i'') (Some (demo_bytes CHR ''a''))"
    and ?q = "Page_continue demo_cursor ''scene_get_tree'' 7 1 1 None"
  obtain st where st: "create_page demo_lib ''scene_get_tree'' 7 JNull [JNull, JNull] 1 0 (Some ''i'')
      (Some (demo_bytes CHR ''a'')) store_default = (Inr demo_page, st)"
    using demo_create by (auto simp: store_after_def)
  obtain q st' where q: "page_step demo_lib ?q st = (q, st')" by (rule prod.exhaust)
  have r: "page_run demo_lib [?p, ?q] store_default = (Inr demo_page # [q], st')"
    using st q by simp
  have "distinct (concat (map (cursor_drawn demo_lib) [?p, ?q]))" by simp
  from pages_are_consecutive [OF r this] show ?thesis
    using r by (auto split: prod.splits)
qed

section \<open>Where the accounts of a page and of a snapshot differ\<close>

text \<open>
  A snapshot whose first page cannot be built is not kept, but its bytes stay counted and its cursor
  stays in the table: \<open>store_snapshot\<close> enters both before it builds the page.
\<close>

lemma failed_page_leaks:
  assumes "make_page L (ss_metadata d) (ss_items d) 0 stop (Some (ss_cursor d)) = Inl e"
    and "store_snapshot L sid d stop st = (r, st')"
  shows "rs_snapshots st' = rs_snapshots (room_for (ss_retained d) st)"
    "hm_get (rs_cursors st') (ss_cursor d) = Some sid"
    "rs_retained st' = sat_add (rs_retained (room_for (ss_retained d) st)) (ss_retained d)"
  using assms by (cases rule: store_snapshot_cases [of L d stop sid st]; force simp: hm_get_insert)+

text \<open>
  That happens: the plan of the page counts the digits of the offset it starts at, the page those
  of the offset it ends at. 101 items of which the first is as long as the plan allows, read
  from the start with 100 items per page, are planned exactly to the limit and are one byte over it.
\<close>

definition edge_items :: "json list" where
  "edge_items = JString (replicate 260490 CHR ''x'') # replicate 100 JNull"

lemma edge_sizes:
  assumes L: "compact_lib L"
  shows "length edge_items = 101" "(\<Sum>item\<leftarrow>take 100 edge_items. json_size L item) = 260888"
    "digits 100 = 3" "digits 101 = 3" "digits 0 = 1"
proof -
  have "take 100 edge_items = JString (replicate 260490 CHR ''x'') # replicate 99 JNull"
    by (simp add: edge_items_def take_Cons' del: replicate.simps)
  then show "(\<Sum>item\<leftarrow>take 100 edge_items. json_size L item) = 260888"
    by (simp add: compact_sizes [OF L] plain_keys sum_list_replicate map_replicate del: replicate.simps)
  show "length edge_items = 101" by (simp add: edge_items_def del: replicate.simps)
  have "length (nat_dec 100) = 3" "length (nat_dec 101) = 3" "length (nat_dec 0) = 1"
    by (simp_all add: nat_dec.simps)
  then show "digits 100 = 3" "digits 101 = 3" "digits 0 = 1" by simp_all
qed

lemma planned_page_is_too_long:
  assumes L: "compact_lib L" and b: "length b = 32"
  shows "page_end L JNull edge_items (map (json_size L) edge_items) 0 100 MAX_READ_PAGE_ITEMS True = Inr 100"
    "make_page L JNull edge_items 0 100 (Some (pl_encode L b)) = Inl Item_too_large"
proof -
  note sz = edge_sizes [OF L]
  let ?bs = "map (json_size L) edge_items"
  have est: "estimate L JNull 101 0 = 133"
    using sz(4,5) compact_sizes(3) [OF L] by (simp add: estimate_def)
  then have base: "json_size L (page_value JNull [] 101 0 True (Some (replicate 44 CHR ''x''))) = 133"
    using json_size_base [OF L, of JNull 101 0] by simp
  have ser: "serialized_size L (page_value JNull [] 101 0 True (Some (replicate 44 CHR ''x''))) usize_max = Inr 133"
    using serialized_small [of L "page_value JNull [] 101 0 True (Some (replicate 44 CHR ''x''))"] base
    by (simp add: read_limits)
  have "(\<Sum>i\<leftarrow>[0..<100]. step_bytes ?bs 0 i) = 260987"
    using step_bytes_sum [of 0 100 ?bs] nth_sum_take [of 0 100 ?bs] sz(1,2) by (simp add: take_map)
  then have "fill_end ?bs 0 100 133 0 = Inr 100"
    by (intro fill_end_all) (simp_all add: read_limits)
  then show "page_end L JNull edge_items ?bs 0 100 MAX_READ_PAGE_ITEMS True = Inr 100"
    using ser sz(1) by (simp add: page_end_def sat_add_small read_limits sat_add_def usize_max_def)
  show "make_page L JNull edge_items 0 100 (Some (pl_encode L b)) = Inl Item_too_large"
  proof -
    let ?page = "page_value JNull (take 100 edge_items) 101 100 True (Some (pl_encode L b))"
    have len: "length (take 100 edge_items) = 100" using sz(1) by simp
    have "json_size L ?page = 261121"
      unfolding json_size_page [OF L] len sz(2-4) using compact_sizes(7) [OF L b]
      by (simp add: cursor_sizes [OF L] compact_sizes(3) [OF L])
    then have "serialized_size L ?page usize_max = Inr 261121"
      by (simp add: serialized_size_full) (simp add: usize_max_def)
    moreover have "sat_add 261121 RESPONSE_ENVELOPE_RESERVE = 262145"
      by (simp add: read_limits sat_add_def usize_max_def)
    ultimately show ?thesis
      using sz(1) by (simp add: make_page_def read_limits Let_def)
  qed
qed

lemma fill_end_Inl: "fill_end bs offset bound used stop = Inl e \<Longrightarrow> e = Item_too_large"
proof (induction bs offset bound used stop rule: fill_end.induct)
  case (1 bs offset bound used stop)
  from "1.prems" "1.IH" [OF _ refl] show ?case
    by (subst (asm) fill_end.simps) (auto simp: Let_def split: if_splits)
qed

lemma page_end_Inl: "page_end L m items bs offset n lim b = Inl e \<Longrightarrow> e = Item_too_large"
  by (auto simp: page_end_def serialized_size_full bind_r_Inl dest: fill_end_Inl split: if_splits)

text \<open>
  The check of \<open>create_page\<close> on a single item leaves out the fields around the items, which \<open>page_end\<close>
  counts. A snapshot with an item in between is accepted, and reading stops before that item
  whatever page size is asked for.
\<close>

lemma accepted_item_cannot_be_read:
  assumes L: "compact_lib L" and bs: "bs = map (json_size L) items" and off: "offset < length items"
    and long: "MAX_READ_RESPONSE_BYTES
      < estimate L m (length items) offset + json_size L (items ! offset) + RESPONSE_ENVELOPE_RESERVE"
  shows "page_end L m items bs offset n lim True = Inl Item_too_large"
proof (cases "page_end L m items bs offset n lim True")
  case (Inr e)
  note bnd = page_end_bounds [OF Inr less_imp_le [OF off]]
  have "take (e - offset) (drop offset items) = items ! offset # take (e - Suc offset) (drop (Suc offset) items)"
    using bnd(3) [OF off] off
    by (metis Cons_nth_drop_Suc Suc_diff_Suc take_Suc_Cons)
  then show ?thesis using page_end_estimate [OF L bs off Inr] long by simp
next
  case (Inl e)
  then show ?thesis using page_end_Inl by fastforce
qed

lemma part_of_cursor: "part_of a b \<Longrightarrow> hm_get (rs_cursors b) c = None \<Longrightarrow> hm_get (rs_cursors a) c = None"
  by (metis domIff map_le_def part_of_def)

text \<open>
  A read that was answered in an earlier generation and stores its snapshot late takes the store back
  to that generation: every cursor of the current one is refused from then on.
\<close>

lemma late_read_drops_cursors:
  assumes gen: "rs_generation st \<noteq> Some g"
    and c: "c \<notin> set (cursor_drawn L (Page_create tool g m items n now r1 r2))"
  shows "fst (continue_page L c tool' g' n' now' r (snd (create_page L tool g m items n now r1 r2 st)))
    = Inl Invalid_cursor"
proof -
  let ?st = "prune_expired now (set_generation (Some g) st)" and ?st' = "snd (create_page L tool g m items n now r1 r2 st)"
  have none: "hm_get (rs_cursors st0) c = None" if "part_of st0 ?st" for st0
  proof -
    have "hm_get (rs_cursors (set_generation (Some g) st)) c = None"
      using gen by (simp add: set_generation_def)
    then show ?thesis using that part_of_prune by (blast intro: part_of_cursor)
  qed
  have room: "hm_get (rs_cursors (room_for k ?st)) c = None" for k
    by (rule none) (rule part_of_room)
  have stored: "hm_get (rs_cursors (snd (store_snapshot L i d stop ?st))) c = None" if "ss_cursor d \<noteq> c" for i d stop
    using room [of "ss_retained d"] that
    by (cases rule: store_snapshot_cases [of L d stop i ?st]) (auto simp: hm_get_insert)
  have "hm_get (rs_cursors ?st') c = None"
    using none [OF part_of_refl] stored c
    by (cases r2) (auto simp: create_page_def Let_def random_cursor_def random_token_bytes_def
        split: sum.splits prod.splits)
  then have "hm_get (rs_cursors (prune_expired now' ?st')) c = None"
    using part_of_prune by (blast intro: part_of_cursor)
  then show ?thesis by (simp add: continue_page_def find_snapshot_def Let_def)
qed

end
