(* ===== verification/Read_Trees.thy ===== *)
theory Read_Trees
  imports Payload_Laws
begin

text \<open>
  The scene tree as the MCP tools read it (\<open>flatten_scene_tree\<close> and the searches in \<open>mcp/reads.rs\<close>):
  the answer of the engine is checked node by node, then the wanted part is turned into a flat list of
  items by a loop over a stack. The loops are proved equal to the recursion over the tree. A Rust
  vector used as a stack is a list whose head is its top.
\<close>

section \<open>The nodes of an answer\<close>

datatype tree_error =
    No_root
  | Bad_node_id
  | Duplicate_node_id
  | Children_not_array
  | Root_id_not_found
  | Name_not_string
  | Kind_not_string
  | Tree_panic

definition node_id :: "json \<Rightarrow> string option" where
  "node_id node = Option.bind (jget ''id'' node) as_str"

text \<open>The children of a node as the searches see them: anything but an array is no child.\<close>

definition node_children :: "json \<Rightarrow> json list" where
  "node_children node =
     (case Option.bind (jget ''children'' node) as_array of None \<Rightarrow> [] | Some xs \<Rightarrow> xs)"

definition checked_children :: "json \<Rightarrow> tree_error + json list" where
  "checked_children node =
     (case jget ''children'' node of
       None \<Rightarrow> Inr []
     | Some children \<Rightarrow> ok_or Children_not_array (as_array children))"

lemma size_children: "(\<Sum>x\<leftarrow>node_children node. Suc (size x)) < Suc (size node)"
proof (cases "Option.bind (jget ''children'' node) as_array")
  case None
  then show ?thesis by (simp add: node_children_def)
next
  case (Some xs)
  then obtain m where m: "node = JObject m" "map_of m ''children'' = Some (JArray xs)"
    by (cases node) (auto split: bind_splits elim!: as_array.elims)
  have "size (JArray xs) < size node"
    using size_json_field [OF map_of_SomeD [OF m(2)]] m(1) by simp
  moreover have "(\<Sum>x\<leftarrow>xs. Suc (size x)) = size_list size xs"
    by (induction xs) auto
  ultimately show ?thesis using Some by (simp add: node_children_def)
qed

lemma checked_children_Inr:
  "checked_children node = Inr xs \<Longrightarrow> xs = node_children node"
  by (auto simp: checked_children_def node_children_def split: option.splits)

lemma size_node_child: "x \<in> set (node_children node) \<Longrightarrow> size x < size node"
  using size_children [of node] member_le_sum_list [of "Suc (size x)" "map (\<lambda>x. Suc (size x)) (node_children node)"]
  by force

section \<open>Flattening\<close>

text \<open>A stack entry: a node with the identifier of its parent and its depth.\<close>

type_synonym tree_stack = "(json \<times> string option \<times> nat) list"

definition stack_size :: "tree_stack \<Rightarrow> nat" where
  "stack_size st = (\<Sum>(node, _)\<leftarrow>st. Suc (size node))"

definition push_children :: "string \<Rightarrow> nat \<Rightarrow> json list \<Rightarrow> tree_stack \<Rightarrow> tree_stack" where
  "push_children i depth children st = map (\<lambda>c. (c, Some i, sat_add depth 1)) children @ st"

lemma stack_size_push:
  "stack_size (push_children i d (node_children node) st) < stack_size ((node, p, d') # st)"
  using size_children [of node] by (simp add: stack_size_def push_children_def o_def)

text \<open>The first loop: every node has an identifier of its own and children that are an array.
  It remembers the node the caller asked for.\<close>

function check_tree ::
  "string option \<Rightarrow> tree_stack \<Rightarrow> string set \<Rightarrow> json option \<Rightarrow> tree_error + json option" where
  "check_tree root_id [] ids selected = Inr selected"
| "check_tree root_id ((node, parent, depth) # st) ids selected =
     (case node_id node of
       None \<Rightarrow> Inl Bad_node_id
     | Some i \<Rightarrow>
         if i = [] then Inl Bad_node_id
         else if i \<in> ids then Inl Duplicate_node_id
         else (case checked_children node of
                 Inl e \<Rightarrow> Inl e
               | Inr children \<Rightarrow>
                   check_tree root_id (push_children i depth children st) (insert i ids)
                     (if root_id = Some i then Some node else selected)))"
  by pat_completeness auto
termination
  by (relation "measure (\<lambda>(_, st, _). stack_size st)")
    (auto dest!: checked_children_Inr intro: stack_size_push)

definition text_field :: "tree_error \<Rightarrow> string \<Rightarrow> json \<Rightarrow> tree_error + json_map" where
  "text_field e key node =
     (case jget key node of
       None \<Rightarrow> Inr []
     | Some v \<Rightarrow> if as_str v = None then Inl e else Inr [(key, v)])"

definition tree_item :: "string \<Rightarrow> string option \<Rightarrow> nat \<Rightarrow> json \<Rightarrow> tree_error + json" where
  "tree_item i parent depth node =
     bind_r (text_field Name_not_string ''name'' node) (\<lambda>name.
     bind_r (text_field Kind_not_string ''kind'' node) (\<lambda>kind.
       Inr (JObject ([(''id'', JString i), (''parentId'', opt_json parent),
                      (''depth'', JNumber (PosInt (of_nat depth)))] @ name @ kind))))"

text \<open>The second loop: one item per node down to the depth asked for, in the order of the stack.\<close>

function flatten_nodes :: "nat option \<Rightarrow> tree_stack \<Rightarrow> tree_error + json list" where
  "flatten_nodes max_depth [] = Inr []"
| "flatten_nodes max_depth ((node, parent, depth) # st) =
     (if (\<exists>limit\<in>set_option max_depth. depth > limit) then flatten_nodes max_depth st
      else (case node_id node of
              None \<Rightarrow> Inl Tree_panic
            | Some i \<Rightarrow>
                bind_r (tree_item i parent depth node) (\<lambda>item.
                bind_r (flatten_nodes max_depth
                          (if (\<forall>limit\<in>set_option max_depth. depth < limit)
                           then push_children i depth (node_children node) st else st))
                  (\<lambda>flat. Inr (item # flat)))))"
  by pat_completeness auto
termination
proof (relation "measure (\<lambda>(_, st). stack_size st)")
  show "((max_depth, st), max_depth, (node, parent, depth) # st) \<in> measure (\<lambda>(_, st). stack_size st)"
    for max_depth st node parent depth by (simp add: stack_size_def)
  then show "((max_depth, if \<forall>limit\<in>set_option max_depth. depth < limit
         then push_children i depth (node_children node) st else st), max_depth, (node, parent, depth) # st)
       \<in> measure (\<lambda>(_, st). stack_size st)" for max_depth st node parent depth and i :: string
    using stack_size_push [of i depth node st] by (simp add: stack_size_def)
qed simp_all

definition flatten_scene_tree :: "json \<Rightarrow> string option \<Rightarrow> nat option \<Rightarrow> tree_error + json list" where
  "flatten_scene_tree result root_id max_depth =
     bind_r (ok_or No_root (jget ''root'' result)) (\<lambda>root.
     bind_r (check_tree root_id [(root, None, 0)] {} None) (\<lambda>selected.
     bind_r (case root_id of
               Some _ \<Rightarrow> ok_or Root_id_not_found selected
             | None \<Rightarrow> Inr root) (\<lambda>selected_root.
       flatten_nodes max_depth [(selected_root, None, 0)])))"

section \<open>The same by recursion\<close>

text \<open>All nodes of a tree, a parent before its children and the children in order.\<close>

function tree_nodes :: "json \<Rightarrow> json list" where
  "tree_nodes node = node # concat (map tree_nodes (node_children node))"
  by pat_completeness auto
termination by (relation "measure size") (auto intro: size_node_child)

declare tree_nodes.simps [simp del]

text \<open>The nodes down to a depth, each with its parent and its depth below the node it began with.\<close>

function walk :: "nat option \<Rightarrow> string option \<Rightarrow> nat \<Rightarrow> json \<Rightarrow> (json \<times> string option \<times> nat) list" where
  "walk max_depth parent depth node =
     (node, parent, depth) #
       (if (\<forall>limit\<in>set_option max_depth. depth < limit)
        then concat (map (walk max_depth (node_id node) (sat_add depth 1)) (node_children node)) else [])"
  by pat_completeness auto
termination by (relation "measure (\<lambda>(_, _, _, node). size node)") (auto intro: size_node_child)

declare walk.simps [simp del]

definition node_ok :: "json \<Rightarrow> bool" where
  "node_ok node \<longleftrightarrow> (\<exists>i. node_id node = Some i \<and> i \<noteq> []) \<and> checked_children node = Inr (node_children node)"

abbreviation stack_nodes :: "tree_stack \<Rightarrow> json list" where
  "stack_nodes st \<equiv> concat (map (\<lambda>(node, _). tree_nodes node) st)"

lemma stack_nodes_step:
  "stack_nodes ((node, p, d) # st) = node # stack_nodes (push_children i d' (node_children node) st)"
  by (simp add: push_children_def tree_nodes.simps [of node] o_def)

lemma check_tree_Inr:
  "check_tree root_id st ids selected = Inr r \<longleftrightarrow>
     list_all node_ok (stack_nodes st) \<and> distinct (map node_id (stack_nodes st)) \<and>
     (\<forall>node\<in>set (stack_nodes st). \<forall>i. node_id node = Some i \<longrightarrow> i \<notin> ids) \<and>
     r = fold (\<lambda>node s. if root_id = node_id node then Some node else s) (stack_nodes st) selected"
proof (induction root_id st ids selected rule: check_tree.induct)
  case (1 root_id ids selected)
  then show ?case by auto
next
  case (2 root_id node parent depth st ids selected)
  show ?case
  proof (cases "node_ok node \<and> the (node_id node) \<notin> ids")
    case False
    then have "check_tree root_id ((node, parent, depth) # st) ids selected \<noteq> Inr r"
      by (auto simp: node_ok_def dest: checked_children_Inr split: option.splits sum.splits)
    then show ?thesis using False stack_nodes_step [of node parent depth st "[]" 0]
      by (auto simp: node_ok_def)
  next
    case True
    then obtain i where i: "node_id node = Some i" "i \<noteq> []" "i \<notin> ids"
      and ch: "checked_children node = Inr (node_children node)" by (auto simp: node_ok_def)
    let ?st = "push_children i depth (node_children node) st"
    have "check_tree root_id ((node, parent, depth) # st) ids selected =
        check_tree root_id ?st (insert i ids) (if root_id = Some i then Some node else selected)"
      using i ch by simp
    moreover define ns where "ns = stack_nodes ?st"
    moreover have "(\<forall>n\<in>set ns. \<forall>j. node_id n = Some j \<longrightarrow> j \<notin> insert i ids) \<longleftrightarrow>
        Some i \<notin> set (map node_id ns) \<and> (\<forall>n\<in>set ns. \<forall>j. node_id n = Some j \<longrightarrow> j \<notin> ids)"
      by (force simp: image_iff)
    ultimately show ?thesis
      using "2.IH" [OF i(1,2,3) ch] True i
      unfolding stack_nodes_step [of node parent depth st i depth]
      by (simp only: list.pred_inject list.map distinct.simps list.set ball_simps fold.simps o_apply) auto
  qed
qed

lemma flatten_nodes_Inr:
  "(\<And>n p d limit. (n, p, d) \<in> set st \<Longrightarrow> max_depth = Some limit \<Longrightarrow> d \<le> limit) \<Longrightarrow>
   list_all (\<lambda>n. node_id n \<noteq> None) (stack_nodes st) \<Longrightarrow>
   flatten_nodes max_depth st = Inr items \<longleftrightarrow>
     list_all2 (\<lambda>(n, p, d) item. tree_item (the (node_id n)) p d n = Inr item)
       (concat (map (\<lambda>(n, p, d). walk max_depth p d n) st)) items"
proof (induction max_depth st arbitrary: items rule: flatten_nodes.induct)
  case (1 max_depth)
  then show ?case by auto
next
  case (2 max_depth node parent depth st)
  obtain i where i: "node_id node = Some i"
    using "2.prems"(2) by (auto simp: tree_nodes.simps [of node])
  have shallow: "\<not> (\<exists>limit\<in>set_option max_depth. depth > limit)"
    using "2.prems"(1) [of node parent depth] by auto
  let ?st = "if (\<forall>limit\<in>set_option max_depth. depth < limit)
    then push_children i depth (node_children node) st else st"
  let ?R = "\<lambda>(n, p, d) item. tree_item (the (node_id n)) p d n = Inr item"
  have w: "concat (map (\<lambda>(n, p, d). walk max_depth p d n) ((node, parent, depth) # st))
      = (node, parent, depth) # concat (map (\<lambda>(n, p, d). walk max_depth p d n) ?st)"
    by (auto simp: walk.simps [of max_depth parent depth node] push_children_def i o_def)
  have st: "d \<le> limit" if "(n, p, d) \<in> set ?st" "max_depth = Some limit" for n p d limit
    using that "2.prems"(1) by (auto simp: push_children_def sat_add_def split: if_splits)
  have ids: "list_all (\<lambda>n. node_id n \<noteq> None) (stack_nodes ?st)"
  proof -
    have "list_all (\<lambda>n. node_id n \<noteq> None) (node # stack_nodes (push_children i depth (node_children node) st))"
      using "2.prems"(2) unfolding stack_nodes_step [of node parent depth st i depth] .
    moreover have "list_all (\<lambda>n. node_id n \<noteq> None) (stack_nodes st)" using "2.prems"(2) by simp
    ultimately show ?thesis by simp
  qed
  have IH: "flatten_nodes max_depth ?st = Inr flat \<longleftrightarrow>
      list_all2 ?R (concat (map (\<lambda>(n, p, d). walk max_depth p d n) ?st)) flat" for flat
    by (rule "2.IH"(2) [OF shallow i st ids])
  show ?case
  proof (cases "tree_item i parent depth node")
    case (Inl e)
    then show ?thesis unfolding w using shallow i by (cases items) auto
  next
    case (Inr x)
    have "flatten_nodes max_depth ((node, parent, depth) # st)
        = bind_r (flatten_nodes max_depth ?st) (\<lambda>flat. Inr (x # flat))"
      using shallow i Inr by simp
    then show ?thesis unfolding w using IH i Inr by (cases items) auto
  qed
qed

declare check_tree.simps [simp del] flatten_nodes.simps [simp del]

lemma select_none:
  "(\<And>n. n \<in> set ns \<Longrightarrow> root_id \<noteq> node_id n) \<Longrightarrow>
    fold (\<lambda>node s. if root_id = node_id node then Some node else s) ns s = s"
  by (induction ns arbitrary: s) auto

lemma select_some:
  "distinct (map node_id ns) \<Longrightarrow> n \<in> set ns \<Longrightarrow> node_id n = root_id \<Longrightarrow>
    fold (\<lambda>node s. if root_id = node_id node then Some node else s) ns s = Some n"
proof (induction ns arbitrary: s)
  case (Cons x ns)
  show ?case
  proof (cases "x = n")
    case True
    with Cons.prems have "fold (\<lambda>node s. if root_id = node_id node then Some node else s) ns (Some n) = Some n"
      by (intro select_none) (auto simp: image_iff)
    then show ?thesis using True Cons.prems(3) by simp
  next
    case False
    then show ?thesis using Cons by simp
  qed
qed simp

lemma tree_nodes_self [simp]: "node \<in> set (tree_nodes node)"
  by (subst tree_nodes.simps) simp

lemma tree_nodes_sub: "n \<in> set (tree_nodes node) \<Longrightarrow> set (tree_nodes n) \<subseteq> set (tree_nodes node)"
proof (induction node rule: tree_nodes.induct)
  case (1 node)
  show ?case
  proof (cases "n = node")
    case False
    then obtain c where c: "c \<in> set (node_children node)" "n \<in> set (tree_nodes c)"
      using "1.prems" by (subst (asm) tree_nodes.simps) auto
    have "set (tree_nodes c) \<subseteq> set (tree_nodes node)"
      using c(1) by (subst (2) tree_nodes.simps) auto
    then show ?thesis using "1.IH" [OF c] by simp
  qed simp
qed

definition subtree_of :: "json \<Rightarrow> string option \<Rightarrow> json \<Rightarrow> bool" where
  "subtree_of root root_id sel \<longleftrightarrow>
     sel \<in> set (tree_nodes root) \<and> (case root_id of None \<Rightarrow> sel = root | Some i \<Rightarrow> node_id sel = Some i)"

lemma select_subtree:
  assumes "list_all node_ok (tree_nodes root)" "distinct (map node_id (tree_nodes root))"
  shows "(case root_id of
      Some _ \<Rightarrow> ok_or Root_id_not_found
        (fold (\<lambda>node s. if root_id = node_id node then Some node else s) (tree_nodes root) None)
    | None \<Rightarrow> Inr root) = Inr sel \<longleftrightarrow> subtree_of root root_id sel"
proof (cases root_id)
  case None
  then show ?thesis by (auto simp: subtree_of_def)
next
  case (Some i)
  show ?thesis
  proof (cases "\<exists>n\<in>set (tree_nodes root). node_id n = root_id")
    case True
    then obtain n where n: "n \<in> set (tree_nodes root)" "node_id n = root_id" by auto
    have "sel = n" if "sel \<in> set (tree_nodes root)" "node_id sel = root_id"
      using assms(2) n that by (auto simp: distinct_map dest: inj_onD)
    then show ?thesis
      using select_some [OF assms(2) n, of None] n Some by (auto simp: subtree_of_def)
  next
    case False
    then show ?thesis
      using select_none [of "tree_nodes root" root_id None] Some by (force simp: subtree_of_def)
  qed
qed

text \<open>C29: The flat list a client reads is the tree. It exists exactly when the answer has a root, every node
  has a non-empty identifier of its own and children in an array, and the wanted node is there; and then
  it lists the wanted node and what is below it down to the asked depth, each node before
  its children and the children in order, with its name and kind, its parent and its depth below the wanted node.\<close>

theorem flatten_is_preorder:
  "flatten_scene_tree result root_id max_depth = Inr items \<longleftrightarrow>
     (\<exists>root sel. jget ''root'' result = Some root
        \<and> list_all node_ok (tree_nodes root) \<and> distinct (map node_id (tree_nodes root))
        \<and> subtree_of root root_id sel
        \<and> list_all2 (\<lambda>(node, parent, depth) item. tree_item (the (node_id node)) parent depth node = Inr item)
            (walk max_depth None 0 sel) items)"
proof (cases "jget ''root'' result")
  case None
  then show ?thesis by (simp add: flatten_scene_tree_def)
next
  case (Some root)
  let ?f = "\<lambda>node s. if root_id = node_id node then Some node else s"
  let ?ok = "list_all node_ok (tree_nodes root) \<and> distinct (map node_id (tree_nodes root))"
  have check: "check_tree root_id [(root, None, 0)] {} None = Inr r \<longleftrightarrow> ?ok \<and> r = fold ?f (tree_nodes root) None" for r
    using check_tree_Inr [of root_id "[(root, None, 0)]" "{}" None r] by simp
  have flat: "flatten_nodes max_depth [(sel, None, 0)] = Inr items \<longleftrightarrow>
      list_all2 (\<lambda>(node, parent, depth) item. tree_item (the (node_id node)) parent depth node = Inr item)
            (walk max_depth None 0 sel) items"
    if "list_all node_ok (tree_nodes root)" "subtree_of root root_id sel" for sel
  proof -
    have "list_all (\<lambda>n. node_id n \<noteq> None) (tree_nodes sel)"
      using that tree_nodes_sub [of sel root] by (fastforce simp: list_all_iff node_ok_def subtree_of_def)
    then show ?thesis using flatten_nodes_Inr [of "[(sel, None, 0)]" max_depth items] by simp
  qed
  have "flatten_scene_tree result root_id max_depth = Inr items \<longleftrightarrow>
      ?ok \<and> (\<exists>sel. (case root_id of Some _ \<Rightarrow> ok_or Root_id_not_found (fold ?f (tree_nodes root) None)
        | None \<Rightarrow> Inr root) = Inr sel \<and> flatten_nodes max_depth [(sel, None, 0)] = Inr items)"
    using Some check by (auto simp: flatten_scene_tree_def)
  also have "\<dots> \<longleftrightarrow> ?ok \<and> (\<exists>sel. subtree_of root root_id sel \<and>
      list_all2 (\<lambda>(node, parent, depth) item. tree_item (the (node_id node)) parent depth node = Inr item)
            (walk max_depth None 0 sel) items)"
    using select_subtree [of root root_id] flat by blast
  finally show ?thesis using Some by auto
qed

section \<open>Searching an answer\<close>

text \<open>The searches go into the children one after the other and stop at the first hit.\<close>

fun find_map :: "('a \<Rightarrow> 'b option) \<Rightarrow> 'a list \<Rightarrow> 'b option" where
  "find_map f [] = None"
| "find_map f (x # xs) = (case f x of Some y \<Rightarrow> Some y | None \<Rightarrow> find_map f xs)"

lemma find_map_cong [fundef_cong]:
  "xs = ys \<Longrightarrow> (\<And>x. x \<in> set ys \<Longrightarrow> f x = g x) \<Longrightarrow> find_map f xs = find_map g ys"
  by (induction xs arbitrary: ys) (auto split: option.splits)

function find_in_node :: "string \<Rightarrow> json \<Rightarrow> json option" where
  "find_in_node object_id node =
     (if node_id node = Some object_id then Some node
      else find_map (find_in_node object_id) (node_children node))"
  by pat_completeness auto
termination by (relation "measure (\<lambda>(_, node). size node)") (auto intro: size_node_child)

function find_parent_in :: "string \<Rightarrow> json \<Rightarrow> string option" where
  "find_parent_in object_id node =
     (case node_id node of
       None \<Rightarrow> None
     | Some parent_id \<Rightarrow>
         if list_ex (\<lambda>child. node_id child = Some object_id) (node_children node) then Some parent_id
         else find_map (find_parent_in object_id) (node_children node))"
  by pat_completeness auto
termination by (relation "measure (\<lambda>(_, node). size node)") (auto intro: size_node_child)

function collect_tree_ids :: "json \<Rightarrow> string list" where
  "collect_tree_ids node =
     (case node_id node of None \<Rightarrow> [] | Some i \<Rightarrow> [i]) @ concat (map collect_tree_ids (node_children node))"
  by pat_completeness auto
termination by (relation "measure size") (auto intro: size_node_child)

declare find_in_node.simps [simp del] find_parent_in.simps [simp del] collect_tree_ids.simps [simp del]

definition find_tree_node :: "json \<Rightarrow> string \<Rightarrow> json option" where
  "find_tree_node tree object_id = Option.bind (jget ''root'' tree) (find_in_node object_id)"

definition find_tree_parent :: "json \<Rightarrow> string \<Rightarrow> string option" where
  "find_tree_parent tree object_id = Option.bind (jget ''root'' tree) (find_parent_in object_id)"

lemma find_append: "find P (xs @ ys) = (case find P xs of Some x \<Rightarrow> Some x | None \<Rightarrow> find P ys)"
  by (induction xs) auto

lemma find_map_concat:
  "(\<And>x. x \<in> set xs \<Longrightarrow> f x = find P (g x)) \<Longrightarrow> find_map f xs = find P (concat (map g xs))"
  by (induction xs) (auto simp: find_append split: option.splits)

lemma find_in_node_find: "find_in_node i node = find (\<lambda>n. node_id n = Some i) (tree_nodes node)"
proof (induction i node rule: find_in_node.induct)
  case (1 i node)
  show ?case
  proof (cases "node_id node = Some i")
    case False
    then show ?thesis
      using find_map_concat [of "node_children node" "find_in_node i" "\<lambda>n. node_id n = Some i" tree_nodes] "1.IH"
      by (simp add: find_in_node.simps [of i node] tree_nodes.simps [of node])
  qed (simp add: find_in_node.simps [of i node] tree_nodes.simps [of node])
qed

lemma collect_tree_ids_nodes: "collect_tree_ids node = List.map_filter node_id (tree_nodes node)"
proof (induction node rule: collect_tree_ids.induct)
  case (1 node)
  have "concat (map collect_tree_ids xs) = List.map_filter node_id (concat (map tree_nodes xs))"
    if "set xs \<subseteq> set (node_children node)" for xs
    using that 1 by (induction xs) (auto simp: map_filter_def)
  then show ?case
    by (simp add: collect_tree_ids.simps [of node] tree_nodes.simps [of node] map_filter_def split: option.splits)
qed

lemma find_map_concat_map:
  "(\<And>x. x \<in> set xs \<Longrightarrow> f x = map_option h (find P (g x))) \<Longrightarrow>
    find_map f xs = map_option h (find P (concat (map g xs)))"
  by (induction xs) (auto simp: find_append split: option.splits)

lemma find_parent_in_find:
  "list_all node_ok (tree_nodes node) \<Longrightarrow>
    find_parent_in i node
      = map_option (\<lambda>n. the (node_id n))
          (find (\<lambda>n. list_ex (\<lambda>c. node_id c = Some i) (node_children n)) (tree_nodes node))"
proof (induction i node rule: find_parent_in.induct)
  case (1 i node)
  obtain j where j: "node_id node = Some j"
    using "1.prems" by (auto simp: tree_nodes.simps [of node] node_ok_def)
  show ?case
  proof (cases "list_ex (\<lambda>c. node_id c = Some i) (node_children node)")
    case True
    then show ?thesis by (simp add: find_parent_in.simps [of i node] tree_nodes.simps [of node] j)
  next
    case False
    have "list_all node_ok (tree_nodes c)" if "c \<in> set (node_children node)" for c
      using "1.prems" that by (auto simp: list_all_iff tree_nodes.simps [of node])
    then have "find_parent_in i c = map_option (\<lambda>n. the (node_id n))
        (find (\<lambda>n. list_ex (\<lambda>c. node_id c = Some i) (node_children n)) (tree_nodes c))"
      if "c \<in> set (node_children node)" for c
      using "1.IH" [OF j False that] that by simp
    from find_map_concat_map [OF this] show ?thesis
      using False j by (simp add: find_parent_in.simps [of i node] tree_nodes.simps [of node])
  qed
qed

end
