(* ===== verification/Read_Tools.thy ===== *)
theory Read_Tools
  imports Read_Pages Read_Trees Json_Maps Tool_Catalog Log_Buffer Edit_Data
begin

text \<open>
  The read tools an MCP client calls (\<open>call_tool\<close>, \<open>read_bridge_value\<close>, \<open>read_asset_manifest\<close> and
  \<open>read_recent_logs\<close> in \<open>mcp/reads.rs\<close>): the request each tool sends to the engine, the items made of
  its answer, and the first page of them. What the engine answers, what the connection is at each test, and what other
  calls do to the page store while the lock is free are arguments. Messages for the client are the
  constructors of \<open>read_error\<close>. \<open>usize\<close> has 64 bits, so a \<open>u64\<close> always converts.
\<close>

definition BRIDGE_ASSET_PAGE_SIZE :: nat where
  "BRIDGE_ASSET_PAGE_SIZE = 200"

definition MAX_ENGINE_ERROR_CODE_BYTES :: nat where
  "MAX_ENGINE_ERROR_CODE_BYTES = 128"

definition MAX_ENGINE_ERROR_MESSAGE_BYTES :: nat where
  "MAX_ENGINE_ERROR_MESSAGE_BYTES = 4096"

text \<open>What a failed request to the engine is reported as: data of the engine is cut and marked, or a message of the program.\<close>

datatype engine_report =
    Engine_data json
  | Own_message backend_error

datatype read_error =
    Not_connected_read
  | Pin_failed backend_error
  | Connection_switched
  | Bad_input tool_input_error
  | No_continuation
  | Not_a_bridge_read
  | Not_available_yet
  | Page_failed paging_error
  | Engine_failed engine_report
  | Malformed_answer string
  | Tree_failed tree_error
  | Answer_not_object
  | Manifest_total_missing
  | Manifest_total_changed
  | Manifest_other_page
  | Manifest_no_entries
  | Manifest_metadata_changed
  | Manifest_too_many
  | Manifest_empty_page
  | Manifest_page_overflow

section \<open>Engine errors\<close>

definition truncate_utf8 :: "string \<Rightarrow> nat \<Rightarrow> string" where
  "truncate_utf8 s max_bytes = take (char_floor s (min (length s) max_bytes)) s"

fun engine_error_as_data :: "backend_error \<Rightarrow> engine_report" where
  "engine_error_as_data (EngineFailed error_code message) =
     Engine_data (JObject [(''engineError'', JObject
       [(''code'', JString (truncate_utf8 error_code MAX_ENGINE_ERROR_CODE_BYTES)),
        (''message'', JString (truncate_utf8 message MAX_ENGINE_ERROR_MESSAGE_BYTES))])])"
| "engine_error_as_data e = Own_message e"

section \<open>Arguments\<close>

fun as_u64 :: "json \<Rightarrow> u64 option" where
  "as_u64 (JNumber (PosInt n)) = Some n"
| "as_u64 _ = None"

definition arg_u64 :: "json_map \<Rightarrow> string \<Rightarrow> nat option" where
  "arg_u64 arguments key = map_option unat (Option.bind (map_of arguments key) as_u64)"

definition arg_str :: "json_map \<Rightarrow> string \<Rightarrow> string option" where
  "arg_str arguments key = Option.bind (map_of arguments key) as_str"

definition page_size :: "json_map \<Rightarrow> nat" where
  "page_size arguments =
     min (max (case arg_u64 arguments ''pageSize'' of None \<Rightarrow> MAX_READ_PAGE_ITEMS | Some n \<Rightarrow> n) 1)
       MAX_READ_PAGE_ITEMS"

definition cursor_arguments :: "string \<Rightarrow> string list option" where
  "cursor_arguments name =
     (if name \<in> {''bridge_get_capabilities'', ''schema_get_snapshot''} then Some [''cursor'', ''pageSize'']
      else if name \<in> {''scene_get_tree'', ''scene_get_tree_page''}
        then Some [''cursor'', ''pageSize'', ''rootId'', ''maxDepth'']
      else if name = ''object_get_snapshot'' then Some [''cursor'', ''pageSize'', ''objectId'']
      else if name = ''asset_get_manifest'' then Some [''cursor'', ''pageSize'', ''filter'']
      else if name = ''logs_get_recent''
        then Some [''cursor'', ''pageSize'', ''generation'', ''afterSequence'', ''limit'']
      else None)"

definition in_range :: "nat \<Rightarrow> nat \<Rightarrow> json \<Rightarrow> bool" where
  "in_range low high v \<longleftrightarrow> (case as_u64 v of None \<Rightarrow> False | Some n \<Rightarrow> low \<le> unat n \<and> unat n \<le> high)"

definition bad_arg :: "(json \<Rightarrow> bool) \<Rightarrow> json_map \<Rightarrow> string \<Rightarrow> bool" where
  "bad_arg ok arguments key \<longleftrightarrow> (case map_of arguments key of None \<Rightarrow> False | Some v \<Rightarrow> \<not> ok v)"

definition non_empty_text :: "json \<Rightarrow> bool" where
  "non_empty_text v \<longleftrightarrow> (case as_str v of None \<Rightarrow> False | Some s \<Rightarrow> s \<noteq> [])"

definition validate_cursor_call :: "string \<Rightarrow> json_map \<Rightarrow> read_error + unit" where
  "validate_cursor_call name arguments =
     bind_r (ok_or No_continuation (cursor_arguments name)) (\<lambda>allowed.
       if list_ex (\<lambda>key. key \<notin> set allowed) (map fst arguments) then Inl (Bad_input Input_invalid)
       else if \<not> (case arg_str arguments ''cursor'' of
                    None \<Rightarrow> False | Some c \<Rightarrow> c \<noteq> [] \<and> length c \<le> MAX_CURSOR_BYTES)
         then Inl (Bad_input Input_invalid)
       else if bad_arg (in_range 1 MAX_READ_PAGE_ITEMS) arguments ''pageSize'' then Inl (Bad_input Input_invalid)
       else if bad_arg non_empty_text arguments ''rootId''
          \<or> bad_arg non_empty_text arguments ''objectId''
          \<or> bad_arg (\<lambda>v. as_str v \<noteq> None) arguments ''filter''
          \<or> bad_arg (\<lambda>v. as_u64 v \<noteq> None) arguments ''maxDepth''
          \<or> bad_arg (\<lambda>v. as_u64 v \<noteq> None) arguments ''page''
          \<or> bad_arg (\<lambda>v. as_u64 v \<noteq> None) arguments ''generation''
          \<or> bad_arg (\<lambda>v. as_u64 v \<noteq> None) arguments ''afterSequence''
          \<or> bad_arg (in_range 1 1000) arguments ''limit''
         then Inl (Bad_input Input_invalid)
       else Inr ())"

text \<open>\<open>copy_argument\<close>: the field, if the client gave it. The target has no field of that name before.\<close>

definition copy_argument :: "json_map \<Rightarrow> string \<Rightarrow> json_map \<Rightarrow> json_map" where
  "copy_argument arguments key target =
     (case map_of arguments key of None \<Rightarrow> target | Some v \<Rightarrow> AList.update key v target)"

definition bridge_read_request :: "string \<Rightarrow> json_map \<Rightarrow> read_error + (string \<times> json_map)" where
  "bridge_read_request name arguments =
     (if name = ''engine_get_status'' then Inr (''engine.getStatus'', [])
      else if name = ''bridge_get_capabilities'' then Inr (''bridge.getCapabilities'', [])
      else if name \<in> {''scene_get_tree'', ''scene_get_tree_page''} then Inr (''scene.getTree'', [])
      else if name = ''object_get_snapshot''
        then Inr (''object.getSnapshot'', copy_argument arguments ''objectId'' [])
      else if name = ''schema_get_snapshot'' then Inr (''schema.getSnapshot'', [])
      else if name = ''asset_resolve''
        then Inr (''asset.resolve'', copy_argument arguments ''variant''
               (copy_argument arguments ''kind'' (copy_argument arguments ''logicalPath'' [])))
      else Inl Not_a_bridge_read)"

section \<open>Items\<close>

definition section_item :: "string \<Rightarrow> json \<Rightarrow> json" where
  "section_item name engine_data = JObject [(''section'', JString name), (''engineData'', engine_data)]"

definition data_item :: "json \<Rightarrow> json" where
  "data_item engine_data = JObject [(''engineData'', engine_data)]"

text \<open>The field taken out of its object, as an array: a field that is missing or not an array gives no items.\<close>

definition take_array :: "string \<Rightarrow> json_map \<Rightarrow> json list \<times> json_map" where
  "take_array key obj =
     (case Option.bind (map_of obj key) as_array of None \<Rightarrow> [] | Some xs \<Rightarrow> xs, swap_remove key obj)"

definition object_snapshot_items :: "json \<Rightarrow> read_error + (json \<times> json list)" where
  "object_snapshot_items v =
     bind_r (ok_or Answer_not_object (as_object v)) (\<lambda>obj.
       let (properties, obj1) = take_array ''properties'' obj;
           (components, obj2) = take_array ''components'' obj1
       in Inr (JObject obj2,
            map (section_item ''properties'') properties @ map (section_item ''components'') components))"

definition array_snapshot_items :: "json \<Rightarrow> string \<Rightarrow> string \<Rightarrow> read_error + (json \<times> json list)" where
  "array_snapshot_items v key name =
     bind_r (ok_or Answer_not_object (as_object v)) (\<lambda>obj.
       let (items, obj1) = take_array key obj
       in Inr (JObject obj1, map (section_item name) items))"

text \<open>
  The serde readers and writers of the closed enums, the capability list and the log snapshot are those of the
  library: \<open>rl_capabilities\<close> gives the descriptors of a valid answer as they are written again.
\<close>

record read_lib =
  rl_pages :: paging_lib
  rl_engine_state :: "json \<Rightarrow> engine_state option"
  rl_runtime_state :: "json \<Rightarrow> runtime_state option"
  rl_capabilities :: "json \<Rightarrow> json list option"
  rl_log_snapshot :: "log_snapshot \<Rightarrow> json"

definition generation_field :: "u64 \<Rightarrow> string \<times> json" where
  "generation_field generation = (''generation'', JNumber (PosInt generation))"

definition data_type :: "u64 \<Rightarrow> string \<Rightarrow> json" where
  "data_type generation name = JObject [generation_field generation, (''dataType'', JString name)]"

definition opt_number :: "nat option \<Rightarrow> json" where
  "opt_number n = (case n of None \<Rightarrow> JNull | Some k \<Rightarrow> JNumber (PosInt (of_nat k)))"

text \<open>The metadata and the items of an answer of the engine, by tool.\<close>

definition answer_items ::
  "read_lib \<Rightarrow> string \<Rightarrow> json_map \<Rightarrow> u64 \<Rightarrow> json \<Rightarrow> read_error + (json \<times> json list)" where
  "answer_items R name arguments generation v =
     (if name = ''engine_get_status'' then
        bind_r (map_err (\<lambda>_. Malformed_answer name) (parse_status_result (rl_engine_state R) (rl_runtime_state R) v))
          (\<lambda>_. Inr (data_type generation ''engineStatus'', [data_item v]))
      else if name = ''bridge_get_capabilities'' then
        bind_r (ok_or (Malformed_answer name) (rl_capabilities R v))
          (\<lambda>cs. Inr (data_type generation ''capabilities'', map data_item cs))
      else if name \<in> {''scene_get_tree'', ''scene_get_tree_page''} then
        bind_r (map_err (\<lambda>_. Malformed_answer name) (parse_scene_tree_result v)) (\<lambda>_.
          let root_id = arg_str arguments ''rootId''; max_depth = arg_u64 arguments ''maxDepth''
          in bind_r (map_err Tree_failed (flatten_scene_tree v root_id max_depth)) (\<lambda>items.
               Inr (JObject [generation_field generation, (''rootId'', opt_json root_id),
                 (''maxDepth'', opt_number max_depth), (''dataType'', JString ''sceneTree'')], items)))
      else if name = ''object_get_snapshot'' then
        bind_r (map_err (\<lambda>_. Malformed_answer name) (parse_object_snapshot_result v)) (\<lambda>_.
        bind_r (object_snapshot_items v) (\<lambda>(metadata, items).
          Inr (JObject [generation_field generation, (''objectSnapshot'', metadata)], items)))
      else if name = ''schema_get_snapshot'' then
        bind_r (map_err (\<lambda>_. Malformed_answer name) (parse_schema_snapshot_result v)) (\<lambda>_.
        bind_r (array_snapshot_items v ''types'' ''types'') (\<lambda>(metadata, items).
          Inr (JObject [generation_field generation, (''schemaSnapshot'', metadata)], items)))
      else if name = ''asset_resolve'' then
        bind_r (map_err (\<lambda>_. Malformed_answer name) (parse_asset_resolve_result v))
          (\<lambda>_. Inr (data_type generation ''assetResolution'', [data_item v]))
      else Inl Not_available_yet)"

section \<open>The asset manifest\<close>

record manifest_state =
  ma_page :: nat
  ma_total :: "nat option"
  ma_metadata :: "json option"
  ma_items :: "json list"
  ma_item_bytes :: nat

definition manifest_start :: manifest_state where
  "manifest_start = \<lparr>ma_page = 0, ma_total = None, ma_metadata = None, ma_items = [], ma_item_bytes = 0\<rparr>"

definition manifest_request :: "json_map \<Rightarrow> nat \<Rightarrow> string \<times> json_map" where
  "manifest_request arguments bridge_page =
     (''asset.getManifest'',
      AList.update ''pageSize'' (json_nat BRIDGE_ASSET_PAGE_SIZE)
        (AList.update ''page'' (json_nat bridge_page) (copy_argument arguments ''filter'' [])))"

definition manifest_metadata :: "u64 \<Rightarrow> json option \<Rightarrow> json" where
  "manifest_metadata generation metadata =
     JObject [generation_field generation, (''manifest'', case metadata of None \<Rightarrow> JNull | Some m \<Rightarrow> m)]"

text \<open>The entries of one page, with the limits a snapshot of them would have.\<close>

fun add_entries ::
  "paging_lib \<Rightarrow> json \<Rightarrow> json list \<Rightarrow> json list \<Rightarrow> nat \<Rightarrow> read_error + (json list \<times> nat)" where
  "add_entries L metadata [] items item_bytes = Inr (items, item_bytes)"
| "add_entries L metadata (entry # batch) items item_bytes =
     (let item = section_item ''assets'' entry
      in bind_r (map_err Page_failed (serialized_size L item usize_max)) (\<lambda>bytes.
         bind_r (map_err Page_failed (serialized_size L metadata usize_max)) (\<lambda>metadata_bytes.
           if sat_add (sat_add bytes metadata_bytes) RESPONSE_ENVELOPE_RESERVE > MAX_READ_RESPONSE_BYTES
           then Inl (Page_failed Item_too_large)
           else
             (let item_bytes' = sat_add (sat_add item_bytes bytes) (pl_value_size L)
              in if sat_add (sat_add item_bytes' metadata_bytes) SNAPSHOT_BOOKKEEPING_BYTES
                   > MAX_READ_SNAPSHOT_BYTES
                 then Inl (Page_failed Snapshot_too_large)
                 else add_entries L metadata batch (items @ [item]) item_bytes'))))"

text \<open>The checks of one page and what it adds; the flag says that the manifest is whole.\<close>

definition manifest_step ::
  "paging_lib \<Rightarrow> u64 \<Rightarrow> backend_error + json \<Rightarrow> bool \<Rightarrow> manifest_state
    \<Rightarrow> read_error + (manifest_state \<times> bool)" where
  "manifest_step L generation answer is_current ms =
     bind_r (map_err (\<lambda>e. Engine_failed (engine_error_as_data e)) answer) (\<lambda>v.
       if \<not> is_current then Inl Connection_switched
       else bind_r (map_err (\<lambda>_. Malformed_answer ''asset_get_manifest'') (parse_asset_manifest_result v)) (\<lambda>_.
       bind_r (ok_or Answer_not_object (as_object v)) (\<lambda>obj.
       bind_r (ok_or Manifest_total_missing (arg_u64 obj ''totalCount'')) (\<lambda>total_count.
         if ma_total ms \<noteq> None \<and> ma_total ms \<noteq> Some total_count then Inl Manifest_total_changed
         else if arg_u64 obj ''page'' \<noteq> None \<and> arg_u64 obj ''page'' \<noteq> Some (ma_page ms)
           then Inl Manifest_other_page
         else bind_r (ok_or Manifest_no_entries (Option.bind (map_of obj ''entries'') as_array)) (\<lambda>batch.
           let page_metadata = JObject (swap_remove ''pageSize'' (swap_remove ''page'' (swap_remove ''entries'' obj)))
           in if (\<exists>previous\<in>set_option (ma_metadata ms). \<not> json_eq previous page_metadata)
              then Inl Manifest_metadata_changed
              else
                (let metadata = (case ma_metadata ms of None \<Rightarrow> page_metadata | Some m \<Rightarrow> m)
                 in bind_r (add_entries L (manifest_metadata generation (Some metadata)) batch
                              (ma_items ms) (ma_item_bytes ms)) (\<lambda>(items, item_bytes).
                      let ms' = ms\<lparr>ma_total := Some total_count, ma_metadata := Some metadata,
                                   ma_items := items, ma_item_bytes := item_bytes\<rparr>
                      in if length items > total_count then Inl Manifest_too_many
                         else if length items = total_count then Inr (ms', True)
                         else if batch = [] then Inl Manifest_empty_page
                         else if ma_page ms + 1 \<ge> 2 ^ 64 then Inl Manifest_page_overflow
                         else Inr (ms'\<lparr>ma_page := ma_page ms + 1\<rparr>, False))))))))"

text \<open>
  The loop over the pages of the engine, with its answers and the connection test after each:
  the requests sent, and the whole manifest, an error, or nothing while an answer is awaited.
\<close>

fun manifest_loop ::
  "paging_lib \<Rightarrow> json_map \<Rightarrow> u64 \<Rightarrow> ((backend_error + json) \<times> bool) list \<Rightarrow> manifest_state
    \<Rightarrow> (string \<times> json_map) list \<times> (read_error + manifest_state) option" where
  "manifest_loop L arguments generation [] ms = ([manifest_request arguments (ma_page ms)], None)"
| "manifest_loop L arguments generation ((answer, is_current) # answers) ms =
     (let request = manifest_request arguments (ma_page ms)
      in case manifest_step L generation answer is_current ms of
           Inl e \<Rightarrow> ([request], Some (Inl e))
         | Inr (ms', True) \<Rightarrow> ([request], Some (Inr ms'))
         | Inr (ms', False) \<Rightarrow>
             (let (requests, r) = manifest_loop L arguments generation answers ms'
              in (request # requests, r)))"

section \<open>Calls\<close>

text \<open>
  What a call meets: the catalog at its start and after it has waited for the page store, the
  session it pins, clock readings, random bytes, the answers of the engine with the connection test after each,
  the log buffer, what other calls did to the store before the first page is made, and the connection
  at the end.
\<close>

record read_env =
  re_catalog :: mcp_tool_catalog
  re_catalog_later :: mcp_tool_catalog
  re_pin :: "backend_error + u64"
  re_now :: nat
  re_now_later :: nat
  re_id_random :: "string option"
  re_cursor_random :: "string option"
  re_answers :: "((backend_error + json) \<times> bool) list"
  re_logs :: log_buffer
  re_others :: "read_snapshot_store \<Rightarrow> read_snapshot_store"
  re_current :: bool

type_synonym read_outcome =
  "(string \<times> json_map) list \<times> (read_error + json) option \<times> read_snapshot_store"

definition first_page ::
  "read_lib \<Rightarrow> read_env \<Rightarrow> string \<Rightarrow> u64 \<Rightarrow> nat \<Rightarrow> (string \<times> json_map) list \<Rightarrow> json \<Rightarrow> json list
    \<Rightarrow> read_snapshot_store \<Rightarrow> read_outcome" where
  "first_page R env name generation n requests metadata items st =
     (case create_page (rl_pages R) name generation metadata items n (re_now_later env)
             (re_id_random env) (re_cursor_random env) (re_others env st) of
       (r, st') \<Rightarrow> (requests, Some (map_err Page_failed r), st'))"

definition read_asset_manifest ::
  "read_lib \<Rightarrow> read_env \<Rightarrow> json_map \<Rightarrow> u64 \<Rightarrow> nat \<Rightarrow> read_snapshot_store \<Rightarrow> read_outcome" where
  "read_asset_manifest R env arguments generation n st =
     (case manifest_loop (rl_pages R) arguments generation (re_answers env) manifest_start of
       (requests, None) \<Rightarrow> (requests, None, st)
     | (requests, Some (Inl e)) \<Rightarrow> (requests, Some (Inl e), st)
     | (requests, Some (Inr ms)) \<Rightarrow>
         first_page R env ''asset_get_manifest'' generation n requests
           (manifest_metadata generation (ma_metadata ms)) (ma_items ms) st)"

definition read_bridge_value ::
  "read_lib \<Rightarrow> read_env \<Rightarrow> string \<Rightarrow> json_map \<Rightarrow> u64 \<Rightarrow> nat \<Rightarrow> read_snapshot_store \<Rightarrow> read_outcome" where
  "read_bridge_value R env name arguments generation n st =
     (if name = ''asset_get_manifest'' then read_asset_manifest R env arguments generation n st
      else case bridge_read_request name arguments of
        Inl e \<Rightarrow> ([], Some (Inl e), st)
      | Inr request \<Rightarrow>
          (case re_answers env of
            [] \<Rightarrow> ([request], None, st)
          | (answer, _) # _ \<Rightarrow>
              (case bind_r (map_err (\<lambda>e. Engine_failed (engine_error_as_data e)) answer)
                      (answer_items R name arguments generation) of
                Inl e \<Rightarrow> ([request], Some (Inl e), st)
              | Inr (metadata, items) \<Rightarrow> first_page R env name generation n [request] metadata items st)))"

definition log_query_of :: "json_map \<Rightarrow> u64 \<Rightarrow> log_query" where
  "log_query_of arguments generation =
     \<lparr>lq_generation = Some (case arg_u64 arguments ''generation'' of None \<Rightarrow> unat generation | Some g \<Rightarrow> g),
      lq_from_time_ms = None, lq_to_time_ms = None,
      lq_after_sequence = arg_u64 arguments ''afterSequence'',
      lq_through_sequence = None, lq_limit = arg_u64 arguments ''limit''\<rparr>"

definition read_recent_logs ::
  "read_lib \<Rightarrow> read_env \<Rightarrow> json_map \<Rightarrow> u64 \<Rightarrow> nat \<Rightarrow> read_snapshot_store \<Rightarrow> read_outcome" where
  "read_recent_logs R env arguments generation n st =
     (case array_snapshot_items (rl_log_snapshot R (log_read (re_logs env) (log_query_of arguments generation)))
             ''entries'' ''logs'' of
       Inl e \<Rightarrow> ([], Some (Inl e), st)
     | Inr (metadata, items) \<Rightarrow>
         first_page R env ''logs_get_recent'' generation n []
           (JObject [generation_field generation, (''logSnapshot'', metadata)]) items st)"

text \<open>The connection test at the end of a call.\<close>

definition if_current :: "read_env \<Rightarrow> read_error + json \<Rightarrow> read_error + json" where
  "if_current env r = bind_r r (\<lambda>page. if re_current env then Inr page else Inl Connection_switched)"

definition call_tool ::
  "read_lib \<Rightarrow> json option \<Rightarrow> (schema_source \<Rightarrow> json option) \<Rightarrow> (json \<Rightarrow> json \<Rightarrow> bool) \<Rightarrow> read_env
    \<Rightarrow> string \<Rightarrow> json \<Rightarrow> read_snapshot_store \<Rightarrow> read_outcome" where
  "call_tool R common source valid env name args st =
     (let arguments = (case as_object args of None \<Rightarrow> [] | Some m \<Rightarrow> m)
      in case bind_r (ok_or Not_connected_read (current_generation (re_catalog env))) (\<lambda>generation.
                bind_r (map_err Pin_failed (re_pin env)) (\<lambda>pinned.
                  if pinned \<noteq> generation then Inl Connection_switched else Inr generation)) of
           Inl e \<Rightarrow> ([], Some (Inl e), st)
         | Inr generation \<Rightarrow>
             (let n = page_size arguments; st1 = set_generation (Some generation) st
              in case arg_str arguments ''cursor'' of
                   Some cursor \<Rightarrow>
                     if get_tool common source name (re_catalog_later env) = None
                     then ([], Some (Inl (Bad_input Tool_unavailable)), st1)
                     else (case validate_cursor_call name arguments of
                             Inl e \<Rightarrow> ([], Some (Inl e), st1)
                           | Inr _ \<Rightarrow>
                               (case continue_page (rl_pages R) cursor name generation n (re_now env)
                                       (re_cursor_random env) st1 of
                                 (r, st2) \<Rightarrow> ([], Some (if_current env (map_err Page_failed r)), st2)))
                 | None \<Rightarrow>
                     (case map_err Bad_input
                             (validate_call common source valid name (JObject arguments) (re_catalog_later env)) of
                       Inl e \<Rightarrow> ([], Some (Inl e), st1)
                     | Inr input \<Rightarrow>
                         (case (if (case input of Custom_input _ \<Rightarrow> name = ''logs_get_recent'' | _ \<Rightarrow> False)
                                then read_recent_logs R env arguments generation n st1
                                else read_bridge_value R env name arguments generation n st1) of
                           (requests, r, st2) \<Rightarrow> (requests, map_option (if_current env) r, st2)))))"

end
