(* ===== verification/Read_Tools_Laws.thy ===== *)
theory Read_Tools_Laws
  imports Read_Tools Read_Pages_Laws
begin

text \<open>
  What the read tools send and return: only requests that read, one session from the first test to the
  last, an asset manifest that is whole and ends, and items that are the engine's data.
\<close>

section \<open>What a call sends\<close>

definition read_methods :: "string list" where
  "read_methods = [''engine.getStatus'', ''bridge.getCapabilities'', ''scene.getTree'', ''object.getSnapshot'',
     ''schema.getSnapshot'', ''asset.resolve'', ''asset.getManifest'']"

lemma bridge_read_request_reads:
  "bridge_read_request name arguments = Inr request \<Longrightarrow> fst request \<in> set read_methods"
  unfolding bridge_read_request_def
  by (cases request) (simp only: split: if_split_asm, simp_all, simp_all add: read_methods_def)

lemma manifest_loop_reads:
  "manifest_loop L arguments g answers ms = (requests, r) \<Longrightarrow> list_all (\<lambda>q. fst q \<in> set read_methods) requests"
proof (induction L arguments g answers ms arbitrary: requests rule: manifest_loop.induct)
  case (1 L arguments g ms)
  then show ?case by (auto simp: manifest_request_def read_methods_def)
next
  case (2 L arguments g answer is_current answers ms)
  then show ?case
    by (cases "manifest_step L g answer is_current ms")
      (auto simp: manifest_request_def read_methods_def Let_def split: prod.splits bool.splits)
qed

lemma first_page_requests: "fst (first_page R env name g n requests m items st) = requests"
  by (simp add: first_page_def split: prod.splits)

lemma read_bridge_value_reads:
  "list_all (\<lambda>q. fst q \<in> set read_methods) (fst (read_bridge_value R env name arguments g n st))"
proof (cases "name = ''asset_get_manifest''")
  case True
  obtain requests r where m: "manifest_loop (rl_pages R) arguments g (re_answers env) manifest_start = (requests, r)"
    by (rule prod.exhaust)
  from manifest_loop_reads [OF m] show ?thesis
    by (cases r) (auto simp: True read_bridge_value_def read_asset_manifest_def m first_page_requests split: sum.splits)
next
  case False
  then show ?thesis
    using bridge_read_request_reads [of name arguments]
    by (auto simp: read_bridge_value_def first_page_requests split: sum.splits list.splits prod.splits)
qed

lemma read_recent_logs_silent: "fst (read_recent_logs R env arguments g n st) = []"
  by (auto simp: read_recent_logs_def first_page_requests split: sum.splits)

text \<open>C30: A read tool cannot change the engine: every request a call sends is one of the seven methods that read, a
  call that reads on with a cursor sends none, and a page is returned only if the session was pinned in the generation of the
  catalog and is still the current one at the end.\<close>

theorem reads_send_only_reads:
  assumes "call_tool R common source valid env name args st = (requests, r, st')"
  shows "list_all (\<lambda>q. fst q \<in> set read_methods) requests
    \<and> (Option.bind (jget ''cursor'' args) as_str \<noteq> None \<longrightarrow> requests = [])
    \<and> (\<forall>page. r = Some (Inr page) \<longrightarrow>
        re_current env \<and> (\<exists>g. current_generation (re_catalog env) = Some g \<and> re_pin env = Inr g))"
proof (cases "\<exists>g. current_generation (re_catalog env) = Some g \<and> re_pin env = Inr g")
  case False
  then have "requests = [] \<and> (\<exists>e. r = Some (Inl e))"
    using assms
    by (cases "current_generation (re_catalog env)"; cases "re_pin env") (auto simp: call_tool_def Let_def split: if_splits)
  then show ?thesis by auto
next
  case True
  then obtain g where g: "current_generation (re_catalog env) = Some g" "re_pin env = Inr g" by auto
  define arguments where "arguments = (case as_object args of None \<Rightarrow> [] | Some m \<Rightarrow> m)"
  have cursor: "arg_str arguments ''cursor'' = Option.bind (jget ''cursor'' args) as_str"
    by (cases args) (auto simp: arguments_def arg_str_def)
  have last: "re_current env" if "if_current env q = Inr page" for q page
    using that by (auto simp: if_current_def split: if_splits)
  show ?thesis
  proof (cases "arg_str arguments ''cursor''")
    case (Some c)
    then have "requests = [] \<and> (\<forall>page. r = Some (Inr page) \<longrightarrow> re_current env)"
      using assms g last
      by (auto simp: call_tool_def Let_def arguments_def [symmetric] split: if_splits sum.splits prod.splits)
    then show ?thesis using g by auto
  next
    case None
    let ?n = "page_size arguments" and ?st = "set_generation (Some g) st"
    have "requests = [] \<and> (\<exists>e. r = Some (Inl e))
      \<or> (\<exists>requests' r' q. (requests', r', st') = q \<and> requests = requests' \<and> r = map_option (if_current env) r'
          \<and> q \<in> {read_recent_logs R env arguments g ?n ?st, read_bridge_value R env name arguments g ?n ?st})"
      using assms g None
      by (auto simp: call_tool_def Let_def arguments_def [symmetric] split: sum.splits prod.splits if_splits
          validated_tool_input.splits)
    then have "list_all (\<lambda>q. fst q \<in> set read_methods) requests \<and> (\<forall>page. r = Some (Inr page) \<longrightarrow> re_current env)"
    proof (elim disjE exE conjE)
      fix requests' r' q
      assume q: "(requests', r', st') = q" "requests = requests'" "r = map_option (if_current env) r'"
        "q \<in> {read_recent_logs R env arguments g ?n ?st, read_bridge_value R env name arguments g ?n ?st}"
      have "fst q = requests" using q(1,2) by (metis fst_conv)
      moreover have "list_all (\<lambda>q. fst q \<in> set read_methods) (fst q)"
        using q(4) read_recent_logs_silent [of R env arguments g ?n ?st]
          read_bridge_value_reads [of R env name arguments g ?n ?st] by auto
      ultimately show ?thesis using q(3) last by auto
    qed simp_all
    then show ?thesis using g None cursor by auto
  qed
qed

section \<open>The asset manifest\<close>

lemma add_entries_Inr:
  "add_entries L m batch items b = Inr (items', b') \<Longrightarrow>
    items' = items @ map (section_item ''assets'') batch \<and>
    b + length batch * pl_value_size L \<le> b' \<and> (batch \<noteq> [] \<longrightarrow> b' \<le> MAX_READ_SNAPSHOT_BYTES)"
proof (induction L m batch items b rule: add_entries.induct)
  case (1 L m items b)
  then show ?case by simp
next
  case (2 L m entry batch items b)
  let ?item = "section_item ''assets'' entry"
  obtain bytes mb where sz: "serialized_size L ?item usize_max = Inr bytes" "serialized_size L m usize_max = Inr mb"
    by (simp add: serialized_size_full)
  define b1 where "b1 = sat_add (sat_add b bytes) (pl_value_size L)"
  have fits: "\<not> sat_add (sat_add b1 mb) SNAPSHOT_BOOKKEEPING_BYTES > MAX_READ_SNAPSHOT_BYTES"
    and rest: "add_entries L m batch (items @ [?item]) b1 = Inr (items', b')"
    using "2.prems" sz by (auto simp: b1_def Let_def split: if_splits)
  have "sat_add b1 mb + SNAPSHOT_BOOKKEEPING_BYTES \<le> MAX_READ_SNAPSHOT_BYTES"
    using fits MAX_less_usize by (intro sat_add_below) (simp_all add: not_less)
  then have "sat_add b1 mb \<le> MAX_READ_SNAPSHOT_BYTES" by simp
  then have b1: "b1 \<le> MAX_READ_SNAPSHOT_BYTES"
    using sat_add_below [of b1 mb MAX_READ_SNAPSHOT_BYTES] MAX_less_usize by simp
  then have "sat_add b bytes + pl_value_size L \<le> b1"
    using MAX_less_usize by (auto simp: b1_def sat_add_def)
  moreover have "b \<le> sat_add b bytes"
    using calculation b1 MAX_less_usize by (simp add: sat_add_def)
  ultimately have grow: "b + pl_value_size L \<le> b1" by simp
  have IH: "items' = (items @ [?item]) @ map (section_item ''assets'') batch \<and>
      b1 + length batch * pl_value_size L \<le> b' \<and> (batch \<noteq> [] \<longrightarrow> b' \<le> MAX_READ_SNAPSHOT_BYTES)"
    using "2.IH" [OF refl _ _ _ refl] rest sz fits "2.prems" by (auto simp: b1_def Let_def split: if_splits)
  then have "b' \<le> MAX_READ_SNAPSHOT_BYTES"
    using rest b1 by (cases batch) auto
  with IH grow show ?case by (simp add: algebra_simps)
qed

definition manifest_entries :: "json_map \<Rightarrow> json list" where
  "manifest_entries obj = (case Option.bind (map_of obj ''entries'') as_array of None \<Rightarrow> [] | Some xs \<Rightarrow> xs)"

definition manifest_rest :: "json_map \<Rightarrow> json" where
  "manifest_rest obj = JObject (swap_remove ''pageSize'' (swap_remove ''page'' (swap_remove ''entries'' obj)))"

lemma manifest_step_Inr:
  assumes "manifest_step L g answer is_current ms = Inr (ms', whole)"
  obtains obj where "answer = Inr (JObject obj)" "is_current"
    "arg_u64 obj ''totalCount'' = ma_total ms'" "ma_total ms' \<noteq> None"
    "ma_total ms = None \<or> ma_total ms = ma_total ms'"
    "arg_u64 obj ''page'' = None \<or> arg_u64 obj ''page'' = Some (ma_page ms)"
    "ma_items ms' = ma_items ms @ map (section_item ''assets'') (manifest_entries obj)"
    "ma_metadata ms' = Some (case ma_metadata ms of None \<Rightarrow> manifest_rest obj | Some m \<Rightarrow> m)"
    "\<And>m. ma_metadata ms = Some m \<Longrightarrow> json_eq m (manifest_rest obj)"
    "whole \<Longrightarrow> ma_total ms' = Some (length (ma_items ms'))"
    "\<not> whole \<Longrightarrow> ma_page ms' = ma_page ms + 1"
    "\<not> whole \<Longrightarrow> ma_item_bytes ms + pl_value_size L \<le> ma_item_bytes ms' \<and>
      ma_item_bytes ms' \<le> MAX_READ_SNAPSHOT_BYTES"
proof -
  obtain v where v: "answer = Inr v" "is_current"
    using assms by (auto simp: manifest_step_def split: if_splits)
  obtain obj where obj: "v = JObject obj"
    using assms v by (auto simp: manifest_step_def split: if_splits)
  obtain t batch where t: "arg_u64 obj ''totalCount'' = Some t" "ma_total ms = None \<or> ma_total ms = Some t"
    "arg_u64 obj ''page'' = None \<or> arg_u64 obj ''page'' = Some (ma_page ms)"
    and batch: "map_of obj ''entries'' = Some (JArray batch)"
    using assms v obj
    by (auto simp: manifest_step_def Option.bind_eq_Some_conv elim!: as_array.elims split: if_splits)
  let ?m = "case ma_metadata ms of None \<Rightarrow> manifest_rest obj | Some m \<Rightarrow> m"
  obtain items b where add: "add_entries L (manifest_metadata g (Some ?m)) batch (ma_items ms) (ma_item_bytes ms) = Inr (items, b)"
    and meta: "\<And>m. ma_metadata ms = Some m \<Longrightarrow> json_eq m (manifest_rest obj)"
    and r: "length items \<le> t" "whole \<longleftrightarrow> length items = t" "\<not> whole \<Longrightarrow> batch \<noteq> []"
      "ms' = ms\<lparr>ma_total := Some t, ma_metadata := Some ?m, ma_items := items, ma_item_bytes := b,
         ma_page := if whole then ma_page ms else ma_page ms + 1\<rparr>"
    using assms v obj t batch
    by (auto simp: manifest_step_def manifest_rest_def Let_def split: if_splits prod.splits option.splits)
  note a = add_entries_Inr [OF add]
  have "ma_item_bytes ms + pl_value_size L \<le> b \<and> b \<le> MAX_READ_SNAPSHOT_BYTES" if "\<not> whole"
  proof -
    have "pl_value_size L \<le> length batch * pl_value_size L" using r(3) [OF that] by (cases batch) auto
    then show ?thesis using a r(3) [OF that] by linarith
  qed
  then show thesis
    using that [of obj] v obj t batch meta r a by (simp add: manifest_entries_def)
qed

text \<open>What a run of the loop has read: one answer per page, each with the total of all, with entries that are the
  items together, with its own page number if it has one, and with the metadata of the first.\<close>

definition pages_read ::
  "manifest_state \<Rightarrow> ((backend_error + json) \<times> bool) list \<Rightarrow> json_map list \<Rightarrow> manifest_state \<Rightarrow> bool" where
  "pages_read ms answers vs ms' \<longleftrightarrow>
     vs \<noteq> [] \<and> take (length vs) answers = map (\<lambda>v. (Inr (JObject v), True)) vs \<and>
     ma_items ms' = ma_items ms @ map (section_item ''assets'') (concat (map manifest_entries vs)) \<and>
     list_all (\<lambda>v. arg_u64 v ''totalCount'' = Some (length (ma_items ms'))) vs \<and>
     list_all2 (\<lambda>v k. arg_u64 v ''page'' = None \<or> arg_u64 v ''page'' = Some k) vs
       [ma_page ms..<ma_page ms + length vs] \<and>
     (case ma_metadata ms of
       Some m \<Rightarrow> ma_metadata ms' = Some m \<and> list_all (\<lambda>v. json_eq m (manifest_rest v)) vs
     | None \<Rightarrow> ma_metadata ms' = Some (manifest_rest (hd vs)) \<and>
         list_all (\<lambda>v. json_eq (manifest_rest (hd vs)) (manifest_rest v)) (tl vs))"

lemma manifest_loop_read:
  "manifest_loop L arguments g answers ms = (requests, Some (Inr ms')) \<Longrightarrow>
    \<exists>vs. pages_read ms answers vs ms'
      \<and> requests = map (manifest_request arguments) [ma_page ms..<ma_page ms + length vs]
      \<and> (ma_total ms = None \<or> ma_total ms = Some (length (ma_items ms')))"
proof (induction L arguments g answers ms arbitrary: requests rule: manifest_loop.induct)
  case (1 L arguments g ms)
  then show ?case by simp
next
  case (2 L arguments g answer is_current answers ms)
  obtain ms1 whole where step: "manifest_step L g answer is_current ms = Inr (ms1, whole)"
    using "2.prems" by (cases "manifest_step L g answer is_current ms") (auto simp: Let_def)
  obtain obj where a: "answer = Inr (JObject obj)" "is_current"
    and t: "arg_u64 obj ''totalCount'' = ma_total ms1" "ma_total ms1 \<noteq> None"
      "ma_total ms = None \<or> ma_total ms = ma_total ms1"
    and pg: "arg_u64 obj ''page'' = None \<or> arg_u64 obj ''page'' = Some (ma_page ms)"
    and it: "ma_items ms1 = ma_items ms @ map (section_item ''assets'') (manifest_entries obj)"
    and md: "ma_metadata ms1 = Some (case ma_metadata ms of None \<Rightarrow> manifest_rest obj | Some m \<Rightarrow> m)"
    and me: "\<And>m. ma_metadata ms = Some m \<Longrightarrow> json_eq m (manifest_rest obj)"
    and wh: "whole \<Longrightarrow> ma_total ms1 = Some (length (ma_items ms1))"
    and nx: "\<not> whole \<Longrightarrow> ma_page ms1 = ma_page ms + 1"
    using step by (rule manifest_step_Inr) blast
  show ?case
  proof (cases whole)
    case True
    then have r: "ms' = ms1" "requests = [manifest_request arguments (ma_page ms)]"
      using "2.prems" step by (auto simp: Let_def)
    have "pages_read ms ((answer, is_current) # answers) [obj] ms1"
      using a t pg it md me wh [OF True] by (auto simp: pages_read_def split: option.splits)
    then show ?thesis using r t wh [OF True] by (intro exI [of _ "[obj]"]) auto
  next
    case False
    then obtain requests1 where rest: "manifest_loop L arguments g answers ms1 = (requests1, Some (Inr ms'))"
      and r: "requests = manifest_request arguments (ma_page ms) # requests1"
      using "2.prems" step by (auto simp: Let_def split: prod.splits)
    from step False have s: "manifest_step L g answer is_current ms = Inr (ms1, False)" by simp
    obtain vs where vs: "pages_read ms1 answers vs ms'"
      and rq: "requests1 = map (manifest_request arguments) [ma_page ms1..<ma_page ms1 + length vs]"
      and tt: "ma_total ms1 = None \<or> ma_total ms1 = Some (length (ma_items ms'))"
      using "2.IH" [OF refl s refl refl rest] by blast
    have upt: "[ma_page ms..<ma_page ms + length (obj # vs)] = ma_page ms # [ma_page ms1..<ma_page ms1 + length vs]"
      by (subst upt_conv_Cons) (simp_all add: nx [OF False] del: upt_Suc)
    have "pages_read ms ((answer, is_current) # answers) (obj # vs) ms'"
      using vs a t pg it md me tt unfolding pages_read_def upt by (cases "ma_metadata ms") auto
    moreover have "requests = map (manifest_request arguments) [ma_page ms..<ma_page ms + length (obj # vs)]"
      unfolding upt r rq by simp
    moreover have "ma_total ms = None \<or> ma_total ms = Some (length (ma_items ms'))"
      using t tt by auto
    ultimately show ?thesis by blast
  qed
qed

text \<open>The asset manifest a client reads is whole: if the loop over the pages of the engine succeeds, it has asked for
  the pages from 0 on in order and without a gap, under one connection, its items are the entries of
  these answers in order, as many as every answer gave as the total, and no answer was for another page or had other metadata than the first.\<close>

lemma manifest_is_whole:
  assumes "manifest_loop L arguments g answers manifest_start = (requests, Some (Inr ms))"
  shows "\<exists>vs. vs \<noteq> [] \<and> take (length vs) answers = map (\<lambda>v. (Inr (JObject v), True)) vs
    \<and> requests = map (manifest_request arguments) [0..<length vs]
    \<and> ma_items ms = map (section_item ''assets'') (concat (map manifest_entries vs))
    \<and> list_all (\<lambda>v. arg_u64 v ''totalCount'' = Some (length (ma_items ms))) vs
    \<and> list_all2 (\<lambda>v k. arg_u64 v ''page'' = None \<or> arg_u64 v ''page'' = Some k) vs [0..<length vs]
    \<and> ma_metadata ms = Some (manifest_rest (hd vs))
    \<and> list_all (\<lambda>v. json_eq (manifest_rest (hd vs)) (manifest_rest v)) (tl vs)"
  using manifest_loop_read [OF assms] by (auto simp: pages_read_def manifest_start_def)

lemma manifest_loop_progress:
  "0 < pl_value_size L \<Longrightarrow> ma_item_bytes ms \<le> MAX_READ_SNAPSHOT_BYTES \<Longrightarrow>
    MAX_READ_SNAPSHOT_BYTES - ma_item_bytes ms < length answers * pl_value_size L \<Longrightarrow>
    snd (manifest_loop L arguments g answers ms) \<noteq> None"
proof (induction L arguments g answers ms rule: manifest_loop.induct)
  case (1 L arguments g ms)
  then show ?case by simp
next
  case (2 L arguments g answer is_current answers ms)
  show ?case
  proof (cases "\<exists>ms1. manifest_step L g answer is_current ms = Inr (ms1, False)")
    case False
    then show ?thesis
      by (cases "manifest_step L g answer is_current ms") (auto simp: Let_def split: bool.splits)
  next
    case True
    then obtain ms1 where s: "manifest_step L g answer is_current ms = Inr (ms1, False)" ..
    then have grow: "ma_item_bytes ms + pl_value_size L \<le> ma_item_bytes ms1" "ma_item_bytes ms1 \<le> MAX_READ_SNAPSHOT_BYTES"
      by (rule manifest_step_Inr; simp)+
    have "MAX_READ_SNAPSHOT_BYTES - ma_item_bytes ms1 < length answers * pl_value_size L"
      using "2.prems"(3) grow by simp
    then have "snd (manifest_loop L arguments g answers ms1) \<noteq> None"
      using "2.IH" [OF refl s refl refl "2.prems"(1) grow(2)] by simp
    then show ?thesis using s by (simp add: Let_def case_prod_beta)
  qed
qed

text \<open>C31: The loop over the pages of the asset manifest ends whatever the engine answers: the entries it keeps occupy
  memory, so after as many answers as entries fit into 16 MiB, and one more, it has a manifest or an error.\<close>

theorem manifest_loop_ends:
  assumes "0 < pl_value_size L" and "MAX_READ_SNAPSHOT_BYTES div pl_value_size L < length answers"
  shows "\<exists>result. snd (manifest_loop L arguments g answers manifest_start) = Some result"
proof -
  have "MAX_READ_SNAPSHOT_BYTES < length answers * pl_value_size L"
    using assms by (simp add: div_less_iff_less_mult)
  then show ?thesis
    using manifest_loop_progress [OF assms(1), of manifest_start answers arguments g]
    by (auto simp: manifest_start_def)
qed

section \<open>The properties at concrete calls\<close>

definition plain_lib :: paging_lib where
  "plain_lib = \<lparr>pl_writes = (\<lambda>_. []), pl_encode = (\<lambda>b. b), pl_value_size = 1\<rparr>"

definition plain_read_lib :: read_lib where
  "plain_read_lib = \<lparr>rl_pages = plain_lib, rl_engine_state = (\<lambda>_. None), rl_runtime_state = (\<lambda>_. None),
     rl_capabilities = (\<lambda>_. Some []), rl_log_snapshot = (\<lambda>_. JObject [])\<rparr>"

definition manifest_answer :: json_map where
  "manifest_answer =
     [(''version'', json_nat 1), (''totalCount'', json_nat 1), (''page'', json_nat 0),
      (''entries'', JArray [JObject [(''logicalPath'', JString ''a''), (''kind'', JString ''mesh'')]])]"

definition manifest_answers :: "((backend_error + json) \<times> bool) list" where
  "manifest_answers = [(Inr (JObject manifest_answer), True)]"

definition demo_env :: read_env where
  "demo_env =
     \<lparr>re_catalog = set_connection (Some 7) [] catalog_default,
      re_catalog_later = set_connection (Some 7) [] catalog_default, re_pin = Inr 7,
      re_now = 1, re_now_later = 2, re_id_random = None, re_cursor_random = None,
      re_answers = manifest_answers, re_logs = log_buffer_default, re_others = (\<lambda>st. st), re_current = True\<rparr>"

lemma reads_send_only_reads_witness:
  "\<exists>requests r st'. call_tool plain_read_lib None (\<lambda>_. Some (JObject [])) (\<lambda>_ _. True) demo_env
       ''engine_get_status'' (JObject []) store_default = (requests, r, st')
     \<and> list_all (\<lambda>q. fst q \<in> set read_methods) requests"
proof -
  obtain requests r st' where c: "call_tool plain_read_lib None (\<lambda>_. Some (JObject [])) (\<lambda>_ _. True) demo_env
       ''engine_get_status'' (JObject []) store_default = (requests, r, st')" by (rule prod_cases3)
  from reads_send_only_reads [OF c] c show ?thesis by blast
qed

lemma plain_lib_size: "serialized_size plain_lib v usize_max = Inr 0" "pl_value_size plain_lib = 1"
  by (simp_all add: serialized_size_def plain_lib_def)

lemma manifest_answer_parses: "\<exists>r. parse_asset_manifest_result (JObject manifest_answer) = Inr r"
  by (simp add: parse_asset_manifest_result_def parse_entries_def parse_entry_def manifest_answer_def
      object_or_def required_as_def optional_as_def required_field_def item_object_def required_str_def optional_str_def)

lemma manifest_demo:
  "\<exists>ms. manifest_loop plain_lib [] 7 manifest_answers manifest_start = ([manifest_request [] 0], Some (Inr ms))"
proof -
  obtain r where p: "parse_asset_manifest_result (JObject manifest_answer) = Inr r"
    using manifest_answer_parses ..
  have "arg_u64 manifest_answer ''totalCount'' = Some 1" "arg_u64 manifest_answer ''page'' = Some 0"
    "map_of manifest_answer ''entries'' = Some (JArray [JObject [(''logicalPath'', JString ''a''), (''kind'', JString ''mesh'')]])"
    by (simp_all add: arg_u64_def manifest_answer_def)
  then show ?thesis
    by (simp add: manifest_answers_def manifest_start_def manifest_step_def p plain_lib_size
        sat_add_def usize_max_def [symmetric] read_limits Let_def)
qed

lemma manifest_loop_ends_witness:
  "\<exists>result. snd (manifest_loop plain_lib [] 7 (replicate 16777217 (Inl EditCancelled, True)) manifest_start) = Some result"
  by (rule manifest_loop_ends) (simp_all add: plain_lib_size read_limits)

end
