(* ===== verification/Review.thy ===== *)
theory Review
  imports Mcp_Auth Read_Tools
begin

text \<open>
  The authorization of an MCP write (\<open>authorize_operation\<close>, \<open>resolve_authorization_review\<close> and what
  they use, in \<open>mcp/reads.rs\<close>): the scene is read again, the operation is checked against the allowed
  part of it, a preview is shown on the screen, and after the approval the scene is read once more;
  the permit is given only if nothing that was shown has changed. What the engine answers, the state
  of the authorization and the clock at each reading, and what happens on the screen are arguments.
  The length of a value as JSON text is that of the library: \<open>None\<close> is that it cannot be written.
\<close>

section \<open>Reviews\<close>

definition MAX_CONFIRMATION_TARGETS :: nat where
  "MAX_CONFIRMATION_TARGETS = 200"

definition MAX_CONFIRMATION_VALUE_BYTES :: nat where
  "MAX_CONFIRMATION_VALUE_BYTES = 64 * 1024"

datatype review_error =
    No_authorization
  | Scope_refused scope_error
  | No_connection
  | No_session backend_error
  | Session_replaced
  | Capability_missing
  | Replaced_while_checking
  | Request_deadline
  | Scene_query_missing
  | Tree_unavailable engine_report
  | Owner_query_missing
  | Owner_unavailable engine_report
  | Owner_malformed
  | Owner_unknown
  | Snapshot_query_missing
  | Snapshot_unavailable engine_report
  | Snapshot_malformed
  | Snapshot_of_other
  | Not_writable_as_json
  | Preview_too_large
  | Present_value_unknown
  | History_not_readable
  | Lease_lost
  | Clock_before_epoch
  | Rejected_on_screen
  | Confirmation_late
  | Permission_changed
  | Request_ended
  | Bridge_replaced
  | Screen_unavailable
  | Permission_revoked
  | Request_withdrawn
  | Review_missing

record history_confirmation_snapshot =
  cs_generation :: "u64 option"
  cs_history_revision :: u64
  cs_undo_head_id :: "u64 option"

record confirmation_preview =
  pv_target_ids :: "string list"
  pv_target_count :: nat
  pv_before :: "json option"
  pv_after :: "json option"
  pv_source :: "edit_source_dto option"
  pv_undo_available :: bool
  pv_clears_history :: bool

record authorization_review =
  rv_policy :: mcp_write_policy_snapshot
  rv_generation :: u64
  rv_operation :: mcp_write_operation
  rv_scope_values :: "json list"
  rv_preview :: confirmation_preview
  rv_history_snapshot :: "history_confirmation_snapshot option"
  rv_method :: string
  rv_params :: json

text \<open>Equality of previews and reviews is that of their fields, and \<open>json_eq\<close> on values.\<close>

definition preview_eq :: "confirmation_preview \<Rightarrow> confirmation_preview \<Rightarrow> bool" where
  "preview_eq p q \<longleftrightarrow>
     pv_target_ids p = pv_target_ids q \<and> pv_target_count p = pv_target_count q
     \<and> rel_option json_eq (pv_before p) (pv_before q) \<and> rel_option json_eq (pv_after p) (pv_after q)
     \<and> pv_source p = pv_source q \<and> pv_undo_available p = pv_undo_available q
     \<and> pv_clears_history p = pv_clears_history q"

definition review_eq :: "authorization_review \<Rightarrow> authorization_review \<Rightarrow> bool" where
  "review_eq r s \<longleftrightarrow>
     rv_policy r = rv_policy s \<and> rv_generation r = rv_generation s
     \<and> operation_eq (rv_operation r) (rv_operation s)
     \<and> list_all2 json_eq (rv_scope_values r) (rv_scope_values s)
     \<and> preview_eq (rv_preview r) (rv_preview s) \<and> rv_history_snapshot r = rv_history_snapshot s
     \<and> rv_method r = rv_method s \<and> json_eq (rv_params r) (rv_params s)"

text \<open>A permit with the review it was given for.\<close>

record reviewed_permit =
  rp_permit :: mcp_write_permit
  rp_review :: "authorization_review option"

definition with_review :: "authorization_review \<Rightarrow> mcp_write_permit \<Rightarrow> reviewed_permit" where
  "with_review review permit = \<lparr>rp_permit = permit, rp_review = Some review\<rparr>"

definition captured_prior :: "reviewed_permit \<Rightarrow> history_prior option" where
  "captured_prior p =
     Option.bind (rp_review p) (\<lambda>review.
       case wp_operation (rp_permit p) of
         Property i \<Rightarrow> map_option PropertyPrior (pv_before (rv_preview review))
       | Op_reparent i q \<Rightarrow>
           Option.bind (pv_before (rv_preview review)) (\<lambda>before.
             map_option (\<lambda>parent. ParentPrior (as_str parent)) (jget ''parentId'' before))
       | _ \<Rightarrow> None)"

section \<open>The preview\<close>

text \<open>The length check of the two values that are shown.\<close>

definition values_fit :: "(json \<Rightarrow> nat option) \<Rightarrow> json option \<Rightarrow> json option \<Rightarrow> review_error + unit" where
  "values_fit to_vec_len before after =
     (let fits = (\<lambda>v. case v of
            None \<Rightarrow> Inr ()
          | Some j \<Rightarrow> bind_r (ok_or Not_writable_as_json (to_vec_len j)) (\<lambda>n.
              if n > MAX_CONFIRMATION_VALUE_BYTES then Inl Preview_too_large else Inr ()))
      in bind_r (fits before) (\<lambda>_. fits after))"

text \<open>The snapshot of an object among the values read, and the value of a property in it.\<close>

definition snapshot_of :: "string \<Rightarrow> json list \<Rightarrow> json option" where
  "snapshot_of i values = find (\<lambda>v. Option.bind (jget ''objectId'' v) as_str = Some i) values"

definition property_in :: "string option \<Rightarrow> string \<Rightarrow> json list \<Rightarrow> json option" where
  "property_in property i values =
     Option.bind (snapshot_of i values) (\<lambda>snapshot.
     Option.bind (jget ''properties'' snapshot) (\<lambda>properties.
     Option.bind (as_array properties) (\<lambda>entries.
     Option.bind (find (\<lambda>e. Option.bind (jget ''name'' e) as_str = property) entries)
       (jget ''value''))))"

fun option_list :: "'a option \<Rightarrow> 'a list" where
  "option_list None = []"
| "option_list (Some x) = [x]"

text \<open>What one record of a history action shows: its targets, the value before and the value after.\<close>

fun preview_record ::
  "mcp_history_action \<Rightarrow> json list \<Rightarrow> nat \<Rightarrow> history_record \<Rightarrow> review_error + (string list \<times> json \<times> json)" where
  "preview_record a values position (Create c p k) =
     Inr (c # option_list p,
       (case mh_direction a of
         Undo \<Rightarrow> (JObject [(''objectId'', JString c), (''kind'', opt_json k)], JNull)
       | Redo \<Rightarrow> (JNull, JObject [(''kind'', opt_json k), (''parentId'', opt_json p)])))"
| "preview_record a values position (Duplicate s c p) =
     Inr (s # c # option_list p,
       (case mh_direction a of
         Undo \<Rightarrow> (JObject [(''objectId'', JString c)], JNull)
       | Redo \<Rightarrow> (JNull, JObject [(''sourceObjectId'', JString s), (''parentId'', opt_json p)])))"
| "preview_record a values position (Reparent i old new) =
     (let (from, to) = (case mh_direction a of Undo \<Rightarrow> (new, old) | Redo \<Rightarrow> (old, new))
      in Inr (i # option_list old @ option_list new,
           JObject [(''objectId'', JString i), (''parentId'', opt_json from)],
           JObject [(''objectId'', JString i), (''parentId'', opt_json to)]))"
| "preview_record a values position (SetProperty i property old new) =
     (let shown = (\<lambda>v. JObject [(''objectId'', JString i), (''property'', JString property), (''value'', v)]);
          after = shown (case mh_direction a of Undo \<Rightarrow> old | Redo \<Rightarrow> new)
      in if recreates_before position i a
         then Inr ([i], JObject [(''objectId'', JString i), (''property'', JString property),
                (''recreated'', JBool True), (''valueAvailable'', JBool False)], after)
         else bind_r (ok_or Present_value_unknown (property_in (Some property) i values)) (\<lambda>current.
                Inr ([i], shown current, after)))"

fun preview_records ::
  "mcp_history_action \<Rightarrow> json list \<Rightarrow> nat \<Rightarrow> history_record list
    \<Rightarrow> review_error + (string list \<times> json list \<times> json list)" where
  "preview_records a values position [] = Inr ([], [], [])"
| "preview_records a values position (r # rs) =
     bind_r (preview_record a values position r) (\<lambda>(ids, before, after).
     bind_r (preview_records a values (position + 1) rs) (\<lambda>(more_ids, befores, afters).
       Inr (ids @ more_ids, before # befores, after # afters)))"

text \<open>
  The targets as they are collected, how many there are, and the rest of the preview; targets are then
  sorted, made distinct and cut. \<open>preview_of ids n before after source undo clears\<close> is that end.
\<close>

definition preview_of ::
  "(json \<Rightarrow> nat option) \<Rightarrow> string list \<Rightarrow> nat \<Rightarrow> json option \<Rightarrow> json option \<Rightarrow> edit_source_dto option
    \<Rightarrow> bool \<Rightarrow> bool \<Rightarrow> review_error + confirmation_preview" where
  "preview_of to_vec_len ids count before after source undo clears =
     (let ids1 = remdups_adj (sort ids);
          count1 = (if count = 0 then length ids1 else count)
      in bind_r (values_fit to_vec_len before after) (\<lambda>_.
           Inr \<lparr>pv_target_ids = take MAX_CONFIRMATION_TARGETS ids1, pv_target_count = count1,
                pv_before = before, pv_after = after, pv_source = source,
                pv_undo_available = undo, pv_clears_history = clears\<rparr>))"

definition field_or_null :: "string \<Rightarrow> json \<Rightarrow> json" where
  "field_or_null key params = (case jget key params of None \<Rightarrow> JNull | Some v \<Rightarrow> v)"

fun make_confirmation_preview ::
  "(json \<Rightarrow> nat option) \<Rightarrow> mcp_write_operation \<Rightarrow> string \<Rightarrow> json \<Rightarrow> json option \<Rightarrow> json list
    \<Rightarrow> review_error + confirmation_preview" where
  "make_confirmation_preview W (Property i) meth params tree values =
     preview_of W [i] 1 (property_in (Option.bind (jget ''property'' params) as_str) i values)
       (jget ''value'' params) None True False"
| "make_confirmation_preview W (Op_create p) meth params tree values =
     preview_of W (option_list p) 1 None
       (Some (JObject [(''kind'', field_or_null ''kind'' params), (''parentId'', opt_json p)])) None True False"
| "make_confirmation_preview W (Op_duplicate i p) meth params tree values =
     (let before = Option.bind tree (\<lambda>t. find_tree_node t i)
      in preview_of W (i # option_list p) 1 before
           (Some (JObject [(''source'', case before of None \<Rightarrow> JNull | Some v \<Rightarrow> v), (''parentId'', opt_json p)]))
           None True False)"
| "make_confirmation_preview W (Op_reparent i p) meth params tree values =
     (let old = Option.bind tree (\<lambda>t. find_tree_parent t i)
      in preview_of W (i # option_list p @ option_list old) 1
           (Some (JObject [(''parentId'', opt_json old)])) (Some (JObject [(''parentId'', opt_json p)]))
           None True False)"
| "make_confirmation_preview W (Op_delete i) meth params tree values =
     (let before = Option.bind tree (\<lambda>t. find_tree_node t i);
          ids = (case before of Some node \<Rightarrow> collect_tree_ids node | None \<Rightarrow> [i])
      in preview_of W ids (length ids) before None None False True)"
| "make_confirmation_preview W (ComponentAdd i) meth params tree values =
     preview_of W [i] 1 None
       (Some (JObject [(''componentKind'', field_or_null ''kind'' params), (''objectId'', JString i)]))
       None False False"
| "make_confirmation_preview W (ComponentRemove i) meth params tree values =
     preview_of W [i] 1 (snapshot_of i values) None None False False"
| "make_confirmation_preview W RuntimeControl meth params tree values =
     preview_of W [''engine''] 1 None (Some (JObject [(''method'', JString meth)])) None False False"
| "make_confirmation_preview W (Op_history a) meth params tree values =
     bind_r (preview_records a values 0 (mh_records a)) (\<lambda>(ids, befores, afters).
       preview_of W ids (length ids) (Some (JArray befores)) (Some (JArray afters))
         (Some (source_dto (mh_source a))) True False)"

text \<open>The request for the screen; \<open>unix\<close> is \<open>None\<close> when the clock stands before 1970.\<close>

definition confirmation_request ::
  "(json \<Rightarrow> nat option) \<Rightarrow> string \<Rightarrow> string \<Rightarrow> nat \<Rightarrow> nat \<Rightarrow> nat option \<Rightarrow> confirmation_preview
    \<Rightarrow> history_confirmation_snapshot option \<Rightarrow> review_error + mcp_confirmation_request" where
  "confirmation_request to_vec_len tool_name meth deadline now unix p history =
     bind_r (values_fit to_vec_len (pv_before p) (pv_after p)) (\<lambda>_.
     bind_r (ok_or Clock_before_epoch unix) (\<lambda>t.
       Inr \<lparr>cf_id = [], cf_tool_name = tool_name, cf_method = meth, cf_target_ids = pv_target_ids p,
            cf_target_count = pv_target_count p, cf_before = pv_before p, cf_after = pv_after p,
            cf_source = pv_source p, cf_undo_available = pv_undo_available p,
            cf_clears_history = pv_clears_history p,
            cf_history_generation = Option.bind history cs_generation,
            cf_history_revision = (case history of None \<Rightarrow> 0 | Some h \<Rightarrow> cs_history_revision h),
            cf_undo_head_id = Option.bind history cs_undo_head_id,
            cf_expires_at = of_nat (min (t + (deadline - now)) (unat u64_max))\<rparr>))"

end
