(* ===== verification/Review_Run.thy ===== *)
theory Review_Run
  imports Review
begin

text \<open>
  The authorization of an MCP write in time: the reading of the scene and of snapshots under the
  deadlines, the check of the operation, and the rounds of showing and reading again until the permit
  is given. A round is one confirmation on the screen.
\<close>

section \<open>Asking the engine\<close>

text \<open>
  An answer comes with the connection test and the catalog after it. When the answers run out the
  request in hand never comes back before a deadline, and \<open>late\<close> is which of the two deadlines cuts it off. The
  first component is what was asked; \<open>None\<close> is that a computation of the program never ends.
\<close>

record engine_answer =
  en_answer :: "backend_error + json"
  en_current :: bool
  en_catalog :: mcp_tool_catalog

type_synonym asked = "(string \<times> json_map) list"

type_synonym 'a asking = "engine_answer list \<Rightarrow> asked \<times> (review_error + 'a) option \<times> engine_answer list"

definition ask_done :: "(review_error + 'a) option \<Rightarrow> 'a asking" where
  "ask_done r answers = ([], r, answers)"

fun ask_bind :: "'a asking \<Rightarrow> ('a \<Rightarrow> 'b asking) \<Rightarrow> 'b asking" where
  "ask_bind m f answers =
     (case m answers of
       (qs, None, rest) \<Rightarrow> (qs, None, rest)
     | (qs, Some (Inl e), rest) \<Rightarrow> (qs, Some (Inl e), rest)
     | (qs, Some (Inr x), rest) \<Rightarrow> (case f x rest of (qs', r, rest') \<Rightarrow> (qs @ qs', r, rest')))"

abbreviation ask_try :: "review_error + 'a \<Rightarrow> 'a asking" where
  "ask_try r \<equiv> ask_done (Some r)"

definition ask :: "review_error \<Rightarrow> string \<Rightarrow> json_map \<Rightarrow> engine_answer asking" where
  "ask late meth params answers =
     ([(meth, params)],
      (case answers of [] \<Rightarrow> Some (Inl late) | a # rest \<Rightarrow> Some (Inr a)),
      tl answers)"

text \<open>A check with a budget or an index, whose change is kept only when it succeeds.\<close>

definition checked :: "(scope_error + unit) \<times> 'a \<Rightarrow> review_error + 'a" where
  "checked c = bind_r (map_err Scope_refused (fst c)) (\<lambda>_. Inr (snd c))"

section \<open>Reading the scene\<close>

definition tree_bytes :: "(json \<Rightarrow> nat option) \<Rightarrow> json \<Rightarrow> scope_error + nat" where
  "tree_bytes to_vec_len v = ok_or TreeMalformed (to_vec_len v)"

definition snapshot_bytes :: "(json \<Rightarrow> nat option) \<Rightarrow> json \<Rightarrow> scope_error + nat" where
  "snapshot_bytes to_vec_len v = ok_or ComponentMembershipUnknown (to_vec_len v)"

definition resolve_scene_scope ::
  "(json \<Rightarrow> nat option) \<Rightarrow> review_error \<Rightarrow> u64 \<Rightarrow> string option \<Rightarrow> mcp_tool_catalog
    \<Rightarrow> (mcp_scene_scope_index \<times> mcp_scope_budget \<times> json \<times> mcp_tool_catalog) asking" where
  "resolve_scene_scope W late generation scene_root_id catalog =
     ask_bind (ask_try (if has_capabilities generation [''scene.query''] catalog then Inr ()
                        else Inl Scene_query_missing)) (\<lambda>_.
     ask_bind (ask late ''scene.getTree'' []) (\<lambda>a.
     ask_try (
       bind_r (map_err (\<lambda>e. Tree_unavailable (engine_error_as_data e)) (en_answer a)) (\<lambda>result.
       bind_r (map_err Scope_refused (tree_bytes W result)) (\<lambda>n.
       bind_r (map_err Scope_refused (budget_new n)) (\<lambda>budget.
         case from_result result scene_root_id budget of (r, budget1) \<Rightarrow>
           bind_r (map_err Scope_refused r) (\<lambda>index.
             if en_current a then Inr (index, budget1, result, en_catalog a)
             else Inl Replaced_while_checking)))))))"

text \<open>The components whose owner has to be found before the check can be made.\<close>

fun component_targets :: "mcp_scene_scope_index \<Rightarrow> mcp_write_operation \<Rightarrow> string list" where
  "component_targets index (Property i) = (if contains_node index i then [] else [i])"
| "component_targets index (ComponentRemove i) = [i]"
| "component_targets index (Op_history a) =
     List.map_filter (\<lambda>(position, r). case r of
         SetProperty i n v w \<Rightarrow>
           if \<not> contains_node index i \<and> \<not> recreates_before position i a then Some i else None
       | _ \<Rightarrow> None)
       (enumerate 0 (mh_records a))"
| "component_targets index _ = []"

definition object_params :: "string \<Rightarrow> json_map" where
  "object_params i = [(''objectId'', JString i)]"

text \<open>One snapshot: its request is counted before it is sent and its bytes after the answer.\<close>

definition take_snapshot ::
  "(json \<Rightarrow> nat option) \<Rightarrow> review_error \<Rightarrow> (engine_report \<Rightarrow> review_error) \<Rightarrow> review_error \<Rightarrow> string
    \<Rightarrow> mcp_scope_budget \<Rightarrow> (object_snapshot \<times> json \<times> mcp_scope_budget \<times> mcp_tool_catalog) asking" where
  "take_snapshot W late unavailable malformed i budget =
     ask_bind (ask_try (checked (begin_snapshot budget))) (\<lambda>budget1.
     ask_bind (ask late ''object.getSnapshot'' (object_params i)) (\<lambda>a.
     ask_try (
       bind_r (map_err (\<lambda>e. unavailable (engine_error_as_data e)) (en_answer a)) (\<lambda>result.
       bind_r (map_err Scope_refused (snapshot_bytes W result)) (\<lambda>n.
       bind_r (checked (add_bytes n budget1)) (\<lambda>budget2.
       bind_r (map_err (\<lambda>_. malformed) (parse_object_snapshot_result result)) (\<lambda>snapshot.
         Inr (snapshot, result, budget2, en_catalog a))))))))"

fun owner_snapshots ::
  "(json \<Rightarrow> nat option) \<Rightarrow> review_error \<Rightarrow> string list \<Rightarrow> mcp_scene_scope_index \<Rightarrow> mcp_scope_budget
    \<Rightarrow> mcp_tool_catalog
    \<Rightarrow> (json list \<times> mcp_scene_scope_index \<times> mcp_scope_budget \<times> mcp_tool_catalog) asking" where
  "owner_snapshots W late [] index budget catalog = ask_try (Inr ([], index, budget, catalog))"
| "owner_snapshots W late (owner # owners) index budget catalog =
     ask_bind (take_snapshot W late Owner_unavailable Owner_malformed owner budget)
       (\<lambda>(snapshot, result, budget1, catalog1).
     ask_bind (ask_try (checked (record_component_snapshot owner snapshot index))) (\<lambda>index1.
     ask_bind (owner_snapshots W late owners index1 budget1 catalog1)
       (\<lambda>(results, index2, budget2, catalog2).
       ask_try (Inr (result # results, index2, budget2, catalog2)))))"

definition resolve_component_targets ::
  "(json \<Rightarrow> nat option) \<Rightarrow> review_error \<Rightarrow> u64 \<Rightarrow> mcp_scene_scope_index \<Rightarrow> mcp_scope_budget
    \<Rightarrow> mcp_write_operation \<Rightarrow> mcp_tool_catalog
    \<Rightarrow> (json list \<times> mcp_scene_scope_index \<times> mcp_scope_budget \<times> mcp_tool_catalog) asking" where
  "resolve_component_targets W late generation index budget operation catalog =
     (let targets = remdups_adj (sort (component_targets index operation))
      in if targets = [] then ask_try (Inr ([], index, budget, catalog))
         else
           ask_bind (ask_try (if has_capabilities generation [''object.query''] catalog then Inr ()
                              else Inl Owner_query_missing)) (\<lambda>_.
           ask_bind (owner_snapshots W late (scene_object_ids index) index budget catalog)
             (\<lambda>(results, index1, budget1, catalog1).
             ask_try (if list_all (contains_component index1) targets
                      then Inr (results, index1, budget1, catalog1)
                      else Inl Owner_unknown))))"

definition read_confirmation_snapshot ::
  "(json \<Rightarrow> nat option) \<Rightarrow> review_error \<Rightarrow> u64 \<Rightarrow> string \<Rightarrow> mcp_scope_budget \<Rightarrow> mcp_tool_catalog
    \<Rightarrow> (json \<times> mcp_scope_budget \<times> mcp_tool_catalog) asking" where
  "read_confirmation_snapshot W late generation i budget catalog =
     ask_bind (ask_try (if has_capabilities generation [''object.query''] catalog then Inr ()
                        else Inl Snapshot_query_missing)) (\<lambda>_.
     ask_bind (take_snapshot W late Snapshot_unavailable Snapshot_malformed i budget)
       (\<lambda>(snapshot, result, budget1, catalog1).
       ask_try (if os_object_id snapshot = i then Inr (result, budget1, catalog1)
                else Inl Snapshot_of_other)))"

fun read_snapshots ::
  "(json \<Rightarrow> nat option) \<Rightarrow> review_error \<Rightarrow> u64 \<Rightarrow> string list \<Rightarrow> mcp_scope_budget \<Rightarrow> mcp_tool_catalog
    \<Rightarrow> (json list) asking" where
  "read_snapshots W late generation [] budget catalog = ask_try (Inr [])"
| "read_snapshots W late generation (i # ids) budget catalog =
     ask_bind (read_confirmation_snapshot W late generation i budget catalog) (\<lambda>(result, budget1, catalog1).
     ask_bind (read_snapshots W late generation ids budget1 catalog1) (\<lambda>results.
       ask_try (Inr (result # results))))"

fun confirmation_snapshot_id :: "mcp_write_operation \<Rightarrow> string option" where
  "confirmation_snapshot_id (Property i) = Some i"
| "confirmation_snapshot_id (ComponentRemove i) = Some i"
| "confirmation_snapshot_id _ = None"

text \<open>The objects of a history action whose present values are read: those that it does not create before.\<close>

fun history_snapshot_ids :: "mcp_write_operation \<Rightarrow> string list" where
  "history_snapshot_ids (Op_history a) =
     remdups_adj (sort (List.map_filter (\<lambda>(position, r). case r of
         SetProperty i n v w \<Rightarrow> if \<not> recreates_before position i a then Some i else None
       | _ \<Rightarrow> None)
       (enumerate 0 (mh_records a))))"
| "history_snapshot_ids _ = []"

text \<open>The block that runs under the deadlines: the tree, and the values that were read.\<close>

definition resolution ::
  "(json \<Rightarrow> nat option) \<Rightarrow> review_error \<Rightarrow> u64 \<Rightarrow> string option \<Rightarrow> mcp_write_operation \<Rightarrow> bool
    \<Rightarrow> mcp_tool_catalog \<Rightarrow> (json \<times> json list) asking" where
  "resolution W late generation scene_root_id operation show_confirmation catalog =
     ask_bind (resolve_scene_scope W late generation scene_root_id catalog)
       (\<lambda>(index, budget, tree, catalog1).
     ask_bind (resolve_component_targets W late generation index budget operation catalog1)
       (\<lambda>(owners, index1, budget1, catalog2).
     ask_bind (ask_done (map_option (map_err Scope_refused) (check_operation index1 operation))) (\<lambda>_.
     ask_bind (read_snapshots W late generation
         ((case confirmation_snapshot_id operation of
             Some i \<Rightarrow> if show_confirmation then [i] else []
           | None \<Rightarrow> []) @ history_snapshot_ids operation) budget1 catalog2) (\<lambda>snapshots.
       ask_try (Inr (tree, tree # owners @ snapshots))))))"

section \<open>A review\<close>

text \<open>
  What the making of a review meets: the authorization when the policy is read, when it is checked and
  at the end, with the clock; the catalog when the generation is read, after the session was pinned and
  before the tree is asked for; the answers and the deadline that cuts off the last request; the
  connection after the reading; and the head of the undo history, when the caller shows it.
\<close>

record review_env =
  ve_policy_auth :: mcp_authorization
  ve_start_auth :: mcp_authorization
  ve_start_now :: nat
  ve_catalog :: mcp_tool_catalog
  ve_pin :: "backend_error + u64"
  ve_catalog_pinned :: mcp_tool_catalog
  ve_catalog_asking :: mcp_tool_catalog
  ve_answers :: "engine_answer list"
  ve_late :: bool
  ve_current :: bool
  ve_end_auth :: mcp_authorization
  ve_end_now :: nat
  ve_history :: "history_confirmation_snapshot option"

fun is_property :: "mcp_write_operation \<Rightarrow> bool" where
  "is_property (Property i) = True"
| "is_property _ = False"

definition late_error :: "review_env \<Rightarrow> review_error" where
  "late_error env = (if ve_late env then Request_deadline else Scope_refused DeadlineExceeded)"

definition review_start ::
  "review_env \<Rightarrow> mcp_request_lease \<Rightarrow> mcp_write_operation \<Rightarrow> review_error + (mcp_write_policy_snapshot \<times> u64)" where
  "review_start env lease operation =
     (let policy = write_policy_snapshot (ve_policy_auth env)
      in bind_r (map_err Scope_refused
           (check_write_preflight (ve_start_now env) lease policy (ve_start_auth env))) (\<lambda>_.
         bind_r (ok_or No_connection (current_generation (ve_catalog env))) (\<lambda>generation.
         bind_r (map_err No_session (ve_pin env)) (\<lambda>pinned.
           if pinned \<noteq> generation then Inl Session_replaced
           else if \<not> has_capabilities generation (required_capabilities operation) (ve_catalog_pinned env)
             then Inl Capability_missing
           else Inr (policy, generation)))))"

definition review_end ::
  "(json \<Rightarrow> nat option) \<Rightarrow> review_env \<Rightarrow> mcp_request_lease \<Rightarrow> string \<Rightarrow> json \<Rightarrow> mcp_write_operation
    \<Rightarrow> mcp_write_policy_snapshot \<Rightarrow> u64 \<Rightarrow> json option \<Rightarrow> json list \<Rightarrow> review_error + authorization_review" where
  "review_end W env lease meth params operation policy generation tree values =
     (if \<not> ve_current env then Inl Replaced_while_checking
      else
        bind_r (map_err Scope_refused
          (check_write_preflight (ve_end_now env) lease policy (ve_end_auth env))) (\<lambda>_.
        bind_r (make_confirmation_preview W operation meth params tree values) (\<lambda>preview.
          Inr \<lparr>rv_policy = policy, rv_generation = generation, rv_operation = operation,
               rv_scope_values = values, rv_preview = preview, rv_history_snapshot = ve_history env,
               rv_method = meth, rv_params = params\<rparr>)))"

definition resolve_authorization_review ::
  "(json \<Rightarrow> nat option) \<Rightarrow> review_env \<Rightarrow> mcp_request_lease \<Rightarrow> string \<Rightarrow> json \<Rightarrow> mcp_write_operation \<Rightarrow> bool
    \<Rightarrow> asked \<times> (review_error + authorization_review) option" where
  "resolve_authorization_review W env lease meth params operation confirm =
     (case review_start env lease operation of
       Inl e \<Rightarrow> ([], Some (Inl e))
     | Inr (policy, generation) \<Rightarrow>
         (let show_confirmation =
            (confirm \<or> is_property operation \<or> ws_mode (ps_settings policy) = Confirm)
          in if operation \<noteq> RuntimeControl \<or> ws_scene_root_id (ps_settings policy) \<noteq> None
             then (case resolution W (late_error env) generation (ws_scene_root_id (ps_settings policy))
                          operation show_confirmation (ve_catalog_asking env) (ve_answers env) of
                 (asked, None, _) \<Rightarrow> (asked, None)
               | (asked, Some (Inl e), _) \<Rightarrow> (asked, Some (Inl e))
               | (asked, Some (Inr (tree, values)), _) \<Rightarrow>
                   (asked, Some (review_end W env lease meth params operation policy generation (Some tree) values)))
             else ([], Some (review_end W env lease meth params operation policy generation None []))))"

section \<open>Rounds of confirmation\<close>

text \<open>
  What one round meets: the lease test before it, the two clock readings of the deadline and those of the request,
  what the screen answers, the authorization when a cancellation is examined, the head of the undo history
  afterwards, the second reading of the scene, and the authorization when the permit is issued and validated.
\<close>

record round_env =
  rd_auth :: mcp_authorization
  rd_now :: nat
  rd_deadline_now :: nat
  rd_deadline_later :: nat
  rd_request_now :: nat
  rd_unix :: "nat option"
  rd_result :: confirmation_result
  rd_cancel_auth :: mcp_authorization
  rd_head :: "mcp_history_action option"
  rd_review :: review_env
  rd_issue_auth :: mcp_authorization
  rd_issue_now :: nat
  rd_validate_auth :: mcp_authorization
  rd_validate_now :: nat

text \<open>What the screen's answer other than an approval makes of the request.\<close>

definition screen_refusal :: "confirmation_result \<Rightarrow> mcp_request_lease \<Rightarrow> mcp_authorization \<Rightarrow> review_error + unit" where
  "screen_refusal result lease a =
     (case result of
       Approved \<Rightarrow> Inr ()
     | Rejected \<Rightarrow> Inl Rejected_on_screen
     | TimedOut \<Rightarrow> Inl Confirmation_late
     | Confirmation_cancelled \<Rightarrow>
         if \<not> is_authorization_current lease a then Inl Permission_changed else Inl Request_ended
     | GenerationChanged \<Rightarrow> Inl Bridge_replaced
     | Unavailable \<Rightarrow> Inl Screen_unavailable)"

definition show_request ::
  "(json \<Rightarrow> nat option) \<Rightarrow> round_env \<Rightarrow> mcp_request_lease \<Rightarrow> string \<Rightarrow> string \<Rightarrow> authorization_review
    \<Rightarrow> review_error + mcp_confirmation_request" where
  "show_request W rd lease tool_name meth review =
     (if \<not> lease_is_current (rd_now rd) lease (rd_auth rd) then Inl Lease_lost
      else
        bind_r (ok_or Request_deadline
          (confirmation_deadline (rd_deadline_now rd) (rd_deadline_later rd) lease)) (\<lambda>deadline.
          confirmation_request W tool_name meth deadline (rd_request_now rd) (rd_unix rd) (rv_preview review)
            (rv_history_snapshot review)))"

text \<open>The permit for the review, issued by \<open>issue\<close> and validated at once.\<close>

definition issue_for ::
  "(mcp_request_lease \<Rightarrow> mcp_write_policy_snapshot \<Rightarrow> u64 \<Rightarrow> mcp_write_operation \<Rightarrow> scope_error + mcp_write_permit)
    \<Rightarrow> nat \<Rightarrow> mcp_authorization \<Rightarrow> mcp_request_lease \<Rightarrow> authorization_review \<Rightarrow> review_error + reviewed_permit" where
  "issue_for issue now a lease review =
     bind_r (map_err Scope_refused (issue lease (rv_policy review) (rv_generation review) (rv_operation review)))
       (\<lambda>permit.
     bind_r (map_err Scope_refused
         (validate_write_permit now permit lease (rv_generation review) (rv_operation review) a)) (\<lambda>_.
       Inr (with_review review permit)))"

text \<open>The operation whose review is read again after the approval, and whether confirmation is asked for it by name.\<close>

definition operation_after ::
  "bool \<Rightarrow> bool \<Rightarrow> round_env \<Rightarrow> authorization_review \<Rightarrow> review_error + (mcp_write_operation \<times> bool \<times> bool)" where
  "operation_after has_history confirm rd review =
     (if \<not> has_history then Inr (rv_operation review, confirm, True)
      else
        (case rd_head rd of
          None \<Rightarrow> Inl History_not_readable
        | Some a \<Rightarrow>
            if (case rv_operation review of Op_history b \<Rightarrow> action_eq b a | _ \<Rightarrow> False)
            then Inr (rv_operation review, confirm, True)
            else Inr (Op_history a, True, False)))"

text \<open>
  The loop. \<open>may_pass\<close> is false when the head of the history has moved: then the new review is shown, whatever
  it is. The outcome \<open>None\<close> with no rounds left is that the screen has not answered yet.
\<close>

fun confirm_loop ::
  "(json \<Rightarrow> nat option) \<Rightarrow> bool \<Rightarrow> bool \<Rightarrow> mcp_request_lease \<Rightarrow> string \<Rightarrow> string \<Rightarrow> json \<Rightarrow> authorization_review
    \<Rightarrow> round_env list
    \<Rightarrow> mcp_confirmation_request list \<times> asked \<times> (review_error + reviewed_permit) option" where
  "confirm_loop W has_history confirm lease tool_name meth params review [] = ([], [], None)"
| "confirm_loop W has_history confirm lease tool_name meth params review (rd # rounds) =
     (case show_request W rd lease tool_name meth review of
       Inl e \<Rightarrow> ([], [], Some (Inl e))
     | Inr request \<Rightarrow>
         (case bind_r (screen_refusal (rd_result rd) lease (rd_cancel_auth rd)) (\<lambda>_.
                 operation_after has_history confirm rd review) of
           Inl e \<Rightarrow> ([request], [], Some (Inl e))
         | Inr (operation, confirm', may_pass) \<Rightarrow>
             (case resolve_authorization_review W (rd_review rd) lease meth params operation confirm' of
               (asked, None) \<Rightarrow> ([request], asked, None)
             | (asked, Some (Inl e)) \<Rightarrow> ([request], asked, Some (Inl e))
             | (asked, Some (Inr current)) \<Rightarrow>
                 if may_pass \<and> review_eq current review
                 then ([request], asked,
                   Some (issue_for (\<lambda>l s g op. issue_confirmed_write_permit (rd_issue_now rd) l s g op (rd_issue_auth rd))
                     (rd_validate_now rd) (rd_validate_auth rd) lease review))
                 else
                   (case confirm_loop W has_history confirm lease tool_name meth params current rounds of
                     (shown, asked_later, outcome) \<Rightarrow> (request # shown, asked @ asked_later, outcome)))))"

text \<open>
  What the whole call meets: whether there is an authorization at all, the head of the undo history at the
  start for a history call, the first review, the authorization when a permit is given without the screen,
  and the rounds.
\<close>

record authorize_env =
  ae_authorization :: bool
  ae_force_confirmation :: bool
  ae_head :: "mcp_history_action option"
  ae_review :: review_env
  ae_issue_auth :: mcp_authorization
  ae_issue_now :: nat
  ae_validate_auth :: mcp_authorization
  ae_validate_now :: nat
  ae_rounds :: "round_env list"

definition first_operation ::
  "authorize_env \<Rightarrow> bool \<Rightarrow> mcp_write_operation \<Rightarrow> review_error + mcp_write_operation" where
  "first_operation env has_history operation =
     (if \<not> has_history then Inr operation
      else
        (case ae_head env of
          None \<Rightarrow> Inl History_not_readable
        | Some a \<Rightarrow>
            Inr (if (case operation of Op_history b \<Rightarrow> action_eq b a | _ \<Rightarrow> False)
                 then operation else Op_history a)))"

definition authorize_operation_inner ::
  "(json \<Rightarrow> nat option) \<Rightarrow> authorize_env \<Rightarrow> mcp_request_lease \<Rightarrow> string \<Rightarrow> string \<Rightarrow> json
    \<Rightarrow> mcp_write_operation \<Rightarrow> bool
    \<Rightarrow> mcp_confirmation_request list \<times> asked \<times> (review_error + reviewed_permit) option" where
  "authorize_operation_inner W env lease tool_name meth params operation has_history =
     (if \<not> ae_authorization env then ([], [], Some (Inl No_authorization))
      else case first_operation env has_history operation of
        Inl e \<Rightarrow> ([], [], Some (Inl e))
      | Inr op \<Rightarrow>
          (case resolve_authorization_review W (ae_review env) lease meth params op (requires_confirmation op) of
            (asked, None) \<Rightarrow> ([], asked, None)
          | (asked, Some (Inl e)) \<Rightarrow> ([], asked, Some (Inl e))
          | (asked, Some (Inr review)) \<Rightarrow>
              if \<not> (ae_force_confirmation env \<or> ws_mode (ps_settings (rv_policy review)) = Confirm
                     \<or> requires_confirmation op)
              then ([], asked,
                Some (issue_for (\<lambda>l s g op. issue_write_permit (ae_issue_now env) l s g op (ae_issue_auth env))
                  (ae_validate_now env) (ae_validate_auth env) lease review))
              else
                (case confirm_loop W has_history (requires_confirmation op) lease tool_name meth params review
                        (ae_rounds env) of
                  (shown, asked_later, outcome) \<Rightarrow> (shown, asked @ asked_later, outcome))))"

text \<open>The biased \<open>select\<close> around it: the first of the three ends that is ready cuts the call off.\<close>

definition authorize_operation ::
  "(json \<Rightarrow> nat option) \<Rightarrow> authorize_env \<Rightarrow> bool \<Rightarrow> bool \<Rightarrow> bool \<Rightarrow> mcp_request_lease \<Rightarrow> string \<Rightarrow> string
    \<Rightarrow> json \<Rightarrow> mcp_write_operation \<Rightarrow> bool
    \<Rightarrow> mcp_confirmation_request list \<times> asked \<times> (review_error + reviewed_permit) option" where
  "authorize_operation W env revoked cancelled late lease tool_name meth params operation has_history =
     (case authorize_operation_inner W env lease tool_name meth params operation has_history of
       (shown, asked, outcome) \<Rightarrow>
         (shown, asked,
          if revoked then Some (Inl Permission_revoked)
          else if cancelled then Some (Inl Request_withdrawn)
          else if late then Some (Inl Request_deadline)
          else outcome))"

definition authorize_write ::
  "(json \<Rightarrow> nat option) \<Rightarrow> authorize_env \<Rightarrow> bool \<Rightarrow> bool \<Rightarrow> bool \<Rightarrow> mcp_request_lease \<Rightarrow> string \<Rightarrow> json
    \<Rightarrow> mcp_confirmation_request list \<times> asked \<times> (review_error + reviewed_permit) option" where
  "authorize_write W env revoked cancelled late lease meth params =
     (case from_bridge_method meth params of
       Inl e \<Rightarrow> ([], [], Some (Inl (Scope_refused e)))
     | Inr operation \<Rightarrow> authorize_operation W env revoked cancelled late lease meth meth params operation False)"

definition authorize_history ::
  "(json \<Rightarrow> nat option) \<Rightarrow> authorize_env \<Rightarrow> bool \<Rightarrow> bool \<Rightarrow> bool \<Rightarrow> mcp_request_lease \<Rightarrow> mcp_history_action
    \<Rightarrow> mcp_confirmation_request list \<times> asked \<times> (review_error + reviewed_permit) option" where
  "authorize_history W env revoked cancelled late lease a =
     authorize_operation W env revoked cancelled late lease ''edit_undo_redo'' ''edit.history'' JNull (Op_history a) True"

section \<open>The permit at the head of the queue\<close>

text \<open>\<open>Inr False\<close> is that something has changed since the review; the operation then has to be confirmed anew.\<close>

definition revalidate_queued_permit ::
  "(json \<Rightarrow> nat option) \<Rightarrow> bool \<Rightarrow> nat \<Rightarrow> mcp_authorization \<Rightarrow> review_env \<Rightarrow> nat \<Rightarrow> mcp_authorization
    \<Rightarrow> mcp_request_lease \<Rightarrow> reviewed_permit \<Rightarrow> u64 \<Rightarrow> mcp_history_action option
    \<Rightarrow> asked \<times> (review_error + bool) option" where
  "revalidate_queued_permit W has_authorization now a env now' a' lease p generation head =
     (let operation = wp_operation (rp_permit p)
      in case bind_r (if has_authorization then Inr () else Inl No_authorization) (\<lambda>_.
              bind_r (map_err Scope_refused
                (validate_write_permit now (rp_permit p) lease generation operation a)) (\<lambda>_.
                ok_or Review_missing (rp_review p))) of
        Inl e \<Rightarrow> ([], Some (Inl e))
      | Inr review \<Rightarrow>
          if (case operation of
               Op_history expected \<Rightarrow>
                 \<not> (case head of None \<Rightarrow> False | Some b \<Rightarrow> action_eq b expected)
             | _ \<Rightarrow> False)
          then ([], Some (Inr False))
          else
            (case resolve_authorization_review W env lease (rv_method review) (rv_params review) operation
                    (requires_confirmation operation) of
              (asked, None) \<Rightarrow> (asked, None)
            | (asked, Some (Inl e)) \<Rightarrow> (asked, Some (Inl e))
            | (asked, Some (Inr current)) \<Rightarrow>
                (asked, Some (bind_r (map_err Scope_refused
                    (validate_write_permit now' (rp_permit p) lease generation (rv_operation current) a')) (\<lambda>_.
                  Inr (review_eq current review))))))"

end
