(* ===== verification/Review_Laws.thy ===== *)
theory Review_Laws
  imports Review_Run Scope_Laws
begin

text \<open>
  What a permit for an MCP write stands for: the review it carries was shown and approved, a second
  reading of the scene gave the same, and the operation touches nothing outside the allowed part.
\<close>

section \<open>Asking\<close>

lemma ask_done_result [simp]: "ask_done r answers = (qs, r', rest) \<longleftrightarrow> qs = [] \<and> r = r' \<and> rest = answers"
  by (auto simp: ask_done_def)

lemma ask_bind_Inr:
  "ask_bind m f answers = (qs, Some (Inr y), rest) \<longleftrightarrow>
     (\<exists>qs1 x rest1 qs2. m answers = (qs1, Some (Inr x), rest1) \<and> f x rest1 = (qs2, Some (Inr y), rest)
        \<and> qs = qs1 @ qs2)"
  by (auto split: prod.splits option.splits sum.splits)

definition only_reads :: "'a asking \<Rightarrow> bool" where
  "only_reads m \<longleftrightarrow> (\<forall>answers. fst ` set (fst (m answers)) \<subseteq> {''scene.getTree'', ''object.getSnapshot''})"

lemma only_reads_done [simp, intro]: "only_reads (ask_done r)"
  by (simp add: only_reads_def ask_done_def)

lemma only_reads_ask [intro]:
  "meth \<in> {''scene.getTree'', ''object.getSnapshot''} \<Longrightarrow> only_reads (ask late meth params)"
  by (simp add: only_reads_def ask_def)

lemma only_reads_bind [intro]:
  assumes "only_reads m" "\<And>x. only_reads (f x)"
  shows "only_reads (ask_bind m f)"
  unfolding only_reads_def
proof
  fix answers
  obtain qs r rest where m: "m answers = (qs, r, rest)" by (rule prod_cases3)
  have "fst ` set qs \<subseteq> {''scene.getTree'', ''object.getSnapshot''}"
    using assms(1) m unfolding only_reads_def by (metis fst_conv)
  moreover have "fst ` set (fst (f x rest)) \<subseteq> {''scene.getTree'', ''object.getSnapshot''}" for x
    using assms(2) unfolding only_reads_def by blast
  moreover have "fst (ask_bind m f answers) = qs \<or> (\<exists>x. fst (ask_bind m f answers) = qs @ fst (f x rest))"
  proof (cases r)
    case (Some v)
    then show ?thesis using m by (cases v) (auto split: prod.split, metis fst_conv)
  qed (simp add: m)
  ultimately show "fst ` set (fst (ask_bind m f answers)) \<subseteq> {''scene.getTree'', ''object.getSnapshot''}"
    by (metis set_append image_Un Un_subset_iff)
qed

lemma only_reads_take_snapshot [intro]: "only_reads (take_snapshot W late u m i budget)"
  unfolding take_snapshot_def by (intro only_reads_bind only_reads_ask only_reads_done) simp

lemma only_reads_owners [intro]: "only_reads (owner_snapshots W late owners index budget catalog)"
  by (induction owners arbitrary: index budget catalog)
     (auto intro!: only_reads_bind only_reads_done split: prod.splits simp del: ask_bind.simps)

lemma only_reads_confirmation [intro]: "only_reads (read_confirmation_snapshot W late g i budget catalog)"
  unfolding read_confirmation_snapshot_def
  by (auto intro!: only_reads_bind only_reads_done split: prod.splits simp del: ask_bind.simps)

lemma only_reads_snapshots [intro]: "only_reads (read_snapshots W late g ids budget catalog)"
  by (induction ids arbitrary: budget catalog)
     (auto intro!: only_reads_bind only_reads_done split: prod.splits simp del: ask_bind.simps)

lemma only_reads_resolution: "only_reads (resolution W late g scope op show_it catalog)"
  unfolding resolution_def resolve_scene_scope_def resolve_component_targets_def Let_def
  by (auto intro!: only_reads_bind only_reads_done only_reads_ask split: prod.splits simp del: ask_bind.simps)

definition asked_reads :: "asked \<Rightarrow> bool" where
  "asked_reads asked \<longleftrightarrow> fst ` set asked \<subseteq> {''scene.getTree'', ''object.getSnapshot''}"

lemma asked_reads_append [simp]: "asked_reads (xs @ ys) \<longleftrightarrow> asked_reads xs \<and> asked_reads ys" "asked_reads []"
  by (auto simp: asked_reads_def)

lemma review_only_reads:
  "resolve_authorization_review W env lease meth params op confirm = (asked, r) \<Longrightarrow> asked_reads asked"
proof -
  assume a: "resolve_authorization_review W env lease meth params op confirm = (asked, r)"
  have *: "fst ` set qs \<subseteq> {''scene.getTree'', ''object.getSnapshot''}"
    if "resolution W late g scope op show_it catalog answers = (qs, r', rest)" for late g scope show_it catalog answers qs r' rest
    using only_reads_resolution [of W late g scope op show_it catalog] that unfolding only_reads_def by (metis fst_conv)
  from a show ?thesis
    unfolding resolve_authorization_review_def Let_def asked_reads_def
    by (auto split: sum.splits prod.splits option.splits if_splits dest!: *)
qed

section \<open>What the reading establishes\<close>

lemma checked_Inr: "checked c = Inr a \<longleftrightarrow> fst c = Inr () \<and> a = snd c"
  by (cases "fst c") (auto simp: checked_def)

text \<open>The values read for components are the snapshots of their owners, in order.\<close>

definition read_as :: "json list \<Rightarrow> (string \<times> object_snapshot) list \<Rightarrow> bool" where
  "read_as vs ss \<longleftrightarrow> list_all2 (\<lambda>v p. parse_object_snapshot_result v = Inr (snd p)) vs ss"

lemma take_snapshot_parsed:
  "take_snapshot W late u m i budget answers = (qs, Some (Inr (snap, v, b', c')), rest) \<Longrightarrow>
    parse_object_snapshot_result v = Inr snap"
  unfolding take_snapshot_def
  by (auto simp: ask_bind_Inr bind_r_Inr map_err_Inr simp del: ask_bind.simps)

lemma owner_snapshots_index:
  "owner_snapshots W late owners x budget catalog answers = (qs, Some (Inr (vs, y, b', c')), rest) \<Longrightarrow>
    \<exists>ss. y = with_snapshots ss x \<and> read_as vs ss"
proof (induction owners arbitrary: x budget catalog answers qs vs rest)
  case Nil
  then show ?case by (auto intro: exI [of _ "[]"] simp: with_snapshots_def read_as_def)
next
  case (Cons owner owners)
  from Cons.prems obtain snapshot v y1 budget1 catalog1 answers1 qs1 vs1 rest1 where
    y1: "record_component_snapshot owner snapshot x = (Inr (), y1)" "parse_object_snapshot_result v = Inr snapshot"
    and more: "owner_snapshots W late owners y1 budget1 catalog1 answers1 = (qs1, Some (Inr (vs1, y, b', c')), rest1)"
    and vs: "vs = v # vs1"
    by (auto simp: ask_bind_Inr checked_Inr simp del: ask_bind.simps split: prod.splits dest!: take_snapshot_parsed)
      (metis prod.collapse)
  from Cons.IH [OF more] obtain ss where "y = with_snapshots ss y1" "read_as vs1 ss" by blast
  then have "y = with_snapshots ((owner, snapshot) # ss) x" "read_as vs ((owner, snapshot) # ss)"
    using y1 vs by (simp_all add: with_snapshots_def read_as_def)
  then show ?case by blast
qed

lemma component_targets_index:
  "resolve_component_targets W late g x budget op catalog answers = (qs, Some (Inr (vs, y, b', c')), rest) \<Longrightarrow>
    \<exists>ss. y = with_snapshots ss x \<and> read_as vs ss"
proof -
  assume a: "resolve_component_targets W late g x budget op catalog answers = (qs, Some (Inr (vs, y, b', c')), rest)"
  consider "y = x" "vs = []" | owners answers' qs' rest' where
    "owner_snapshots W late owners x budget catalog answers' = (qs', Some (Inr (vs, y, b', c')), rest')"
    using a unfolding resolve_component_targets_def Let_def
    by (auto simp: ask_bind_Inr simp del: ask_bind.simps split: prod.splits if_splits)
  then show ?thesis
  proof cases
    case 1
    then show ?thesis by (intro exI [of _ "[]"]) (simp add: with_snapshots_def read_as_def)
  qed (rule owner_snapshots_index)
qed

lemma scene_scope_index:
  "resolve_scene_scope W late g scope catalog answers = (qs, Some (Inr (x, b', tree, c')), rest) \<Longrightarrow>
    \<exists>b. from_result tree scope b = (Inr x, b')"
  unfolding resolve_scene_scope_def
  by (auto simp: ask_bind_Inr bind_r_Inr map_err_Inr simp del: ask_bind.simps split: prod.splits if_splits)
    (metis surj_pair)

lemma ask_bind_InrE:
  assumes "ask_bind m f answers = (qs, Some (Inr y), rest)"
  obtains qs1 x rest1 qs2 where "m answers = (qs1, Some (Inr x), rest1)" "f x rest1 = (qs2, Some (Inr y), rest)"
  using assms unfolding ask_bind_Inr by blast

lemma resolution_Inr:
  assumes "resolution W late g scope op show_it catalog answers = (qs, Some (Inr (tree, vs)), rest)"
  obtains t sub x0 ss owners more where "parse_scene_tree_result tree = Inr t"
    "index_of t sub (with_snapshots ss x0)" "si_component_owners x0 = []"
    "sn_id sub = (case scope of None \<Rightarrow> sn_id t | Some i \<Rightarrow> i)"
    "check_operation (with_snapshots ss x0) op = Some (Inr ())" "vs = tree # owners @ more" "read_as owners ss"
proof -
  from assms [unfolded resolution_def] obtain q1 s1 r1 q2 where
    s1: "resolve_scene_scope W late g scope catalog answers = (q1, Some (Inr s1), r1)"
    and f1: "(case s1 of (x0, b, tree', c) \<Rightarrow>
        ask_bind (resolve_component_targets W late g x0 b op c) (\<lambda>(owners, x, b1, c1).
        ask_bind (ask_done (map_option (map_err Scope_refused) (check_operation x op))) (\<lambda>_.
        ask_bind (read_snapshots W late g
          ((case confirmation_snapshot_id op of Some i \<Rightarrow> if show_it then [i] else [] | None \<Rightarrow> [])
            @ history_snapshot_ids op) b1 c1) (\<lambda>snapshots.
          ask_try (Inr (tree', tree' # owners @ snapshots)))))) r1 = (q2, Some (Inr (tree, vs)), rest)"
    by (rule ask_bind_InrE)
  obtain x0 b tree' c where t1: "s1 = (x0, b, tree', c)" by (rule prod_cases4)
  from f1 [unfolded t1 prod.case] obtain q3 s2 r2 q4 where
    s2: "resolve_component_targets W late g x0 b op c r1 = (q3, Some (Inr s2), r2)"
    and f2: "(case s2 of (owners, x, b1, c1) \<Rightarrow>
        ask_bind (ask_done (map_option (map_err Scope_refused) (check_operation x op))) (\<lambda>_.
        ask_bind (read_snapshots W late g
          ((case confirmation_snapshot_id op of Some i \<Rightarrow> if show_it then [i] else [] | None \<Rightarrow> [])
            @ history_snapshot_ids op) b1 c1) (\<lambda>snapshots.
          ask_try (Inr (tree', tree' # owners @ snapshots))))) r2 = (q4, Some (Inr (tree, vs)), rest)"
    by (rule ask_bind_InrE)
  obtain owners x b1 c1 where t2: "s2 = (owners, x, b1, c1)" by (rule prod_cases4)
  from f2 have ok: "check_operation x op = Some (Inr ())" and shape: "tree' = tree" "\<exists>more. vs = tree # owners @ more"
    by (auto simp: t2 ask_bind_Inr map_err_Inr simp del: ask_bind.simps)
  obtain b0 where "from_result tree scope b0 = (Inr x0, b)" using scene_scope_index s1 t1 shape(1) by blast
  then obtain t sub where t: "parse_scene_tree_result tree = Inr t" "index_of t sub x0" "si_component_owners x0 = []"
    "sn_id sub = (case scope of None \<Rightarrow> sn_id t | Some i \<Rightarrow> i)"
    using scope_index_exact [of tree scope b0 x0] by blast
  obtain ss where ss: "x = with_snapshots ss x0" "read_as owners ss" using component_targets_index s2 t2 by blast
  have "index_of t sub (with_snapshots ss x0)" using t(2) index_of_snapshots by simp
  then show ?thesis using that t(1,3,4) ok shape(2) ss by blast
qed

section \<open>A review that was made\<close>

lemma review_Inr:
  assumes "resolve_authorization_review W env lease meth params op confirm = (asked, Some (Inr review))"
  obtains (checked) "rv_policy review = write_policy_snapshot (ve_policy_auth env)"
      "check_write_preflight (ve_start_now env) lease (rv_policy review) (ve_start_auth env) = Inr ()"
      "check_write_preflight (ve_end_now env) lease (rv_policy review) (ve_end_auth env) = Inr ()"
      "rv_operation review = op" "rv_method review = meth" "rv_params review = params"
      "\<exists>tree. make_confirmation_preview W op meth params tree (rv_scope_values review) = Inr (rv_preview review)
        \<and> (op \<noteq> RuntimeControl \<or> ws_scene_root_id (ps_settings (rv_policy review)) \<noteq> None \<longrightarrow>
            (\<exists>g late show_it qs rest. resolution W late g (ws_scene_root_id (ps_settings (rv_policy review))) op show_it
              (ve_catalog_asking env) (ve_answers env) = (qs, Some (Inr (the tree, rv_scope_values review)), rest)
              \<and> tree \<noteq> None))"
proof -
  obtain policy g where st: "review_start env lease op = Inr (policy, g)"
    using assms by (auto simp: resolve_authorization_review_def split: sum.splits prod.splits)
  then have policy: "policy = write_policy_snapshot (ve_policy_auth env)"
    "check_write_preflight (ve_start_now env) lease policy (ve_start_auth env) = Inr ()"
    by (auto simp: review_start_def bind_r_Inr map_err_Inr Let_def split: if_splits)
  let ?scope = "ws_scene_root_id (ps_settings policy)"
  let ?needs = "op \<noteq> RuntimeControl \<or> ?scope \<noteq> None"
  obtain tree vs where fin: "review_end W env lease meth params op policy g tree vs = Inr review"
    and res: "?needs \<longrightarrow> (\<exists>late show_it qs rest. resolution W late g ?scope op show_it
              (ve_catalog_asking env) (ve_answers env) = (qs, Some (Inr (the tree, vs)), rest) \<and> tree \<noteq> None)"
  proof (cases ?needs)
    case True
    then obtain late show_it qs tree vs rest where
      "resolution W late g ?scope op show_it (ve_catalog_asking env) (ve_answers env)
        = (qs, Some (Inr (tree, vs)), rest)"
      "review_end W env lease meth params op policy g (Some tree) vs = Inr review"
      using assms st
      by (auto simp: resolve_authorization_review_def Let_def split: prod.splits option.splits sum.splits if_splits)
    then show ?thesis by (intro that [of "Some tree" vs]) auto
  next
    case False
    then have "review_end W env lease meth params op policy g None [] = Inr review"
      using assms st by (auto simp: resolve_authorization_review_def Let_def split: if_splits)
    then show ?thesis using False by (intro that) auto
  qed
  have f: "rv_policy review = policy" "rv_scope_values review = vs" "rv_operation review = op" "rv_method review = meth"
    "rv_params review = params" "check_write_preflight (ve_end_now env) lease policy (ve_end_auth env) = Inr ()"
    "make_confirmation_preview W op meth params tree vs = Inr (rv_preview review)"
    using fin by (auto simp: review_end_def bind_r_Inr map_err_Inr split: if_splits)
  have scope: "ws_scene_root_id (ps_settings (rv_policy review)) = ?scope" using f(1) by simp
  show ?thesis
  proof (rule checked)
    show "\<exists>tree. make_confirmation_preview W op meth params tree (rv_scope_values review) = Inr (rv_preview review)
        \<and> (op \<noteq> RuntimeControl \<or> ws_scene_root_id (ps_settings (rv_policy review)) \<noteq> None \<longrightarrow>
            (\<exists>g late show_it qs rest. resolution W late g (ws_scene_root_id (ps_settings (rv_policy review))) op show_it
              (ve_catalog_asking env) (ve_answers env) = (qs, Some (Inr (the tree, rv_scope_values review)), rest)
              \<and> tree \<noteq> None))"
      unfolding scope f(2) using f(7) res by blast
  qed (simp_all add: f policy [symmetric] flip: policy(1))
qed


lemma review_scope:
  assumes "resolve_authorization_review W env lease meth params op confirm = (asked, Some (Inr review))"
    and "op \<noteq> RuntimeControl \<or> ws_scene_root_id (ps_settings (rv_policy review)) \<noteq> None"
  obtains tree t sub x0 ss owners more where "parse_scene_tree_result tree = Inr t"
    "index_of t sub (with_snapshots ss x0)" "si_component_owners x0 = []"
    "sn_id sub = (case ws_scene_root_id (ps_settings (rv_policy review)) of None \<Rightarrow> sn_id t | Some i \<Rightarrow> i)"
    "check_operation (with_snapshots ss x0) op = Some (Inr ())"
    "rv_scope_values review = tree # owners @ more" "read_as owners ss"
    "make_confirmation_preview W op meth params (Some tree) (rv_scope_values review) = Inr (rv_preview review)"
proof -
  from assms(1) show ?thesis
  proof (cases rule: review_Inr)
    case checked
    then obtain tree g late show_it qs rest where m: "make_confirmation_preview W op meth params (Some tree)
        (rv_scope_values review) = Inr (rv_preview review)"
      and r: "resolution W late g (ws_scene_root_id (ps_settings (rv_policy review))) op show_it
        (ve_catalog_asking env) (ve_answers env) = (qs, Some (Inr (tree, rv_scope_values review)), rest)"
      using assms(2) by (metis option.collapse)
    from r show ?thesis by (rule resolution_Inr) (rule that, (assumption | rule m)+)
  qed
qed


section \<open>What a deletion shows\<close>

lemma shape_node:
  "scene_shape v t \<Longrightarrow> node_id v = Some (sn_id t) \<and> list_all2 scene_shape (node_children v) (sn_children t)"
  by (erule scene_shape.cases) (auto simp: node_id_def node_children_def)

lemma list_all2_concat_map:
  "list_all2 P xs ys \<Longrightarrow> (\<And>x y. x \<in> set xs \<Longrightarrow> y \<in> set ys \<Longrightarrow> P x y \<Longrightarrow> list_all2 Q (f x) (g y)) \<Longrightarrow>
    list_all2 Q (concat (map f xs)) (concat (map g ys))"
  by (induction rule: list_all2_induct) (auto intro!: list_all2_appendI)

lemma shape_nodes: "scene_shape v t \<Longrightarrow> list_all2 scene_shape (tree_nodes v) (subtrees t)"
proof (induction t arbitrary: v)
  case (Scene_node i n k cs)
  then have "list_all2 scene_shape (concat (map tree_nodes (node_children v))) (concat (map subtrees cs))"
    using shape_node [OF Scene_node.prems] Scene_node.IH by (intro list_all2_concat_map [of scene_shape]) auto
  then show ?case using Scene_node.prems by (simp add: tree_nodes.simps [of v])
qed

lemma subtrees_ids: "map sn_id (subtrees t) = tree_ids t"
  by (induction t) (auto simp: map_concat comp_def cong: map_cong)

lemma shape_ids: "scene_shape v t \<Longrightarrow> collect_tree_ids v = tree_ids t"
proof -
  assume "scene_shape v t"
  then have "list_all2 scene_shape (tree_nodes v) (subtrees t)" by (rule shape_nodes)
  then have "List.map_filter node_id (tree_nodes v) = map sn_id (subtrees t)"
    by (induction rule: list_all2_induct) (auto simp: map_filter_simps dest: shape_node)
  then show ?thesis by (simp add: collect_tree_ids_nodes subtrees_ids)
qed

lemma shape_find:
  assumes "scene_shape v t" "i \<in> set (tree_ids t)"
  obtains w s where "find_in_node i v = Some w" "scene_shape w s" "s \<in> set (subtrees t)" "sn_id s = i"
proof -
  have "list_all2 scene_shape (tree_nodes v) (subtrees t)" using assms(1) by (rule shape_nodes)
  moreover have "i \<in> set (map sn_id (subtrees t))" using assms(2) by (simp only: subtrees_ids)
  ultimately have "\<exists>w s. find (\<lambda>n. node_id n = Some i) (tree_nodes v) = Some w \<and> scene_shape w s
      \<and> s \<in> set (subtrees t) \<and> sn_id s = i"
  proof (induction rule: list_all2_induct)
    case (Cons x xs y ys)
    then show ?case using shape_node [OF Cons.hyps(1)] by (cases "sn_id y = i") auto
  qed simp
  then show ?thesis using that by (auto simp: find_in_node_find)
qed

lemma tree_shape:
  "parse_scene_tree_result v = Inr t \<longleftrightarrow> (\<exists>w. jget ''root'' v = Some w \<and> scene_shape w t)"
  by (cases v) (auto simp: scene_tree_matches_schema)

text \<open>C34: The confirmation of a deletion names everything that goes: the subtree of the object as the engine sent it,
  the exact number of its objects, and the first 200 of their ids in order, all of them distinct.\<close>

theorem deletion_is_shown_whole:
  assumes "resolve_authorization_review W env lease meth params (Op_delete i) confirm = (asked, Some (Inr review))"
  shows "\<exists>t s v. parse_scene_tree_result (hd (rv_scope_values review)) = Inr t \<and> s \<in> set (subtrees t) \<and> sn_id s = i
    \<and> pv_before (rv_preview review) = Some v \<and> scene_shape v s \<and> distinct (tree_ids s)
    \<and> pv_target_count (rv_preview review) = length (tree_ids s)
    \<and> pv_target_ids (rv_preview review) = take 200 (sort (tree_ids s)) \<and> pv_clears_history (rv_preview review)"
proof -
  have del: "Op_delete i \<noteq> RuntimeControl \<or> ws_scene_root_id (ps_settings (rv_policy review)) \<noteq> None" by simp
  from assms del obtain tree t sub x0 ss owners more where r: "parse_scene_tree_result tree = Inr t"
    "index_of t sub (with_snapshots ss x0)" "check_operation (with_snapshots ss x0) (Op_delete i) = Some (Inr ())"
    "rv_scope_values review = tree # owners @ more"
    "make_confirmation_preview W (Op_delete i) meth params (Some tree) (rv_scope_values review) = Inr (rv_preview review)"
    by (rule review_scope)
  have "i \<in> si_allowed (with_snapshots ss x0)" using check_delete_iff(2) [OF r(2), of i] r(3) by simp
  then have "i \<in> set (tree_ids t)" using index_allowed_known [OF r(2)] by blast
  moreover obtain w where w: "jget ''root'' tree = Some w" "scene_shape w t" using r(1) tree_shape by blast
  ultimately obtain v s where s: "find_in_node i w = Some v" "scene_shape v s" "s \<in> set (subtrees t)" "sn_id s = i"
    using shape_find by blast
  have dist: "distinct (tree_ids s)" using subtree_ids_distinct [OF s(3)] r(2) by (simp add: index_of_def)
  have "find_tree_node tree i = Some v" using w(1) s(1) by (simp add: find_tree_node_def)
  moreover have "tree_ids s \<noteq> []" using sn_id_in_tree_ids [of s] by (metis empty_iff empty_set)
  ultimately have "rv_preview review = \<lparr>pv_target_ids = take 200 (sort (tree_ids s)),
      pv_target_count = length (tree_ids s), pv_before = Some v, pv_after = None, pv_source = None,
      pv_undo_available = False, pv_clears_history = True\<rparr>"
    using r(5) shape_ids [OF s(2)] dist
    by (auto simp: preview_of_def bind_r_Inr remdups_adj_distinct MAX_CONFIRMATION_TARGETS_def Let_def)
  then show ?thesis using r(1,4) s dist by (intro exI [of _ t] exI [of _ s] exI [of _ v]) simp
qed

end
