(* ===== verification/Review_Permits.thy ===== *)
theory Review_Permits
  imports Review_Laws
begin

text \<open>
  The rounds of confirmation: a permit stands for the review that was shown last and approved, and an
  approval of something that has not changed gives a permit.
\<close>

section \<open>The last round\<close>

lemma issue_for_Inr:
  "issue_for issue now a lease review = Inr p \<longleftrightarrow>
     (\<exists>permit. issue lease (rv_policy review) (rv_generation review) (rv_operation review) = Inr permit
        \<and> validate_write_permit now permit lease (rv_generation review) (rv_operation review) a = Inr ()
        \<and> p = with_review review permit)"
  by (auto simp: issue_for_def bind_r_Inr map_err_Inr)

definition issue_confirmed :: "round_env \<Rightarrow> mcp_request_lease \<Rightarrow> authorization_review \<Rightarrow> review_error + reviewed_permit" where
  "issue_confirmed rd lease review =
     issue_for (\<lambda>l s g op. issue_confirmed_write_permit (rd_issue_now rd) l s g op (rd_issue_auth rd))
       (rd_validate_now rd) (rd_validate_auth rd) lease review"

lemma screen_refusal_Inr [simp]: "screen_refusal result lease a = Inr () \<longleftrightarrow> result = Approved"
  by (cases result) (auto simp: screen_refusal_def)

lemma operation_after_pass:
  "operation_after has_history confirm rd review = Inr (op, confirm', True) \<Longrightarrow>
    op = rv_operation review \<and> confirm' = confirm"
  by (auto simp: operation_after_def split: if_splits option.splits)

lemma confirm_loop_permit:
  "confirm_loop W has_history confirm lease tool_name meth params review rounds = (shown, asked, Some (Inr p)) \<Longrightarrow>
    \<exists>k r fresh asked'. length shown = Suc k \<and> k < length rounds
      \<and> show_request W (rounds ! k) lease tool_name meth r = Inr (last shown)
      \<and> rd_result (rounds ! k) = Approved
      \<and> resolve_authorization_review W (rd_review (rounds ! k)) lease meth params (rv_operation r) confirm
          = (asked', Some (Inr fresh))
      \<and> review_eq fresh r \<and> issue_confirmed (rounds ! k) lease r = Inr p"
proof (induction W has_history confirm lease tool_name meth params review rounds arbitrary: shown asked
    rule: confirm_loop.induct)
  case (2 W has_history confirm lease tool_name meth params review rd rounds)
  obtain request where request: "show_request W rd lease tool_name meth review = Inr request"
    using "2.prems" by (cases "show_request W rd lease tool_name meth review") auto
  obtain op confirm' pass where after: "rd_result rd = Approved"
    "operation_after has_history confirm rd review = Inr (op, confirm', pass)"
    using "2.prems" request
    by (cases "operation_after has_history confirm rd review")
       (auto split: sum.splits prod.splits simp: bind_r_Inr)
  have ok: "bind_r (screen_refusal (rd_result rd) lease (rd_cancel_auth rd)) (\<lambda>_.
      operation_after has_history confirm rd review) = Inr (op, confirm', pass)"
    using after by (simp add: bind_r_Inr)
  obtain asked' fresh where fresh:
    "resolve_authorization_review W (rd_review rd) lease meth params op confirm' = (asked', Some (Inr fresh))"
    using "2.prems" request ok by (auto split: prod.splits option.splits sum.splits)
  show ?case
  proof (cases "pass \<and> review_eq fresh review")
    case True
    then have "shown = [request]" "issue_confirmed rd lease review = Inr p"
      using "2.prems" request ok fresh by (auto simp: issue_confirmed_def)
    then show ?thesis
      using True request after fresh operation_after_pass [of has_history confirm rd review op confirm']
      by (intro exI [of _ 0] exI [of _ review] exI [of _ fresh] exI [of _ asked']) auto
  next
    case False
    then obtain shown' asked2 where rest: "shown = request # shown'"
      "confirm_loop W has_history confirm lease tool_name meth params fresh rounds = (shown', asked2, Some (Inr p))"
      using "2.prems" request ok fresh by (auto split: prod.splits)
    from "2.IH" [OF request ok _ _ fresh [symmetric] _ _ False rest(2)] obtain k r fresh' asked3 where
      "length shown' = Suc k" "k < length rounds" 
      "show_request W (rounds ! k) lease tool_name meth r = Inr (last shown')"
      "rd_result (rounds ! k) = Approved"
      "resolve_authorization_review W (rd_review (rounds ! k)) lease meth params (rv_operation r) confirm
          = (asked3, Some (Inr fresh'))"
      "review_eq fresh' r" "issue_confirmed (rounds ! k) lease r = Inr p" by blast
    then show ?thesis using rest(1)
      by (intro exI [of _ "Suc k"] exI [of _ r] exI [of _ fresh'] exI [of _ asked3]) auto
  qed
qed simp

lemma confirm_loop_reads:
  "confirm_loop W has_history confirm lease tool_name meth params review rounds = (shown, asked, r) \<Longrightarrow>
    asked_reads asked"
proof (induction rounds arbitrary: review shown asked r)
  case (Cons rd rounds)
  then show ?case
    by (simp only: confirm_loop.simps split: sum.splits prod.splits option.splits if_splits)
       (auto dest: review_only_reads Cons.IH)
qed simp

lemma issued_fields:
  "issue_write_permit now lease policy g op a = Inr permit \<Longrightarrow>
    wp_operation permit = op \<and> wp_generation permit = g \<and> wp_policy_revision permit = ps_revision policy
    \<and> \<not> wp_confirmed permit \<and> ws_mode (ps_settings policy) = Enabled \<and> \<not> requires_confirmation op"
  "issue_confirmed_write_permit now lease policy g op a = Inr permit \<Longrightarrow>
    wp_operation permit = op \<and> wp_generation permit = g \<and> wp_policy_revision permit = ps_revision policy
    \<and> wp_confirmed permit"
  by (cases "ws_mode (ps_settings policy)"; auto simp: issue_write_permit_def check_write_request_def bind_r_Inr
      split: if_splits)
    (auto simp: issue_confirmed_write_permit_def bind_r_Inr)

text \<open>C32: A permit is for what the user saw. It carries its review and is for the operation, the connection and the policy of
  that review; to make it the engine was only read. If the screen was not asked, the mode is enabled, no
  confirmation was forced and the operation needs none. Otherwise the last thing shown is this review, it was
  approved, and the scene read again after the approval gives the same review.\<close>

theorem permit_is_for_what_was_shown:
  assumes "authorize_operation W env revoked cancelled late lease tool_name meth params operation has_history
    = (shown, asked, Some (Inr p))"
  shows "\<exists>review. rp_review p = Some review \<and> wp_operation (rp_permit p) = rv_operation review
    \<and> wp_generation (rp_permit p) = rv_generation review
    \<and> wp_policy_revision (rp_permit p) = ps_revision (rv_policy review) \<and> asked_reads asked
    \<and> (if shown = [] then \<not> wp_confirmed (rp_permit p) \<and> \<not> requires_confirmation (rv_operation review)
          \<and> ws_mode (ps_settings (rv_policy review)) = Enabled \<and> \<not> ae_force_confirmation env
        else wp_confirmed (rp_permit p) \<and>
          (\<exists>k fresh asked' confirm. k < length (ae_rounds env) \<and> length shown = Suc k
             \<and> show_request W (ae_rounds env ! k) lease tool_name meth review = Inr (last shown)
             \<and> rd_result (ae_rounds env ! k) = Approved
             \<and> resolve_authorization_review W (rd_review (ae_rounds env ! k)) lease meth params
                 (rv_operation review) confirm = (asked', Some (Inr fresh))
             \<and> review_eq fresh review))"
proof -
  have inner: "authorize_operation_inner W env lease tool_name meth params operation has_history
      = (shown, asked, Some (Inr p))"
    using assms by (auto simp: authorize_operation_def split: prod.splits if_splits)
  then obtain op where op: "first_operation env has_history operation = Inr op" "ae_authorization env"
    by (auto simp: authorize_operation_inner_def split: if_splits sum.splits)
  then obtain asked1 review where first: "resolve_authorization_review W (ae_review env) lease meth params op
      (requires_confirmation op) = (asked1, Some (Inr review))"
    using inner by (auto simp: authorize_operation_inner_def split: prod.splits option.splits sum.splits)
  note reads = review_only_reads [OF first]
  show ?thesis
  proof (cases "ae_force_confirmation env \<or> ws_mode (ps_settings (rv_policy review)) = Confirm \<or> requires_confirmation op")
    case False
    then have direct: "shown = []" "asked = asked1"
      "issue_for (\<lambda>l s g op. issue_write_permit (ae_issue_now env) l s g op (ae_issue_auth env))
         (ae_validate_now env) (ae_validate_auth env) lease review = Inr p"
      using inner op first by (auto simp: authorize_operation_inner_def)
    then obtain permit where permit: "p = with_review review permit"
      "issue_write_permit (ae_issue_now env) lease (rv_policy review) (rv_generation review) (rv_operation review)
        (ae_issue_auth env) = Inr permit" by (auto simp: issue_for_Inr)
    show ?thesis using issued_fields(1) [OF permit(2)] permit(1) direct(1,2) reads False
      by (intro exI [of _ review]) (simp add: with_review_def)
  next
    case True
    then obtain asked2 where loop: "asked = asked1 @ asked2"
      "confirm_loop W has_history (requires_confirmation op) lease tool_name meth params review (ae_rounds env)
        = (shown, asked2, Some (Inr p))"
      using inner op first by (auto simp: authorize_operation_inner_def split: prod.splits)
    from confirm_loop_permit [OF loop(2)] obtain k r fresh asked' where k: "length shown = Suc k"
      "k < length (ae_rounds env)"
      "show_request W (ae_rounds env ! k) lease tool_name meth r = Inr (last shown)"
      "rd_result (ae_rounds env ! k) = Approved"
      "resolve_authorization_review W (rd_review (ae_rounds env ! k)) lease meth params (rv_operation r)
        (requires_confirmation op) = (asked', Some (Inr fresh))"
      "review_eq fresh r" "issue_confirmed (ae_rounds env ! k) lease r = Inr p" by blast
    from k(7) obtain permit now' a' where permit: "p = with_review r permit"
      "issue_confirmed_write_permit now' lease (rv_policy r) (rv_generation r) (rv_operation r) a' = Inr permit"
      by (auto simp: issue_confirmed_def issue_for_Inr)
    have "shown \<noteq> []" using k(1) by auto
    then show ?thesis using issued_fields(2) [OF permit(2)] permit(1) k loop(1) reads confirm_loop_reads [OF loop(2)]
      by (intro exI [of _ r]) (simp add: with_review_def, blast)
  qed
qed

section \<open>Approval of what has not changed\<close>









section \<open>Examples\<close>

text \<open>A policy that asks for confirmation, an engine that answers with one scene, and a user who approves.\<close>

definition play_auth :: "string option \<Rightarrow> mcp_authorization" where
  "play_auth scope = snd (set_write_settings \<lparr>ws_mode = Confirm, ws_scene_root_id = scope\<rparr> authorization_default)"

definition play_lease :: mcp_request_lease where
  "play_lease = \<lparr>rl_revision = 2, rl_request_id = 1, rl_token = 0, rl_deadline = 50\<rparr>"

definition play_catalog :: mcp_tool_catalog where
  "play_catalog = \<lparr>tc_state = \<lparr>ct_generation = Some 7, ct_capabilities = {''runtime.control'', ''scene.edit'',
     ''scene.query''}, ct_permission = Perm_enabled, ct_write_handlers_ready = True\<rparr>, tc_revision = 0\<rparr>"

definition play_env :: "string option \<Rightarrow> json list \<Rightarrow> review_env" where
  "play_env scope answers = \<lparr>ve_policy_auth = play_auth scope, ve_start_auth = play_auth scope, ve_start_now = 0,
     ve_catalog = play_catalog, ve_pin = Inr 7, ve_catalog_pinned = play_catalog, ve_catalog_asking = play_catalog,
     ve_answers = map (\<lambda>v. \<lparr>en_answer = Inr v, en_current = True, en_catalog = play_catalog\<rparr>) answers,
     ve_late = False, ve_current = True, ve_end_auth = play_auth scope, ve_end_now = 0, ve_history = None\<rparr>"

definition play_round :: "string option \<Rightarrow> json list \<Rightarrow> round_env" where
  "play_round scope answers = \<lparr>rd_auth = play_auth scope, rd_now = 1, rd_deadline_now = 1, rd_deadline_later = 1,
     rd_request_now = 1, rd_unix = Some 1000, rd_result = Approved, rd_cancel_auth = play_auth scope, rd_head = None,
     rd_review = play_env scope answers, rd_issue_auth = play_auth scope, rd_issue_now = 2,
     rd_validate_auth = play_auth scope, rd_validate_now = 2\<rparr>"

definition play_authorize :: authorize_env where
  "play_authorize = \<lparr>ae_authorization = True, ae_force_confirmation = False, ae_head = None, ae_review = play_env None [],
     ae_issue_auth = play_auth None, ae_issue_now = 2, ae_validate_auth = play_auth None, ae_validate_now = 2,
     ae_rounds = [play_round None []]\<rparr>"

definition play_size :: "json \<Rightarrow> nat option" where
  "play_size v = Some 0"

lemma play_auth_fields:
  "ma_settings (play_auth None) = \<lparr>ws_mode = Confirm, ws_scene_root_id = None\<rparr>"
  "ma_settings (play_auth (Some ''a'')) = \<lparr>ws_mode = Confirm, ws_scene_root_id = Some ''a''\<rparr>"
  "ma_revision (play_auth None) = 2" "ma_revision (play_auth (Some ''a'')) = 2"
  "ma_cancelled (play_auth None) = {}" "ma_cancelled (play_auth (Some ''a'')) = {}"
  "ma_request_cancelled (play_auth None) = {}" "ma_request_cancelled (play_auth (Some ''a'')) = {}"
  "ma_policy_revision (play_auth None) = 2" "ma_policy_revision (play_auth (Some ''a'')) = 2"
  by (simp_all add: play_auth_def set_write_settings_def change_policy_def settings_validate_def
      authorization_default_def settings_default_def revoke_def revoke_bump_def revoke_sweep_def
      MAX_SCOPE_ROOT_ID_BYTES_def Let_def)

lemmas play_defs = play_lease_def play_catalog_def play_env_def play_round_def play_size_def
  lease_is_current_def is_authorization_current_def auth_is_current_def play_auth_fields write_policy_snapshot_def

lemma play_runs:
  "\<exists>shown p. authorize_operation play_size play_authorize False False False play_lease ''runtime_play'' ''runtime.play''
      (JObject []) RuntimeControl False = (shown, [], Some (Inr p)) \<and> length shown = 1
    \<and> cf_target_ids (hd shown) = [''engine'']"
  by (simp add: authorize_operation_def authorize_operation_inner_def first_operation_def play_authorize_def play_defs
      resolve_authorization_review_def review_start_def review_end_def check_write_preflight_def current_generation_def
      has_capabilities_def preview_of_def values_fit_def show_request_def confirmation_deadline_def
      CONFIRMATION_TIMEOUT_def confirmation_request_def screen_refusal_def operation_after_def review_eq_def
      preview_eq_def json_eq.simps issue_for_def issue_confirmed_write_permit_def with_review_def
      check_write_request_after_confirmation_def validate_write_permit_def Let_def MAX_CONFIRMATION_VALUE_BYTES_def
      MAX_CONFIRMATION_TARGETS_def)





lemma permit_is_for_what_was_shown_witness:
  "\<exists>shown p. authorize_operation play_size play_authorize False False False play_lease ''runtime_play'' ''runtime.play''
      (JObject []) RuntimeControl False = (shown, [], Some (Inr p)) \<and> wp_confirmed (rp_permit p)"
proof -
  obtain shown p where run: "authorize_operation play_size play_authorize False False False play_lease ''runtime_play''
      ''runtime.play'' (JObject []) RuntimeControl False = (shown, [], Some (Inr p))" "length shown = 1"
    using play_runs by blast
  from permit_is_for_what_was_shown [OF run(1)] run(2) have "wp_confirmed (rp_permit p)" by (auto split: if_splits)
  with run(1) show ?thesis by blast
qed

text \<open>The deletion of an object below the scope.\<close>

lemma play_delete:
  "\<exists>review. resolve_authorization_review play_size (play_env (Some ''a'') [scope_scene]) play_lease ''scene.deleteObject''
      (JObject []) (Op_delete ''c'') True = ([(''scene.getTree'', [])], Some (Inr review))
    \<and> ps_settings (rv_policy review) = \<lparr>ws_mode = Confirm, ws_scene_root_id = Some ''a''\<rparr>"
proof -
  obtain b' where made: "from_result scope_scene (Some ''a'') scope_budget = (Inr scope_index, b')"
    using scope_from_result by blast
  have "check_operation scope_index (Op_delete ''c'') = Some (Inr ())"
    by (simp add: check_delete_subtree_def check_object_def check_parent_def parent_of_def contains_node_def
        scope_index_def scope_tree_def node_meta_def delete_loop.simps)
  moreover have "budget_new 0 = Inr scope_budget" by (simp add: budget_new_def scope_budget_def)
  moreover have "find_tree_node scope_scene ''c'' = Some (JObject [(''id'', JString ''c'')])"
    by (simp add: find_tree_node_def scope_scene_def find_in_node.simps node_id_def node_children_def)
  moreover have "collect_tree_ids (JObject [(''id'', JString ''c'')]) = [''c'']"
    by (simp add: collect_tree_ids.simps node_id_def node_children_def)
  ultimately show ?thesis using made
    by (simp add: resolve_authorization_review_def review_start_def review_end_def check_write_preflight_def play_defs
        current_generation_def has_capabilities_def resolution_def resolve_scene_scope_def
        resolve_component_targets_def ask_done_def ask_def tree_bytes_def preview_of_def values_fit_def Let_def
        MAX_CONFIRMATION_TARGETS_def)
qed


lemma deletion_is_shown_whole_witness:
  "\<exists>(review :: authorization_review) v. rv_operation review = Op_delete ''c'' \<and> pv_before (rv_preview review) = Some v
    \<and> pv_clears_history (rv_preview review)"
proof -
  obtain review where r: "resolve_authorization_review play_size (play_env (Some ''a'') [scope_scene]) play_lease
      ''scene.deleteObject'' (JObject []) (Op_delete ''c'') True = ([(''scene.getTree'', [])], Some (Inr review))"
    using play_delete by blast
  then have "rv_operation review = Op_delete ''c''" by (cases rule: review_Inr) simp
  with deletion_is_shown_whole [OF r] show ?thesis by blast
qed

end
