(* ===== verification/Operations.thy ===== *)
theory Operations
  imports Json Edit_Data
begin

text \<open>
  \<open>src-tauri/src/mcp/operations.rs\<close>: the records of the operations MCP clients ask for. The newest
  500 are kept for the screen and appended to a file that is rotated once; a record that the editing
  actor has settled is final. The raw arguments of a call are never kept: of its target there is only
  a keyed hash. Texts for the user are constructors; the hash, the JSON text of a record, the clock
  and the errors of the file system are arguments. A file is the length of its content, \<open>None\<close> if it
  does not exist.
\<close>

section \<open>Records\<close>

definition MAX_RECORDS :: nat where
  "MAX_RECORDS = 500"

definition MAX_BYTES :: nat where
  "MAX_BYTES = 1024 * 1024"

datatype write_outcome =
    Oc_unknown | Oc_rejected | Oc_partial | Oc_applied | Oc_no_change | Oc_not_applied
  | Oc_read_completed | Oc_read_failed

datatype operation_result =
    Rs_success | Rs_partial | Rs_rejected | Rs_unknown | Rs_cancelled | Rs_timed_out | Rs_failed

datatype operation_target =
    Omitted_target string
  | Hashed_target string u64
  | History_head
  | Edit_group_target
  | Engine_target

datatype operation_summary =
    Sm_none | Sm_unknown | Sm_rejected_pending | Sm_pending | Sm_partial | Sm_rejected
  | Sm_not_sent | Sm_read_failed | Sm_no_change | Sm_done

record mcp_operation =
  mo_request_id :: "string \<times> u64"
  mo_session_id :: string
  mo_timestamp :: u64
  mo_tool :: string
  mo_target :: operation_target
  mo_summary :: operation_summary
  mo_result :: operation_result
  mo_outcome :: write_outcome
  mo_display_group_id :: "string option"
  mo_completed_count :: nat
  mo_pending :: bool
  mo_retry_allowed :: bool
  mo_automatic_retry_allowed :: bool
  mo_actor_finished :: bool

record mcp_operations =
  ms_session_id :: string
  ms_revision :: u64
  ms_records :: "mcp_operation list"
  ms_storage_error :: bool

definition known_tools :: "string list" where
  "known_tools = [''object_set_property'', ''scene_create_object'', ''scene_duplicate_object'',
     ''scene_reparent_object'', ''scene_delete_object'', ''component_add'', ''component_remove'',
     ''edit_undo'', ''edit_redo'', ''edit_begin_group'', ''edit_end_group'', ''runtime_play'',
     ''runtime_pause'', ''runtime_stop'', ''engine_get_status'', ''bridge_get_capabilities'',
     ''scene_get_tree_page'', ''object_get_snapshot'', ''schema_get_snapshot'', ''asset_get_manifest'',
     ''asset_resolve'', ''logs_get_recent'', ''viewport_get_thumbnail'']"

definition known_tool :: "string \<Rightarrow> string" where
  "known_tool name = (if name \<in> set known_tools then name else ''unknown_tool'')"

fun summary_text :: "write_outcome \<Rightarrow> bool \<Rightarrow> operation_summary" where
  "summary_text Oc_unknown pending = Sm_unknown"
| "summary_text Oc_rejected True = Sm_rejected_pending"
| "summary_text oc True = Sm_pending"
| "summary_text Oc_partial False = Sm_partial"
| "summary_text Oc_rejected False = Sm_rejected"
| "summary_text Oc_not_applied False = Sm_not_sent"
| "summary_text Oc_read_failed False = Sm_read_failed"
| "summary_text Oc_no_change False = Sm_no_change"
| "summary_text oc False = Sm_done"

text \<open>\<open>late_text\<close> is whether a message contains one of two words about the deadline.\<close>

definition result_kind ::
  "(notice \<Rightarrow> bool) \<Rightarrow> write_outcome \<Rightarrow> backend_error option \<Rightarrow> bool \<Rightarrow> operation_result" where
  "result_kind late_text oc err timed_out =
     (if timed_out \<or> (case err of Some (RequestFailed message) \<Rightarrow> late_text message | _ \<Rightarrow> False) then Rs_timed_out
      else
        (case oc of
          Oc_applied \<Rightarrow> Rs_success
        | Oc_no_change \<Rightarrow> Rs_success
        | Oc_partial \<Rightarrow> Rs_partial
        | Oc_rejected \<Rightarrow> Rs_rejected
        | Oc_unknown \<Rightarrow> Rs_unknown
        | _ \<Rightarrow>
            (case err of
              Some EditCancelled \<Rightarrow> Rs_cancelled
            | Some (RequestFailed message) \<Rightarrow> Rs_rejected
            | Some McpAuthorizationRevoked \<Rightarrow> Rs_rejected
            | _ \<Rightarrow> Rs_failed)))"

section \<open>Files\<close>

text \<open>
  What the file system answers to one append: the error of reading the length, of removing the older
  file, of removing or renaming the present one, of opening it, and how many bytes were written if the
  writing stopped with an error.
\<close>

record append_io =
  ai_metadata_fails :: bool
  ai_remove_previous_fails :: bool
  ai_move_fails :: bool
  ai_open_fails :: bool
  ai_written :: "nat option"

record log_files =
  lf_current :: "nat option"
  lf_rotated :: "nat option"

definition rotate :: "append_io \<Rightarrow> nat \<Rightarrow> log_files \<Rightarrow> bool \<times> log_files" where
  "rotate io old files =
     (if lf_rotated files \<noteq> None \<and> ai_remove_previous_fails io then (False, files)
      else
        (let files1 = files\<lparr>lf_rotated := None\<rparr>
         in if lf_current files = None \<or> ai_move_fails io then (False, files1)
            else if old > MAX_BYTES then (True, files1\<lparr>lf_current := None\<rparr>)
            else (True, files1\<lparr>lf_current := None, lf_rotated := Some old\<rparr>)))"

definition write_line :: "append_io \<Rightarrow> nat \<Rightarrow> log_files \<Rightarrow> bool \<times> log_files" where
  "write_line io n files =
     (if ai_open_fails io then (False, files)
      else
        (let old = (case lf_current files of None \<Rightarrow> 0 | Some k \<Rightarrow> k)
         in case ai_written io of
              None \<Rightarrow> (True, files\<lparr>lf_current := Some (old + n)\<rparr>)
            | Some k \<Rightarrow> (False, files\<lparr>lf_current := Some (old + min k n)\<rparr>)))"

definition append_record ::
  "(mcp_operation \<Rightarrow> nat option) \<Rightarrow> append_io \<Rightarrow> mcp_operation \<Rightarrow> log_files \<Rightarrow> bool \<times> log_files" where
  "append_record to_vec_len io r files =
     (case to_vec_len r of
       None \<Rightarrow> (False, files)
     | Some len \<Rightarrow>
         (let n = len + 1
          in if n > MAX_BYTES then (False, files)
             else if ai_metadata_fails io then (False, files)
             else
               (let old = (case lf_current files of None \<Rightarrow> 0 | Some k \<Rightarrow> k)
                in if old + n > MAX_BYTES
                   then (case rotate io old files of
                       (False, files1) \<Rightarrow> (False, files1)
                     | (True, files1) \<Rightarrow> write_line io n files1)
                   else write_line io n files)))"

section \<open>The store\<close>

record operation_store =
  os_session_id :: string
  os_next_id :: u64
  os_revision :: u64
  os_records :: "mcp_operation list"
  os_directory :: bool
  os_files :: log_files
  os_storage_error :: bool
  os_sink :: bool

text \<open>\<open>opened\<close> is whether the directory could be made and the file opened.\<close>

definition store_new :: "string \<Rightarrow> bool \<Rightarrow> bool \<Rightarrow> log_files \<Rightarrow> operation_store" where
  "store_new session directory opened files =
     \<lparr>os_session_id = session, os_next_id = 1, os_revision = 0, os_records = [],
      os_directory = directory,
      os_files = (if directory \<and> opened \<and> lf_current files = None then files\<lparr>lf_current := Some 0\<rparr> else files),
      os_storage_error = (\<not> directory \<or> \<not> opened), os_sink = False\<rparr>"

definition set_sink :: "operation_store \<Rightarrow> operation_store" where
  "set_sink st = st\<lparr>os_sink := True\<rparr>"

definition store_snapshot_dto :: "operation_store \<Rightarrow> mcp_operations" where
  "store_snapshot_dto st = \<lparr>ms_session_id = os_session_id st, ms_revision = os_revision st,
     ms_records = os_records st, ms_storage_error = os_storage_error st\<rparr>"

text \<open>The first of the target fields that is a string; its text is hashed with the key of this run.\<close>

definition target_keys :: "string list" where
  "target_keys = [''objectId'', ''parentId'', ''newParentId'', ''rootId'', ''logicalPath'']"

fun hashed_target :: "(string \<Rightarrow> u64) \<Rightarrow> json \<Rightarrow> string list \<Rightarrow> operation_target option" where
  "hashed_target hash params [] = None"
| "hashed_target hash params (key # keys) =
     (case Option.bind (jget key params) as_str of
       None \<Rightarrow> hashed_target hash params keys
     | Some v \<Rightarrow> Some (if length v > 512 then Omitted_target key else Hashed_target key (hash v)))"

definition default_target :: "string \<Rightarrow> operation_target" where
  "default_target tool =
     (if tool = ''edit_undo'' \<or> tool = ''edit_redo'' then History_head
      else if tool = ''edit_begin_group'' \<or> tool = ''edit_end_group'' then Edit_group_target
      else Engine_target)"

definition begin_operation ::
  "(string \<Rightarrow> u64) \<Rightarrow> u64 \<Rightarrow> string \<Rightarrow> json \<Rightarrow> operation_store \<Rightarrow> mcp_operation \<times> operation_store" where
  "begin_operation hash now name arguments st =
     (let tool = known_tool name;
          params = (case jget ''params'' arguments of None \<Rightarrow> arguments | Some p \<Rightarrow> p);
          target = (case hashed_target hash params target_keys of None \<Rightarrow> default_target tool | Some t \<Rightarrow> t)
      in (\<lparr>mo_request_id = (os_session_id st, os_next_id st), mo_session_id = os_session_id st,
           mo_timestamp = now, mo_tool = tool, mo_target = target, mo_summary = Sm_none,
           mo_result = Rs_cancelled, mo_outcome = Oc_not_applied, mo_display_group_id = None,
           mo_completed_count = 0, mo_pending = False, mo_retry_allowed = False,
           mo_automatic_retry_allowed = False, mo_actor_finished = False\<rparr>,
          st\<lparr>os_next_id := os_next_id st + 1\<rparr>))"

text \<open>The payload is what the sink is given, after the lock is released.\<close>

definition publish ::
  "(mcp_operation \<Rightarrow> nat option) \<Rightarrow> append_io \<Rightarrow> mcp_operation \<Rightarrow> operation_store
    \<Rightarrow> mcp_operations option \<times> operation_store" where
  "publish to_vec_len io r st =
     (let (saved, files) = (if os_directory st then append_record to_vec_len io r (os_files st)
                            else (False, os_files st));
          kept = filter (\<lambda>old. mo_request_id old \<noteq> mo_request_id r) (os_records st) @ [r];
          st1 = st\<lparr>os_files := files, os_storage_error := \<not> saved,
                  os_records := drop (length kept - MAX_RECORDS) kept,
                  os_revision := os_revision st + 1\<rparr>
      in (if os_sink st1 then Some (store_snapshot_dto st1) else None, st1))"

section \<open>Handles\<close>

record operation_update =
  ou_result :: operation_result
  ou_outcome :: write_outcome
  ou_completed :: nat
  ou_pending :: bool
  ou_retry_allowed :: bool
  ou_actor_finished :: bool

definition handle_group :: "string \<Rightarrow> mcp_operation \<Rightarrow> mcp_operation" where
  "handle_group i r = r\<lparr>mo_display_group_id := Some i\<rparr>"

definition updated_record :: "u64 \<Rightarrow> operation_update \<Rightarrow> mcp_operation \<Rightarrow> mcp_operation" where
  "updated_record now u r =
     r\<lparr>mo_timestamp := now, mo_result := ou_result u, mo_outcome := ou_outcome u,
       mo_completed_count := ou_completed u, mo_pending := ou_pending u,
       mo_retry_allowed := ou_retry_allowed u, mo_actor_finished := ou_actor_finished u,
       mo_summary := summary_text (ou_outcome u) (ou_pending u)\<rparr>"

definition handle_finish ::
  "(mcp_operation \<Rightarrow> nat option) \<Rightarrow> append_io \<Rightarrow> u64 \<Rightarrow> operation_update \<Rightarrow> mcp_operation \<Rightarrow> operation_store
    \<Rightarrow> mcp_operations option \<times> mcp_operation \<times> operation_store" where
  "handle_finish to_vec_len io now u r st =
     (if mo_actor_finished r then (None, r, st)
      else
        (let r1 = updated_record now u r
         in case publish to_vec_len io r1 st of (payload, st1) \<Rightarrow> (payload, r1, st1)))"

text \<open>The end of a read, also when its future is dropped (\<open>Rs_cancelled\<close>).\<close>

definition read_update :: "bool \<Rightarrow> operation_result \<Rightarrow> operation_update" where
  "read_update timed_out r =
     \<lparr>ou_result = (if timed_out then Rs_timed_out else r),
      ou_outcome = (if r = Rs_success then Oc_read_completed else Oc_read_failed),
      ou_completed = 0, ou_pending = False, ou_retry_allowed = False, ou_actor_finished = True\<rparr>"

end
