(* ===== verification/Operations_Laws.thy ===== *)
theory Operations_Laws
  imports Operations
begin

text \<open>
  The records over any run of the store: at most 500, one for each operation, each as its operation
  stands; a settled operation is final; and the two files stay within their bound.
\<close>

section \<open>Runs\<close>

text \<open>The store with the handles of all operations begun so far, in order.\<close>

datatype operation_step =
    Step_begin "string \<Rightarrow> u64" u64 string json
  | Step_group nat string
  | Step_finish nat append_io u64 operation_update
  | Step_sink

fun perform ::
  "(mcp_operation \<Rightarrow> nat option) \<Rightarrow> operation_step \<Rightarrow> mcp_operation list \<times> operation_store
    \<Rightarrow> mcp_operation list \<times> operation_store" where
  "perform W (Step_begin hash now name arguments) (hs, st) =
     (case begin_operation hash now name arguments st of (r, st1) \<Rightarrow> (hs @ [r], st1))"
| "perform W (Step_group k i) (hs, st) =
     (if k < length hs then (hs[k := handle_group i (hs ! k)], st) else (hs, st))"
| "perform W (Step_finish k io now u) (hs, st) =
     (if k < length hs
      then (case handle_finish W io now u (hs ! k) st of (payload, r, st1) \<Rightarrow> (hs[k := r], st1))
      else (hs, st))"
| "perform W Step_sink (hs, st) = (hs, set_sink st)"

definition operation_run ::
  "(mcp_operation \<Rightarrow> nat option) \<Rightarrow> operation_step list \<Rightarrow> mcp_operation list \<times> operation_store
    \<Rightarrow> mcp_operation list \<times> operation_store" where
  "operation_run W steps w = fold (perform W) steps w"

lemma operation_run_Nil [simp]: "operation_run W [] w = w"
  by (simp add: operation_run_def)

lemma operation_run_Cons [simp]: "operation_run W (s # steps) w = operation_run W steps (perform W s w)"
  by (simp add: operation_run_def)

lemma operation_run_snoc: "operation_run W (steps @ [s]) w = perform W s (operation_run W steps w)"
  by (simp add: operation_run_def)

section \<open>Files\<close>

definition files_ok :: "log_files \<Rightarrow> bool" where
  "files_ok f \<longleftrightarrow> pred_option (\<lambda>n. n \<le> MAX_BYTES) (lf_current f) \<and> pred_option (\<lambda>n. n \<le> MAX_BYTES) (lf_rotated f)"

lemma rotate_files:
  "rotate io old f = (ok, f') \<Longrightarrow> lf_current f = Some old \<Longrightarrow>
    pred_option (\<lambda>n. n \<le> MAX_BYTES) (lf_rotated f) \<or> ok \<Longrightarrow>
    pred_option (\<lambda>n. n \<le> MAX_BYTES) (lf_rotated f') \<and> lf_current f' = (if ok then None else lf_current f)"
  by (auto simp: rotate_def Let_def split: if_splits)

lemma append_keeps_files_ok:
  assumes "append_record W io r f = (ok, f')" "files_ok f \<or> ok \<and> pred_option (\<lambda>n. n \<le> MAX_BYTES) (lf_rotated f)"
  shows "files_ok f'"
proof -
  let ?size = "case lf_current f of None \<Rightarrow> 0 | Some k \<Rightarrow> k"
  have line: "files_ok f2" if "write_line io n f1 = (ok2, f2)" "pred_option (\<lambda>n. n \<le> MAX_BYTES) (lf_rotated f1)"
    "(case lf_current f1 of None \<Rightarrow> 0 | Some k \<Rightarrow> k) + n \<le> MAX_BYTES" for f1 f2 n ok2
    using that by (auto simp: write_line_def files_ok_def Let_def split: if_splits option.splits)
  show ?thesis
  proof (cases "W r")
    case (Some len)
    let ?n = "len + 1"
    consider (kept) "f' = f" "\<not> ok" | (append) "?size + ?n \<le> MAX_BYTES" "write_line io ?n f = (ok, f')"
      | (rotate) b f1 where "?n \<le> MAX_BYTES" "?size + ?n > MAX_BYTES" "rotate io ?size f = (b, f1)"
          "(if b then write_line io ?n f1 else (False, f1)) = (ok, f')"
      using assms(1) Some by (auto simp: append_record_def Let_def split: if_splits prod.splits bool.splits)
    then show ?thesis
    proof cases
      case kept
      then show ?thesis using assms(2) by simp
    next
      case append
      then show ?thesis using line [OF append(2)] assms(2) by (auto simp: files_ok_def)
    next
      case (rotate b f1)
      then obtain old where old: "lf_current f = Some old" "?size = old" by (cases "lf_current f") auto
      have "pred_option (\<lambda>n. n \<le> MAX_BYTES) (lf_rotated f)" using assms(2) by (auto simp: files_ok_def)
      then have f1: "pred_option (\<lambda>n. n \<le> MAX_BYTES) (lf_rotated f1) \<and> lf_current f1 = (if b then None else lf_current f)"
        using rotate_files [of io old f b f1] rotate(3) old by simp
      show ?thesis
      proof (cases b)
        case True
        then show ?thesis using line [of ?n f1 ok f'] rotate f1 by simp
      next
        case False
        then show ?thesis using rotate(4) f1 assms(2) old by (auto simp: files_ok_def)
      qed
    qed
  qed (insert assms, simp add: append_record_def files_ok_def)
qed

section \<open>The invariant\<close>

definition same_record :: "mcp_operation \<Rightarrow> mcp_operation \<Rightarrow> bool" where
  "same_record r h \<longleftrightarrow> r = h\<lparr>mo_display_group_id := mo_display_group_id r\<rparr>"

definition store_ok :: "mcp_operation list \<times> operation_store \<Rightarrow> bool" where
  "store_ok w \<longleftrightarrow> (case w of (hs, st) \<Rightarrow>
     map mo_request_id hs = map (\<lambda>k. (os_session_id st, 1 + of_nat k)) [0..<length hs]
     \<and> os_next_id st = 1 + of_nat (length hs)
     \<and> length (os_records st) \<le> MAX_RECORDS \<and> distinct (map mo_request_id (os_records st))
     \<and> list_all (\<lambda>r. list_ex (same_record r) hs) (os_records st))"

lemma store_publish_fields:
  "publish W io r st = (payload, st') \<Longrightarrow>
    os_session_id st' = os_session_id st \<and> os_next_id st' = os_next_id st
    \<and> (let kept = filter (\<lambda>old. mo_request_id old \<noteq> mo_request_id r) (os_records st) @ [r]
       in os_records st' = drop (length kept - MAX_RECORDS) kept)"
  by (auto simp: publish_def Let_def split: prod.splits)

lemma same_record_id: "same_record r h \<Longrightarrow> mo_request_id r = mo_request_id h"
  unfolding same_record_def by (metis mcp_operation.select_convs(1) mcp_operation.surjective mcp_operation.update_convs(9))

lemma same_record_refl [simp]: "same_record r r"
  by (simp add: same_record_def)

lemma same_record_group [simp]: "same_record r (handle_group i h) \<longleftrightarrow> same_record r h"
  by (simp add: same_record_def handle_group_def)

lemma handle_ids_update: "mo_request_id r = mo_request_id (hs ! k) \<Longrightarrow> map mo_request_id (hs[k := r]) = map mo_request_id hs"
  by (metis list_update_beyond list_update_id map_update not_less)

lemma updated_id [simp]: "mo_request_id (updated_record now u r) = mo_request_id r"
  "mo_request_id (handle_group i r) = mo_request_id r"
  by (simp_all add: updated_record_def handle_group_def)

lemma store_ok_finish:
  assumes "store_ok (hs, st)" "k < length hs" "handle_finish W io now u (hs ! k) st = (payload, r, st')"
  shows "store_ok (hs[k := r], st')"
proof (cases "mo_actor_finished (hs ! k)")
  case True
  then show ?thesis using assms by (auto simp: handle_finish_def)
next
  case False
  then have r: "r = updated_record now u (hs ! k)" and p: "publish W io r st = (payload, st')"
    using assms(3) by (auto simp: handle_finish_def Let_def split: prod.splits)
  define kept where "kept = filter (\<lambda>old. mo_request_id old \<noteq> mo_request_id r) (os_records st) @ [r]"
  have recs: "os_records st' = drop (length kept - MAX_RECORDS) kept"
    and frame: "os_session_id st' = os_session_id st" "os_next_id st' = os_next_id st"
    using store_publish_fields [OF p] by (auto simp: kept_def Let_def)
  have "distinct (map mo_request_id kept)"
    using assms(1) by (auto simp: kept_def store_ok_def distinct_map inj_on_def)
  then have "distinct (map mo_request_id (os_records st'))"
    by (simp add: recs drop_map [symmetric])
  moreover have "length (os_records st') \<le> MAX_RECORDS" by (simp add: recs)
  moreover have "list_ex (same_record x) (hs[k := r])" if "x \<in> set kept" for x
  proof (cases "x = r")
    case True
    then show ?thesis using assms(2) by (auto simp: list_ex_iff intro!: bexI [OF _ set_update_memI])
  next
    case False
    then have x: "x \<in> set (os_records st)" "mo_request_id x \<noteq> mo_request_id r" using that by (auto simp: kept_def)
    then obtain h where h: "h \<in> set hs" "same_record x h" using assms(1) by (auto simp: store_ok_def list_all_iff list_ex_iff)
    then have "h \<noteq> hs ! k" using x(2) r same_record_id [of x h] by auto
    then have "h \<in> set (hs[k := r])" using h(1)
      by (metis in_set_conv_nth length_list_update nth_list_update_neq)
    then show ?thesis using h(2) by (auto simp: list_ex_iff)
  qed
  then have "list_all (\<lambda>x. list_ex (same_record x) (hs[k := r])) (os_records st')"
    by (auto simp: recs list_all_iff dest: in_set_dropD)
  moreover have "map mo_request_id (hs[k := r]) = map mo_request_id hs" by (intro handle_ids_update) (simp add: r)
  ultimately show ?thesis using assms(1) frame by (simp add: store_ok_def)
qed

lemma store_ok_begin: "store_ok (hs, st) \<Longrightarrow> begin_operation hash now name args st = (r, st') \<Longrightarrow> store_ok (hs @ [r], st')"
  by (auto simp: begin_operation_def store_ok_def Let_def list_all_iff)

lemma store_ok_group:
  assumes "store_ok (hs, st)" "k < length hs"
  shows "store_ok (hs[k := handle_group i (hs ! k)], st)"
proof -
  have "list_ex (same_record x) (hs[k := handle_group i (hs ! k)])" if "list_ex (same_record x) hs" for x
  proof -
    from that obtain j where "j < length hs" "same_record x (hs ! j)" by (auto simp: list_ex_iff in_set_conv_nth)
    then have "j < length (hs[k := handle_group i (hs ! k)])" "same_record x (hs[k := handle_group i (hs ! k)] ! j)"
      by (cases "j = k"; simp)+
    then show ?thesis unfolding list_ex_iff by (metis nth_mem)
  qed
  moreover have "map mo_request_id (hs[k := handle_group i (hs ! k)]) = map mo_request_id hs"
    by (rule handle_ids_update) simp
  ultimately show ?thesis using assms(1) by (auto simp: store_ok_def list_all_iff)
qed

lemma store_ok_step: "store_ok w \<Longrightarrow> store_ok (perform W s w)"
proof (cases "(W, s, w)" rule: perform.cases)
  case (1 W' hash now name arguments hs st)
  moreover assume "store_ok w"
  ultimately show ?thesis by (auto split: prod.splits intro: store_ok_begin)
next
  case (2 W' k i hs st)
  moreover assume "store_ok w"
  ultimately show ?thesis by (auto intro: store_ok_group)
next
  case (3 W' k io now u hs st)
  moreover assume "store_ok w"
  ultimately show ?thesis by (auto split: prod.splits intro: store_ok_finish)
next
  case (4 W' hs st)
  moreover assume "store_ok w"
  ultimately show ?thesis by (simp add: set_sink_def store_ok_def)
qed

lemma store_ok_run: "store_ok w \<Longrightarrow> store_ok (operation_run W steps w)"
  by (induction steps arbitrary: w) (auto simp: store_ok_step)

lemma store_ok_new: "store_ok ([], store_new session directory opened files)"
  by (simp add: store_ok_def store_new_def)

lemma files_ok_step:
  assumes "files_ok (os_files (snd w))"
  shows "files_ok (os_files (snd (perform W s w)))"
proof (cases "(W, s, w)" rule: perform.cases)
  case (3 W' k io now u hs st)
  have "files_ok (os_files st')" if "publish W io r st = (p, st')" for r p st'
    using that assms 3 append_keeps_files_ok [of W io r "os_files st"]
    by (auto simp: publish_def Let_def split: prod.splits if_splits)
  then show ?thesis using 3 assms
    by (auto simp: handle_finish_def Let_def split: prod.splits)
qed (insert assms, auto simp: begin_operation_def set_sink_def Let_def split: prod.splits)

lemma files_ok_run: "files_ok (os_files (snd w)) \<Longrightarrow> files_ok (os_files (snd (operation_run W steps w)))"
  by (induction steps arbitrary: w) (auto simp: files_ok_step)

text \<open>Whatever operations are begun and settled, in whatever order and whatever the file system answers: the screen has at
  most 500 records, one for an operation and each as that operation stands now, up to its group; and the two
  files stay within one MiB each.\<close>

lemma operation_records_are_current:
  assumes "files_ok files" "operation_run W steps ([], store_new session directory opened files) = (hs, st)"
  shows "length (os_records st) \<le> 500 \<and> distinct (map mo_request_id (os_records st))
    \<and> list_all (\<lambda>r. list_ex (same_record r) hs) (os_records st) \<and> files_ok (os_files st)"
proof -
  have "store_ok (hs, st)" using store_ok_run [OF store_ok_new] assms(2) by metis
  moreover have "files_ok (os_files (store_new session directory opened files))"
    using assms(1) by (auto simp: store_new_def files_ok_def)
  then have "files_ok (os_files st)" using files_ok_run [of "([], store_new session directory opened files)"] assms(2)
    by (metis snd_conv)
  ultimately show ?thesis by (simp add: store_ok_def MAX_RECORDS_def)
qed

text \<open>Two records that differ at most in the group shown.\<close>

lemma settled_step:
  assumes "perform W s (hs, st) = (hs', st')" "k < length hs" "mo_actor_finished (hs ! k)"
  shows "k < length hs' \<and> same_record (hs ! k) (hs' ! k) \<and> mo_actor_finished (hs' ! k)"
proof (cases "(W, s, (hs, st))" rule: perform.cases)
  case (1 W' hash now name arguments hs1 st1)
  then show ?thesis using assms by (auto simp: nth_append split: prod.splits)
next
  case (2 W' j i hs1 st1)
  then show ?thesis using assms
    by (cases "j = k") (auto simp: handle_group_def same_record_def split: if_splits)
next
  case (3 W' j io now u hs1 st1)
  then show ?thesis using assms
    by (cases "j = k") (auto simp: handle_finish_def split: if_splits prod.splits)
next
  case (4 W' hs1 st1)
  then show ?thesis using assms by simp
qed

text \<open>C40: What the editing actor has settled is final: whatever happens afterwards, a cancelled or late answer included, the
  operation keeps its outcome, its result and its counts; at most the group it is shown in is added.\<close>

theorem settled_operation_is_final:
  assumes "operation_run W steps (hs, st) = (hs', st')" "k < length hs" "mo_actor_finished (hs ! k)"
  shows "k < length hs' \<and> mo_actor_finished (hs' ! k) \<and> same_record (hs ! k) (hs' ! k)"
  using assms
proof (induction steps arbitrary: hs st)
  case (Cons s steps)
  obtain hs1 st1 where step: "perform W s (hs, st) = (hs1, st1)" by (cases "perform W s (hs, st)")
  have first: "k < length hs1 \<and> same_record (hs ! k) (hs1 ! k) \<and> mo_actor_finished (hs1 ! k)"
    using settled_step [OF step Cons.prems(2,3)] .
  then have "k < length hs' \<and> mo_actor_finished (hs' ! k) \<and> same_record (hs1 ! k) (hs' ! k)"
    using Cons.IH [of hs1 st1] Cons.prems(1) step by simp
  then show ?case using first unfolding same_record_def
    by (metis (no_types, lifting) mcp_operation.surjective mcp_operation.update_convs(9))
qed (simp)

text \<open>The record of a new operation knows its arguments only through the hash of the target.\<close>

lemma begin_sees_only_the_hash:
  assumes "hashed_target hash (case jget ''params'' a of None \<Rightarrow> a | Some p \<Rightarrow> p) target_keys
    = hashed_target hash (case jget ''params'' b of None \<Rightarrow> b | Some p \<Rightarrow> p) target_keys"
  shows "begin_operation hash now name a st = begin_operation hash now name b st"
  using assms by (simp add: begin_operation_def Let_def)

section \<open>An example\<close>

definition sample_update :: operation_update where
  "sample_update = \<lparr>ou_result = Rs_success, ou_outcome = Oc_applied, ou_completed = 1, ou_pending = False,
     ou_retry_allowed = False, ou_actor_finished = True\<rparr>"

definition good_io :: append_io where
  "good_io = \<lparr>ai_metadata_fails = False, ai_remove_previous_fails = False, ai_move_fails = False,
     ai_open_fails = False, ai_written = None\<rparr>"

definition sample_steps :: "operation_step list" where
  "sample_steps = [Step_begin (\<lambda>_. 5) 0 ''edit_undo'' JNull, Step_finish 0 good_io 1 sample_update]"

definition late_cancel :: operation_step where
  "late_cancel = Step_finish 0 good_io 2 (sample_update\<lparr>ou_result := Rs_cancelled, ou_outcome := Oc_not_applied\<rparr>)"

lemma settled_operation_is_final_witness:
  "mo_outcome (fst (operation_run (\<lambda>_. Some 7) [late_cancel] (operation_run (\<lambda>_. Some 7) sample_steps
     ([], store_new ''s'' True True \<lparr>lf_current = None, lf_rotated = None\<rparr>))) ! 0) = Oc_applied"
proof -
  let ?w = "operation_run (\<lambda>_. Some 7) sample_steps
      ([], store_new ''s'' True True \<lparr>lf_current = None, lf_rotated = None\<rparr>)"
  have made: "length (fst ?w) = 1 \<and> mo_actor_finished (fst ?w ! 0) \<and> mo_outcome (fst ?w ! 0) = Oc_applied"
    by (simp add: sample_steps_def begin_operation_def handle_finish_def updated_record_def sample_update_def
        Let_def split_beta)
  obtain hs st where run: "?w = (hs, st)" by fastforce
  then have run': "0 < length hs" "mo_actor_finished (hs ! 0)" "mo_outcome (hs ! 0) = Oc_applied" using made by auto
  obtain hs' st' where later: "operation_run (\<lambda>_. Some 7) [late_cancel] (hs, st) = (hs', st')" by fastforce
  from settled_operation_is_final [OF later run'(1,2)] have "same_record (hs ! 0) (hs' ! 0)" by blast
  then have "mo_outcome (hs' ! 0) = mo_outcome (hs ! 0)"
    unfolding same_record_def by (metis mcp_operation.select_convs(8) mcp_operation.surjective mcp_operation.update_convs(9))
  then show ?thesis using run run'(3) later by simp
qed

end
