(* ===== verification/Mcp_Execution.thy ===== *)
theory Mcp_Execution
  imports Operations Edit_Ticket Edit_Actions Review_Run
begin

text \<open>
  How far a write of an MCP client has got (\<open>McpExecution\<close> in \<open>edit_service/mcp.rs\<close>, with the sending of a
  tracked request in \<open>bridge_state.rs\<close>): the state is advanced right before a request is sent and when its answer
  has been checked, and the outcome that is reported to the client is read off it. Texts are those of
  a parameter \<open>words\<close>; the answers of the engine are arguments.
\<close>

section \<open>Messages\<close>

datatype mcp_text =
    Review_text review_error
  | Write_not_allowed_text
  | No_prior_text
  | Missing_argument_text string
  | No_value_text
  | Not_object_text
  | Runtime_answer_text
  | Malformed_write_text string payload_error
  | Bad_version_text
  | Bad_method_text string
  | No_lease_text
  | Unavailable_text unavailability
  | Invalid_arguments_text
  | Broken_schema_text
  | No_group_name_text
  | No_group_id_text
  | Unsupported_write_text
  | No_service_text
  | Malformed_capabilities_text

type_synonym wording = "mcp_text \<Rightarrow> string"

definition request_error :: "wording \<Rightarrow> mcp_text \<Rightarrow> backend_error" where
  "request_error words t = RequestFailed (Text (words t))"

section \<open>The state\<close>

text \<open>
  The state: 0 nothing sent yet, 1 sent and not answered, 2 refused, 3 answered, 4 nothing sent any more.
  \<open>ex_queue\<close> is the ticket that was issued, by its number.
\<close>

record mcp_execution =
  ex_state :: nat
  ex_completed :: nat
  ex_queue :: "u64 option"
  ex_operation :: bool
  ex_lease :: "mcp_request_lease option"

definition execution_default :: mcp_execution where
  "execution_default = \<lparr>ex_state = 0, ex_completed = 0, ex_queue = None, ex_operation = False, ex_lease = None\<rparr>"

definition with_operation :: "mcp_request_lease option \<Rightarrow> mcp_execution" where
  "with_operation lease = execution_default\<lparr>ex_operation := True, ex_lease := lease\<rparr>"

definition never_queued :: "mcp_execution \<Rightarrow> bool" where
  "never_queued x \<longleftrightarrow> ex_queue x = None"

definition control_finished :: "mcp_execution \<Rightarrow> mcp_execution" where
  "control_finished x = x\<lparr>ex_state := 3\<rparr>"

definition track_queue :: "u64 \<Rightarrow> mcp_execution \<Rightarrow> mcp_execution" where
  "track_queue ticket x = x\<lparr>ex_queue := Some ticket\<rparr>"

definition not_sent :: "mcp_execution \<Rightarrow> mcp_execution" where
  "not_sent x = x\<lparr>ex_state := 4\<rparr>"

definition mark_started :: "mcp_execution \<Rightarrow> mcp_execution" where
  "mark_started x = x\<lparr>ex_state := 1\<rparr>"

definition mark_rejected :: "mcp_execution \<Rightarrow> mcp_execution" where
  "mark_rejected x = x\<lparr>ex_state := 2\<rparr>"

definition mark_finished :: "json \<Rightarrow> mcp_execution \<Rightarrow> mcp_execution" where
  "mark_finished v x =
     (if accepted v then x\<lparr>ex_completed := ex_completed x + 1, ex_state := 3\<rparr> else mark_rejected x)"

definition is_unknown :: "mcp_execution \<Rightarrow> bool" where
  "is_unknown x \<longleftrightarrow> ex_state x = 1"

text \<open>\<open>tickets\<close> gives the atomic state of a ticket at that moment.\<close>

definition execution_outcome :: "(u64 \<Rightarrow> ticket_state) \<Rightarrow> bool \<Rightarrow> mcp_execution \<Rightarrow> write_outcome" where
  "execution_outcome tickets success x =
     (if ex_state x = 1 then Oc_unknown
      else if ex_state x = 2 then (if ex_completed x = 0 then Oc_rejected else Oc_partial)
      else if ex_state x = 3 then (if success then Oc_applied else Oc_partial)
      else if success then Oc_no_change
      else if ex_state x = 0 \<and> (case ex_queue x of None \<Rightarrow> False | Some t \<Rightarrow> tickets t = Started) then Oc_unknown
      else if ex_state x = 4 \<and> ex_completed x > 0 then Oc_partial
      else Oc_not_applied)"

text \<open>The exchange of 0 for 4 once the actor has come back.\<close>

definition close_execution :: "bool \<Rightarrow> mcp_execution \<Rightarrow> mcp_execution" where
  "close_execution actor_finished x =
     (if actor_finished \<and> ex_state x = 0 then x\<lparr>ex_state := 4\<rparr> else x)"

text \<open>The clock is read for the deadline at \<open>now\<close> and for the lease at \<open>later\<close>.\<close>

definition record_result ::
  "(notice \<Rightarrow> bool) \<Rightarrow> (u64 \<Rightarrow> ticket_state) \<Rightarrow> nat \<Rightarrow> nat \<Rightarrow> mcp_authorization \<Rightarrow> bool \<Rightarrow> backend_error option
    \<Rightarrow> bool \<Rightarrow> edit_history_summary option \<Rightarrow> mcp_execution \<Rightarrow> operation_update option \<times> mcp_execution" where
  "record_result late_text tickets now later a success err actor_finished history x =
     (let x1 = close_execution actor_finished x
      in if \<not> ex_operation x1 then (None, x1)
         else
           (let oc = execution_outcome tickets success x1;
                timed_out = (case ex_lease x1 of None \<Rightarrow> False | Some l \<Rightarrow> now \<ge> rl_deadline l);
                result = result_kind late_text oc err timed_out;
                result' = (if oc = Oc_not_applied \<and> result \<noteq> Rs_timed_out
                     \<and> (case ex_lease x1 of
                          None \<Rightarrow> False
                        | Some l \<Rightarrow> \<not> lease_is_current later l a \<and> is_authorization_current l a)
                   then Rs_cancelled else result)
            in (Some \<lparr>ou_result = result', ou_outcome = oc, ou_completed = ex_completed x1,
                  ou_pending = (case history of None \<Rightarrow> False | Some h \<Rightarrow> hs_pending h),
                  ou_retry_allowed = (case Option.bind history hs_pending_group of
                      None \<Rightarrow> False | Some g \<Rightarrow> ps_retry_allowed g),
                  ou_actor_finished = actor_finished\<rparr>, x1)))"

section \<open>Sending\<close>

definition PROTOCOL_VERSION :: string where
  "PROTOCOL_VERSION = ''0.2''"

definition allocate_request_id :: "u64 \<Rightarrow> correlation_id" where
  "allocate_request_id n = CorrelationId (''req-'' @ nat_dec (unat n))"

definition build_request ::
  "wording \<Rightarrow> correlation_id \<Rightarrow> string \<Rightarrow> json_map option \<Rightarrow> backend_error + validated_envelope" where
  "build_request words i meth params =
     bind_r (map_err (\<lambda>_. request_error words Bad_version_text) (version_try_from PROTOCOL_VERSION)) (\<lambda>version.
     bind_r (map_err (\<lambda>_. request_error words (Bad_method_text meth)) (method_name_try_from meth)) (\<lambda>m.
       Inr (Request version i m params None None)))"

datatype bridge_reply =
    Answered json
  | Engine_refused string string
  | No_answer backend_error

text \<open>The envelope that was sent, if one was.\<close>

definition send_tracked_mcp ::
  "wording \<Rightarrow> u64 \<Rightarrow> string \<Rightarrow> json_map option \<Rightarrow> bridge_reply \<Rightarrow> mcp_execution
    \<Rightarrow> (backend_error + json) \<times> validated_envelope option \<times> mcp_execution" where
  "send_tracked_mcp words n meth params answer x =
     (case build_request words (allocate_request_id n) meth params of
       Inl e \<Rightarrow> (Inl e, None, not_sent x)
     | Inr request \<Rightarrow>
         (let x1 = mark_started x
          in case answer of
               Answered v \<Rightarrow> (Inr v, Some request, x1)
             | Engine_refused err_code message \<Rightarrow>
                 (Inl (EngineFailed err_code message), Some request, mark_rejected x1)
             | No_answer e \<Rightarrow> (Inl e, Some request, x1)))"

definition ok_unit :: "'e + 'a \<Rightarrow> 'e + unit" where
  "ok_unit r = bind_r r (\<lambda>_. Inr ())"

text \<open>The check of a write's answer, method by method.\<close>

definition validate_write_result :: "wording \<Rightarrow> string \<Rightarrow> json \<Rightarrow> backend_error + unit" where
  "validate_write_result words meth v =
     (let parsed = (\<lambda>r. map_err (\<lambda>e. request_error words (Malformed_write_text meth e)) r)
      in if meth = ''scene.createObject'' then parsed (ok_unit (parse_create_object_result v))
         else if meth = ''scene.duplicateObject'' then parsed (ok_unit (parse_duplicate_object_result v))
         else if meth = ''scene.deleteObject'' then parsed (ok_unit (parse_delete_object_result v))
         else if meth = ''scene.reparentObject'' then parsed (ok_unit (parse_reparent_object_result v))
         else if meth = ''object.setProperty'' then parsed (ok_unit (parse_set_property_result v))
         else if meth = ''component.add'' then parsed (ok_unit (parse_component_add_result v))
         else if meth = ''component.remove'' then parsed (ok_unit (parse_component_remove_result v))
         else if Option.bind (jget ''accepted'' v) as_bool \<noteq> None then Inr ()
         else Inl (request_error words Runtime_answer_text))"

text \<open>The action of a single write: the lease is tested last before the request is sent.\<close>

definition run_mcp_edit ::
  "wording \<Rightarrow> bool \<Rightarrow> u64 \<Rightarrow> string \<Rightarrow> json_map \<Rightarrow> bridge_reply \<Rightarrow> history_prior option \<Rightarrow> mcp_execution
    \<Rightarrow> (backend_error + queued_edit_result) \<times> mcp_execution" where
  "run_mcp_edit words lease_current n meth params answer prior x =
     (if \<not> lease_current then (Inl McpAuthorizationRevoked, not_sent x)
      else
        (case send_tracked_mcp words n meth (Some params) answer x of
          (Inl e, _, x1) \<Rightarrow> (Inl e, x1)
        | (Inr v, _, x1) \<Rightarrow>
            (case validate_write_result words meth v of
              Inl e \<Rightarrow> (Inl e, x1)
            | Inr _ \<Rightarrow> (Inr \<lparr>qr_value = v, qr_prior = prior\<rparr>, mark_finished v x1))))"

text \<open>One step of an undo or redo, with its execution.\<close>

definition run_tracked_history_action ::
  "wording \<Rightarrow> u64 \<Rightarrow> history_record \<Rightarrow> history_direction \<Rightarrow> bridge_reply \<Rightarrow> mcp_execution
    \<Rightarrow> (backend_error + json) \<times> mcp_execution" where
  "run_tracked_history_action words n r d answer x =
     (case history_call r d of
       (meth, params, k) \<Rightarrow>
         (case send_tracked_mcp words n meth (Some params) answer x of
           (Inl e, _, x1) \<Rightarrow> (Inl e, x1)
         | (Inr v, _, x1) \<Rightarrow>
             (case validate_history_result meth k v of
               Inl e \<Rightarrow> (Inl e, x1)
             | Inr _ \<Rightarrow> (Inr v, mark_finished v x1))))"

end
