(* ===== verification/Mcp_Execution_Laws.thy ===== *)
theory Mcp_Execution_Laws
  imports Mcp_Execution
begin

text \<open>
  The outcome reported to a client against what the engine may have done: nothing that may have been
  applied is reported as not applied, and what is reported as applied has been confirmed.
\<close>

section \<open>What became of a request\<close>

datatype tracked =
    Tracked_edit bool u64 string json_map bridge_reply "history_prior option"
  | Tracked_step u64 history_record history_direction bridge_reply

datatype fate = Unsent | Confirmed_fate | Refused_fate | Unknown_fate

text \<open>\<open>valid\<close> is whether the answer has the form the method promises.\<close>

definition fate_of :: "bool \<Rightarrow> (json \<Rightarrow> bool) \<Rightarrow> bridge_reply \<Rightarrow> fate" where
  "fate_of sent valid answer =
     (if \<not> sent then Unsent
      else
        (case answer of
          Answered v \<Rightarrow> if \<not> valid v then Unknown_fate else if accepted v then Confirmed_fate else Refused_fate
        | Engine_refused err_code message \<Rightarrow> Refused_fate
        | No_answer e \<Rightarrow> Unknown_fate))"

definition can_send :: "wording \<Rightarrow> string \<Rightarrow> bool" where
  "can_send words meth \<longleftrightarrow> (\<exists>m. method_name_try_from meth = Inr m)"

fun tracked_fate :: "wording \<Rightarrow> tracked \<Rightarrow> fate" where
  "tracked_fate words (Tracked_edit lease_current n meth params answer prior) =
     fate_of (lease_current \<and> can_send words meth) (\<lambda>v. validate_write_result words meth v = Inr ()) answer"
| "tracked_fate words (Tracked_step n r d answer) =
     (case history_call r d of (meth, params, k) \<Rightarrow>
        fate_of (can_send words meth) (\<lambda>v. validate_history_result meth k v = Inr ()) answer)"

fun run_tracked :: "wording \<Rightarrow> tracked \<Rightarrow> mcp_execution \<Rightarrow> (backend_error + json) \<times> mcp_execution" where
  "run_tracked words (Tracked_edit lease_current n meth params answer prior) x =
     (case run_mcp_edit words lease_current n meth params answer prior x of
       (Inl e, x1) \<Rightarrow> (Inl e, x1)
     | (Inr r, x1) \<Rightarrow> (Inr (qr_value r), x1))"
| "run_tracked words (Tracked_step n r d answer) x = run_tracked_history_action words n r d answer x"

text \<open>The requests of one operation: each is sent only when the one before was answered and accepted.\<close>

fun tracked_run ::
  "wording \<Rightarrow> tracked list \<Rightarrow> (backend_error + json) option \<Rightarrow> mcp_execution
    \<Rightarrow> fate list \<times> (backend_error + json) option \<times> mcp_execution" where
  "tracked_run words [] r x = ([], r, x)"
| "tracked_run words (t # ts) r x =
     (case run_tracked words t x of
       (Inl e, x1) \<Rightarrow> ([tracked_fate words t], Some (Inl e), x1)
     | (Inr v, x1) \<Rightarrow>
         if accepted v
         then (case tracked_run words ts (Some (Inr v)) x1 of (fates, r', x2) \<Rightarrow> (tracked_fate words t # fates, r', x2))
         else ([tracked_fate words t], Some (Inr v), x1))"

section \<open>The state follows the fate\<close>

lemma version_ok: "\<exists>v. version_try_from PROTOCOL_VERSION = Inr v"
  by (simp add: PROTOCOL_VERSION_def version_try_from_def is_version_string_def is_ascii_digit_def code_def)

lemma build_request_cases:
  "(\<exists>request. build_request words i meth params = Inr request) \<longleftrightarrow> can_send words meth"
proof -
  obtain v where "version_try_from PROTOCOL_VERSION = Inr v" using version_ok by blast
  then show ?thesis by (cases "method_name_try_from meth") (simp_all add: build_request_def can_send_def)
qed

lemma send_cases:
  "send_tracked_mcp words n meth params answer x =
     (if can_send words meth
      then (case answer of
          Answered v \<Rightarrow> (Inr v, fst (snd (send_tracked_mcp words n meth params answer x)), mark_started x)
        | Engine_refused c m \<Rightarrow>
            (Inl (EngineFailed c m), fst (snd (send_tracked_mcp words n meth params answer x)), mark_rejected (mark_started x))
        | No_answer e \<Rightarrow> (Inl e, fst (snd (send_tracked_mcp words n meth params answer x)), mark_started x))
      else (fst (send_tracked_mcp words n meth params answer x), None, not_sent x))"
  using build_request_cases [of words "allocate_request_id n" meth params]
  by (cases "build_request words (allocate_request_id n) meth params"; cases answer)
     (auto simp: send_tracked_mcp_def Let_def)

text \<open>What a request leaves in the state, by its fate.\<close>

definition state_after :: "fate \<Rightarrow> mcp_execution \<Rightarrow> mcp_execution" where
  "state_after f x =
     (case f of
       Unsent \<Rightarrow> x\<lparr>ex_state := 4\<rparr>
     | Confirmed_fate \<Rightarrow> x\<lparr>ex_state := 3, ex_completed := ex_completed x + 1\<rparr>
     | Refused_fate \<Rightarrow> x\<lparr>ex_state := 2\<rparr>
     | Unknown_fate \<Rightarrow> x\<lparr>ex_state := 1\<rparr>)"

lemmas mark_defs = mark_started_def mark_rejected_def mark_finished_def not_sent_def

lemma run_tracked_fate:
  assumes "run_tracked words t x = (r, x1)"
  shows "x1 = state_after (tracked_fate words t) x
    \<and> (case r of Inl e \<Rightarrow> tracked_fate words t \<noteq> Confirmed_fate
       | Inr v \<Rightarrow> tracked_fate words t = (if accepted v then Confirmed_fate else Refused_fate))"
proof (cases t)
  case (Tracked_edit lease_current n meth params answer prior)
  show ?thesis
  proof (cases "lease_current \<and> can_send words meth")
    case True
    then obtain request where "build_request words (allocate_request_id n) meth (Some params) = Inr request"
      using build_request_cases by blast
    then show ?thesis
      using assms True unfolding Tracked_edit
      by (cases answer; cases "\<exists>v. answer = Answered v \<and> validate_write_result words meth v = Inr ()")
         (auto simp: run_mcp_edit_def send_tracked_mcp_def fate_of_def state_after_def mark_defs Let_def
           split: sum.splits)
  next
    case False
    then have "lease_current \<Longrightarrow> \<exists>e. build_request words (allocate_request_id n) meth (Some params) = Inl e"
      using build_request_cases by (metis sumE)
    then show ?thesis
      using assms False unfolding Tracked_edit
      by (cases lease_current) (auto simp: run_mcp_edit_def send_tracked_mcp_def fate_of_def state_after_def mark_defs)
  qed
next
  case (Tracked_step n h d answer)
  obtain meth params k where call: "history_call h d = (meth, params, k)" by (rule prod_cases3)
  show ?thesis
  proof (cases "can_send words meth")
    case True
    then obtain request where "build_request words (allocate_request_id n) meth (Some params) = Inr request"
      using build_request_cases by blast
    then show ?thesis
      using assms True call unfolding Tracked_step
      by (cases answer; cases "\<exists>v. answer = Answered v \<and> validate_history_result meth k v = Inr ()")
         (auto simp: run_tracked_history_action_def send_tracked_mcp_def fate_of_def state_after_def mark_defs Let_def
           split: sum.splits)
  next
    case False
    then have "\<exists>e. build_request words (allocate_request_id n) meth (Some params) = Inl e"
      using build_request_cases by (metis sumE)
    then show ?thesis
      using assms False call unfolding Tracked_step
      by (auto simp: run_tracked_history_action_def send_tracked_mcp_def fate_of_def state_after_def mark_defs)
  qed
qed

text \<open>All requests but the last were confirmed; the state is that of the last, the count that of the confirmed.\<close>

lemma tracked_run_state:
  assumes "tracked_run words ts r x = (fates, r', x')" "ts \<noteq> []"
  shows "fates \<noteq> [] \<and> list_all (\<lambda>f. f = Confirmed_fate) (butlast fates)
    \<and> ex_state x' = ex_state (state_after (last fates) x)
    \<and> ex_completed x' = ex_completed x + length (filter (\<lambda>f. f = Confirmed_fate) fates)
    \<and> ex_queue x' = ex_queue x \<and> r' \<noteq> None
    \<and> ((\<exists>v. r' = Some (Inr v)) \<longrightarrow> last fates \<in> {Confirmed_fate, Refused_fate})"
  using assms
proof (induction ts arbitrary: r x fates r' x')
  case (Cons t ts)
  obtain q x1 where q: "run_tracked words t x = (q, x1)" by (cases "run_tracked words t x")
  note f = run_tracked_fate [OF q]
  show ?case
  proof (cases "\<exists>v. q = Inr v \<and> accepted v")
    case True
    then obtain v where v: "q = Inr v" "accepted v" by blast
    then have conf: "tracked_fate words t = Confirmed_fate" "x1 = state_after Confirmed_fate x" using f by auto
    obtain fates1 r1 x2 where rest: "tracked_run words ts (Some (Inr v)) x1 = (fates1, r1, x2)" by (rule prod_cases3)
    have out: "fates = Confirmed_fate # fates1" "r' = r1" "x' = x2" using Cons.prems(1) q v rest conf by auto
    show ?thesis
    proof (cases "ts = []")
      case True
      then show ?thesis using rest out conf by (auto simp: state_after_def)
    next
      case False
      note IH = Cons.IH [OF rest False]
      then show ?thesis using out conf by (cases "last fates1") (auto simp: state_after_def)
    qed
  next
    case False
    then have "fates = [tracked_fate words t]" "x' = x1" "r' = Some q"
      using Cons.prems(1) q by (cases q; auto)+
    then show ?thesis using f False
      by (cases q; cases "tracked_fate words t") (auto simp: state_after_def split: if_splits)
  qed
qed simp

text \<open>C39: The outcome a client is told is honest. If the fate of any request of its operation is unknown, the outcome is
  unknown; not applied, rejected and no change are said only if nothing was or may have been applied; partial only
  if something was confirmed and nothing is unknown; applied only if every request was confirmed. The count is the
  number of confirmed requests.\<close>

theorem reported_outcome_is_honest:
  assumes "tracked_run words ts None (with_operation lease) = (fates, r, x)" "ts \<noteq> []"
    and "success \<longrightarrow> (\<exists>v. r = Some (Inr v))"
  shows "ex_completed x = length (filter (\<lambda>f. f = Confirmed_fate) fates)
    \<and> (Unknown_fate \<in> set fates \<longrightarrow> execution_outcome tickets success x = Oc_unknown)
    \<and> (case execution_outcome tickets success (close_execution actor_finished x) of
        Oc_unknown \<Rightarrow> Unknown_fate \<in> set fates
      | Oc_partial \<Rightarrow> Confirmed_fate \<in> set fates \<and> Unknown_fate \<notin> set fates
      | Oc_applied \<Rightarrow> set fates = {Confirmed_fate}
      | _ \<Rightarrow> Confirmed_fate \<notin> set fates \<and> Unknown_fate \<notin> set fates)"
proof -
  have run: "fates \<noteq> []" "list_all (\<lambda>f. f = Confirmed_fate) (butlast fates)"
    "ex_state x = ex_state (state_after (last fates) (with_operation lease))"
    "ex_completed x = length (filter (\<lambda>f. f = Confirmed_fate) fates)"
    "(\<exists>v. r = Some (Inr v)) \<longrightarrow> last fates \<in> {Confirmed_fate, Refused_fate}"
    using tracked_run_state [OF assms(1,2)] by (auto simp: with_operation_def execution_default_def)
  obtain cs f where fates: "fates = cs @ [f]" "list_all (\<lambda>f. f = Confirmed_fate) cs"
    using run(1,2) by (metis append_butlast_last_id)
  then have cs: "filter (\<lambda>f. f = Confirmed_fate) cs = cs" "set cs \<subseteq> {Confirmed_fate}"
    by (auto simp: list_all_iff intro: filter_True)
  have len: "ex_completed x = length cs + (if f = Confirmed_fate then 1 else 0)" using run(4) fates(1) cs(1) by simp
  have out: "execution_outcome tickets success x =
      (case f of Unknown_fate \<Rightarrow> Oc_unknown
       | Refused_fate \<Rightarrow> if cs = [] then Oc_rejected else Oc_partial
       | Confirmed_fate \<Rightarrow> if success then Oc_applied else Oc_partial
       | Unsent \<Rightarrow> if cs = [] then Oc_not_applied else Oc_partial)"
    using run(3,5) len fates(1) assms(3)
    by (cases f) (auto simp: execution_outcome_def state_after_def)
  have closed: "close_execution actor_finished x = x"
    using run(3) fates(1) by (cases f) (auto simp: close_execution_def state_after_def)
  have last: "set fates = insert f (set cs)" using fates(1) by auto
  show ?thesis unfolding closed out run(4) last using cs(2) by (cases f; cases cs) auto
qed

text \<open>An undo of two steps: the first is accepted, the second never answered.\<close>

definition half_undo :: "tracked list" where
  "half_undo = [Tracked_step 1 (SetProperty ''a'' ''p'' JNull JNull) Undo
       (Answered (JObject [(''accepted'', JBool True)])),
     Tracked_step 2 (SetProperty ''b'' ''p'' JNull JNull) Undo (No_answer NotConnected)]"

lemma can_send_set_property: "can_send words ''object.setProperty''"
  by (simp add: can_send_def method_name_try_from_def) code_simp

lemma half_undo_runs:
  "\<exists>r x. tracked_run words half_undo None (with_operation None) = ([Confirmed_fate, Unknown_fate], r, x)"
proof -
  obtain v1 where "build_request words (allocate_request_id 1) ''object.setProperty''
      (Some [(''objectId'', JString ''a''), (''property'', JString ''p''), (''value'', JNull)]) = Inr v1"
    using build_request_cases can_send_set_property by blast
  moreover obtain v2 where "build_request words (allocate_request_id 2) ''object.setProperty''
      (Some [(''objectId'', JString ''b''), (''property'', JString ''p''), (''value'', JNull)]) = Inr v2"
    using build_request_cases can_send_set_property by blast
  moreover have "validate_history_result ''object.setProperty'' RProperty (JObject [(''accepted'', JBool True)]) = Inr ()"
    by (auto simp: validate_history_result_def parse_set_property_result_def object_or_def required_bool_def required_as_def
        required_field_def optional_str_def optional_as_def)
  ultimately show ?thesis
    by (simp add: half_undo_def run_tracked_history_action_def send_tracked_mcp_def fate_of_def can_send_set_property
        accepted_def Let_def)
qed

lemma reported_outcome_is_honest_witness:
  "\<exists>fates r x. tracked_run (\<lambda>_. []) half_undo None (with_operation None) = (fates, r, x)
     \<and> ex_completed x = 1 \<and> execution_outcome (\<lambda>_. Waiting) False x = Oc_unknown"
proof -
  obtain r x where run: "tracked_run (\<lambda>_. []) half_undo None (with_operation None) = ([Confirmed_fate, Unknown_fate], r, x)"
    using half_undo_runs by blast
  have "half_undo \<noteq> []" by (simp add: half_undo_def)
  from reported_outcome_is_honest [OF run this, of False "\<lambda>_. Waiting" False] run show ?thesis by auto
qed

end
