(* ===== verification/Mcp_Edit.thy ===== *)
theory Mcp_Edit
  imports Mcp_Execution Edit_Actor
begin

text \<open>
  How a write of an MCP client reaches the queue of the edit service (\<open>submit_tracked_mcp\<close> and its parts
  in \<open>edit_service/mcp.rs\<close>): the control of an open group, the authorization, the item made of the permit, the
  waiting for its ticket, and the repetition when the head of the queue asks for a new confirmation. What other
  tasks do to the service and the connection between the steps is an argument, as is every answer.
\<close>

section \<open>The history as MCP sees it\<close>

definition current_history ::
  "u64 option \<Rightarrow> history_direction \<Rightarrow> history_state \<Rightarrow> mcp_history_action option \<times> history_state" where
  "current_history generation d s =
     (let s1 = synchronize generation s;
          (head_id, revision) = history_cursor d s1
      in (map_option (\<lambda>a. \<lparr>mh_direction = d, mh_head_id = ha_entry_id a, mh_revision = revision,
              mh_group_name = gm_name (ha_group a), mh_source = gm_source (ha_group a),
              mh_records = map st_record (ha_steps a)\<rparr>)
            (prepare_action \<lparr>ar_direction = d, ar_expected_head_id = head_id, ar_expected_revision = revision\<rparr> s1),
          s1))"

text \<open>The same on the service's own history.\<close>

definition history_action_for_mcp :: "bridge \<Rightarrow> history_direction \<Rightarrow> service \<Rightarrow> mcp_history_action option \<times> service" where
  "history_action_for_mcp b d sv =
     (case current_history (br_generation b) d (sv_history sv) of (a, h) \<Rightarrow> (a, sv\<lparr>sv_history := h\<rparr>))"

section \<open>The item of a permit\<close>

datatype mcp_edit_request =
    Bridge_request string json
  | Grouped_bridge string json string
  | Begin_group_request string
  | End_group_request string
  | History_request history_direction

definition required_string :: "wording \<Rightarrow> json \<Rightarrow> string \<Rightarrow> backend_error + string" where
  "required_string words params key =
     ok_or (request_error words (Missing_argument_text key)) (Option.bind (jget key params) as_str)"

text \<open>What the history records of an operation, and what its event shows when there is no record.\<close>

fun permit_history_request ::
  "wording \<Rightarrow> json \<Rightarrow> history_prior option \<Rightarrow> mcp_write_operation \<Rightarrow> backend_error + history_request option" where
  "permit_history_request words params prior (Property i) =
     (if prior = None then Inl (request_error words No_prior_text)
      else
        bind_r (required_string words params ''property'') (\<lambda>property.
        bind_r (ok_or (request_error words No_value_text) (jget ''value'' params)) (\<lambda>v.
          Inr (Some (SetPropertyTo i property v InAction)))))"
| "permit_history_request words params prior (Op_create p) =
     Inr (Some (CreateObject p (Option.bind (jget ''kind'' params) as_str)))"
| "permit_history_request words params prior (Op_duplicate i p) = Inr (Some (DuplicateObject i p))"
| "permit_history_request words params prior (Op_reparent i p) = Inr (Some (ReparentObject i p InAction))"
| "permit_history_request words params prior (Op_delete i) = Inr (Some (DeleteObject i))"
| "permit_history_request words params prior (ComponentAdd i) = Inr None"
| "permit_history_request words params prior (ComponentRemove i) = Inr None"
| "permit_history_request words params prior RuntimeControl = Inr None"
| "permit_history_request words params prior (Op_history a) = Inl McpAuthorizationRevoked"

fun permit_event_input :: "mcp_write_operation \<Rightarrow> edit_event_input option" where
  "permit_event_input (ComponentAdd i) =
     Some \<lparr>ei_operation = ''componentAdd'', ei_object_id = Some i, ei_property = None, ei_value = None\<rparr>"
| "permit_event_input (ComponentRemove i) =
     Some \<lparr>ei_operation = ''componentRemove'', ei_object_id = Some i, ei_property = None, ei_value = None\<rparr>"
| "permit_event_input _ = None"

text \<open>The write a queued item carries: its method, its parameters and the value before it.\<close>

record carried_write =
  cw_method :: string
  cw_params :: json_map
  cw_prior :: "history_prior option"

definition bridge_context ::
  "wording \<Rightarrow> string \<Rightarrow> json \<Rightarrow> reviewed_permit \<Rightarrow> u64 option
    \<Rightarrow> backend_error + (enqueue_context \<times> queued_action \<times> carried_write option)" where
  "bridge_context words meth params p group_token =
     (let operation = wp_operation (rp_permit p); prior = captured_prior p
      in bind_r (permit_history_request words params prior operation) (\<lambda>history_request.
         bind_r (ok_or (request_error words Not_object_text) (as_object params)) (\<lambda>m.
           Inr (\<lparr>ec_source = Mcp, ec_kind = (if operation = RuntimeControl then KRuntimeControl else KEdit),
                  ec_group_token = group_token, ec_history_request = history_request,
                  ec_event_request = history_request, ec_event_input = permit_event_input operation,
                  ec_auth = True, ec_permit = True\<rparr>,
                A_edit, Some \<lparr>cw_method = meth, cw_params = m, cw_prior = prior\<rparr>))))"

definition history_context ::
  "history_direction \<Rightarrow> reviewed_permit \<Rightarrow> u64 option
    \<Rightarrow> backend_error + (enqueue_context \<times> queued_action \<times> carried_write option)" where
  "history_context d p group_token =
     (case wp_operation (rp_permit p) of
       Op_history a \<Rightarrow>
         Inr (\<lparr>ec_source = Mcp, ec_kind = direction_kind d, ec_group_token = group_token,
                ec_history_request = None, ec_event_request = None, ec_event_input = None,
                ec_auth = True, ec_permit = True\<rparr>,
              A_history \<lparr>ar_direction = d, ar_expected_head_id = Some (mh_head_id a),
                ar_expected_revision = mh_revision a\<rparr>, None)
     | _ \<Rightarrow> Inl McpAuthorizationRevoked)"

text \<open>\<open>None\<close> is the unreachable panic of the source.\<close>

fun confirmed_context ::
  "wording \<Rightarrow> mcp_edit_request \<Rightarrow> reviewed_permit \<Rightarrow> u64 option
    \<Rightarrow> (backend_error + (enqueue_context \<times> queued_action \<times> carried_write option)) option" where
  "confirmed_context words (History_request d) p group_token = Some (history_context d p group_token)"
| "confirmed_context words (Bridge_request meth params) p group_token =
     Some (bridge_context words meth params p group_token)"
| "confirmed_context words (Grouped_bridge meth params g) p group_token =
     Some (bridge_context words meth params p group_token)"
| "confirmed_context words (Begin_group_request name) p group_token = None"
| "confirmed_context words (End_group_request g) p group_token = None"

section \<open>Tickets\<close>

text \<open>What was put into the queue, with the number of its ticket.\<close>

datatype queued =
    Queued_control u64 group_control
  | Queued_write u64 enqueue_context queued_action "carried_write option" reviewed_permit

text \<open>What a call meets when it enters the queue and waits: \<open>None\<close> for the answer is that it still waits.\<close>

record queue_env =
  qe_bridge :: bridge
  qe_service :: service
  qe_answer :: "channel_answer option"
  qe_state :: ticket_state

definition submit_group_control ::
  "bool \<Rightarrow> queue_env \<Rightarrow> group_control \<Rightarrow> queued list \<times> (backend_error + json) option" where
  "submit_group_control lease_current env control =
     (if \<not> lease_current then ([], Some (Inl McpAuthorizationRevoked))
      else
        (case enqueue_control_with_auth (qe_bridge env) Mcp True (\<lambda>_ _. A_group control) (qe_service env) of
          (Inl e, _) \<Rightarrow> ([], Some (Inl e))
        | (Inr ticket, _) \<Rightarrow>
            ([Queued_control ticket control], map_option (\<lambda>answer. result_until answer (qe_state env)) (qe_answer env))))"

definition enqueue_confirmed_mcp ::
  "wording \<Rightarrow> queue_env \<Rightarrow> mcp_edit_request \<Rightarrow> reviewed_permit \<Rightarrow> u64 option
    \<Rightarrow> (backend_error + queued) option" where
  "enqueue_confirmed_mcp words env request p group_token =
     map_option (\<lambda>r. bind_r r (\<lambda>(c, act, carried).
       bind_r (fst (enqueue_action_with_context (qe_bridge env) c act (qe_service env))) (\<lambda>ticket.
         Inr (Queued_write ticket c act carried p))))
       (confirmed_context words request p group_token)"

section \<open>The call\<close>

text \<open>
  One round: the authorization with the three ends that may cut it off, for a history request its head
  before it and whether a group is open when there is none, and the entry into the queue.
\<close>

record submit_round =
  sr_authorize :: authorize_env
  sr_revoked :: bool
  sr_cancelled :: bool
  sr_late :: bool
  sr_head :: "mcp_history_action option"
  sr_active :: bool
  sr_lease_current :: bool
  sr_close :: queue_env
  sr_queue :: queue_env

definition forced_env :: "bool \<Rightarrow> authorize_env \<Rightarrow> authorize_env" where
  "forced_env forced env = env\<lparr>ae_force_confirmation := forced\<rparr>"

definition round_permit ::
  "(json \<Rightarrow> nat option) \<Rightarrow> bool \<Rightarrow> mcp_request_lease \<Rightarrow> mcp_edit_request \<Rightarrow> submit_round
    \<Rightarrow> (review_error + reviewed_permit) option" where
  "round_permit W forced lease request r =
     (let env = forced_env forced (sr_authorize r)
      in case request of
           Bridge_request meth params \<Rightarrow>
             snd (snd (authorize_write W env (sr_revoked r) (sr_cancelled r) (sr_late r) lease meth params))
         | Grouped_bridge meth params g \<Rightarrow>
             snd (snd (authorize_write W env (sr_revoked r) (sr_cancelled r) (sr_late r) lease meth params))
         | History_request d \<Rightarrow>
             (case sr_head r of
               None \<Rightarrow> None
             | Some a \<Rightarrow>
                 snd (snd (authorize_history W env (sr_revoked r) (sr_cancelled r) (sr_late r) lease a)))
         | _ \<Rightarrow> None)"

text \<open>An undo or redo of nothing closes the open group and changes nothing else.\<close>

definition nothing_to_do :: "mcp_edit_request \<Rightarrow> submit_round \<Rightarrow> bool" where
  "nothing_to_do request r \<longleftrightarrow> (case request of History_request d \<Rightarrow> sr_head r = None | _ \<Rightarrow> False)"

definition close_for_nothing :: "submit_round \<Rightarrow> queued list \<times> (backend_error + json) option" where
  "close_for_nothing r =
     (if \<not> sr_active r then ([], Some (Inr JNull))
      else
        (case submit_group_control (sr_lease_current r) (sr_close r) (Boundary None False) of
          (qs, res) \<Rightarrow> (qs, map_option (\<lambda>x. bind_r x (\<lambda>_. Inr JNull)) res)))"

fun submit_loop ::
  "wording \<Rightarrow> (json \<Rightarrow> nat option) \<Rightarrow> mcp_request_lease \<Rightarrow> mcp_edit_request \<Rightarrow> u64 option \<Rightarrow> bool
    \<Rightarrow> submit_round list \<Rightarrow> queued list \<times> (backend_error + json) option" where
  "submit_loop words W lease request group_token forced [] = ([], None)"
| "submit_loop words W lease request group_token forced (r # rounds) =
     (if nothing_to_do request r then close_for_nothing r
      else
        (case round_permit W forced lease request r of
          None \<Rightarrow> ([], None)
        | Some (Inl e) \<Rightarrow> ([], Some (Inl (request_error words (Review_text e))))
        | Some (Inr p) \<Rightarrow>
            (case enqueue_confirmed_mcp words (sr_queue r) request p group_token of
              None \<Rightarrow> ([], None)
            | Some (Inl e) \<Rightarrow> ([], Some (Inl e))
            | Some (Inr q) \<Rightarrow>
                (case map_option (\<lambda>answer. ticket_outcome answer (qe_state (sr_queue r))) (qe_answer (sr_queue r)) of
                  None \<Rightarrow> ([q], None)
                | Some (Inl e) \<Rightarrow> ([q], Some (Inl e))
                | Some (Inr (Complete res)) \<Rightarrow> ([q], Some (Inr (qr_value res)))
                | Some (Inr Reconfirm) \<Rightarrow>
                    (case submit_loop words W lease request group_token True rounds of
                      (qs, res) \<Rightarrow> (q # qs, res))))))"

text \<open>The whole call: what its first control, its end and the closing of a failed group meet.\<close>

datatype submit_end = Not_cut | Cut_revoked | Cut_cancelled

record submit_env =
  su_mode :: mcp_write_mode
  su_lease_current :: bool
  su_control :: queue_env
  su_rounds :: "submit_round list"
  su_end :: submit_end
  su_lease_current_after :: bool
  su_lease_current_close :: bool
  su_close :: queue_env

definition keeps_group :: "string \<Rightarrow> bool" where
  "keeps_group meth \<longleftrightarrow> meth \<in> {''object.setProperty'', ''scene.createObject'', ''scene.duplicateObject'',
     ''scene.reparentObject''}"

text \<open>The future: what it queued, the token of the group it has set, and its result.\<close>

definition submit_future ::
  "wording \<Rightarrow> (json \<Rightarrow> nat option) \<Rightarrow> submit_env \<Rightarrow> mcp_request_lease \<Rightarrow> mcp_edit_request
    \<Rightarrow> queued list \<times> u64 option \<times> (backend_error + json) option" where
  "submit_future words W env lease request =
     (case request of
       Begin_group_request name \<Rightarrow>
         if su_mode env = ReadOnly_mode then ([], None, Some (Inl (request_error words Write_not_allowed_text)))
         else (case submit_group_control (su_lease_current env) (su_control env) (BeginNamed name) of
             (qs, res) \<Rightarrow> (qs, None, res))
     | End_group_request g \<Rightarrow>
         (case submit_group_control (su_lease_current env) (su_control env) (EndNamed g) of
             (qs, res) \<Rightarrow> (qs, None, res))
     | Grouped_bridge meth params g \<Rightarrow>
         (case submit_group_control (su_lease_current env) (su_control env) (Boundary (Some g) (keeps_group meth)) of
             (qs, None) \<Rightarrow> (qs, None, None)
           | (qs, Some (Inl e)) \<Rightarrow> (qs, None, Some (Inl e))
           | (qs, Some (Inr v)) \<Rightarrow>
               (case submit_loop words W lease request (as_u64 v) False (su_rounds env) of
                 (qs', res) \<Rightarrow> (qs @ qs', as_u64 v, res)))
     | _ \<Rightarrow>
         (case submit_loop words W lease request None False (su_rounds env) of (qs, res) \<Rightarrow> (qs, None, res)))"

definition submit_tracked_mcp ::
  "wording \<Rightarrow> (json \<Rightarrow> nat option) \<Rightarrow> submit_env \<Rightarrow> mcp_request_lease \<Rightarrow> mcp_edit_request
    \<Rightarrow> queued list \<times> (backend_error + json) option" where
  "submit_tracked_mcp words W env lease request =
     (case submit_future words W env lease request of
       (qs, group_token, res) \<Rightarrow>
         (let res1 = (case res of
                Some r \<Rightarrow> Some r
              | None \<Rightarrow>
                  (case su_end env of
                    Cut_revoked \<Rightarrow> Some (Inl McpAuthorizationRevoked)
                  | Cut_cancelled \<Rightarrow> Some (Inl EditCancelled)
                  | Not_cut \<Rightarrow> None))
          in case (res1, group_token) of
               (Some (Inl e), Some token) \<Rightarrow>
                 if su_lease_current_after env
                 then (qs @ fst (submit_group_control (su_lease_current_close env) (su_close env) (CloseFailed token)), res1)
                 else (qs, res1)
             | _ \<Rightarrow> (qs, res1)))"

end
