(* ===== verification/Mcp_Writes.thy ===== *)
theory Mcp_Writes
  imports Mcp_Edit Tool_Catalog Log_Buffer
begin

text \<open>
  \<open>src-tauri/src/mcp/writes.rs\<close>: the call of a write tool. The name and the arguments are turned into a request for
  the edit service, the outcome is entered into the record of the operation, and the reply is made of both. A future that is
  dropped enters what is known of the operation then. Texts are constructors.
\<close>

section \<open>The request of a tool\<close>

definition custom_string :: "wording \<Rightarrow> mcp_text \<Rightarrow> string \<Rightarrow> json \<Rightarrow> backend_error + string" where
  "custom_string words missing key input = ok_or (request_error words missing) (Option.bind (jget key input) as_str)"

definition write_method :: "wording \<Rightarrow> string \<Rightarrow> backend_error + string" where
  "write_method words name = ok_or (request_error words Unsupported_write_text) (hidden_write_method name)"

definition write_request :: "wording \<Rightarrow> string \<Rightarrow> validated_tool_input \<Rightarrow> backend_error + mcp_edit_request" where
  "write_request words name input =
     (case input of
       Custom_input v \<Rightarrow>
         if name = ''edit_begin_group'' then
           bind_r (custom_string words No_group_name_text ''name'' v) (\<lambda>n. Inr (Begin_group_request n))
         else if name = ''edit_end_group'' then
           bind_r (custom_string words No_group_id_text ''groupId'' v) (\<lambda>g. Inr (End_group_request g))
         else if name = ''edit_undo'' then Inr (History_request Undo)
         else if name = ''edit_redo'' then Inr (History_request Redo)
         else Inl (request_error words Unsupported_write_text)
     | BridgeWrite params None \<Rightarrow>
         bind_r (write_method words name) (\<lambda>meth. Inr (Bridge_request meth params))
     | BridgeWrite params (Some g) \<Rightarrow>
         bind_r (write_method words name) (\<lambda>meth. Inr (Grouped_bridge meth params g))
     | BridgeRead v \<Rightarrow> Inl (request_error words Unsupported_write_text))"

text \<open>The texts of a refused call are taken from the catalog at a second look.\<close>

definition input_error_text :: "mcp_tool_catalog \<Rightarrow> tool_input_error \<Rightarrow> mcp_text" where
  "input_error_text c e =
     (case e of
       Tool_unavailable \<Rightarrow> Unavailable_text (unavailability_message c)
     | Input_invalid \<Rightarrow> Invalid_arguments_text
     | Schema_broken \<Rightarrow> Broken_schema_text)"

record schema_lib =
  sl_common :: "json option"
  sl_source :: "schema_source \<Rightarrow> json option"
  sl_valid :: "json \<Rightarrow> json \<Rightarrow> bool"

record write_env =
  wn_catalog :: mcp_tool_catalog
  wn_catalog_text :: mcp_tool_catalog
  wn_service :: bool
  wn_submit :: submit_env

definition execute_write ::
  "wording \<Rightarrow> schema_lib \<Rightarrow> (json \<Rightarrow> nat option) \<Rightarrow> write_env \<Rightarrow> string \<Rightarrow> json \<Rightarrow> mcp_request_lease option
    \<Rightarrow> queued list \<times> (backend_error + json) option" where
  "execute_write words lib W env name arguments lease =
     (case bind_r (ok_or (request_error words No_lease_text) lease) (\<lambda>l.
           bind_r (map_err (\<lambda>e. request_error words (input_error_text (wn_catalog_text env) e))
               (validate_call (sl_common lib) (sl_source lib) (sl_valid lib) name arguments (wn_catalog env))) (\<lambda>input.
           bind_r (write_request words name input) (\<lambda>request.
             if wn_service env then Inr (l, request) else Inl (request_error words No_service_text)))) of
       Inl e \<Rightarrow> ([], Some (Inl e))
     | Inr (l, request) \<Rightarrow> submit_tracked_mcp words W (wn_submit env) l request)"

section \<open>The record\<close>

text \<open>What the entry of an outcome meets: clocks, the authorization, the states of the tickets and the file system.\<close>

record record_env =
  re_late_text :: "notice \<Rightarrow> bool"
  re_tickets :: "u64 \<Rightarrow> ticket_state"
  re_now :: nat
  re_later :: nat
  re_auth :: mcp_authorization
  re_to_vec_len :: "mcp_operation \<Rightarrow> nat option"
  re_io :: append_io
  re_clock :: u64

text \<open>The state of the operation: its execution, its record and the store of all records.\<close>

type_synonym tracked_state = "mcp_execution \<times> mcp_operation \<times> operation_store"

definition enter_result ::
  "record_env \<Rightarrow> bool \<Rightarrow> backend_error option \<Rightarrow> bool \<Rightarrow> edit_history_summary option \<Rightarrow> tracked_state
    \<Rightarrow> mcp_operations option \<times> tracked_state" where
  "enter_result env success err actor_finished history w =
     (case w of (x, r, st) \<Rightarrow>
       (case record_result (re_late_text env) (re_tickets env) (re_now env) (re_later env) (re_auth env) success err
               actor_finished history x of
         (None, x1) \<Rightarrow> (None, x1, r, st)
       | (Some u, x1) \<Rightarrow>
           (case handle_finish (re_to_vec_len env) (re_io env) (re_clock env) u r st of
             (payload, r1, st1) \<Rightarrow> (payload, x1, r1, st1))))"

definition begin_call ::
  "(string \<Rightarrow> u64) \<Rightarrow> u64 \<Rightarrow> string \<Rightarrow> json \<Rightarrow> mcp_request_lease option \<Rightarrow> operation_store \<Rightarrow> tracked_state" where
  "begin_call hash now name arguments lease st =
     (case begin_operation hash now name arguments st of (r, st1) \<Rightarrow> (with_operation lease, r, st1))"

text \<open>The future was dropped before it came back with a result.\<close>

definition drop_call :: "record_env \<Rightarrow> tracked_state \<Rightarrow> mcp_operations option \<times> tracked_state" where
  "drop_call env w = enter_result env False (Some EditCancelled) (never_queued (fst w)) None w"

text \<open>The future has come back with a result.\<close>

definition end_call ::
  "record_env \<Rightarrow> backend_error + json \<Rightarrow> tracked_state \<Rightarrow> mcp_operations option \<times> tracked_state" where
  "end_call env result w =
     (case result of
       Inl e \<Rightarrow> enter_result env False (Some e) (never_queued (fst w)) None w
     | Inr v \<Rightarrow> enter_result env True None (never_queued (fst w)) None w)"

section \<open>The reply\<close>

definition bounded :: "string \<Rightarrow> nat \<Rightarrow> string" where
  "bounded v limit = take (char_floor v (min (length v) limit)) v"

datatype reply_message =
    Summary_message operation_summary
  | Unknown_message
  | Rejected_message
  | Partial_message
  | Not_applied_message
  | No_change_message
  | Done_message

datatype reply_detail =
    Result_value json
  | Result_omitted
  | Engine_detail string string
  | Text_detail string
  | Not_connected_detail

datatype history_notice = Delete_notice | Component_notice | Runtime_notice

text \<open>The part of a reply that comes from the record.\<close>

record reply_record =
  rr_display_group_id :: "string option"
  rr_pending :: bool
  rr_retry_allowed :: bool
  rr_result :: operation_result

record write_reply =
  wr_request_id :: "string \<times> u64"
  wr_outcome :: write_outcome
  wr_completed :: nat
  wr_retry :: bool
  wr_record :: "reply_record option"
  wr_message :: reply_message
  wr_detail :: reply_detail
  wr_notice :: "history_notice option"
  wr_is_error :: bool

text \<open>\<open>undoable\<close> is set, to false, exactly when there is a notice.\<close>

definition reply_notice :: "string \<Rightarrow> history_notice option" where
  "reply_notice name =
     (if name \<in> {''component_add'', ''component_remove'', ''scene_delete_object''}
      then Some (if name = ''scene_delete_object'' then Delete_notice else Component_notice)
      else if starts_with ''runtime_'' name then Some Runtime_notice else None)"

definition reply_text :: "write_outcome \<Rightarrow> bool \<Rightarrow> reply_message" where
  "reply_text oc pending =
     (if pending then Summary_message (summary_text oc True)
      else
        (case oc of
          Oc_unknown \<Rightarrow> Unknown_message
        | Oc_rejected \<Rightarrow> Rejected_message
        | Oc_partial \<Rightarrow> Partial_message
        | Oc_not_applied \<Rightarrow> Not_applied_message
        | Oc_no_change \<Rightarrow> No_change_message
        | _ \<Rightarrow> Done_message))"

definition reply_detail_of ::
  "(notice \<Rightarrow> string) \<Rightarrow> (backend_error \<Rightarrow> string) \<Rightarrow> (json \<Rightarrow> nat option) \<Rightarrow> backend_error + json \<Rightarrow> reply_detail" where
  "reply_detail_of render to_text W result =
     (case result of
       Inr v \<Rightarrow>
         (case W v of
           Some n \<Rightarrow> if n \<le> 240 * 1024 then Result_value v else Result_omitted
         | None \<Rightarrow> Result_omitted)
     | Inl (EngineFailed err_code message) \<Rightarrow> Engine_detail (bounded err_code 128) (bounded message 4096)
     | Inl (RequestFailed n) \<Rightarrow> Text_detail (bounded (render n) 4096)
     | Inl NotConnected \<Rightarrow> Not_connected_detail
     | Inl e \<Rightarrow> Text_detail (bounded (to_text e) 4096))"

definition reply_outcome ::
  "(u64 \<Rightarrow> ticket_state) \<Rightarrow> string \<Rightarrow> bool \<Rightarrow> mcp_execution \<Rightarrow> mcp_operation option \<Rightarrow> write_outcome" where
  "reply_outcome tickets name success x recorded =
     (let oc = (if success \<and> name \<in> {''edit_begin_group'', ''edit_end_group''} then Oc_applied
                else execution_outcome tickets success x)
      in case recorded of
           None \<Rightarrow> oc
         | Some r \<Rightarrow> if mo_actor_finished r then mo_outcome r else oc)"

definition write_result ::
  "(notice \<Rightarrow> string) \<Rightarrow> (backend_error \<Rightarrow> string) \<Rightarrow> (json \<Rightarrow> nat option) \<Rightarrow> (u64 \<Rightarrow> ticket_state) \<Rightarrow> string \<times> u64
    \<Rightarrow> string \<Rightarrow> mcp_execution \<Rightarrow> mcp_operation option \<Rightarrow> backend_error + json \<Rightarrow> write_reply" where
  "write_result render to_text W tickets request_id name x recorded result =
     (let oc = reply_outcome tickets name (\<not> isl result) x recorded
      in \<lparr>wr_request_id = request_id, wr_outcome = oc, wr_completed = ex_completed x, wr_retry = False,
          wr_record = map_option (\<lambda>r. \<lparr>rr_display_group_id = mo_display_group_id r, rr_pending = mo_pending r,
            rr_retry_allowed = mo_retry_allowed r, rr_result = mo_result r\<rparr>) recorded,
          wr_message = reply_text oc (case recorded of None \<Rightarrow> False | Some r \<Rightarrow> mo_pending r),
          wr_detail = reply_detail_of render to_text W result,
          wr_notice = reply_notice name,
          wr_is_error = (oc \<noteq> Oc_applied \<and> oc \<noteq> Oc_no_change)\<rparr>)"

end
