(* ===== verification/Mcp_Edit_Laws.thy ===== *)
theory Mcp_Edit_Laws
  imports Mcp_Edit Review_Permits History_Ops
begin

text \<open>
  What enters the queue of the edit service for an MCP client: each write carries a permit of its own round, a
  write is queued again only when the head of the queue has sent it back, and an undo or redo that
  runs is the one that was shown.
\<close>

section \<open>The operation of a permit\<close>

lemma confirm_loop_operation:
  "confirm_loop W False confirm lease tool_name meth params review rounds = (shown, asked, Some (Inr p)) \<Longrightarrow>
    wp_operation (rp_permit p) = rv_operation review \<and> wp_confirmed (rp_permit p)"
proof (induction rounds arbitrary: review shown asked)
  case (Cons rd rounds)
  obtain request where request: "show_request W rd lease tool_name meth review = Inr request"
    using Cons.prems by (cases "show_request W rd lease tool_name meth review") auto
  have ok: "rd_result rd = Approved"
    using Cons.prems request by (cases "rd_result rd") (auto simp: screen_refusal_def split: if_splits)
  obtain asked' fresh where fresh: "resolve_authorization_review W (rd_review rd) lease meth params
      (rv_operation review) confirm = (asked', Some (Inr fresh))"
    using Cons.prems request ok
    by (auto simp: screen_refusal_def operation_after_def split: prod.splits option.splits sum.splits)
  have same: "rv_operation fresh = rv_operation review" using fresh by (cases rule: review_Inr) simp
  show ?case
  proof (cases "review_eq fresh review")
    case True
    then have "issue_confirmed rd lease review = Inr p"
      using Cons.prems request ok fresh by (simp add: issue_confirmed_def screen_refusal_def operation_after_def)
    then show ?thesis by (auto simp: issue_confirmed_def issue_for_Inr with_review_def dest: issued_fields(2))
  next
    case False
    then show ?thesis using Cons.prems request ok fresh same
      by (auto simp: screen_refusal_def operation_after_def split: prod.splits dest: Cons.IH)
  qed
qed simp

lemma confirm_loop_confirmed:
  "confirm_loop W has_history confirm lease tool_name meth params review rounds = (shown, asked, Some (Inr p)) \<Longrightarrow>
    wp_confirmed (rp_permit p)"
  by (drule confirm_loop_permit)
     (auto simp: issue_confirmed_def issue_for_Inr with_review_def dest: issued_fields(2))

text \<open>An operation of the history stays one.\<close>

fun history_op :: "mcp_write_operation \<Rightarrow> bool" where
  "history_op (Op_history a) = True"
| "history_op op = False"

lemma history_op_iff: "history_op op \<longleftrightarrow> (\<exists>a. op = Op_history a)"
  by (cases op) auto

lemma confirm_loop_history:
  "confirm_loop W True confirm lease tool_name meth params review rounds = (shown, asked, Some (Inr p)) \<Longrightarrow>
    history_op (rv_operation review) \<Longrightarrow> history_op (wp_operation (rp_permit p))"
proof (induction rounds arbitrary: review confirm shown asked)
  case (Cons rd rounds)
  obtain request where request: "show_request W rd lease tool_name meth review = Inr request"
    using Cons.prems by (cases "show_request W rd lease tool_name meth review") auto
  obtain op confirm' pass where after: "rd_result rd = Approved"
    "operation_after True confirm rd review = Inr (op, confirm', pass)"
    using Cons.prems request by (cases "operation_after True confirm rd review")
       (auto split: sum.splits prod.splits simp: bind_r_Inr)
  have ok: "bind_r (screen_refusal (rd_result rd) lease (rd_cancel_auth rd)) (\<lambda>_.
      operation_after True confirm rd review) = Inr (op, confirm', pass)"
    using after by (simp add: bind_r_Inr)
  have history: "history_op op"
    using after Cons.prems(2) by (auto simp: operation_after_def split: option.splits if_splits)
  obtain asked' fresh where fresh:
    "resolve_authorization_review W (rd_review rd) lease meth params op confirm' = (asked', Some (Inr fresh))"
    using Cons.prems request ok by (auto split: prod.splits option.splits sum.splits)
  have same: "rv_operation fresh = op" using fresh by (cases rule: review_Inr) simp
  show ?case
  proof (cases "pass \<and> review_eq fresh review")
    case True
    then have "issue_confirmed rd lease review = Inr p"
      using Cons.prems request ok fresh by (simp add: issue_confirmed_def)
    then show ?thesis using Cons.prems(2)
      by (auto simp: issue_confirmed_def issue_for_Inr with_review_def dest: issued_fields(2))
  next
    case False
    then obtain shown' asked2 where "confirm_loop W True confirm lease tool_name meth params fresh rounds
        = (shown', asked2, Some (Inr p))"
      using Cons.prems request ok fresh by (auto split: prod.splits)
    then show ?thesis using same history Cons.IH by auto
  qed
qed simp

lemma authorize_inner_cases:
  assumes "authorize_operation W env revoked cancelled late lease tool_name meth params operation has_history
    = (shown, asked, Some (Inr p))"
  obtains (direct) review :: authorization_review where "\<not> ae_force_confirmation env" "\<not> has_history \<longrightarrow> rv_operation review = operation"
      "has_history \<and> history_op operation \<longrightarrow> history_op (rv_operation review)"
      "wp_operation (rp_permit p) = rv_operation review"
    | (screen) review :: authorization_review and confirm asked2 where "\<not> has_history \<longrightarrow> rv_operation review = operation"
      "has_history \<and> history_op operation \<longrightarrow> history_op (rv_operation review)"
      "confirm_loop W has_history confirm lease tool_name meth params review (ae_rounds env)
        = (shown, asked2, Some (Inr p))"
proof -
  have inner: "authorize_operation_inner W env lease tool_name meth params operation has_history
      = (shown, asked, Some (Inr p))"
    using assms by (auto simp: authorize_operation_def split: prod.splits if_splits)
  then obtain op where op: "first_operation env has_history operation = Inr op" "ae_authorization env"
    by (auto simp: authorize_operation_inner_def split: if_splits sum.splits)
  then obtain asked1 review where first: "resolve_authorization_review W (ae_review env) lease meth params op
      (requires_confirmation op) = (asked1, Some (Inr review))"
    using inner by (auto simp: authorize_operation_inner_def split: prod.splits option.splits sum.splits)
  have "rv_operation review = op" using first by (cases rule: review_Inr) simp
  then have same: "\<not> has_history \<longrightarrow> rv_operation review = operation"
    "has_history \<and> history_op operation \<longrightarrow> history_op (rv_operation review)"
    using op(1) by (auto simp: first_operation_def history_op_iff split: if_splits option.splits) metis
  show ?thesis
  proof (cases "ae_force_confirmation env \<or> ws_mode (ps_settings (rv_policy review)) = Confirm \<or> requires_confirmation op")
    case False
    then have "issue_for (\<lambda>l s g op. issue_write_permit (ae_issue_now env) l s g op (ae_issue_auth env))
         (ae_validate_now env) (ae_validate_auth env) lease review = Inr p"
      using inner op first by (auto simp: authorize_operation_inner_def)
    then have "wp_operation (rp_permit p) = rv_operation review"
      by (auto simp: issue_for_Inr with_review_def dest: issued_fields(1))
    with same False direct show ?thesis by blast
  next
    case True
    then obtain asked2 where "confirm_loop W has_history (requires_confirmation op) lease tool_name meth params review
        (ae_rounds env) = (shown, asked2, Some (Inr p))"
      using inner op first by (auto simp: authorize_operation_inner_def split: prod.splits)
    with same screen show ?thesis by blast
  qed
qed

lemma write_permit_fields:
  assumes "authorize_write W env revoked cancelled late lease meth params = (shown, asked, Some (Inr p))"
  shows "from_bridge_method meth params = Inr (wp_operation (rp_permit p))"
    and "ae_force_confirmation env \<Longrightarrow> wp_confirmed (rp_permit p)"
proof -
  obtain op where op: "from_bridge_method meth params = Inr op" and run:
    "authorize_operation W env revoked cancelled late lease meth meth params op False = (shown, asked, Some (Inr p))"
    using assms by (cases "from_bridge_method meth params") (auto simp: authorize_write_def)
  from run have "wp_operation (rp_permit p) = op \<and> (ae_force_confirmation env \<longrightarrow> wp_confirmed (rp_permit p))"
    by (cases rule: authorize_inner_cases) (auto dest: confirm_loop_operation)
  with op show "from_bridge_method meth params = Inr (wp_operation (rp_permit p))"
    "ae_force_confirmation env \<Longrightarrow> wp_confirmed (rp_permit p)" by simp_all
qed

lemma history_permit_fields:
  assumes "authorize_history W env revoked cancelled late lease a = (shown, asked, Some (Inr p))"
  shows "history_op (wp_operation (rp_permit p))"
    and "ae_force_confirmation env \<Longrightarrow> wp_confirmed (rp_permit p)"
proof -
  from assms have "authorize_operation W env revoked cancelled late lease ''edit_undo_redo'' ''edit.history'' JNull
    (Op_history a) True = (shown, asked, Some (Inr p))" by (simp add: authorize_history_def)
  then have "history_op (wp_operation (rp_permit p)) \<and> (ae_force_confirmation env \<longrightarrow> wp_confirmed (rp_permit p))"
    by (cases rule: authorize_inner_cases) (auto dest: confirm_loop_history confirm_loop_confirmed simp: history_op_iff)
  then show "history_op (wp_operation (rp_permit p))"
    "ae_force_confirmation env \<Longrightarrow> wp_confirmed (rp_permit p)" by simp_all
qed

section \<open>The queue of a call\<close>

fun puts_write :: "queued \<Rightarrow> bool" where
  "puts_write (Queued_write t c act carried p) = True"
| "puts_write (Queued_control t control) = False"

text \<open>The writes a call has put into the queue, in order.\<close>

definition queued_writes :: "queued list \<Rightarrow> queued list" where
  "queued_writes qs = filter puts_write qs"

lemma queued_writes_append [simp]: "queued_writes (qs @ rs) = queued_writes qs @ queued_writes rs"
  by (simp add: queued_writes_def)

text \<open>A round whose item came back from the head of the queue without having been sent.\<close>

definition sent_back :: "submit_round \<Rightarrow> bool" where
  "sent_back r \<longleftrightarrow> (\<exists>answer. qe_answer (sr_queue r) = Some answer
     \<and> ticket_outcome answer (qe_state (sr_queue r)) = Inr Reconfirm)"

lemma control_queues_no_write:
  "submit_group_control current env control = (qs, res) \<Longrightarrow> queued_writes qs = []"
  by (auto simp: submit_group_control_def queued_writes_def split: if_splits prod.splits sum.splits)

lemma close_queues_no_write: "close_for_nothing r = (qs, res) \<Longrightarrow> queued_writes qs = []"
  by (auto simp: close_for_nothing_def queued_writes_def [of "[]"] split: if_splits prod.splits
      dest: control_queues_no_write)

lemma enqueued_is_write:
  "enqueue_confirmed_mcp words env request p g = Some (Inr q) \<Longrightarrow> puts_write q"
  by (auto simp: enqueue_confirmed_mcp_def bind_r_Inr)

lemma submit_loop_writes:
  "submit_loop words W lease request g forced rounds = (qs, res) \<Longrightarrow> n < length (queued_writes qs) \<Longrightarrow>
    n < length rounds \<and> (\<exists>p. round_permit W (forced \<or> n > 0) lease request (rounds ! n) = Some (Inr p)
      \<and> enqueue_confirmed_mcp words (sr_queue (rounds ! n)) request p g = Some (Inr (queued_writes qs ! n)))
    \<and> (\<forall>k < n. sent_back (rounds ! k))"
proof (induction words W lease request g forced rounds arbitrary: qs res n rule: submit_loop.induct)
  case (1 words W lease request g forced)
  then show ?case by (simp add: queued_writes_def)
next
  case (2 words W lease request g forced r rounds)
  have something: "\<not> nothing_to_do request r"
    using "2.prems" close_queues_no_write by (cases "nothing_to_do request r") auto
  obtain p where p: "round_permit W forced lease request r = Some (Inr p)"
    using "2.prems" something by (auto simp: queued_writes_def split: option.splits sum.splits)
  obtain q where q: "enqueue_confirmed_mcp words (sr_queue r) request p g = Some (Inr q)"
    using "2.prems" something p by (auto simp: queued_writes_def split: option.splits sum.splits)
  have is_w: "puts_write q" by (rule enqueued_is_write [OF q])
  show ?case
  proof (cases "sent_back r")
    case False
    then have "qs = [q]" using "2.prems"(1) something p q
      by (auto simp: sent_back_def split: option.splits sum.splits queue_outcome.splits)
    then show ?thesis using "2.prems"(2) p q is_w by (simp add: queued_writes_def)
  next
    case True
    then obtain answer where returned: "qe_answer (sr_queue r) = Some answer"
      "ticket_outcome answer (qe_state (sr_queue r)) = Inr Reconfirm" by (auto simp: sent_back_def)
    then obtain qs' where rest: "submit_loop words W lease request g True rounds = (qs', res)" "qs = q # qs'"
      using "2.prems"(1) something p q by (auto split: prod.splits)
    have first: "queued_writes qs = q # queued_writes qs'" using rest(2) is_w by (simp add: queued_writes_def)
    show ?thesis
    proof (cases n)
      case 0
      then show ?thesis using p q first by simp
    next
      case (Suc m)
      have m: "m < length (queued_writes qs')" using "2.prems"(2) first Suc by simp
      have "m < length rounds \<and> (\<exists>p. round_permit W (True \<or> m > 0) lease request (rounds ! m) = Some (Inr p)
          \<and> enqueue_confirmed_mcp words (sr_queue (rounds ! m)) request p g = Some (Inr (queued_writes qs' ! m)))
        \<and> (\<forall>k < m. sent_back (rounds ! k))"
        using "2.IH" something p q returned rest(1) m by simp
      then show ?thesis using Suc first True by (auto simp: nth_Cons split: nat.splits)
    qed
  qed
qed

text \<open>What the item of a request carries for its permit.\<close>

definition carries_bridge :: "string \<Rightarrow> json \<Rightarrow> reviewed_permit \<Rightarrow> queued_action \<Rightarrow> carried_write option \<Rightarrow> bool" where
  "carries_bridge meth params p act carried \<longleftrightarrow>
     from_bridge_method meth params = Inr (wp_operation (rp_permit p)) \<and> act = A_edit
     \<and> (\<exists>m. as_object params = Some m
          \<and> carried = Some \<lparr>cw_method = meth, cw_params = m, cw_prior = captured_prior p\<rparr>)"

fun carries :: "mcp_edit_request \<Rightarrow> reviewed_permit \<Rightarrow> queued_action \<Rightarrow> carried_write option \<Rightarrow> bool" where
  "carries (Bridge_request meth params) p act carried = carries_bridge meth params p act carried"
| "carries (Grouped_bridge meth params g) p act carried = carries_bridge meth params p act carried"
| "carries (History_request d) p act carried \<longleftrightarrow>
     (\<exists>a. wp_operation (rp_permit p) = Op_history a \<and> carried = None
        \<and> act = A_history \<lparr>ar_direction = d, ar_expected_head_id = Some (mh_head_id a),
             ar_expected_revision = mh_revision a\<rparr>)"
| "carries _ p act carried \<longleftrightarrow> False"

lemma bridge_context_carries:
  assumes "bridge_context words meth params p g = Inr (c, act, carried)"
    and "from_bridge_method meth params = Inr (wp_operation (rp_permit p))"
  shows "carries_bridge meth params p act carried" "ec_source c = Mcp" "ec_auth c" "ec_permit c"
    "ec_group_token c = g"
  using assms by (auto simp: carries_bridge_def bridge_context_def bind_r_Inr Let_def)

lemma history_context_carries:
  assumes "history_context d p g = Inr (c, act, carried)"
  shows "carries (History_request d) p act carried" "ec_source c = Mcp" "ec_auth c" "ec_permit c"
    "ec_group_token c = g"
  using assms by (auto simp: history_context_def split: mcp_write_operation.splits)

lemma outcome_of: "snd (snd run) = Some (Inr p) \<Longrightarrow> run = (fst run, fst (snd run), Some (Inr p))"
  by (cases run) auto

lemma round_permit_fields:
  assumes "round_permit W forced lease request r = Some (Inr p)"
  shows "forced \<Longrightarrow> wp_confirmed (rp_permit p)"
    and "request = Bridge_request meth params \<or> request = Grouped_bridge meth params g \<Longrightarrow>
      from_bridge_method meth params = Inr (wp_operation (rp_permit p))"
proof -
  note fields = write_permit_fields [OF outcome_of] history_permit_fields(2) [OF outcome_of]
  have force: "ae_force_confirmation (forced_env forced (sr_authorize r)) = forced" by (simp add: forced_env_def)
  show "forced \<Longrightarrow> wp_confirmed (rp_permit p)"
    using assms force fields by (cases request) (auto simp: round_permit_def Let_def split: option.splits)
  show "request = Bridge_request meth params \<or> request = Grouped_bridge meth params g \<Longrightarrow>
      from_bridge_method meth params = Inr (wp_operation (rp_permit p))"
    using assms fields by (auto simp: round_permit_def Let_def)
qed

lemma enqueued_carries:
  assumes "round_permit W forced lease request r = Some (Inr p)"
    and "enqueue_confirmed_mcp words env request p g = Some (Inr q)"
  shows "\<exists>t c act carried. q = Queued_write t c act carried p \<and> carries request p act carried
    \<and> ec_source c = Mcp \<and> ec_auth c \<and> ec_permit c \<and> ec_group_token c = g"
proof -
  obtain c act carried t where made: "confirmed_context words request p g = Some (Inr (c, act, carried))"
    "q = Queued_write t c act carried p"
    using assms(2) by (auto simp: enqueue_confirmed_mcp_def bind_r_Inr)
  show ?thesis
  proof (cases request)
    case (Bridge_request meth params)
    with made bridge_context_carries [of words meth params p g c act carried]
      round_permit_fields(2) [OF assms(1), of meth params] show ?thesis by simp
  next
    case (Grouped_bridge meth params s)
    with made bridge_context_carries [of words meth params p g c act carried]
      round_permit_fields(2) [OF assms(1), of meth params s] show ?thesis by simp
  next
    case (History_request d)
    with made history_context_carries [of d p g c act carried] show ?thesis by simp
  qed (insert made, simp_all)
qed

lemma future_writes:
  "submit_future words W env lease request = (qs, token, res) \<Longrightarrow>
    queued_writes qs = [] \<or> (\<exists>g qs' res'. submit_loop words W lease request g False (su_rounds env) = (qs', res')
      \<and> queued_writes qs = queued_writes qs')"
proof (cases request)
  case (Grouped_bridge meth params s)
  assume run: "submit_future words W env lease request = (qs, token, res)"
  obtain qs1 res1 where control: "submit_group_control (su_lease_current env) (su_control env)
      (Boundary (Some s) (keeps_group meth)) = (qs1, res1)" by (metis prod.exhaust)
  show ?thesis
    using run control control_queues_no_write [OF control] Grouped_bridge
    by (auto simp: submit_future_def split: prod.splits option.splits sum.splits) blast
qed (auto simp: submit_future_def queued_writes_def [of "[]"] split: prod.splits if_splits
      dest: control_queues_no_write)

lemma submit_writes:
  assumes "submit_tracked_mcp words W env lease request = (qs, res)"
  shows "queued_writes qs = [] \<or> (\<exists>g qs' res'. submit_loop words W lease request g False (su_rounds env) = (qs', res')
      \<and> queued_writes qs = queued_writes qs')"
proof -
  obtain qs1 token res1 where run: "submit_future words W env lease request = (qs1, token, res1)"
    by (metis prod.exhaust)
  have "queued_writes qs = queued_writes qs1"
    using assms run control_queues_no_write [OF prod.collapse [symmetric]]
    by (auto simp: submit_tracked_mcp_def Let_def split: option.splits sum.splits submit_end.splits if_splits)
  with future_writes [OF run] show ?thesis by simp
qed

text \<open>C37: A write of a client enters the queue only with a permit for it. The n-th write a call queues has the permit that
  the n-th round of authorization gave, as a write of MCP under its lease; its method and parameters are those of the
  request, of which the permit's operation is the reading, and its old value is the one that was read for the permit;
  an undo or redo asks for the very head and revision that were shown. A write is queued again only after every
  earlier one was sent back unsent from the head of the queue, and then its permit is one the user has confirmed.\<close>

theorem queued_write_is_authorized:
  assumes "submit_tracked_mcp words W env lease request = (qs, res)" "n < length (queued_writes qs)"
  shows "\<exists>t c act carried p. queued_writes qs ! n = Queued_write t c act carried p \<and> n < length (su_rounds env)
    \<and> round_permit W (0 < n) lease request (su_rounds env ! n) = Some (Inr p)
    \<and> carries request p act carried \<and> ec_source c = Mcp \<and> ec_auth c \<and> ec_permit c
    \<and> (n = 0 \<or> wp_confirmed (rp_permit p)) \<and> list_all sent_back (take n (su_rounds env))"
proof -
  obtain g qs' res' where loop: "submit_loop words W lease request g False (su_rounds env) = (qs', res')"
    "queued_writes qs = queued_writes qs'" using submit_writes [OF assms(1)] assms(2) by auto
  have n: "n < length (queued_writes qs')" using assms(2) loop(2) by simp
  from submit_loop_writes [OF loop(1) n] obtain p where p: "n < length (su_rounds env)"
    "round_permit W (0 < n) lease request (su_rounds env ! n) = Some (Inr p)"
    "enqueue_confirmed_mcp words (sr_queue (su_rounds env ! n)) request p g = Some (Inr (queued_writes qs' ! n))"
    and unsent: "\<forall>k < n. sent_back (su_rounds env ! k)" by auto
  from enqueued_carries [OF p(2,3)] round_permit_fields(1) [OF p(2)] p(1,2) loop(2) unsent
  show ?thesis by (fastforce simp: list_all_length)
qed

section \<open>The undo that was shown\<close>


section \<open>Examples\<close>

definition example_words :: wording where
  "example_words t = ''''"

definition play_queue :: "channel_answer option \<Rightarrow> queue_env" where
  "play_queue answer = \<lparr>qe_bridge = \<lparr>br_generation = Some 7, br_session = Some 7\<rparr>,
     qe_service = service_new 64 (Some 7), qe_answer = answer, qe_state = Waiting\<rparr>"

definition play_submit_round :: "channel_answer option \<Rightarrow> submit_round" where
  "play_submit_round answer = \<lparr>sr_authorize = play_authorize, sr_revoked = False, sr_cancelled = False, sr_late = False,
     sr_head = None, sr_active = False, sr_lease_current = True, sr_close = play_queue None,
     sr_queue = play_queue answer\<rparr>"

text \<open>The item comes back once from the head of the queue; then the call waits for the second one.\<close>

definition play_submit :: submit_env where
  "play_submit = \<lparr>su_mode = Confirm, su_lease_current = True, su_control = play_queue None,
     su_rounds = [play_submit_round (Some (Received (Inr Reconfirm))), play_submit_round None],
     su_end = Not_cut, su_lease_current_after = True, su_lease_current_close = True, su_close = play_queue None\<rparr>"

abbreviation play_request :: mcp_edit_request where
  "play_request \<equiv> Bridge_request ''runtime.play'' (JObject [])"

lemma play_permit: "\<exists>p. round_permit play_size forced play_lease play_request (play_submit_round answer) = Some (Inr p)
    \<and> wp_operation (rp_permit p) = RuntimeControl"
  by (simp add: round_permit_def forced_env_def authorize_write_def from_bridge_method_def play_submit_round_def
      authorize_operation_def authorize_operation_inner_def first_operation_def play_authorize_def play_defs
      resolve_authorization_review_def review_start_def review_end_def check_write_preflight_def current_generation_def
      has_capabilities_def preview_of_def values_fit_def show_request_def confirmation_deadline_def
      CONFIRMATION_TIMEOUT_def confirmation_request_def screen_refusal_def operation_after_def review_eq_def
      preview_eq_def json_eq.simps issue_for_def issue_confirmed_write_permit_def with_review_def
      check_write_request_after_confirmation_def validate_write_permit_def Let_def MAX_CONFIRMATION_VALUE_BYTES_def
      MAX_CONFIRMATION_TARGETS_def)

lemma play_enqueued:
  assumes "wp_operation (rp_permit p) = RuntimeControl"
  shows "\<exists>q. enqueue_confirmed_mcp example_words (sr_queue (play_submit_round answer)) play_request p None = Some (Inr q)"
  using assms by (simp add: enqueue_confirmed_mcp_def bridge_context_def play_submit_round_def play_queue_def Let_def
      enqueue_action_with_context_def service_new_def pin_def try_send_def)

lemma play_submitted:
  "\<exists>q1 q2. submit_tracked_mcp example_words play_size play_submit play_lease play_request = ([q1, q2], None)
    \<and> puts_write q1 \<and> puts_write q2"
proof -
  let ?r1 = "play_submit_round (Some (Received (Inr Reconfirm)))" and ?r2 = "play_submit_round None"
  obtain p1 q1 where first: "round_permit play_size False play_lease play_request ?r1 = Some (Inr p1)"
    "enqueue_confirmed_mcp example_words (sr_queue ?r1) play_request p1 None = Some (Inr q1)"
    using play_permit play_enqueued by blast
  obtain p2 q2 where second: "round_permit play_size True play_lease play_request ?r2 = Some (Inr p2)"
    "enqueue_confirmed_mcp example_words (sr_queue ?r2) play_request p2 None = Some (Inr q2)"
    using play_permit play_enqueued by blast
  have answers: "qe_answer (sr_queue ?r1) = Some (Received (Inr Reconfirm))" "qe_answer (sr_queue ?r2) = None"
    by (simp_all add: play_submit_round_def play_queue_def)
  have "submit_loop example_words play_size play_lease play_request None False [?r1, ?r2] = ([q1, q2], None)"
    by (simp add: nothing_to_do_def first second answers ticket_outcome_def)
  then have "submit_tracked_mcp example_words play_size play_submit play_lease play_request = ([q1, q2], None)"
    by (simp add: submit_tracked_mcp_def submit_future_def play_submit_def)
  then show ?thesis using enqueued_is_write [OF first(2)] enqueued_is_write [OF second(2)] by blast
qed

lemma queued_write_is_authorized_witness:
  "\<exists>qs res t c act carried p. submit_tracked_mcp example_words play_size play_submit play_lease play_request = (qs, res)
    \<and> queued_writes qs ! 1 = Queued_write t c act carried p \<and> wp_confirmed (rp_permit p)"
proof -
  obtain q1 q2 where run: "submit_tracked_mcp example_words play_size play_submit play_lease play_request = ([q1, q2], None)"
    "puts_write q1" "puts_write q2" using play_submitted by blast
  have "1 < length (queued_writes [q1, q2])" using run(2,3) by (simp add: queued_writes_def)
  from queued_write_is_authorized [OF run(1) this] run(1) show ?thesis by auto
qed






end
