(* ===== verification/Mcp_Writes_Laws.thy ===== *)
theory Mcp_Writes_Laws
  imports Mcp_Writes Mcp_Edit_Laws Tool_Catalog_Laws
begin








section \<open>Example\<close>






end
