(* ===== verification/Bridge_State.thy ===== *)
theory Bridge_State
  imports Mcp_Execution Tool_Catalog Log_Buffer Payloads
begin

text \<open>
  \<open>src-tauri/src/bridge_state.rs\<close>: the phases of the connection to the engine. Attempts to connect, the reconnection,
  disconnections and the relays of the connections run at the same time; each touches the state in short sections under
  one lock, and all input and output lies between them. First the sections, then the tasks and their steps. A dispatcher and the
  relay that reads its events are known by one number, a cancellation token by its own. What is sent to the engine is
  left to its answers, and the thumbnail service is left out.
\<close>

section \<open>The state\<close>

definition OFFERED_PROTOCOL_VERSIONS :: "string list" where
  "OFFERED_PROTOCOL_VERSIONS = [''0.2'', ''0.1'']"

definition ws_url_for_port :: "nat \<Rightarrow> string" where
  "ws_url_for_port port = ''ws://127.0.0.1:'' @ nat_dec port"

record live_connection =
  lc_generation :: u64
  lc_handle :: nat
  lc_endpoint :: string
  lc_session_id :: string
  lc_server_name :: string
  lc_capabilities :: "capability_descriptor list"
  lc_log_subscription_id :: "string option"

record bridge_lease =
  bg_generation :: u64
  bg_handle :: nat
  bg_capabilities :: "capability_descriptor list"

datatype bridge_phase =
    Phase_disconnected
  | Phase_connecting u64
  | Phase_connected live_connection

text \<open>\<open>bs_attempt\<close> is the generation of the attempt with its token; \<open>bs_tokens\<close> counts the tokens made.\<close>

record bridge_state =
  bs_phase :: bridge_phase
  bs_next_request_id :: u64
  bs_next_generation :: u64
  bs_session :: "bridge_lease option"
  bs_current_generation :: "u64 option"
  bs_attempt :: "(u64 \<times> nat) option"
  bs_tokens :: nat
  bs_cancelled :: "nat set"
  bs_log :: log_buffer
  bs_catalog :: mcp_tool_catalog

definition bridge_state_default :: bridge_state where
  "bridge_state_default = \<lparr>bs_phase = Phase_disconnected, bs_next_request_id = 0, bs_next_generation = 0,
     bs_session = None, bs_current_generation = None, bs_attempt = None, bs_tokens = 0, bs_cancelled = {},
     bs_log = log_buffer_default, bs_catalog = catalog_default\<rparr>"

text \<open>What the screen is told of the connection.\<close>

datatype connection_state_dto =
    Connected_state string string string "capability_descriptor list"
  | Disconnected_state string

definition connection_state_payload :: "live_connection \<Rightarrow> connection_state_dto" where
  "connection_state_payload conn =
     Connected_state (lc_session_id conn) (lc_server_name conn) (lc_endpoint conn) (lc_capabilities conn)"

section \<open>The parts of a section\<close>

definition alloc_request_id :: "bridge_state \<Rightarrow> correlation_id \<times> bridge_state" where
  "alloc_request_id st = (allocate_request_id (bs_next_request_id st),
     st\<lparr>bs_next_request_id := bs_next_request_id st + 1\<rparr>)"

definition alloc_generation :: "bridge_state \<Rightarrow> u64 \<times> bridge_state" where
  "alloc_generation st = (bs_next_generation st, st\<lparr>bs_next_generation := bs_next_generation st + 1\<rparr>)"

definition publish_session :: "bridge_lease option \<Rightarrow> bridge_state \<Rightarrow> bridge_state" where
  "publish_session lease st =
     st\<lparr>bs_current_generation := map_option bg_generation lease,
        bs_catalog := set_connection (map_option bg_generation lease)
          (case lease of None \<Rightarrow> [] | Some l \<Rightarrow> bg_capabilities l) (bs_catalog st),
        bs_session := lease\<rparr>"

definition begin_attempt :: "u64 \<Rightarrow> bridge_state \<Rightarrow> nat \<times> bridge_state" where
  "begin_attempt g st =
     (bs_tokens st,
      st\<lparr>bs_attempt := Some (g, bs_tokens st), bs_tokens := bs_tokens st + 1,
         bs_log := begin_generation (unat g) (bs_log st)\<rparr>)"

definition cancel_attempt :: "u64 \<Rightarrow> bridge_state \<Rightarrow> bridge_state" where
  "cancel_attempt g st =
     (case bs_attempt st of
       Some (current, token) \<Rightarrow>
         if current = g then st\<lparr>bs_attempt := None, bs_cancelled := insert token (bs_cancelled st)\<rparr> else st
     | None \<Rightarrow> st)"

definition finish_attempt :: "u64 \<Rightarrow> bridge_state \<Rightarrow> bridge_state" where
  "finish_attempt g st =
     (case bs_attempt st of
       Some (current, token) \<Rightarrow> if current = g then st\<lparr>bs_attempt := None\<rparr> else st
     | None \<Rightarrow> st)"

definition end_log_generation :: "u64 \<Rightarrow> bridge_state \<Rightarrow> bridge_state" where
  "end_log_generation g st = st\<lparr>bs_log := end_generation (unat g) (bs_log st)\<rparr>"

definition retire_log_generation :: "u64 \<Rightarrow> bridge_state \<Rightarrow> bridge_state" where
  "retire_log_generation g st = end_log_generation g (cancel_attempt g st)"

fun edit_lease :: "bridge_phase \<Rightarrow> bridge_lease option" where
  "edit_lease (Phase_connected conn) =
     Some \<lparr>bg_generation = lc_generation conn, bg_handle = lc_handle conn, bg_capabilities = lc_capabilities conn\<rparr>"
| "edit_lease _ = None"

definition reset_connecting_if_matches :: "u64 \<Rightarrow> bridge_phase \<Rightarrow> bool \<times> bridge_phase" where
  "reset_connecting_if_matches token ph =
     (if ph = Phase_connecting token then (True, Phase_disconnected) else (False, ph))"

definition try_commit_connection :: "u64 \<Rightarrow> live_connection \<Rightarrow> bridge_phase \<Rightarrow> live_connection option \<times> bridge_phase" where
  "try_commit_connection token conn ph =
     (if ph = Phase_connecting token then (None, Phase_connected conn) else (Some conn, ph))"

fun phase_has_generation :: "bridge_phase \<Rightarrow> u64 \<Rightarrow> bool" where
  "phase_has_generation Phase_disconnected g = False"
| "phase_has_generation (Phase_connecting token) g = (token = g)"
| "phase_has_generation (Phase_connected conn) g = (lc_generation conn = g)"

definition reset_owned_phase :: "u64 \<Rightarrow> bridge_phase \<Rightarrow> bool \<times> bridge_phase" where
  "reset_owned_phase g ph = (if phase_has_generation ph g then (True, Phase_disconnected) else (False, ph))"

text \<open>The facade of the edit service. The two reads of \<open>pin\<close> are two sections.\<close>

definition pin_lease :: "u64 option \<Rightarrow> bridge_lease option \<Rightarrow> backend_error + bridge_lease" where
  "pin_lease current session =
     ok_or NotConnected (Option.bind session (\<lambda>l. if Some (bg_generation l) = current then Some l else None))"

definition bridge_is_current :: "u64 \<Rightarrow> bridge_state \<Rightarrow> bool" where
  "bridge_is_current g st \<longleftrightarrow> bs_current_generation st = Some g"

fun handle_clone :: "bridge_phase \<Rightarrow> backend_error + nat" where
  "handle_clone (Phase_connected conn) = Inr (lc_handle conn)"
| "handle_clone _ = Inl NotConnected"

section \<open>The sections\<close>

text \<open>A new attempt is entered, if there is none and no connection.\<close>

definition register_attempt :: "u64 \<Rightarrow> bridge_state \<Rightarrow> (backend_error + nat) \<times> bridge_state" where
  "register_attempt token st =
     (case bs_phase st of
       Phase_disconnected \<Rightarrow>
         (case begin_attempt token (publish_session None (st\<lparr>bs_phase := Phase_connecting token\<rparr>)) of
           (cancellation, st1) \<Rightarrow> (Inr cancellation, st1))
     | _ \<Rightarrow> (Inl AlreadyConnected, st))"

definition take_for_reconnect ::
  "u64 \<Rightarrow> bridge_state \<Rightarrow> (backend_error + (live_connection \<times> nat)) \<times> bridge_state" where
  "take_for_reconnect token st =
     (case bs_phase st of
       Phase_connected conn \<Rightarrow>
         (case begin_attempt token (publish_session None (retire_log_generation (lc_generation conn)
                 (st\<lparr>bs_phase := Phase_connecting token\<rparr>))) of
           (cancellation, st1) \<Rightarrow> (Inr (conn, cancellation), st1))
     | Phase_connecting current \<Rightarrow> (Inl AlreadyConnected, st)
     | Phase_disconnected \<Rightarrow> (Inl NotConnected, st))"

definition take_phase :: "bridge_state \<Rightarrow> (live_connection option \<times> u64 option) \<times> bridge_state" where
  "take_phase st =
     ((case bs_phase st of
        Phase_connected conn \<Rightarrow> (Some conn, Some (lc_generation conn))
      | Phase_connecting g \<Rightarrow> (None, Some g)
      | Phase_disconnected \<Rightarrow> (None, None)),
      publish_session None (st\<lparr>bs_phase := Phase_disconnected\<rparr>))"

definition commit_attempt :: "u64 \<Rightarrow> live_connection \<Rightarrow> bridge_state \<Rightarrow> live_connection option \<times> bridge_state" where
  "commit_attempt token conn st =
     (case try_commit_connection token conn (bs_phase st) of
       (None, ph) \<Rightarrow> (None, publish_session (edit_lease ph) (st\<lparr>bs_phase := ph\<rparr>))
     | (Some rejected, ph) \<Rightarrow> (Some rejected, st))"

definition fail_attempt :: "u64 \<Rightarrow> bridge_state \<Rightarrow> bridge_state" where
  "fail_attempt token st =
     (case reset_connecting_if_matches token (bs_phase st) of
       (True, ph) \<Rightarrow> end_log_generation token (publish_session None (st\<lparr>bs_phase := ph\<rparr>))
     | (False, ph) \<Rightarrow> st)"

text \<open>The relay of a generation sees the end of its dispatcher.\<close>

definition relay_closed :: "u64 \<Rightarrow> bridge_state \<Rightarrow> bool \<times> bridge_state" where
  "relay_closed g st =
     (case reset_owned_phase g (bs_phase st) of
       (True, ph) \<Rightarrow>
         (True, end_log_generation g (cancel_attempt g (publish_session None (st\<lparr>bs_phase := ph\<rparr>))))
     | (False, ph) \<Rightarrow> (False, st))"

section \<open>What lies between the sections\<close>

text \<open>
  The hello and the capabilities of a new connection. The answers carry the errors of the requests; \<open>parse_caps\<close> is
  the derived reader of the capability list.
\<close>

definition setup_outcome ::
  "wording \<Rightarrow> (handshake_error \<Rightarrow> backend_error) \<Rightarrow> (json \<Rightarrow> capability_descriptor list option)
    \<Rightarrow> backend_error + response_payload \<Rightarrow> backend_error + response_payload
    \<Rightarrow> backend_error + (hello_outcome \<times> capability_descriptor list)" where
  "setup_outcome words of_handshake parse_caps hello_answer caps_answer =
     bind_r hello_answer (\<lambda>hello.
     bind_r (map_err of_handshake (case hello of
         Result v \<Rightarrow> parse_hello_result v
       | Error e \<Rightarrow> Inl (hello_error_to_handshake e))) (\<lambda>outcome.
     bind_r caps_answer (\<lambda>caps.
     bind_r (case caps of
         Result v \<Rightarrow> ok_or (request_error words Malformed_capabilities_text) (parse_caps v)
       | Error e \<Rightarrow> Inl (EngineFailed (error_code_str (be_code e)) (be_message e))) (\<lambda>capabilities.
       Inr (outcome, capabilities)))))"

text \<open>\<open>subscribe_log_stream\<close> up to the request, and from its answer on; \<open>None\<close> is that the request is sent.\<close>

definition subscribe_start ::
  "capability_descriptor list \<Rightarrow> nat \<Rightarrow> log_buffer \<Rightarrow> log_subscription option option \<times> log_buffer" where
  "subscribe_start capabilities g b =
     (let supported = list_ex (\<lambda>c. capability_token_str (cd_name c) = ''log.stream'') capabilities;
          (active, b1) = set_subscription_status_if_active g (if supported then Sub_Pending else Unsupported) b
      in if \<not> active then (Some None, b1)
         else if \<not> supported then (Some (Some \<lparr>ls_status = Unsupported, ls_subscription_id = None\<rparr>), b1)
         else (None, b1))"

definition subscribe_answer :: "nat \<Rightarrow> 'e + response_payload \<Rightarrow> log_buffer \<Rightarrow> log_subscription option \<times> log_buffer" where
  "subscribe_answer g answer b =
     (let subscription = (case answer of
            Inr (Result v) \<Rightarrow> parse_log_subscription_ack v
          | _ \<Rightarrow> \<lparr>ls_status = Sub_Failed, ls_subscription_id = None\<rparr>);
          (still, b1) = set_subscription_status_if_active g (ls_status subscription) b
      in (if still then Some subscription else None, b1))"

lemma subscribe_log_stream_parts:
  "subscribe_log_stream capabilities g env b =
     (case subscribe_start capabilities g b of
       (Some r, b1) \<Rightarrow> (r, b1)
     | (None, b1) \<Rightarrow>
         if se_cancelled_before env then (None, b1)
         else
           (case se_answer env of
             None \<Rightarrow> (None, se_meanwhile env b1)
           | Some answer \<Rightarrow>
               if se_cancelled_after env then (None, se_meanwhile env b1)
               else subscribe_answer g answer (se_meanwhile env b1)))"
  by (simp add: subscribe_log_stream_def subscribe_start_def subscribe_answer_def Let_def
      split: prod.splits option.splits sum.splits response_payload.splits)

definition unsubscribe_request :: "wording \<Rightarrow> live_connection \<Rightarrow> validated_envelope option" where
  "unsubscribe_request words conn =
     Option.bind (lc_log_subscription_id conn) (\<lambda>i.
       case build_request words (CorrelationId (''log-unsub-'' @ nat_dec (unat (lc_generation conn))))
              ''log.unsubscribe'' (Some [(''subscriptionId'', JString i)]) of
         Inl e \<Rightarrow> None
       | Inr request \<Rightarrow> Some request)"

definition live_connection_of ::
  "u64 \<Rightarrow> nat \<Rightarrow> string \<Rightarrow> hello_outcome \<Rightarrow> capability_descriptor list \<Rightarrow> log_subscription \<Rightarrow> live_connection" where
  "live_connection_of token h endpoint hello capabilities subscription =
     \<lparr>lc_generation = token, lc_handle = h, lc_endpoint = endpoint, lc_session_id = ho_session_id hello,
      lc_server_name = ho_server_name hello, lc_capabilities = capabilities,
      lc_log_subscription_id = ls_subscription_id subscription\<rparr>"

section \<open>The relay\<close>

text \<open>The channels of the screen.\<close>

definition ui_channel_for_event :: "string \<Rightarrow> string option" where
  "ui_channel_for_event name = map_of
     [(''log.message'', ''bridge:log-message''), (''runtime.stateChanged'', ''bridge:runtime-state-changed''),
      (''engine.statusChanged'', ''bridge:status-changed''), (''error.reported'', ''bridge:error-reported''),
      (''engine.processExited'', ''bridge:engine-process-exited''), (''viewport.stateChanged'', ''bridge:viewport-state-changed''),
      (''bridge.connected'', ''bridge:bridge-connected''), (''bridge.disconnected'', ''bridge:bridge-disconnected''),
      (''scene.treeChanged'', ''bridge:scene-tree-changed''), (''object.changed'', ''bridge:object-changed'')] name"

text \<open>The section of a log message: whether the message goes on to the screen, and the buffer.\<close>

definition relay_log ::
  "nat \<Rightarrow> (json \<Rightarrow> log_level option) \<Rightarrow> nat option \<Rightarrow> u64 \<Rightarrow> json_map option \<Rightarrow> bridge_state \<Rightarrow> bool \<times> bridge_state" where
  "relay_log entry_size level_of clock g params st =
     (case params of
       None \<Rightarrow> (phase_has_generation (bs_phase st) g, st)
     | Some m \<Rightarrow>
         if \<not> phase_has_generation (bs_phase st) g then (False, st)
         else
           (case record_relay_log entry_size level_of clock (unat g) m (bs_log st) of
             (r, b) \<Rightarrow> (r \<noteq> Inr Stale, st\<lparr>bs_log := b\<rparr>)))"

definition relay_event ::
  "nat \<Rightarrow> (json \<Rightarrow> log_level option) \<Rightarrow> nat option \<Rightarrow> u64 \<Rightarrow> string \<Rightarrow> json_map option \<Rightarrow> bridge_state
    \<Rightarrow> (string \<times> json) option \<times> bridge_state" where
  "relay_event entry_size level_of clock g name params st =
     (case (if name = ''log.message'' then relay_log entry_size level_of clock g params st else (True, st)) of
       (goes_on, st1) \<Rightarrow>
         (if \<not> goes_on then None
          else map_option (\<lambda>channel. (channel, case params of None \<Rightarrow> JNull | Some m \<Rightarrow> JObject m))
                 (ui_channel_for_event name),
          st1))"

definition relay_lagged :: "u64 \<Rightarrow> nat \<Rightarrow> bridge_state \<Rightarrow> bridge_state" where
  "relay_lagged g n st =
     (if phase_has_generation (bs_phase st) g
      then st\<lparr>bs_log := snd (note_missed_events (unat g) n (bs_log st))\<rparr> else st)"

end
