(* ===== verification/Bridge_Tasks.thy ===== *)
theory Bridge_Tasks
  imports Bridge_State
begin

text \<open>
  The tasks around the connection (\<open>connect_service\<close>, \<open>run_connect_flow\<close>, \<open>bridge_reconnect\<close>, the three disconnections and
  \<open>spawn_relay\<close> in \<open>bridge_state.rs\<close>) as a step relation: a step is one section under a lock, one look at a token, or one answer.
\<close>

section \<open>Tasks\<close>

text \<open>What follows the closing of a connection, whole or half built.\<close>

datatype after_close =
    Then_fail u64 backend_error
  | Then_refuse
  | Then_dial u64 nat string
  | Then_notify bool

text \<open>
  The numbers are the generation, the token and the dispatcher of an attempt. \<open>Closing\<close> has its relay aborted or not
  yet; \<open>Returned\<close> is the result of \<open>run_connect_flow\<close>. A disconnection holds what it has taken.
\<close>

datatype bridge_task =
    No_task
  | Connecting_new u64 string
  | Reconnecting_new u64
  | Dialing u64 nat string
  | Setting_up u64 nat string nat
  | Checking_log u64 nat string nat hello_outcome "capability_descriptor list"
  | Starting_log u64 nat string nat hello_outcome "capability_descriptor list"
  | Subscribing u64 nat string nat hello_outcome "capability_descriptor list"
  | Returned u64 "backend_error + live_connection"
  | Settling u64 "backend_error + live_connection"
  | Closing bool nat after_close
  | Cancelling u64 "live_connection option" bool
  | Ending_log u64 "live_connection option" bool
  | Notifying bool
  | Task_done "backend_error + connection_state_dto"

datatype relay_state = Relay_running | Relay_aborted | Relay_ended

text \<open>A dispatcher with its relay: its generation, whether it still runs, whether it was given up by the editor.\<close>

record dispatcher_of =
  do_generation :: u64
  do_running :: bool
  do_relay :: relay_state
  do_released :: bool

text \<open>\<open>by_allocated\<close> counts the attempts; \<open>by_emitted\<close> is what the screen was told, newest last.\<close>

record bridge_system =
  by_state :: bridge_state
  by_task :: "nat \<Rightarrow> bridge_task"
  by_dispatcher :: "nat \<Rightarrow> dispatcher_of option"
  by_allocated :: nat
  by_emitted :: "connection_state_dto list"

definition system_start :: bridge_system where
  "system_start = \<lparr>by_state = bridge_state_default, by_task = (\<lambda>_. No_task), by_dispatcher = (\<lambda>_. None),
     by_allocated = 0, by_emitted = []\<rparr>"

definition put_task :: "nat \<Rightarrow> bridge_task \<Rightarrow> bridge_system \<Rightarrow> bridge_system" where
  "put_task i t s = s\<lparr>by_task := (by_task s)(i := t)\<rparr>"

definition put_state :: "bridge_state \<Rightarrow> bridge_system \<Rightarrow> bridge_system" where
  "put_state st s = s\<lparr>by_state := st\<rparr>"

definition emit :: "connection_state_dto \<Rightarrow> bridge_system \<Rightarrow> bridge_system" where
  "emit c s = s\<lparr>by_emitted := by_emitted s @ [c]\<rparr>"

definition change_dispatcher :: "nat \<Rightarrow> (dispatcher_of \<Rightarrow> dispatcher_of) \<Rightarrow> bridge_system \<Rightarrow> bridge_system" where
  "change_dispatcher h f s = s\<lparr>by_dispatcher := (by_dispatcher s)(h := map_option f (by_dispatcher s h))\<rparr>"

definition abort_relay :: "dispatcher_of \<Rightarrow> dispatcher_of" where
  "abort_relay d = (if do_relay d = Relay_running then d\<lparr>do_relay := Relay_aborted\<rparr> else d)"

text \<open>The shutdown was answered or given up, and the relay joined.\<close>

definition release :: "dispatcher_of \<Rightarrow> dispatcher_of" where
  "release d = d\<lparr>do_relay := Relay_ended, do_released := True\<rparr>"

definition drop_handle :: "live_connection option \<Rightarrow> bridge_system \<Rightarrow> bridge_system" where
  "drop_handle conn s =
     (case conn of None \<Rightarrow> s | Some c \<Rightarrow> change_dispatcher (lc_handle c) (\<lambda>d. d\<lparr>do_released := True\<rparr>) s)"

fun connected_of :: "bridge_phase \<Rightarrow> live_connection option" where
  "connected_of (Phase_connected conn) = Some conn"
| "connected_of _ = None"

section \<open>Turns\<close>

text \<open>A call allocates the generation of its attempt before it waits for the lock.\<close>

definition call_connect :: "nat \<Rightarrow> string \<Rightarrow> bridge_system \<Rightarrow> bridge_system" where
  "call_connect i endpoint s =
     (case alloc_generation (by_state s) of (g, st) \<Rightarrow>
        put_task i (Connecting_new g endpoint) (put_state st (s\<lparr>by_allocated := by_allocated s + 1\<rparr>)))"

definition call_reconnect :: "nat \<Rightarrow> bridge_system \<Rightarrow> bridge_system" where
  "call_reconnect i s =
     (case alloc_generation (by_state s) of (g, st) \<Rightarrow>
        put_task i (Reconnecting_new g) (put_state st (s\<lparr>by_allocated := by_allocated s + 1\<rparr>)))"

definition register_turn :: "nat \<Rightarrow> u64 \<Rightarrow> string \<Rightarrow> bridge_system \<Rightarrow> bridge_system" where
  "register_turn i g endpoint s =
     (case register_attempt g (by_state s) of
       (Inl e, st) \<Rightarrow> put_task i (Task_done (Inl e)) s
     | (Inr token, st) \<Rightarrow> put_task i (Dialing g token endpoint) (put_state st s))"

definition reconnect_turn :: "nat \<Rightarrow> u64 \<Rightarrow> bridge_system \<Rightarrow> bridge_system" where
  "reconnect_turn i g s =
     (case take_for_reconnect g (by_state s) of
       (Inl e, st) \<Rightarrow> put_task i (Task_done (Inl e)) s
     | (Inr (old, token), st) \<Rightarrow>
         put_task i (Closing False (lc_handle old) (Then_dial g token (lc_endpoint old))) (put_state st s))"

text \<open>A new dispatcher with its relay, under a number not used before.\<close>

definition dialed_turn :: "nat \<Rightarrow> nat \<Rightarrow> u64 \<Rightarrow> nat \<Rightarrow> string \<Rightarrow> bridge_system \<Rightarrow> bridge_system" where
  "dialed_turn i h g token endpoint s =
     put_task i (Setting_up g token endpoint h)
       (s\<lparr>by_dispatcher := (by_dispatcher s)(h \<mapsto> \<lparr>do_generation = g, do_running = True, do_relay = Relay_running,
          do_released = False\<rparr>)\<rparr>)"

definition setup_turn ::
  "nat \<Rightarrow> backend_error + (hello_outcome \<times> capability_descriptor list) \<Rightarrow> u64 \<Rightarrow> nat \<Rightarrow> string \<Rightarrow> nat
    \<Rightarrow> bridge_system \<Rightarrow> bridge_system" where
  "setup_turn i outcome g token endpoint h s =
     put_task i
       (case outcome of
         Inl e \<Rightarrow> Closing False h (Then_fail g e)
       | Inr (hello, caps) \<Rightarrow>
           if token \<in> bs_cancelled (by_state s) then Closing False h (Then_fail g NotConnected)
           else Checking_log g token endpoint h hello caps) s"

definition check_log_turn ::
  "nat \<Rightarrow> u64 \<Rightarrow> nat \<Rightarrow> string \<Rightarrow> nat \<Rightarrow> hello_outcome \<Rightarrow> capability_descriptor list \<Rightarrow> bridge_system \<Rightarrow> bridge_system" where
  "check_log_turn i g token endpoint h hello caps s =
     put_task i
       (if phase_has_generation (bs_phase (by_state s)) g then Starting_log g token endpoint h hello caps
        else Closing False h (Then_fail g NotConnected)) s"

text \<open>The subscription has come to an end, without one the connection is given up.\<close>

definition subscribed ::
  "u64 \<Rightarrow> string \<Rightarrow> nat \<Rightarrow> hello_outcome \<Rightarrow> capability_descriptor list \<Rightarrow> log_subscription option \<Rightarrow> bridge_task" where
  "subscribed g endpoint h hello caps subscription =
     (case subscription of
       None \<Rightarrow> Closing False h (Then_fail g NotConnected)
     | Some sub \<Rightarrow> Returned g (Inr (live_connection_of g h endpoint hello caps sub)))"

definition start_log_turn ::
  "nat \<Rightarrow> u64 \<Rightarrow> nat \<Rightarrow> string \<Rightarrow> nat \<Rightarrow> hello_outcome \<Rightarrow> capability_descriptor list \<Rightarrow> bridge_system \<Rightarrow> bridge_system" where
  "start_log_turn i g token endpoint h hello caps s =
     (case subscribe_start caps (unat g) (bs_log (by_state s)) of
       (ended, b) \<Rightarrow>
         put_task i
           (case ended of
             Some subscription \<Rightarrow> subscribed g endpoint h hello caps subscription
           | None \<Rightarrow> Subscribing g token endpoint h hello caps)
           (put_state ((by_state s)\<lparr>bs_log := b\<rparr>) s))"

definition log_answer_turn ::
  "nat \<Rightarrow> backend_error + response_payload \<Rightarrow> u64 \<Rightarrow> string \<Rightarrow> nat \<Rightarrow> hello_outcome \<Rightarrow> capability_descriptor list
    \<Rightarrow> bridge_system \<Rightarrow> bridge_system" where
  "log_answer_turn i answer g endpoint h hello caps s =
     (case subscribe_answer (unat g) answer (bs_log (by_state s)) of
       (subscription, b) \<Rightarrow>
         put_task i (subscribed g endpoint h hello caps subscription) (put_state ((by_state s)\<lparr>bs_log := b\<rparr>) s))"

definition finish_turn :: "nat \<Rightarrow> u64 \<Rightarrow> backend_error + live_connection \<Rightarrow> bridge_system \<Rightarrow> bridge_system" where
  "finish_turn i g r s = put_task i (Settling g r) (put_state (finish_attempt g (by_state s)) s)"

definition settle_turn :: "nat \<Rightarrow> u64 \<Rightarrow> backend_error + live_connection \<Rightarrow> bridge_system \<Rightarrow> bridge_system" where
  "settle_turn i g r s =
     (case r of
       Inl e \<Rightarrow> put_task i (Task_done (Inl e)) (put_state (fail_attempt g (by_state s)) s)
     | Inr conn \<Rightarrow>
         (case commit_attempt g conn (by_state s) of
           (None, st) \<Rightarrow>
             put_task i (Task_done (Inr (connection_state_payload conn)))
               (emit (connection_state_payload conn) (put_state st s))
         | (Some rejected, st) \<Rightarrow> put_task i (Closing False (lc_handle rejected) Then_refuse) s))"

definition abort_turn :: "nat \<Rightarrow> nat \<Rightarrow> after_close \<Rightarrow> bridge_system \<Rightarrow> bridge_system" where
  "abort_turn i h after s = put_task i (Closing True h after) (change_dispatcher h abort_relay s)"

fun after_task :: "after_close \<Rightarrow> bridge_task" where
  "after_task (Then_fail g e) = Returned g (Inl e)"
| "after_task Then_refuse = Task_done (Inl NotConnected)"
| "after_task (Then_dial g token endpoint) = Dialing g token endpoint"
| "after_task (Then_notify tell) = Notifying tell"

definition close_turn :: "nat \<Rightarrow> nat \<Rightarrow> after_close \<Rightarrow> bridge_system \<Rightarrow> bridge_system" where
  "close_turn i h after s = put_task i (after_task after) (change_dispatcher h release s)"

definition call_disconnect :: "nat \<Rightarrow> bool \<Rightarrow> bridge_system \<Rightarrow> bridge_system" where
  "call_disconnect i tell s =
     (case take_phase (by_state s) of
       ((taken, generation), st) \<Rightarrow>
         put_task i (case generation of None \<Rightarrow> Notifying tell | Some g \<Rightarrow> Cancelling g taken tell) (put_state st s))"

definition cancel_turn :: "nat \<Rightarrow> u64 \<Rightarrow> live_connection option \<Rightarrow> bool \<Rightarrow> bridge_system \<Rightarrow> bridge_system" where
  "cancel_turn i g taken tell s = put_task i (Ending_log g taken tell) (put_state (cancel_attempt g (by_state s)) s)"

definition end_log_turn :: "nat \<Rightarrow> u64 \<Rightarrow> live_connection option \<Rightarrow> bool \<Rightarrow> bridge_system \<Rightarrow> bridge_system" where
  "end_log_turn i g taken tell s =
     put_task i
       (case taken of None \<Rightarrow> Notifying tell | Some conn \<Rightarrow> Closing False (lc_handle conn) (Then_notify tell))
       (put_state (end_log_generation g (by_state s)) s)"

text \<open>Of the three disconnections only the command of the screen tells the screen.\<close>

definition disconnected_by_editor :: connection_state_dto where
  "disconnected_by_editor = Disconnected_state ''disconnected by editor''"

definition notify_turn :: "nat \<Rightarrow> bool \<Rightarrow> bridge_system \<Rightarrow> bridge_system" where
  "notify_turn i tell s =
     put_task i (Task_done (Inr disconnected_by_editor)) (if tell then emit disconnected_by_editor s else s)"

text \<open>The relay sees its dispatcher's end; the connection it may have been is dropped with the phase.\<close>

definition relay_closed_turn :: "nat \<Rightarrow> u64 \<Rightarrow> bridge_system \<Rightarrow> bridge_system" where
  "relay_closed_turn h g s =
     (let s1 = change_dispatcher h (\<lambda>d. d\<lparr>do_relay := Relay_ended\<rparr>) s
      in case relay_closed g (by_state s) of
           (False, st) \<Rightarrow> s1
         | (True, st) \<Rightarrow>
             emit (Disconnected_state ''connection closed'')
               (drop_handle (connected_of (bs_phase (by_state s))) (put_state st s1)))"

section \<open>Steps\<close>

definition is_cancelled :: "nat \<Rightarrow> bridge_system \<Rightarrow> bool" where
  "is_cancelled token s \<longleftrightarrow> token \<in> bs_cancelled (by_state s)"

text \<open>A relay that was aborted may still be in its last turn until it is joined.\<close>

inductive bridge_step :: "bridge_system \<Rightarrow> bridge_system \<Rightarrow> bool" where
  connect_called: "by_task s i = No_task \<Longrightarrow> bridge_step s (call_connect i endpoint s)"
| reconnect_called: "by_task s i = No_task \<Longrightarrow> bridge_step s (call_reconnect i s)"
| disconnect_called: "by_task s i = No_task \<Longrightarrow> bridge_step s (call_disconnect i tell s)"
| registered: "by_task s i = Connecting_new g endpoint \<Longrightarrow> bridge_step s (register_turn i g endpoint s)"
| reconnected: "by_task s i = Reconnecting_new g \<Longrightarrow> bridge_step s (reconnect_turn i g s)"
| dial_cancelled: "by_task s i = Dialing g token endpoint \<Longrightarrow> is_cancelled token s \<Longrightarrow>
    bridge_step s (put_task i (Returned g (Inl NotConnected)) s)"
| dial_failed: "by_task s i = Dialing g token endpoint \<Longrightarrow> \<not> is_cancelled token s \<Longrightarrow>
    bridge_step s (put_task i (Returned g (Inl e)) s)"
| dialed: "by_task s i = Dialing g token endpoint \<Longrightarrow> \<not> is_cancelled token s \<Longrightarrow> by_dispatcher s h = None \<Longrightarrow>
    bridge_step s (dialed_turn i h g token endpoint s)"
| set_up: "by_task s i = Setting_up g token endpoint h \<Longrightarrow> bridge_step s (setup_turn i outcome g token endpoint h s)"
| log_checked: "by_task s i = Checking_log g token endpoint h hello caps \<Longrightarrow>
    bridge_step s (check_log_turn i g token endpoint h hello caps s)"
| log_started: "by_task s i = Starting_log g token endpoint h hello caps \<Longrightarrow>
    bridge_step s (start_log_turn i g token endpoint h hello caps s)"
| log_cancelled: "by_task s i = Subscribing g token endpoint h hello caps \<Longrightarrow> is_cancelled token s \<Longrightarrow>
    bridge_step s (put_task i (Closing False h (Then_fail g NotConnected)) s)"
| log_answered: "by_task s i = Subscribing g token endpoint h hello caps \<Longrightarrow> \<not> is_cancelled token s \<Longrightarrow>
    bridge_step s (log_answer_turn i answer g endpoint h hello caps s)"
| finished: "by_task s i = Returned g r \<Longrightarrow> bridge_step s (finish_turn i g r s)"
| settled: "by_task s i = Settling g r \<Longrightarrow> bridge_step s (settle_turn i g r s)"
| aborted: "by_task s i = Closing False h after \<Longrightarrow> bridge_step s (abort_turn i h after s)"
| closed_down: "by_task s i = Closing True h after \<Longrightarrow> bridge_step s (close_turn i h after s)"
| cancelled: "by_task s i = Cancelling g taken tell \<Longrightarrow> bridge_step s (cancel_turn i g taken tell s)"
| log_ended: "by_task s i = Ending_log g taken tell \<Longrightarrow> bridge_step s (end_log_turn i g taken tell s)"
| notified: "by_task s i = Notifying tell \<Longrightarrow> bridge_step s (notify_turn i tell s)"
| dispatcher_ended: "by_dispatcher s h = Some d \<Longrightarrow> bridge_step s (change_dispatcher h (\<lambda>d. d\<lparr>do_running := False\<rparr>) s)"
| relay_event: "by_dispatcher s h = Some d \<Longrightarrow> do_relay d \<noteq> Relay_ended \<Longrightarrow>
    bridge_step s (put_state (snd (Bridge_State.relay_event es lv clock (do_generation d) name params (by_state s))) s)"
| relay_lagged: "by_dispatcher s h = Some d \<Longrightarrow> do_relay d \<noteq> Relay_ended \<Longrightarrow>
    bridge_step s (put_state (relay_lagged (do_generation d) n (by_state s)) s)"
| relay_closed: "by_dispatcher s h = Some d \<Longrightarrow> do_relay d \<noteq> Relay_ended \<Longrightarrow> \<not> do_running d \<Longrightarrow>
    bridge_step s (relay_closed_turn h (do_generation d) s)"

inductive bridge_reach :: "bridge_system \<Rightarrow> bool" where
  start: "bridge_reach system_start"
| step: "bridge_reach s \<Longrightarrow> bridge_step s s' \<Longrightarrow> bridge_reach s'"

inductive_cases bridge_stepE: "bridge_step s s'"

end
