(* ===== verification/Bridge_Laws.thy ===== *)
theory Bridge_Laws
  imports Bridge_Tasks
begin

text \<open>
  The connection under all interleavings of its tasks: what the edit service and MCP see of it agrees with its phase, every
  dispatcher has one owner until it is closed, a live connection is watched by its relay, and an attempt always comes to an end.
\<close>

section \<open>What a section leaves\<close>

text \<open>The session that is published, and the connection of the catalog, are those of the phase.\<close>

definition published :: "bridge_state \<Rightarrow> bool" where
  "published st \<longleftrightarrow> bs_session st = edit_lease (bs_phase st)
     \<and> bs_current_generation st = map_option bg_generation (bs_session st)
     \<and> ct_generation (tc_state (bs_catalog st)) = bs_current_generation st
     \<and> ct_capabilities (tc_state (bs_catalog st))
         = (case bs_session st of None \<Rightarrow> {} | Some l \<Rightarrow> set (map (\<lambda>d. capability_token_str (cd_name d)) (bg_capabilities l)))"

lemma set_connection_state:
  "ct_generation (tc_state (set_connection g cs c)) = g"
  "ct_capabilities (tc_state (set_connection g cs c)) = set (map (\<lambda>d. capability_token_str (cd_name d)) cs)"
  by (simp_all add: set_connection_def notify_changed_def Let_def) (metis catalog_state.select_convs(1,2))+

lemma published_publish: "edit_lease (bs_phase st) = l \<Longrightarrow> published (publish_session l st)"
  by (cases l) (auto simp: published_def publish_session_def set_connection_state)

text \<open>Everything else touches neither the phase nor what is published.\<close>

definition same_phase :: "bridge_state \<Rightarrow> bridge_state \<Rightarrow> bool" where
  "same_phase st st' \<longleftrightarrow> bs_phase st' = bs_phase st \<and> bs_session st' = bs_session st
     \<and> bs_current_generation st' = bs_current_generation st \<and> bs_catalog st' = bs_catalog st"

lemma same_phase_published: "same_phase st st' \<Longrightarrow> published st' = published st"
  by (simp add: same_phase_def published_def)

lemma same_phase_ops [simp]:
  "same_phase st (cancel_attempt g st)" "same_phase st (finish_attempt g st)" "same_phase st (end_log_generation g st)"
  "same_phase st (retire_log_generation g st)" "same_phase st (snd (begin_attempt g st))"
  "same_phase st (snd (alloc_generation st))" "same_phase st (relay_lagged g n st)"
  "same_phase st (snd (Bridge_State.relay_event es lv clock g name params st))" "same_phase st (st\<lparr>bs_log := b\<rparr>)"
  by (simp_all add: same_phase_def cancel_attempt_def finish_attempt_def end_log_generation_def retire_log_generation_def
      begin_attempt_def alloc_generation_def relay_lagged_def Bridge_State.relay_event_def relay_log_def
      split: option.splits prod.splits)

lemma op_fields [simp]:
  "bs_phase (cancel_attempt g st) = bs_phase st" "bs_phase (finish_attempt g st) = bs_phase st"
  "bs_phase (end_log_generation g st) = bs_phase st" "bs_phase (retire_log_generation g st) = bs_phase st"
  "bs_phase (publish_session l st) = bs_phase st" "bs_phase (relay_lagged g n st) = bs_phase st"
  "bs_phase (snd (Bridge_State.relay_event es lv clock g name params st)) = bs_phase st"
  "bs_phase (snd (begin_attempt g st)) = bs_phase st"
  "bs_next_generation (cancel_attempt g st) = bs_next_generation st"
  "bs_next_generation (finish_attempt g st) = bs_next_generation st"
  "bs_next_generation (end_log_generation g st) = bs_next_generation st"
  "bs_next_generation (retire_log_generation g st) = bs_next_generation st"
  "bs_next_generation (publish_session l st) = bs_next_generation st"
  "bs_next_generation (relay_lagged g n st) = bs_next_generation st"
  "bs_next_generation (snd (Bridge_State.relay_event es lv clock g name params st)) = bs_next_generation st"
  "bs_next_generation (snd (begin_attempt g st)) = bs_next_generation st"
  by (simp_all add: cancel_attempt_def finish_attempt_def end_log_generation_def retire_log_generation_def
      publish_session_def begin_attempt_def relay_lagged_def Bridge_State.relay_event_def relay_log_def
      split: option.splits prod.splits)

lemma published_changes:
  "same_phase (publish_session None st) st' \<Longrightarrow> edit_lease (bs_phase st) = None \<Longrightarrow> published st'"
  using same_phase_published published_publish by blast

text \<open>What the sections that move the phase make of it.\<close>

lemma register_cases:
  obtains (new) token st' where "bs_phase st = Phase_disconnected" "register_attempt g st = (Inr token, st')"
      "bs_phase st' = Phase_connecting g" "bs_next_generation st' = bs_next_generation st" "published st'"
    | (busy) "register_attempt g st = (Inl AlreadyConnected, st)"
proof (cases "bs_phase st")
  case Phase_disconnected
  let ?st = "publish_session None (st\<lparr>bs_phase := Phase_connecting g\<rparr>)"
  obtain token st' where begun: "begin_attempt g ?st = (token, st')" by (metis prod.exhaust)
  then have "st' = snd (begin_attempt g ?st)" by simp
  then have "bs_phase st' = Phase_connecting g" "bs_next_generation st' = bs_next_generation st" "same_phase ?st st'"
    by simp_all
  moreover have "published ?st" by (simp add: published_publish)
  ultimately show ?thesis using new Phase_disconnected begun same_phase_published
    by (auto simp: register_attempt_def)
qed (auto simp: register_attempt_def intro: busy)

lemma reconnect_cases:
  obtains (old) conn token st' where "bs_phase st = Phase_connected conn"
      "take_for_reconnect g st = (Inr (conn, token), st')"
      "bs_phase st' = Phase_connecting g" "bs_next_generation st' = bs_next_generation st" "published st'"
    | (busy) e where "take_for_reconnect g st = (Inl e, st)"
proof (cases "bs_phase st")
  case (Phase_connected conn)
  let ?st = "publish_session None (retire_log_generation (lc_generation conn) (st\<lparr>bs_phase := Phase_connecting g\<rparr>))"
  obtain token st' where begun: "begin_attempt g ?st = (token, st')" by (metis prod.exhaust)
  then have "st' = snd (begin_attempt g ?st)" by simp
  then have "bs_phase st' = Phase_connecting g" "bs_next_generation st' = bs_next_generation st" "same_phase ?st st'"
    by simp_all
  moreover have "published ?st" by (simp add: published_publish)
  ultimately show ?thesis using old Phase_connected begun same_phase_published
    by (auto simp: take_for_reconnect_def)
qed (auto simp: take_for_reconnect_def intro: busy)

lemma take_phase_state:
  "bs_phase (snd (take_phase st)) = Phase_disconnected"
  "bs_next_generation (snd (take_phase st)) = bs_next_generation st" "published (snd (take_phase st))"
  by (simp_all add: take_phase_def published_publish)

lemma commit_cases:
  obtains (committed) st' where "bs_phase st = Phase_connecting g" "commit_attempt g conn st = (None, st')"
      "bs_phase st' = Phase_connected conn" "bs_next_generation st' = bs_next_generation st" "published st'"
    | (refused) "bs_phase st \<noteq> Phase_connecting g" "commit_attempt g conn st = (Some conn, st)"
proof (cases "bs_phase st = Phase_connecting g")
  case True
  let ?st = "publish_session (edit_lease (Phase_connected conn)) (st\<lparr>bs_phase := Phase_connected conn\<rparr>)"
  have "commit_attempt g conn st = (None, ?st)" using True by (simp add: commit_attempt_def try_commit_connection_def)
  moreover have "published ?st" by (simp add: published_publish)
  ultimately show ?thesis using True committed by (auto simp: publish_session_def)
qed (auto simp: commit_attempt_def try_commit_connection_def intro: refused)

lemma fail_attempt_state:
  "bs_phase (fail_attempt g st) = (if bs_phase st = Phase_connecting g then Phase_disconnected else bs_phase st)"
  "bs_next_generation (fail_attempt g st) = bs_next_generation st" "published st \<Longrightarrow> published (fail_attempt g st)"
proof -
  have "published (end_log_generation g (publish_session None (st\<lparr>bs_phase := Phase_disconnected\<rparr>)))"
    by (rule published_changes [where st = "st\<lparr>bs_phase := Phase_disconnected\<rparr>"]) simp_all
  then show "published st \<Longrightarrow> published (fail_attempt g st)"
    by (simp add: fail_attempt_def reset_connecting_if_matches_def)
qed (simp_all add: fail_attempt_def reset_connecting_if_matches_def)

lemma closed_cases:
  obtains (reset) st' where "phase_has_generation (bs_phase st) g" "Bridge_State.relay_closed g st = (True, st')"
      "bs_phase st' = Phase_disconnected" "bs_next_generation st' = bs_next_generation st" "published st'"
    | (stale) "\<not> phase_has_generation (bs_phase st) g" "Bridge_State.relay_closed g st = (False, st)"
proof (cases "phase_has_generation (bs_phase st) g")
  case True
  let ?st = "publish_session None (st\<lparr>bs_phase := Phase_disconnected\<rparr>)"
  let ?st' = "end_log_generation g (cancel_attempt g ?st)"
  have "published ?st" by (simp add: published_publish)
  then have "published ?st'" using same_phase_published same_phase_ops(1,3) by blast
  then show ?thesis using True reset [of ?st'] by (simp add: Bridge_State.relay_closed_def reset_owned_phase_def)
qed (auto simp: Bridge_State.relay_closed_def reset_owned_phase_def intro: stale)

lemma same_phase_refl [simp]: "same_phase st st"
  by (simp add: same_phase_def)

lemma by_state_simps [simp]:
  "by_state (put_task i t s) = by_state s" "by_state (put_state st s) = st" "by_state (emit c s) = by_state s"
  "by_state (change_dispatcher h f s) = by_state s" "by_state (drop_handle conn s) = by_state s"
  by (simp_all add: put_task_def put_state_def emit_def change_dispatcher_def drop_handle_def split: option.splits)

lemmas plain_turns = setup_turn_def check_log_turn_def finish_turn_def abort_turn_def close_turn_def cancel_turn_def
  end_log_turn_def dialed_turn_def

lemma step_phase: "bridge_step s s' \<Longrightarrow> same_phase (by_state s) (by_state s') \<or> (published (by_state s) \<longrightarrow> published (by_state s'))"
proof (induction rule: bridge_step.induct)
  case (registered s i g endpoint)
  then show ?case by (cases rule: register_cases [of "by_state s" g]) (auto simp: register_turn_def)
next
  case (reconnected s i g)
  then show ?case by (cases rule: reconnect_cases [of "by_state s" g]) (auto simp: reconnect_turn_def)
next
  case (settled s i g r)
  then show ?case
    by (cases r; cases rule: commit_cases [of "by_state s" g "projr r"]) (auto simp: settle_turn_def fail_attempt_state)
next
  case (relay_closed s h d)
  then show ?case
    by (cases rule: closed_cases [of "by_state s" "do_generation d"]) (auto simp: relay_closed_turn_def Let_def)
next
  case (disconnect_called s i tell)
  then show ?case using take_phase_state(3) [of "by_state s"]
    by (auto simp: call_disconnect_def split: prod.splits)
next
  case (connect_called s i endpoint)
  then show ?case by (simp add: call_connect_def alloc_generation_def same_phase_def)
next
  case (reconnect_called s i)
  then show ?case by (simp add: call_reconnect_def alloc_generation_def same_phase_def)
next
  case (log_started s i g token endpoint h hello caps)
  then show ?case by (simp add: start_log_turn_def split: prod.splits)
next
  case (log_answered s i g token endpoint h hello caps answer)
  then show ?case by (simp add: log_answer_turn_def split: prod.splits)
next
  case (notified s i tell)
  then show ?case by (simp add: notify_turn_def)
qed (simp_all add: plain_turns)

lemma published_step: "bridge_step s s' \<Longrightarrow> published (by_state s) \<Longrightarrow> published (by_state s')"
  using step_phase same_phase_published by blast

section \<open>Owners of dispatchers\<close>

fun task_handle :: "bridge_task \<Rightarrow> nat option" where
  "task_handle (Setting_up g token endpoint h) = Some h"
| "task_handle (Checking_log g token endpoint h hello caps) = Some h"
| "task_handle (Starting_log g token endpoint h hello caps) = Some h"
| "task_handle (Subscribing g token endpoint h hello caps) = Some h"
| "task_handle (Returned g (Inr conn)) = Some (lc_handle conn)"
| "task_handle (Settling g (Inr conn)) = Some (lc_handle conn)"
| "task_handle (Closing aborted h after) = Some h"
| "task_handle (Cancelling g taken tell) = map_option lc_handle taken"
| "task_handle (Ending_log g taken tell) = map_option lc_handle taken"
| "task_handle _ = None"

definition phase_handle :: "bridge_phase \<Rightarrow> nat option" where
  "phase_handle ph = map_option lc_handle (connected_of ph)"

text \<open>What a task holds, and what the phase (\<open>None\<close>) holds.\<close>

definition holding :: "bridge_system \<Rightarrow> nat option \<Rightarrow> nat option" where
  "holding s x = (case x of None \<Rightarrow> phase_handle (bs_phase (by_state s)) | Some i \<Rightarrow> task_handle (by_task s i))"

definition kept :: "bridge_system \<Rightarrow> nat \<Rightarrow> bool" where
  "kept s h \<longleftrightarrow> (\<exists>d. by_dispatcher s h = Some d \<and> \<not> do_released d)"

text \<open>Every dispatcher that is kept has one owner, and nothing else has an owner.\<close>

definition owned :: "(nat option \<Rightarrow> nat option) \<Rightarrow> (nat \<Rightarrow> bool) \<Rightarrow> bool" where
  "owned f R \<longleftrightarrow> (\<forall>x y h. f x = Some h \<longrightarrow> f y = Some h \<longrightarrow> x = y) \<and> (\<forall>h. (\<exists>x. f x = Some h) \<longleftrightarrow> R h)"

lemma holding_simps [simp]:
  "holding (put_task i t s) = (holding s)(Some i := task_handle t)"
  "holding (put_state st s) = (holding s)(None := phase_handle (bs_phase st))"
  "holding (emit c s) = holding s" "holding (change_dispatcher h f s) = holding s" "holding (drop_handle conn s) = holding s"
  "holding (s\<lparr>by_allocated := n\<rparr>) = holding s" "holding (s\<lparr>by_dispatcher := D\<rparr>) = holding s"
  by (auto simp: holding_def put_task_def put_state_def emit_def change_dispatcher_def drop_handle_def fun_eq_iff
      split: option.splits)

lemma kept_simps [simp]:
  "kept (put_task i t s) = kept s" "kept (put_state st s) = kept s" "kept (emit c s) = kept s"
  "kept (s\<lparr>by_allocated := n\<rparr>) = kept s"
  by (auto simp: kept_def put_task_def put_state_def emit_def fun_eq_iff)

lemma kept_change:
  "(\<And>d. do_released (f d) = do_released d) \<Longrightarrow> kept (change_dispatcher h f s) = kept s"
  "(\<And>d. do_released (f d)) \<Longrightarrow> kept (change_dispatcher h f s) = (kept s)(h := False)"
  by (auto simp: kept_def change_dispatcher_def fun_eq_iff)

lemma phase_handle_simps [simp]:
  "phase_handle Phase_disconnected = None" "phase_handle (Phase_connecting g) = None"
  "phase_handle (Phase_connected conn) = Some (lc_handle conn)"
  by (simp_all add: phase_handle_def)

lemma owned_keep: "owned f R \<Longrightarrow> f x = v \<Longrightarrow> owned (f(x := v)) R"
  by (simp add: fun_upd_idem)

lemma owned_at:
  assumes "owned f R"
  shows "f x = Some h \<Longrightarrow> f y = Some h \<Longrightarrow> x = y" "f x = Some h \<Longrightarrow> R h" "R h \<Longrightarrow> \<exists>x. f x = Some h"
  using assms by (auto simp: owned_def)

lemma ownedI:
  assumes "\<And>x y h. f x = Some h \<Longrightarrow> f y = Some h \<Longrightarrow> x = y" "\<And>x h. f x = Some h \<Longrightarrow> R h"
    "\<And>h. R h \<Longrightarrow> \<exists>x. f x = Some h"
  shows "owned f R"
  using assms by (auto simp: owned_def)

lemma owned_move:
  assumes "owned f R" "f x = Some h" "f y = None"
  shows "owned (f(x := None, y := Some h)) R"
proof (rule ownedI)
  note at = owned_at [OF assms(1)]
  show "a = b" if "(f(x := None, y := Some h)) a = Some k" "(f(x := None, y := Some h)) b = Some k" for a b k
    using that at(1) assms(2) by (metis fun_upd_apply option.distinct(1) option.inject)
  show "R k" if "(f(x := None, y := Some h)) a = Some k" for a k
    using that assms(2) at(2) by (auto split: if_splits)
  show "\<exists>a. (f(x := None, y := Some h)) a = Some k" if r: "R k" for k
  proof -
    obtain a where a: "f a = Some k" using at(3) [OF r] by blast
    show ?thesis
    proof (cases "k = h")
      case True
      then show ?thesis by (intro exI [of _ y]) simp
    next
      case False
      then have "a \<noteq> x" "a \<noteq> y" using a assms(2,3) by auto
      then show ?thesis using a by (intro exI [of _ a]) simp
    qed
  qed
qed

lemma owned_drop:
  assumes "owned f R" "f x = Some h"
  shows "owned (f(x := None)) (R(h := False))"
proof (rule ownedI)
  note at = owned_at [OF assms(1)]
  show "a = b" if "(f(x := None)) a = Some k" "(f(x := None)) b = Some k" for a b k
    using that at(1) by (metis fun_upd_apply option.distinct(1))
  show "(R(h := False)) k" if "(f(x := None)) a = Some k" for a k
    using that at(1,2) assms(2) by (metis fun_upd_apply option.distinct(1))
  show "\<exists>a. (f(x := None)) a = Some k" if r: "(R(h := False)) k" for k
  proof -
    have "R k" using r by (auto split: if_splits)
    then obtain a where "f a = Some k" using at(3) by blast
    then show ?thesis using r assms(2) by (intro exI [of _ a]) (auto split: if_splits)
  qed
qed

lemma owned_new:
  assumes "owned f R" "f x = None" "\<not> R h"
  shows "owned (f(x := Some h)) (R(h := True))"
proof (rule ownedI)
  note at = owned_at [OF assms(1)]
  show "a = b" if "(f(x := Some h)) a = Some k" "(f(x := Some h)) b = Some k" for a b k
    using that at(1,2) assms(3) by (metis fun_upd_apply option.inject)
  show "(R(h := True)) k" if "(f(x := Some h)) a = Some k" for a k
    using that at(2) by (auto split: if_splits)
  show "\<exists>a. (f(x := Some h)) a = Some k" if r: "(R(h := True)) k" for k
  proof (cases "k = h")
    case True
    then show ?thesis by (intro exI [of _ x]) simp
  next
    case False
    then have "R k" using r by simp
    then obtain a where "f a = Some k" using at(3) by blast
    then show ?thesis using assms(2) by (intro exI [of _ a]) auto
  qed
qed

definition owners_ok :: "bridge_system \<Rightarrow> bool" where
  "owners_ok s \<longleftrightarrow> owned (holding s) (kept s)"

lemma holding_at [simp]:
  "holding s (Some i) = task_handle (by_task s i)" "holding s None = phase_handle (bs_phase (by_state s))"
  by (simp_all add: holding_def)

lemma kept_frame [simp]:
  "kept (change_dispatcher h abort_relay s) = kept s"
  "kept (change_dispatcher h (\<lambda>d. d\<lparr>do_running := b\<rparr>) s) = kept s"
  "kept (change_dispatcher h (\<lambda>d. d\<lparr>do_relay := r\<rparr>) s) = kept s"
  "kept (change_dispatcher h release s) = (kept s)(h := False)"
  "kept (drop_handle (Some conn) s) = (kept s)(lc_handle conn := False)" "kept (drop_handle None s) = kept s"
  by (simp_all add: kept_change abort_relay_def release_def drop_handle_def)

text \<open>A task that keeps its dispatcher, or hands it to nobody, and a section that leaves the phase.\<close>

lemma owners_task: "owners_ok s \<Longrightarrow> task_handle t = task_handle (by_task s i) \<Longrightarrow> owners_ok (put_task i t s)"
  by (simp add: owners_ok_def owned_keep)

lemma owners_state: "owners_ok s \<Longrightarrow> phase_handle (bs_phase st) = phase_handle (bs_phase (by_state s)) \<Longrightarrow> owners_ok (put_state st s)"
  by (simp add: owners_ok_def owned_keep)

lemma owners_same [simp]:
  "owners_ok (emit c s) = owners_ok s" "owners_ok (s\<lparr>by_allocated := n\<rparr>) = owners_ok s"
  "owners_ok (change_dispatcher h abort_relay s) = owners_ok s"
  "owners_ok (change_dispatcher h (\<lambda>d. d\<lparr>do_running := b\<rparr>) s) = owners_ok s"
  "owners_ok (change_dispatcher h (\<lambda>d. d\<lparr>do_relay := r\<rparr>) s) = owners_ok s"
  by (simp_all add: owners_ok_def)

lemma by_task_simps [simp]:
  "by_task (put_state st s) = by_task s" "by_task (emit c s) = by_task s" "by_task (change_dispatcher h f s) = by_task s"
  "by_task (s\<lparr>by_allocated := n\<rparr>) = by_task s" "by_task (drop_handle conn s) = by_task s"
  "by_task (put_task i t s) = (by_task s)(i := t)"
  by (simp_all add: put_state_def emit_def change_dispatcher_def drop_handle_def put_task_def split: option.splits)

lemma subscribed_handle: "task_handle (subscribed g endpoint h hello caps sub) = Some h"
  by (cases sub) (simp_all add: subscribed_def live_connection_of_def)

lemma after_handle: "task_handle (after_task after) = None"
  by (cases after) simp_all

lemma dialed_kept: "by_dispatcher s h = None \<Longrightarrow> kept (dialed_turn i h g token endpoint s) = (kept s)(h := True) \<and> \<not> kept s h"
  by (auto simp: kept_def dialed_turn_def put_task_def fun_eq_iff)

lemma owners_step: "bridge_step s s' \<Longrightarrow> owners_ok s \<Longrightarrow> owners_ok s'"
proof (induction rule: bridge_step.induct)
  case (registered s i g endpoint)
  then show ?case
    by (cases rule: register_cases [of "by_state s" g])
       (auto simp: register_turn_def intro!: owners_task owners_state)
next
  case (reconnected s i g)
  show ?case
  proof (cases rule: reconnect_cases [of "by_state s" g])
    case (old conn token st')
    have "owned ((holding s)(None := None, Some i := Some (lc_handle conn))) (kept s)"
      using reconnected old(1) by (intro owned_move) (simp_all add: owners_ok_def)
    then show ?thesis using old by (simp add: reconnect_turn_def owners_ok_def)
  next
    case busy
    then show ?thesis using reconnected by (auto simp: reconnect_turn_def intro!: owners_task)
  qed
next
  case (disconnect_called s i tell)
  obtain conn g st where taken: "take_phase (by_state s) = ((conn, g), st)" by (metis prod.collapse)
  then have st: "bs_phase st = Phase_disconnected" using take_phase_state(1) [of "by_state s"] by simp
  show ?case
  proof (cases "bs_phase (by_state s)")
    case (Phase_connected c)
    have "owned ((holding s)(None := None, Some i := Some (lc_handle c))) (kept s)"
      using disconnect_called Phase_connected by (intro owned_move) (simp_all add: owners_ok_def)
    then show ?thesis using taken st Phase_connected
      by (auto simp: call_disconnect_def owners_ok_def take_phase_def)
  qed (insert disconnect_called taken st, auto simp: call_disconnect_def take_phase_def intro!: owners_task owners_state)
next
  case (dialed s i g token endpoint h)
  note new = dialed_kept [OF dialed(3), of i g token endpoint]
  have "owned ((holding s)(Some i := Some h)) ((kept s)(h := True))"
    using dialed new by (intro owned_new) (simp_all add: owners_ok_def)
  then show ?case using new by (simp add: owners_ok_def dialed_turn_def)
next
  case (settled s i g r)
  show ?case
  proof (cases r)
    case (Inl e)
    then show ?thesis using settled
      by (auto simp: settle_turn_def fail_attempt_state intro!: owners_task owners_state)
  next
    case (Inr conn)
    show ?thesis
    proof (cases rule: commit_cases [of "by_state s" g conn])
      case (committed st')
      have "owned ((holding s)(Some i := None, None := Some (lc_handle conn))) (kept s)"
        using settled Inr committed by (intro owned_move) (simp_all add: owners_ok_def)
      then have "owned ((holding s)(None := Some (lc_handle conn), Some i := None)) (kept s)"
        by (simp add: fun_upd_twist)
      then show ?thesis using Inr committed by (simp add: settle_turn_def owners_ok_def)
    next
      case refused
      then show ?thesis using settled Inr by (auto simp: settle_turn_def intro!: owners_task)
    qed
  qed
next
  case (closed_down s i h after)
  have "owned ((holding s)(Some i := None)) ((kept s)(h := False))"
    using closed_down by (intro owned_drop) (simp_all add: owners_ok_def)
  then show ?case by (simp add: close_turn_def owners_ok_def after_handle)
next
  case (relay_closed s h d)
  show ?case
  proof (cases rule: closed_cases [of "by_state s" "do_generation d"])
    case (reset st')
    show ?thesis
    proof (cases "bs_phase (by_state s)")
      case (Phase_connected conn)
      have "owned ((holding s)(None := None)) ((kept s)(lc_handle conn := False))"
        using relay_closed Phase_connected by (intro owned_drop) (simp_all add: owners_ok_def)
      then show ?thesis using reset Phase_connected by (simp add: relay_closed_turn_def owners_ok_def Let_def)
    qed (insert relay_closed reset, auto simp: relay_closed_turn_def Let_def drop_handle_def intro!: owners_state)
  next
    case stale
    then show ?thesis using relay_closed by (simp add: relay_closed_turn_def Let_def)
  qed
next
  case (connect_called s i endpoint)
  then show ?case by (auto simp: call_connect_def alloc_generation_def intro!: owners_task owners_state)
next
  case (reconnect_called s i)
  then show ?case by (auto simp: call_reconnect_def alloc_generation_def intro!: owners_task owners_state)
next
  case (set_up s i g token endpoint h outcome)
  then show ?case by (cases outcome) (auto simp: setup_turn_def intro!: owners_task)
next
  case (log_started s i g token endpoint h hello caps)
  then show ?case by (auto simp: start_log_turn_def subscribed_handle split: prod.splits option.splits intro!: owners_task owners_state)
next
  case (log_answered s i g token endpoint h hello caps answer)
  then show ?case by (auto simp: log_answer_turn_def subscribed_handle split: prod.splits intro!: owners_task owners_state)
next
  case (finished s i g r)
  then show ?case by (cases r) (auto simp: finish_turn_def intro!: owners_task owners_state)
next
  case (log_ended s i g taken tell)
  then show ?case by (cases taken) (auto simp: end_log_turn_def intro!: owners_task owners_state)
next
  case (notified s i tell)
  then show ?case by (auto simp: notify_turn_def intro!: owners_task)
qed (auto simp: check_log_turn_def abort_turn_def cancel_turn_def intro!: owners_task owners_state)

section \<open>Generations\<close>

text \<open>The attempt of a task; it is not entered yet in the first two, and has no dispatcher before it has dialed.\<close>

fun task_attempt :: "bridge_task \<Rightarrow> u64 option" where
  "task_attempt (Connecting_new g endpoint) = Some g"
| "task_attempt (Reconnecting_new g) = Some g"
| "task_attempt (Dialing g token endpoint) = Some g"
| "task_attempt (Setting_up g token endpoint h) = Some g"
| "task_attempt (Checking_log g token endpoint h hello caps) = Some g"
| "task_attempt (Starting_log g token endpoint h hello caps) = Some g"
| "task_attempt (Subscribing g token endpoint h hello caps) = Some g"
| "task_attempt (Returned g r) = Some g"
| "task_attempt (Settling g r) = Some g"
| "task_attempt (Closing aborted h (Then_fail g e)) = Some g"
| "task_attempt (Closing aborted h (Then_dial g token endpoint)) = Some g"
| "task_attempt _ = None"

fun unregistered :: "bridge_task \<Rightarrow> bool" where
  "unregistered (Connecting_new g endpoint) = True"
| "unregistered (Reconnecting_new g) = True"
| "unregistered _ = False"

fun undialed :: "bridge_task \<Rightarrow> bool" where
  "undialed (Connecting_new g endpoint) = True"
| "undialed (Reconnecting_new g) = True"
| "undialed (Dialing g token endpoint) = True"
| "undialed (Closing aborted h (Then_dial g token endpoint)) = True"
| "undialed _ = False"

text \<open>The dispatcher of the attempt itself, while it is built.\<close>

fun building :: "bridge_task \<Rightarrow> nat option" where
  "building (Setting_up g token endpoint h) = Some h"
| "building (Checking_log g token endpoint h hello caps) = Some h"
| "building (Starting_log g token endpoint h hello caps) = Some h"
| "building (Subscribing g token endpoint h hello caps) = Some h"
| "building (Returned g (Inr conn)) = Some (lc_handle conn)"
| "building (Settling g (Inr conn)) = Some (lc_handle conn)"
| "building _ = None"

fun conn_of_attempt :: "bridge_task \<Rightarrow> bool" where
  "conn_of_attempt (Returned g (Inr conn)) = (lc_generation conn = g)"
| "conn_of_attempt (Settling g (Inr conn)) = (lc_generation conn = g)"
| "conn_of_attempt _ = True"

text \<open>A relay that still does its duty: it runs, or it has ended and its generation has nothing any more.\<close>

definition watching :: "bridge_phase \<Rightarrow> dispatcher_of \<Rightarrow> bool" where
  "watching ph d \<longleftrightarrow> do_relay d = Relay_running \<or> (do_relay d = Relay_ended \<and> \<not> phase_has_generation ph (do_generation d))"

definition gens :: "nat \<Rightarrow> u64 \<Rightarrow> bridge_phase \<Rightarrow> (nat \<Rightarrow> bridge_task) \<Rightarrow> (nat \<Rightarrow> dispatcher_of option) \<Rightarrow> bool" where
  "gens n nx ph T D \<longleftrightarrow> nx = of_nat n
     \<and> (\<forall>i g. task_attempt (T i) = Some g \<longrightarrow> unat g < n)
     \<and> (\<forall>g. phase_has_generation ph g \<longrightarrow> unat g < n)
     \<and> (\<forall>h d. D h = Some d \<longrightarrow> unat (do_generation d) < n)
     \<and> (\<forall>i j g. task_attempt (T i) = Some g \<longrightarrow> task_attempt (T j) = Some g \<longrightarrow> i = j)
     \<and> (\<forall>g. ph = Phase_connecting g \<longrightarrow> (\<exists>i. task_attempt (T i) = Some g \<and> \<not> unregistered (T i)))
     \<and> (\<forall>i g. task_attempt (T i) = Some g \<longrightarrow> unregistered (T i) \<longrightarrow> \<not> phase_has_generation ph g)
     \<and> (\<forall>i g h d. task_attempt (T i) = Some g \<longrightarrow> undialed (T i) \<longrightarrow> D h = Some d \<longrightarrow> do_generation d \<noteq> g)
     \<and> (\<forall>i conn. ph = Phase_connected conn \<longrightarrow> task_attempt (T i) \<noteq> Some (lc_generation conn))
     \<and> (\<forall>i h. building (T i) = Some h \<longrightarrow>
          (\<exists>d. D h = Some d \<and> task_attempt (T i) = Some (do_generation d) \<and> watching ph d) \<and> conn_of_attempt (T i))
     \<and> (\<forall>conn. ph = Phase_connected conn \<longrightarrow>
          (\<exists>d. D (lc_handle conn) = Some d \<and> do_generation d = lc_generation conn \<and> do_relay d = Relay_running))
     \<and> (\<forall>h h' d d'. D h = Some d \<longrightarrow> D h' = Some d' \<longrightarrow> do_generation d = do_generation d' \<longrightarrow> h = h')"

lemmas gensD =
  gens_def [THEN iffD1, THEN conjunct1]
  gens_def [THEN iffD1, THEN conjunct2, THEN conjunct1, rule_format]
  gens_def [THEN iffD1, THEN conjunct2, THEN conjunct2, THEN conjunct1, rule_format]
  gens_def [THEN iffD1, THEN conjunct2, THEN conjunct2, THEN conjunct2, THEN conjunct1, rule_format]
  gens_def [THEN iffD1, THEN conjunct2, THEN conjunct2, THEN conjunct2, THEN conjunct2, THEN conjunct1, rule_format]
  gens_def [THEN iffD1, THEN conjunct2, THEN conjunct2, THEN conjunct2, THEN conjunct2, THEN conjunct2, THEN conjunct1, rule_format]
  gens_def [THEN iffD1, THEN conjunct2, THEN conjunct2, THEN conjunct2, THEN conjunct2, THEN conjunct2, THEN conjunct2, THEN conjunct1, rule_format]
  gens_def [THEN iffD1, THEN conjunct2, THEN conjunct2, THEN conjunct2, THEN conjunct2, THEN conjunct2, THEN conjunct2, THEN conjunct2, THEN conjunct1, rule_format]
  gens_def [THEN iffD1, THEN conjunct2, THEN conjunct2, THEN conjunct2, THEN conjunct2, THEN conjunct2, THEN conjunct2, THEN conjunct2, THEN conjunct2, THEN conjunct1, rule_format]
  gens_def [THEN iffD1, THEN conjunct2, THEN conjunct2, THEN conjunct2, THEN conjunct2, THEN conjunct2, THEN conjunct2, THEN conjunct2, THEN conjunct2, THEN conjunct2, THEN conjunct1, rule_format, THEN conjunct1]
  gens_def [THEN iffD1, THEN conjunct2, THEN conjunct2, THEN conjunct2, THEN conjunct2, THEN conjunct2, THEN conjunct2, THEN conjunct2, THEN conjunct2, THEN conjunct2, THEN conjunct1, rule_format, THEN conjunct2]
  gens_def [THEN iffD1, THEN conjunct2, THEN conjunct2, THEN conjunct2, THEN conjunct2, THEN conjunct2, THEN conjunct2, THEN conjunct2, THEN conjunct2, THEN conjunct2, THEN conjunct2, THEN conjunct1, rule_format]
  gens_def [THEN iffD1, THEN conjunct2, THEN conjunct2, THEN conjunct2, THEN conjunct2, THEN conjunct2, THEN conjunct2, THEN conjunct2, THEN conjunct2, THEN conjunct2, THEN conjunct2, THEN conjunct2, rule_format]

lemma gensI:
  assumes "nx = of_nat n" "\<And>i g. task_attempt (T i) = Some g \<Longrightarrow> unat g < n" "\<And>g. phase_has_generation ph g \<Longrightarrow> unat g < n"
    "\<And>h d. D h = Some d \<Longrightarrow> unat (do_generation d) < n"
    "\<And>i j g. task_attempt (T i) = Some g \<Longrightarrow> task_attempt (T j) = Some g \<Longrightarrow> i = j"
    "\<And>g. ph = Phase_connecting g \<Longrightarrow> \<exists>i. task_attempt (T i) = Some g \<and> \<not> unregistered (T i)"
    "\<And>i g. task_attempt (T i) = Some g \<Longrightarrow> unregistered (T i) \<Longrightarrow> \<not> phase_has_generation ph g"
    "\<And>i g h d. task_attempt (T i) = Some g \<Longrightarrow> undialed (T i) \<Longrightarrow> D h = Some d \<Longrightarrow> do_generation d \<noteq> g"
    "\<And>i conn. ph = Phase_connected conn \<Longrightarrow> task_attempt (T i) \<noteq> Some (lc_generation conn)"
    "\<And>i h. building (T i) = Some h \<Longrightarrow>
      (\<exists>d. D h = Some d \<and> task_attempt (T i) = Some (do_generation d) \<and> watching ph d) \<and> conn_of_attempt (T i)"
    "\<And>conn. ph = Phase_connected conn \<Longrightarrow>
      \<exists>d. D (lc_handle conn) = Some d \<and> do_generation d = lc_generation conn \<and> do_relay d = Relay_running"
    "\<And>h h' d d'. D h = Some d \<Longrightarrow> D h' = Some d' \<Longrightarrow> do_generation d = do_generation d' \<Longrightarrow> h = h'"
  shows "gens n nx ph T D"
  unfolding gens_def
proof (intro conjI, goal_cases)
  case 1
  then show ?case using assms(1) .
next
  case 2
  then show ?case using assms(2) by blast
next
  case 3
  then show ?case using assms(3) by blast
next
  case 4
  then show ?case using assms(4) by blast
next
  case 5
  then show ?case using assms(5) by blast
next
  case 6
  then show ?case using assms(6) by blast
next
  case 7
  then show ?case using assms(7) by blast
next
  case 8
  then show ?case using assms(8) by blast
next
  case 9
  then show ?case using assms(9) by blast
next
  case 10
  then show ?case using assms(10) by blast
next
  case 11
  then show ?case using assms(11) by blast
next
  case 12
  then show ?case using assms(12) by blast
qed

text \<open>A task that goes on with its attempt: it may have entered it, dialed, and let its dispatcher go.\<close>

definition goes_on :: "bridge_task \<Rightarrow> bridge_task \<Rightarrow> bool" where
  "goes_on t t' \<longleftrightarrow> task_attempt t' = task_attempt t \<and> (unregistered t' \<longrightarrow> unregistered t) \<and> (undialed t' \<longrightarrow> undialed t)
     \<and> building t' \<in> {None, building t} \<and> conn_of_attempt t'"

lemma gens_goes_on:
  assumes "gens n nx ph T D" "goes_on (T i) t'"
  shows "gens n nx ph (T(i := t')) D"
proof -
  note at = gensD [OF assms(1)]
  have same: "task_attempt ((T(i := t')) j) = task_attempt (T j)" for j using assms(2) by (simp add: goes_on_def)
  have less: "unregistered ((T(i := t')) j) \<Longrightarrow> unregistered (T j)" "undialed ((T(i := t')) j) \<Longrightarrow> undialed (T j)" for j
    using assms(2) by (auto simp: goes_on_def split: if_splits)
  have build: "building ((T(i := t')) j) = Some h \<Longrightarrow> building (T j) = Some h \<and> conn_of_attempt ((T(i := t')) j)" for j h
    using assms(2) at(11) [of j h] by (auto simp: goes_on_def split: if_splits)
  show ?thesis
  proof (rule gensI, unfold same, goal_cases)
    case (6 g)
    then show ?case using at(6) less(1) by blast
  next
    case (7 i g)
    then show ?case using at(7) less(1) by blast
  next
    case (8 i g h d)
    then show ?case using at(8) less(2) by blast
  next
    case (10 i h)
    then show ?case using at(10) build by blast
  qed (insert at, blast+)
qed

text \<open>The changes one by one: a new attempt, its entry, the loss of the phase, an end, a new dispatcher, a commit, a relay.\<close>

lemma gens_alloc:
  assumes "gens n nx ph T D" "T i = No_task" "n < 2 ^ 64" "task_attempt t = Some nx" "building t = None" "conn_of_attempt t"
  shows "gens (n + 1) (nx + 1) ph (T(i := t)) D"
proof -
  note at = gensD [OF assms(1)]
  have nx: "unat nx = n" using at(1) assms(3) by (simp add: unat_of_nat)
  have none: "task_attempt (T i) = None" "building (T i) = None" using assms(2) by simp_all
  have fresh: "task_attempt (T j) \<noteq> Some nx" "\<not> phase_has_generation ph nx" "D h = Some d \<Longrightarrow> do_generation d \<noteq> nx" for j h d
    using at(2) [of j nx] at(3) [of nx] at(4) [of h d] nx by auto
  have up: "task_attempt ((T(i := t)) j) = Some g \<Longrightarrow> (j = i \<and> g = nx) \<or> (j \<noteq> i \<and> task_attempt (T j) = Some g)" for j g
    using assms(4) by (auto split: if_splits)
  show ?thesis
  proof (rule gensI, goal_cases)
    case 1
    then show ?case using at(1) by simp
  next
    case (2 j g)
    then show ?case using up [of j g] at(2) [of j g] nx by auto
  next
    case (3 g)
    then show ?case using at(3) [of g] by simp
  next
    case (4 h d)
    then show ?case using at(4) [of h d] by simp
  next
    case (5 j k g)
    then show ?case using up [of j g] up [of k g] at(5) fresh(1) by metis
  next
    case (6 g)
    then obtain j where "task_attempt (T j) = Some g \<and> \<not> unregistered (T j)" using at(6) by blast
    then show ?case using none by (intro exI [of _ j]) auto
  next
    case (7 j g)
    then show ?case using up [of j g] at(7) [of j g] fresh(2) by (auto split: if_splits)
  next
    case (8 j g h d)
    then show ?case using up [of j g] at(8) [of j g h d] fresh(3) [of h d] by (auto split: if_splits)
  next
    case (9 j conn)
    then show ?case using at(9) [of conn j] fresh(2) assms(4) by auto
  next
    case (10 j h)
    then show ?case using at(10) [of j h] at(11) [of j h] assms(5) by (auto split: if_splits)
  next
    case (11 conn)
    then show ?case using at(12) by blast
  next
    case (12 h h' d d')
    then show ?case using at(13) by blast
  qed
qed

lemma gens_register:
  assumes "gens n nx ph T D" "task_attempt (T i) = Some g" "unregistered (T i)"
    and "task_attempt t = Some g" "\<not> unregistered t" "building t = None" "conn_of_attempt t"
  shows "gens n nx (Phase_connecting g) (T(i := t)) D"
proof -
  note at = gensD [OF assms(1)]
  have undialed: "undialed (T i)" using assms(3) by (cases "T i") auto
  have same: "task_attempt ((T(i := t)) j) = task_attempt (T j)" for j using assms(2,4) by simp
  have watch: "D h = Some d \<Longrightarrow> watching ph d \<Longrightarrow> watching (Phase_connecting g) d" for h d
    using at(8) [OF assms(2) undialed, of h d] by (auto simp: watching_def)
  show ?thesis
  proof (rule gensI, unfold same, goal_cases)
    case (3 g)
    then show ?case using at(2) [OF assms(2)] by simp
  next
    case (6 g')
    then show ?case using assms(2,5) by (intro exI [of _ i]) simp
  next
    case (7 j g')
    then have "j \<noteq> i" using assms(5) by auto
    then show ?case using 7 at(5) [of j g' i] assms(2) by auto
  next
    case (8 j g' h d)
    then show ?case using at(8) [of j g' h d] at(8) [OF assms(2) undialed, of h d] assms(2) by (auto split: if_splits)
  next
    case (10 j h)
    then show ?case using at(10) [of j h] at(11) [of j h] assms(6) watch by (auto split: if_splits)
  qed (insert at(1,2,4,5,13), simp_all)
qed

lemma gens_disconnected: "gens n nx ph T D \<Longrightarrow> gens n nx Phase_disconnected T D"
  by (rule gensI) (auto dest: gensD simp: watching_def)

lemma gens_stop:
  assumes "gens n nx ph T D" "task_attempt t = None" "building t = None" "conn_of_attempt t"
    and "\<And>g. ph = Phase_connecting g \<Longrightarrow> task_attempt (T i) = Some g \<Longrightarrow> unregistered (T i)"
  shows "gens n nx ph (T(i := t)) D"
proof -
  note at = gensD [OF assms(1)]
  have up: "task_attempt ((T(i := t)) j) = Some g \<Longrightarrow> j \<noteq> i \<and> task_attempt (T j) = Some g" for j g
    using assms(2) by (auto split: if_splits)
  show ?thesis
  proof (rule gensI, goal_cases)
    case (6 g)
    then obtain j where "task_attempt (T j) = Some g \<and> \<not> unregistered (T j)" using at(6) by blast
    then show ?case using assms(5) [OF 6] by (intro exI [of _ j]) auto
  next
    case (5 j k g)
    then show ?case using up at(5) by blast
  next
    case (7 j g)
    from up [OF 7(1)] 7(2) at(7) [of j g] show ?case by simp
  next
    case (8 j g h d)
    from up [OF 8(1)] 8(2,3) at(8) [of j g h d] show ?case by simp
  next
    case (9 j conn)
    then show ?case using up [of j "lc_generation conn"] at(9) by blast
  next
    case (10 j h)
    then show ?case using at(10) [of j h] at(11) [of j h] assms(3) by (auto split: if_splits)
  next
    case (2 j g)
    then show ?case using up at(2) by blast
  qed (insert at, blast+)
qed

lemma gens_dialed:
  assumes "gens n nx ph T D" "task_attempt (T i) = Some g" "undialed (T i)" "D h = None"
    and "task_attempt t = Some g" "\<not> unregistered t" "\<not> undialed t" "building t = Some h" "conn_of_attempt t"
    and "d = \<lparr>do_generation = g, do_running = True, do_relay = Relay_running, do_released = False\<rparr>"
  shows "gens n nx ph (T(i := t)) (D(h \<mapsto> d))"
proof -
  note at = gensD [OF assms(1)]
  have same: "task_attempt ((T(i := t)) j) = task_attempt (T j)" for j using assms(2,5) by simp
  have old: "D k \<noteq> None \<Longrightarrow> k \<noteq> h" for k using assms(4) by auto
  show ?thesis
  proof (rule gensI, unfold same, goal_cases)
    case (4 k e)
    then show ?case using at(4) [of k e] at(2) [OF assms(2)] assms(10) by (auto split: if_splits)
  next
    case (6 g')
    then obtain j where "task_attempt (T j) = Some g' \<and> \<not> unregistered (T j)" using at(6) by blast
    then show ?case using assms(6) by (intro exI [of _ j]) auto
  next
    case (7 j g')
    then show ?case using at(7) [of j g'] assms(6) by (auto split: if_splits)
  next
    case (8 j g' k e)
    have ji: "j \<noteq> i" using 8(2) assms(7) by auto
    then have "g' \<noteq> g" using 8(1) at(5) [of j g' i] assms(2) by auto
    then show ?case using 8 at(8) [of j g' k e] ji assms(10) by (auto split: if_splits)
  next
    case (10 j k)
    show ?case
    proof (cases "j = i")
      case True
      then show ?thesis using 10 assms(2,8,9,10) by (simp add: watching_def)
    next
      case False
      then have "building (T j) = Some k" using 10 by simp
      from at(10) [OF this] at(11) [OF this] obtain e where "D k = Some e" "task_attempt (T j) = Some (do_generation e)"
        "watching ph e" "conn_of_attempt (T j)" by blast
      then show ?thesis using old [of k] False by simp
    qed
  next
    case (11 conn)
    from at(12) [OF 11] obtain e where e: "D (lc_handle conn) = Some e \<and> do_generation e = lc_generation conn
      \<and> do_relay e = Relay_running" by blast
    then show ?case using old [of "lc_handle conn"] by simp
  next
    case (12 k k' e e')
    then show ?case using at(13) [of k e k' e'] at(8) [OF assms(2,3), of k e] at(8) [OF assms(2,3), of k' e'] assms(10)
      by (auto split: if_splits)
  qed (insert at, blast+)
qed

lemma gens_commit:
  assumes "gens n nx (Phase_connecting g) T D" "T i = Settling g (Inr conn)" "task_attempt t = None" "building t = None"
    "conn_of_attempt t"
  shows "gens n nx (Phase_connected conn) (T(i := t)) D"
proof -
  note at = gensD [OF assms(1)]
  have mine: "task_attempt (T i) = Some g" "building (T i) = Some (lc_handle conn)" using assms(2) by simp_all
  have conn: "lc_generation conn = g" using at(11) [OF mine(2)] assms(2) by simp
  from at(10) [OF mine(2)] obtain d where d: "D (lc_handle conn) = Some d" "do_generation d = g"
    "watching (Phase_connecting g) d" using mine by auto
  have up: "task_attempt ((T(i := t)) j) = Some g' \<Longrightarrow> j \<noteq> i \<and> task_attempt (T j) = Some g' \<and> g' \<noteq> g" for j g'
    using assms(3) at(5) [of j g' i] mine(1) by (auto split: if_splits)
  show ?thesis
  proof (rule gensI, goal_cases)
    case (2 j g')
    then show ?case using up at(2) by blast
  next
    case (3 g')
    then show ?case using at(3) [of g] conn by simp
  next
    case (5 j k g')
    then show ?case using up at(5) by blast
  next
    case (6 g')
    then show ?case by simp
  next
    case (7 j g')
    then show ?case using up [OF 7(1)] conn by auto
  next
    case (8 j g' h e)
    from up [OF 8(1)] 8(2,3) at(8) [of j g' h e] show ?case by simp
  next
    case (9 j c)
    then show ?case using up [of j g] conn by auto
  next
    case (10 j h)
    have j: "j \<noteq> i" using 10 assms(4) by auto
    then have "building (T j) = Some h" using 10 by simp
    from at(10) [OF this] at(11) [OF this] show ?case using j conn
      by (auto simp: watching_def)
  next
    case (11 c)
    then show ?case using d conn by (auto simp: watching_def)
  qed (insert at, blast+)
qed

lemma gens_dispatcher:
  assumes "gens n nx ph T D" "\<And>d. do_generation (f d) = do_generation d"
    and "(\<forall>d. do_relay (f d) = do_relay d) \<or> ((\<forall>i. building (T i) \<noteq> Some h) \<and> phase_handle ph \<noteq> Some h)"
  shows "gens n nx ph T (D(h := map_option f (D h)))"
proof -
  note at = gensD [OF assms(1)]
  have old: "(D(h := map_option f (D h))) k = Some e \<Longrightarrow> \<exists>e'. D k = Some e' \<and> do_generation e = do_generation e'" for k e
    using assms(2) by (auto split: if_splits)
  have keep: "D k = Some e \<Longrightarrow> (k = h \<longrightarrow> (\<forall>d. do_relay (f d) = do_relay d)) \<Longrightarrow>
      \<exists>e'. (D(h := map_option f (D h))) k = Some e' \<and> do_generation e' = do_generation e \<and> do_relay e' = do_relay e" for k e
    using assms(2) by auto
  show ?thesis
  proof (rule gensI, goal_cases)
    case (4 k e)
    then show ?case using old at(4) by metis
  next
    case (8 j g k e)
    then show ?case using old at(8) by metis
  next
    case (10 j k)
    from at(10) [OF 10] obtain e where e: "D k = Some e" "task_attempt (T j) = Some (do_generation e)" "watching ph e" by blast
    have "k = h \<longrightarrow> (\<forall>d. do_relay (f d) = do_relay d)" using assms(3) 10 by auto
    from keep [OF e(1) this] e(2,3) at(11) [OF 10] show ?case by (auto simp: watching_def)
  next
    case (11 conn)
    from at(12) [OF 11] obtain e where e: "D (lc_handle conn) = Some e" "do_generation e = lc_generation conn"
      "do_relay e = Relay_running" by blast
    have "lc_handle conn = h \<longrightarrow> (\<forall>d. do_relay (f d) = do_relay d)" using assms(3) 11 by auto
    from keep [OF e(1) this] e(2,3) show ?case by auto
  next
    case (12 k k' e e')
    then show ?case using old at(13) by metis
  qed (insert at, blast+)
qed

lemma gens_closed:
  assumes "gens n nx ph T D" "D h = Some d" "\<not> phase_has_generation ph (do_generation d)"
  shows "gens n nx ph T (D(h := map_option (\<lambda>d. d\<lparr>do_relay := Relay_ended\<rparr>) (D h)))"
proof -
  note at = gensD [OF assms(1)]
  let ?D = "D(h := map_option (\<lambda>d. d\<lparr>do_relay := Relay_ended\<rparr>) (D h))"
  have old: "?D k = Some e \<Longrightarrow> \<exists>e'. D k = Some e' \<and> do_generation e = do_generation e'" for k e
    by (auto split: if_splits)
  show ?thesis
  proof (rule gensI, goal_cases)
    case (4 k e)
    then show ?case using old at(4) by metis
  next
    case (8 j g k e)
    then show ?case using old at(8) by metis
  next
    case (10 j k)
    from at(10) [OF 10] obtain e where e: "D k = Some e" "task_attempt (T j) = Some (do_generation e)" "watching ph e" by blast
    then show ?case using assms(2,3) at(11) [OF 10] by (cases "k = h") (auto simp: watching_def)
  next
    case (11 conn)
    from at(12) [OF 11] obtain e where "D (lc_handle conn) = Some e" "do_generation e = lc_generation conn"
      "do_relay e = Relay_running" by blast
    then show ?case using assms(2,3) 11 by auto
  next
    case (12 k k' e e')
    then show ?case using old at(13) by metis
  qed (insert at, blast+)
qed

section \<open>The generations of the system\<close>

definition gens_of :: "bridge_system \<Rightarrow> bool" where
  "gens_of s \<longleftrightarrow> gens (by_allocated s) (bs_next_generation (by_state s)) (bs_phase (by_state s)) (by_task s) (by_dispatcher s)"

lemma by_dispatcher_simps [simp]:
  "by_dispatcher (put_task i t s) = by_dispatcher s" "by_dispatcher (put_state st s) = by_dispatcher s"
  "by_dispatcher (emit c s) = by_dispatcher s" "by_dispatcher (s\<lparr>by_allocated := n\<rparr>) = by_dispatcher s"
  "by_dispatcher (change_dispatcher h f s) = (by_dispatcher s)(h := map_option f (by_dispatcher s h))"
  by (simp_all add: put_task_def put_state_def emit_def change_dispatcher_def)

lemma by_allocated_simps [simp]:
  "by_allocated (put_task i t s) = by_allocated s" "by_allocated (put_state st s) = by_allocated s"
  "by_allocated (emit c s) = by_allocated s" "by_allocated (change_dispatcher h f s) = by_allocated s"
  "by_allocated (drop_handle conn s) = by_allocated s"
  by (simp_all add: put_task_def put_state_def emit_def change_dispatcher_def drop_handle_def split: option.splits)

lemma gens_task: "gens_of s \<Longrightarrow> goes_on (by_task s i) t \<Longrightarrow> gens_of (put_task i t s)"
  by (simp add: gens_of_def gens_goes_on)

lemma gens_state:
  "gens_of s \<Longrightarrow> bs_phase st = bs_phase (by_state s) \<Longrightarrow> bs_next_generation st = bs_next_generation (by_state s) \<Longrightarrow>
    gens_of (put_state st s)"
  by (simp add: gens_of_def)

lemma gens_lost:
  "gens_of s \<Longrightarrow> bs_phase st = Phase_disconnected \<Longrightarrow> bs_next_generation st = bs_next_generation (by_state s) \<Longrightarrow>
    gens_of (put_state st s)"
  by (simp add: gens_of_def gens_disconnected)

lemma gens_end:
  "gens_of s \<Longrightarrow> task_attempt t = None \<Longrightarrow> building t = None \<Longrightarrow> conn_of_attempt t \<Longrightarrow>
    (\<And>g. bs_phase (by_state s) = Phase_connecting g \<Longrightarrow> task_attempt (by_task s i) = Some g \<Longrightarrow> unregistered (by_task s i)) \<Longrightarrow>
    gens_of (put_task i t s)"
  by (simp add: gens_of_def gens_stop)

lemma gens_enter:
  "gens_of s \<Longrightarrow> task_attempt (by_task s i) = Some g \<Longrightarrow> unregistered (by_task s i) \<Longrightarrow>
    task_attempt t = Some g \<Longrightarrow> \<not> unregistered t \<Longrightarrow> building t = None \<Longrightarrow> conn_of_attempt t \<Longrightarrow>
    bs_phase st = Phase_connecting g \<Longrightarrow> bs_next_generation st = bs_next_generation (by_state s) \<Longrightarrow>
    gens_of (put_task i t (put_state st s))"
  by (simp add: gens_of_def gens_register)

lemma gens_same [simp]: "gens_of (emit c s) = gens_of s"
  by (simp add: gens_of_def)

lemma gens_change:
  "gens_of s \<Longrightarrow> (\<And>d. do_generation (f d) = do_generation d) \<Longrightarrow>
    (\<forall>d. do_relay (f d) = do_relay d) \<or> ((\<forall>i. building (by_task s i) \<noteq> Some h) \<and> phase_handle (bs_phase (by_state s)) \<noteq> Some h) \<Longrightarrow>
    gens_of (change_dispatcher h f s)"
  by (simp add: gens_of_def gens_dispatcher)

lemma building_handle: "building t = Some h \<Longrightarrow> task_handle t = Some h"
  by (cases t rule: building.cases) auto

text \<open>A dispatcher that is being closed is neither the phase's nor that of an attempt.\<close>

lemma closing_owner:
  assumes "owners_ok s" "by_task s i = Closing aborted h after"
  shows "(\<forall>j. building (by_task s j) \<noteq> Some h) \<and> phase_handle (bs_phase (by_state s)) \<noteq> Some h"
proof -
  note at = owned_at(1) [OF assms(1) [unfolded owners_ok_def], of _ h "Some i"]
  have mine: "holding s (Some i) = Some h" using assms(2) by simp
  have "building (by_task s j) \<noteq> Some h" for j
  proof
    assume b: "building (by_task s j) = Some h"
    then have "j = i" using at [of "Some j"] mine building_handle by simp
    then show False using b assms(2) by simp
  qed
  moreover have "phase_handle (bs_phase (by_state s)) \<noteq> Some h" using at [of None] mine by auto
  ultimately show ?thesis by blast
qed

lemma gens_closing:
  assumes "gens_of s" "owners_ok s" "by_task s i = Closing aborted h after" "\<And>d. do_generation (f d) = do_generation d"
    and "goes_on (Closing aborted h after) t"
  shows "gens_of (put_task i t (change_dispatcher h f s))"
  using gens_change [OF assms(1,4) disjI2, OF closing_owner [OF assms(2,3)]] assms(3,5) by (intro gens_task) simp_all

lemma release_generation: "do_generation (release d) = do_generation d" "do_generation (abort_relay d) = do_generation d"
  by (simp_all add: release_def abort_relay_def)

lemma goes_on_after: "goes_on (Closing aborted h after) (after_task after)"
  by (cases after) (simp_all add: goes_on_def)

lemma goes_on_subscribed:
  "task_attempt t = Some g \<Longrightarrow> \<not> unregistered t \<Longrightarrow> building t = Some h \<Longrightarrow>
    goes_on t (subscribed g endpoint h hello caps sub)"
  by (cases sub) (simp_all add: goes_on_def subscribed_def live_connection_of_def)

lemma gens_relay_closed:
  assumes "gens_of s" "by_dispatcher s h = Some d" "\<not> phase_has_generation (bs_phase (by_state s)) (do_generation d)"
  shows "gens_of (change_dispatcher h (\<lambda>d. d\<lparr>do_relay := Relay_ended\<rparr>) s)"
  using gens_closed [OF assms(1) [unfolded gens_of_def] assms(2,3)] assms(2) by (simp add: gens_of_def)

lemma gens_dropped: "gens_of s \<Longrightarrow> gens_of (drop_handle conn s)"
  by (cases conn) (auto simp: drop_handle_def intro: gens_change)

lemma put_state_change: "put_state st (change_dispatcher h f s) = change_dispatcher h f (put_state st s)"
  by (simp add: put_state_def change_dispatcher_def)

lemma allocated_step: "bridge_step s s' \<Longrightarrow> by_allocated s \<le> by_allocated s'"
  by (induction rule: bridge_step.induct)
     (auto simp: plain_turns call_connect_def call_reconnect_def call_disconnect_def register_turn_def reconnect_turn_def
        start_log_turn_def log_answer_turn_def settle_turn_def notify_turn_def relay_closed_turn_def alloc_generation_def Let_def
        put_task_def split: prod.splits sum.splits option.splits bool.splits)

lemma gens_alloc_turn:
  assumes "gens_of s" "by_task s i = No_task" "by_allocated s < 2 ^ 64" "task_attempt t = Some (bs_next_generation (by_state s))"
    "building t = None" "conn_of_attempt t"
  shows "gens_of (put_task i t (put_state (snd (alloc_generation (by_state s))) (s\<lparr>by_allocated := by_allocated s + 1\<rparr>)))"
proof -
  have "bs_phase (snd (alloc_generation (by_state s))) = bs_phase (by_state s)"
    "bs_next_generation (snd (alloc_generation (by_state s))) = bs_next_generation (by_state s) + 1"
    by (simp_all add: alloc_generation_def)
  moreover have "by_allocated (s\<lparr>by_allocated := by_allocated s + 1\<rparr>) = by_allocated s + 1" by simp
  ultimately show ?thesis using gens_alloc [OF assms(1) [unfolded gens_of_def] assms(2-6)] by (simp add: gens_of_def)
qed

lemma gens_settle:
  assumes "gens_of s" "by_task s i = Settling g r"
  shows "gens_of (settle_turn i g r s)"
proof (cases r)
  case (Inl e)
  have "gens_of (put_state (fail_attempt g (by_state s)) s)"
    using assms(1) gens_state gens_lost by (cases "bs_phase (by_state s) = Phase_connecting g") (simp_all add: fail_attempt_state)
  then have "gens_of (put_task i (Task_done (Inl e)) (put_state (fail_attempt g (by_state s)) s))"
    using assms(2) by (intro gens_end) (auto simp: fail_attempt_state split: if_splits)
  then show ?thesis using Inl by (simp add: settle_turn_def)
next
  case (Inr conn)
  show ?thesis
  proof (cases rule: commit_cases [of "by_state s" g conn])
    case (committed st')
    have "gens_of (put_task i (Task_done (Inr (connection_state_payload conn))) (put_state st' s))"
      using gens_commit [of _ _ g "by_task s" _ i conn] assms Inr committed by (simp add: gens_of_def)
    then show ?thesis using Inr committed by (simp add: settle_turn_def gens_of_def)
  next
    case refused
    then have "gens_of (put_task i (Closing False (lc_handle conn) Then_refuse) s)"
      using assms Inr by (intro gens_end) auto
    then show ?thesis using Inr refused by (simp add: settle_turn_def)
  qed
qed

lemma gens_watched_end:
  assumes "gens_of s" "by_dispatcher s h = Some d"
  shows "gens_of (relay_closed_turn h (do_generation d) s)"
proof (cases rule: closed_cases [of "by_state s" "do_generation d"])
  case (reset st')
  have "gens_of (put_state st' s)" using assms(1) reset by (intro gens_lost)
  then have "gens_of (change_dispatcher h (\<lambda>d. d\<lparr>do_relay := Relay_ended\<rparr>) (put_state st' s))"
    using assms(2) reset by (intro gens_relay_closed) simp_all
  then show ?thesis using reset by (simp add: relay_closed_turn_def Let_def gens_dropped put_state_change)
next
  case stale
  then show ?thesis using assms gens_relay_closed by (simp add: relay_closed_turn_def Let_def)
qed

lemma gens_step:
  assumes "bridge_step s s'" "owners_ok s" "gens_of s" "by_allocated s' \<le> 2 ^ 64"
  shows "gens_of s'"
  using assms
proof (induction rule: bridge_step.induct)
  case (connect_called s i endpoint)
  then show ?case using gens_alloc_turn [of s i "Connecting_new (bs_next_generation (by_state s)) endpoint"]
    by (simp add: call_connect_def alloc_generation_def)
next
  case (reconnect_called s i)
  then show ?case using gens_alloc_turn [of s i "Reconnecting_new (bs_next_generation (by_state s))"]
    by (simp add: call_reconnect_def alloc_generation_def)
next
  case (disconnect_called s i tell)
  obtain conn g st where taken: "take_phase (by_state s) = ((conn, g), st)" by (metis prod.collapse)
  then have "bs_phase st = Phase_disconnected" "bs_next_generation st = bs_next_generation (by_state s)"
    using take_phase_state(1,2) [of "by_state s"] by simp_all
  then have "gens_of (put_state st s)" using disconnect_called gens_lost by blast
  then have "gens_of (put_task i (case g of None \<Rightarrow> Notifying tell | Some g \<Rightarrow> Cancelling g conn tell) (put_state st s))"
    using disconnect_called by (intro gens_task) (simp_all add: goes_on_def split: option.splits)
  then show ?case using taken by (simp add: call_disconnect_def)
next
  case (registered s i g endpoint)
  show ?case
  proof (cases rule: register_cases [of "by_state s" g])
    case (new token st')
    then show ?thesis using registered by (auto simp: register_turn_def intro: gens_enter)
  next
    case busy
    then show ?thesis using registered by (auto simp: register_turn_def intro: gens_end)
  qed
next
  case (reconnected s i g)
  show ?case
  proof (cases rule: reconnect_cases [of "by_state s" g])
    case (old conn token st')
    then show ?thesis using reconnected by (auto simp: reconnect_turn_def intro: gens_enter)
  next
    case (busy e)
    then show ?thesis using reconnected by (auto simp: reconnect_turn_def intro: gens_end)
  qed
next
  case (dialed s i g token endpoint h)
  then show ?case using gens_dialed [of _ _ _ "by_task s" "by_dispatcher s" i g h "Setting_up g token endpoint h"]
    by (simp add: gens_of_def dialed_turn_def put_task_def)
next
  case (settled s i g r)
  then show ?case by (simp add: gens_settle)
next
  case (aborted s i h after)
  moreover have "goes_on (Closing False h after) (Closing True h after)" by (cases after) (simp_all add: goes_on_def)
  ultimately show ?case unfolding abort_turn_def by (metis gens_closing release_generation(2))
next
  case (closed_down s i h after)
  then show ?case unfolding close_turn_def using goes_on_after by (metis gens_closing release_generation(1))
next
  case (relay_closed s h d)
  then show ?case by (simp add: gens_watched_end)
next
  case (dispatcher_ended s h d)
  then show ?case by (intro gens_change) simp_all
next
  case (log_started s i g token endpoint h hello caps)
  then show ?case
    by (auto simp: start_log_turn_def goes_on_def split: prod.splits option.splits
        intro!: gens_task gens_state goes_on_subscribed)
next
  case (log_answered s i g token endpoint h hello caps answer)
  then show ?case
    by (auto simp: log_answer_turn_def split: prod.splits intro!: gens_task gens_state goes_on_subscribed)
next
  case (notified s i tell)
  then show ?case by (auto simp: notify_turn_def goes_on_def intro!: gens_task)
next
  case (finished s i g r)
  then show ?case using gensD(11) [of _ _ _ "by_task s" _ i]
    by (cases r) (auto simp: finish_turn_def goes_on_def gens_of_def intro!: gens_goes_on)
qed (auto simp: setup_turn_def check_log_turn_def cancel_turn_def end_log_turn_def goes_on_def
    split: sum.splits option.splits intro!: gens_task gens_state)

section \<open>Turns that are left\<close>

text \<open>Every turn of a task lowers this number, and no other turn touches the task.\<close>

fun stage :: "bridge_task \<Rightarrow> nat" where
  "stage No_task = 50"
| "stage (Reconnecting_new g) = 40"
| "stage (Connecting_new g endpoint) = 30"
| "stage (Closing aborted h (Then_dial g token endpoint)) = (if aborted then 28 else 29)"
| "stage (Dialing g token endpoint) = 20"
| "stage (Setting_up g token endpoint h) = 18"
| "stage (Checking_log g token endpoint h hello caps) = 16"
| "stage (Starting_log g token endpoint h hello caps) = 14"
| "stage (Subscribing g token endpoint h hello caps) = 12"
| "stage (Closing aborted h (Then_fail g e)) = (if aborted then 9 else 10)"
| "stage (Returned g r) = 8"
| "stage (Settling g r) = 7"
| "stage (Cancelling g taken tell) = 8"
| "stage (Ending_log g taken tell) = 7"
| "stage (Closing aborted h after) = (if aborted then 4 else 5)"
| "stage (Notifying tell) = 2"
| "stage (Task_done r) = 0"

lemma stage_close:
  "stage (after_task after) < stage (Closing True h after)" "stage (Closing True h after) < stage (Closing False h after)"
  by (cases after; simp)+

lemma stage_subscribed: "stage (subscribed g endpoint h hello caps sub) \<le> 10"
  by (cases sub) (simp_all add: subscribed_def)

lemmas stage_turns = stage_close stage_subscribed

lemma stage_step: "bridge_step s s' \<Longrightarrow> by_task s' j = by_task s j \<or> stage (by_task s' j) < stage (by_task s j)"
proof (induction rule: bridge_step.induct)
  case (registered s i g endpoint)
  then show ?case by (cases rule: register_cases [of "by_state s" g]) (auto simp: register_turn_def)
next
  case (reconnected s i g)
  then show ?case by (cases rule: reconnect_cases [of "by_state s" g]) (auto simp: reconnect_turn_def)
next
  case (settled s i g r)
  then show ?case by (cases r; cases rule: commit_cases [of "by_state s" g "projr r"]) (auto simp: settle_turn_def)
next
  case (relay_closed s h d)
  then show ?case
    by (cases rule: closed_cases [of "by_state s" "do_generation d"]) (auto simp: relay_closed_turn_def Let_def)
next
  case (aborted s i h after)
  then show ?case using stage_turns(2) [of h after] by (auto simp: abort_turn_def)
next
  case (closed_down s i h after)
  then show ?case using stage_turns(1) [of after h] by (auto simp: close_turn_def)
next
  case (log_started s i g token endpoint h hello caps)
  then show ?case
    by (auto simp: start_log_turn_def split: prod.splits option.splits intro: le_less_trans [OF stage_turns(3)])
next
  case (log_answered s i g token endpoint h hello caps answer)
  then show ?case by (auto simp: log_answer_turn_def split: prod.splits intro: le_less_trans [OF stage_turns(3)])
qed (auto simp: call_connect_def call_reconnect_def alloc_generation_def call_disconnect_def plain_turns notify_turn_def put_task_def
    split: prod.splits sum.splits option.splits)

text \<open>A task that has begun and not come to an end can take its turn, whatever the others do.\<close>

lemma turn_exists:
  assumes "by_task s i = t" "t \<noteq> No_task" "stage t > 0"
  shows "\<exists>s'. bridge_step s s' \<and> by_task s' i \<noteq> t"
proof (cases t)
  case No_task
  then show ?thesis using assms by simp
next
  case (Connecting_new g endpoint)
  have "by_task (register_turn i g endpoint s) i \<noteq> t"
    by (cases rule: register_cases [of "by_state s" g]) (auto simp: register_turn_def Connecting_new)
  then show ?thesis using bridge_step.registered assms(1) Connecting_new by metis
next
  case (Reconnecting_new g)
  have "by_task (reconnect_turn i g s) i \<noteq> t"
    by (cases rule: reconnect_cases [of "by_state s" g]) (auto simp: reconnect_turn_def Reconnecting_new)
  then show ?thesis using bridge_step.reconnected assms(1) Reconnecting_new by metis
next
  case (Dialing g token endpoint)
  have "by_task (put_task i (Returned g (Inl NotConnected)) s) i \<noteq> t" by (simp add: Dialing)
  then show ?thesis using bridge_step.dial_cancelled bridge_step.dial_failed assms(1) Dialing by metis
next
  case (Setting_up g token endpoint h)
  have "by_task (setup_turn i (Inl NotConnected) g token endpoint h s) i \<noteq> t" by (simp add: setup_turn_def Setting_up)
  then show ?thesis using bridge_step.set_up assms(1) Setting_up by metis
next
  case (Checking_log g token endpoint h hello caps)
  have "by_task (check_log_turn i g token endpoint h hello caps s) i \<noteq> t" by (simp add: check_log_turn_def Checking_log)
  then show ?thesis using bridge_step.log_checked assms(1) Checking_log by metis
next
  case (Starting_log g token endpoint h hello caps)
  have "by_task (start_log_turn i g token endpoint h hello caps s) i \<noteq> t"
    by (auto simp: start_log_turn_def subscribed_def Starting_log split: prod.splits option.splits)
  then show ?thesis using bridge_step.log_started assms(1) Starting_log by metis
next
  case (Subscribing g token endpoint h hello caps)
  have "by_task (log_answer_turn i (Inl NotConnected) g endpoint h hello caps s) i \<noteq> t"
    "by_task (put_task i (Closing False h (Then_fail g NotConnected)) s) i \<noteq> t"
    by (auto simp: log_answer_turn_def subscribed_def Subscribing split: prod.splits option.splits)
  then show ?thesis using bridge_step.log_cancelled bridge_step.log_answered assms(1) Subscribing by metis
next
  case (Returned g r)
  have "by_task (finish_turn i g r s) i \<noteq> t" by (simp add: finish_turn_def Returned)
  then show ?thesis using bridge_step.finished assms(1) Returned by metis
next
  case (Settling g r)
  have "by_task (settle_turn i g r s) i \<noteq> t"
    by (cases r; cases rule: commit_cases [of "by_state s" g "projr r"]) (auto simp: settle_turn_def Settling)
  then show ?thesis using bridge_step.settled assms(1) Settling by metis
next
  case (Closing aborted h after)
  have "by_task (abort_turn i h after s) i = Closing True h after" "by_task (close_turn i h after s) i \<noteq> Closing True h after"
    using stage_turns(1) [of after h] by (auto simp: abort_turn_def close_turn_def)
  then show ?thesis using bridge_step.aborted bridge_step.closed_down assms(1) Closing
    by (cases aborted) (metis bridge_task.inject(10))+
next
  case (Cancelling g taken tell)
  have "by_task (cancel_turn i g taken tell s) i \<noteq> t" by (simp add: cancel_turn_def Cancelling)
  then show ?thesis using bridge_step.cancelled assms(1) Cancelling by metis
next
  case (Ending_log g taken tell)
  have "by_task (end_log_turn i g taken tell s) i \<noteq> t" by (simp add: end_log_turn_def Ending_log split: option.splits)
  then show ?thesis using bridge_step.log_ended assms(1) Ending_log by metis
next
  case (Notifying tell)
  have "by_task (notify_turn i tell s) i \<noteq> t" by (simp add: notify_turn_def Notifying)
  then show ?thesis using bridge_step.notified assms(1) Notifying by metis
next
  case (Task_done r)
  then show ?thesis using assms by simp
qed

section \<open>Every reachable state\<close>

lemma published_start: "published (by_state system_start)"
proof -
  have "ct_generation (tc_state catalog_default) = None" "ct_capabilities (tc_state catalog_default) = {}"
    by (simp_all add: catalog_default_def)
  then show ?thesis by (simp add: published_def system_start_def bridge_state_default_def)
qed

lemma owners_start: "owners_ok system_start"
  by (simp add: owners_ok_def owned_def holding_def kept_def system_start_def bridge_state_default_def split: option.splits)

lemma gens_start: "gens_of system_start"
  by (simp add: gens_of_def gens_def system_start_def bridge_state_default_def)

lemma bridge_inv:
  "bridge_reach s \<Longrightarrow> published (by_state s) \<and> owners_ok s \<and> (by_allocated s \<le> 2 ^ 64 \<longrightarrow> gens_of s)"
proof (induction rule: bridge_reach.induct)
  case start
  then show ?case by (simp only: published_start owners_start gens_start simp_thms)
next
  case (step s s')
  have "gens_of s'" if "by_allocated s' \<le> 2 ^ 64"
    using step that allocated_step [OF step(2)] gens_step [OF step(2)] order_trans by blast
  then show ?case using step(3) published_step [OF step(2)] owners_step [OF step(2)] by blast
qed

lemma attempt_goes_on: "task_attempt t = Some g \<Longrightarrow> t \<noteq> No_task \<and> stage t > 0"
  by (cases t rule: task_attempt.cases) simp_all

lemma holding_iff: "holding s x = Some h \<longleftrightarrow>
    (case x of None \<Rightarrow> phase_handle (bs_phase (by_state s)) = Some h | Some i \<Rightarrow> task_handle (by_task s i) = Some h)"
  by (cases x) simp_all

section \<open>Claims\<close>

text \<open>C14: Whatever tasks run and in whatever order they take their turns, what the edit service and MCP see agrees with
  the phase. With a live connection the published session, the current generation and the catalog's generation are its own;
  its dispatcher carries its generation and has not been given up, its relay runs, so its end will be seen, and no task
  holds it, so none can close it. Without one nothing is published. Until 2^64 attempts have been made.
\<close>
theorem live_connection_is_watched:
  assumes "bridge_reach s" "by_allocated s \<le> 2 ^ 64"
  shows "case bs_phase (by_state s) of
      Phase_connected conn \<Rightarrow>
        bs_session (by_state s) = Some \<lparr>bg_generation = lc_generation conn, bg_handle = lc_handle conn,
          bg_capabilities = lc_capabilities conn\<rparr>
        \<and> bs_current_generation (by_state s) = Some (lc_generation conn)
        \<and> ct_generation (tc_state (bs_catalog (by_state s))) = Some (lc_generation conn)
        \<and> (\<exists>d. by_dispatcher s (lc_handle conn) = Some d \<and> do_generation d = lc_generation conn
             \<and> do_relay d = Relay_running \<and> \<not> do_released d)
        \<and> (\<forall>i. task_handle (by_task s i) \<noteq> Some (lc_handle conn))
    | _ \<Rightarrow> bs_session (by_state s) = None \<and> bs_current_generation (by_state s) = None
        \<and> ct_generation (tc_state (bs_catalog (by_state s))) = None \<and> ct_capabilities (tc_state (bs_catalog (by_state s))) = {}"
proof -
  note inv = bridge_inv [OF assms(1)]
  show ?thesis
  proof (cases "bs_phase (by_state s)")
    case (Phase_connected conn)
    have mine: "holding s None = Some (lc_handle conn)" using Phase_connected by simp
    note own = owned_at [OF inv [THEN conjunct2, THEN conjunct1, unfolded owners_ok_def]]
    have "kept s (lc_handle conn)" using own(2) mine by blast
    moreover have "task_handle (by_task s i) \<noteq> Some (lc_handle conn)" for i using own(1) [OF mine, of "Some i"] by auto
    moreover have "\<exists>d. by_dispatcher s (lc_handle conn) = Some d \<and> do_generation d = lc_generation conn \<and> do_relay d = Relay_running"
      using inv assms(2) gensD(12) Phase_connected unfolding gens_of_def by blast
    ultimately show ?thesis using inv Phase_connected by (auto simp: published_def kept_def)
  qed (insert inv, simp_all add: published_def)
qed

text \<open>C15: Dispatchers are neither lost nor closed twice. At every moment a dispatcher that has not been given up has exactly one
  owner, a task or the connected phase, and only such dispatchers have an owner.
\<close>
theorem dispatchers_are_conserved:
  assumes "bridge_reach s"
  shows "((\<exists>d. by_dispatcher s h = Some d \<and> \<not> do_released d) \<longleftrightarrow>
        (\<exists>!x. case x of None \<Rightarrow> phase_handle (bs_phase (by_state s)) = Some h | Some i \<Rightarrow> task_handle (by_task s i) = Some h))
    \<and> ((\<exists>d. by_dispatcher s h = Some d \<and> \<not> do_released d) \<longleftrightarrow>
        (\<exists>x. case x of None \<Rightarrow> phase_handle (bs_phase (by_state s)) = Some h | Some i \<Rightarrow> task_handle (by_task s i) = Some h))"
proof -
  note own = owned_at [OF bridge_inv [OF assms, THEN conjunct2, THEN conjunct1, unfolded owners_ok_def]]
  show ?thesis unfolding holding_iff [symmetric] kept_def [symmetric] using own by metis
qed

text \<open>C16: The connecting phase comes to an end. The attempt it names belongs to exactly one task, which has
  entered it; that task can always take a turn, each of its turns lowers the number of turns it has left, and no turn of
  anybody else raises it.
\<close>
theorem connecting_comes_to_an_end:
  assumes "bridge_reach s" "by_allocated s \<le> 2 ^ 64" "bs_phase (by_state s) = Phase_connecting g"
  shows "(\<exists>!i. task_attempt (by_task s i) = Some g)
    \<and> (\<exists>i. task_attempt (by_task s i) = Some g \<and> \<not> unregistered (by_task s i)
      \<and> (\<exists>s'. bridge_step s s' \<and> stage (by_task s' i) < stage (by_task s i))
      \<and> (\<forall>s'. bridge_step s s' \<longrightarrow> by_task s' i = by_task s i \<or> stage (by_task s' i) < stage (by_task s i)))"
proof -
  have inv: "gens_of s" using bridge_inv [OF assms(1)] assms(2) by blast
  then obtain i where i: "task_attempt (by_task s i) = Some g" "\<not> unregistered (by_task s i)"
    using gensD(6) assms(3) unfolding gens_of_def by blast
  then have one: "\<exists>!i. task_attempt (by_task s i) = Some g" using gensD(5) inv unfolding gens_of_def by blast
  obtain s' where "bridge_step s s'" "by_task s' i \<noteq> by_task s i"
    using turn_exists [OF refl] attempt_goes_on [OF i(1)] by blast
  then have "\<exists>s'. bridge_step s s' \<and> stage (by_task s' i) < stage (by_task s i)" using stage_step by blast
  moreover have "\<forall>s'. bridge_step s s' \<longrightarrow> by_task s' i = by_task s i \<or> stage (by_task s' i) < stage (by_task s i)"
    using stage_step by blast
  ultimately show ?thesis using i one by blast
qed

section \<open>A connection that is made\<close>

definition demo_hello :: hello_outcome where
  "demo_hello = \<lparr>ho_session_id = ''s'', ho_protocol_version = VersionString ''0.2'', ho_server_name = ''n'',
     ho_server_version = None, ho_server_engine = None\<rparr>"

definition demo_conn :: live_connection where
  "demo_conn = live_connection_of 0 7 ''e'' demo_hello [] \<lparr>ls_status = Unsupported, ls_subscription_id = None\<rparr>"

definition demo_start :: bridge_system where
  "demo_start = call_disconnect 3 True system_start"

definition demo_connecting :: bridge_system where
  "demo_connecting = dialed_turn 0 7 0 0 ''e'' (register_turn 0 0 ''e'' (call_connect 0 ''e'' demo_start))"

definition demo_subscribed :: bridge_system where
  "demo_subscribed = start_log_turn 0 0 0 ''e'' 7 demo_hello [] (check_log_turn 0 0 0 ''e'' 7 demo_hello []
     (setup_turn 0 (Inr (demo_hello, [])) 0 0 ''e'' 7 demo_connecting))"

definition demo_live :: bridge_system where
  "demo_live = settle_turn 0 0 (Inr demo_conn) (finish_turn 0 0 (Inr demo_conn) demo_subscribed)"

lemma demo_evaluated:
  "by_task (call_connect 0 ''e'' demo_start) 0 = Connecting_new 0 ''e''"
  "by_task (register_turn 0 0 ''e'' (call_connect 0 ''e'' demo_start)) 0 = Dialing 0 0 ''e''"
  "\<not> is_cancelled 0 (register_turn 0 0 ''e'' (call_connect 0 ''e'' demo_start))"
  "by_task demo_start 0 = No_task"
  by code_simp+

lemma demo_begin: "bridge_reach demo_start"
proof -
  have "by_task system_start 3 = No_task" by (simp add: system_start_def)
  from bridge_reach.step [OF bridge_reach.start bridge_step.disconnect_called [OF this]]
  show ?thesis unfolding demo_start_def .
qed

lemma demo_tasks:
  "by_dispatcher (register_turn 0 0 ''e'' (call_connect 0 ''e'' demo_start)) 7 = None"
  "by_task demo_connecting 0 = Setting_up 0 0 ''e'' 7" "bs_phase (by_state demo_connecting) = Phase_connecting 0"
  "by_task (setup_turn 0 (Inr (demo_hello, [])) 0 0 ''e'' 7 demo_connecting) 0 = Checking_log 0 0 ''e'' 7 demo_hello []"
  "by_task (check_log_turn 0 0 0 ''e'' 7 demo_hello [] (setup_turn 0 (Inr (demo_hello, [])) 0 0 ''e'' 7 demo_connecting)) 0
     = Starting_log 0 0 ''e'' 7 demo_hello []"
  "by_task demo_subscribed 0 = Returned 0 (Inr demo_conn)"
  "by_task (finish_turn 0 0 (Inr demo_conn) demo_subscribed) 0 = Settling 0 (Inr demo_conn)"
  "bs_phase (by_state demo_live) = Phase_connected demo_conn"
  "by_allocated demo_connecting = 1" "by_allocated demo_live = 1" "lc_handle demo_conn = 7" "lc_generation demo_conn = 0"
  by code_simp+

lemma demo_bridge_reach: "bridge_reach demo_connecting" "bridge_reach demo_live"
proof -
  note go = bridge_reach.step
  have "bridge_reach (call_connect 0 ''e'' demo_start)"
    by (rule go [OF demo_begin bridge_step.connect_called [OF demo_evaluated(4)]])
  from go [OF go [OF this bridge_step.registered [OF demo_evaluated(1)]]
      bridge_step.dialed [OF demo_evaluated(2,3) demo_tasks(1)]]
  show start: "bridge_reach demo_connecting" by (simp only: demo_connecting_def)
  from go [OF go [OF go [OF start bridge_step.set_up [OF demo_tasks(2)]] bridge_step.log_checked [OF demo_tasks(4)]]
      bridge_step.log_started [OF demo_tasks(5)]]
  have "bridge_reach demo_subscribed" by (simp only: demo_subscribed_def)
  from go [OF go [OF this bridge_step.finished [OF demo_tasks(6)]] bridge_step.settled [OF demo_tasks(7)]]
  show "bridge_reach demo_live" by (simp only: demo_live_def)
qed

section \<open>Two orders that the code allows\<close>

text \<open>
  A disconnection gives back the lock before it cancels the attempt: a new attempt in between takes the place of the
  token, and the old attempt is not cancelled.
\<close>

definition demo_missed :: bridge_system where
  "demo_missed = cancel_turn 1 0 None True (register_turn 2 1 ''e'' (call_connect 2 ''e'' (call_disconnect 1 True
     (register_turn 0 0 ''e'' (call_connect 0 ''e'' demo_start)))))"

lemma demo_missed_tasks:
  "by_task (register_turn 0 0 ''e'' (call_connect 0 ''e'' demo_start)) 1 = No_task"
  "by_task (call_disconnect 1 True (register_turn 0 0 ''e'' (call_connect 0 ''e'' demo_start))) 2 = No_task"
  "by_task (call_connect 2 ''e'' (call_disconnect 1 True (register_turn 0 0 ''e'' (call_connect 0 ''e'' demo_start)))) 2
     = Connecting_new 1 ''e''"
  "by_task (register_turn 2 1 ''e'' (call_connect 2 ''e'' (call_disconnect 1 True
     (register_turn 0 0 ''e'' (call_connect 0 ''e'' demo_start))))) 1 = Cancelling 0 None True"
  "by_task demo_missed 0 = Dialing 0 0 ''e''" "\<not> is_cancelled 0 demo_missed" "by_task demo_missed 1 = Ending_log 0 None True"
  by code_simp+

lemma disconnect_can_miss_the_attempt:
  "\<exists>s. bridge_reach s \<and> by_task s 0 = Dialing 0 0 ''e'' \<and> \<not> is_cancelled 0 s \<and> by_task s 1 = Ending_log 0 None True"
proof -
  note go = bridge_reach.step
  have "bridge_reach (call_connect 0 ''e'' demo_start)"
    by (rule go [OF demo_begin bridge_step.connect_called [OF demo_evaluated(4)]])
  from go [OF go [OF this bridge_step.registered [OF demo_evaluated(1)]] bridge_step.disconnect_called [OF demo_missed_tasks(1)]]
  have "bridge_reach (call_disconnect 1 True (register_turn 0 0 ''e'' (call_connect 0 ''e'' demo_start)))" .
  from go [OF go [OF go [OF this bridge_step.connect_called [OF demo_missed_tasks(2)]]
        bridge_step.registered [OF demo_missed_tasks(3)]] bridge_step.cancelled [OF demo_missed_tasks(4)]]
  have "bridge_reach demo_missed" unfolding demo_missed_def .
  then show ?thesis using demo_missed_tasks(5-7) by blast
qed

text \<open>A disconnection tells the screen after it has given back the lock: the screen can be told last of it when a connection is live.\<close>

lemma demo_late_tasks:
  "by_task demo_live 3 = Notifying True"
  "bs_phase (by_state (notify_turn 3 True demo_live)) = Phase_connected demo_conn"
  "by_emitted (notify_turn 3 True demo_live) = [connection_state_payload demo_conn, disconnected_by_editor]"
  by code_simp+

lemma screen_can_be_told_late:
  "\<exists>s conn. bridge_reach s \<and> bs_phase (by_state s) = Phase_connected conn
    \<and> by_emitted s = [connection_state_payload conn, disconnected_by_editor]"
  using bridge_reach.step [OF demo_bridge_reach(2) bridge_step.notified [OF demo_late_tasks(1)]] demo_late_tasks(2,3) by blast

section \<open>Witnesses\<close>

theorem live_connection_is_watched_witness:
  "bs_current_generation (by_state demo_live) = Some 0
    \<and> (\<exists>d. by_dispatcher demo_live 7 = Some d \<and> do_relay d = Relay_running \<and> \<not> do_released d)"
  using live_connection_is_watched [OF demo_bridge_reach(2)] demo_tasks(8,10,11,12) by auto

theorem dispatchers_are_conserved_witness:
  "\<exists>d. by_dispatcher demo_connecting 7 = Some d \<and> \<not> do_released d"
  using dispatchers_are_conserved [OF demo_bridge_reach(1), of 7, THEN conjunct2] demo_tasks(2)
  by (auto intro: exI [of _ "Some 0"])

theorem connecting_comes_to_an_end_witness:
  "(\<exists>!i. task_attempt (by_task demo_connecting i) = Some 0)
    \<and> (\<exists>i s'. bridge_step demo_connecting s' \<and> stage (by_task s' i) < stage (by_task demo_connecting i))"
  using connecting_comes_to_an_end [OF demo_bridge_reach(1) _ demo_tasks(3)] demo_tasks(9) by auto

end
