(* ===== verification/Engine_Process.thy ===== *)
theory Engine_Process
  imports Bridge_State Js_Stringify Mcp_Wire "HOL-Library.Sublist"
begin

text \<open>
  The engine as a child process: \<open>src-tauri/src/process.rs\<close> (which program with which arguments, and its first line) and
  \<open>process_runtime.rs\<close> (its launch, its monitor, and what stops it) as a step relation. What the operating system answers is given.
\<close>

section \<open>What is started\<close>

datatype engine_path_source = Path_env | Path_settings | Path_default

definition first_non_blank :: "string option \<Rightarrow> string option" where
  "first_non_blank candidate =
     Option.bind candidate (\<lambda>raw. if trim raw = [] then None else Some (trim raw))"

definition resolve_engine_path :: "string option \<Rightarrow> string option \<Rightarrow> string \<Rightarrow> string \<times> engine_path_source" where
  "resolve_engine_path env config fallback =
     (case first_non_blank env of
       Some v \<Rightarrow> (v, Path_env)
     | None \<Rightarrow> (case first_non_blank config of Some v \<Rightarrow> (v, Path_settings) | None \<Rightarrow> (fallback, Path_default)))"

definition is_batch_file_path :: "string \<Rightarrow> bool" where
  "is_batch_file_path path \<longleftrightarrow>
     (let text = rev (dropWhile (\<lambda>c. c = CHR ''.'' \<or> c = CHR '' '') (rev (map to_ascii_lowercase path)))
      in suffix ''.bat'' text \<or> suffix ''.cmd'' text)"

definition BRIDGE_PORT_ARG :: string where
  "BRIDGE_PORT_ARG = ''--bridge-port''"

definition MAX_ENGINE_ARGS :: nat where
  "MAX_ENGINE_ARGS = 32"

definition MAX_ENGINE_ARG_LEN :: nat where
  "MAX_ENGINE_ARG_LEN = 512"

text \<open>The texts of the refusals are left out; the number is that of the argument, counted from 1.\<close>

datatype args_error =
    Too_many_args nat
  | Port_arg nat
  | Nul_arg nat
  | Newline_arg nat
  | Long_arg nat nat

definition names_the_port :: "string \<Rightarrow> bool" where
  "names_the_port arg \<longleftrightarrow> trim arg = BRIDGE_PORT_ARG \<or> prefix (BRIDGE_PORT_ARG @ ''='') (trim arg)"

definition check_engine_arg :: "nat \<Rightarrow> string \<Rightarrow> args_error option" where
  "check_engine_arg line arg =
     (if names_the_port arg then Some (Port_arg line)
      else if CHR 0x00 \<in> set arg then Some (Nul_arg line)
      else if CHR 0x0A \<in> set arg \<or> CHR 0x0D \<in> set arg then Some (Newline_arg line)
      else if length arg > MAX_ENGINE_ARG_LEN then Some (Long_arg line (length arg))
      else None)"

fun check_engine_args :: "nat \<Rightarrow> string list \<Rightarrow> args_error option" where
  "check_engine_args line [] = None"
| "check_engine_args line (arg # args) =
     (case check_engine_arg line arg of Some e \<Rightarrow> Some e | None \<Rightarrow> check_engine_args (line + 1) args)"

definition normalize_engine_args :: "string list \<Rightarrow> args_error + string list" where
  "normalize_engine_args raw =
     (let args = filter (\<lambda>arg. trim arg \<noteq> []) raw
      in if length args > MAX_ENGINE_ARGS then Inl (Too_many_args (length args))
         else (case check_engine_args 1 args of Some e \<Rightarrow> Inl e | None \<Rightarrow> Inr args))"

definition build_engine_args :: "string list \<Rightarrow> nat \<Rightarrow> string list" where
  "build_engine_args user_args port = user_args @ [BRIDGE_PORT_ARG, nat_dec port]"

section \<open>The first line\<close>

datatype ready_error =
    Malformed_ready string
  | Port_mismatch nat nat

text \<open>\<open>str::split_whitespace\<close>; the first argument is the token that is read, reversed.\<close>

function split_white :: "string \<Rightarrow> string \<Rightarrow> string list" where
  "split_white word [] = (if word = [] then [] else [rev word])"
| "split_white word (c # cs) =
     (case find_prefix white_space (c # cs) of
       None \<Rightarrow> split_white (c # word) cs
     | Some w \<Rightarrow> (if word = [] then [] else [rev word]) @ split_white [] (drop (length w) (c # cs)))"
  by pat_completeness auto
termination
  by (relation "measure (\<lambda>(_, s). length s)") (auto dest: find_prefix_shorter)

declare split_white.simps(2) [simp del]

definition parse_ready_line :: "string \<Rightarrow> nat \<Rightarrow> ready_error + nat" where
  "parse_ready_line line expected_port =
     (case split_white [] (trim line) of
       [keyword, port_token] \<Rightarrow>
         if keyword \<noteq> ''READY'' then Inl (Malformed_ready line)
         else
           (case parse_unsigned (2 ^ 16 - 1) port_token of
             None \<Rightarrow> Inl (Malformed_ready line)
           | Some got \<Rightarrow> if got = expected_port then Inr got else Inl (Port_mismatch expected_port got))
     | _ \<Rightarrow> Inl (Malformed_ready line))"

section \<open>The end of a process\<close>

definition monitor_should_emit_exit :: "u64 \<Rightarrow> u64 \<Rightarrow> bool" where
  "monitor_should_emit_exit current_process_gen monitor_gen \<longleftrightarrow> current_process_gen = monitor_gen"

definition exit_code_and_signal :: "32 word option \<Rightarrow> 32 word option \<Rightarrow> int \<times> string option" where
  "exit_code_and_signal code_of signal =
     (case (code_of, signal) of
       (Some c, _) \<Rightarrow> (sint c, None)
     | (None, Some sig) \<Rightarrow> (128 + sint sig, Some (''SIG'' @ int_dec (sint sig)))
     | (None, None) \<Rightarrow> (- 1, None))"

definition number_of_i64 :: "int \<Rightarrow> jnum" where
  "number_of_i64 n = (if n \<ge> 0 then PosInt (word_of_int n) else NegInt (word_of_int n))"

definition build_process_exited_params :: "int \<Rightarrow> string option \<Rightarrow> json_map" where
  "build_process_exited_params exit_code signal =
     [(''exitCode'', JNumber (number_of_i64 exit_code))]
     @ (case signal of None \<Rightarrow> [] | Some s \<Rightarrow> if s = [] then [] else [(''signal'', JString s)])
     @ [(''origin'', JString ''editor-backend'')]"

section \<open>The launch up to the monitor\<close>

datatype launch_error =
    Already_running
  | Batch_file string
  | No_such_engine string
  | Args_refused args_error
  | No_free_port
  | Spawn_failed
  | No_stdout
  | Ready_closed
  | Ready_read_failed
  | Ready_timed_out
  | Ready_refused ready_error
  | Connect_refused backend_error

text \<open>Paths, saved settings and a port to the command; \<open>is_file\<close> and the port are the system's answers.\<close>

definition validate_engine_path :: "(string \<Rightarrow> bool) \<Rightarrow> string \<Rightarrow> launch_error + unit" where
  "validate_engine_path is_file path =
     (if is_batch_file_path path then Inl (Batch_file path)
      else if is_file path then Inr () else Inl (No_such_engine path))"

definition DEFAULT_ENGINE_PATH :: string where
  "DEFAULT_ENGINE_PATH = ''norves_mock_engine''"

definition launch_command ::
  "string option \<Rightarrow> string option \<Rightarrow> string list \<Rightarrow> (string \<Rightarrow> bool) \<Rightarrow> nat option
    \<Rightarrow> launch_error + (nat \<times> string \<times> string list)" where
  "launch_command env saved_path saved_args is_file free_port =
     (let path = fst (resolve_engine_path env saved_path DEFAULT_ENGINE_PATH)
      in bind_r (validate_engine_path is_file path) (\<lambda>_.
         bind_r (map_err Args_refused (normalize_engine_args saved_args)) (\<lambda>user_args.
         bind_r (ok_or No_free_port free_port) (\<lambda>port.
         Inr (port, path, build_engine_args user_args port)))))"

text \<open>What comes of waiting for the first line; \<open>Line\<close> has at least one byte.\<close>

datatype ready_read = Line string | End_of_file | Read_failed | Timed_out

fun ready_outcome :: "nat \<Rightarrow> ready_read \<Rightarrow> launch_error option" where
  "ready_outcome port End_of_file = Some Ready_closed"
| "ready_outcome port Read_failed = Some Ready_read_failed"
| "ready_outcome port Timed_out = Some Ready_timed_out"
| "ready_outcome port (Line line) =
     (case parse_ready_line line port of Inl e \<Rightarrow> Some (Ready_refused e) | Inr got \<Rightarrow> None)"

end
