(* ===== verification/Engine_Lifecycle.thy ===== *)
theory Engine_Lifecycle
  imports Engine_Process
begin

text \<open>
  \<open>process_runtime.rs\<close> as a step relation: launches, stops and the end of the application run at the same time as the monitors
  of the processes. A step is one section under the lock of \<open>ProcessState\<close>, or one act without it. A child is known by a number,
  which also stands for its kill channel and its monitor.
\<close>

section \<open>The state\<close>

record process_handle =
  ph_generation :: u64
  ph_child :: nat

record process_state =
  ps_handle :: "process_handle option"
  ps_next_gen :: u64

text \<open>A monitor waits, has the exit status, has to tell it, or has ended.\<close>

datatype monitor =
    No_monitor
  | Mon_waiting
  | Mon_reaped "32 word option" "32 word option"
  | Mon_telling json_map
  | Mon_ended

text \<open>\<open>ec_kill\<close> is that the kill was sent or its sender dropped: the monitor's \<open>select\<close> does not tell them apart.\<close>

record engine_child =
  ec_alive :: bool
  ec_generation :: "u64 option"
  ec_kill :: bool
  ec_monitor :: monitor

datatype after_kill = Kill_failed launch_error | Kill_stopped | Kill_exit

datatype process_task =
    No_process_task
  | Launch_checked
  | Launch_waiting nat nat
  | Launch_monitored u64 nat nat
  | Launch_connecting u64
  | Launch_failing u64 launch_error
  | Stop_closing nat
  | Killing nat after_kill
  | Stop_telling nat
  | Exit_joining nat
  | Process_done "launch_error + unit"

datatype told = Told_exited json_map | Told_stopped

text \<open>\<open>pr_told\<close> is what the screen was told, newest last, with the child that was meant.\<close>

record process_system =
  pr_state :: process_state
  pr_task :: "nat \<Rightarrow> process_task"
  pr_child :: "nat \<Rightarrow> engine_child option"
  pr_allocated :: nat
  pr_told :: "(nat \<times> told) list"

definition process_start :: process_system where
  "process_start = \<lparr>pr_state = \<lparr>ps_handle = None, ps_next_gen = 0\<rparr>, pr_task = (\<lambda>_. No_process_task),
     pr_child = (\<lambda>_. None), pr_allocated = 0, pr_told = []\<rparr>"

definition set_task :: "nat \<Rightarrow> process_task \<Rightarrow> process_system \<Rightarrow> process_system" where
  "set_task i t s = s\<lparr>pr_task := (pr_task s)(i := t)\<rparr>"

definition set_handle :: "process_handle option \<Rightarrow> process_system \<Rightarrow> process_system" where
  "set_handle h s = s\<lparr>pr_state := (pr_state s)\<lparr>ps_handle := h\<rparr>\<rparr>"

definition change_child :: "nat \<Rightarrow> (engine_child \<Rightarrow> engine_child) \<Rightarrow> process_system \<Rightarrow> process_system" where
  "change_child c f s = s\<lparr>pr_child := (pr_child s)(c := map_option f (pr_child s c))\<rparr>"

definition tell :: "nat \<Rightarrow> told \<Rightarrow> process_system \<Rightarrow> process_system" where
  "tell c e s = s\<lparr>pr_told := pr_told s @ [(c, e)]\<rparr>"

abbreviation handle_of :: "process_system \<Rightarrow> process_handle option" where
  "handle_of s \<equiv> ps_handle (pr_state s)"

text \<open>A kill: the message is sent, or the sender is dropped with its handle.\<close>

definition request_kill :: "nat \<Rightarrow> process_system \<Rightarrow> process_system" where
  "request_kill c = change_child c (\<lambda>ch. ch\<lparr>ec_kill := True\<rparr>)"

definition drop_old :: "process_handle option \<Rightarrow> process_system \<Rightarrow> process_system" where
  "drop_old h s = (case h of None \<Rightarrow> s | Some p \<Rightarrow> request_kill (ph_child p) s)"

section \<open>The launch\<close>

definition call_launch :: "nat \<Rightarrow> process_system \<Rightarrow> process_system" where
  "call_launch i s =
     set_task i (case handle_of s of Some h \<Rightarrow> Process_done (Inl Already_running) | None \<Rightarrow> Launch_checked) s"

text \<open>The child is started, if the command can be made and the system starts it; \<open>captured\<close> is that its output is a pipe.\<close>

definition spawn_turn ::
  "nat \<Rightarrow> nat \<Rightarrow> launch_error + (nat \<times> string \<times> string list) \<Rightarrow> bool \<Rightarrow> bool \<Rightarrow> process_system \<Rightarrow> process_system" where
  "spawn_turn i c command spawned captured s =
     (case command of
       Inl e \<Rightarrow> set_task i (Process_done (Inl e)) s
     | Inr (port, path, argv) \<Rightarrow>
         if \<not> spawned then set_task i (Process_done (Inl Spawn_failed)) s
         else if \<not> captured then set_task i (Process_done (Inl No_stdout)) s
         else set_task i (Launch_waiting c port)
           (s\<lparr>pr_child := (pr_child s)(c \<mapsto> \<lparr>ec_alive = True, ec_generation = None, ec_kill = False, ec_monitor = No_monitor\<rparr>)\<rparr>))"

text \<open>The first line has come, or has not; then the child is killed, otherwise its monitor is started.\<close>

definition ready_turn :: "nat \<Rightarrow> ready_read \<Rightarrow> nat \<Rightarrow> nat \<Rightarrow> process_system \<Rightarrow> process_system" where
  "ready_turn i read c port s =
     (case ready_outcome port read of
       Some e \<Rightarrow> set_task i (Process_done (Inl e)) (change_child c (\<lambda>ch. ch\<lparr>ec_alive := False\<rparr>) s)
     | None \<Rightarrow>
         let g = ps_next_gen (pr_state s)
         in set_task i (Launch_monitored g c port)
              (change_child c (\<lambda>ch. ch\<lparr>ec_generation := Some g, ec_monitor := Mon_waiting\<rparr>)
                (s\<lparr>pr_state := (pr_state s)\<lparr>ps_next_gen := g + 1\<rparr>, pr_allocated := pr_allocated s + 1\<rparr>)))"

definition store_turn :: "nat \<Rightarrow> u64 \<Rightarrow> nat \<Rightarrow> process_system \<Rightarrow> process_system" where
  "store_turn i g c s =
     set_task i (Launch_connecting g) (set_handle (Some \<lparr>ph_generation = g, ph_child = c\<rparr>) (drop_old (handle_of s) s))"

definition connected_turn :: "nat \<Rightarrow> u64 \<Rightarrow> backend_error + connection_state_dto \<Rightarrow> process_system \<Rightarrow> process_system" where
  "connected_turn i g outcome s =
     set_task i (case outcome of Inr payload \<Rightarrow> Process_done (Inr ()) | Inl e \<Rightarrow> Launch_failing g (Connect_refused e)) s"

definition roll_back_turn :: "nat \<Rightarrow> u64 \<Rightarrow> launch_error \<Rightarrow> process_system \<Rightarrow> process_system" where
  "roll_back_turn i g e s =
     (case handle_of s of
       Some h \<Rightarrow>
         if ph_generation h = g then set_task i (Killing (ph_child h) (Kill_failed e)) (set_handle None s)
         else set_task i (Process_done (Inl e)) s
     | None \<Rightarrow> set_task i (Process_done (Inl e)) s)"

section \<open>Stops\<close>

definition call_stop :: "nat \<Rightarrow> process_system \<Rightarrow> process_system" where
  "call_stop i s =
     (case handle_of s of
       None \<Rightarrow> set_task i (Process_done (Inr ())) s
     | Some h \<Rightarrow> set_task i (Stop_closing (ph_child h)) (set_handle None s))"

text \<open>The end of the application, by either of its two functions; the synchronous one may not get the lock.\<close>

definition call_exit :: "nat \<Rightarrow> bool \<Rightarrow> process_system \<Rightarrow> process_system" where
  "call_exit i locked s =
     (case handle_of s of
       None \<Rightarrow> set_task i (Process_done (Inr ())) s
     | Some h \<Rightarrow>
         if \<not> locked then set_task i (Process_done (Inr ())) s
         else set_task i (Killing (ph_child h) Kill_exit) (set_handle None s))"

fun after_kill_task :: "nat \<Rightarrow> after_kill \<Rightarrow> process_task" where
  "after_kill_task c (Kill_failed e) = Process_done (Inl e)"
| "after_kill_task c Kill_stopped = Stop_telling c"
| "after_kill_task c Kill_exit = Exit_joining c"

definition kill_turn :: "nat \<Rightarrow> nat \<Rightarrow> after_kill \<Rightarrow> process_system \<Rightarrow> process_system" where
  "kill_turn i c after s = set_task i (after_kill_task c after) (request_kill c s)"

definition stop_told_turn :: "nat \<Rightarrow> nat \<Rightarrow> process_system \<Rightarrow> process_system" where
  "stop_told_turn i c s = set_task i (Process_done (Inr ())) (tell c Told_stopped s)"

text \<open>The monitor did not end in time: it is aborted where it waits, and its child is killed as it is dropped.\<close>

definition abort_monitor :: "engine_child \<Rightarrow> engine_child" where
  "abort_monitor ch =
     (case ec_monitor ch of
       Mon_waiting \<Rightarrow> ch\<lparr>ec_alive := False, ec_monitor := Mon_ended\<rparr>
     | Mon_reaped code_of signal \<Rightarrow> ch\<lparr>ec_monitor := Mon_ended\<rparr>
     | _ \<Rightarrow> ch)"

definition join_turn :: "nat \<Rightarrow> nat \<Rightarrow> bool \<Rightarrow> process_system \<Rightarrow> process_system" where
  "join_turn i c timely s =
     set_task i (Process_done (Inr ())) (if timely then s else change_child c abort_monitor s)"

section \<open>The monitor\<close>

definition reaped_turn :: "nat \<Rightarrow> 32 word option \<Rightarrow> 32 word option \<Rightarrow> process_system \<Rightarrow> process_system" where
  "reaped_turn c code_of signal = change_child c (\<lambda>ch. ch\<lparr>ec_alive := False, ec_monitor := Mon_reaped code_of signal\<rparr>)"

definition clear_own :: "u64 \<Rightarrow> process_system \<Rightarrow> bool \<times> process_system" where
  "clear_own my_gen s =
     (case handle_of s of
       Some h \<Rightarrow> if monitor_should_emit_exit (ph_generation h) my_gen then (True, set_handle None s) else (False, s)
     | None \<Rightarrow> (False, s))"

definition unreaped_turn :: "nat \<Rightarrow> u64 \<Rightarrow> process_system \<Rightarrow> process_system" where
  "unreaped_turn c my_gen s =
     change_child c (\<lambda>ch. ch\<lparr>ec_alive := False, ec_monitor := Mon_ended\<rparr>) (snd (clear_own my_gen s))"

definition guard_turn :: "nat \<Rightarrow> u64 \<Rightarrow> 32 word option \<Rightarrow> 32 word option \<Rightarrow> process_system \<Rightarrow> process_system" where
  "guard_turn c my_gen code_of signal s =
     (case clear_own my_gen s of
       (should_emit, s1) \<Rightarrow>
         change_child c (\<lambda>ch. ch\<lparr>ec_monitor :=
           (if should_emit
            then (case exit_code_and_signal code_of signal of (n, name) \<Rightarrow> Mon_telling (build_process_exited_params n name))
            else Mon_ended)\<rparr>) s1)"

definition exited_turn :: "nat \<Rightarrow> json_map \<Rightarrow> process_system \<Rightarrow> process_system" where
  "exited_turn c params s = change_child c (\<lambda>ch. ch\<lparr>ec_monitor := Mon_ended\<rparr>) (tell c (Told_exited params) s)"

section \<open>Steps\<close>

inductive process_step :: "process_system \<Rightarrow> process_system \<Rightarrow> bool" where
  launch_called: "pr_task s i = No_process_task \<Longrightarrow> process_step s (call_launch i s)"
| stop_called: "pr_task s i = No_process_task \<Longrightarrow> process_step s (call_stop i s)"
| exit_called: "pr_task s i = No_process_task \<Longrightarrow> process_step s (call_exit i locked s)"
| spawned: "pr_task s i = Launch_checked \<Longrightarrow> pr_child s c = None \<Longrightarrow>
    process_step s (spawn_turn i c (launch_command env saved_path saved_args is_file free_port) started captured s)"
| ready: "pr_task s i = Launch_waiting c port \<Longrightarrow> process_step s (ready_turn i read c port s)"
| stored: "pr_task s i = Launch_monitored g c port \<Longrightarrow> process_step s (store_turn i g c s)"
| connected: "pr_task s i = Launch_connecting g \<Longrightarrow> process_step s (connected_turn i g outcome s)"
| rolled_back: "pr_task s i = Launch_failing g e \<Longrightarrow> process_step s (roll_back_turn i g e s)"
| closed: "pr_task s i = Stop_closing c \<Longrightarrow> process_step s (set_task i (Killing c Kill_stopped) s)"
| killed: "pr_task s i = Killing c after \<Longrightarrow> process_step s (kill_turn i c after s)"
| stop_told: "pr_task s i = Stop_telling c \<Longrightarrow> process_step s (stop_told_turn i c s)"
| joined: "pr_task s i = Exit_joining c \<Longrightarrow> timely = (\<exists>ch. pr_child s c = Some ch \<and> ec_monitor ch = Mon_ended) \<Longrightarrow>
    process_step s (join_turn i c timely s)"
| died: "pr_child s c = Some ch \<Longrightarrow> process_step s (change_child c (\<lambda>ch. ch\<lparr>ec_alive := False\<rparr>) s)"
| reaped: "pr_child s c = Some ch \<Longrightarrow> ec_monitor ch = Mon_waiting \<Longrightarrow> ec_kill ch \<or> \<not> ec_alive ch \<Longrightarrow>
    process_step s (reaped_turn c code_of signal s)"
| unreaped: "pr_child s c = Some ch \<Longrightarrow> ec_monitor ch = Mon_waiting \<Longrightarrow> ec_generation ch = Some g \<Longrightarrow>
    process_step s (unreaped_turn c g s)"
| guarded: "pr_child s c = Some ch \<Longrightarrow> ec_monitor ch = Mon_reaped code_of signal \<Longrightarrow> ec_generation ch = Some g \<Longrightarrow>
    process_step s (guard_turn c g code_of signal s)"
| exited: "pr_child s c = Some ch \<Longrightarrow> ec_monitor ch = Mon_telling params \<Longrightarrow> process_step s (exited_turn c params s)"

inductive process_reach :: "process_system \<Rightarrow> bool" where
  start: "process_reach process_start"
| step: "process_reach s \<Longrightarrow> process_step s s' \<Longrightarrow> process_reach s'"

end
