(* ===== verification/Engine_Laws.thy ===== *)
theory Engine_Laws
  imports Engine_Lifecycle
begin

text \<open>
  The engine process under all interleavings of launches, stops, exits and monitors: its end is told once, by whoever has taken it,
  and no engine that lives is left to itself. Then what may be started, and the engine's first line.
\<close>

section \<open>Who may tell the end of a child\<close>

datatype claimant = By_handle | By_task nat | By_monitor nat | By_told nat

fun task_right :: "process_task \<Rightarrow> nat option" where
  "task_right (Launch_waiting c port) = Some c"
| "task_right (Launch_monitored g c port) = Some c"
| "task_right (Stop_closing c) = Some c"
| "task_right (Killing c after) = Some c"
| "task_right (Stop_telling c) = Some c"
| "task_right _ = None"

definition monitor_right :: "nat \<Rightarrow> engine_child option \<Rightarrow> nat option" where
  "monitor_right c ch = (case ch of None \<Rightarrow> None
     | Some ch \<Rightarrow> (case ec_monitor ch of Mon_telling params \<Rightarrow> Some c | _ \<Rightarrow> None))"

fun claims :: "process_system \<Rightarrow> claimant \<Rightarrow> nat option" where
  "claims s By_handle = map_option ph_child (handle_of s)"
| "claims s (By_task i) = task_right (pr_task s i)"
| "claims s (By_monitor c) = monitor_right c (pr_child s c)"
| "claims s (By_told k) = (if k < length (pr_told s) then Some (fst (pr_told s ! k)) else None)"

definition single :: "(claimant \<Rightarrow> nat option) \<Rightarrow> bool" where
  "single f \<longleftrightarrow> (\<forall>x y c. f x = Some c \<longrightarrow> f y = Some c \<longrightarrow> x = y)"

lemma single_at: "single f \<Longrightarrow> f x = Some c \<Longrightarrow> f y = Some c \<Longrightarrow> x = y"
  by (auto simp: single_def)

lemma single_drop: "single f \<Longrightarrow> single (f(x := None))"
  by (auto simp: single_def)

lemma single_keep: "single f \<Longrightarrow> v = f x \<or> v = None \<Longrightarrow> single (f(x := v))"
  using single_drop by (metis fun_upd_triv)

lemma single_new: "single f \<Longrightarrow> (\<And>y. f y \<noteq> Some c) \<Longrightarrow> single (f(x := Some c))"
  by (auto simp: single_def)

lemma single_move:
  assumes "single f" "f x = Some c"
  shows "single (f(x := None, y := Some c))"
proof -
  have "(f(x := None)) z \<noteq> Some c" for z using assms single_at by (metis fun_upd_apply option.distinct(1))
  then show ?thesis using single_new [OF single_drop [OF assms(1)]] by blast
qed

section \<open>Fields\<close>

lemma process_fields [simp]:
  "pr_task (set_task i t s) = (pr_task s)(i := t)" "pr_child (set_task i t s) = pr_child s" "pr_state (set_task i t s) = pr_state s"
  "pr_allocated (set_task i t s) = pr_allocated s" "pr_told (set_task i t s) = pr_told s"
  "pr_task (set_handle h s) = pr_task s" "pr_child (set_handle h s) = pr_child s" "ps_handle (pr_state (set_handle h s)) = h"
  "ps_next_gen (pr_state (set_handle h s)) = ps_next_gen (pr_state s)" "pr_allocated (set_handle h s) = pr_allocated s"
  "pr_told (set_handle h s) = pr_told s"
  "pr_task (change_child c f s) = pr_task s" "pr_child (change_child c f s) = (pr_child s)(c := map_option f (pr_child s c))"
  "pr_state (change_child c f s) = pr_state s" "pr_allocated (change_child c f s) = pr_allocated s"
  "pr_told (change_child c f s) = pr_told s"
  "pr_task (tell c e s) = pr_task s" "pr_child (tell c e s) = pr_child s" "pr_state (tell c e s) = pr_state s"
  "pr_allocated (tell c e s) = pr_allocated s" "pr_told (tell c e s) = pr_told s @ [(c, e)]"
  by (simp_all add: set_task_def set_handle_def change_child_def tell_def)

lemma claims_eqI:
  "claims s By_handle = f By_handle \<Longrightarrow> (\<And>i. claims s (By_task i) = f (By_task i)) \<Longrightarrow>
    (\<And>c. claims s (By_monitor c) = f (By_monitor c)) \<Longrightarrow> (\<And>k. claims s (By_told k) = f (By_told k)) \<Longrightarrow> claims s = f"
  by (rule ext) (metis claimant.exhaust)

lemma claims_simps [simp]:
  "claims (set_task i t s) = (claims s)(By_task i := task_right t)"
  "claims (set_handle h s) = (claims s)(By_handle := map_option ph_child h)"
  "claims (change_child c f s) = (claims s)(By_monitor c := monitor_right c (map_option f (pr_child s c)))"
  "claims (tell c e s) = (claims s)(By_told (length (pr_told s)) := Some c)"
  "claims (s\<lparr>pr_state := (pr_state s)\<lparr>ps_next_gen := g\<rparr>, pr_allocated := n\<rparr>) = claims s"
  "claims (s\<lparr>pr_child := (pr_child s)(c \<mapsto> ch)\<rparr>) = (claims s)(By_monitor c := monitor_right c (Some ch))"
  by (auto intro!: claims_eqI simp: nth_append)

lemma monitor_right_simps [simp]:
  "monitor_right c None = None"
  "monitor_right c (Some ch) = (case ec_monitor ch of Mon_telling params \<Rightarrow> Some c | _ \<Rightarrow> None)"
  by (simp_all add: monitor_right_def)

text \<open>Changes of a child that leave its monitor.\<close>

lemma claims_frame:
  "(\<And>ch. ec_monitor (f ch) = ec_monitor ch) \<Longrightarrow> claims (change_child c f s) = claims s"
  by (cases "pr_child s c") (auto simp: fun_upd_idem)

lemma claims_kill [simp]: "claims (request_kill c s) = claims s" "claims (drop_old h s) = claims s"
  using claims_frame [of "\<lambda>ch. ch\<lparr>ec_kill := True\<rparr>"] by (simp_all add: request_kill_def drop_old_def split: option.splits)

lemma kill_fields [simp]:
  "pr_task (request_kill c s) = pr_task s" "pr_state (request_kill c s) = pr_state s" "pr_told (request_kill c s) = pr_told s"
  "pr_allocated (request_kill c s) = pr_allocated s"
  "pr_child (request_kill c s) = (pr_child s)(c := map_option (\<lambda>ch. ch\<lparr>ec_kill := True\<rparr>) (pr_child s c))"
  "pr_task (drop_old h s) = pr_task s" "pr_state (drop_old h s) = pr_state s" "pr_told (drop_old h s) = pr_told s"
  "pr_allocated (drop_old h s) = pr_allocated s"
  by (simp_all add: request_kill_def drop_old_def split: option.splits)

section \<open>Generations\<close>

definition process_gens :: "process_system \<Rightarrow> bool" where
  "process_gens s \<longleftrightarrow> ps_next_gen (pr_state s) = of_nat (pr_allocated s)
     \<and> (\<forall>c ch g. pr_child s c = Some ch \<longrightarrow> ec_generation ch = Some g \<longrightarrow> unat g < pr_allocated s)
     \<and> (\<forall>c c' ch ch' g. pr_child s c = Some ch \<longrightarrow> pr_child s c' = Some ch' \<longrightarrow>
          ec_generation ch = Some g \<longrightarrow> ec_generation ch' = Some g \<longrightarrow> c = c')
     \<and> (\<forall>h. handle_of s = Some h \<longrightarrow> (\<exists>ch. pr_child s (ph_child h) = Some ch \<and> ec_generation ch = Some (ph_generation h)))
     \<and> (\<forall>i g c port. pr_task s i = Launch_monitored g c port \<longrightarrow> (\<exists>ch. pr_child s c = Some ch \<and> ec_generation ch = Some g))
     \<and> (\<forall>i c port. pr_task s i = Launch_waiting c port \<longrightarrow>
          (\<exists>ch. pr_child s c = Some ch \<and> ec_generation ch = None \<and> ec_monitor ch = No_monitor))"

definition claims_exist :: "process_system \<Rightarrow> bool" where
  "claims_exist s \<longleftrightarrow> (\<forall>x c. claims s x = Some c \<longrightarrow> pr_child s c \<noteq> None)"

lemma claims_existD: "claims_exist s \<Longrightarrow> pr_child s c = None \<Longrightarrow> claims s x \<noteq> Some c"
  unfolding claims_exist_def by metis

lemma own_of_generation:
  assumes "process_gens s" "pr_child s c = Some ch" "ec_generation ch = Some g" "handle_of s = Some h" "ph_generation h = g"
  shows "ph_child h = c"
  using assms unfolding process_gens_def by metis

section \<open>What is claimed exists\<close>

lemma claims_exist_upd:
  "claims_exist s \<Longrightarrow> claims s' = (claims s)(x := v) \<Longrightarrow> (\<And>c. pr_child s c \<noteq> None \<Longrightarrow> pr_child s' c \<noteq> None) \<Longrightarrow>
    (\<And>c. v = Some c \<Longrightarrow> pr_child s' c \<noteq> None) \<Longrightarrow> claims_exist s'"
  unfolding claims_exist_def by (metis fun_upd_apply)

lemma ce_task: "claims_exist s \<Longrightarrow> (\<And>c. task_right t = Some c \<Longrightarrow> pr_child s c \<noteq> None) \<Longrightarrow> claims_exist (set_task i t s)"
  by (rule claims_exist_upd [where x = "By_task i" and v = "task_right t" and s = s]) simp_all

lemma ce_handle: "claims_exist s \<Longrightarrow> (\<And>p. h = Some p \<Longrightarrow> pr_child s (ph_child p) \<noteq> None) \<Longrightarrow> claims_exist (set_handle h s)"
  by (rule claims_exist_upd [where x = By_handle and v = "map_option ph_child h" and s = s]) auto

lemma ce_change: "claims_exist s \<Longrightarrow> claims_exist (change_child c f s)"
  by (rule claims_exist_upd [where x = "By_monitor c" and s = s and v = "monitor_right c (map_option f (pr_child s c))"])
     (cases "pr_child s c"; auto split: monitor.splits if_splits)+

lemma ce_tell: "claims_exist s \<Longrightarrow> pr_child s c \<noteq> None \<Longrightarrow> claims_exist (tell c e s)"
  by (rule claims_exist_upd [where x = "By_told (length (pr_told s))" and v = "Some c" and s = s]) simp_all

lemma ce_kill: "claims_exist s \<Longrightarrow> claims_exist (request_kill c s)" "claims_exist s \<Longrightarrow> claims_exist (drop_old h s)"
  by (simp_all add: request_kill_def drop_old_def ce_change split: option.splits)

lemma ce_task_at: "claims_exist s \<Longrightarrow> task_right (pr_task s i) = Some c \<Longrightarrow> pr_child s c \<noteq> None"
  unfolding claims_exist_def by (metis claims.simps(2))

lemma ce_handle_at: "claims_exist s \<Longrightarrow> handle_of s = Some h \<Longrightarrow> pr_child s (ph_child h) \<noteq> None"
  unfolding claims_exist_def by (metis claims.simps(1) option.map(2))

lemmas ce_intros = ce_task ce_handle ce_change ce_tell ce_kill

lemma claims_exist_step: "process_step s s' \<Longrightarrow> claims_exist s \<Longrightarrow> claims_exist s'"
proof (induction rule: process_step.induct)
  case (launch_called s i)
  then show ?case by (auto simp: call_launch_def intro!: ce_intros split: option.splits)
next
  case (stop_called s i)
  then show ?case using ce_handle_at [of s]
    by (cases "handle_of s"; simp add: call_stop_def) (auto intro!: ce_intros)
next
  case (exit_called s i locked)
  then show ?case using ce_handle_at [of s]
    by (cases "handle_of s"; simp add: call_exit_def) (auto intro!: ce_intros)
next
  case (spawned s i c env saved_path saved_args is_file free_port started captured)
  have "claims_exist (s\<lparr>pr_child := (pr_child s)(c \<mapsto> ch)\<rparr>)" if "ec_monitor ch = No_monitor" for ch
    using spawned that by (intro claims_exist_upd [OF spawned(3), where x = "By_monitor c" and v = None]) simp_all
  then have new: "claims_exist (set_task i (Launch_waiting c port) (s\<lparr>pr_child := (pr_child s)(c \<mapsto> \<lparr>ec_alive = True,
      ec_generation = None, ec_kill = False, ec_monitor = No_monitor\<rparr>)\<rparr>))" for port
    by (intro ce_task) simp_all
  have ended: "claims_exist (set_task i (Process_done r) s)" for r using spawned by (intro ce_task) simp_all
  show ?case unfolding spawn_turn_def using new ended by (simp split: sum.splits prod.splits)
next
  case (ready s i c port read)
  then have c: "pr_child s c \<noteq> None" using ce_task_at [of s i c] by simp
  have "claims_exist (s\<lparr>pr_state := (pr_state s)\<lparr>ps_next_gen := g\<rparr>, pr_allocated := n\<rparr>)" for g n
    using ready by (simp add: claims_exist_def)
  then show ?case using ready c by (auto simp: ready_turn_def Let_def intro!: ce_intros split: option.splits)
next
  case (stored s i g c port)
  then have c: "pr_child s c \<noteq> None" using ce_task_at [of s i c] by simp
  then have "pr_child (drop_old (handle_of s) s) c \<noteq> None" by (auto simp: drop_old_def split: option.splits)
  then show ?case using stored by (auto simp: store_turn_def intro!: ce_intros)
next
  case (rolled_back s i g e)
  then show ?case using ce_handle_at [of s]
    by (cases "handle_of s"; simp add: roll_back_turn_def) (auto intro!: ce_intros)
next
  case (killed s i c after)
  then have "pr_child s c \<noteq> None" using ce_task_at [of s i c] by simp
  then show ?case using killed by (cases after) (auto simp: kill_turn_def intro!: ce_intros)
next
  case (stop_told s i c)
  then have "pr_child s c \<noteq> None" using ce_task_at [of s i c] by simp
  then show ?case using stop_told by (auto simp: stop_told_turn_def intro!: ce_intros)
next
  case (closed s i c)
  then have "pr_child s c \<noteq> None" using ce_task_at [of s i c] by simp
  then show ?case using closed by (auto intro!: ce_intros)
next
  case (unreaped s c ch g)
  then show ?case by (auto simp: unreaped_turn_def clear_own_def intro!: ce_intros split: option.splits)
next
  case (guarded s c ch code_of signal g)
  then show ?case by (auto simp: guard_turn_def clear_own_def intro!: ce_intros split: option.splits)
qed (auto simp: connected_turn_def join_turn_def reaped_turn_def exited_turn_def intro!: ce_intros split: sum.splits)

section \<open>Generations are kept apart\<close>

lemmas pgD =
  process_gens_def [THEN iffD1, THEN conjunct1]
  process_gens_def [THEN iffD1, THEN conjunct2, THEN conjunct1, rule_format]
  process_gens_def [THEN iffD1, THEN conjunct2, THEN conjunct2, THEN conjunct1, rule_format]
  process_gens_def [THEN iffD1, THEN conjunct2, THEN conjunct2, THEN conjunct2, THEN conjunct1, rule_format]
  process_gens_def [THEN iffD1, THEN conjunct2, THEN conjunct2, THEN conjunct2, THEN conjunct2, THEN conjunct1, rule_format]
  process_gens_def [THEN iffD1, THEN conjunct2, THEN conjunct2, THEN conjunct2, THEN conjunct2, THEN conjunct2, rule_format]

lemma pg_task:
  "process_gens s \<Longrightarrow> (\<And>g c port. t = Launch_monitored g c port \<Longrightarrow> \<exists>ch. pr_child s c = Some ch \<and> ec_generation ch = Some g) \<Longrightarrow>
    (\<And>c port. t = Launch_waiting c port \<Longrightarrow>
      \<exists>ch. pr_child s c = Some ch \<and> ec_generation ch = None \<and> ec_monitor ch = No_monitor) \<Longrightarrow> process_gens (set_task i t s)"
  unfolding process_gens_def process_fields fun_upd_apply by (intro conjI allI impI) (metis+)

lemma pg_handle:
  "process_gens s \<Longrightarrow> (\<And>p. h = Some p \<Longrightarrow> \<exists>ch. pr_child s (ph_child p) = Some ch \<and> ec_generation ch = Some (ph_generation p)) \<Longrightarrow>
    process_gens (set_handle h s)"
  unfolding process_gens_def by simp

lemma pg_change:
  assumes "process_gens s" "\<And>ch. ec_generation (f ch) = ec_generation ch"
    and "\<And>ch. pr_child s c = Some ch \<Longrightarrow> ec_monitor ch = No_monitor \<Longrightarrow> ec_monitor (f ch) = No_monitor"
  shows "process_gens (change_child c f s)"
proof -
  have old: "\<exists>ch'. pr_child s k = Some ch' \<and> ec_generation ch' = ec_generation ch" if "pr_child (change_child c f s) k = Some ch" for k ch
    using that assms(2) by (auto split: if_splits)
  have new: "\<exists>ch'. pr_child (change_child c f s) k = Some ch' \<and> ec_generation ch' = ec_generation ch
      \<and> (ec_monitor ch = No_monitor \<longrightarrow> ec_monitor ch' = No_monitor)" if "pr_child s k = Some ch" for k ch
    using that assms(2,3) by auto
  note at = pgD [OF assms(1)]
  show ?thesis unfolding process_gens_def
  proof (intro conjI allI impI, goal_cases)
    case 1
    then show ?case using at(1) by simp
  next
    case (2 k ch g)
    then show ?case using old [OF 2(1)] at(2) by auto
  next
    case (3 k k' ch ch' g)
    then show ?case using old [OF 3(1)] old [OF 3(2)] at(3) by metis
  next
    case (4 h)
    then show ?case using at(4) [of h] new by fastforce
  next
    case (5 i g k port)
    then show ?case using at(5) [of i g k port] new by fastforce
  next
    case (6 i k port)
    then show ?case using at(6) [of i k port] new by fastforce
  qed
qed

lemma pg_tell: "process_gens (tell c e s) = process_gens s"
  unfolding process_gens_def by simp

lemma pg_kill: "process_gens s \<Longrightarrow> process_gens (request_kill c s)" "process_gens s \<Longrightarrow> process_gens (drop_old h s)"
  by (simp_all add: request_kill_def drop_old_def pg_change split: option.splits)

lemma pg_spawn:
  assumes "process_gens s" "pr_child s c = None"
  shows "process_gens (set_task i (Launch_waiting c port) (s\<lparr>pr_child := (pr_child s)(c \<mapsto> \<lparr>ec_alive = True, ec_generation = None,
    ec_kill = False, ec_monitor = No_monitor\<rparr>)\<rparr>))"
proof -
  note at = pgD [OF assms(1)]
  have other: "pr_child s k = Some ch \<Longrightarrow> k \<noteq> c" for k ch using assms(2) by auto
  show ?thesis unfolding process_gens_def
  proof (intro conjI allI impI, goal_cases)
    case 1
    then show ?case using at(1) by simp
  next
    case (2 k ch g)
    then show ?case using at(2) by (auto split: if_splits)
  next
    case (3 k k' ch ch' g)
    then show ?case using at(3) by (auto split: if_splits)
  next
    case (4 h)
    then show ?case using at(4) [of h] other by fastforce
  next
    case (5 j g k port')
    then show ?case using at(5) [of j g k port'] other by (fastforce split: if_splits)
  next
    case (6 j k port')
    then show ?case using at(6) [of j k port'] other by (fastforce split: if_splits)
  qed
qed

lemma pg_ready:
  assumes "process_gens s" "single (claims s)" "pr_task s i = Launch_waiting c port" "pr_allocated s < 2 ^ 64"
  shows "process_gens (set_task i (Launch_monitored (ps_next_gen (pr_state s)) c port)
    (change_child c (\<lambda>ch. ch\<lparr>ec_generation := Some (ps_next_gen (pr_state s)), ec_monitor := Mon_waiting\<rparr>)
      (s\<lparr>pr_state := (pr_state s)\<lparr>ps_next_gen := ps_next_gen (pr_state s) + 1\<rparr>, pr_allocated := pr_allocated s + 1\<rparr>)))"
proof -
  note at = pgD [OF assms(1)]
  let ?g = "ps_next_gen (pr_state s)"
  have n: "unat ?g = pr_allocated s" using at(1) assms(4) by (simp add: unat_of_nat)
  obtain ch where ch: "pr_child s c = Some ch" "ec_generation ch = None" using at(6) [OF assms(3)] by blast
  have fresh: "pr_child s k = Some ch' \<Longrightarrow> ec_generation ch' \<noteq> Some ?g" for k ch' using at(2) [of k ch' ?g] n by auto
  have alone: "pr_task s j = Launch_waiting c port' \<Longrightarrow> j = i" for j port'
    using single_at [OF assms(2), of "By_task i" c "By_task j"] assms(3) by simp
  show ?thesis unfolding process_gens_def
  proof (intro conjI allI impI, goal_cases)
    case 1
    then show ?case using at(1) by simp
  next
    case (2 k ch' g)
    then show ?case using at(2) [of k ch' g] n by (auto split: if_splits)
  next
    case (3 k k' ch1 ch2 g)
    then show ?case using at(3) [of k ch1 k' ch2 g] fresh ch(1) by (auto split: if_splits)
  next
    case (4 h)
    then show ?case using at(4) [of h] ch by auto
  next
    case (5 j g k port')
    then show ?case using at(5) [of j g k port'] ch by (auto split: if_splits)
  next
    case (6 j k port')
    then show ?case using at(6) [of j k port'] alone by (auto split: if_splits)
  qed
qed

section \<open>One claimant\<close>

lemma single_two: "single f \<Longrightarrow> u = f x \<or> u = None \<Longrightarrow> v = f y \<or> v = None \<Longrightarrow> single (f(x := u, y := v))"
  by (cases "x = y"; simp add: single_keep)

lemma single_pass: "single f \<Longrightarrow> f x = Some c \<Longrightarrow> x \<noteq> y \<Longrightarrow> single (f(y := Some c, x := None))"
  by (subst fun_upd_twist) (auto intro: single_move)

lemma take_handle:
  assumes "single (claims s)" "handle_of s = Some h" "task_right t = Some (ph_child h)"
  shows "single (claims (set_task i t (set_handle None s)))"
  using single_move [OF assms(1), of By_handle "ph_child h" "By_task i"] assms(2,3) by simp

lemma end_task: "single (claims s) \<Longrightarrow> task_right t = None \<or> task_right t = task_right (pr_task s i) \<Longrightarrow> single (claims (set_task i t s))"
  by (auto intro: single_keep)

lemma end_monitor:
  "single (claims s) \<Longrightarrow> (\<And>ch params. pr_child s c = Some ch \<Longrightarrow> ec_monitor (f ch) \<noteq> Mon_telling params) \<Longrightarrow>
    single (claims (change_child c f s))"
  unfolding claims_simps by (rule single_keep) (cases "pr_child s c"; auto split: monitor.splits)+

lemma end_own: "single (claims s) \<Longrightarrow> single (claims (snd (clear_own g s)))"
  by (cases "handle_of s") (simp_all add: clear_own_def single_drop)

lemma single_step:
  "process_step s s' \<Longrightarrow> claims_exist s \<Longrightarrow> process_gens s \<Longrightarrow> single (claims s) \<Longrightarrow> single (claims s')"
proof (induction rule: process_step.induct)
  case (launch_called s i)
  then show ?case unfolding call_launch_def by (intro end_task) (auto split: option.splits)
next
  case (stop_called s i)
  then show ?case unfolding call_stop_def by (cases "handle_of s") (simp_all add: end_task take_handle del: claims_simps)
next
  case (exit_called s i locked)
  then show ?case unfolding call_exit_def
    by (cases "handle_of s"; cases locked) (simp_all add: end_task take_handle del: claims_simps)
next
  case (spawned s i c env saved_path saved_args is_file free_port started captured)
  have new: "single ((claims s)(By_monitor c := None, By_task i := Some c))"
    using spawned(2-5) claims_existD by (intro single_new single_drop) auto
  have ended: "single (claims (set_task i (Process_done r) s))" for r using spawned by (intro end_task) simp_all
  show ?case unfolding spawn_turn_def using new ended by (simp del: claims_simps(1) split: sum.splits prod.splits) simp
next
  case (ready s i c port read)
  have dead: "claims (change_child c (\<lambda>ch. ch\<lparr>ec_alive := False\<rparr>) s) = claims s" by (rule claims_frame) simp
  show ?case
  proof (cases "ready_outcome port read")
    case None
    have "single ((claims s)(By_monitor c := None, By_task i := Some c))"
      using ready by (intro single_two) simp_all
    then show ?thesis using None by (cases "pr_child s c") (simp_all add: ready_turn_def Let_def fun_upd_def)
  next
    case (Some e)
    have "single (claims (set_task i (Process_done (Inl e)) (change_child c (\<lambda>ch. ch\<lparr>ec_alive := False\<rparr>) s)))"
      by (rule end_task) (simp_all add: dead ready del: claims_simps(3))
    then show ?thesis using Some by (simp only: ready_turn_def option.case)
  qed
next
  case (stored s i g c port)
  have "single ((claims s)(By_handle := Some c, By_task i := None))" using stored by (intro single_pass) simp_all
  then show ?case by (simp add: store_turn_def fun_upd_def)
next
  case (connected s i g outcome)
  then show ?case unfolding connected_turn_def by (intro end_task) (auto split: sum.splits)
next
  case (rolled_back s i g e)
  then show ?case unfolding roll_back_turn_def
    by (cases "handle_of s") (simp_all add: end_task take_handle del: claims_simps)
next
  case (closed s i c)
  then show ?case by (intro end_task) simp_all
next
  case (killed s i c after)
  then show ?case unfolding kill_turn_def  by (intro end_task; cases after; simp)
next
  case (stop_told s i c)
  have "single ((claims s)(By_told (length (pr_told s)) := Some c, By_task i := None))"
    using stop_told by (intro single_pass) simp_all
  then show ?case by (simp add: stop_told_turn_def fun_upd_def)
next
  case (joined s i c timely)
  have "single ((claims s)(By_monitor c := monitor_right c (map_option abort_monitor (pr_child s c))))"
    using joined(5) by (rule single_keep) (cases "pr_child s c"; auto simp: abort_monitor_def split: monitor.splits)
  then have aborted: "single (claims (change_child c abort_monitor s))" by simp
  show ?case unfolding join_turn_def
    using joined(5) aborted by (cases timely) (simp_all only: if_True if_False, (rule end_task; simp)+)
next
  case (died s c ch)
  have "claims (change_child c (\<lambda>ch. ch\<lparr>ec_alive := False\<rparr>) s) = claims s" by (rule claims_frame) simp
  then show ?case using died by simp
next
  case (reaped s c ch code_of signal)
  then show ?case unfolding reaped_turn_def by (intro end_monitor) simp_all
next
  case (unreaped s c ch g)
  then show ?case unfolding unreaped_turn_def by (intro end_monitor end_own) simp_all
next
  case (guarded s c ch code_of signal g)
  show ?case
  proof (cases "fst (clear_own g s)")
    case True
    then obtain h where h: "handle_of s = Some h" "ph_generation h = g"
      by (auto simp: clear_own_def monitor_should_emit_exit_def split: option.splits if_splits)
    then have "ph_child h = c" using own_of_generation guarded by blast
    then have "single ((claims s)(By_handle := None, By_monitor c := Some c))"
      using single_move guarded h by simp
    moreover obtain n name where "exit_code_and_signal code_of signal = (n, name)" by fastforce
    ultimately show ?thesis using h guarded
      by (simp add: guard_turn_def clear_own_def monitor_should_emit_exit_def fun_upd_def)
  next
    case False
    then have "clear_own g s = (False, s)" by (auto simp: clear_own_def split: option.splits if_splits)
    then show ?thesis unfolding guard_turn_def using guarded by (simp del: claims_simps) (intro end_monitor, simp_all)
  qed
next
  case (exited s c ch params)
  have "single ((claims s)(By_told (length (pr_told s)) := Some c, By_monitor c := None))"
    using exited by (intro single_pass) simp_all
  then show ?case using exited by (simp add: exited_turn_def fun_upd_def)
qed

lemma own_fields [simp]:
  "pr_child (snd (clear_own g s)) = pr_child s" "pr_task (snd (clear_own g s)) = pr_task s"
  "pr_told (snd (clear_own g s)) = pr_told s" "pr_allocated (snd (clear_own g s)) = pr_allocated s"
  by (simp_all add: clear_own_def split: option.splits)

lemma pg_own: "process_gens s \<Longrightarrow> process_gens (snd (clear_own g s))"
  by (auto simp: clear_own_def intro: pg_handle split: option.splits)

lemma pg_end: "process_gens s \<Longrightarrow> task_right t = None \<or> (\<forall>g k port. t \<noteq> Launch_monitored g k port \<and> t \<noteq> Launch_waiting k port) \<Longrightarrow>
    process_gens (set_task i t s)"
  by (rule pg_task) auto

lemma process_gens_step:
  "process_step s s' \<Longrightarrow> process_gens s \<Longrightarrow> single (claims s) \<Longrightarrow> pr_allocated s' \<le> 2 ^ 64 \<Longrightarrow> process_gens s'"
proof (induction rule: process_step.induct)
  case (launch_called s i)
  then show ?case unfolding call_launch_def by (intro pg_end) (auto split: option.splits)
next
  case (stop_called s i)
  then show ?case by (cases "handle_of s") (auto simp: call_stop_def intro!: pg_end pg_handle)
next
  case (exit_called s i locked)
  then show ?case by (cases "handle_of s"; cases locked) (auto simp: call_exit_def intro!: pg_end pg_handle)
next
  case (spawned s i c env saved_path saved_args is_file free_port started captured)
  have "process_gens (set_task i (Process_done r) s)" for r using spawned by (intro pg_end) simp_all
  then show ?case unfolding spawn_turn_def using pg_spawn [OF spawned(3,2)] by (simp split: sum.splits prod.splits)
next
  case (ready s i c port read)
  show ?case
  proof (cases "ready_outcome port read")
    case None
    then have "pr_allocated s < 2 ^ 64" using ready(4) by (simp add: ready_turn_def Let_def)
    then show ?thesis using pg_ready [OF ready(2,3,1)] None by (simp add: ready_turn_def Let_def)
  next
    case (Some e)
    then show ?thesis using ready(2) by (auto simp: ready_turn_def intro!: pg_end pg_change)
  qed
next
  case (stored s i g c port)
  note at = pgD(5) [OF stored(2,1)]
  have "process_gens (drop_old (handle_of s) s)" using stored pg_kill by simp
  moreover have "\<exists>ch. pr_child (drop_old (handle_of s) s) c = Some ch \<and> ec_generation ch = Some g"
    using at by (auto simp: drop_old_def split: option.splits)
  ultimately show ?case by (auto simp: store_turn_def intro!: pg_end pg_handle)
next
  case (connected s i g outcome)
  then show ?case unfolding connected_turn_def by (intro pg_end) (auto split: sum.splits)
next
  case (rolled_back s i g e)
  then show ?case by (cases "handle_of s") (auto simp: roll_back_turn_def intro!: pg_end pg_handle)
next
  case (killed s i c after)
  then show ?case unfolding kill_turn_def by (intro pg_end pg_kill) (cases after; simp)+
next
  case (stop_told s i c)
  then show ?case by (auto simp: stop_told_turn_def pg_tell intro!: pg_end)
next
  case (joined s i c timely)
  have "process_gens (change_child c abort_monitor s)"
    using joined by (intro pg_change) (simp_all add: abort_monitor_def split: monitor.splits)
  then show ?case unfolding join_turn_def using joined by (intro pg_end) simp_all
next
  case (unreaped s c ch g)
  then show ?case unfolding unreaped_turn_def
    by (intro pg_change pg_own) simp_all
next
  case (guarded s c ch code_of signal g)
  have "process_gens (snd (clear_own g s))" using guarded pg_own by blast
  then show ?case unfolding guard_turn_def case_prod_beta using guarded by (intro pg_change) simp_all
next
  case (exited s c ch params)
  then show ?case by (auto simp: exited_turn_def pg_tell intro!: pg_change)
qed (auto simp: reaped_turn_def intro!: pg_change pg_end)

section \<open>Every living engine is looked after\<close>

fun task_keeps :: "process_task \<Rightarrow> nat option" where
  "task_keeps (Launch_monitored g c port) = Some c"
| "task_keeps (Stop_closing c) = Some c"
| "task_keeps (Killing c after) = Some c"
| "task_keeps _ = None"

definition guardian :: "process_system \<Rightarrow> nat \<Rightarrow> bool" where
  "guardian s c \<longleftrightarrow> map_option ph_child (handle_of s) = Some c \<or> (\<exists>i. task_keeps (pr_task s i) = Some c)"

text \<open>Before it has a monitor a child is waited for by its launch; then it has a guardian, or its monitor has the kill.\<close>

definition looked_after :: "process_system \<Rightarrow> bool" where
  "looked_after s \<longleftrightarrow> (\<forall>c ch. pr_child s c = Some ch \<longrightarrow> ec_alive ch \<longrightarrow>
     (ec_monitor ch = No_monitor \<and> (\<exists>i port. pr_task s i = Launch_waiting c port))
     \<or> (ec_monitor ch = Mon_waiting \<and> (ec_kill ch \<or> guardian s c)))"

lemma looked_afterI:
  assumes "looked_after s"
    and "\<And>c ch. pr_child s' c = Some ch \<Longrightarrow> ec_alive ch \<Longrightarrow> \<exists>ch0. pr_child s c = Some ch0 \<and> ec_alive ch0
      \<and> ec_monitor ch = ec_monitor ch0 \<and> (ec_kill ch0 \<longrightarrow> ec_kill ch)"
    and "\<And>c ch i port. pr_child s' c = Some ch \<Longrightarrow> ec_alive ch \<Longrightarrow> pr_task s i = Launch_waiting c port \<Longrightarrow>
      pr_task s' i = Launch_waiting c port"
    and "\<And>c ch. pr_child s' c = Some ch \<Longrightarrow> ec_alive ch \<Longrightarrow> guardian s c \<Longrightarrow> guardian s' c \<or> ec_kill ch"
  shows "looked_after s'"
  unfolding looked_after_def
proof (intro allI impI)
  fix c ch
  assume at: "pr_child s' c = Some ch" "ec_alive ch"
  from assms(2) [OF at] obtain ch0 where old: "pr_child s c = Some ch0" "ec_alive ch0" "ec_monitor ch = ec_monitor ch0"
    "ec_kill ch0 \<longrightarrow> ec_kill ch" by blast
  show "(ec_monitor ch = No_monitor \<and> (\<exists>i port. pr_task s' i = Launch_waiting c port))
     \<or> (ec_monitor ch = Mon_waiting \<and> (ec_kill ch \<or> guardian s' c))"
    using assms(1) [unfolded looked_after_def, rule_format, OF old(1,2)] old(3,4) assms(3,4) [OF at] by metis
qed

lemma guardianI:
  "handle_of s = Some h \<Longrightarrow> ph_child h = c \<Longrightarrow> guardian s c" "task_keeps (pr_task s i) = Some c \<Longrightarrow> guardian s c"
  by (auto simp: guardian_def)

lemma guardianE:
  assumes "guardian s c"
  obtains h where "handle_of s = Some h" "ph_child h = c" | i where "task_keeps (pr_task s i) = Some c"
  using assms by (auto simp: guardian_def)

text \<open>A step of a task that neither gives up a child nor waits for one.\<close>

lemma la_task:
  assumes "looked_after s" "\<And>c port. pr_task s i \<noteq> Launch_waiting c port"
    and "task_keeps (pr_task s i) = None \<or> task_keeps t = task_keeps (pr_task s i)"
  shows "looked_after (set_task i t s)"
proof (rule looked_afterI [OF assms(1)])
  show "guardian (set_task i t s) c \<or> ec_kill ch" if "guardian s c" for c ch
    using that assms(3) unfolding guardian_def by (metis fun_upd_apply option.distinct(1) process_fields(1,3))
qed (insert assms(2), auto)

text \<open>The handle is taken by a task that will see to its child.\<close>

lemma la_take:
  assumes "looked_after s" "handle_of s = Some h" "task_keeps t = Some (ph_child h)"
    and "\<And>c port. pr_task s i \<noteq> Launch_waiting c port" "task_keeps (pr_task s i) = None"
  shows "looked_after (set_task i t (set_handle None s))"
proof (rule looked_afterI [OF assms(1)])
  fix c ch
  assume "guardian s c"
  then have "guardian (set_task i t (set_handle None s)) c"
  proof (cases rule: guardianE)
    case (1 h')
    then have "task_keeps (pr_task (set_task i t (set_handle None s)) i) = Some c" using assms(2,3) by simp
    then show ?thesis by (rule guardianI(2))
  next
    case (2 j)
    then have "task_keeps (pr_task (set_task i t (set_handle None s)) j) = Some c" using assms(5) by auto
    then show ?thesis by (rule guardianI(2))
  qed
  then show "guardian (set_task i t (set_handle None s)) c \<or> ec_kill ch" ..
qed (insert assms(4), auto)

lemma guardian_frame:
  "pr_task s' = pr_task s \<Longrightarrow> handle_of s' = handle_of s \<Longrightarrow> guardian s' c = guardian s c"
  by (simp add: guardian_def)

lemma la_change:
  assumes "looked_after s"
    and "\<And>ch. pr_child s c = Some ch \<Longrightarrow> ec_alive (f ch) \<Longrightarrow> ec_alive ch \<and> ec_monitor (f ch) = ec_monitor ch
      \<and> (ec_kill ch \<longrightarrow> ec_kill (f ch))"
  shows "looked_after (change_child c f s)"
  by (rule looked_afterI [OF assms(1)]) (auto simp: guardian_frame [of s "change_child c f s"] split: if_splits dest: assms(2))

lemma la_kill:
  assumes "looked_after s" "pr_task s i = Killing c after"
  shows "looked_after (set_task i t (request_kill c s))"
proof (rule looked_afterI [OF assms(1)])
  fix k ch
  assume at: "pr_child (set_task i t (request_kill c s)) k = Some ch" "guardian s k"
  show "guardian (set_task i t (request_kill c s)) k \<or> ec_kill ch"
  proof (cases "k = c")
    case True
    then show ?thesis using at(1) by auto
  next
    case False
    from at(2) show ?thesis
    proof (cases rule: guardianE)
      case (1 h)
      then show ?thesis using guardianI(1) [of "set_task i t (request_kill c s)" h k] by simp
    next
      case (2 j)
      then have "j \<noteq> i" using assms(2) False by auto
      then show ?thesis using guardianI(2) [of "set_task i t (request_kill c s)" j k] 2 by simp
    qed
  qed
qed (insert assms(2), auto split: if_splits)

lemma la_store:
  assumes "looked_after s" "pr_task s i = Launch_monitored g c port"
  shows "looked_after (store_turn i g c s)"
proof (rule looked_afterI [OF assms(1)])
  let ?s' = "store_turn i g c s"
  have child: "pr_child ?s' k = (case handle_of s of Some h \<Rightarrow>
      if ph_child h = k then map_option (\<lambda>ch. ch\<lparr>ec_kill := True\<rparr>) (pr_child s k) else pr_child s k | None \<Rightarrow> pr_child s k)" for k
    by (simp add: store_turn_def drop_old_def split: option.splits)
  show "\<exists>ch0. pr_child s k = Some ch0 \<and> ec_alive ch0 \<and> ec_monitor ch = ec_monitor ch0 \<and> (ec_kill ch0 \<longrightarrow> ec_kill ch)"
    if "pr_child ?s' k = Some ch" "ec_alive ch" for k ch
    using that child [of k] by (auto split: option.splits if_splits)
  show "pr_task ?s' j = Launch_waiting k p" if "pr_task s j = Launch_waiting k p" for k j p
    using that assms(2) by (auto simp: store_turn_def)
  show "guardian ?s' k \<or> ec_kill ch" if at: "pr_child ?s' k = Some ch" "guardian s k" for k ch
    using at(2)
  proof (cases rule: guardianE)
    case (1 h)
    then show ?thesis using at(1) child [of k] by auto
  next
    case (2 j)
    show ?thesis
    proof (cases "j = i")
      case True
      then have "k = c" using 2 assms(2) by simp
      then show ?thesis using guardianI(1) [of ?s' _ k] by (simp add: store_turn_def)
    next
      case False
      then show ?thesis using guardianI(2) [of ?s' j k] 2 by (simp add: store_turn_def)
    qed
  qed
qed

lemma la_own:
  assumes "looked_after s" "process_gens s" "pr_child s c = Some ch" "ec_generation ch = Some g"
    and "\<And>ch. pr_child s c = Some ch \<Longrightarrow> \<not> ec_alive (f ch)"
  shows "looked_after (change_child c f (snd (clear_own g s)))"
proof (rule looked_afterI [OF assms(1)])
  let ?s' = "change_child c f (snd (clear_own g s))"
  have dead: "k \<noteq> c" if "pr_child ?s' k = Some ch" "ec_alive ch" for k ch using that assms(5) by auto
  show "\<exists>ch0. pr_child s k = Some ch0 \<and> ec_alive ch0 \<and> ec_monitor ch = ec_monitor ch0 \<and> (ec_kill ch0 \<longrightarrow> ec_kill ch)"
    if "pr_child ?s' k = Some ch" "ec_alive ch" for k ch using that dead [OF that] by simp
  show "guardian ?s' k \<or> ec_kill ch" if at: "pr_child ?s' k = Some ch" "ec_alive ch" "guardian s k" for k ch
    using at(3)
  proof (cases rule: guardianE)
    case (1 h)
    have "ph_generation h \<noteq> g" using own_of_generation [OF assms(2-4) 1(1)] 1(2) dead [OF at(1,2)] by blast
    then have "handle_of ?s' = Some h" using 1(1) by (simp add: clear_own_def monitor_should_emit_exit_def)
    then show ?thesis using guardianI(1) [of ?s' h k] 1(2) by blast
  next
    case (2 j)
    then show ?thesis using guardianI(2) [of ?s' j k] by simp
  qed
qed simp

lemma la_at:
  "looked_after s \<Longrightarrow> pr_child s c = Some ch \<Longrightarrow> ec_alive ch \<Longrightarrow>
     (ec_monitor ch = No_monitor \<and> (\<exists>i port. pr_task s i = Launch_waiting c port))
     \<or> (ec_monitor ch = Mon_waiting \<and> (ec_kill ch \<or> guardian s c))"
  unfolding looked_after_def by blast

lemma la_spawn:
  assumes "looked_after s" "pr_task s i = Launch_checked" "pr_child s c = None"
    and "s' = set_task i (Launch_waiting c port) (s\<lparr>pr_child := (pr_child s)(c \<mapsto> \<lparr>ec_alive = True, ec_generation = None,
      ec_kill = False, ec_monitor = No_monitor\<rparr>)\<rparr>)"
  shows "looked_after s'"
  unfolding looked_after_def
proof (intro allI impI)
  fix k ch
  assume at: "pr_child s' k = Some ch" "ec_alive ch"
  have tasks: "pr_task s' = (pr_task s)(i := Launch_waiting c port)" "handle_of s' = handle_of s" using assms(4) by simp_all
  show "(ec_monitor ch = No_monitor \<and> (\<exists>i port. pr_task s' i = Launch_waiting k port))
     \<or> (ec_monitor ch = Mon_waiting \<and> (ec_kill ch \<or> guardian s' k))"
  proof (cases "k = c")
    case True
    then show ?thesis using at assms(4) by auto
  next
    case False
    then have "pr_child s k = Some ch" using at assms(4) by simp
    moreover have "pr_task s' j = Launch_waiting k p" if "pr_task s j = Launch_waiting k p" for j p
      using that assms(2) tasks by auto
    moreover have "guardian s' k" if "guardian s k"
      using that
    proof (cases rule: guardianE)
      case (2 j)
      then have "task_keeps (pr_task s' j) = Some k" using assms(2) tasks by auto
      then show ?thesis by (rule guardianI(2))
    qed (simp add: tasks guardianI(1))
    ultimately show ?thesis using la_at [OF assms(1) _ at(2), of k] by blast
  qed
qed

lemma la_ready:
  assumes "looked_after s" "pr_task s i = Launch_waiting c port"
    and "s' = set_task i (Launch_monitored g c port) (change_child c (\<lambda>ch. ch\<lparr>ec_generation := Some g, ec_monitor := Mon_waiting\<rparr>)
      (s\<lparr>pr_state := (pr_state s)\<lparr>ps_next_gen := g + 1\<rparr>, pr_allocated := n\<rparr>))"
  shows "looked_after s'"
  unfolding looked_after_def
proof (intro allI impI)
  fix k ch
  assume at: "pr_child s' k = Some ch" "ec_alive ch"
  have tasks: "pr_task s' = (pr_task s)(i := Launch_monitored g c port)" "handle_of s' = handle_of s" using assms(3) by simp_all
  show "(ec_monitor ch = No_monitor \<and> (\<exists>i port. pr_task s' i = Launch_waiting k port))
     \<or> (ec_monitor ch = Mon_waiting \<and> (ec_kill ch \<or> guardian s' k))"
  proof (cases "k = c")
    case True
    have "task_keeps (pr_task s' i) = Some c" using tasks by simp
    then have "guardian s' c" by (rule guardianI(2))
    moreover have "ec_monitor ch = Mon_waiting" using at(1) assms(3) True by auto
    ultimately show ?thesis using True by blast
  next
    case False
    then have "pr_child s k = Some ch" using at assms(3) by simp
    moreover have "pr_task s' j = Launch_waiting k p" if "pr_task s j = Launch_waiting k p" for j p
      using that assms(2) tasks False by auto
    moreover have "guardian s' k" if "guardian s k"
      using that
    proof (cases rule: guardianE)
      case (2 j)
      then have "task_keeps (pr_task s' j) = Some k" using assms(2) tasks by auto
      then show ?thesis by (rule guardianI(2))
    qed (simp add: tasks guardianI(1))
    ultimately show ?thesis using la_at [OF assms(1) _ at(2), of k] by blast
  qed
qed

text \<open>Where the launch gives up its child, the child has just been killed.\<close>

lemma la_failed:
  assumes "looked_after s" "pr_task s i = Launch_waiting c port"
  shows "looked_after (set_task i (Process_done r) (change_child c (\<lambda>ch. ch\<lparr>ec_alive := False\<rparr>) s))"
proof (rule looked_afterI [OF assms(1)])
  let ?s' = "set_task i (Process_done r) (change_child c (\<lambda>ch. ch\<lparr>ec_alive := False\<rparr>) s)"
  have dead: "k \<noteq> c" if "pr_child ?s' k = Some ch" "ec_alive ch" for k ch using that by auto
  show "pr_task ?s' j = Launch_waiting k p" if "pr_child ?s' k = Some ch" "ec_alive ch" "pr_task s j = Launch_waiting k p" for k ch j p
    using that dead [OF that(1,2)] assms(2) by auto
  show "guardian ?s' k \<or> ec_kill ch" if "guardian s k" for k ch
    using that
  proof (cases rule: guardianE)
    case (2 j)
    then have "task_keeps (pr_task ?s' j) = Some k" using assms(2) by auto
    then show ?thesis using guardianI(2) by blast
  qed (simp add: guardianI(1))
qed (auto split: if_splits)

lemma looked_after_step: "process_step s s' \<Longrightarrow> looked_after s \<Longrightarrow> process_gens s \<Longrightarrow> looked_after s'"
proof (induction rule: process_step.induct)
  case (launch_called s i)
  then show ?case unfolding call_launch_def by (intro la_task) simp_all
next
  case (stop_called s i)
  then show ?case by (cases "handle_of s") (simp_all add: call_stop_def la_task la_take)
next
  case (exit_called s i locked)
  then show ?case by (cases "handle_of s"; cases locked) (simp_all add: call_exit_def la_task la_take)
next
  case (spawned s i c env saved_path saved_args is_file free_port started captured)
  have "looked_after (set_task i (Process_done r) s)" for r using spawned by (intro la_task) simp_all
  then show ?case unfolding spawn_turn_def using la_spawn [OF spawned(3,1,2) refl] by (simp split: sum.splits prod.splits)
next
  case (ready s i c port read)
  then show ?case using la_failed [OF ready(2,1)] la_ready [OF ready(2,1) refl]
    by (simp add: ready_turn_def Let_def split: option.splits)
next
  case (stored s i g c port)
  then show ?case by (intro la_store)
next
  case (connected s i g outcome)
  then show ?case unfolding connected_turn_def by (intro la_task) simp_all
next
  case (rolled_back s i g e)
  then show ?case by (cases "handle_of s") (simp_all add: roll_back_turn_def la_task la_take)
next
  case (closed s i c)
  then show ?case by (intro la_task) simp_all
next
  case (killed s i c after)
  then show ?case unfolding kill_turn_def by (intro la_kill)
next
  case (stop_told s i c)
  have "looked_after (tell c Told_stopped s)"
    using stop_told by (intro looked_afterI [OF stop_told(2)]) (auto simp: guardian_frame [of "tell c Told_stopped s" s])
  then show ?case unfolding stop_told_turn_def using stop_told by (intro la_task) simp_all
next
  case (joined s i c timely)
  have "looked_after (change_child c abort_monitor s)"
  proof (rule la_change [OF joined(3)])
    fix ch
    assume at: "pr_child s c = Some ch" "ec_alive (abort_monitor ch)"
    then have "ec_alive ch" by (simp add: abort_monitor_def split: monitor.splits)
    with la_at [OF joined(3) at(1)] at(2)
    show "ec_alive ch \<and> ec_monitor (abort_monitor ch) = ec_monitor ch \<and> (ec_kill ch \<longrightarrow> ec_kill (abort_monitor ch))"
      by (auto simp: abort_monitor_def)
  qed
  then show ?case unfolding join_turn_def using joined by (intro la_task) simp_all
next
  case (reaped s c ch code_of signal)
  then show ?case unfolding reaped_turn_def by (intro la_change) simp_all
next
  case (unreaped s c ch g)
  then show ?case unfolding unreaped_turn_def by (intro la_own) simp_all
next
  case (guarded s c ch code_of signal g)
  have "\<not> ec_alive ch" using la_at [OF guarded(4,1)] guarded(2) by auto
  then show ?case unfolding guard_turn_def case_prod_beta using guarded by (intro la_own) simp_all
next
  case (exited s c ch params)
  have told: "looked_after (tell c (Told_exited params) s)"
    using exited by (intro looked_afterI [OF exited(3)]) (auto simp: guardian_frame [of "tell c (Told_exited params) s" s])
  have "\<not> ec_alive ch" using la_at [OF exited(3,1)] exited(2) by auto
  then show ?case unfolding exited_turn_def using exited by (intro la_change [OF told]) simp_all
next
  case (died s c ch)
  then show ?case by (intro la_change) simp_all
qed

section \<open>Every reachable state\<close>

lemma allocated_grows: "process_step s s' \<Longrightarrow> pr_allocated s \<le> pr_allocated s'"
  by (induction rule: process_step.induct)
     (simp_all add: call_launch_def call_stop_def call_exit_def spawn_turn_def ready_turn_def store_turn_def connected_turn_def
        roll_back_turn_def kill_turn_def stop_told_turn_def join_turn_def reaped_turn_def unreaped_turn_def guard_turn_def
        case_prod_beta exited_turn_def Let_def split: option.splits sum.splits)

lemma engine_start:
  "claims_exist process_start" "single (claims process_start)" "process_gens process_start" "looked_after process_start"
proof -
  have none: "claims process_start = (\<lambda>_. None)"
    by (rule claims_eqI) (simp_all add: process_start_def)
  show "claims_exist process_start" "single (claims process_start)" by (simp_all add: claims_exist_def single_def none)
  show "process_gens process_start" "looked_after process_start"
    by (simp_all add: process_gens_def looked_after_def process_start_def)
qed

lemma engine_inv:
  "process_reach s \<Longrightarrow> claims_exist s
     \<and> (pr_allocated s \<le> 2 ^ 64 \<longrightarrow> single (claims s) \<and> process_gens s \<and> looked_after s)"
proof (induction rule: process_reach.induct)
  case start
  then show ?case by (simp only: engine_start simp_thms)
next
  case (step s s')
  have "single (claims s') \<and> process_gens s' \<and> looked_after s'" if "pr_allocated s' \<le> 2 ^ 64"
    using step that allocated_grows [OF step(2)] single_step [OF step(2)] process_gens_step [OF step(2)]
      looked_after_step [OF step(2)] order_trans by blast
  then show ?case using step(3) claims_exist_step [OF step(2)] by blast
qed

text \<open>C17: The screen is told of the end of an engine at most once, whoever stops it: either that it has exited, by its
  monitor, or that it was stopped, by the command. Once a stop has taken an engine its monitor cannot tell any more. In every
  interleaving of launches, stops, exits and monitors, until 2^64 engines have been launched.
\<close>
theorem engine_end_is_told_once:
  assumes "process_reach s" "pr_allocated s \<le> 2 ^ 64"
  shows "distinct (map fst (pr_told s))
    \<and> (\<forall>i c. pr_task s i \<in> {Stop_closing c, Killing c Kill_stopped, Stop_telling c} \<longrightarrow>
         c \<notin> set (map fst (pr_told s)) \<and> (\<forall>ch params. pr_child s c = Some ch \<longrightarrow> ec_monitor ch \<noteq> Mon_telling params)
         \<and> map_option ph_child (handle_of s) \<noteq> Some c)"
proof -
  have one: "single (claims s)" using engine_inv [OF assms(1)] assms(2) by blast
  note at = single_at [OF one]
  have "distinct (map fst (pr_told s))"
    unfolding distinct_conv_nth
  proof (intro allI impI)
    fix j k
    assume jk: "j < length (map fst (pr_told s))" "k < length (map fst (pr_told s))" "j \<noteq> k"
    show "map fst (pr_told s) ! j \<noteq> map fst (pr_told s) ! k"
      using at [of "By_told j" "fst (pr_told s ! j)" "By_told k"] jk by auto
  qed
  moreover have "c \<notin> set (map fst (pr_told s)) \<and> (\<forall>ch params. pr_child s c = Some ch \<longrightarrow> ec_monitor ch \<noteq> Mon_telling params)
      \<and> map_option ph_child (handle_of s) \<noteq> Some c"
    if t: "pr_task s i \<in> {Stop_closing c, Killing c Kill_stopped, Stop_telling c}" for i c
  proof -
    have mine: "claims s (By_task i) = Some c" using t by auto
    have "c \<noteq> fst (pr_told s ! k)" if "k < length (pr_told s)" for k using at [OF mine, of "By_told k"] that by auto
    moreover have "ec_monitor ch \<noteq> Mon_telling params" if "pr_child s c = Some ch" for ch params
      using at [OF mine, of "By_monitor c"] that by auto
    moreover have "map_option ph_child (handle_of s) \<noteq> Some c" using at [OF mine, of By_handle] by auto
    ultimately show ?thesis by (metis in_set_conv_nth length_map nth_map)
  qed
  ultimately show ?thesis by blast
qed

text \<open>C18: No engine is left to itself. In every reachable state an engine that lives is either waited for by the launch
  that started it, or held by the handle, or held by a task that will store or kill it, or its monitor waits with the kill
  requested, and the monitor's next turn ends it. Launches that overlap lose no engine: the handle that is overwritten takes
  its engine with it.
\<close>
theorem no_engine_is_left_alone:
  assumes "process_reach s" "pr_allocated s \<le> 2 ^ 64" "pr_child s c = Some ch" "ec_alive ch"
  shows "(\<exists>i port. pr_task s i = Launch_waiting c port)
    \<or> (\<exists>h. handle_of s = Some h \<and> ph_child h = c)
    \<or> (\<exists>i. task_keeps (pr_task s i) = Some c)
    \<or> (ec_kill ch \<and> ec_monitor ch = Mon_waiting
        \<and> (\<exists>s' ch'. process_step s s' \<and> pr_child s' c = Some ch' \<and> \<not> ec_alive ch'))"
proof -
  have "looked_after s" using engine_inv [OF assms(1)] assms(2) by blast
  note at = la_at [OF this assms(3,4)]
  have "process_step s (reaped_turn c None None s)" if "ec_kill ch" "ec_monitor ch = Mon_waiting"
    using process_step.reaped [OF assms(3)] that by blast
  moreover have "pr_child (reaped_turn c None None s) c = Some (ch\<lparr>ec_alive := False, ec_monitor := Mon_reaped None None\<rparr>)"
    using assms(3) by (simp add: reaped_turn_def)
  ultimately have "\<exists>s' ch'. process_step s s' \<and> pr_child s' c = Some ch' \<and> \<not> ec_alive ch'"
    if "ec_kill ch" "ec_monitor ch = Mon_waiting"
    using that by fastforce
  then show ?thesis using at by (auto simp: guardian_def)
qed

section \<open>What may be started\<close>

lemma white_codes: "\<forall>w \<in> set white_space. w \<noteq> [] \<and> \<not> (45 \<le> code (hd w) \<and> code (hd w) \<le> 122)
    \<and> \<not> (45 \<le> code (last w) \<and> code (last w) \<le> 122)"
  by (simp add: white_space_def code_def)

lemma find_prefix_none: "(\<forall>w \<in> set ws. w = [] \<or> hd w \<noteq> c) \<Longrightarrow> find_prefix ws (c # cs) = None"
  by (induction ws) (auto simp: find_prefix_def neq_Nil_conv)

lemma find_prefix_nil: "find_prefix ws [] = None"
  by (induction ws) (auto simp: find_prefix_def)

lemma no_white: "45 \<le> code c \<Longrightarrow> code c \<le> 122 \<Longrightarrow> find_prefix white_space (c # cs) = None"
  using white_codes by (intro find_prefix_none) blast

lemma trim_plain:
  assumes "45 \<le> code (hd s)" "code (hd s) \<le> 122" "45 \<le> code (last s)" "code (last s) \<le> 122"
  shows "trim s = s"
proof -
  have one: "trim_with ws t = t" if "t = [] \<or> (\<forall>w \<in> set ws. w = [] \<or> hd w \<noteq> hd t)" for ws t
  proof (cases t)
    case Nil
    then show ?thesis by (simp add: trim_with.simps [of ws "[]"] find_prefix_nil)
  next
    case (Cons c cs)
    then have "find_prefix ws (c # cs) = None" using that by (intro find_prefix_none) simp
    then show ?thesis using Cons by (simp add: trim_with.simps [of ws "c # cs"])
  qed
  have "\<forall>w \<in> set white_space. w = [] \<or> hd w \<noteq> hd s" using assms(1,2) white_codes by metis
  moreover have "hd (rev w) \<noteq> hd (rev s)" if "w \<in> set white_space" for w
    unfolding hd_rev using assms(3,4) white_codes that by metis
  then have "\<forall>w \<in> set (map rev white_space). w = [] \<or> hd w \<noteq> hd (rev s)" by simp
  ultimately show ?thesis by (simp add: trim_def one)
qed

lemma digit_codes: "is_ascii_digit c \<Longrightarrow> 45 \<le> code c \<and> code c \<le> 122 \<and> c \<noteq> CHR ''-''"
  by (auto simp: is_ascii_digit_def code_def)

lemma trim_nat_dec: "trim (nat_dec n) = nat_dec n"
  using nat_dec_digits [of n] digit_codes by (intro trim_plain) simp_all

lemma digits_name_no_port: "\<not> names_the_port (nat_dec n)"
proof -
  obtain d ds where d: "nat_dec n = d # ds" by (cases "nat_dec n") simp_all
  then have "d \<noteq> CHR ''-''" using nat_dec_digits [of n] digit_codes by simp
  then show ?thesis using trim_nat_dec [of n] d by (auto simp: names_the_port_def BRIDGE_PORT_ARG_def)
qed

lemma port_arg_names_port: "names_the_port BRIDGE_PORT_ARG"
proof -
  have "trim BRIDGE_PORT_ARG = BRIDGE_PORT_ARG" by (rule trim_plain) (simp_all add: BRIDGE_PORT_ARG_def code_def)
  then show ?thesis by (simp add: names_the_port_def)
qed

lemma check_engine_args_None:
  "check_engine_args line args = None \<longleftrightarrow> (\<forall>a \<in> set args. \<not> names_the_port a \<and> CHR 0x00 \<notin> set a \<and> CHR 0x0A \<notin> set a
     \<and> CHR 0x0D \<notin> set a \<and> length a \<le> MAX_ENGINE_ARG_LEN)"
  by (induction line args rule: check_engine_args.induct) (auto simp: check_engine_arg_def split: option.splits if_splits)

text \<open>C19: What is launched is what was meant. A command that can be made names an existing file that is no batch file, its last
  two arguments are the flag and the port the editor has chosen, no other argument names a port, and before them stand
  the saved arguments that are not blank, in their order, at most 32 of them with at most 512 bytes each and without NUL or newline.
\<close>
theorem launched_command_is_checked:
  assumes "launch_command env saved_path saved_args is_file free_port = Inr (port, path, argv)"
  shows "free_port = Some port \<and> path = fst (resolve_engine_path env saved_path DEFAULT_ENGINE_PATH)
    \<and> is_file path \<and> \<not> is_batch_file_path path
    \<and> argv = filter (\<lambda>a. trim a \<noteq> []) saved_args @ [BRIDGE_PORT_ARG, nat_dec port]
    \<and> filter (\<lambda>a. trim a = ''--bridge-port'' \<or> prefix ''--bridge-port='' (trim a)) argv = [''--bridge-port'']
    \<and> length argv \<le> MAX_ENGINE_ARGS + 2
    \<and> (\<forall>a \<in> set (butlast (butlast argv)). length a \<le> MAX_ENGINE_ARG_LEN
         \<and> CHR 0x00 \<notin> set a \<and> CHR 0x0A \<notin> set a \<and> CHR 0x0D \<notin> set a)"
proof -
  let ?user = "filter (\<lambda>a. trim a \<noteq> []) saved_args"
  from assms have ok: "is_file path" "\<not> is_batch_file_path path" "free_port = Some port"
    "path = fst (resolve_engine_path env saved_path DEFAULT_ENGINE_PATH)"
    "normalize_engine_args saved_args = Inr ?user" "argv = ?user @ [BRIDGE_PORT_ARG, nat_dec port]"
    by (auto simp: launch_command_def validate_engine_path_def normalize_engine_args_def build_engine_args_def Let_def
        split: if_splits option.splits sum.splits)
  then have user: "check_engine_args 1 ?user = None" "length ?user \<le> MAX_ENGINE_ARGS"
    by (auto simp: normalize_engine_args_def Let_def split: if_splits option.splits)
  note checked = user(1) [unfolded check_engine_args_None]
  have "filter names_the_port ?user = []" using checked by (auto simp: filter_empty_conv)
  then have "filter names_the_port argv = [BRIDGE_PORT_ARG]"
    unfolding ok(6) filter_append using port_arg_names_port digits_name_no_port [of port] by simp
  moreover have "names_the_port = (\<lambda>a. trim a = ''--bridge-port'' \<or> prefix ''--bridge-port='' (trim a))"
    by (simp add: fun_eq_iff names_the_port_def BRIDGE_PORT_ARG_def)
  ultimately have "filter (\<lambda>a. trim a = ''--bridge-port'' \<or> prefix ''--bridge-port='' (trim a)) argv = [''--bridge-port'']"
    by (simp only: BRIDGE_PORT_ARG_def)
  moreover have "butlast (butlast argv) = ?user" unfolding ok(6) by (simp add: butlast_append)
  ultimately show ?thesis using ok checked user(2) by auto
qed

section \<open>The first line\<close>

lemma split_white_word: "\<forall>c \<in> set t. 45 \<le> code c \<and> code c \<le> 122 \<Longrightarrow> split_white word (t @ s) = split_white (rev t @ word) s"
proof (induction t arbitrary: word)
  case (Cons c t)
  then have "split_white word (c # (t @ s)) = split_white (c # word) (t @ s)" by (simp add: split_white.simps(2) no_white)
  then show ?case using Cons by simp
qed simp

lemma find_space: "find_prefix white_space (CHR '' '' # s) = Some [CHR '' '']"
  by (simp add: find_prefix_def white_space_def char_of_def bit_0)

lemma ready_tokens:
  assumes "\<forall>c \<in> set p. 45 \<le> code c \<and> code c \<le> 122" "p \<noteq> []"
  shows "split_white [] (trim (''READY '' @ p)) = [''READY'', p]"
proof -
  have "trim (''READY '' @ p) = ''READY '' @ p" using assms by (intro trim_plain) (simp_all add: code_def)
  moreover have "split_white [] (''READY'' @ (CHR '' '' # p)) = split_white (rev ''READY'' @ []) (CHR '' '' # p)"
    by (rule split_white_word) (simp add: code_def)
  moreover have "split_white [] (p @ []) = split_white (rev p @ []) []" by (rule split_white_word [OF assms(1)])
  ultimately show ?thesis using assms(2) find_space [of p] by (simp add: split_white.simps(2))
qed

text \<open>What the engine announces is read back, and compared with the port it was given.\<close>

lemma ready_line_round_trip:
  assumes "got < 2 ^ 16"
  shows "parse_ready_line (''READY '' @ nat_dec got) port = (if got = port then Inr got else Inl (Port_mismatch port got))"
proof -
  have "split_white [] (trim (''READY '' @ nat_dec got)) = [''READY'', nat_dec got]"
    using nat_dec_digits [of got] digit_codes by (intro ready_tokens) simp_all
  moreover have "parse_unsigned (2 ^ 16 - 1) (nat_dec got) = Some got"
  proof -
    obtain d ds where d: "nat_dec got = d # ds" by (cases "nat_dec got") simp_all
    have "d \<noteq> CHR ''+''" using nat_dec_digits [of got] d by (auto simp: is_ascii_digit_def code_def)
    then show ?thesis using nat_dec_digits [of got] d assms dec_val_nat_dec [of got]
      by (simp add: parse_unsigned_def Let_def list_all_iff)
  qed
  ultimately show ?thesis by (simp add: parse_ready_line_def)
qed

text \<open>Rust's reader of integers takes a sign before the digits.\<close>

lemma ready_port_may_have_a_sign: "parse_ready_line ''READY +80'' 80 = Inr 80"
proof -
  have "trim ''READY +80'' = ''READY +80''" by (rule trim_plain) (simp_all add: code_def)
  moreover have "find_prefix white_space ''+80'' = None" by (rule find_prefix_none) (simp add: white_space_def char_of_def)
  moreover have "split_white [] (''READY'' @ '' +80'') = split_white (rev ''READY'' @ []) '' +80''"
    by (rule split_white_word) (simp add: code_def)
  moreover have "split_white ''+'' (''80'' @ []) = split_white (rev ''80'' @ ''+'') []" by (rule split_white_word) (simp add: code_def)
  ultimately show ?thesis using find_space [of "''+80''"]
    by (simp add: parse_ready_line_def split_white.simps(2) parse_unsigned_def is_ascii_digit_def code_def dec_val_def digit_val_def)
qed

section \<open>An engine that is launched and stopped\<close>

definition demo_spawned :: process_system where
  "demo_spawned = spawn_turn 0 5 (launch_command None None [] (\<lambda>_. True) (Some 80)) True True (call_launch 0 process_start)"

definition demo_stored :: process_system where
  "demo_stored = store_turn 0 0 5 (ready_turn 0 (Line (''READY '' @ nat_dec 80)) 5 80 demo_spawned)"

definition demo_stopping :: process_system where
  "demo_stopping = call_stop 1 demo_stored"

definition demo_killed :: process_system where
  "demo_killed = kill_turn 1 5 Kill_stopped (set_task 1 (Killing 5 Kill_stopped) demo_stopping)"

lemma demo_command:
  "launch_command None None [] (\<lambda>_. True) (Some 80) = Inr (80, DEFAULT_ENGINE_PATH, [BRIDGE_PORT_ARG, nat_dec 80])"
proof -
  have "\<not> is_batch_file_path DEFAULT_ENGINE_PATH" by code_simp
  then show ?thesis
    by (simp add: launch_command_def resolve_engine_path_def first_non_blank_def validate_engine_path_def normalize_engine_args_def
        build_engine_args_def)
qed

lemma demo_ready: "ready_outcome 80 (Line (''READY '' @ nat_dec 80)) = None"
  using ready_line_round_trip [of 80 80] by (simp del: append.simps)

lemma demo_process:
  "pr_task process_start i = No_process_task" "pr_task (call_launch 0 process_start) 0 = Launch_checked"
  "pr_child (call_launch 0 process_start) 5 = None" "pr_task demo_spawned 0 = Launch_waiting 5 80"
  "pr_task (ready_turn 0 (Line (''READY '' @ nat_dec 80)) 5 80 demo_spawned) 0 = Launch_monitored 0 5 80"
  "pr_task demo_stored 1 = No_process_task" "pr_task demo_stopping 1 = Stop_closing 5"
  "pr_allocated demo_stopping = 1" "pr_allocated demo_killed = 1"
  "pr_child demo_killed 5 = Some \<lparr>ec_alive = True, ec_generation = Some 0, ec_kill = True, ec_monitor = Mon_waiting\<rparr>"
  unfolding demo_killed_def demo_stopping_def demo_stored_def demo_spawned_def demo_command ready_turn_def demo_ready
  by (simp_all add: process_start_def call_launch_def spawn_turn_def store_turn_def call_stop_def kill_turn_def drop_old_def
      Let_def)

lemma demo_process_reach: "process_reach demo_stopping" "process_reach demo_killed"
proof -
  note go = process_reach.step
  have "process_reach (call_launch 0 process_start)"
    by (rule go [OF process_reach.start process_step.launch_called]) (rule demo_process(1))
  from go [OF this process_step.spawned [OF demo_process(2,3)]]
  have "process_reach demo_spawned" unfolding demo_spawned_def .
  from go [OF go [OF this process_step.ready [OF demo_process(4)]] process_step.stored [OF demo_process(5)]]
  have "process_reach demo_stored" unfolding demo_stored_def .
  from go [OF this process_step.stop_called [OF demo_process(6)]]
  show stopping: "process_reach demo_stopping" unfolding demo_stopping_def .
  have "pr_task (set_task 1 (Killing 5 Kill_stopped) demo_stopping) 1 = Killing 5 Kill_stopped" by simp
  from go [OF go [OF stopping process_step.closed [OF demo_process(7)]] process_step.killed [OF this]]
  show "process_reach demo_killed" unfolding demo_killed_def .
qed

theorem engine_end_is_told_once_witness:
  "distinct (map fst (pr_told demo_stopping)) \<and> 5 \<notin> set (map fst (pr_told demo_stopping))"
  using engine_end_is_told_once [OF demo_process_reach(1)] demo_process(7,8) by auto

theorem no_engine_is_left_alone_witness:
  "(\<exists>i port. pr_task demo_killed i = Launch_waiting 5 port) \<or> (\<exists>h. handle_of demo_killed = Some h \<and> ph_child h = 5)
    \<or> (\<exists>i. task_keeps (pr_task demo_killed i) = Some 5)
    \<or> (\<exists>s' ch'. process_step demo_killed s' \<and> pr_child s' 5 = Some ch' \<and> \<not> ec_alive ch')"
  using no_engine_is_left_alone [OF demo_process_reach(2) _ demo_process(10)] demo_process(9) by auto

theorem launched_command_is_checked_witness:
  "filter (\<lambda>a. trim a = ''--bridge-port'' \<or> prefix ''--bridge-port='' (trim a)) [BRIDGE_PORT_ARG, nat_dec 80] = [''--bridge-port''] \<and> \<not> is_batch_file_path DEFAULT_ENGINE_PATH"
  using launched_command_is_checked [OF demo_command] by blast

end
