(* ===== verification/Spec2Isabelle.thy ===== *)
theory Spec2Isabelle
  imports Dispatcher History_Corrections Edit_Guards Edit_Ticket Payload_Laws Reconnect Log_Buffer_Laws Scope_Laws
    Mcp_Auth_Laws Tool_Catalog_Laws Mcp_Http_Laws Mcp_Wire_Laws Read_Pages_End Read_Tools_Laws Review_Permits
    Operations_Laws Mcp_Execution_Laws Mcp_Writes_Laws Bridge_Laws Engine_Laws
begin

text \<open>
  NorvesEditor is an editor for a game engine. The engine is a process of its own; the editor talks to it over the
  \<open>Norves Bridge\<close>, JSON envelopes on a websocket. The Rust crates under \<open>src/bridge/crates\<close> are the protocol
  (\<open>norves-bridge-core\<close>) and its client (\<open>norves-bridge-editor-client\<close>); the backend of the editor,
  \<open>src/apps/editor/src-tauri/src\<close>, adds the edit service with the undo history, and an HTTP server through which
  a program on the same machine may read the scene and, within what the user allows, edit it (MCP). This
  development models the parts in which a mistake would lose an edit, undo the wrong thing, answer the
  wrong request, or let such a program do what the user has not allowed.

  \<^bold>\<open>How the parts meet.\<close> A request of the client becomes an envelope (\<open>Bridge_Envelope\<close>), the dispatcher's task
  (\<open>Dispatcher\<close>) enters it into the table of requests in flight (\<open>Correlation\<close>), and its answer is parsed by a payload
  parser (\<open>Payloads\<close>). Edits of the user and of MCP clients are items of one queue (\<open>Edit_Actor\<close>); the actor runs
  them one at a time (\<open>Edit_Service\<close>, \<open>Edit_Actions\<close>) and enters them into the history (\<open>History\<close> with
  \<open>Corrections\<close>). An MCP request passes the HTTP entry (\<open>Mcp_Http\<close>, \<open>Mcp_Wire\<close>), which gives it a lease
  (\<open>Mcp_Auth\<close>). A read goes to \<open>Read_Tools\<close>, whose pages are kept by \<open>Read_Pages\<close>. A write is checked against the
  tool catalog (\<open>Tool_Catalog\<close>, \<open>Mcp_Writes\<close>), reviewed against the scene (\<open>Scope\<close>, \<open>Review\<close>, \<open>Review_Run\<close>) and the user,
  given a permit, queued (\<open>Mcp_Edit\<close>), sent and followed to its end (\<open>Mcp_Execution\<close>), and recorded (\<open>Operations\<close>).

  \<^bold>\<open>The library.\<close>
  \<^item> \<open>Prelude\<close>: machine integers, the sum type as Rust's \<open>Result\<close> with \<open>bind_r\<close>, \<open>ok_or\<close> and \<open>map_err\<close>, hash maps as association
    lists with distinct keys. \<open>Json\<close>: the values of \<open>serde_json\<close>. \<open>Json_Maps\<close>: the library's removal of a field and its equality,
    which ignores the order of fields.
  \<^item> \<open>Bridge_Common\<close>, \<open>Bridge_Envelope\<close> (\<open>common.rs\<close>, \<open>error.rs\<close>, \<open>value.rs\<close>, \<open>envelope.rs\<close>, \<open>codec.rs\<close>): names, identifiers and
    envelopes; the locale \<open>validated_newtype\<close> is the contract of every checked string, interpreted on each of them. \<open>validate\<close> and the
    typed conversion are proved inverse to flattening.
  \<^item> \<open>Correlation\<close>, \<open>Dispatcher\<close> (\<open>correlation.rs\<close>, \<open>seq.rs\<close>, \<open>dispatcher.rs\<close>): the pending table with its contract in
    \<open>pending_table\<close> and \<open>counted_pending_table\<close>, the monitor of event numbers, and the task as a step relation over its select loop.
  \<^item> \<open>Payloads\<close>, \<open>Payload_Laws\<close> (\<open>handshake.rs\<close>, \<open>status.rs\<close>, \<open>log.rs\<close>, \<open>scene.rs\<close>, \<open>object.rs\<close>, \<open>asset.rs\<close>,
    \<open>viewport.rs\<close>): every parser of an answer with the path each error names. \<open>Reconnect\<close> (\<open>reconnect.rs\<close>): backoff and retries.
  \<^item> \<open>Edit_Data\<close>, \<open>Js_Stringify\<close>, \<open>Corrections\<close>, \<open>History\<close> (\<open>edit_service/history.rs\<close>, \<open>groups.rs\<close>): records, groups, the two
    stacks, the cache of latest values behind the locale \<open>forgetting_store\<close>, and the text by which values are compared.
    \<open>History_Ops\<close> makes all operations one type with runs and shows that the revision is a version stamp;
    \<open>History_Edits\<close> says what each operation does to the stacks; \<open>History_Invariants\<close> has the invariant of every run;
    \<open>History_Corrections\<close> refines the unbounded record of latest writes.
  \<^item> \<open>Edit_Actions\<close>, \<open>Edit_Group\<close>, \<open>Edit_Service\<close>, \<open>Edit_Actor\<close>, \<open>Edit_Actor_Laws\<close>, \<open>Edit_Guards\<close>, \<open>Edit_Ticket\<close>
    (\<open>edit_service.rs\<close>): the requests of an undo, the loop over a group with every failure, the handler of an item on every path, admission
    and shutdown, and the race between a waiter's deadline and the actor. The locale \<open>history_invariant\<close> carries any
    invariant of the history's operations over to the service.
  \<^item> \<open>Log_Buffer\<close>, \<open>Log_Buffer_Laws\<close> (\<open>mcp/log_buffer.rs\<close>): the bounded log, proved to be the newest part of the log of everything.
  \<^item> \<open>Scope\<close>, \<open>Scope_Laws\<close> (\<open>mcp/authorization.rs\<close>): what a write touches, and the check that it stays below the allowed root, against
    the parsed scene tree itself.
  \<^item> \<open>Mcp_Auth\<close>, \<open>Mcp_Auth_Laws\<close> (\<open>mcp.rs\<close>, \<open>mcp/authorization.rs\<close>, \<open>mcp/confirmation.rs\<close>): leases and revocation by concurrent threads,
    the write policy, permits, confirmations on the screen.
  \<^item> \<open>Tool_Catalog\<close>, \<open>Tool_Catalog_Laws\<close> (\<open>mcp/tool_catalog.rs\<close>): the table of tools, what exposes a tool, schemas made local.
  \<^item> \<open>Mcp_Http\<close>, \<open>Mcp_Http_Laws\<close>, \<open>Mcp_Wire\<close>, \<open>Mcp_Wire_Laws\<close> (\<open>mcp.rs\<close>): the limits of the server as a step relation over
    handlers, and the tracker of what a connection writes.
  \<^item> \<open>Read_Pages\<close>, \<open>Read_Pages_Laws\<close>, \<open>Read_Pages_End\<close>, \<open>Read_Trees\<close>, \<open>Read_Tools\<close>, \<open>Read_Tools_Laws\<close> (\<open>mcp/reads.rs\<close>): the snapshot
    store with its cursors, the flat scene tree, the loop over the asset manifest and the call of a read tool.
  \<^item> \<open>Review\<close>, \<open>Review_Run\<close>, \<open>Review_Laws\<close>, \<open>Review_Permits\<close> (\<open>mcp/reads.rs\<close>, \<open>mcp/authorization.rs\<close>): the preview of a write, the reading
    of the scene under its deadlines in a small monad of questions, and the rounds of confirmation.
  \<^item> \<open>Operations\<close>, \<open>Operations_Laws\<close> (\<open>mcp/operations.rs\<close>): the records of what clients asked for, in memory and in a file that is rotated.
  \<^item> \<open>Mcp_Execution\<close>, \<open>Mcp_Execution_Laws\<close>, \<open>Mcp_Edit\<close>, \<open>Mcp_Edit_Laws\<close> (\<open>edit_service/mcp.rs\<close>, parts of \<open>bridge_state.rs\<close>): how far a write
    has got, the item made of a permit, and the repetition when the queue asks for a new confirmation.
  \<^item> \<open>Mcp_Writes\<close>, \<open>Mcp_Writes_Laws\<close> (\<open>mcp/writes.rs\<close>): from the name of a tool to the queue, and the reply.
  \<^item> \<open>Bridge_State\<close>, \<open>Bridge_Tasks\<close>, \<open>Bridge_Laws\<close> (\<open>bridge_state.rs\<close>, \<open>events_map.rs\<close>): the phase of the connection. Attempts to
    connect, reconnections, disconnections and relays run at the same time; a step is one section under a lock, one look at a token or
    one answer. What is published agrees with the phase, every dispatcher has one owner until it is closed, a live
    connection is watched by its relay, and the connecting phase belongs to a task that comes to its end.
  \<^item> \<open>Engine_Process\<close>, \<open>Engine_Lifecycle\<close>, \<open>Engine_Laws\<close> (\<open>process.rs\<close>, \<open>process_runtime.rs\<close>): the engine as a child process. What
    is started and the line it answers with; then launches, stops and exits beside the monitors, as steps. The end of an engine is
    told once, and no engine that lives is left to itself.
\<close>

text \<open>
  \<^bold>\<open>Correspondence.\<close> Definitions carry the names of the Rust functions where HOL has no such name, types those of the Rust types in
  lower case, fields a prefix of two letters. A struct is a record, an enum a datatype, \<open>Result<T, E>\<close> is \<open>'e + 'a\<close>, a method that changes
  its object returns it updated, and a HashMap is an association list with its invariant. A mutex is held for one definition;
  where other threads may run between two locks of a function, the model has two definitions, and the state the second one
  sees is an argument or a step of a relation. An \<open>await\<close> is an argument of its outcome, or ends the definition; a biased
  \<open>select\<close> is an \<open>if\<close> in its order. A Rust string is the list of its bytes. Clocks are natural numbers. Texts for people are
  constructors; where a text ends in a JSON answer whose size matters, the text is a parameter.

  \<^bold>\<open>What the properties say.\<close> They go from the inside to the outside. For the bridge: no waiter is lost or answered twice, a cancel
  hits its own request. For the connection: what is published is its phase, its dispatchers are neither lost nor closed twice, an
  attempt comes to its end. For the engine: only a checked command is launched, its end is told once, none is left to itself. For
  the history: its revision is a version stamp, its invariant holds in every run, an old value it records is never stale, undo and redo of a group are inverse, a failed step leaves exactly the rest. For the service: items are answered in order,
  a deadline report is true, a partial failure blocks all else. For the reads: pages are consecutive, reading ends with everything, the tree is
  the preorder, only reading methods are sent. For the writes, in the order a request takes: only a current token passes, only an exposed
  tool queues its own method, a review stays in the scope, a permit is for what was shown, what is queued is what was permitted, what runs is
  what was approved, and what is reported is what happened.

  \<^bold>\<open>Bounds and fuel.\<close> \<open>u64\<close> is a word of 64 bits and wraps where the source wraps; where a counter has to stay distinct, the hypothesis is
  that fewer than \<open>2 ^ 64\<close> steps were made (a third of that for the history revision, which an operation advances at most three
  times). \<open>usize\<close> is \<open>nat\<close> with saturation and overflow at 64 bits written out. Loops of the source are structural recursion over what they
  consume, or functions with a measure; the one reader with fuel, \<open>read_pages\<close> of \<open>Log_Buffer_Laws\<close>, is not code of the program but a
  client of it, and one more than the number of matching entries is proved enough. The scope check returns \<open>None\<close> where
  the source would loop on a cycle of parents; that no tree gives such a cycle is proved. Lists of rounds, answers and steps that a
  definition takes are what others do; when such a list ends, the call still waits.

  \<^bold>\<open>Not modelled.\<close> Websocket and TCP input and output, the futures of \<open>request_lifetime.rs\<close>, and the tool server of the MCP
  library (\<open>mcp/runtime.rs\<close>, \<open>mcp/service.rs\<close>): they only drive libraries and the scheduler. Reading of enums and capability lists by derived deserializers: they are parameters. Image decoding and the thumbnail
  transport (\<open>mcp/images.rs\<close>, \<open>mcp/thumbnail.rs\<close>): third-party decoders around a size check. Settings files, the token store, the job
  object, the workspace and the Tauri commands: operating system calls. The command line tools, the TypeScript front end and the
  C++ engine side are other programs.
\<close>

end
